(* ===== verification/Prelude.thy ===== *)
theory Prelude
  imports Main "HOL-Library.Word" "HOL-Library.Multiset"
begin

text \<open>
  Shared vocabulary of the development: the machine-integer types the C and C++ sources use,
  the fact collections that carry the component proofs, and the generic lemmas on lists,
  words and folds that more than one component needs.

  Unsigned integers are fixed-width words, so that every \<open>+\<close>, \<open>-\<close> and \<open>*\<close> wraps exactly where
  the source wraps. Signed integers (\<open>int\<close>, \<open>int64_t\<close>) are HOL integers, because signed
  overflow is undefined in the source languages; every place where the source converts a signed
  value to an unsigned one is written out with \<^const>\<open>word_of_int\<close> and \<^const>\<open>sint\<close>.
\<close>

unbundle bit_operations_syntax

type_synonym u8 = "8 word"
type_synonym u16 = "16 word"
type_synonym u32 = "32 word"
type_synonym u64 = "64 word"
type_synonym uint256 = "256 word"
type_synonym valtype = "u8 list"

named_theorems queue_simps \<open>selectors of the queue model after each queue operation\<close>
named_theorems staker_simps \<open>selectors of the staker model after each staker operation\<close>
named_theorems registry_defs \<open>definitions of the registry operations\<close>
named_theorems wf_intros \<open>preservation of well-formedness invariants\<close>

section \<open>Lists\<close>

lemma list_all_nth_upt: "list_all P xs \<longleftrightarrow> (\<forall>i<length xs. P (xs ! i))"
  by (simp add: list_all_length)

text \<open>Swapping two positions of a list permutes it.\<close>

lemma mset_swap_nth:
  assumes "i < length xs" and "j < length xs"
  shows "mset (xs[i := xs ! j, j := xs ! i]) = mset xs"
  using assms mset_swap [OF assms(2,1)] by (cases "i = j") (auto simp: list_update_swap)

lemma sum_list_map_filter_le:
  fixes f :: "'a \<Rightarrow> nat"
  shows "sum_list (map f (filter P xs)) \<le> sum_list (map f xs)"
  by (induction xs) auto

lemma fold_add_word:
  fixes f :: "'a \<Rightarrow> 'w::len word"
  shows "fold (\<lambda>x acc. acc + f x) xs a = a + sum_list (map f xs)"
  by (induction xs arbitrary: a) (auto simp: algebra_simps)

lemma unat_sum_list_word:
  fixes f :: "'a \<Rightarrow> 'w::len word"
  assumes "(\<Sum>x\<leftarrow>xs. unat (f x)) < 2 ^ LENGTH('w)"
  shows "unat (sum_list (map f xs)) = (\<Sum>x\<leftarrow>xs. unat (f x))"
  using assms
proof (induction xs)
  case Nil
  then show ?case by simp
next
  case (Cons x xs)
  then have "unat (sum_list (map f xs)) = (\<Sum>x\<leftarrow>xs. unat (f x))" by simp
  with Cons.prems show ?case
    by (simp add: unat_word_ariths)
qed

section \<open>Words\<close>

lemma unat_of_nat_small:
  "n < 2 ^ LENGTH('w::len) \<Longrightarrow> unat (of_nat n :: 'w word) = n"
  by (simp add: unat_of_nat take_bit_nat_eq_self)

lemma unat_add_small:
  "unat (a::'w::len word) + unat b < 2 ^ LENGTH('w) \<Longrightarrow> unat (a + b) = unat a + unat b"
  by (simp add: unat_word_ariths)

lemma unat_mult_small:
  "unat (a::'w::len word) * unat b < 2 ^ LENGTH('w) \<Longrightarrow> unat (a * b) = unat a * unat b"
  by (simp add: unat_word_ariths)

lemma unat_bound_word: "unat (a::'w::len word) < 2 ^ LENGTH('w)"
  by (rule unsigned_less)

lemma unat_Suc_small:
  "unat (a::'w::len word) + 1 < 2 ^ LENGTH('w) \<Longrightarrow> unat (a + 1) = unat a + 1"
  by (simp add: unat_word_ariths)

lemma take_bit_full [simp]: "take_bit 64 (a::u64) = a" "take_bit 32 (b::u32) = b" "take_bit 8 (c::u8) = c"
  by (simp_all add: take_bit_word_eq_self)

lemma unat_ucast_up [simp]: "unat (ucast (a :: u32) :: u64) = unat a" "unat (ucast (b :: u8) :: u32) = unat b"
  using unat_bound_word [of a] unat_bound_word [of b]
  by (simp_all add: unsigned_ucast_eq take_bit_nat_eq_self)


end
