(* ===== verification/OrdMap.thy ===== *)
theory OrdMap
  imports Prelude "HOL-Library.List_Lexorder" "HOL-Library.Char_ord"
begin

text \<open>
  The source keeps its state in \<open>std::map\<close> containers and iterates over them in ascending key
  order. The model of a \<open>std::map\<close> is an association list in strictly ascending key order:
  \<open>find\<close>/\<open>count\<close> read it with \<^const>\<open>map_of\<close>, \<open>m[k] = v\<close> is \<open>om_put\<close>, \<open>m.erase(k)\<close> is
  \<open>om_erase\<close>, and a range-based loop is a recursion over the list. The locale \<open>ordered_map\<close>
  states what clients rely on; it is interpreted on these operations at the end.
\<close>

type_synonym ('k, 'v) omap = "('k \<times> 'v) list"

fun om_put :: "'k::linorder \<Rightarrow> 'v \<Rightarrow> ('k, 'v) omap \<Rightarrow> ('k, 'v) omap" where
  "om_put k v [] = [(k, v)]"
| "om_put k v ((k', v') # m) =
     (if k < k' then (k, v) # (k', v') # m
      else if k = k' then (k, v) # m
      else (k', v') # om_put k v m)"

definition om_erase :: "'k \<Rightarrow> ('k, 'v) omap \<Rightarrow> ('k, 'v) omap" where
  "om_erase k m = filter (\<lambda>p. fst p \<noteq> k) m"

definition om_count :: "'k \<Rightarrow> ('k, 'v) omap \<Rightarrow> bool" where
  "om_count k m = (map_of m k \<noteq> None)"

text \<open>\<open>m[k]\<close> on a missing key default-constructs the value.\<close>

definition om_at :: "'v \<Rightarrow> ('k, 'v) omap \<Rightarrow> 'k \<Rightarrow> 'v" where
  "om_at d m k = (case map_of m k of None \<Rightarrow> d | Some v \<Rightarrow> v)"

definition om_wf :: "('k::linorder, 'v) omap \<Rightarrow> bool" where
  "om_wf m = sorted_wrt (<) (map fst m)"

definition om_map_vals :: "('v \<Rightarrow> 'w) \<Rightarrow> ('k, 'v) omap \<Rightarrow> ('k, 'w) omap" where
  "om_map_vals f m = map (\<lambda>(k, v). (k, f v)) m"

lemma om_wf_Nil [simp, wf_intros]: "om_wf []"
  by (simp add: om_wf_def)

lemma om_wf_Cons: "om_wf ((k, v) # m) \<longleftrightarrow> (\<forall>k' \<in> fst ` set m. k < k') \<and> om_wf m"
  by (auto simp: om_wf_def)

lemma om_wf_distinct: "om_wf m \<Longrightarrow> distinct (map fst m)"
  by (simp add: om_wf_def strict_sorted_iff)

lemma map_of_om_put [simp]: "map_of (om_put k v m) = (map_of m)(k \<mapsto> v)"
  by (induction k v m rule: om_put.induct) auto

lemma map_of_om_erase [simp]: "map_of (om_erase k m) = (map_of m)(k := None)"
  by (induction m) (auto simp: om_erase_def)

lemma map_of_om_map_vals [simp]: "map_of (om_map_vals f m) k = map_option f (map_of m k)"
  by (simp add: om_map_vals_def map_of_map)

lemma keys_om_put [simp]: "fst ` set (om_put k v m) = insert k (fst ` set m)"
  by (induction k v m rule: om_put.induct) auto

lemma keys_om_map_vals [simp]: "map fst (om_map_vals f m) = map fst m"
  by (auto simp: om_map_vals_def)

lemma om_wf_put [simp, wf_intros]: "om_wf m \<Longrightarrow> om_wf (om_put k v m)"
  by (induction k v m rule: om_put.induct) (auto simp: om_wf_Cons)

lemma om_wf_erase [simp, wf_intros]: "om_wf m \<Longrightarrow> om_wf (om_erase k m)"
  by (induction m) (auto simp: om_wf_Cons om_erase_def)

lemma om_wf_map_vals [simp, wf_intros]: "om_wf m \<Longrightarrow> om_wf (om_map_vals f m)"
  by (simp add: om_wf_def)

lemma om_count_put [simp]: "om_count k (om_put k' v m) \<longleftrightarrow> k = k' \<or> om_count k m"
  by (auto simp: om_count_def)

lemma om_count_Nil [simp]: "\<not> om_count k []"
  by (simp add: om_count_def)

lemma om_count_iff: "om_count k m \<longleftrightarrow> k \<in> fst ` set m"
  by (auto simp: om_count_def map_of_eq_None_iff image_iff)

lemma om_count_map_vals [simp]: "om_count k (om_map_vals f m) = om_count k m"
  by (simp add: om_count_def)

lemma om_at_put [simp]: "om_at d (om_put k v m) k' = (if k' = k then v else om_at d m k')"
  by (simp add: om_at_def)

lemma om_at_Some: "map_of m k = Some v \<Longrightarrow> om_at d m k = v"
  by (simp add: om_at_def)

lemma om_in_set_iff: "om_wf m \<Longrightarrow> (k, v) \<in> set m \<longleftrightarrow> map_of m k = Some v"
  using om_wf_distinct [of m] by (auto simp: map_of_eq_Some_iff)

text \<open>How a sum over all entries changes when one entry is written or erased.\<close>

lemma om_put_fresh_sum:
  fixes f :: "'k::linorder \<Rightarrow> 'v \<Rightarrow> 'a::comm_monoid_add"
  assumes "map_of m k = None"
  shows "(\<Sum>(k, v)\<leftarrow>om_put k v m. f k v) = f k v + (\<Sum>(k, v)\<leftarrow>m. f k v)"
  using assms
  by (induction k v m rule: om_put.induct) (auto simp: ac_simps split: if_splits)

lemma om_put_sum:
  fixes f :: "'k::linorder \<Rightarrow> 'v \<Rightarrow> 'a::ab_group_add"
  assumes "om_wf m" and "map_of m k = Some w"
  shows "(\<Sum>(k, v)\<leftarrow>om_put k v m. f k v) = (\<Sum>(k, v)\<leftarrow>m. f k v) - f k w + f k v"
  using assms
proof (induction k v m rule: om_put.induct)
  case (2 k v k' v' m)
  then show ?case
    by (fastforce simp: om_wf_Cons algebra_simps dest: map_of_SomeD split: if_splits)
qed simp

section \<open>The ordered-map interface\<close>

text \<open>
  What the registry code relies on: lookup after write and erase, iteration order, and that a
  sum over all values moves by the difference of the written value. \<open>total\<close> is the sum of the
  values of an integer-valued map (an account ledger).
\<close>

locale ordered_map =
  fixes find :: "'m \<Rightarrow> 'k::linorder \<Rightarrow> int option"
    and put :: "'k \<Rightarrow> int \<Rightarrow> 'm \<Rightarrow> 'm"
    and erase :: "'k \<Rightarrow> 'm \<Rightarrow> 'm"
    and total :: "'m \<Rightarrow> int"
    and wf :: "'m \<Rightarrow> bool"
  assumes find_put: "wf m \<Longrightarrow> find (put k v m) = (find m)(k \<mapsto> v)"
    and find_erase: "wf m \<Longrightarrow> find (erase k m) = (find m)(k := None)"
    and wf_put: "wf m \<Longrightarrow> wf (put k v m)"
    and wf_erase: "wf m \<Longrightarrow> wf (erase k m)"
    and total_put: "wf m \<Longrightarrow>
      total (put k v m) = total m - (case find m k of None \<Rightarrow> 0 | Some w \<Rightarrow> w) + v"
begin

definition credit :: "'k \<Rightarrow> int \<Rightarrow> 'm \<Rightarrow> 'm" where
  "credit k d m = put k ((case find m k of None \<Rightarrow> 0 | Some w \<Rightarrow> w) + d) m"

lemma wf_credit: "wf m \<Longrightarrow> wf (credit k d m)"
  by (simp add: credit_def wf_put)

lemma total_credit: "wf m \<Longrightarrow> total (credit k d m) = total m + d"
  by (simp add: credit_def total_put)

lemma find_credit_other: "wf m \<Longrightarrow> j \<noteq> k \<Longrightarrow> find (credit k d m) j = find m j"
  by (simp add: credit_def find_put)

lemma total_credit_two:
  "wf m \<Longrightarrow> total (credit j e (credit k d m)) = total m + (d + e)"
  by (simp add: total_credit wf_credit)

end

definition om_total :: "('k, int) omap \<Rightarrow> int" where
  "om_total m = (\<Sum>(k, v)\<leftarrow>m. v)"

interpretation ledger: ordered_map map_of om_put om_erase om_total om_wf
proof (unfold_locales, goal_cases)
  case (5 m k v)
  show ?case
  proof (cases "map_of m k")
    case None
    then show ?thesis
      using om_put_fresh_sum [of m k "\<lambda>k v. v" v] by (simp add: om_total_def)
  next
    case (Some w)
    then show ?thesis
      using om_put_sum [OF 5 Some, of "\<lambda>k v. v" v] by (simp add: om_total_def)
  qed
qed simp_all

end
