(* ===== verification/Uisqrt.thy ===== *)
theory Uisqrt
  imports Prelude
begin

text \<open>
  \<^verbatim>\<open>src/util/uisqrt.cpp\<close>, 32-bit versions: the table-driven \<open>bit_length\<close> and the integer
  square root that turns a staker's net block count into its voting weight. The Newton loop
  divides by its current estimate; division by zero would trap, so the loop returns an option
  with \<open>None\<close> for the trap. The theorems show that the trap is unreachable and that the result
  is the floor of the square root for every 32-bit input, although seven entries of the table
  are not the bit length of their index.
\<close>

definition bit_length_table :: "u8 list" where
  "bit_length_table = [
     255, 1, 2, 2, 3, 3, 3, 3, 4, 4, 4, 4, 4, 4, 4, 4, 5, 5, 5, 5, 5, 5, 5, 5, 5, 6, 6, 6, 6, 6, 6, 6,
     6, 6, 6, 6, 6, 6, 6, 6, 6, 6, 6, 6, 6, 6, 6, 6, 6, 6, 6, 6, 6, 6, 6, 6, 6, 6, 6, 6, 6, 6, 6, 6,
     7, 7, 7, 7, 7, 7, 7, 7, 7, 7, 7, 7, 7, 7, 7, 7, 7, 7, 7, 7, 7, 7, 7, 7, 7, 7, 7, 7, 7, 7, 7, 7,
     7, 7, 7, 7, 7, 7, 7, 7, 7, 7, 7, 7, 7, 7, 7, 7, 7, 7, 7, 7, 7, 7, 7, 7, 7, 7, 7, 7, 7, 7, 7, 7,
     8, 8, 8, 8, 8, 8, 8, 8, 8, 8, 8, 8, 8, 8, 8, 8, 8, 8, 8, 8, 8, 8, 8, 8, 8, 8, 8, 8, 8, 8, 8, 8,
     8, 8, 8, 8, 8, 8, 8, 8, 8, 8, 8, 8, 8, 8, 8, 8, 8, 8, 8, 8, 8, 8, 8, 8, 8, 8, 8, 8, 8, 8, 8, 8,
     8, 8, 8, 8, 8, 8, 8, 8, 8, 8, 8, 8, 8, 8, 8, 8, 8, 8, 8, 8, 8, 8, 8, 8, 8, 8, 8, 8, 8, 8, 8, 8,
     8, 8, 8, 8, 8, 8, 8, 8, 8, 8, 8, 8, 8, 8, 8, 8, 8, 8, 8, 8, 8, 8, 8, 8, 8, 8, 8, 8, 8, 8, 8, 8]"

definition bit_length :: "u32 \<Rightarrow> u32" where
  "bit_length v =
     (if v AND push_bit 24 (- 1) \<noteq> 0
      then 24 + ucast (bit_length_table ! unat (drop_bit 24 v))
      else if v AND push_bit 16 (- 1) \<noteq> 0
      then 16 + ucast (bit_length_table ! unat (drop_bit 16 v))
      else if v AND push_bit 8 (- 1) \<noteq> 0
      then 8 + ucast (bit_length_table ! unat (drop_bit 8 v))
      else ucast (bit_length_table ! unat v))"

text \<open>The \<open>while (y < x)\<close> loop; \<open>x\<close> is the estimate and \<open>y\<close> the next one.\<close>

function uisqrt_loop :: "u32 \<Rightarrow> u32 \<Rightarrow> u32 \<Rightarrow> u32 option" where
  "uisqrt_loop n x y =
     (if y < x
      then (if y = 0 then None else uisqrt_loop n y (drop_bit 1 (y + n div y)))
      else Some x)"
  by pat_completeness auto
termination
  by (relation "measure (\<lambda>(n, x, y). unat x)") (auto simp: word_less_nat_alt)

definition uisqrt_start :: "u32 \<Rightarrow> u32" where
  "uisqrt_start n =
     (let b = bit_length n; x = push_bit (unat (drop_bit 1 b)) 1
      in if b XOR x \<noteq> 0 then push_bit 1 x else x)"

definition uisqrt_checked :: "u32 \<Rightarrow> u32 option" where
  "uisqrt_checked n =
     (if n = 0 then Some 0
      else let x = uisqrt_start n
           in if x = 0 then None else uisqrt_loop n x (drop_bit 1 (x + n div x)))"

text \<open>The value seen by the callers; by \<open>uisqrt_checked_root\<close> below the default is never taken.\<close>

definition uisqrt :: "u32 \<Rightarrow> u32" where
  "uisqrt n = (case uisqrt_checked n of None \<Rightarrow> 0 | Some r \<Rightarrow> r)"

declare uisqrt_loop.simps [simp del]

section \<open>The bit length bounds its argument\<close>

lemma length_bit_length_table [simp]: "length bit_length_table = 256"
  by (simp add: bit_length_table_def)

lemma bit_length_table_ok:
  "list_all (\<lambda>(i, t). i < 2 ^ unat t \<and> (i = 0 \<or> 1 \<le> unat t \<and> unat t \<le> 8))
     (tl (enumerate 0 bit_length_table))"
  by (simp add: bit_length_table_def)

lemma bit_length_table_bound:
  assumes "0 < i" and "i < 256"
  shows "i < 2 ^ unat (bit_length_table ! i)"
    and "unat (bit_length_table ! i) \<le> 8" and "1 \<le> unat (bit_length_table ! i)"
proof -
  have "tl (enumerate 0 bit_length_table) ! (i - 1) = (i, bit_length_table ! i)"
    using assms by (simp add: nth_tl nth_enumerate_eq)
  moreover have "i - 1 < length (tl (enumerate 0 bit_length_table))"
    using assms by simp
  ultimately have "(i, bit_length_table ! i) \<in> set (tl (enumerate 0 bit_length_table))"
    by (metis nth_mem)
  with bit_length_table_ok assms
  show "i < 2 ^ unat (bit_length_table ! i)" "unat (bit_length_table ! i) \<le> 8"
    "1 \<le> unat (bit_length_table ! i)"
    by (auto simp: list_all_iff)
qed

lemma and_high_mask_zero:
  fixes v :: "'w::len word"
  shows "v AND push_bit k (- 1) = 0 \<longleftrightarrow> unat v < 2 ^ k"
proof -
  have "v AND push_bit k (- 1) = 0 \<longleftrightarrow> take_bit k v = v"
  proof
    assume a: "v AND push_bit k (- 1) = 0"
    show "take_bit k v = v"
    proof (rule bit_word_eqI)
      fix n assume "n < LENGTH('w)"
      with a have "\<not> (bit v n \<and> k \<le> n)" by (auto simp: bit_eq_iff bit_simps)
      then show "bit (take_bit k v) n = bit v n" by (auto simp: bit_simps)
    qed
  next
    assume "take_bit k v = v"
    then have "v AND push_bit k (- 1) = take_bit k v AND push_bit k (- 1)" by simp
    also have "\<dots> = 0" by (rule bit_word_eqI) (auto simp: bit_simps)
    finally show "v AND push_bit k (- 1) = 0" .
  qed
  also have "\<dots> \<longleftrightarrow> unat v < 2 ^ k"
    by (metis take_bit_nat_eq_self_iff unsigned_take_bit_eq unsigned_word_eqI)
  finally show ?thesis .
qed

lemma unat_add_table:
  assumes "r \<le> 24" and "unat t \<le> 8"
  shows "unat (of_nat r + ucast (t::u8) :: u32) = r + unat t"
proof -
  have t: "unat (ucast t :: u32) = unat t"
    by (simp add: unsigned_ucast_eq take_bit_nat_eq_self unat_bound_word [of t, THEN order.strict_trans])
  have r: "unat (of_nat r :: u32) = r"
    using assms by (simp add: unat_of_nat_small)
  show ?thesis
    using assms by (subst unat_add_small) (simp_all add: t r)
qed

text \<open>One row of the cascade: the chunk above bit \<open>k\<close> is a non-zero byte.\<close>

lemma bit_length_row:
  assumes "\<not> unat n < 2 ^ k" and "unat n < 2 ^ (k + 8)" and "k \<le> 24"
  defines "b \<equiv> of_nat k + ucast (bit_length_table ! unat (drop_bit k n)) :: u32"
  shows "unat n < 2 ^ unat b \<and> 1 \<le> unat b \<and> unat b \<le> 32"
proof -
  let ?i = "unat n div 2 ^ k"
  have i: "unat (drop_bit k n) = ?i"
    by (subst unat_drop_bit_eq) (simp only: drop_bit_eq_div)
  have i0: "0 < ?i" using assms(1) by (simp add: div_greater_zero_iff)
  have i1: "?i < 256" using assms(2) by (simp add: power_add less_mult_imp_div_less mult.commute)
  let ?t = "bit_length_table ! ?i"
  note tb = bit_length_table_bound [OF i0 i1]
  have b: "unat b = k + unat ?t"
    unfolding b_def i using unat_add_table [OF assms(3) tb(2)] by simp
  have "unat n < (?i + 1) * 2 ^ k"
    by (metis add.commute dividend_less_div_times mult.commute mult_Suc plus_1_eq_Suc
        zero_less_numeral zero_less_power)
  also have "\<dots> \<le> 2 ^ unat ?t * 2 ^ k"
    using tb(1) by (intro mult_right_mono) auto
  finally show ?thesis
    using tb assms(3) by (simp add: b power_add mult.commute)
qed

lemma bit_length_bound:
  assumes "n \<noteq> 0"
  shows "unat n < 2 ^ unat (bit_length n)" "1 \<le> unat (bit_length n)" "unat (bit_length n) \<le> 32"
proof -
  have n0: "\<not> unat n < 2 ^ 0" using assms by (simp add: unat_eq_zero)
  have n32: "unat n < 2 ^ (24 + 8)" using unat_bound_word [of n] by simp
  have "unat n < 2 ^ unat (bit_length n) \<and> 1 \<le> unat (bit_length n) \<and> unat (bit_length n) \<le> 32"
    unfolding bit_length_def and_high_mask_zero
    using bit_length_row [of n 24] bit_length_row [of n 16] bit_length_row [of n 8]
      bit_length_row [of n 0] n0 n32
    by simp
  then show "unat n < 2 ^ unat (bit_length n)" "1 \<le> unat (bit_length n)"
    "unat (bit_length n) \<le> 32" by auto
qed

section \<open>The Newton iteration\<close>

text \<open>\<open>is_root r n\<close>: \<open>r\<close> is the floor of the square root of \<open>n\<close>.\<close>

definition is_root :: "nat \<Rightarrow> nat \<Rightarrow> bool" where
  "is_root r n \<longleftrightarrow> r * r \<le> n \<and> n < (r + 1) * (r + 1)"

lemma newton_ge_root:
  fixes x r n :: nat
  assumes "0 < x" and "r * r \<le> n"
  shows "r \<le> (x + n div x) div 2"
proof -
  have "2 * r \<le> x + n div x"
  proof (cases "2 * r \<le> x")
    case False
    have "int (2 * r * x) \<le> int (x * x + r * r)"
      using zero_le_power2 [of "int x - int r"]
      by (simp add: power2_eq_square algebra_simps)
    then have "2 * r * x \<le> x * x + r * r" by (simp only: of_nat_le_iff)
    then have "(2 * r - x) * x \<le> n"
      using assms(2) by (simp add: diff_mult_distrib)
    then have "2 * r - x \<le> n div x"
      using assms(1) by (simp add: less_eq_div_iff_mult_less_eq)
    then show ?thesis by simp
  qed simp
  then show ?thesis by simp
qed

lemma newton_no_overflow:
  fixes x r n :: nat
  assumes "r \<le> x" and "0 < r" and "n < (r + 1) * (r + 1)" and "x \<le> 2 ^ 17" and "n < 2 ^ 32"
  shows "x + n div x < 2 ^ 32"
proof -
  have "n \<le> (r + 2) * r" using assms(3) by simp
  then have "n div x \<le> r + 2"
    by (metis assms(1,2) div_le_mono2 div_le_mono le_trans nonzero_mult_div_cancel_right
        less_numeral_extra(3))
  then show ?thesis using assms by simp
qed

text \<open>
  The invariant of the loop: the estimate is positive and not below the root, and \<open>y\<close> is its
  Newton successor. When the loop stops the estimate is the root.
\<close>

lemma unat_newton_step:
  assumes "unat x + unat n div unat x < 2 ^ 32"
  shows "unat (drop_bit 1 (x + n div x) :: u32) = (unat x + unat n div unat x) div 2"
proof -
  have "unat (x + n div x) = unat x + unat n div unat x"
    using assms by (simp add: unat_add_small unat_div)
  then show ?thesis by (subst unat_drop_bit_eq) (simp only: drop_bit_eq_div power_one_right)
qed

lemma uisqrt_loop_correct:
  assumes "is_root r (unat n)" and "0 < r" and "r \<le> unat x" and "unat x \<le> 2 ^ 17"
    and "y = drop_bit 1 (x + n div x)"
  shows "\<exists>s. uisqrt_loop n x y = Some s \<and> unat s = r"
  using assms
proof (induction n x y rule: uisqrt_loop.induct)
  case (1 n x y)
  let ?N = "unat n" and ?X = "unat x"
  have root: "r * r \<le> ?N" "?N < (r + 1) * (r + 1)"
    using "1.prems"(1) by (auto simp: is_root_def)
  have x0: "0 < ?X" using "1.prems" by simp
  have "?X + ?N div ?X < 2 ^ 32"
    using newton_no_overflow [OF "1.prems"(3,2) root(2) "1.prems"(4)] unat_bound_word [of n] by simp
  then have Y: "unat y = (?X + ?N div ?X) div 2"
    unfolding "1.prems"(5) by (rule unat_newton_step)
  have ry: "r \<le> unat y" unfolding Y using newton_ge_root [OF x0 root(1)] .
  show ?case
  proof (cases "y < x")
    case True
    then have "unat y \<le> 2 ^ 17" using "1.prems"(4) by (simp add: word_less_nat_alt)
    moreover have y0: "y \<noteq> 0" using ry "1.prems"(2) by auto
    ultimately have "\<exists>s. uisqrt_loop n y (drop_bit 1 (y + n div y)) = Some s \<and> unat s = r"
      using "1.IH" [OF True y0 "1.prems"(1,2) ry] by simp
    with True y0 show ?thesis by (simp add: uisqrt_loop.simps [of n x y])
  next
    case False
    then have "?X \<le> ?N div ?X" using Y by (simp add: word_less_nat_alt)
    then have "?X * ?X \<le> ?N" using x0 by (simp add: less_eq_div_iff_mult_less_eq)
    then have "?X < r + 1" using root(2) by (meson le_less_trans mult_le_mono not_le)
    with "1.prems"(3) False show ?thesis by (simp add: uisqrt_loop.simps [of n x y])
  qed
qed

lemma unat_one_shifted: "k < 32 \<Longrightarrow> unat (push_bit k (1::u32)) = 2 ^ k"
proof -
  assume "k < 32"
  then have "(2::nat) ^ k < 2 ^ 32" by (intro power_strict_increasing) auto
  then have "unat (of_nat (2 ^ k) :: u32) = 2 ^ k" by (intro unat_of_nat_small) simp
  then show ?thesis by (simp add: push_bit_eq_mult)
qed

lemma double_less_power: "3 \<le> h \<Longrightarrow> 2 * h + 1 < 2 ^ (h::nat)"
  by (induction h rule: dec_induct) auto

lemma uisqrt_start_unat:
  assumes "n \<noteq> 0"
  defines "h \<equiv> unat (bit_length n) div 2"
  shows "unat (uisqrt_start n) = (if unat (bit_length n) = 2 ^ h then 2 ^ h else 2 ^ (h + 1))"
proof -
  let ?b = "bit_length n"
  have h: "unat (drop_bit 1 ?b) = h" "h \<le> 16"
    using bit_length_bound(3) [OF assms(1)]
    unfolding h_def by (subst unat_drop_bit_eq, simp_all only: drop_bit_eq_div) auto
  let ?x = "push_bit h (1::u32)"
  have x: "unat ?x = 2 ^ h" "unat (push_bit 1 ?x) = 2 ^ (h + 1)"
    using unat_one_shifted [of h] unat_one_shifted [of "h + 1"] h(2)
    by (simp_all only: push_bit_push_bit add.commute)
  have "?b XOR ?x = 0 \<longleftrightarrow> unat ?b = 2 ^ h"
    using x(1) by (metis word_unat_eq_iff xor_self_eq bit.xor_left_self xor.right_neutral)
  then show ?thesis
    using x h(1) by (auto simp: uisqrt_start_def Let_def)
qed

lemma uisqrt_start_bound:
  assumes "n \<noteq> 0" and "r * r \<le> unat n"
  shows "r \<le> unat (uisqrt_start n)" "unat (uisqrt_start n) \<le> 2 ^ 17" "uisqrt_start n \<noteq> 0"
proof -
  let ?B = "unat (bit_length n)"
  let ?h = "?B div 2"
  note b = bit_length_bound [OF assms(1)]
  note start = uisqrt_start_unat [OF assms(1)]
  have h16: "?h \<le> 16" using b(3) by simp
  have "r * r < 2 ^ ?B" using b(1) assms(2) by simp
  moreover have "2 ^ ?B \<le> (unat (uisqrt_start n) + 1) * (unat (uisqrt_start n) + 1)"
  proof (cases "?B = 2 ^ ?h")
    case True
    have "?B < 6"
    proof (rule ccontr)
      assume "\<not> ?B < 6"
      then have "2 * ?h + 1 < 2 ^ ?h" by (intro double_less_power) auto
      with True show False by linarith
    qed
    then have "?B \<in> {1,2,3,4,5}" using b(2) by auto
    with True start show ?thesis by auto
  next
    case False
    have "?B \<le> (?h + 1) + (?h + 1)" by simp
    then have "(2::nat) ^ ?B \<le> 2 ^ ((?h + 1) + (?h + 1))" by (rule power_increasing) simp
    also have "\<dots> = 2 ^ (?h + 1) * 2 ^ (?h + 1)" by (rule power_add)
    also have "\<dots> \<le> (2 ^ (?h + 1) + 1) * (2 ^ (?h + 1) + 1)" by (intro mult_le_mono) simp_all
    finally show ?thesis using False start by simp
  qed
  ultimately have "r * r < (unat (uisqrt_start n) + 1) * (unat (uisqrt_start n) + 1)" by simp
  then show "r \<le> unat (uisqrt_start n)"
    by (metis Suc_eq_plus1 less_Suc_eq_le mult_le_mono not_le)
  have "(2::nat) ^ (?h + 1) \<le> 2 ^ 17" using h16 by (intro power_increasing) auto
  then show "unat (uisqrt_start n) \<le> 2 ^ 17" using start by (auto split: if_splits)
  show "uisqrt_start n \<noteq> 0" using start by (auto split: if_splits)
qed

lemma is_root_ex: "\<exists>r. is_root r n"
proof (induction n)
  case 0
  show ?case by (rule exI [of _ 0]) (simp add: is_root_def)
next
  case (Suc n)
  then obtain r where r: "r * r \<le> n" "n < (r + 1) * (r + 1)" by (auto simp: is_root_def)
  show ?case
  proof (cases "Suc n < (r + 1) * (r + 1)")
    case True
    with r show ?thesis by (intro exI [of _ r]) (simp add: is_root_def)
  next
    case False
    with r have "Suc n = (r + 1) * (r + 1)" by linarith
    then show ?thesis by (intro exI [of _ "r + 1"]) (simp add: is_root_def)
  qed
qed

lemma uisqrt_checked_root: "\<exists>s. uisqrt_checked n = Some s \<and> is_root (unat s) (unat n)"
proof (cases "n = 0")
  case True
  then show ?thesis by (simp add: uisqrt_checked_def is_root_def)
next
  case False
  obtain r where r: "is_root r (unat n)" using is_root_ex by blast
  have r0: "0 < r"
    using r False by (cases r) (auto simp: is_root_def unat_eq_zero)
  note st = uisqrt_start_bound [OF False, of r]
  have "\<exists>s. uisqrt_loop n (uisqrt_start n)
          (drop_bit 1 (uisqrt_start n + n div uisqrt_start n)) = Some s \<and> unat s = r"
    using st r by (intro uisqrt_loop_correct [OF r r0]) (auto simp: is_root_def)
  then show ?thesis using False st r by (auto simp: uisqrt_checked_def Let_def is_root_def)
qed

lemma uisqrt_is_root: "is_root (unat (uisqrt n)) (unat n)"
  using uisqrt_checked_root [of n] by (auto simp: uisqrt_def)

text \<open>
  For every 32-bit input the integer square root returns (its Newton loop ends without ever
  dividing by zero) and the result is the floor of the square root.
\<close>

theorem uisqrt_floor_sqrt:
  "\<exists>s. uisqrt_checked n = Some s \<and> unat s * unat s \<le> unat n \<and> unat n < (unat s + 1) * (unat s + 1)"
  using uisqrt_checked_root [of n] by (auto simp: is_root_def)

end
