(* ===== verification/ChainParams.thy ===== *)
theory ChainParams
  imports OrdMap Uisqrt "HOL-Library.Signed_Division"
begin

text \<open>
  Protocol parameters: the fork schedule of \<^verbatim>\<open>src/blockchain/chainparams.cpp\<close> with \<open>GetFork\<close>, the
  qPoS constants of \<^verbatim>\<open>src/qpos/QPConstants.hpp\<close>, and the monetary rules of
  \<^verbatim>\<open>src/blockchain/main.cpp\<close> that the registry uses (block reward and staker price).
  The global \<open>fTestNet\<close> is an argument. Heights and amounts are signed in the source and
  integers here; \<open>/\<close> on them is truncating division (\<open>sdiv\<close>).
\<close>

section \<open>Fork numbers (client/clientversion.h)\<close>

abbreviation (input) XST_GENESIS :: int where "XST_GENESIS \<equiv> 0"
abbreviation (input) XST_FORK002 :: int where "XST_FORK002 \<equiv> 1"
abbreviation (input) XST_FORK004 :: int where "XST_FORK004 \<equiv> 2"
abbreviation (input) XST_FORK005 :: int where "XST_FORK005 \<equiv> 3"
abbreviation (input) XST_FORK006 :: int where "XST_FORK006 \<equiv> 4"
abbreviation (input) XST_FORKPURCHASE :: int where "XST_FORKPURCHASE \<equiv> 5"
abbreviation (input) XST_FORKPURCHASE2 :: int where "XST_FORKPURCHASE2 \<equiv> 6"
abbreviation (input) XST_FORKPURCHASE3 :: int where "XST_FORKPURCHASE3 \<equiv> 7"
abbreviation (input) XST_FORKQPOS :: int where "XST_FORKQPOS \<equiv> 8"
abbreviation (input) XST_FORKQPOSB :: int where "XST_FORKQPOSB \<equiv> 9"
abbreviation (input) XST_FORKNFT :: int where "XST_FORKNFT \<equiv> 10"
abbreviation (input) XST_FORKFEELESS :: int where "XST_FORKFEELESS \<equiv> 11"
abbreviation (input) XST_FORKMISSFIX :: int where "XST_FORKMISSFIX \<equiv> 12"
abbreviation (input) XST_FORKREINSTATE :: int where "XST_FORKREINSTATE \<equiv> 13"
abbreviation (input) XST_FORKMISSFIX2 :: int where "XST_FORKMISSFIX2 \<equiv> 14"
abbreviation (input) XST_FORKFEELESS2 :: int where "XST_FORKFEELESS2 \<equiv> 15"
abbreviation (input) XST_FORKIP64 :: int where "XST_FORKIP64 \<equiv> 16"

section \<open>The fork schedule\<close>

text \<open>
  \<open>map_list_of\<close> fills the map by successive insertions: a height that occurs twice keeps its
  first entry, as \<open>std::map::insert\<close> does.
\<close>

definition om_insert :: "'k::linorder \<times> 'v \<Rightarrow> ('k, 'v) omap \<Rightarrow> ('k, 'v) omap" where
  "om_insert p m = (if om_count (fst p) m then m else om_put (fst p) (snd p) m)"

definition map_list_of :: "('k::linorder \<times> 'v) list \<Rightarrow> ('k, 'v) omap" where
  "map_list_of ps = fold om_insert ps []"

definition mapForksMainNet :: "(int, int) omap" where
  "mapForksMainNet = map_list_of
     [(0, XST_GENESIS), (5460, XST_FORK002), (130669, XST_FORK004), (1732201, XST_FORK005),
      (2378000, XST_FORK006), (3657600, XST_FORKPURCHASE), (3673500, XST_FORKPURCHASE2),
      (3683900, XST_FORKPURCHASE3), (3695100, XST_FORKQPOS), (3695100, XST_FORKQPOSB),
      (3695200, XST_FORKNFT), (3702300, XST_FORKFEELESS), (3719600, XST_FORKMISSFIX),
      (3776758, XST_FORKREINSTATE), (5572400, XST_FORKMISSFIX2), (5798888, XST_FORKFEELESS2),
      (28800000, XST_FORKIP64)]"

definition mapForksTestNet :: "(int, int) omap" where
  "mapForksTestNet = map_list_of
     [(0, XST_GENESIS), (120, XST_FORK002), (130, XST_FORK004), (140, XST_FORK005),
      (145, XST_FORK006), (4204, XST_FORKPURCHASE), (4205, XST_FORKPURCHASE2),
      (4205, XST_FORKPURCHASE3), (17400, XST_FORKQPOS), (22500, XST_FORKQPOSB),
      (22501, XST_FORKNFT), (3965963, XST_FORKFEELESS), (4768119, XST_FORKMISSFIX),
      (99999999, XST_FORKREINSTATE), (99999999, XST_FORKMISSFIX2), (99999999, XST_FORKFEELESS2),
      (99999999, XST_FORKIP64)]"

text \<open>The loop of \<open>GetFork\<close>: it stops at the first entry above the height.\<close>

fun GetFork_loop :: "(int, int) omap \<Rightarrow> int \<Rightarrow> int \<Rightarrow> int" where
  "GetFork_loop [] nHeight nFork = nFork"
| "GetFork_loop ((h, f) # m) nHeight nFork =
     (if h > nHeight then nFork else GetFork_loop m nHeight f)"

definition GetFork :: "bool \<Rightarrow> int \<Rightarrow> int" where
  "GetFork fTestNet nHeight =
     (let mapForks = (if fTestNet then mapForksTestNet else mapForksMainNet)
      in GetFork_loop mapForks nHeight (snd (hd mapForks)))"

section \<open>qPoS constants (qpos/QPConstants.hpp, qpos/QPConstants.cpp)\<close>

definition TRIL :: u64 where "TRIL = 1000000000000"
definition QP_TARGET_SPACING :: u32 where "QP_TARGET_SPACING = 5"
definition QP_STAKER_RECENT_BLOCKS :: u32 where "QP_STAKER_RECENT_BLOCKS = 4096"
definition QP_NOOB_BLOCKS :: u32 where "QP_NOOB_BLOCKS = QP_STAKER_RECENT_BLOCKS * 2"
definition QP_MIN_OF_BLOCKS_MISSED_MAX :: u32 where "QP_MIN_OF_BLOCKS_MISSED_MAX = 16"
definition QP_STAKER_MAX_MISSES_M :: u32 where "QP_STAKER_MAX_MISSES_M = 512"
definition QP_STAKER_MAX_MISSES_1_T :: u32 where "QP_STAKER_MAX_MISSES_1_T = 8"
definition QP_STAKER_MAX_MISSES_2_T :: u32 where "QP_STAKER_MAX_MISSES_2_T = 512"
definition QP_STAKER_REENABLE_WAIT_M :: u32 where "QP_STAKER_REENABLE_WAIT_M = 8640"
definition QP_STAKER_REENABLE_WAIT_T :: u32 where "QP_STAKER_REENABLE_WAIT_T = 6"
definition DOCK_INACTIVE_FRACTION :: int where "DOCK_INACTIVE_FRACTION = 310000000000"
definition BLOCKS_PER_SNAPSHOT :: u32 where "BLOCKS_PER_SNAPSHOT = 240"
definition RECENT_SNAPSHOTS :: u32 where "RECENT_SNAPSHOTS = 144"
definition PERMANENT_SNAPSHOT_RATIO :: u32 where "PERMANENT_SNAPSHOT_RATIO = 90"
definition QP_MIN_ALIAS_LENGTH :: nat where "QP_MIN_ALIAS_LENGTH = 3"
definition QP_MAX_ALIAS_LENGTH :: nat where "QP_MAX_ALIAS_LENGTH = 16"
definition QP_MAX_META_KEY_LENGTH :: nat where "QP_MAX_META_KEY_LENGTH = 16"
definition QP_MAX_META_VALUE_LENGTH :: nat where "QP_MAX_META_VALUE_LENGTH = 40"
definition QP_MIN_SECS_PER_CLAIM :: int where "QP_MIN_SECS_PER_CLAIM = 60 * 60 * 24"
definition QP_MIN_PICO_POWER :: u64 where "QP_MIN_PICO_POWER = 510000000000"
definition STRING_NO_ALIAS :: string where "STRING_NO_ALIAS = ''*''"

definition GetStakerMaxMisses :: "bool \<Rightarrow> int \<Rightarrow> u32" where
  "GetStakerMaxMisses fTestNet nHeight =
     (if fTestNet
      then (if GetFork fTestNet nHeight < XST_FORKMISSFIX
            then QP_STAKER_MAX_MISSES_1_T else QP_STAKER_MAX_MISSES_2_T)
      else QP_STAKER_MAX_MISSES_M)"

section \<open>Block reward and staker price (blockchain/main.cpp)\<close>

definition COIN :: int where "COIN = 1000000"

text \<open>\<open>None\<close> stands for the null block-index pointer.\<close>

definition GetQPoSReward :: "int option \<Rightarrow> int" where
  "GetQPoSReward nMoneySupply =
     (case nMoneySupply of None \<Rightarrow> 0 | Some supply \<Rightarrow> supply sdiv (6311520 * 100))"

definition GetStakerPrice :: "bool \<Rightarrow> u32 \<Rightarrow> int \<Rightarrow> int \<Rightarrow> bool \<Rightarrow> int" where
  "GetStakerPrice fTestNet N nSupply0 nFork fPurchase =
     (let K_SCALE = (if fTestNet then 4000 else 12000);
          K_INCENTIVE = (if fTestNet then 200 else 64);
          K_TIER = (if fTestNet then 64 - 22 else 32 - 11) :: u32;
          blen = uint (bit_length (N + K_TIER));
          nSupply = (if fPurchase then nSupply0 + nSupply0 sdiv 3153600 else nSupply0)
      in if nFork \<ge> XST_FORKPURCHASE3
         then COIN * (((nSupply sdiv COIN) sdiv K_SCALE) * (blen - 1) + K_INCENTIVE * uint N)
         else (nSupply sdiv K_SCALE) * (blen - 1) + K_INCENTIVE * uint N)"

section \<open>The fork schedule only moves forward\<close>

lemma GetFork_loop_mono:
  assumes "h \<le> h'" and "sorted (f # map snd m)" 
  shows "GetFork_loop m h f \<le> GetFork_loop m h' f"
  using assms(2)
proof (induction m arbitrary: f)
  case Nil
  show ?case by simp
next
  case (Cons p m)
  have ge: "sorted (g # map snd l) \<Longrightarrow> g \<le> GetFork_loop l x g" for g l x
  proof (induction l arbitrary: g)
    case (Cons q l)
    then have "g \<le> snd q" "snd q \<le> GetFork_loop l x (snd q)" by auto
    then show ?case by (cases q) auto
  qed simp
  show ?case
  proof (cases "fst p > h")
    case True
    have "sorted (snd p # map snd m)" "f \<le> snd p" using Cons.prems by auto
    with True ge [of "snd p" m h'] show ?thesis by (cases p) auto
  next
    case False
    with Cons assms(1) show ?thesis by (cases p) auto
  qed
qed

lemma mapForks_sorted:
  "sorted (0 # map snd mapForksMainNet)" "sorted (0 # map snd mapForksTestNet)"
  by (simp_all add: mapForksMainNet_def mapForksTestNet_def map_list_of_def om_insert_def om_count_def)

lemma mapForks_hd: "snd (hd mapForksMainNet) = 0" "snd (hd mapForksTestNet) = 0"
  by (simp_all add: mapForksMainNet_def mapForksTestNet_def map_list_of_def om_insert_def om_count_def)

text \<open>
  Rules never go back: on either network a later height is never governed by an earlier fork.
\<close>

theorem GetFork_mono: "h \<le> h' \<Longrightarrow> GetFork fTestNet h \<le> GetFork fTestNet h'"
proof -
  assume h: "h \<le> h'"
  show ?thesis
    using GetFork_loop_mono [OF h mapForks_sorted(1)] GetFork_loop_mono [OF h mapForks_sorted(2)]
    by (simp add: GetFork_def Let_def mapForks_hd)
qed

theorem GetFork_mono_witness:
  "(3695100::int) \<le> 3719600 \<and> GetFork False 3695100 \<le> GetFork False 3719600"
  using GetFork_mono [of 3695100 3719600 False] by simp

section \<open>Price tiers\<close>

lemma table_rows:
  "drop 21 bit_length_table =
   replicate 4 5 @ replicate 39 6 @ replicate 64 7 @ replicate 128 8"
  by (simp add: bit_length_table_def numeral_eq_Suc)

lemma bit_length_small:
  assumes "unat v < 256"
  shows "bit_length v = ucast (bit_length_table ! unat v)"
proof -
  have "unat v < 2 ^ k \<Longrightarrow> v AND push_bit k (- 1) = 0" if "k < 32" for k
    using and_high_mask_zero [of v k] that by simp
  from this [of 24] this [of 16] this [of 8] assms show ?thesis
    by (simp add: bit_length_def)
qed

lemma mainnet_tier:
  assumes "unat N < 235"
  shows "bit_length (N + 21) =
    (if unat N \<le> 3 then 5 else if unat N \<le> 42 then 6 else if unat N \<le> 106 then 7 else 8)"
proof -
  have u: "unat (N + 21) = 21 + unat N"
    using assms by (subst unat_add_small) auto
  have "bit_length_table ! (21 + unat N) =
      (replicate 4 5 @ replicate 39 6 @ replicate 64 7 @ replicate 128 8) ! unat N"
    using assms by (simp only: table_rows [symmetric] nth_drop length_bit_length_table)
  also have "\<dots> = (if unat N \<le> 3 then 5 else if unat N \<le> 42 then 6 else if unat N \<le> 106 then 7 else 8)"
    using assms by (auto simp: nth_append)
  finally show ?thesis
    using assms u by (simp add: bit_length_small)
qed

text \<open>
  The tiers of the staker price on the main network, by the number \<open>N\<close> of qualified stakers
  already there: the price is one quotient of the supply times the tier plus a linear incentive,
  and the tier changes at 4, 43 and 107 stakers. The first change comes at 4 and not at 11,
  because the length table gives six bits to the values from 25 to 31.
\<close>

theorem GetStakerPrice_tiers:
  assumes "unat N < 235" and "nFork \<ge> XST_FORKPURCHASE3"
  shows "GetStakerPrice False N nSupply nFork False =
    COIN * ((nSupply sdiv COIN sdiv 12000) *
      (if unat N \<le> 3 then 4 else if unat N \<le> 42 then 5 else if unat N \<le> 106 then 6 else 7) +
      64 * uint N)"
  using assms mainnet_tier [OF assms(1)] by (simp add: GetStakerPrice_def Let_def)

theorem GetStakerPrice_tiers_witness:
  "GetStakerPrice False 10 (36000000 * COIN) 10 False = COIN * (3000 * 5 + 640)"
  using GetStakerPrice_tiers [of 10 10 "36000000 * COIN"]
  by (simp add: COIN_def signed_divide_int_def)

end
