(* ===== verification/Vchnum.thy ===== *)
theory Vchnum
  imports Prelude "HOL-Library.Monad_Syntax"
begin

text \<open>
  Platform-independent storage of integers of at most 64 bits:
  \<^verbatim>\<open>src/primitives/vchnum.cpp\<close> and the bounded iterator step \<open>IncrementN\<close> of
  \<^verbatim>\<open>src/primitives/valtype.cpp\<close>. Both conversion loops are kept bit by bit as in the source; the
  lemmas show that they are the big-endian encoding and that they invert each other.
  An iterator into a byte vector is its index; a write outside the vector is \<open>None\<close>.
\<close>

section \<open>Iterators\<close>

text \<open>On failure the iterator is left at the end.\<close>

fun IncrementN :: "valtype \<Rightarrow> nat \<Rightarrow> nat \<Rightarrow> bool \<times> nat" where
  "IncrementN v i 0 = (True, i)"
| "IncrementN v i (Suc n) = (if i = length v then (False, i) else IncrementN v (i + 1) n)"

definition slice :: "valtype \<Rightarrow> nat \<Rightarrow> nat \<Rightarrow> valtype" where
  "slice v b e = take (e - b) (drop b v)"

section \<open>The conversion loops\<close>

definition vchnum_round :: "nat \<Rightarrow> nat" where
  "vchnum_round nSizeIn = (if nSizeIn > 4 then 8 else if nSizeIn > 2 then 4 else 2)"

definition SetNum_byte :: "u64 \<Rightarrow> nat \<Rightarrow> u8" where
  "SetNum_byte nValue i =
     (let k = 8 * i
      in fold (\<lambda>j ch. ch OR ucast (drop_bit k (nValue AND push_bit (k + j) 1))) [0..<8] 0)"

definition SetNum :: "u64 \<Rightarrow> nat \<Rightarrow> valtype" where
  "SetNum nValue nSize =
     (let lst = nSize - 1
      in fold (\<lambda>i vch. vch[lst - i := SetNum_byte nValue i]) [0..<nSize] (replicate nSize 0))"

definition vchnum64 :: "u64 \<Rightarrow> valtype" where "vchnum64 nValue = SetNum nValue 8"
definition vchnum32 :: "u32 \<Rightarrow> valtype" where "vchnum32 nValue = SetNum (ucast nValue) 4"
definition vchnum16 :: "u16 \<Rightarrow> valtype" where "vchnum16 nValue = SetNum (ucast nValue) 2"

definition vchnum_sized :: "nat \<Rightarrow> u64 \<Rightarrow> valtype" where
  "vchnum_sized nSize nValue = SetNum nValue (vchnum_round nSize)"

definition vchnum_Set :: "valtype \<Rightarrow> valtype option" where
  "vchnum_Set vchIn =
     (let nSizeIn = length vchIn;
          nSize = vchnum_round nSizeIn;
          delta = (of_nat nSize - of_nat nSizeIn :: u32)
      in fold (\<lambda>i r. r \<bind> (\<lambda>vch.
                let pos = unat (of_nat i + delta)
                in if pos < length vch then Some (vch[pos := vchIn ! i]) else None))
           [0..<nSizeIn] (Some (replicate nSize 0)))"

definition GetValue :: "valtype \<Rightarrow> u64" where
  "GetValue vch =
     (let lst = length vch - 1
      in fold (\<lambda>i nValue.
           let ch = vch ! (lst - i); k = 8 * i
           in fold (\<lambda>j nValue. nValue + push_bit k (ucast (ch AND push_bit j 1))) [0..<8] nValue)
         [0..<length vch] 0)"

definition GETUINT64 :: "valtype \<Rightarrow> u64 option" where
  "GETUINT64 vch = map_option GetValue (vchnum_Set vch)"

definition GETUINT32 :: "valtype \<Rightarrow> u32 option" where
  "GETUINT32 vch = map_option (\<lambda>vn. ucast (GetValue vn)) (vchnum_Set vch)"

section \<open>Iterators stay inside the vector\<close>

lemma IncrementN_eq:
  "i \<le> length v \<Longrightarrow>
   IncrementN v i n = (if i + n \<le> length v then (True, i + n) else (False, length v))"
  by (induction v i n rule: IncrementN.induct) auto

lemma slice_append [simp]:
  "length xs = a \<Longrightarrow> length ys = b - a \<Longrightarrow> a \<le> b \<Longrightarrow> slice (xs @ ys @ zs) a b = ys"
  by (simp add: slice_def)

lemma length_slice [simp]: "b \<le> length v \<Longrightarrow> length (slice v a b) = b - a"
  by (simp add: slice_def)

section \<open>The loops are the big-endian encoding\<close>

lemma bit_fold_or:
  fixes f :: "nat \<Rightarrow> 'w::len word"
  shows "bit (fold (\<lambda>j c. c OR f j) [0..<m] a) n \<longleftrightarrow> bit a n \<or> (\<exists>j<m. bit (f j) n)"
  by (induction m) (auto simp: bit_simps less_Suc_eq)

lemma SetNum_byte_eq: "i < 8 \<Longrightarrow> SetNum_byte v i = ucast (drop_bit (8 * i) v)"
  by (rule bit_word_eqI) (auto simp: SetNum_byte_def Let_def bit_fold_or bit_simps)

text \<open>Splitting a byte into its bits and adding them gives the byte again.\<close>

lemma take_bit_step:
  "(ucast (take_bit (Suc m) (ch::u8)) :: u64) =
   ucast (take_bit m ch) + ucast (ch AND push_bit m 1)"
proof -
  have "ucast (take_bit m ch) + ucast (ch AND push_bit m 1) =
      (ucast (take_bit m ch) OR ucast (ch AND push_bit m 1) :: u64)"
    by (rule disjunctive_add) (auto simp: bit_simps)
  also have "\<dots> = ucast (take_bit (Suc m) ch)"
    by (rule bit_word_eqI) (auto simp: bit_simps less_Suc_eq dest: bit_imp_le_length)
  finally show ?thesis by simp
qed

lemma byte_bit_sum_upto:
  "fold (\<lambda>j n. n + push_bit k (ucast ((ch::u8) AND push_bit j 1))) [0..<m] (a::u64) =
   a + push_bit k (ucast (take_bit m ch))"
  by (induction m) (auto simp: take_bit_step push_bit_add)

lemma byte_bit_sum:
  "fold (\<lambda>j n. n + push_bit k (ucast ((ch::u8) AND push_bit j 1))) [0..<8] (a::u64) =
   a + push_bit k (ucast ch)"
  using byte_bit_sum_upto [of k ch 8 a] by (simp only: take_bit_full)

lemma bit_sum_bytes:
  fixes f :: "nat \<Rightarrow> u8"
  assumes "m \<le> 8"
  shows "bit (fold (\<lambda>i n. n + push_bit (8 * i) (ucast (f i))) [0..<m] (0::u64)) b \<longleftrightarrow>
    b < 8 * m \<and> bit (f (b div 8)) (b mod 8)"
  using assms
proof (induction m arbitrary: b)
  case 0
  show ?case by simp
next
  case (Suc m)
  let ?r = "fold (\<lambda>i n. n + push_bit (8 * i) (ucast (f i))) [0..<m] (0::u64)"
    and ?p = "push_bit (8 * m) (ucast (f m)) :: u64"
  have IH: "bit ?r b \<longleftrightarrow> b < 8 * m \<and> bit (f (b div 8)) (b mod 8)" for b
    using Suc by simp
  have p: "bit ?p b \<longleftrightarrow> b div 8 = m \<and> bit (f m) (b mod 8)" for b
  proof -
    have "bit ?p b \<longleftrightarrow> 8 * m \<le> b \<and> b - 8 * m < 8 \<and> bit (f m) (b - 8 * m)"
      using Suc.prems by (auto simp: bit_simps dest: bit_imp_le_length)
    moreover have "8 * m \<le> b \<and> b - 8 * m < 8 \<longleftrightarrow> b div 8 = m" by auto
    moreover have "b div 8 = m \<Longrightarrow> b - 8 * m = b mod 8" by (auto simp: minus_mult_div_eq_mod)
    ultimately have "bit ?p b \<longleftrightarrow> b div 8 = m \<and> bit (f m) (b mod 8)" by metis
    then show ?thesis .
  qed
  have "?r + ?p = ?r OR ?p"
    by (rule disjunctive_add) (use IH p in auto)
  then have "bit (?r + ?p) b \<longleftrightarrow> bit ?r b \<or> bit ?p b" by (simp add: bit_simps)
  moreover have "b < 8 * Suc m \<longleftrightarrow> b < 8 * m \<or> b div 8 = m" by auto
  ultimately have "bit (?r + ?p) b \<longleftrightarrow> b < 8 * Suc m \<and> bit (f (b div 8)) (b mod 8)"
    unfolding IH p by auto
  then show ?case by simp
qed

lemma bit_GetValue:
  assumes "length vch \<le> 8"
  shows "bit (GetValue vch) b \<longleftrightarrow>
    b < 8 * length vch \<and> bit (vch ! (length vch - 1 - b div 8)) (b mod 8)"
  using bit_sum_bytes [OF assms, of "\<lambda>i. vch ! (length vch - 1 - i)"]
  by (simp only: GetValue_def Let_def byte_bit_sum)

lemma fold_update_rev:
  assumes "m \<le> n"
  shows "length (fold (\<lambda>i vch. vch[n - Suc i := f i]) [0..<m] (replicate n d)) = n \<and>
    (\<forall>p<n. fold (\<lambda>i vch. vch[n - Suc i := f i]) [0..<m] (replicate n d) ! p =
      (if n - m \<le> p then f (n - Suc p) else d))"
  using assms
proof (induction m)
  case (Suc m)
  define v where "v = fold (\<lambda>i vch. vch[n - Suc i := f i]) [0..<m] (replicate n d)"
  have IH: "length v = n" "\<forall>p<n. v ! p = (if n - m \<le> p then f (n - Suc p) else d)"
    using Suc unfolding v_def by simp_all
  have "v[n - Suc m := f m] ! p = (if n - Suc m \<le> p then f (n - Suc p) else d)" if p: "p < n" for p
  proof (cases "p = n - Suc m")
    case True
    then have "n - Suc p = m" "n - Suc m \<le> p" using Suc.prems by arith+
    then show ?thesis using True p by (simp add: IH(1))
  next
    case False
    then have "n - Suc m \<le> p \<longleftrightarrow> n - m \<le> p" using p Suc.prems by arith
    then show ?thesis using False p IH by simp
  qed
  then show ?case
    using IH(1) by (simp add: v_def [symmetric])
qed simp

lemma SetNum_eq: "SetNum v n = map (\<lambda>p. SetNum_byte v (n - 1 - p)) [0..<n]"
  using fold_update_rev [of n n "SetNum_byte v" 0]
  by (intro nth_equalityI) (simp_all add: SetNum_def)

lemma length_SetNum [simp]: "length (SetNum v n) = n"
  by (simp add: SetNum_eq)

lemma length_vchnum [simp]: "length (vchnum64 a) = 8" "length (vchnum32 b) = 4" "length (vchnum16 c) = 2"
  by (simp_all add: vchnum64_def vchnum32_def vchnum16_def)

section \<open>Round trips\<close>

lemma GetValue_SetNum:
  assumes "n \<le> 8"
  shows "GetValue (SetNum v n) = take_bit (8 * n) v"
proof (rule bit_word_eqI)
  fix b assume b: "b < LENGTH(64)"
  have "b < 8 * n \<Longrightarrow> n - 1 - (n - 1 - b div 8) = b div 8" by auto
  then show "bit (GetValue (SetNum v n)) b = bit (take_bit (8 * n) v) b"
    using assms b
    by (auto simp: bit_GetValue SetNum_eq SetNum_byte_eq bit_simps mult_div_mod_eq)
qed

lemma SetNum_GetValue:
  assumes "length vch \<le> 8"
  shows "SetNum (GetValue vch) (length vch) = vch"
proof (rule nth_equalityI)
  fix p assume "p < length (SetNum (GetValue vch) (length vch))"
  then have p: "p < length vch" by simp
  let ?i = "length vch - 1 - p"
  have i: "?i < length vch" "length vch - 1 - ?i = p" using p by auto
  have "SetNum_byte (GetValue vch) ?i = vch ! p"
  proof (rule bit_word_eqI)
    fix b assume "b < LENGTH(8)"
    then have "(8 * ?i + b) div 8 = ?i" "(8 * ?i + b) mod 8 = b" "8 * ?i + b < 8 * length vch" "8 * ?i + b < 64"
      using i(1) assms by auto
    then show "bit (SetNum_byte (GetValue vch) ?i) b = bit (vch ! p) b"
      using assms i \<open>b < LENGTH(8)\<close>
      by (simp add: SetNum_byte_eq bit_simps bit_GetValue)
  qed
  then show "SetNum (GetValue vch) (length vch) ! p = vch ! p"
    using p by (simp add: SetNum_eq)
qed simp

text \<open>Reading pads on the left; a vector of more than eight bytes is written out of bounds.\<close>

lemma fold_Set_loop:
  fixes vchIn :: valtype
  assumes "n \<le> length vchIn" and "length vchIn \<le> nSize" and "nSize \<le> 8"
  shows "fold (\<lambda>i r. r \<bind> (\<lambda>vch.
      let pos = unat (of_nat i + (of_nat nSize - of_nat (length vchIn) :: u32))
      in if pos < length vch then Some (vch[pos := vchIn ! i]) else None))
    [0..<n] (Some (replicate nSize 0)) =
   Some (replicate (nSize - length vchIn) 0 @ take n vchIn @ replicate (length vchIn - n) 0)"
  using assms(1)
proof (induction n)
  case 0
  show ?case using assms by (simp flip: replicate_add)
next
  case (Suc n)
  have "of_nat n + (of_nat nSize - of_nat (length vchIn)) = (of_nat (n + (nSize - length vchIn)) :: u32)"
    using assms(2) by (simp add: of_nat_diff)
  moreover have "n + (nSize - length vchIn) < 2 ^ LENGTH(32)" using assms Suc.prems by simp
  ultimately have pos: "unat (of_nat n + (of_nat nSize - of_nat (length vchIn)) :: u32) =
      n + (nSize - length vchIn)"
    using unat_of_nat_small by metis
  let ?z = "replicate (nSize - length vchIn) (0::u8)"
    and ?t = "take n vchIn @ replicate (length vchIn - n) 0"
  have "replicate (length vchIn - n) (0::u8) = 0 # replicate (length vchIn - Suc n) 0"
    using Suc.prems by (simp flip: replicate_Suc add: Suc_diff_Suc)
  then have upd: "(?z @ ?t)[n + (nSize - length vchIn) := vchIn ! n] =
      ?z @ take (Suc n) vchIn @ replicate (length vchIn - Suc n) 0"
    using Suc.prems by (simp add: list_update_append take_Suc_conv_app_nth)
  have "n + (nSize - length vchIn) < length (?z @ ?t)" using Suc.prems assms by simp
  then show ?case
    using Suc upd by (simp only: upt_Suc_append fold_append fold.simps comp_apply id_apply
        Suc_leD bind.bind_lunit pos Let_def if_True zero_le)
qed

lemma vchnum_Set_eq:
  "length vchIn \<le> 8 \<Longrightarrow>
   vchnum_Set vchIn = Some (replicate (vchnum_round (length vchIn) - length vchIn) 0 @ vchIn)"
  using fold_Set_loop [of "length vchIn" vchIn "vchnum_round (length vchIn)"]
  by (simp add: vchnum_Set_def vchnum_round_def Let_def split: if_splits)

lemma vchnum_Set_exact: "length v = 2 \<or> length v = 4 \<or> length v = 8 \<Longrightarrow> vchnum_Set v = Some v"
  by (auto simp: vchnum_Set_eq vchnum_round_def)

lemma GETUINT64_vchnum64 [simp]: "GETUINT64 (vchnum64 v) = Some v"
  by (simp add: GETUINT64_def vchnum_Set_exact)
    (simp add: vchnum64_def GetValue_SetNum)

lemma GETUINT32_vchnum32 [simp]: "GETUINT32 (vchnum32 v) = Some v"
proof -
  have "ucast (take_bit 32 (ucast v :: u64)) = v"
    by (rule bit_word_eqI) (simp add: bit_simps)
  then show ?thesis
    by (simp add: GETUINT32_def vchnum_Set_exact vchnum32_def GetValue_SetNum)
qed

lemma GETUINT_defined:
  "length v = 8 \<Longrightarrow> \<exists>n. GETUINT64 v = Some n" "length v = 4 \<Longrightarrow> \<exists>n. GETUINT32 v = Some n"
  by (simp_all add: GETUINT64_def GETUINT32_def vchnum_Set_exact)

text \<open>
  The stored form of an integer and its value determine each other: reading the 8-, 4- or
  2-byte vector written for a value gives the value back, and writing the value read from a
  vector of such a length reproduces the vector.
\<close>

theorem vchnum_roundtrip:
  "GETUINT64 (vchnum64 a) = Some a \<and> GETUINT32 (vchnum32 b) = Some b \<and>
   (length v \<in> {2, 4, 8} \<longrightarrow> map_option (\<lambda>n. SetNum n (length v)) (GETUINT64 v) = Some v)"
  using SetNum_GetValue [of v] by (auto simp: GETUINT64_def [of v] vchnum_Set_exact)

theorem vchnum_roundtrip_witness:
  "GETUINT64 (vchnum64 5) = Some 5 \<and> map_option (\<lambda>n. SetNum n 4) (GETUINT64 [1, 2, 3, 4]) = Some [1, 2, 3, 4]"
  using vchnum_roundtrip [of 5 0 "[1, 2, 3, 4]"] by (simp add: eval_nat_numeral)

end
