(* ===== verification/QPTx.thy ===== *)
theory QPTx
  imports ChainParams Vchnum
begin

text \<open>
  The qPoS operations as transactions carry them: alias and meta-data rules
  (\<^verbatim>\<open>src/qpos/aliases.cpp\<close>, \<^verbatim>\<open>src/qpos/meta.cpp\<close>), the details record
  (\<^verbatim>\<open>src/qpos/QPTxDetails.cpp\<close>), the decoders of the pushed script data
  (\<^verbatim>\<open>src/qpos/qPoS.cpp\<close>) and the encoders that the wallet uses for the same data
  (\<^verbatim>\<open>src/wallet/wallet.cpp\<close>). A decoder takes the structure it fills as an argument, because its
  early returns leave the remaining fields as they were; \<open>None\<close> is undefined behaviour
  (signed overflow). Public keys are byte vectors. The NFT tables \<open>mapNfts\<close> and \<open>mapNftLookup\<close>
  are globals of the program and arguments here.
\<close>

type_synonym CPubKey = valtype

section \<open>Characters, aliases and meta data\<close>

definition Despace :: "string \<Rightarrow> string" where
  "Despace s = filter (\<lambda>c. c \<noteq> CHR '' '') s"

definition is_upper :: "char \<Rightarrow> bool" where
  "is_upper c \<longleftrightarrow> (let n = of_char c :: nat in 65 \<le> n \<and> n \<le> 90)"

definition is_lower :: "char \<Rightarrow> bool" where
  "is_lower c \<longleftrightarrow> (let n = of_char c :: nat in 97 \<le> n \<and> n \<le> 122)"

definition is_digit :: "char \<Rightarrow> bool" where
  "is_digit c \<longleftrightarrow> (let n = of_char c :: nat in 48 \<le> n \<and> n \<le> 57)"

definition ToLowercaseSafe :: "string \<Rightarrow> string" where
  "ToLowercaseSafe s = map (\<lambda>c. if is_upper c then char_of ((of_char c :: nat) + 32) else c) s"

definition AliasIsValid :: "string \<Rightarrow> bool" where
  "AliasIsValid sAlias \<longleftrightarrow>
     \<not> (length sAlias < QP_MIN_ALIAS_LENGTH \<or> length sAlias > QP_MAX_ALIAS_LENGTH) \<and>
     (is_lower (sAlias ! 0) \<or> is_upper (sAlias ! 0)) \<and>
     list_all (\<lambda>c. is_lower c \<or> is_upper c \<or> is_digit c) (drop 1 sAlias)"

text \<open>Key types are bit sets.\<close>

definition QPKEY_NONE :: u32 where "QPKEY_NONE = 0"
definition QPKEY_OWNER :: u32 where "QPKEY_OWNER = 1"
definition QPKEY_MANAGER :: u32 where "QPKEY_MANAGER = 2"
definition QPKEY_DELEGATE :: u32 where "QPKEY_DELEGATE = 4"
definition QPKEY_CONTROLLER :: u32 where "QPKEY_CONTROLLER = 8"
definition QPKEY_OM :: u32 where "QPKEY_OM = QPKEY_OWNER OR QPKEY_MANAGER"
definition QPKEY_OMD :: u32 where "QPKEY_OMD = QPKEY_OM OR QPKEY_DELEGATE"

definition META_KEY_CERTIFIED_NODE :: string where "META_KEY_CERTIFIED_NODE = ''certified_node''"

definition mapMetaKeys :: "(string, u32) omap" where
  "mapMetaKeys = [(''certified_node'', QPKEY_OMD)]"

fun CheckMetaKey_loop :: "(string, u32) omap \<Rightarrow> string \<Rightarrow> u32" where
  "CheckMetaKey_loop [] sKey = QPKEY_NONE"
| "CheckMetaKey_loop ((k, t) # m) sKey = (if sKey = k then t else CheckMetaKey_loop m sKey)"

definition CheckMetaKey :: "string \<Rightarrow> u32" where
  "CheckMetaKey sKey = CheckMetaKey_loop mapMetaKeys sKey"

definition CheckMetaValue :: "string \<Rightarrow> bool" where
  "CheckMetaValue sValue \<longleftrightarrow>
     \<not> length sValue > QP_MAX_META_VALUE_LENGTH \<and>
     list_all (\<lambda>c. is_lower c \<or> is_upper c \<or> is_digit c \<or> c \<in> set ''._: <>/@#,+-'') sValue"

section \<open>Transaction types and details\<close>

datatype txnouttype =
    TX_NONSTANDARD | TX_PUBKEY | TX_PUBKEYHASH | TX_SCRIPTHASH | TX_MULTISIG
  | TX_PURCHASE1 | TX_PURCHASE4 | TX_SETOWNER | TX_SETMANAGER | TX_SETDELEGATE
  | TX_SETCONTROLLER | TX_ENABLE | TX_DISABLE | TX_CLAIM | TX_SETMETA | TX_FEEWORK | TX_NULL_DATA

record QPTxDetails =
  deet_t :: txnouttype
  deet_id :: u32
  deet_alias :: string
  deet_keys :: "CPubKey list"
  deet_pcm :: int
  deet_value :: int
  deet_meta_key :: string
  deet_meta_value :: string
  deet_hash :: uint256
  deet_txid :: uint256
  deet_n :: int

definition QPTxDetails_Clear :: "QPTxDetails \<Rightarrow> QPTxDetails" where
  "QPTxDetails_Clear d = d\<lparr>deet_id := 0, deet_alias := '''', deet_keys := [], deet_pcm := 0,
     deet_value := 0, deet_meta_key := '''', deet_meta_value := ''''\<rparr>"

definition QPTxDetails_SetNull :: QPTxDetails where
  "QPTxDetails_SetNull =
     \<lparr>deet_t = TX_NONSTANDARD, deet_id = 0, deet_alias = '''', deet_keys = [], deet_pcm = 0,
      deet_value = 0, deet_meta_key = '''', deet_meta_value = '''', deet_hash = 0, deet_txid = 0,
      deet_n = -1\<rparr>"

record QPNft =
  nft_hash :: uint256
  strImageUrl :: string
  strCollection :: string
  strArtist :: string
  nNumber :: u32
  nOf :: u32
  strArtistUrl :: string
  strCharKey :: string
  strFullName :: string
  strNickname :: string
  nMoxie :: u8
  nIrreverance :: u8
  nNarcissism :: u8
  strNarrative :: string

type_synonym QPMapNft = "(u32, QPNft) omap"
type_synonym QPMapNftLookup = "(string, u32) omap"

definition QPNft_null :: QPNft where
  "QPNft_null = \<lparr>nft_hash = 0, strImageUrl = '''', strCollection = '''', strArtist = '''',
     nNumber = 0, nOf = 0, strArtistUrl = '''', strCharKey = '''', strFullName = '''',
     strNickname = '''', nMoxie = 0, nIrreverance = 0, nNarcissism = 0, strNarrative = ''''\<rparr>"

section \<open>Decoders\<close>

record qpos_purchase =
  pu_alias :: string
  pu_keys :: "CPubKey list"
  pu_pcm :: int
  pu_value :: int
  pu_nft :: u32

record qpos_setkey =
  sk_keytype :: u32
  sk_id :: u32
  sk_key :: CPubKey
  sk_pcm :: u32

record qpos_claim =
  cl_key :: CPubKey
  cl_value :: int

record qpos_setmeta =
  sm_id :: u32
  sm_key :: string
  sm_value :: string

definition INT_MAX :: int where "INT_MAX = 2147483647"

definition byte_char :: "u8 \<Rightarrow> char" where "byte_char b = char_of (unat b)"
definition char_byte :: "char \<Rightarrow> u8" where "char_byte c = of_nat (of_char c)"

text \<open>
  The loop that collects 33-byte keys while the data lasts; an iterator never lies behind the end.
\<close>

function ExtractPurchase_keys :: "valtype \<Rightarrow> nat \<Rightarrow> CPubKey list \<Rightarrow> CPubKey list \<times> nat" where
  "ExtractPurchase_keys vch b keys =
     (if b > length vch then (keys, b)
      else case IncrementN vch b 33 of
        (True, e) \<Rightarrow> ExtractPurchase_keys vch e (keys @ [slice vch b e])
      | (False, e) \<Rightarrow> (keys, b))"
  by pat_completeness auto
termination
  by (relation "measure (\<lambda>(vch, b, keys). length vch + 1 - b)")
    (auto simp: IncrementN_eq split: if_splits)

fun ExtractPurchase_alias :: "valtype \<Rightarrow> bool \<Rightarrow> string \<Rightarrow> bool \<times> string" where
  "ExtractPurchase_alias [] fAllInt alias = (fAllInt, alias)"
| "ExtractPurchase_alias (b # bs) fAllInt alias =
     (if b \<noteq> 0
      then ExtractPurchase_alias bs (fAllInt \<and> is_digit (byte_char b)) (alias @ [byte_char b])
      else (fAllInt, alias))"

text \<open>
  The value of an all-digit alias, from its last digit; \<open>k\<close> is a signed \<open>int\<close>.
\<close>

fun ExtractPurchase_nft :: "string \<Rightarrow> int \<Rightarrow> u32 \<Rightarrow> (int \<times> u32) option" where
  "ExtractPurchase_nft [] k nft = Some (k, nft)"
| "ExtractPurchase_nft (c # cs) k nft =
     (let p = k * (of_char c - 48)
      in if p > INT_MAX then None
         else let nft' = nft + word_of_int p
              in if nft' > 100000 then Some (k, nft')
                 else if k * 10 > INT_MAX then None
                 else ExtractPurchase_nft cs (k * 10) nft')"

definition ExtractPurchase ::
  "QPMapNft \<Rightarrow> QPMapNftLookup \<Rightarrow> valtype \<Rightarrow> qpos_purchase \<Rightarrow> qpos_purchase option" where
  "ExtractPurchase mapNfts mapNftLookup vch prchs =
     (case IncrementN vch 0 8 of
        (False, _) \<Rightarrow> Some prchs
      | (True, e) \<Rightarrow> do {
          v \<leftarrow> GETUINT64 (slice vch 0 e);
          let (keys, b) = ExtractPurchase_keys vch e [];
          let prchs = prchs\<lparr>pu_value := sint v, pu_keys := keys\<rparr>;
          let hasPcm = (length keys = 3 \<or> length keys = 4);
          case (if hasPcm then IncrementN vch b 4 else (True, b)) of
            (False, _) \<Rightarrow> Some prchs
          | (True, e) \<Rightarrow> do {
              pcm \<leftarrow> (if hasPcm then map_option sint (GETUINT32 (slice vch b e)) else Some 0);
              let (fAllInt, alias) = ExtractPurchase_alias (slice vch e (length vch)) True '''';
              let prchs = prchs\<lparr>pu_pcm := pcm, pu_alias := alias, pu_nft := 0\<rparr>;
              if fAllInt then do {
                (k, nft) \<leftarrow> ExtractPurchase_nft (rev alias) 1 0;
                Some (prchs\<lparr>pu_nft := nft,
                  pu_alias := (case map_of mapNfts (word_of_int k) of
                                 None \<Rightarrow> alias | Some n \<Rightarrow> strNickname n)\<rparr>)
              }
              else Some (case map_of mapNftLookup (ToLowercaseSafe alias) of
                           None \<Rightarrow> prchs | Some i \<Rightarrow> prchs\<lparr>pu_nft := i\<rparr>)
            }
        })"

definition ExtractPurchase_deets ::
  "QPMapNft \<Rightarrow> QPMapNftLookup \<Rightarrow> qpos_purchase \<Rightarrow> valtype \<Rightarrow> QPTxDetails \<Rightarrow> QPTxDetails option" where
  "ExtractPurchase_deets mapNfts mapNftLookup uninit vch deets = do {
     p \<leftarrow> ExtractPurchase mapNfts mapNftLookup vch uninit;
     Some ((QPTxDetails_Clear deets)\<lparr>deet_alias := pu_alias p, deet_keys := pu_keys p,
       deet_pcm := pu_pcm p, deet_value := pu_value p, deet_id := pu_nft p\<rparr>)
   }"

definition mapQPoSKeyTypes :: "txnouttype \<Rightarrow> u32 option" where
  "mapQPoSKeyTypes t = (case t of
       TX_SETOWNER \<Rightarrow> Some QPKEY_OWNER | TX_SETMANAGER \<Rightarrow> Some QPKEY_MANAGER
     | TX_SETDELEGATE \<Rightarrow> Some QPKEY_DELEGATE | TX_SETCONTROLLER \<Rightarrow> Some QPKEY_CONTROLLER
     | _ \<Rightarrow> None)"

definition ExtractSetKey :: "valtype \<Rightarrow> qpos_setkey \<Rightarrow> qpos_setkey option" where
  "ExtractSetKey vch sk =
     (case IncrementN vch 0 4 of
        (False, _) \<Rightarrow> Some sk
      | (True, e) \<Rightarrow> do {
          i \<leftarrow> GETUINT32 (slice vch 0 e);
          let sk = sk\<lparr>sk_id := i\<rparr>;
          case IncrementN vch e 33 of
            (False, _) \<Rightarrow> Some sk
          | (True, e2) \<Rightarrow>
              let sk = sk\<lparr>sk_key := slice vch e e2\<rparr>
              in if sk_keytype sk = QPKEY_DELEGATE
                 then (case IncrementN vch e2 4 of
                         (False, _) \<Rightarrow> Some sk
                       | (True, e3) \<Rightarrow>
                           map_option (\<lambda>pcm. sk\<lparr>sk_pcm := pcm\<rparr>) (GETUINT32 (slice vch e2 e3)))
                 else Some (sk\<lparr>sk_pcm := 0\<rparr>)
        })"

definition ExtractSetKey_deets ::
  "qpos_setkey \<Rightarrow> valtype \<Rightarrow> QPTxDetails \<Rightarrow> QPTxDetails option" where
  "ExtractSetKey_deets uninit vch deets = do {
     let sk = (case mapQPoSKeyTypes (deet_t deets) of
                 None \<Rightarrow> uninit | Some t \<Rightarrow> uninit\<lparr>sk_keytype := t\<rparr>);
     sk \<leftarrow> ExtractSetKey vch sk;
     Some ((QPTxDetails_Clear deets)\<lparr>deet_t := deet_t deets, deet_id := sk_id sk,
       deet_keys := [sk_key sk], deet_pcm := sint (sk_pcm sk)\<rparr>)
   }"

definition ExtractSetState :: "valtype \<Rightarrow> u32 \<Rightarrow> u32 option" where
  "ExtractSetState vch uninit =
     (case IncrementN vch 0 4 of
        (False, _) \<Rightarrow> Some uninit
      | (True, e) \<Rightarrow> GETUINT32 (slice vch 0 e))"

definition ExtractSetState_deets :: "u32 \<Rightarrow> valtype \<Rightarrow> QPTxDetails \<Rightarrow> QPTxDetails option" where
  "ExtractSetState_deets uninit vch deets =
     map_option (\<lambda>i. (QPTxDetails_Clear deets)\<lparr>deet_id := i\<rparr>) (ExtractSetState vch uninit)"

definition ExtractClaim :: "valtype \<Rightarrow> qpos_claim \<Rightarrow> qpos_claim option" where
  "ExtractClaim vch cl =
     (case IncrementN vch 0 33 of
        (False, _) \<Rightarrow> Some cl
      | (True, e) \<Rightarrow>
          let cl = cl\<lparr>cl_key := slice vch 0 e\<rparr>
          in (case IncrementN vch e 8 of
                (False, _) \<Rightarrow> Some cl
              | (True, e2) \<Rightarrow> map_option (\<lambda>v. cl\<lparr>cl_value := sint v\<rparr>) (GETUINT64 (slice vch e e2))))"

definition ExtractClaim_deets :: "qpos_claim \<Rightarrow> valtype \<Rightarrow> QPTxDetails \<Rightarrow> QPTxDetails option" where
  "ExtractClaim_deets uninit vch deets =
     map_option (\<lambda>c. (QPTxDetails_Clear deets)\<lparr>deet_keys := [cl_key c], deet_value := cl_value c\<rparr>)
       (ExtractClaim vch uninit)"

definition c_string :: "valtype \<Rightarrow> string" where
  "c_string bs = map byte_char (takeWhile (\<lambda>b. b \<noteq> 0) bs)"

definition ExtractSetMeta :: "valtype \<Rightarrow> qpos_setmeta \<Rightarrow> qpos_setmeta option" where
  "ExtractSetMeta vch sm =
     (case IncrementN vch 0 4 of
        (False, _) \<Rightarrow> Some sm
      | (True, e) \<Rightarrow> do {
          i \<leftarrow> GETUINT32 (slice vch 0 e);
          let sm = sm\<lparr>sm_id := i\<rparr>;
          case IncrementN vch e 16 of
            (False, _) \<Rightarrow> Some sm
          | (True, e2) \<Rightarrow>
              let sm = sm\<lparr>sm_key := c_string (slice vch e e2)\<rparr>
              in (case IncrementN vch e2 40 of
                    (False, _) \<Rightarrow> Some sm
                  | (True, e3) \<Rightarrow> Some (sm\<lparr>sm_value := c_string (slice vch e2 e3)\<rparr>))
        })"

definition ExtractSetMeta_deets :: "qpos_setmeta \<Rightarrow> valtype \<Rightarrow> QPTxDetails \<Rightarrow> QPTxDetails option" where
  "ExtractSetMeta_deets uninit vch deets =
     map_option (\<lambda>m. (QPTxDetails_Clear deets)\<lparr>deet_id := sm_id m, deet_meta_key := sm_key m,
        deet_meta_value := sm_value m\<rparr>) (ExtractSetMeta vch uninit)"

end
