(* ===== verification/CBytes.thy ===== *)
theory CBytes
  imports Prelude
begin

text \<open>
  Bytes, words and byte buffers as the C sources under \<^verbatim>\<open>src/crypto/\<close> use them:
  \<^verbatim>\<open>argon2/src/blake2/blake2-impl.h\<close> (little-endian loads and stores, rotations) and the
  string functions of the C library (\<open>memset\<close>, \<open>memcpy\<close>) on lists. The portable branches of the
  conditional compilation are the ones modelled; on a little-endian machine the \<open>memcpy\<close>
  branches have the same meaning.
\<close>

section \<open>Little-endian loads and stores\<close>

fun store_le :: "nat \<Rightarrow> 'w::len word \<Rightarrow> u8 list" where
  "store_le 0 w = []"
| "store_le (Suc n) w = ucast w # store_le n (drop_bit 8 w)"

definition store32 :: "u32 \<Rightarrow> u8 list" where "store32 w = store_le 4 w"
definition store48 :: "u64 \<Rightarrow> u8 list" where "store48 w = store_le 6 w"
definition store64 :: "u64 \<Rightarrow> u8 list" where "store64 w = store_le 8 w"

definition load32 :: "u8 list \<Rightarrow> u32" where
  "load32 p = ucast (p ! 0) OR push_bit 8 (ucast (p ! 1)) OR push_bit 16 (ucast (p ! 2)) OR
     push_bit 24 (ucast (p ! 3))"

definition load48 :: "u8 list \<Rightarrow> u64" where
  "load48 p = ucast (p ! 0) OR push_bit 8 (ucast (p ! 1)) OR push_bit 16 (ucast (p ! 2)) OR
     push_bit 24 (ucast (p ! 3)) OR push_bit 32 (ucast (p ! 4)) OR push_bit 40 (ucast (p ! 5))"

definition load64 :: "u8 list \<Rightarrow> u64" where
  "load64 p = ucast (p ! 0) OR push_bit 8 (ucast (p ! 1)) OR push_bit 16 (ucast (p ! 2)) OR
     push_bit 24 (ucast (p ! 3)) OR push_bit 32 (ucast (p ! 4)) OR push_bit 40 (ucast (p ! 5)) OR
     push_bit 48 (ucast (p ! 6)) OR push_bit 56 (ucast (p ! 7))"

definition rotr32 :: "u32 \<Rightarrow> nat \<Rightarrow> u32" where
  "rotr32 w c = drop_bit c w OR push_bit (32 - c) w"

definition rotr64 :: "u64 \<Rightarrow> nat \<Rightarrow> u64" where
  "rotr64 w c = drop_bit c w OR push_bit (64 - c) w"

section \<open>Buffers\<close>

text \<open>\<open>memcpy\<close> of \<open>xs\<close> to position \<open>i\<close> of a buffer with room for it.\<close>

definition write_at :: "'a list \<Rightarrow> nat \<Rightarrow> 'a list \<Rightarrow> 'a list" where
  "write_at buf i xs = take i buf @ xs @ drop (i + length xs) buf"

lemma length_write_at [simp]: "i + length xs \<le> length buf \<Longrightarrow> length (write_at buf i xs) = length buf"
  by (simp add: write_at_def)

lemma take_write_at: "i \<le> length buf \<Longrightarrow> take (i + length xs) (write_at buf i xs) = take i buf @ xs"
  by (simp add: write_at_def)

lemma write_at_full:
  "i + length xs = length buf \<Longrightarrow> write_at buf i xs = take i buf @ xs"
  by (simp add: write_at_def)

section \<open>Laws of the loads and stores\<close>

text \<open>The little-endian value of a list of bytes.\<close>

fun load_le :: "u8 list \<Rightarrow> 'w::len word" where
  "load_le [] = 0"
| "load_le (b # bs) = ucast b OR push_bit 8 (load_le bs)"

lemma length_store_le [simp]: "length (store_le n w) = n"
  by (induction n arbitrary: w) auto

lemma length_store [simp]:
  "length (store32 a) = 4" "length (store48 b) = 6" "length (store64 b) = 8"
  by (simp_all add: store32_def store48_def store64_def)

lemma load_store_le: "load_le (store_le n w) = take_bit (8 * n) w"
proof (induction n arbitrary: w)
  case (Suc n)
  show ?case
    by (rule bit_word_eqI) (auto simp: Suc.IH bit_simps not_less less_diff_conv2)
qed simp

lemma load_le_ucast: "load_le (store_le n (w :: 'v::len word)) = (ucast (take_bit (8 * n) w) :: 'w::len word)"
proof (induction n arbitrary: w)
  case (Suc n)
  show ?case
    by (rule bit_word_eqI) (auto simp: Suc.IH bit_simps not_less less_diff_conv2)
qed simp

lemma load_le_bit: "bit (load_le bs :: 'w::len word) n \<Longrightarrow> n < 8 * length bs"
proof (induction bs arbitrary: n)
  case (Cons b bs)
  then show ?case
    using bit_imp_le_length [of b n] by (auto simp: bit_simps dest!: Cons.IH)
qed simp

lemma drop_bit_load_le:
  fixes b :: u8
  assumes "8 * length bs + 8 \<le> LENGTH('w::len)"
  shows "drop_bit 8 (ucast b OR push_bit 8 (load_le bs) :: 'w word) = load_le bs"
proof (rule bit_word_eqI)
  fix n assume "n < LENGTH('w)"
  show "bit (drop_bit 8 (ucast b OR push_bit 8 (load_le bs) :: 'w word)) n = bit (load_le bs :: 'w word) n"
    using assms load_le_bit [of bs n, where 'w = 'w] bit_imp_le_length [of b "8 + n"]
    by (auto simp: bit_simps)
qed

lemma store_load_le:
  "8 * length bs \<le> LENGTH('w::len) \<Longrightarrow> store_le (length bs) (load_le bs :: 'w word) = bs"
proof (induction bs)
  case (Cons b bs)
  have "ucast (ucast b OR push_bit 8 (load_le bs) :: 'w word) = b"
    using Cons.prems by (intro bit_word_eqI) (auto simp: bit_simps)
  then show ?case using Cons drop_bit_load_le [of bs b, where 'w = 'w] by simp
qed simp

lemma load_le_4: "length bs = 4 \<Longrightarrow> load_le bs = load32 bs"
  by (auto simp: load32_def length_Suc_conv numeral_eq_Suc push_bit_or or.assoc)

lemma load_le_8: "length bs = 8 \<Longrightarrow> load_le bs = load64 bs"
  by (auto simp: load64_def length_Suc_conv numeral_eq_Suc push_bit_or or.assoc)

lemma load_store [simp]: "load32 (store32 a) = a" "load64 (store64 b) = b"
  using load_store_le [of 4 a] load_store_le [of 8 b]
  by (simp_all add: store32_def store64_def load_le_4 load_le_8)

lemma store_load: "length p = 4 \<Longrightarrow> store32 (load32 p) = p" "length q = 8 \<Longrightarrow> store64 (load64 q) = q"
  using store_load_le [of p, where 'w = 32] store_load_le [of q, where 'w = 64]
  by (simp_all add: store32_def store64_def load_le_4 load_le_8)

lemma load64_prefix: "8 \<le> length p \<Longrightarrow> load64 (p @ q) = load64 p"
  by (auto simp: load64_def nth_append)

text \<open>Rotations are the rotations of the word library.\<close>

lemma rotr64_rotate: "c < 64 \<Longrightarrow> rotr64 w c = word_rotr c w"
proof (rule bit_word_eqI)
  fix n assume c: "c < 64" and "n < LENGTH(64)"
  then have n: "n < 64" by simp
  show "bit (rotr64 w c) n = bit (word_rotr c w) n"
  proof (cases "n + c < 64")
    case True
    then show ?thesis using n c by (auto simp: rotr64_def bit_simps bit_word_rotr_iff add.commute)
  next
    case False
    have "(n + c) mod 64 = n + c - 64" using n c False by (simp add: mod_if)
    moreover have "\<not> bit w (c + n)" using False bit_imp_le_length [of w "c + n"] by auto
    ultimately show ?thesis
      using n c False by (auto simp: rotr64_def bit_simps bit_word_rotr_iff add.commute)
  qed
qed

end
