(* ===== verification/Script.thy ===== *)
theory Script
  imports QPTx CBytes
begin

text \<open>
  Scripts: \<^verbatim>\<open>src/blockchain/script.h\<close> (the class \<open>CScript\<close>) and the part of
  \<^verbatim>\<open>src/blockchain/script.cpp\<close> that recognises standard output scripts. A script is its bytes, an
  opcode is a byte, and a position in a script is the list of the bytes that are left.
\<close>

section \<open>Opcodes\<close>

abbreviation (input) OP_0 :: u8 where "OP_0 \<equiv> 0x00"
abbreviation (input) OP_PUSHDATA1 :: u8 where "OP_PUSHDATA1 \<equiv> 0x4c"
abbreviation (input) OP_PUSHDATA2 :: u8 where "OP_PUSHDATA2 \<equiv> 0x4d"
abbreviation (input) OP_PUSHDATA4 :: u8 where "OP_PUSHDATA4 \<equiv> 0x4e"
abbreviation (input) OP_1 :: u8 where "OP_1 \<equiv> 0x51"
abbreviation (input) OP_16 :: u8 where "OP_16 \<equiv> 0x60"
abbreviation (input) OP_RETURN :: u8 where "OP_RETURN \<equiv> 0x6a"
abbreviation (input) OP_DUP :: u8 where "OP_DUP \<equiv> 0x76"
abbreviation (input) OP_EQUAL :: u8 where "OP_EQUAL \<equiv> 0x87"
abbreviation (input) OP_EQUALVERIFY :: u8 where "OP_EQUALVERIFY \<equiv> 0x88"
abbreviation (input) OP_HASH160 :: u8 where "OP_HASH160 \<equiv> 0xa9"
abbreviation (input) OP_CHECKSIG :: u8 where "OP_CHECKSIG \<equiv> 0xac"
abbreviation (input) OP_CHECKSIGVERIFY :: u8 where "OP_CHECKSIGVERIFY \<equiv> 0xad"
abbreviation (input) OP_CHECKMULTISIG :: u8 where "OP_CHECKMULTISIG \<equiv> 0xae"
abbreviation (input) OP_CHECKMULTISIGVERIFY :: u8 where "OP_CHECKMULTISIGVERIFY \<equiv> 0xaf"
abbreviation (input) OP_PURCHASE1 :: u8 where "OP_PURCHASE1 \<equiv> 0xc1"
abbreviation (input) OP_PURCHASE4 :: u8 where "OP_PURCHASE4 \<equiv> 0xc2"
abbreviation (input) OP_SETOWNER :: u8 where "OP_SETOWNER \<equiv> 0xc3"
abbreviation (input) OP_SETDELEGATE :: u8 where "OP_SETDELEGATE \<equiv> 0xc4"
abbreviation (input) OP_SETCONTROLLER :: u8 where "OP_SETCONTROLLER \<equiv> 0xc5"
abbreviation (input) OP_ENABLE :: u8 where "OP_ENABLE \<equiv> 0xc6"
abbreviation (input) OP_DISABLE :: u8 where "OP_DISABLE \<equiv> 0xc7"
abbreviation (input) OP_CLAIM :: u8 where "OP_CLAIM \<equiv> 0xc8"
abbreviation (input) OP_SETMETA :: u8 where "OP_SETMETA \<equiv> 0xc9"
abbreviation (input) OP_SETMANAGER :: u8 where "OP_SETMANAGER \<equiv> 0xca"
abbreviation (input) OP_FEEWORK :: u8 where "OP_FEEWORK \<equiv> 0xd1"
abbreviation (input) OP_SMALLDATA :: u8 where "OP_SMALLDATA \<equiv> 0xf9"
abbreviation (input) OP_SMALLINTEGER :: u8 where "OP_SMALLINTEGER \<equiv> 0xfa"
abbreviation (input) OP_PUBKEYS :: u8 where "OP_PUBKEYS \<equiv> 0xfb"
abbreviation (input) OP_PUBKEYHASH :: u8 where "OP_PUBKEYHASH \<equiv> 0xfd"
abbreviation (input) OP_PUBKEY :: u8 where "OP_PUBKEY \<equiv> 0xfe"
abbreviation (input) OP_INVALIDOPCODE :: u8 where "OP_INVALIDOPCODE \<equiv> 0xff"

abbreviation (input) MAX_OP_RETURN_RELAY :: nat where "MAX_OP_RETURN_RELAY \<equiv> 48"

section \<open>Writing and reading scripts\<close>

text \<open>\<open>operator<<\<close> for a byte vector; the size fields have 1, 2 and 4 little-endian bytes.\<close>

definition push_data :: "valtype \<Rightarrow> valtype" where
  "push_data b =
     (if length b < 0x4c then [of_nat (length b)]
      else if length b \<le> 0xff then [OP_PUSHDATA1, of_nat (length b)]
      else if length b \<le> 0xffff then OP_PUSHDATA2 # store_le 2 (of_nat (length b) :: u16)
      else OP_PUSHDATA4 # store_le 4 (of_nat (length b) :: u32)) @ b"

text \<open>The size of an immediate operand and the position behind it.\<close>

definition GetOp2_size :: "u8 \<Rightarrow> valtype \<Rightarrow> (u32 \<times> valtype) option" where
  "GetOp2_size opcode pc =
     (if opcode < OP_PUSHDATA1 then Some (ucast opcode, pc)
      else if opcode = OP_PUSHDATA1
      then if length pc < 1 then None else Some (ucast (pc ! 0), drop 1 pc)
      else if opcode = OP_PUSHDATA2
      then if length pc < 2 then None else Some (load_le (take 2 pc), drop 2 pc)
      else if length pc < 4 then None else Some (load_le (take 4 pc), drop 4 pc))"

text \<open>
  Success, the opcode, the operand and the position afterwards. In a template a push stands for
  itself, without size and operand.
\<close>

definition GetOp2 :: "valtype \<Rightarrow> bool \<Rightarrow> bool \<times> u8 \<times> valtype \<times> valtype" where
  "GetOp2 pc fTemplate =
     (case pc of
        [] \<Rightarrow> (False, OP_INVALIDOPCODE, [], [])
      | opcode # pc \<Rightarrow>
          if opcode \<le> OP_PUSHDATA4 \<and> \<not> fTemplate
          then case GetOp2_size opcode pc of
                 None \<Rightarrow> (False, OP_INVALIDOPCODE, [], pc)
               | Some (nSize, pc) \<Rightarrow>
                   if of_nat (length pc) < nSize then (False, OP_INVALIDOPCODE, [], pc)
                   else (True, opcode, take (unat nSize) pc, drop (unat nSize) pc)
          else (True, opcode, [], pc))"

lemma GetOp2_shorter: "GetOp2 pc f = (True, opcode, vch, pc') \<Longrightarrow> length pc' < length pc"
  by (auto simp: GetOp2_def GetOp2_size_def split: list.splits if_splits option.splits)

definition DecodeOP_N :: "u8 \<Rightarrow> nat" where
  "DecodeOP_N opcode = (if opcode = OP_0 then 0 else unat opcode - 0x50)"

definition EncodeOP_N :: "nat \<Rightarrow> u8" where
  "EncodeOP_N n = (if n = 0 then OP_0 else of_nat (0x50 + n))"

definition IsPayToScriptHash :: "valtype \<Rightarrow> bool" where
  "IsPayToScriptHash s \<longleftrightarrow>
     length s = 23 \<and> s ! 0 = OP_HASH160 \<and> s ! 1 = 0x14 \<and> s ! 22 = OP_EQUAL"

function IsPushOnly :: "valtype \<Rightarrow> bool" where
  "IsPushOnly pc =
     (if pc = [] then True
      else case GetOp2 pc False of
             (ok, opcode, vch, pc') \<Rightarrow>
               if \<not> ok then False
               else if opcode > OP_16 then False
               else IsPushOnly pc')"
  by pat_completeness auto
termination
  by (relation "measure length") (auto dest: GetOp2_shorter [OF sym])

function HasCanonicalPushes :: "valtype \<Rightarrow> bool" where
  "HasCanonicalPushes pc =
     (if pc = [] then True
      else case GetOp2 pc False of
             (ok, opcode, vch, pc') \<Rightarrow>
               if \<not> ok then False
               else if opcode > OP_16 then HasCanonicalPushes pc'
               else if opcode < OP_PUSHDATA1 \<and> opcode > OP_0 \<and> length vch = 1 \<and> vch ! 0 \<le> 16 then False
               else if opcode = OP_PUSHDATA1 \<and> length vch < 0x4c then False
               else if opcode = OP_PUSHDATA2 \<and> length vch \<le> 0xff then False
               else if opcode = OP_PUSHDATA4 \<and> length vch \<le> 0xffff then False
               else HasCanonicalPushes pc')"
  by pat_completeness auto
termination
  by (relation "measure length") (auto dest: GetOp2_shorter [OF sym])

function GetSigOpCount_loop :: "bool \<Rightarrow> valtype \<Rightarrow> u8 \<Rightarrow> u32 \<Rightarrow> u32" where
  "GetSigOpCount_loop fAccurate pc lastOpcode n =
     (if pc = [] then n
      else case GetOp2 pc False of
             (ok, opcode, vch, pc') \<Rightarrow>
               if \<not> ok then n
               else GetSigOpCount_loop fAccurate pc' opcode
                 (if opcode = OP_CHECKSIG \<or> opcode = OP_CHECKSIGVERIFY then n + 1
                  else if opcode = OP_CHECKMULTISIG \<or> opcode = OP_CHECKMULTISIGVERIFY
                  then if fAccurate \<and> lastOpcode \<ge> OP_1 \<and> lastOpcode \<le> OP_16
                       then n + of_nat (DecodeOP_N lastOpcode) else n + 20
                  else n))"
  by pat_completeness auto
termination
  by (relation "measure (\<lambda>(f, pc, l, n). length pc)") (auto dest: GetOp2_shorter [OF sym])

definition GetSigOpCount :: "bool \<Rightarrow> valtype \<Rightarrow> u32" where
  "GetSigOpCount fAccurate s = GetSigOpCount_loop fAccurate s OP_INVALIDOPCODE 0"

text \<open>The last item the input script pushes, unless it does more than pushing.\<close>

function last_push :: "valtype \<Rightarrow> valtype \<Rightarrow> valtype option" where
  "last_push pc data =
     (if pc = [] then Some data
      else case GetOp2 pc False of
             (ok, opcode, vch, pc') \<Rightarrow>
               if \<not> ok then None else if opcode > OP_16 then None else last_push pc' vch)"
  by pat_completeness auto
termination
  by (relation "measure (\<lambda>(pc, d). length pc)") (auto dest: GetOp2_shorter [OF sym])

definition GetSigOpCount_p2sh :: "valtype \<Rightarrow> valtype \<Rightarrow> u32" where
  "GetSigOpCount_p2sh s scriptSig =
     (if \<not> IsPayToScriptHash s then GetSigOpCount True s
      else case last_push scriptSig [] of None \<Rightarrow> 0 | Some data \<Rightarrow> GetSigOpCount True data)"

section \<open>Standard output scripts\<close>

text \<open>
  The key of a meta-data payload. The loop leaves its end on the last character when it has counted
  \<open>QP_MAX_META_KEY_LENGTH\<close> of them.
\<close>

definition meta_key_bytes :: "valtype \<Rightarrow> valtype" where
  "meta_key_bytes v =
     (let k = takeWhile (\<lambda>b. b \<noteq> 0) (drop 4 v)
      in if length k \<ge> QP_MAX_META_KEY_LENGTH then take (QP_MAX_META_KEY_LENGTH - 1) k else k)"

definition TxTypeIsStandard :: "txnouttype \<Rightarrow> valtype list \<Rightarrow> bool" where
  "TxTypeIsStandard t vSolutions =
     (let v = hd vSolutions in
      case t of
        TX_MULTISIG \<Rightarrow>
          (let m = v ! 0; n = last vSolutions ! 0
           in \<not> (m < 1 \<or> n < 1 \<or> m > n \<or> n > 3 \<or> int (length vSolutions) - 2 \<noteq> uint n))
      | TX_PURCHASE1 \<Rightarrow> \<not> length vSolutions < 1 \<and> length v = 57 \<and> AliasIsValid (c_string (drop (length v - 16) v))
      | TX_PURCHASE4 \<Rightarrow> \<not> length vSolutions < 1 \<and> (length v = 127 \<or> length v = 160) \<and>
          AliasIsValid (c_string (drop (length v - 16) v))
      | TX_SETOWNER \<Rightarrow> length v = 37
      | TX_SETMANAGER \<Rightarrow> length v = 37
      | TX_SETCONTROLLER \<Rightarrow> length v = 37
      | TX_SETDELEGATE \<Rightarrow> length v = 41
      | TX_CLAIM \<Rightarrow> length v = 41
      | TX_SETMETA \<Rightarrow> \<not> length vSolutions < 1 \<and> length v = 60 \<and>
          CheckMetaKey (map byte_char (meta_key_bytes v)) \<noteq> QPKEY_NONE \<and> CheckMetaValue (c_string (drop 20 v))
      | TX_FEEWORK \<Rightarrow> length v = 16
      | TX_NONSTANDARD \<Rightarrow> False
      | _ \<Rightarrow> True)"

text \<open>The multimap of templates, in the order of its keys.\<close>

definition mTemplates :: "(txnouttype \<times> valtype) list" where
  "mTemplates =
     [(TX_PUBKEY, [OP_PUBKEY, OP_CHECKSIG]),
      (TX_PUBKEYHASH, [OP_DUP, OP_HASH160, OP_PUBKEYHASH, OP_EQUALVERIFY, OP_CHECKSIG]),
      (TX_MULTISIG, [OP_SMALLINTEGER, OP_PUBKEYS, OP_SMALLINTEGER, OP_CHECKMULTISIG]),
      (TX_PURCHASE1, [0x39, OP_PURCHASE1]),
      (TX_PURCHASE4, [OP_PUSHDATA1, OP_PURCHASE4]),
      (TX_SETOWNER, [0x25, OP_SETOWNER]),
      (TX_SETMANAGER, [0x25, OP_SETMANAGER]),
      (TX_SETDELEGATE, [0x29, OP_SETDELEGATE]),
      (TX_SETCONTROLLER, [0x25, OP_SETCONTROLLER]),
      (TX_ENABLE, [0x04, OP_ENABLE]),
      (TX_DISABLE, [0x04, OP_DISABLE]),
      (TX_CLAIM, [0x29, OP_CLAIM, OP_DUP, OP_HASH160, OP_PUBKEYHASH, OP_EQUALVERIFY, OP_CHECKSIG]),
      (TX_SETMETA, [0x3c, OP_SETMETA]),
      (TX_FEEWORK, [0x10, OP_FEEWORK]),
      (TX_NULL_DATA, [OP_RETURN]),
      (TX_NULL_DATA, [OP_RETURN, OP_SMALLDATA]),
      (TX_NULL_DATA, [OP_RETURN, OP_SMALLDATA, OP_RETURN, OP_SMALLDATA])]"

text \<open>The inner loop for \<open>OP_PUBKEYS\<close>; it also ends when no opcode can be read.\<close>

function pubkeys_loop ::
  "u8 \<Rightarrow> valtype \<Rightarrow> valtype \<Rightarrow> valtype list \<Rightarrow> u8 \<times> valtype \<times> valtype \<times> valtype list" where
  "pubkeys_loop opcode1 vch1 pc1 vSolutions =
     (if length vch1 \<ge> 33 \<and> length vch1 \<le> 120
      then case GetOp2 pc1 False of
             (ok, opcode', vch', pc') \<Rightarrow>
               if \<not> ok then (opcode', vch', pc', vSolutions @ [vch1])
               else pubkeys_loop opcode' vch' pc' (vSolutions @ [vch1])
      else (opcode1, vch1, pc1, vSolutions))"
  by pat_completeness auto
termination
  by (relation "measure (\<lambda>(op, vch, pc, v). length pc)") (auto dest: GetOp2_shorter [OF sym])

text \<open>One opcode against one template opcode: what it adds to the solutions, or a mismatch.\<close>

definition match_op :: "u8 \<Rightarrow> valtype \<Rightarrow> u8 \<Rightarrow> valtype \<Rightarrow> valtype list option" where
  "match_op opcode1 vch1 opcode2 vch2 =
     (if opcode2 = OP_PUBKEY
      then if length vch1 < 33 \<or> length vch1 > 120 then None else Some [vch1]
      else if opcode2 = OP_PUBKEYHASH
      then if length vch1 \<noteq> 20 then None else Some [vch1]
      else if opcode2 = OP_SMALLINTEGER
      then if opcode1 = OP_0 \<or> opcode1 \<ge> OP_1 \<and> opcode1 \<le> OP_16
           then Some [[of_nat (DecodeOP_N opcode1)]] else None
      else if opcode2 = OP_SMALLDATA
      then if length vch1 > MAX_OP_RETURN_RELAY then None else Some []
      else if opcode1 \<noteq> opcode2 \<or> opcode2 > OP_PUSHDATA4 \<and> vch1 \<noteq> vch2 then None
      else if opcode2 \<le> OP_PUSHDATA4 then Some [vch1]
      else Some [])"

function match_template :: "valtype \<Rightarrow> valtype \<Rightarrow> valtype list \<Rightarrow> valtype list option" where
  "match_template pc1 pc2 vSolutions =
     (if pc1 = [] \<and> pc2 = [] then Some vSolutions
      else case GetOp2 pc1 False of (ok1, opcode1, vch1, pc1) \<Rightarrow>
        if \<not> ok1 then None
        else case GetOp2 pc2 True of (ok2, opcode2, vch2, pc2) \<Rightarrow>
          if \<not> ok2 then None
          else case (if opcode2 = OP_PUBKEYS then pubkeys_loop opcode1 vch1 pc1 vSolutions
                     else (opcode1, vch1, pc1, vSolutions)) of (opcode1, vch1, pc1, vSolutions) \<Rightarrow>
            case (if opcode2 = OP_PUBKEYS then GetOp2 pc2 True else (True, opcode2, vch2, pc2)) of
              (ok2, opcode2, vch2, pc3) \<Rightarrow>
                if \<not> ok2 then None
                else case match_op opcode1 vch1 opcode2 vch2 of
                       None \<Rightarrow> None
                     | Some new \<Rightarrow> match_template pc1 pc3 (vSolutions @ new))"
  by pat_completeness auto
termination
  by (relation "measure (\<lambda>(pc1, pc2, v). length pc2)")
    (auto dest!: GetOp2_shorter [OF sym] split: if_splits)

fun Solver_scan :: "(txnouttype \<times> valtype) list \<Rightarrow> valtype \<Rightarrow> bool \<times> txnouttype \<times> valtype list" where
  "Solver_scan [] script = (False, TX_NONSTANDARD, [])"
| "Solver_scan ((t, tplate) # ts) script =
     (case match_template script tplate [] of
        Some vSolutions \<Rightarrow> (TxTypeIsStandard t vSolutions, t, vSolutions)
      | None \<Rightarrow> Solver_scan ts script)"

text \<open>A script hash is appended to the solutions the caller passes in; all else replaces them.\<close>

definition Solver :: "valtype \<Rightarrow> valtype list \<Rightarrow> bool \<times> txnouttype \<times> valtype list" where
  "Solver scriptPubKey vSolutions =
     (if IsPayToScriptHash scriptPubKey
      then (True, TX_SCRIPTHASH, vSolutions @ [take 20 (drop 2 scriptPubKey)])
      else Solver_scan mTemplates scriptPubKey)"

declare match_template.simps [simp del] pubkeys_loop.simps [simp del] IsPushOnly.simps [simp del]
  HasCanonicalPushes.simps [simp del] GetSigOpCount_loop.simps [simp del] last_push.simps [simp del]

section \<open>Reading back what was written\<close>

lemma unat_of_nat_le: "unat (of_nat n :: 'w::len word) \<le> n"
  by (simp add: unat_of_nat)

lemma length_enough: "\<not> (of_nat n :: u32) < w \<Longrightarrow> unat w \<le> n"
  using unat_of_nat_le [of n, where 'w = 32] by (simp add: word_less_nat_alt)

lemma GetOp2_small:
  assumes "opc < OP_PUSHDATA1"
  shows "GetOp2 s False = (True, opc, v, r) \<longleftrightarrow>
    s = opc # v @ r \<and> length v = unat opc \<and> \<not> of_nat (length v + length r) < (ucast opc :: u32)"
proof -
  have le: "opc \<le> 0x4e" using assms by (simp add: word_less_nat_alt word_le_nat_alt)
  show ?thesis
  proof (cases s)
    case (Cons x xs)
    have "GetOp2 (opc # xs) False = (True, opc, v, r) \<longleftrightarrow>
      \<not> of_nat (length xs) < (ucast opc :: u32) \<and> v = take (unat opc) xs \<and> r = drop (unat opc) xs"
      using assms le by (auto simp: GetOp2_def GetOp2_size_def)
    moreover have "GetOp2 (x # xs) False = (True, opc, v, r) \<Longrightarrow> x = opc"
      by (auto simp: GetOp2_def split: if_splits option.splits)
    moreover have "\<not> of_nat (length xs) < (ucast opc :: u32) \<Longrightarrow> unat opc \<le> length xs"
      using length_enough [of "length xs" "ucast opc"] by simp
    ultimately show ?thesis unfolding Cons by (auto simp: append_eq_conv_conj)
  qed (simp add: GetOp2_def)
qed

lemma GetOp2_plain:
  assumes "OP_PUSHDATA4 < opc"
  shows "GetOp2 s f = (True, opc, v, r) \<longleftrightarrow> s = opc # r \<and> v = []"
proof (cases s)
  case (Cons x xs)
  have "GetOp2 (x # xs) f = (True, opc, v, r) \<Longrightarrow> x = opc"
    by (auto simp: GetOp2_def split: if_splits option.splits)
  with assms Cons show ?thesis by (auto simp: GetOp2_def not_le)
qed (simp add: GetOp2_def)

lemma GetOp2_pushdata1:
  "GetOp2 s False = (True, OP_PUSHDATA1, v, r) \<longleftrightarrow>
   s = OP_PUSHDATA1 # of_nat (length v) # v @ r \<and> length v < 256 \<and>
   \<not> of_nat (length v + length r) < (of_nat (length v) :: u32)"
proof (cases s)
  case (Cons x ys)
  show ?thesis
  proof (cases ys)
    case Nil
    then show ?thesis unfolding Cons by (auto simp: GetOp2_def GetOp2_size_def split: if_splits option.splits)
  next
    case ys: (Cons n xs)
    have get: "GetOp2 (0x4c # n # xs) False = (True, 0x4c, v, r) \<longleftrightarrow>
      \<not> of_nat (length xs) < (ucast n :: u32) \<and> v = take (unat n) xs \<and> r = drop (unat n) xs"
      by (auto simp: GetOp2_def GetOp2_size_def)
    have op: "GetOp2 (x # n # xs) False = (True, 0x4c, v, r) \<Longrightarrow> x = 0x4c"
      by (auto simp: GetOp2_def split: if_splits option.splits)
    have len: "\<not> of_nat (length xs) < (ucast n :: u32) \<Longrightarrow> unat n \<le> length xs"
      using length_enough [of "length xs" "ucast n"] by simp
    have small: "k < 256 \<Longrightarrow> unat (of_nat k :: u8) = k" "k < 256 \<Longrightarrow> ucast (of_nat k :: u8) = (of_nat k :: u32)" for k
      by (simp_all add: unat_of_nat_small word_unat_eq_iff)
    show ?thesis unfolding Cons ys
    proof
      assume g: "GetOp2 (x # n # xs) False = (True, 0x4c, v, r)"
      then have x: "x = 0x4c" by (rule op)
      have h: "\<not> of_nat (length xs) < (ucast n :: u32)" "v = take (unat n) xs" "r = drop (unat n) xs"
        using g unfolding x get by blast+
      then have l: "length v = unat n" "unat n < 256" using len unat_bound_word [of n] by simp_all
      then have "n = of_nat (length v)" "(ucast n :: u32) = of_nat (length v)" using small(2) [of "unat n"] by simp_all
      with x h l show "x # n # xs = 0x4c # of_nat (length v) # v @ r \<and> length v < 256 \<and>
          \<not> of_nat (length v + length r) < (of_nat (length v) :: u32)"
        using len by (metis append_take_drop_id length_append)
    next
      assume "x # n # xs = 0x4c # of_nat (length v) # v @ r \<and> length v < 256 \<and>
          \<not> of_nat (length v + length r) < (of_nat (length v) :: u32)"
      then show "GetOp2 (x # n # xs) False = (True, 0x4c, v, r)"
        using get small [of "length v"] by simp
    qed
  qed
qed (simp add: GetOp2_def)

section \<open>The templates\<close>

lemma match_template_Nil [simp]: "match_template s [] sols = Some sols' \<longleftrightarrow> s = [] \<and> sols' = sols"
proof (cases "s = []")
  case False
  obtain ok opc v r where g: "GetOp2 s False = (ok, opc, v, r)" by (cases "GetOp2 s False")
  have "match_template s [] sols = None"
    unfolding match_template.simps [of s] using False by (simp add: g GetOp2_def [of "[]"])
  then show ?thesis using False by simp
qed (auto simp: match_template.simps [of "[]" "[]"])

lemma GetOp2_template [simp]: "GetOp2 (x # xs) True = (True, x, [], xs)"
  by (simp add: GetOp2_def)

text \<open>An opcode of a template that only stands for itself, at the front.\<close>

definition fixed_op :: "u8 \<Rightarrow> bool" where
  "fixed_op x \<longleftrightarrow> OP_PUSHDATA4 < x \<and> x \<notin> {OP_SMALLDATA, OP_SMALLINTEGER, OP_PUBKEYS, OP_PUBKEYHASH, OP_PUBKEY}"

lemma match_template_Cons:
  assumes "x \<noteq> OP_PUBKEYS"
  shows "match_template s (x # xs) sols = Some sols' \<longleftrightarrow>
    (\<exists>opc v r new. GetOp2 s False = (True, opc, v, r) \<and> match_op opc v x [] = Some new \<and>
       match_template r xs (sols @ new) = Some sols')"
proof -
  obtain ok opc v r where g: "GetOp2 s False = (ok, opc, v, r)" by (cases "GetOp2 s False")
  show ?thesis
    unfolding match_template.simps [of s "x # xs"] using assms g
    by (cases ok) (auto split: option.splits)
qed

lemma match_fixed_op:
  assumes "fixed_op x"
  shows "match_template s (x # xs) sols = Some sols' \<longleftrightarrow>
    (\<exists>r. s = x # r \<and> match_template r xs sols = Some sols')"
proof -
  have x: "x \<noteq> 0xfb" "0x4e < x" "x \<noteq> 0xf9" "x \<noteq> 0xfa" "x \<noteq> 0xfd" "x \<noteq> 0xfe" using assms by (auto simp: fixed_op_def)
  have m: "match_op opc v x [] = Some new \<longleftrightarrow> opc = x \<and> v = [] \<and> new = []" for opc v new
    using x by (auto simp: match_op_def not_le)
  show ?thesis unfolding match_template_Cons [OF x(1)] m using GetOp2_plain [OF x(2)] by auto
qed

lemma match_small_push:
  assumes "n < OP_PUSHDATA1"
  shows "match_template s (n # xs) sols = Some sols' \<longleftrightarrow>
    (\<exists>d r. s = n # d @ r \<and> length d = unat n \<and> \<not> of_nat (length d + length r) < (ucast n :: u32) \<and>
       match_template r xs (sols @ [d]) = Some sols')"
proof -
  have n: "n \<noteq> 0xfb" "n \<noteq> 0xf9" "n \<noteq> 0xfa" "n \<noteq> 0xfd" "n \<noteq> 0xfe" "n \<le> 0x4e" "\<not> 0x4e < n"
    using assms by (auto simp: word_less_nat_alt word_le_nat_alt)
  have m: "match_op opc v n [] = Some new \<longleftrightarrow> opc = n \<and> new = [v]" for opc v new
    using n by (auto simp: match_op_def)
  show ?thesis unfolding match_template_Cons [OF n(1)] m using GetOp2_small [OF assms] by auto
qed

lemma match_pushdata1:
  "match_template s (OP_PUSHDATA1 # xs) sols = Some sols' \<longleftrightarrow>
    (\<exists>d r. s = OP_PUSHDATA1 # of_nat (length d) # d @ r \<and> length d < 256 \<and>
       \<not> of_nat (length d + length r) < (of_nat (length d) :: u32) \<and> match_template r xs (sols @ [d]) = Some sols')"
proof -
  have m: "match_op opc v 0x4c [] = Some new \<longleftrightarrow> opc = 0x4c \<and> new = [v]" for opc v new
    by (auto simp: match_op_def)
  have n: "(0x4c :: u8) \<noteq> 0xfb" by simp
  show ?thesis unfolding match_template_Cons [OF n] m using GetOp2_pushdata1 by auto
qed

lemma short_enough: "length d + k < 2 ^ 32 \<Longrightarrow> w = of_nat (length d) \<Longrightarrow> \<not> of_nat (length d + k) < (w :: u32)"
  by (simp add: word_less_nat_alt unat_of_nat_small del: of_nat_add)

text \<open>The payload opcodes, and the scripts that consist of one payload and its opcode.\<close>

definition payload_op :: "txnouttype \<Rightarrow> u8 option" where
  "payload_op t = (case t of
       TX_PURCHASE1 \<Rightarrow> Some OP_PURCHASE1 | TX_PURCHASE4 \<Rightarrow> Some OP_PURCHASE4 | TX_SETOWNER \<Rightarrow> Some OP_SETOWNER
     | TX_SETMANAGER \<Rightarrow> Some OP_SETMANAGER | TX_SETDELEGATE \<Rightarrow> Some OP_SETDELEGATE
     | TX_SETCONTROLLER \<Rightarrow> Some OP_SETCONTROLLER | TX_ENABLE \<Rightarrow> Some OP_ENABLE | TX_DISABLE \<Rightarrow> Some OP_DISABLE
     | TX_SETMETA \<Rightarrow> Some OP_SETMETA | TX_FEEWORK \<Rightarrow> Some OP_FEEWORK | _ \<Rightarrow> None)"

definition payload_size :: "txnouttype \<Rightarrow> nat \<Rightarrow> bool" where
  "payload_size t n = (case t of
       TX_PURCHASE1 \<Rightarrow> n = 57 | TX_PURCHASE4 \<Rightarrow> n = 127 \<or> n = 160 | TX_SETOWNER \<Rightarrow> n = 37
     | TX_SETMANAGER \<Rightarrow> n = 37 | TX_SETDELEGATE \<Rightarrow> n = 41 | TX_SETCONTROLLER \<Rightarrow> n = 37 | TX_ENABLE \<Rightarrow> n = 4
     | TX_DISABLE \<Rightarrow> n = 4 | TX_SETMETA \<Rightarrow> n = 60 | TX_FEEWORK \<Rightarrow> n = 16 | _ \<Rightarrow> False)"

definition payload_text :: "txnouttype \<Rightarrow> valtype \<Rightarrow> bool" where
  "payload_text t d = (case t of
       TX_PURCHASE1 \<Rightarrow> AliasIsValid (c_string (drop (length d - 16) d))
     | TX_PURCHASE4 \<Rightarrow> AliasIsValid (c_string (drop (length d - 16) d))
     | TX_SETMETA \<Rightarrow> CheckMetaKey (map byte_char (meta_key_bytes d)) \<noteq> QPKEY_NONE \<and> CheckMetaValue (c_string (drop 20 d))
     | _ \<Rightarrow> True)"

lemma GetOp2_split:
  assumes "GetOp2 s f = (True, opc, v, r)"
  obtains p where "s = opc # p @ r"
proof (cases s)
  case (Cons x xs)
  have x: "x = opc" using assms unfolding Cons by (auto simp: GetOp2_def split: if_splits option.splits)
  have "\<exists>k. r = drop k xs"
    using assms unfolding Cons GetOp2_def GetOp2_size_def
    by (auto split: if_splits option.splits) (metis drop0)+
  then show ?thesis using that Cons x by (metis append_take_drop_id)
qed (use assms in \<open>simp add: GetOp2_def\<close>)

lemma match_last:
  assumes "fixed_op x" "OP_PUBKEYS \<notin> set pre" "match_template s (pre @ [x]) sols = Some sols'"
  shows "s \<noteq> [] \<and> last s = x"
  using assms(2,3)
proof (induction pre arbitrary: s sols)
  case Nil
  then show ?case using match_fixed_op [OF assms(1)] by auto
next
  case (Cons y pre)
  then obtain opc v r new where "GetOp2 s False = (True, opc, v, r)" "match_template r (pre @ [x]) (sols @ new) = Some sols'"
    using match_template_Cons [of y s "pre @ [x]"] by auto
  then show ?case using Cons.IH [of r] Cons.prems(1) by (auto elim!: GetOp2_split)
qed

lemma match_head_int: "match_template s (OP_SMALLINTEGER # xs) sols = Some sols' \<Longrightarrow>
    s \<noteq> [] \<and> (hd s = 0 \<or> OP_1 \<le> hd s)"
  by (auto simp: match_template_Cons match_op_def elim!: GetOp2_split split: if_splits)

text \<open>A payload script and the templates.\<close>

lemma hd_push_data: "d \<noteq> [] \<Longrightarrow> length d < 256 \<Longrightarrow> hd (push_data d @ r) = (if length d < 76 then of_nat (length d) else 0x4c)"
  by (simp add: push_data_def)

lemma match_small_payload:
  assumes n: "n < OP_PUSHDATA1" and x: "fixed_op x"
  shows "match_template s [n, x] [] = Some sols \<longleftrightarrow> (\<exists>d. length d = unat n \<and> s = push_data d @ [x] \<and> sols = [d])"
proof -
  have u: "unat n < 76" using n by (simp add: word_less_nat_alt)
  have n': "n = of_nat (unat n)" by simp
  have "\<not> ucast n + 1 < (ucast n :: u32)" using u by (simp add: word_less_nat_alt unat_word_ariths)
  moreover have "push_data d = n # d" if "length d = unat n" for d
    using that u n' by (simp add: push_data_def)
  ultimately show ?thesis
    unfolding match_small_push [OF n] match_fixed_op [OF x] by auto
qed

lemma match_pushdata1_payload:
  assumes x: "fixed_op x" and d: "76 \<le> length (hd sols)"
  shows "match_template s [OP_PUSHDATA1, x] [] = Some sols \<longleftrightarrow>
    (\<exists>d. length d < 256 \<and> s = push_data d @ [x] \<and> sols = [d])"
proof -
  have "\<not> of_nat (length d) + 1 < (of_nat (length d) :: u32)" if "length d < 256" for d :: valtype
    using that short_enough [of d 1] by (simp add: add.commute)
  moreover have "push_data d = 0x4c # of_nat (length d) # d" if "length d < 256" "76 \<le> length d" for d
    using that by (simp add: push_data_def)
  ultimately show ?thesis
    using d unfolding match_pushdata1 match_fixed_op [OF x] by auto
qed

lemma Solver_scan_inv:
  "Solver_scan ts s = (True, t, sols) \<Longrightarrow> \<exists>tp. (t, tp) \<in> set ts \<and> match_template s tp [] = Some sols \<and> TxTypeIsStandard t sols"
  by (induction ts s rule: Solver_scan.induct) (auto split: option.splits)

lemma Solver_scan_only:
  assumes "(t, tp) \<in> set ts" "match_template s tp [] = Some sols"
    and "\<forall>t' tp'. (t', tp') \<in> set ts \<longrightarrow> (t', tp') \<noteq> (t, tp) \<longrightarrow> match_template s tp' [] = None"
  shows "Solver_scan ts s = (TxTypeIsStandard t sols, t, sols)"
  using assms by (induction ts s rule: Solver_scan.induct) (auto split: option.splits)

lemma match_last':
  assumes "tp \<noteq> []" "fixed_op (last tp)" "OP_PUBKEYS \<notin> set tp" "match_template s tp sols = Some sols'"
  shows "s \<noteq> [] \<and> last s = last tp"
proof -
  have tp: "tp = butlast tp @ [last tp]" using assms(1) by simp
  have "0xfb \<notin> set (butlast tp)" using assms(3) by (auto dest: in_set_butlastD)
  then show ?thesis using match_last [OF assms(2)] assms(4) tp by metis
qed

lemma payload_size_range: "payload_size t n \<Longrightarrow> 0 < n \<and> n < 256"
  by (auto simp: payload_size_def split: txnouttype.splits)

definition payload_size_op :: "txnouttype \<Rightarrow> u8" where
  "payload_size_op t = (case t of
       TX_PURCHASE1 \<Rightarrow> 0x39 | TX_PURCHASE4 \<Rightarrow> OP_PUSHDATA1 | TX_SETDELEGATE \<Rightarrow> 0x29 | TX_ENABLE \<Rightarrow> 0x04
     | TX_DISABLE \<Rightarrow> 0x04 | TX_SETMETA \<Rightarrow> 0x3c | TX_FEEWORK \<Rightarrow> 0x10 | _ \<Rightarrow> 0x25)"

lemma payload_op_fixed: "payload_op t = Some opc \<Longrightarrow> fixed_op opc \<and> opc \<noteq> OP_CHECKSIG"
  by (cases t) (auto simp: payload_op_def fixed_op_def)

lemma payload_op_inj: "payload_op t = Some opc \<Longrightarrow> payload_op t' = Some opc \<Longrightarrow> t' = t"
  by (cases t; simp add: payload_op_def; cases t'; simp)

lemma payload_template: "payload_op t = Some opc \<Longrightarrow> (t, tp) \<in> set mTemplates \<longleftrightarrow> tp = [payload_size_op t, opc]"
  by (cases t) (auto simp: payload_op_def payload_size_op_def mTemplates_def)

lemma template_shapes:
  assumes "(t, tp) \<in> set mTemplates"
  shows "tp \<noteq> [] \<and> OP_PUBKEYS \<notin> set tp \<and> (payload_op t = Some (last tp) \<or> last tp = OP_CHECKSIG) \<or>
    (\<exists>xs. tp = OP_SMALLINTEGER # xs) \<or> (\<exists>xs. tp = OP_RETURN # xs)"
  using assms unfolding mTemplates_def
  by (simp only: list.set insert_iff empty_iff prod.inject) (elim disjE conjE; simp add: payload_op_def)

lemma template_kinds:
  assumes "payload_op t = Some opc" "(t', tp) \<in> set mTemplates" "t' \<noteq> t"
  shows "(tp \<noteq> [] \<and> fixed_op (last tp) \<and> OP_PUBKEYS \<notin> set tp \<and> last tp \<noteq> opc) \<or>
    (\<exists>xs. tp = OP_SMALLINTEGER # xs) \<or> (\<exists>xs. tp = OP_RETURN # xs)"
proof -
  have "fixed_op 0xac" by (simp add: fixed_op_def)
  then show ?thesis
    using template_shapes [OF assms(2)] payload_op_fixed payload_op_inj [OF assms(1), of t'] assms(1,3) by metis
qed

lemma hd_payload:
  assumes "0 < length d" "length d < 256"
  shows "hd (push_data d @ r) \<noteq> 0" "hd (push_data d @ r) \<le> OP_PUSHDATA1"
proof -
  have "hd (push_data d @ r) = (if length d < 76 then of_nat (length d) else 0x4c)"
    using assms by (intro hd_push_data) auto
  moreover have "unat (of_nat (length d) :: u8) = length d" using assms by (simp add: unat_of_nat_small)
  ultimately show "hd (push_data d @ r) \<noteq> 0" "hd (push_data d @ r) \<le> 0x4c"
    using assms by (auto simp: word_unat_eq_iff word_le_nat_alt)
qed

lemma payload_other_template:
  assumes op: "payload_op t = Some opc" and size: "payload_size t (length d)"
    and tp: "(t', tp) \<in> set mTemplates" "t' \<noteq> t"
  shows "match_template (push_data d @ [opc]) tp [] = None"
proof (rule ccontr)
  let ?s = "push_data d @ [opc]"
  assume "match_template ?s tp [] \<noteq> None"
  then obtain sols where m: "match_template ?s tp [] = Some sols" by blast
  have len: "0 < length d" "length d < 256" using payload_size_range [OF size] by auto
  note h = hd_payload [OF len, of "[opc]"]
  from template_kinds [OF op tp] consider (last) "tp \<noteq> []" "fixed_op (last tp)" "0xfb \<notin> set tp" "last tp \<noteq> opc"
    | (int) xs where "tp = 0xfa # xs" | (ret) xs where "tp = 0x6a # xs" by blast
  then show False
  proof cases
    case last
    then show False using match_last' [OF last(1-3) m] by simp
  next
    case int
    then have "hd ?s = 0 \<or> 0x51 \<le> hd ?s" using match_head_int m by blast
    then show False using h by (auto simp: word_le_nat_alt)
  next
    case ret
    have "fixed_op 0x6a" by (simp add: fixed_op_def)
    then have "hd ?s = 0x6a" using m unfolding ret by (auto simp: match_fixed_op)
    then show False using h by (simp add: word_le_nat_alt)
  qed
qed

lemma payload_not_p2sh:
  "0 < length d \<Longrightarrow> length d < 256 \<Longrightarrow> \<not> IsPayToScriptHash (push_data d @ r)"
  using hd_payload [of d r] by (cases "push_data d @ r") (auto simp: IsPayToScriptHash_def word_le_nat_alt)

text \<open>The template of a payload type, and what the template and the additional checks amount to.\<close>

lemma match_payload:
  assumes op: "payload_op t = Some opc"
  shows "match_template s [payload_size_op t, opc] [] = Some sols \<and> TxTypeIsStandard t sols \<longleftrightarrow>
    (\<exists>d. s = push_data d @ [opc] \<and> sols = [d] \<and> payload_size t (length d) \<and> payload_text t d)"
proof (cases "t = TX_PURCHASE4")
  case True
  have std: "76 \<le> length (hd sols)" if "TxTypeIsStandard t sols"
    using that by (auto simp: True TxTypeIsStandard_def Let_def)
  have iff: "length d < 256 \<and> TxTypeIsStandard t [d] \<longleftrightarrow> payload_size t (length d) \<and> payload_text t d" for d
    by (auto simp: True TxTypeIsStandard_def payload_size_def payload_text_def)
  have x: "payload_size_op t = 0x4c" "fixed_op opc" using payload_op_fixed [OF op] by (simp_all add: True payload_size_op_def)
  show ?thesis
  proof
    assume "match_template s [payload_size_op t, opc] [] = Some sols \<and> TxTypeIsStandard t sols"
    then show "\<exists>d. s = push_data d @ [opc] \<and> sols = [d] \<and> payload_size t (length d) \<and> payload_text t d"
      using match_pushdata1_payload [OF x(2) std] x(1) iff by metis
  next
    assume "\<exists>d. s = push_data d @ [opc] \<and> sols = [d] \<and> payload_size t (length d) \<and> payload_text t d"
    then obtain d where d: "s = push_data d @ [opc]" "sols = [d]" "length d < 256" "TxTypeIsStandard t sols" using iff by blast
    then show "match_template s [payload_size_op t, opc] [] = Some sols \<and> TxTypeIsStandard t sols"
      using match_pushdata1_payload [OF x(2) std, of s] x(1) by simp
  qed
next
  case False
  have "payload_size_op t < 0x4c" using False op by (cases t) (simp_all add: payload_op_def payload_size_op_def)
  moreover have "length d = unat (payload_size_op t) \<and> TxTypeIsStandard t [d] \<longleftrightarrow> payload_size t (length d) \<and> payload_text t d" for d
    using False op by (cases t)
      (auto simp: payload_op_def payload_size_op_def TxTypeIsStandard_def payload_size_def payload_text_def)
  ultimately show ?thesis
    using match_small_payload [of "payload_size_op t" opc s sols] payload_op_fixed [OF op] by blast
qed

lemma Solver_payload_iff:
  assumes "payload_op t = Some opc"
  shows "Solver s vs = (True, t, sols) \<longleftrightarrow>
    (\<exists>d. s = push_data d @ [opc] \<and> sols = [d] \<and> payload_size t (length d) \<and> payload_text t d)"
proof
  assume a: "Solver s vs = (True, t, sols)"
  moreover have "t \<noteq> TX_SCRIPTHASH" using assms by (auto simp: payload_op_def)
  ultimately have "Solver_scan mTemplates s = (True, t, sols)" by (auto simp: Solver_def split: if_splits)
  then obtain tp where
    "(t, tp) \<in> set mTemplates" "match_template s tp [] = Some sols" "TxTypeIsStandard t sols" by (blast dest: Solver_scan_inv)
  then show "\<exists>d. s = push_data d @ [opc] \<and> sols = [d] \<and> payload_size t (length d) \<and> payload_text t d"
    unfolding payload_template [OF assms] using match_payload [OF assms, of s sols] by simp
next
  assume "\<exists>d. s = push_data d @ [opc] \<and> sols = [d] \<and> payload_size t (length d) \<and> payload_text t d"
  then obtain d where d: "s = push_data d @ [opc]" "sols = [d]" "payload_size t (length d)" "payload_text t d" by blast
  have m: "match_template s [payload_size_op t, opc] [] = Some sols" "TxTypeIsStandard t sols"
    using match_payload [OF assms] d by blast+
  have "\<not> IsPayToScriptHash s" unfolding d(1) using payload_size_range [OF d(3)] payload_not_p2sh by blast
  moreover have "Solver_scan mTemplates s = (TxTypeIsStandard t sols, t, sols)"
  proof (rule Solver_scan_only [OF _ m(1)])
    show "(t, [payload_size_op t, opc]) \<in> set mTemplates" using payload_template [OF assms] by blast
    show "\<forall>t' tp'. (t', tp') \<in> set mTemplates \<longrightarrow> (t', tp') \<noteq> (t, [payload_size_op t, opc]) \<longrightarrow> match_template s tp' [] = None"
    proof (intro allI impI)
      fix t' tp' assume "(t', tp') \<in> set mTemplates" "(t', tp') \<noteq> (t, [payload_size_op t, opc])"
      moreover from this have "t' \<noteq> t" using payload_template [OF assms] by blast
      ultimately show "match_template s tp' [] = None"
        unfolding d(1) using payload_other_template [OF assms d(3)] by blast
    qed
  qed
  ultimately show "Solver s vs = (True, t, sols)" using m(2) by (simp add: Solver_def)
qed

text \<open>
  C32. \<open>Solver\<close> recognises a staker purchase, a key or state change, a meta-data change or a
  feework exactly when the script is the push of one payload followed by the opcode of that
  operation: the payload has the size of the operation, its alias or its meta data are valid, and the
  payload is the only solution. Nothing else is accepted as such an operation, and no such script is taken for
  anything else.
\<close>

theorem Solver_payload:
  assumes "payload_op t = Some opc"
  shows "Solver s vs = (True, t, sols) \<longleftrightarrow>
    (\<exists>d. s = push_data d @ [opc] \<and> sols = [d] \<and> payload_size t (length d) \<and> payload_text t d)"
  using Solver_payload_iff [OF assms] .

theorem Solver_payload_witness:
  "Solver (push_data [0, 0, 0, 7] @ [OP_ENABLE]) [] = (True, TX_ENABLE, [[0, 0, 0, 7]])"
  using Solver_payload [of TX_ENABLE OP_ENABLE "push_data [0, 0, 0, 7] @ [OP_ENABLE]" "[]" "[[0, 0, 0, 7]]"]
  by (simp add: payload_op_def payload_size_def payload_text_def)

lemma Solver_not_nonstandard: "Solver s vs \<noteq> (True, TX_NONSTANDARD, sols)"
  using Solver_scan_inv [of mTemplates s TX_NONSTANDARD sols] by (auto simp: Solver_def mTemplates_def)

section \<open>Claims\<close>

lemma match_pubkeyhash:
  "match_template s (OP_PUBKEYHASH # xs) sols = Some sols' \<longleftrightarrow>
    (\<exists>opc h r. GetOp2 s False = (True, opc, h, r) \<and> length h = 20 \<and> match_template r xs (sols @ [h]) = Some sols')"
  by (auto simp: match_template_Cons match_op_def split: if_splits)

lemma fixed_ops [simp]:
  "fixed_op OP_CLAIM" "fixed_op OP_DUP" "fixed_op OP_HASH160" "fixed_op OP_EQUALVERIFY" "fixed_op OP_CHECKSIG"
  by (simp_all add: fixed_op_def)

lemma Solver_claim_inv:
  assumes "Solver s vs = (True, TX_CLAIM, sols)"
  shows "\<exists>d h. sols = [d, h] \<and> length d = 41 \<and> length h = 20"
proof -
  have "Solver_scan mTemplates s = (True, TX_CLAIM, sols)" using assms by (auto simp: Solver_def split: if_splits)
  from Solver_scan_inv [OF this] obtain tp where tp: "(TX_CLAIM, tp) \<in> set mTemplates"
    and m: "match_template s tp [] = Some sols" by blast
  have "tp = [0x29, 0xc8, 0x76, 0xa9, 0xfd, 0x88, 0xac]" using tp by (simp add: mTemplates_def)
  with m have "match_template s (0x29 # [0xc8, 0x76, 0xa9, 0xfd, 0x88, 0xac]) [] = Some sols" by simp
  then show ?thesis by (auto simp: match_small_push match_fixed_op match_pubkeyhash)
qed

section \<open>Pushes\<close>

lemma take_store_le: "take n (store_le n w @ r) = store_le n w" "drop n (store_le n w @ r) = r"
  by simp_all

lemma GetOp2_push_data:
  assumes "length b + length r < 2 ^ 32"
  shows "GetOp2 (push_data b @ r) False = (True, hd (push_data b), b, r)"
proof -
  have w: "\<not> of_nat (length b + length r) < (of_nat (length b) :: u32)" using short_enough [OF assms refl] .
  have u: "unat (of_nat (length b) :: u32) = length b" using assms by (intro unat_of_nat_small) simp
  have get: "GetOp2 (opc # sz @ b @ r) False = (True, opc, b, r)"
    if "opc \<le> 0x4e" "GetOp2_size opc (sz @ b @ r) = Some (of_nat (length b), b @ r)" for opc sz
    using that w u by (simp add: GetOp2_def)
  consider (a) "length b < 76" | (b) "\<not> length b < 76" "length b < 256" | (c) "\<not> length b < 256" "length b < 65536"
    | (d) "\<not> length b < 65536" by linarith
  then show ?thesis
  proof cases
    case a
    have "unat (of_nat (length b) :: u8) = length b" using a by (simp add: unat_of_nat_small)
    then have "(of_nat (length b) :: u8) < 0x4c" "(ucast (of_nat (length b) :: u8) :: u32) = of_nat (length b)"
      using a u by (simp_all add: word_less_nat_alt word_unat_eq_iff)
    then show ?thesis
      using a get [of "of_nat (length b)" "[]"] by (simp add: push_data_def GetOp2_size_def word_less_nat_alt word_le_nat_alt)
  next
    case b
    have "unat (of_nat (length b) :: u8) = length b" using b by (simp add: unat_of_nat_small)
    then have "(ucast (of_nat (length b) :: u8) :: u32) = of_nat (length b)" using u by (simp add: word_unat_eq_iff)
    then show ?thesis
      using b get [of "0x4c" "[of_nat (length b)]"] by (simp add: push_data_def GetOp2_size_def)
  next
    case c
    have "load_le (store_le 2 (of_nat (length b) :: u16)) = (of_nat (length b) :: u32)"
      using c u by (simp add: load_le_ucast word_unat_eq_iff unat_of_nat_small take_bit_word_eq_self unsigned_ucast_eq
          take_bit_nat_eq_self)
    then show ?thesis
      using c get [of "0x4d" "store_le 2 (of_nat (length b) :: u16)"] by (simp add: push_data_def GetOp2_size_def)
  next
    case d
    have "load_le (store_le 4 (of_nat (length b) :: u32)) = (of_nat (length b) :: u32)"
      by (simp add: load_store_le take_bit_full)
    then show ?thesis
      using d get [of "0x4e" "store_le 4 (of_nat (length b) :: u32)"] by (simp add: push_data_def GetOp2_size_def)
  qed
qed

end
