(* ===== verification/Serialize.thy ===== *)
theory Serialize
  imports CBytes "HOL-Library.Monad_Syntax"
begin

text \<open>
  Serialization, \<^verbatim>\<open>src/util/serialize.h\<close>, and the transaction data of \<^verbatim>\<open>src/blockchain/main.h\<close>
  that goes through it. A stream is the list of its bytes; reading past the end of a stream
  throws, and so does a size beyond \<open>MAX_SIZE\<close>: both are \<open>None\<close>. The machine is little-endian.
\<close>

section \<open>Sizes and byte vectors\<close>

definition MAX_SIZE :: u64 where "MAX_SIZE = 0x02000000"

definition GetSizeOfCompactSize :: "u64 \<Rightarrow> u32" where
  "GetSizeOfCompactSize nSize =
     (if nSize < 253 then 1 else if nSize \<le> 0xffff then 1 + 2 else if nSize \<le> 0xffffffff then 1 + 4 else 1 + 8)"

definition WriteCompactSize :: "u64 \<Rightarrow> valtype" where
  "WriteCompactSize nSize =
     (if nSize < 253 then [ucast nSize]
      else if nSize \<le> 0xffff then 253 # store_le 2 (ucast nSize :: u16)
      else if nSize \<le> 0xffffffff then 254 # store_le 4 (ucast nSize :: u32)
      else 255 # store_le 8 nSize)"

definition read_bytes :: "nat \<Rightarrow> valtype \<Rightarrow> (valtype \<times> valtype) option" where
  "read_bytes n s = (if n \<le> length s then Some (take n s, drop n s) else None)"

definition read_word :: "nat \<Rightarrow> valtype \<Rightarrow> ('w::len word \<times> valtype) option" where
  "read_word n s = do { (b, s) \<leftarrow> read_bytes n s; Some (load_le b, s) }"

definition ReadCompactSize :: "valtype \<Rightarrow> (u64 \<times> valtype) option" where
  "ReadCompactSize s = do {
     (ch, s) \<leftarrow> read_bytes 1 s;
     let chSize = ch ! 0;
     (nSizeRet, s) \<leftarrow>
       (if chSize < 253 then Some (ucast chSize, s)
        else if chSize = 253 then read_word 2 s
        else if chSize = 254 then read_word 4 s
        else read_word 8 s);
     if nSizeRet > MAX_SIZE then None else Some (nSizeRet, s)
   }"

definition ser_vch :: "valtype \<Rightarrow> valtype" where
  "ser_vch v = WriteCompactSize (of_nat (length v)) @ v"

text \<open>The bytes are read in blocks of at most five million.\<close>

function unser_blocks :: "nat \<Rightarrow> valtype \<Rightarrow> valtype \<Rightarrow> (valtype \<times> valtype) option" where
  "unser_blocks left v s =
     (if left = 0 then Some (v, s)
      else let blk = min left 5000000
           in case read_bytes blk s of
                None \<Rightarrow> None
              | Some (b, s) \<Rightarrow> unser_blocks (left - blk) (v @ b) s)"
  by pat_completeness auto
termination by (relation "measure (\<lambda>(n, v, s). n)") auto

declare unser_blocks.simps [simp del]

definition unser_vch :: "valtype \<Rightarrow> (valtype \<times> valtype) option" where
  "unser_vch s = do { (nSize, s) \<leftarrow> ReadCompactSize s; unser_blocks (unat nSize) [] s }"

definition size_vch :: "valtype \<Rightarrow> u32" where
  "size_vch v = GetSizeOfCompactSize (of_nat (length v)) + of_nat (length v)"

section \<open>Vectors of objects\<close>

definition ser_vector :: "('a \<Rightarrow> valtype) \<Rightarrow> 'a list \<Rightarrow> valtype" where
  "ser_vector ser v = WriteCompactSize (of_nat (length v)) @ concat (map ser v)"

fun unser_items :: "(valtype \<Rightarrow> ('a \<times> valtype) option) \<Rightarrow> nat \<Rightarrow> valtype \<Rightarrow> ('a list \<times> valtype) option" where
  "unser_items unser 0 s = Some ([], s)"
| "unser_items unser (Suc n) s = do { (x, s) \<leftarrow> unser s; (xs, s) \<leftarrow> unser_items unser n s; Some (x # xs, s) }"

definition unser_vector :: "(valtype \<Rightarrow> ('a \<times> valtype) option) \<Rightarrow> valtype \<Rightarrow> ('a list \<times> valtype) option" where
  "unser_vector unser s = do { (nSize, s) \<leftarrow> ReadCompactSize s; unser_items unser (unat nSize) s }"

definition size_vector :: "('a \<Rightarrow> u32) \<Rightarrow> 'a list \<Rightarrow> u32" where
  "size_vector sz v = GetSizeOfCompactSize (of_nat (length v)) + sum_list (map sz v)"

section \<open>Transactions\<close>

record COutPoint =
  op_hash :: uint256
  op_n :: u32

record CTxIn =
  prevout :: COutPoint
  scriptSig :: valtype
  nSequence :: u32

record CTxOut =
  nValue :: int
  scriptPubKey :: valtype

record CTransaction =
  nVersion :: int
  tx_nTime :: u32
  vin :: "CTxIn list"
  vout :: "CTxOut list"
  nLockTime :: u32

definition ser_outpoint :: "COutPoint \<Rightarrow> valtype" where
  "ser_outpoint p = store_le 32 (op_hash p) @ store_le 4 (op_n p)"

definition unser_outpoint :: "valtype \<Rightarrow> (COutPoint \<times> valtype) option" where
  "unser_outpoint s = do { (h, s) \<leftarrow> read_word 32 s; (n, s) \<leftarrow> read_word 4 s; Some (\<lparr>op_hash = h, op_n = n\<rparr>, s) }"

definition ser_txin :: "CTxIn \<Rightarrow> valtype" where
  "ser_txin i = ser_outpoint (prevout i) @ ser_vch (scriptSig i) @ store_le 4 (nSequence i)"

definition unser_txin :: "valtype \<Rightarrow> (CTxIn \<times> valtype) option" where
  "unser_txin s = do {
     (p, s) \<leftarrow> unser_outpoint s; (v, s) \<leftarrow> unser_vch s; (n, s) \<leftarrow> read_word 4 s;
     Some (\<lparr>prevout = p, scriptSig = v, nSequence = n\<rparr>, s) }"

definition size_txin :: "CTxIn \<Rightarrow> u32" where
  "size_txin i = 36 + size_vch (scriptSig i) + 4"

definition ser_txout :: "CTxOut \<Rightarrow> valtype" where
  "ser_txout o' = store_le 8 (word_of_int (nValue o') :: u64) @ ser_vch (scriptPubKey o')"

definition unser_txout :: "valtype \<Rightarrow> (CTxOut \<times> valtype) option" where
  "unser_txout s = do {
     (n, s) \<leftarrow> read_word 8 s; (v, s) \<leftarrow> unser_vch s;
     Some (\<lparr>nValue = sint (n :: u64), scriptPubKey = v\<rparr>, s) }"

definition size_txout :: "CTxOut \<Rightarrow> u32" where
  "size_txout o' = 8 + size_vch (scriptPubKey o')"

abbreviation (input) NOTXTIME_VERSION :: int where "NOTXTIME_VERSION \<equiv> 2"
abbreviation (input) FEELESS_VERSION :: int where "FEELESS_VERSION \<equiv> 4"

text \<open>The time is part of the stream before \<open>NOTXTIME_VERSION\<close> only.\<close>

definition ser_tx :: "CTransaction \<Rightarrow> valtype" where
  "ser_tx tx = store_le 4 (word_of_int (nVersion tx) :: u32) @
     (if nVersion tx < NOTXTIME_VERSION then store_le 4 (tx_nTime tx) else []) @
     ser_vector ser_txin (vin tx) @ ser_vector ser_txout (vout tx) @ store_le 4 (nLockTime tx)"

text \<open>An object that is read keeps its time when the stream has none.\<close>

definition unser_tx :: "u32 \<Rightarrow> valtype \<Rightarrow> (CTransaction \<times> valtype) option" where
  "unser_tx nTimeOld s = do {
     (v, s) \<leftarrow> read_word 4 s;
     let ver = sint (v :: u32);
     (t, s) \<leftarrow> (if ver < NOTXTIME_VERSION then read_word 4 s else Some (nTimeOld, s));
     (i, s) \<leftarrow> unser_vector unser_txin s;
     (o', s) \<leftarrow> unser_vector unser_txout s;
     (l, s) \<leftarrow> read_word 4 s;
     Some (\<lparr>nVersion = ver, tx_nTime = t, vin = i, vout = o', nLockTime = l\<rparr>, s) }"

definition size_tx :: "CTransaction \<Rightarrow> u32" where
  "size_tx tx = 4 + (if nVersion tx < NOTXTIME_VERSION then 4 else 0) +
     size_vector size_txin (vin tx) + size_vector size_txout (vout tx) + 4"

section \<open>Reading back\<close>

lemma read_bytes_append [simp]: "length b = n \<Longrightarrow> read_bytes n (b @ s) = Some (b, s)"
  by (simp add: read_bytes_def)

lemma read_word_store [simp]:
  "read_word n (store_le n (w :: 'v::len word) @ s) = Some (ucast (take_bit (8 * n) w) :: 'w::len word, s)"
  by (simp add: read_word_def load_le_ucast)

lemma small_take_bit: "unat n < 2 ^ k \<Longrightarrow> take_bit k n = n" for n :: "'w::len word"
  by (simp add: word_unat_eq_iff unsigned_take_bit_eq take_bit_nat_eq_self)

lemma ReadCompactSize_Write:
  assumes "n \<le> MAX_SIZE"
  shows "ReadCompactSize (WriteCompactSize n @ s) = Some (n, s)"
proof -
  have n: "unat n \<le> 0x02000000" using assms by (simp add: MAX_SIZE_def word_le_nat_alt)
  have c: "(ucast (ucast n :: u8) :: u64) = n" if "unat n < 253"
    using that small_take_bit [of n 8] by (simp add: unsigned_ucast_eq)
  have d: "(ucast n :: u8) < 253" if "unat n < 253"
    using that by (simp add: word_less_nat_alt unsigned_ucast_eq take_bit_nat_eq_self)
  have s: "(ucast (ucast n :: u16) :: u64) = n" if "unat n < 0x10000"
    using that small_take_bit [of n 16] by (simp add: unsigned_ucast_eq)
  have i: "(ucast (ucast n :: u32) :: u64) = n"
    using n small_take_bit [of n 32] by (simp add: unsigned_ucast_eq)
  have m: "\<not> unat MAX_SIZE < unat n" using assms by (simp add: word_le_nat_alt)
  consider (a) "unat n < 253" | (b) "253 \<le> unat n" "unat n < 0x10000" | (c) "0x10000 \<le> unat n" by linarith
  then show ?thesis
  proof cases
    case a
    then show ?thesis using m c d
      by (simp add: WriteCompactSize_def ReadCompactSize_def word_less_nat_alt read_bytes_def)
  next
    case b
    then show ?thesis using m s
      by (simp add: WriteCompactSize_def ReadCompactSize_def word_less_nat_alt word_le_nat_alt read_bytes_def
          take_bit_word_eq_self read_word_def load_le_ucast)
  next
    case c
    then show ?thesis using m i n
      by (simp add: WriteCompactSize_def ReadCompactSize_def word_less_nat_alt word_le_nat_alt read_bytes_def
          take_bit_word_eq_self read_word_def load_le_ucast)
  qed
qed

lemma unser_blocks_append: "n = length b \<Longrightarrow> unser_blocks n v (b @ s) = Some (v @ b, s)"
proof (induction n v "b @ s" arbitrary: b rule: unser_blocks.induct)
  case (1 left v)
  show ?case
  proof (cases "left = 0")
    case False
    let ?k = "min left 5000000"
    have r: "read_bytes ?k (b @ s) = Some (take ?k b, drop ?k b @ s)"
      using 1(2) by (simp add: read_bytes_def)
    have "unser_blocks (left - ?k) (v @ take ?k b) (drop ?k b @ s) = Some ((v @ take ?k b) @ drop ?k b, s)"
      using 1(1) [OF False refl r] 1(2) by simp
    with False r show ?thesis by (simp add: unser_blocks.simps [of left])
  qed (use 1(2) in \<open>simp add: unser_blocks.simps\<close>)
qed

lemma small_length: "n \<le> 0x02000000 \<Longrightarrow> (of_nat n :: u64) \<le> MAX_SIZE \<and> unat (of_nat n :: u64) = n"
  by (simp add: MAX_SIZE_def word_le_nat_alt unat_of_nat_small)

lemma unser_ser_vch: "length v \<le> 0x02000000 \<Longrightarrow> unser_vch (ser_vch v @ s) = Some (v, s)"
  using small_length [of "length v"]
  by (simp add: unser_vch_def ser_vch_def ReadCompactSize_Write unser_blocks_append)

section \<open>Codecs\<close>

text \<open>
  A codec writes an object so that reading takes back exactly what was written and leaves the
  rest of the stream; its size function counts the bytes. Vectors of objects then have a codec too.
\<close>

locale codec =
  fixes ser :: "'a \<Rightarrow> valtype" and unser :: "valtype \<Rightarrow> ('a \<times> valtype) option" and sz :: "'a \<Rightarrow> u32"
    and ok :: "'a \<Rightarrow> bool"
  assumes unser_ser: "ok x \<Longrightarrow> unser (ser x @ s) = Some (x, s)"
    and size_ser: "ok x \<Longrightarrow> sz x = of_nat (length (ser x))"
begin

lemma unser_items_ser: "\<forall>x \<in> set xs. ok x \<Longrightarrow> unser_items unser (length xs) (concat (map ser xs) @ s) = Some (xs, s)"
  by (induction xs) (simp_all add: unser_ser)

lemma unser_ser_vector:
  assumes "\<forall>x \<in> set xs. ok x" and "length xs \<le> 0x02000000"
  shows "unser_vector unser (ser_vector ser xs @ s) = Some (xs, s)"
  using small_length [OF assms(2)] unser_items_ser [OF assms(1)]
  by (simp add: unser_vector_def ser_vector_def ReadCompactSize_Write)

lemma size_items: "\<forall>x \<in> set xs. ok x \<Longrightarrow> sum_list (map sz xs) = of_nat (length (concat (map ser xs)))"
  by (induction xs) (simp_all add: size_ser)

end

lemma length_WriteCompactSize: "of_nat (length (WriteCompactSize n)) = GetSizeOfCompactSize n"
  by (simp add: WriteCompactSize_def GetSizeOfCompactSize_def)

lemma size_vch_length: "size_vch v = of_nat (length (ser_vch v))"
  by (simp add: size_vch_def ser_vch_def length_WriteCompactSize)

context codec
begin

lemma size_ser_vector: "\<forall>x \<in> set xs. ok x \<Longrightarrow> size_vector sz xs = of_nat (length (ser_vector ser xs))"
  using size_items [of xs] by (simp add: size_vector_def ser_vector_def length_WriteCompactSize)

end

definition txin_ok :: "CTxIn \<Rightarrow> bool" where
  "txin_ok i \<longleftrightarrow> length (scriptSig i) \<le> 0x02000000"

definition txout_ok :: "CTxOut \<Rightarrow> bool" where
  "txout_ok o' \<longleftrightarrow> length (scriptPubKey o') \<le> 0x02000000 \<and> - (2 ^ 63) \<le> nValue o' \<and> nValue o' < 2 ^ 63"

definition tx_ok :: "CTransaction \<Rightarrow> bool" where
  "tx_ok tx \<longleftrightarrow> - (2 ^ 31) \<le> nVersion tx \<and> nVersion tx < 2 ^ 31 \<and>
     length (vin tx) \<le> 0x02000000 \<and> length (vout tx) \<le> 0x02000000 \<and>
     (\<forall>i \<in> set (vin tx). txin_ok i) \<and> (\<forall>o' \<in> set (vout tx). txout_ok o')"

lemma sint_word_of_int_u64: "- (2 ^ 63) \<le> k \<Longrightarrow> k < 2 ^ 63 \<Longrightarrow> sint (word_of_int k :: u64) = k"
  by (simp add: signed_of_int signed_take_bit_int_eq_self)

lemma sint_word_of_int_u32: "- (2 ^ 31) \<le> k \<Longrightarrow> k < 2 ^ 31 \<Longrightarrow> sint (word_of_int k :: u32) = k"
  by (simp add: signed_of_int signed_take_bit_int_eq_self)

lemma unser_ser_outpoint: "unser_outpoint (ser_outpoint p @ s) = Some (p, s)"
  by (cases p) (simp add: unser_outpoint_def ser_outpoint_def take_bit_word_eq_self)

interpretation txin_codec: codec ser_txin unser_txin size_txin txin_ok
proof
  show "unser_txin (ser_txin x @ s) = Some (x, s)" if "txin_ok x" for x s
    using that by (cases x) (simp add: unser_txin_def ser_txin_def unser_ser_outpoint unser_ser_vch txin_ok_def take_bit_word_eq_self)
  show "size_txin x = of_nat (length (ser_txin x))" for x
    by (simp add: size_txin_def ser_txin_def size_vch_length ser_outpoint_def)
qed

interpretation txout_codec: codec ser_txout unser_txout size_txout txout_ok
proof
  show "unser_txout (ser_txout x @ s) = Some (x, s)" if "txout_ok x" for x s
    using that by (cases x) (simp add: unser_txout_def ser_txout_def unser_ser_vch txout_ok_def take_bit_word_eq_self sint_word_of_int_u64)
  show "size_txout x = of_nat (length (ser_txout x))" for x
    by (simp add: size_txout_def ser_txout_def size_vch_length)
qed

interpretation tx_codec: codec ser_tx "unser_tx t" size_tx "\<lambda>tx. tx_ok tx \<and> (nVersion tx < NOTXTIME_VERSION \<or> tx_nTime tx = t)" for t
proof
  show "unser_tx t (ser_tx x @ s) = Some (x, s)" if "tx_ok x \<and> (nVersion x < 2 \<or> tx_nTime x = t)" for x s
    using that by (cases x)
      (auto simp: unser_tx_def ser_tx_def tx_ok_def take_bit_word_eq_self sint_word_of_int_u32
        txin_codec.unser_ser_vector txout_codec.unser_ser_vector)
  show "size_tx x = of_nat (length (ser_tx x))" if "tx_ok x \<and> (nVersion x < 2 \<or> tx_nTime x = t)" for x
    using that by (simp add: size_tx_def ser_tx_def tx_ok_def txin_codec.size_ser_vector txout_codec.size_ser_vector)
qed

text \<open>
  C36. A transaction survives serialization: reading the bytes that \<open>ser_tx\<close> writes, whatever
  follows them, yields the same transaction and leaves exactly what follows. The time comes back
  when the version has one, and otherwise stays what the receiving object had. \<open>GetSerializeSize\<close> is the
  number of bytes written.
\<close>

theorem tx_serialization_roundtrip:
  assumes "tx_ok tx"
  shows "unser_tx t (ser_tx tx @ rest) =
      Some (tx\<lparr>tx_nTime := if nVersion tx < NOTXTIME_VERSION then tx_nTime tx else t\<rparr>, rest) \<and>
    size_tx tx = of_nat (length (ser_tx tx))"
proof -
  let ?tx = "tx\<lparr>tx_nTime := if nVersion tx < NOTXTIME_VERSION then tx_nTime tx else t\<rparr>"
  have same: "ser_tx ?tx = ser_tx tx" "size_tx ?tx = size_tx tx" by (simp_all add: ser_tx_def size_tx_def)
  have ok: "tx_ok ?tx \<and> (nVersion ?tx < NOTXTIME_VERSION \<or> tx_nTime ?tx = t)" using assms by (auto simp: tx_ok_def)
  show ?thesis
    using tx_codec.unser_ser [OF ok, of rest] tx_codec.size_ser [OF ok] unfolding same by simp
qed

definition demo_tx :: CTransaction where
  "demo_tx = \<lparr>nVersion = 4, tx_nTime = 5, vin = [\<lparr>prevout = \<lparr>op_hash = 77, op_n = 1\<rparr>, scriptSig = [1, 2, 3], nSequence = 0\<rparr>],
     vout = [\<lparr>nValue = -1, scriptPubKey = []\<rparr>, \<lparr>nValue = 1000000, scriptPubKey = replicate 300 9\<rparr>], nLockTime = 11\<rparr>"

theorem tx_serialization_roundtrip_witness:
  "unser_tx 99 (ser_tx demo_tx @ [42]) = Some (demo_tx\<lparr>tx_nTime := 99\<rparr>, [42])"
  using tx_serialization_roundtrip [of demo_tx 99 "[42]"]
  by (simp add: demo_tx_def tx_ok_def txin_ok_def txout_ok_def)

end
