(* ===== verification/Tx.thy ===== *)
theory Tx
  imports Script Serialize
begin

text \<open>
  Transactions: the inline methods of \<open>CTransaction\<close> in \<^verbatim>\<open>src/blockchain/main.h\<close> and the context-free
  checks, counts and minimal fees of \<^verbatim>\<open>src/blockchain/main.cpp\<close>. The record \<open>tx_env\<close> holds the
  globals these functions read: the network flags, the height of the best block, the adjusted
  time, and the double SHA-256 of OpenSSL. A check that fails returns \<open>Inl\<close> with what it adds to the
  denial-of-service score of the transaction; a function that throws returns \<open>None\<close>.
\<close>

section \<open>Parameters (chainparams.cpp)\<close>

definition CENT :: int where "CENT = 10000"
definition MAX_MONEY :: int where "MAX_MONEY = COIN * 43300000"
definition MAX_BLOCK_SIZE :: u32 where "MAX_BLOCK_SIZE = 1000000"
definition MAX_BLOCK_SIZE_GEN :: u32 where "MAX_BLOCK_SIZE_GEN = MAX_BLOCK_SIZE div 2"
definition MAX_STANDARD_TX_SIZE :: u32 where "MAX_STANDARD_TX_SIZE = MAX_BLOCK_SIZE_GEN div 5"
definition MIN_TX_FEE :: int where "MIN_TX_FEE = 1 * CENT"
definition MIN_RELAY_TX_FEE :: int where "MIN_RELAY_TX_FEE = 1 * CENT"
definition MIN_TXOUT_AMOUNT :: int where "MIN_TXOUT_AMOUNT = MIN_TX_FEE"
definition FUTURE_DRIFT :: int where "FUTURE_DRIFT = 7"
definition FEELESS_MCOST_MIN :: u32 where "FEELESS_MCOST_MIN = 256"
definition RELAY_FEELESS_MCOST_MIN :: u32 where "RELAY_FEELESS_MCOST_MIN = 256"
definition FEEWORK_MAX_MCOST :: u32 where "FEEWORK_MAX_MCOST = 18 * FEELESS_MCOST_MIN"
definition FEELESS_MAX_BLOCK_SIZE :: u64 where "FEELESS_MAX_BLOCK_SIZE = ucast (MAX_BLOCK_SIZE div 5)"
definition FEEWORK_BLOCK_PARTS :: u64 where "FEEWORK_BLOCK_PARTS = 31"
definition FEEWORK_COST_PCT_JUMP_PER_PART :: u64 where "FEEWORK_COST_PCT_JUMP_PER_PART = 10"
definition FEEWORK_LIMIT_PCT_DECAY_PER_PART :: u64 where "FEEWORK_LIMIT_PCT_DECAY_PER_PART = 91"
definition TX_FEEWORK_ABSOLUTE_LIMIT :: u64 where "TX_FEEWORK_ABSOLUTE_LIMIT = 0xffffffffffffffff"
definition TX_FEEWORK_LIMIT :: u64 where "TX_FEEWORK_LIMIT = 0x0006ffffffffffff"
definition RELAY_TX_FEEWORK_LIMIT :: u64 where "RELAY_TX_FEEWORK_LIMIT = 0x0006ffffffffffff"

record tx_env =
  te_fTestNet :: bool
  te_nTestNet :: bool
  te_nBestHeight :: int
  te_AdjustedTime :: int
  te_Hash :: "valtype \<Rightarrow> uint256"

section \<open>The class (main.h)\<close>

definition MoneyRange :: "int \<Rightarrow> bool" where
  "MoneyRange v \<longleftrightarrow> v \<ge> 0 \<and> v \<le> MAX_MONEY"

definition COutPoint_IsNull :: "COutPoint \<Rightarrow> bool" where
  "COutPoint_IsNull p \<longleftrightarrow> op_hash p = 0 \<and> op_n p = -1"

definition CTxIn_IsFinal :: "CTxIn \<Rightarrow> bool" where
  "CTxIn_IsFinal i \<longleftrightarrow> nSequence i = -1"

definition CTxOut_IsEmpty :: "CTxOut \<Rightarrow> bool" where
  "CTxOut_IsEmpty o' \<longleftrightarrow> nValue o' = 0 \<and> scriptPubKey o' = []"

definition IsCoinBase :: "CTransaction \<Rightarrow> bool" where
  "IsCoinBase tx \<longleftrightarrow> length (vin tx) = 1 \<and> COutPoint_IsNull (prevout (vin tx ! 0)) \<and> length (vout tx) \<ge> 1"

definition IsCoinStake :: "CTransaction \<Rightarrow> bool" where
  "IsCoinStake tx \<longleftrightarrow> length (vin tx) > 0 \<and> \<not> COutPoint_IsNull (prevout (vin tx ! 0)) \<and>
     length (vout tx) \<ge> 2 \<and> CTxOut_IsEmpty (vout tx ! 0)"

definition HasTimestamp :: "CTransaction \<Rightarrow> bool" where
  "HasTimestamp tx \<longleftrightarrow> nVersion tx < NOTXTIME_VERSION"

definition blank_sigs :: "CTransaction \<Rightarrow> CTransaction" where
  "blank_sigs tx = tx\<lparr>vin := map (scriptSig_update (\<lambda>_. [])) (vin tx)\<rparr>"

definition GetHash :: "tx_env \<Rightarrow> CTransaction \<Rightarrow> uint256" where
  "GetHash env tx =
     (if HasTimestamp tx \<or> IsCoinBase tx then te_Hash env (ser_tx tx)
      else te_Hash env (ser_tx (blank_sigs tx)))"

definition LOCKTIME_THRESHOLD :: int where "LOCKTIME_THRESHOLD = 500000000"

definition IsFinal :: "tx_env \<Rightarrow> CTransaction \<Rightarrow> int \<Rightarrow> int \<Rightarrow> bool" where
  "IsFinal env tx nBlockHeight nBlockTime =
     (if nLockTime tx = 0 then True
      else let nBlockHeight = (if nBlockHeight = 0 then te_nBestHeight env else nBlockHeight);
               nBlockTime = (if nBlockTime = 0 then te_AdjustedTime env else nBlockTime)
           in if uint (nLockTime tx) < (if uint (nLockTime tx) < LOCKTIME_THRESHOLD then nBlockHeight else nBlockTime)
              then True
              else list_all CTxIn_IsFinal (vin tx))"

text \<open>The loop over the sequence numbers; the accumulator is \<open>fNewer\<close> and \<open>nLowest\<close>.\<close>

fun newer_loop :: "(u32 \<times> u32) list \<Rightarrow> bool \<Rightarrow> u32 \<Rightarrow> bool" where
  "newer_loop [] fNewer nLowest = fNewer"
| "newer_loop ((a, b) # r) fNewer nLowest =
     (if a \<noteq> b
      then let (fNewer, nLowest) = (if a \<le> nLowest then (False, a) else (fNewer, nLowest));
               (fNewer, nLowest) = (if b < nLowest then (True, b) else (fNewer, nLowest))
           in newer_loop r fNewer nLowest
      else newer_loop r fNewer nLowest)"

definition IsNewerThan :: "CTransaction \<Rightarrow> CTransaction \<Rightarrow> bool" where
  "IsNewerThan tx old =
     (if length (vin tx) \<noteq> length (vin old) then False
      else if map prevout (vin tx) \<noteq> map prevout (vin old) then False
      else newer_loop (zip (map nSequence (vin tx)) (map nSequence (vin old))) False (-1))"

fun GetValueOut_loop :: "CTxOut list \<Rightarrow> int \<Rightarrow> int option" where
  "GetValueOut_loop [] nValueOut = Some nValueOut"
| "GetValueOut_loop (txout # r) nValueOut =
     (let nValueOut = nValueOut + nValue txout
      in if \<not> MoneyRange (nValue txout) \<or> \<not> MoneyRange nValueOut then None
         else GetValueOut_loop r nValueOut)"

definition GetValueOut :: "CTransaction \<Rightarrow> int option" where
  "GetValueOut tx = GetValueOut_loop (vout tx) 0"

definition AdjustTime :: "CTransaction \<Rightarrow> int \<Rightarrow> CTransaction" where
  "AdjustTime tx nAdjustment =
     (let t = tx_nTime tx
      in if nAdjustment < 0
         then if - nAdjustment \<ge> sint t then tx\<lparr>tx_nTime := 0\<rparr> else tx\<lparr>tx_nTime := t + word_of_int nAdjustment\<rparr>
         else if nAdjustment \<le> sint t then tx\<lparr>tx_nTime := t + word_of_int nAdjustment\<rparr>
         else tx\<lparr>tx_nTime := t + t\<rparr>)"

section \<open>Previous outputs and counts (main.cpp)\<close>

record CDiskTxPos =
  tp_nFile :: u32
  tp_nBlockPos :: u32
  tp_nTxPos :: u32

definition CDiskTxPos_SetNull :: CDiskTxPos where
  "CDiskTxPos_SetNull = \<lparr>tp_nFile = -1, tp_nBlockPos = 0, tp_nTxPos = 0\<rparr>"

definition CDiskTxPos_IsNull :: "CDiskTxPos \<Rightarrow> bool" where
  "CDiskTxPos_IsNull p \<longleftrightarrow> tp_nFile p = -1"

text \<open>Where a transaction is stored, and for each output the transaction that spends it.\<close>

record CTxIndex =
  ti_pos :: CDiskTxPos
  ti_vSpent :: "CDiskTxPos list"

definition CTxIndex_new :: "CDiskTxPos \<Rightarrow> nat \<Rightarrow> CTxIndex" where
  "CTxIndex_new posIn nOutputs = \<lparr>ti_pos = posIn, ti_vSpent = replicate nOutputs CDiskTxPos_SetNull\<rparr>"

type_synonym MapPrevTx = "(uint256, CTxIndex \<times> CTransaction) omap"

definition GetOutputFor :: "CTxIn \<Rightarrow> MapPrevTx \<Rightarrow> CTxOut option" where
  "GetOutputFor input inputs =
     (case map_of inputs (op_hash (prevout input)) of
        None \<Rightarrow> None
      | Some (txindex, txPrev) \<Rightarrow>
          if unat (op_n (prevout input)) \<ge> length (vout txPrev) then None
          else Some (vout txPrev ! unat (op_n (prevout input))))"

definition GetMinOutputAmount :: "tx_env \<Rightarrow> int \<Rightarrow> int" where
  "GetMinOutputAmount env nHeight =
     (if nHeight < 0 then 0
      else let nFork = GetFork (te_fTestNet env) nHeight
           in if nFork < XST_FORKPURCHASE then 0
              else if te_nTestNet env \<and> nFork < XST_FORKMISSFIX then 0
              else MIN_TXOUT_AMOUNT)"

definition GetLegacySigOpCount :: "CTransaction \<Rightarrow> u32" where
  "GetLegacySigOpCount tx =
     fold (\<lambda>txout n. n + GetSigOpCount False (scriptPubKey txout)) (vout tx)
       (fold (\<lambda>txin n. n + GetSigOpCount False (scriptSig txin)) (vin tx) 0)"

fun P2SH_loop :: "MapPrevTx \<Rightarrow> CTxIn list \<Rightarrow> u32 \<Rightarrow> u32 option" where
  "P2SH_loop inputs [] nSigOps = Some nSigOps"
| "P2SH_loop inputs (i # r) nSigOps =
     (case GetOutputFor i inputs of
        None \<Rightarrow> None
      | Some prev \<Rightarrow>
          P2SH_loop inputs r
            (if IsPayToScriptHash (scriptPubKey prev)
             then nSigOps + GetSigOpCount_p2sh (scriptPubKey prev) (scriptSig i) else nSigOps))"

definition GetP2SHSigOpCount :: "CTransaction \<Rightarrow> MapPrevTx \<Rightarrow> u32 option" where
  "GetP2SHSigOpCount tx inputs = (if IsCoinBase tx then Some 0 else P2SH_loop inputs (vin tx) 0)"

definition ScriptSigArgsExpected :: "txnouttype \<Rightarrow> valtype list \<Rightarrow> int" where
  "ScriptSigArgsExpected t vSolutions =
     (case t of
        TX_PUBKEY \<Rightarrow> 1 | TX_PUBKEYHASH \<Rightarrow> 2 | TX_CLAIM \<Rightarrow> 2
      | TX_MULTISIG \<Rightarrow> (if length vSolutions < 1 \<or> length (vSolutions ! 0) < 1 then -1
                        else uint (vSolutions ! 0 ! 0) + 1)
      | TX_SCRIPTHASH \<Rightarrow> 1
      | _ \<Rightarrow> -1)"

section \<open>The context-free check\<close>

definition in_purchase_disable :: "txnouttype \<Rightarrow> bool" where
  "in_purchase_disable t \<longleftrightarrow> t \<in> {TX_PURCHASE1, TX_PURCHASE4, TX_SETOWNER, TX_SETMANAGER, TX_SETDELEGATE,
     TX_SETCONTROLLER, TX_ENABLE, TX_DISABLE}"

definition in_pubkey_multisig :: "txnouttype \<Rightarrow> bool" where
  "in_pubkey_multisig t \<longleftrightarrow> t \<in> {TX_PUBKEY, TX_PUBKEYHASH, TX_SCRIPTHASH, TX_MULTISIG}"

text \<open>The checks on the value of one output that depend on the fork.\<close>

definition output_value_bad :: "tx_env \<Rightarrow> int \<Rightarrow> CTxOut \<Rightarrow> bool" where
  "output_value_bad env nNewHeight txout =
     (let nFork = GetFork (te_fTestNet env) nNewHeight
      in if nFork < XST_FORK004
         then \<not> CTxOut_IsEmpty txout \<and> nValue txout < GetMinOutputAmount env nNewHeight
         else if nFork < XST_FORKPURCHASE
         then nValue txout < GetMinOutputAmount env nNewHeight
         else case Solver (scriptPubKey txout) [] of
                (ok, whichType, vSolutions) \<Rightarrow>
                  if \<not> ok then False
                  else if in_purchase_disable whichType \<or> whichType = TX_SETMETA \<or> whichType = TX_FEEWORK \<or>
                          whichType = TX_NULL_DATA
                  then nValue txout < 0
                  else if in_pubkey_multisig whichType
                  then nValue txout < GetMinOutputAmount env nNewHeight
                  else False)"

fun CheckTransaction_vout :: "tx_env \<Rightarrow> int \<Rightarrow> bool \<Rightarrow> CTxOut list \<Rightarrow> int \<Rightarrow> (int, int) sum" where
  "CheckTransaction_vout env nNewHeight fBaseOrStake [] nValueOut = Inr nValueOut"
| "CheckTransaction_vout env nNewHeight fBaseOrStake (txout # r) nValueOut =
     (if CTxOut_IsEmpty txout \<and> \<not> fBaseOrStake then Inl 100
      else if output_value_bad env nNewHeight txout then Inl 100
      else if nValue txout > MAX_MONEY then Inl 100
      else let nValueOut = nValueOut + nValue txout
           in if \<not> MoneyRange nValueOut then Inl 100
              else CheckTransaction_vout env nNewHeight fBaseOrStake r nValueOut)"

definition CheckTransaction :: "tx_env \<Rightarrow> CTransaction \<Rightarrow> int \<Rightarrow> (int, unit) sum" where
  "CheckTransaction env tx nNewHeight =
     (if vin tx = [] then Inl 10
      else if vout tx = [] then Inl 10
      else if size_tx tx > MAX_BLOCK_SIZE then Inl 100
      else case CheckTransaction_vout env nNewHeight (IsCoinBase tx \<or> IsCoinStake tx) (vout tx) 0 of
             Inl n \<Rightarrow> Inl n
           | Inr nValueOut \<Rightarrow>
               if \<not> distinct (map prevout (vin tx)) then Inl 0
               else if IsCoinBase tx
               then if length (scriptSig (vin tx ! 0)) < 2 \<or> length (scriptSig (vin tx ! 0)) > 100
                    then Inl 100 else Inr ()
               else if \<not> list_all (\<lambda>i. \<not> COutPoint_IsNull (prevout i)) (vin tx) then Inl 10
               else Inr ())"

section \<open>Standard transactions\<close>

definition FutureDrift :: "int \<Rightarrow> int" where
  "FutureDrift nTime = nTime + FUTURE_DRIFT"

text \<open>The numbers of data outputs and of other outputs, as far as all are standard.\<close>

fun IsStandard_vout :: "int \<Rightarrow> CTxOut list \<Rightarrow> u32 \<Rightarrow> u32 \<Rightarrow> (u32 \<times> u32) option" where
  "IsStandard_vout nFork [] nDataOut nTxnOut = Some (nDataOut, nTxnOut)"
| "IsStandard_vout nFork (txout # r) nDataOut nTxnOut =
     (case Solver (scriptPubKey txout) [] of
        (ok, whichType, vSolutions) \<Rightarrow>
          if \<not> ok then None
          else if whichType = TX_NULL_DATA then IsStandard_vout nFork r (nDataOut + 1) nTxnOut
          else if nValue txout = 0 \<and> nFork < XST_FORKPURCHASE2 then None
          else IsStandard_vout nFork r nDataOut (nTxnOut + 1))"

definition IsStandard :: "tx_env \<Rightarrow> CTransaction \<Rightarrow> int \<Rightarrow> bool" where
  "IsStandard env tx nNewHeight =
     (let nFork = GetFork (te_fTestNet env) nNewHeight
      in if nVersion tx > FEELESS_VERSION then False
         else if nFork \<ge> XST_FORK005 \<and>
                 (length (vout tx) < 1 \<or> \<not> IsFinal env tx nNewHeight 0 \<or>
                  HasTimestamp tx \<and> uint (tx_nTime tx) > FutureDrift (te_AdjustedTime env) \<or>
                  size_tx tx \<ge> MAX_STANDARD_TX_SIZE)
         then False
         else if \<not> list_all (\<lambda>i. \<not> length (scriptSig i) > 500 \<and> IsPushOnly (scriptSig i)) (vin tx) then False
         else case IsStandard_vout nFork (vout tx) 0 0 of
                None \<Rightarrow> False
              | Some (nDataOut, nTxnOut) \<Rightarrow> \<not> nDataOut > nTxnOut)"

section \<open>Minimal fees\<close>

datatype GetMinFee_mode = GMF_BLOCK | GMF_RELAY | GMF_SEND

definition GetMinFee :: "u32 \<Rightarrow> GetMinFee_mode \<Rightarrow> u32 \<Rightarrow> int" where
  "GetMinFee nBlockSize mode nBytes =
     (let nBaseFee = (if mode = GMF_RELAY then MIN_RELAY_TX_FEE else MIN_TX_FEE);
          nMinFee = (1 + uint nBytes sdiv 1000) * nBaseFee;
          nNewBlockSize = nBlockSize + nBytes
      in if nBlockSize \<noteq> 1 \<and> nNewBlockSize \<ge> MAX_BLOCK_SIZE_GEN div 2 \<and> nNewBlockSize \<ge> MAX_BLOCK_SIZE_GEN
         then MAX_MONEY
         else let nMinFee = (if nBlockSize \<noteq> 1 \<and> nNewBlockSize \<ge> MAX_BLOCK_SIZE_GEN div 2
                             then nMinFee * uint (MAX_BLOCK_SIZE_GEN div (MAX_BLOCK_SIZE_GEN - nNewBlockSize))
                             else nMinFee)
              in if \<not> MoneyRange nMinFee then MAX_MONEY else nMinFee)"

definition GetFeeworkHardness :: "u32 \<Rightarrow> GetMinFee_mode \<Rightarrow> u32 \<Rightarrow> u32" where
  "GetFeeworkHardness nBlockSize mode nBytes =
     (let nMultiplier = 1000 * (100 + FEEWORK_COST_PCT_JUMP_PER_PART);
          nBaseCost = (ucast (if mode = GMF_RELAY then RELAY_FEELESS_MCOST_MIN else FEELESS_MCOST_MIN) :: u64);
          nCost = word_of_int (1 + uint nBytes sdiv 1000) * nBaseCost;
          nNewBlockSize = (ucast (nBlockSize + nBytes) :: u64)
      in if nNewBlockSize > FEELESS_MAX_BLOCK_SIZE then -1
         else let last = unat ((FEEWORK_BLOCK_PARTS * nNewBlockSize) div FEELESS_MAX_BLOCK_SIZE);
                  nCost = fold (\<lambda>i nCost. nCost * nMultiplier div 100000) [2..<last + 1] nCost
              in ucast (min nCost 0xffffffff))"

definition GetFeeworkLimit :: "u32 \<Rightarrow> GetMinFee_mode \<Rightarrow> u32 \<Rightarrow> u64" where
  "GetFeeworkLimit nBlockSize mode nBytes =
     (let nBaseLimit = (if mode = GMF_RELAY then RELAY_TX_FEEWORK_LIMIT else TX_FEEWORK_LIMIT);
          nLimit = nBaseLimit div word_of_int (1 + uint nBytes sdiv 1000);
          nNewBlockSize = (ucast (nBlockSize + nBytes) :: u64)
      in if nNewBlockSize > FEELESS_MAX_BLOCK_SIZE then 0
         else let last = unat ((FEEWORK_BLOCK_PARTS * nNewBlockSize) div FEELESS_MAX_BLOCK_SIZE)
              in fold (\<lambda>i nLimit. FEEWORK_LIMIT_PCT_DECAY_PER_PART * nLimit div 100) [1..<last] nLimit)"

section \<open>The operations a transaction carries\<close>

definition is_qpos_type :: "txnouttype \<Rightarrow> bool" where
  "is_qpos_type t \<longleftrightarrow> t \<in> {TX_PURCHASE1, TX_PURCHASE4, TX_SETOWNER, TX_SETMANAGER, TX_SETDELEGATE,
     TX_SETCONTROLLER, TX_ENABLE, TX_DISABLE, TX_CLAIM, TX_SETMETA}"

definition IsQPoSTx :: "CTransaction \<Rightarrow> bool" where
  "IsQPoSTx tx = list_ex (\<lambda>txout. is_qpos_type (fst (snd (Solver (scriptPubKey txout) [])))) (vout tx)"

text \<open>The vector of solutions is shared by the outputs of a transaction.\<close>

fun HasFeework_loop :: "CTxOut list \<Rightarrow> valtype list \<Rightarrow> bool" where
  "HasFeework_loop [] vSolutions = False"
| "HasFeework_loop (txout # r) vSolutions =
     (case Solver (scriptPubKey txout) vSolutions of
        (ok, whichType, vSolutions) \<Rightarrow>
          if ok \<and> whichType = TX_FEEWORK then True else HasFeework_loop r vSolutions)"

definition HasFeework :: "CTransaction \<Rightarrow> bool" where
  "HasFeework tx = HasFeework_loop (vout tx) []"

section \<open>Values\<close>

lemma CheckTransaction_vout_sums:
  assumes "CheckTransaction_vout env h b os acc = Inr tot" "MoneyRange acc"
  shows "tot = acc + sum_list (map nValue os) \<and> MoneyRange tot \<and>
    (\<forall>k \<le> length os. MoneyRange (acc + sum_list (map nValue (take k os)))) \<and>
    (\<forall>o' \<in> set os. nValue o' \<le> MAX_MONEY \<and> \<not> output_value_bad env h o')"
  using assms
proof (induction os arbitrary: acc)
  case (Cons o' os)
  have r: "CheckTransaction_vout env h b os (acc + nValue o') = Inr tot" "MoneyRange (acc + nValue o')"
    "nValue o' \<le> MAX_MONEY" "\<not> output_value_bad env h o'"
    using Cons.prems(1) by (auto simp: Let_def split: if_splits)
  note IH = Cons.IH [OF r(1,2)]
  have "MoneyRange (acc + sum_list (map nValue (take k (o' # os))))" if "k \<le> length (o' # os)" for k
    using that IH Cons.prems(2) by (cases k) (simp_all add: add.assoc)
  moreover have "tot = acc + sum_list (map nValue (o' # os))" "MoneyRange tot"
    "\<forall>x \<in> set (o' # os). nValue x \<le> MAX_MONEY \<and> \<not> output_value_bad env h x"
    using IH r(3,4) by auto
  ultimately show ?case by blast
qed simp

lemma GetValueOut_loop_iff:
  assumes "\<forall>k \<le> length os. MoneyRange (acc + sum_list (map nValue (take k os)))" "\<forall>o' \<in> set os. nValue o' \<le> MAX_MONEY"
  shows "GetValueOut_loop os acc = (if \<forall>o' \<in> set os. 0 \<le> nValue o' then Some (acc + sum_list (map nValue os)) else None)"
  using assms
proof (induction os arbitrary: acc)
  case (Cons o' os)
  have a: "MoneyRange (acc + nValue o')" using Cons.prems(1) [rule_format, of 1] by simp
  have "\<forall>k \<le> length os. MoneyRange ((acc + nValue o') + sum_list (map nValue (take k os)))"
    using Cons.prems(1) by (auto simp: add.assoc dest: spec [of _ "Suc _"])
  from Cons.IH [OF this] Cons.prems(2) a show ?case by (auto simp: Let_def MoneyRange_def)
qed simp

lemma CheckTransaction_cases:
  assumes "CheckTransaction env tx h = Inr ()"
  obtains tot where "CheckTransaction_vout env h (IsCoinBase tx \<or> IsCoinStake tx) (vout tx) 0 = Inr tot"
    "distinct (map prevout (vin tx))" "vin tx \<noteq> []" "vout tx \<noteq> []"
  using assms by (auto simp: CheckTransaction_def split: if_splits sum.splits)

lemma checked_nonneg:
  assumes "\<not> output_value_bad env h o'" "GetFork (te_fTestNet env) h \<ge> XST_FORKPURCHASE"
    and "fst (Solver (scriptPubKey o') [])" "fst (snd (Solver (scriptPubKey o') [])) \<noteq> TX_CLAIM"
  shows "0 \<le> nValue o'"
proof -
  obtain t sols where s: "Solver (scriptPubKey o') [] = (True, t, sols)" using assms(3) by (cases "Solver (scriptPubKey o') []") auto
  have "0 \<le> GetMinOutputAmount env h" by (simp add: GetMinOutputAmount_def MIN_TXOUT_AMOUNT_def MIN_TX_FEE_def CENT_def Let_def)
  moreover have "t \<noteq> TX_CLAIM" "t \<noteq> TX_NONSTANDARD"
    using assms(4) s Solver_not_nonstandard [of "scriptPubKey o'" "[]"] by auto
  ultimately show ?thesis
    using assms(1,2) s
    by (cases t) (auto simp: output_value_bad_def in_purchase_disable_def in_pubkey_multisig_def Let_def)
qed

text \<open>
  C31. What \<open>CheckTransaction\<close> guarantees about value: the sum of the outputs, and every partial sum of
  the loop, is in the money range, so that no addition overflows, and no input is spent twice.
  \<open>GetValueOut\<close> then returns that sum exactly when no output is negative, which holds from the
  purchase fork on if every output is standard and none is a claim.
\<close>

theorem CheckTransaction_money:
  assumes "CheckTransaction env tx h = Inr ()"
  shows "(\<forall>k \<le> length (vout tx). MoneyRange (sum_list (map nValue (take k (vout tx))))) \<and>
    distinct (map prevout (vin tx)) \<and>
    GetValueOut tx = (if \<forall>o' \<in> set (vout tx). 0 \<le> nValue o' then Some (sum_list (map nValue (vout tx))) else None) \<and>
    (GetFork (te_fTestNet env) h \<ge> XST_FORKPURCHASE \<and>
     (\<forall>o' \<in> set (vout tx). fst (Solver (scriptPubKey o') []) \<and> fst (snd (Solver (scriptPubKey o') [])) \<noteq> TX_CLAIM) \<longrightarrow>
     GetValueOut tx = Some (sum_list (map nValue (vout tx))))"
proof -
  obtain tot where t: "CheckTransaction_vout env h (IsCoinBase tx \<or> IsCoinStake tx) (vout tx) 0 = Inr tot"
    and d: "distinct (map prevout (vin tx))" using CheckTransaction_cases [OF assms] by metis
  have "MoneyRange 0" by (simp add: MoneyRange_def MAX_MONEY_def COIN_def)
  note c = CheckTransaction_vout_sums [OF t this]
  have v: "GetValueOut tx = (if \<forall>o' \<in> set (vout tx). 0 \<le> nValue o' then Some (sum_list (map nValue (vout tx))) else None)"
    using GetValueOut_loop_iff [of "vout tx" 0] c by (simp add: GetValueOut_def)
  have "\<forall>o' \<in> set (vout tx). 0 \<le> nValue o'"
    if "GetFork (te_fTestNet env) h \<ge> XST_FORKPURCHASE"
      "\<forall>o' \<in> set (vout tx). fst (Solver (scriptPubKey o') []) \<and> fst (snd (Solver (scriptPubKey o') [])) \<noteq> TX_CLAIM"
    using checked_nonneg c that by blast
  with v c d show ?thesis by auto
qed

definition demo_tx_env :: tx_env where
  "demo_tx_env = \<lparr>te_fTestNet = False, te_nTestNet = False, te_nBestHeight = 5000000, te_AdjustedTime = 1700000000,
     te_Hash = (\<lambda>_. 0)\<rparr>"

definition p2pkh :: "valtype \<Rightarrow> valtype" where
  "p2pkh h = [OP_DUP, OP_HASH160] @ push_data h @ [OP_EQUALVERIFY, OP_CHECKSIG]"

definition demo_spend :: "CTxOut list \<Rightarrow> CTransaction" where
  "demo_spend os = \<lparr>nVersion = 4, tx_nTime = 0, vin = [\<lparr>prevout = \<lparr>op_hash = 77, op_n = 1\<rparr>, scriptSig = [], nSequence = 0\<rparr>],
     vout = os, nLockTime = 0\<rparr>"

lemma GetFork_demo: "GetFork False 5000000 \<ge> XST_FORKMISSFIX"
  by code_simp

lemma Solver_p2pkh_demo: "Solver (p2pkh (replicate 20 7)) [] = (True, TX_PUBKEYHASH, [replicate 20 7])"
  by code_simp

lemma CheckTransaction_demo:
  "CheckTransaction demo_tx_env (demo_spend [\<lparr>nValue = 3000000, scriptPubKey = p2pkh (replicate 20 7)\<rparr>]) 5000000 = Inr ()"
  by code_simp

theorem CheckTransaction_money_witness:
  "GetValueOut (demo_spend [\<lparr>nValue = 3000000, scriptPubKey = p2pkh (replicate 20 7)\<rparr>]) = Some 3000000"
  using CheckTransaction_money [OF CheckTransaction_demo]
  by (simp add: demo_spend_def)

text \<open>
  The check lets a negative output pass when its script is not standard: here five million go to a key
  hash and minus four million to an unspendable script, and the sum is in range. \<open>GetValueOut\<close> throws
  on this transaction.
\<close>

lemma CheckTransaction_negative_output:
  "let tx = demo_spend [\<lparr>nValue = 5000000, scriptPubKey = p2pkh (replicate 20 7)\<rparr>,
                        \<lparr>nValue = -4000000, scriptPubKey = [0x61]\<rparr>]
   in CheckTransaction demo_tx_env tx 5000000 = Inr () \<and> GetValueOut tx = None"
  by code_simp

section \<open>The identity of a transaction\<close>

definition set_sigs :: "(CTxIn \<Rightarrow> valtype) \<Rightarrow> CTransaction \<Rightarrow> CTransaction" where
  "set_sigs f tx = tx\<lparr>vin := map (\<lambda>i. i\<lparr>scriptSig := f i\<rparr>) (vin tx)\<rparr>"

text \<open>
  The identity of a transaction without timestamp that is not a coinbase does not depend on its
  signatures: whatever scripts are put into its inputs, and whatever the local time field holds, the hash is the same. So a third
  party that alters signatures cannot change the identity.
\<close>

theorem GetHash_immalleable:
  assumes "\<not> HasTimestamp tx" and "\<not> IsCoinBase tx"
  shows "GetHash env (set_sigs f tx\<lparr>tx_nTime := t\<rparr>) = GetHash env tx"
proof -
  have "IsCoinBase (set_sigs f tx\<lparr>tx_nTime := t\<rparr>) = IsCoinBase tx"
    by (cases "vin tx") (auto simp: IsCoinBase_def set_sigs_def)
  moreover have "HasTimestamp (set_sigs f tx\<lparr>tx_nTime := t\<rparr>) = HasTimestamp tx"
    by (simp add: HasTimestamp_def set_sigs_def)
  moreover have "ser_tx (blank_sigs (set_sigs f tx\<lparr>tx_nTime := t\<rparr>)) = ser_tx (blank_sigs tx)"
    using assms(1) by (simp add: blank_sigs_def set_sigs_def ser_tx_def HasTimestamp_def comp_def)
  ultimately show ?thesis using assms by (simp add: GetHash_def)
qed

theorem GetHash_immalleable_witness:
  "\<forall>env. GetHash env (set_sigs (\<lambda>_. [1, 2, 3]) demo_tx\<lparr>tx_nTime := 7\<rparr>) = GetHash env demo_tx"
  using GetHash_immalleable [of demo_tx] by (simp add: demo_tx_def HasTimestamp_def IsCoinBase_def COutPoint_IsNull_def)

section \<open>The cost of feework\<close>

text \<open>The cost of a small transaction after the steps for a block of which \<open>n\<close> parts are filled.\<close>

definition cost_after :: "nat \<Rightarrow> u64" where
  "cost_after n = fold (\<lambda>i nCost. nCost * 110000 div 100000) [2..<n + 1] 256"

lemma cost_after_step: "cost_after (Suc (Suc n)) = cost_after (Suc n) * 110000 div 100000"
  by (simp add: cost_after_def)

lemma cost_after_values: "map cost_after [0..<32] =
  [256, 256, 281, 309, 339, 372, 409, 449, 493, 542, 596, 655, 720, 792, 871, 958, 1053, 1158, 1273, 1400, 1540, 1694, 1863, 2049, 2253, 2478, 2725, 2997, 3296, 3625, 3987, 4385]"
  by (simp add: upt_rec numeral_eq_Suc cost_after_step) (simp add: cost_after_def)

lemma cost_after_mono: "j \<le> k \<Longrightarrow> k < 32 \<Longrightarrow> cost_after j \<le> cost_after k"
proof -
  assume a: "j \<le> k" "k < 32"
  have "sorted (map cost_after [0..<32])" unfolding cost_after_values by simp
  from sorted_nth_mono [OF this a(1)] a show ?thesis by simp
qed

lemma cost_after_ends: "cost_after 0 = 256" "cost_after 31 = 4385"
proof -
  have "cost_after 31 = map cost_after [0..<32] ! 31" by simp
  then show "cost_after 31 = 4385" unfolding cost_after_values by simp
qed (simp add: cost_after_def)

definition filled_parts :: "nat \<Rightarrow> nat" where
  "filled_parts n = 31 * n div 200000"

lemma GetFeeworkHardness_small:
  assumes "unat nBytes < 1000" "unat nBlockSize + unat nBytes \<le> 200000"
  shows "unat (GetFeeworkHardness nBlockSize mode nBytes) = unat (cost_after (filled_parts (unat nBlockSize + unat nBytes)))"
    and "filled_parts (unat nBlockSize + unat nBytes) \<le> 31"
proof -
  let ?size = "unat nBlockSize + unat nBytes"
  show p: "filled_parts ?size \<le> 31"
  proof -
    have "31 * ?size div 200000 \<le> 31 * 200000 div 200000" using assms(2) by (intro div_le_mono) simp
    then show ?thesis by (simp add: filled_parts_def)
  qed
  have n: "unat (ucast (nBlockSize + nBytes) :: u64) = ?size"
    using assms(2) by (simp add: unat_word_ariths)
  have "int (unat nBytes) = uint nBytes" by simp
  then have "uint nBytes < 1000" using assms(1) by linarith
  then have z: "uint nBytes sdiv 1000 = 0" by (simp add: signed_divide_int_def)
  have l: "unat (31 * ucast (nBlockSize + nBytes) div (200000 :: u64)) = filled_parts ?size"
    using assms(2) n by (simp add: unat_div unat_word_ariths filled_parts_def)
  have "\<not> (200000 :: u64) < ucast (nBlockSize + nBytes)" using n assms(2) by (simp add: word_less_nat_alt)
  then have h: "GetFeeworkHardness nBlockSize mode nBytes = ucast (min (cost_after (filled_parts ?size)) 0xffffffff)"
    using l z unfolding GetFeeworkHardness_def
    by (simp add: FEELESS_MAX_BLOCK_SIZE_def MAX_BLOCK_SIZE_def FEEWORK_BLOCK_PARTS_def
        FEEWORK_COST_PCT_JUMP_PER_PART_def RELAY_FEELESS_MCOST_MIN_def FEELESS_MCOST_MIN_def cost_after_def)
  have c: "unat (cost_after (filled_parts ?size)) \<le> 4385"
    using cost_after_mono [OF p] cost_after_ends(2) by (simp add: word_le_nat_alt)
  then have "min (cost_after (filled_parts ?size)) 0xffffffff = cost_after (filled_parts ?size)"
    by (simp add: min_def word_le_nat_alt)
  then show "unat (GetFeeworkHardness nBlockSize mode nBytes) = unat (cost_after (filled_parts ?size))"
    unfolding h using c by (simp add: unsigned_ucast_eq take_bit_nat_eq_self)
qed

text \<open>
  The memory cost a feeless transaction of less than 1000 bytes has to pay for: as long as
  the block with the transaction fits into the feeless part of a block, it lies between the minimum
  and 4385, below the maximum that nodes accept, and never falls as the block fills up;
  behind the feeless part it is beyond every cost that can be accepted.
\<close>

theorem GetFeeworkHardness_bounds:
  assumes "unat nBytes < 1000" and "unat nBlockSize + unat nBytes < 2 ^ 32"
  shows "(unat nBlockSize + unat nBytes \<le> 200000 \<longrightarrow>
      FEELESS_MCOST_MIN \<le> GetFeeworkHardness nBlockSize mode nBytes \<and>
      GetFeeworkHardness nBlockSize mode nBytes \<le> 4385 \<and> 4385 < FEEWORK_MAX_MCOST \<and>
      (\<forall>nBlockSize'. unat nBlockSize' \<le> unat nBlockSize \<longrightarrow>
         GetFeeworkHardness nBlockSize' mode nBytes \<le> GetFeeworkHardness nBlockSize mode nBytes)) \<and>
    (200000 < unat nBlockSize + unat nBytes \<longrightarrow> FEEWORK_MAX_MCOST < GetFeeworkHardness nBlockSize mode nBytes)"
proof (intro conjI impI allI)
  show "FEEWORK_MAX_MCOST < GetFeeworkHardness nBlockSize mode nBytes" if "200000 < unat nBlockSize + unat nBytes"
  proof -
    have "unat (ucast (nBlockSize + nBytes) :: u64) = unat nBlockSize + unat nBytes"
      using assms(2) by (simp add: unat_word_ariths)
    then have "FEELESS_MAX_BLOCK_SIZE < ucast (nBlockSize + nBytes)"
      using that by (simp add: word_less_nat_alt FEELESS_MAX_BLOCK_SIZE_def MAX_BLOCK_SIZE_def)
    then have "GetFeeworkHardness nBlockSize mode nBytes = -1" by (simp add: GetFeeworkHardness_def)
    then show ?thesis by (simp add: FEEWORK_MAX_MCOST_def FEELESS_MCOST_MIN_def)
  qed
next
  assume a: "unat nBlockSize + unat nBytes \<le> 200000"
  note s = GetFeeworkHardness_small(1) [OF assms(1) a, of mode] GetFeeworkHardness_small(2) [OF assms(1) a]
  show "FEELESS_MCOST_MIN \<le> GetFeeworkHardness nBlockSize mode nBytes"
    using s cost_after_mono [of 0 "filled_parts (unat nBlockSize + unat nBytes)"] cost_after_ends(1)
    by (simp add: word_le_nat_alt FEELESS_MCOST_MIN_def)
  show "GetFeeworkHardness nBlockSize mode nBytes \<le> 4385"
    using s cost_after_mono [OF s(2)] cost_after_ends(2) by (simp add: word_le_nat_alt)
  show "4385 < FEEWORK_MAX_MCOST" by (simp add: FEEWORK_MAX_MCOST_def FEELESS_MCOST_MIN_def)
  fix nBlockSize' :: u32 assume b: "unat nBlockSize' \<le> unat nBlockSize"
  then have a': "unat nBlockSize' + unat nBytes \<le> 200000" using a by simp
  have "filled_parts (unat nBlockSize' + unat nBytes) \<le> filled_parts (unat nBlockSize + unat nBytes)"
    using b unfolding filled_parts_def by (intro div_le_mono) simp
  then show "GetFeeworkHardness nBlockSize' mode nBytes \<le> GetFeeworkHardness nBlockSize mode nBytes"
    using s GetFeeworkHardness_small(1) [OF assms(1) a', of mode] cost_after_mono [of "filled_parts (unat nBlockSize' + unat nBytes)"]
    by (simp add: word_le_nat_alt)
qed

theorem GetFeeworkHardness_bounds_witness:
  "FEELESS_MCOST_MIN \<le> GetFeeworkHardness 1 GMF_BLOCK 500 \<and> GetFeeworkHardness 1 GMF_BLOCK 500 \<le> 4385 \<and>
   FEEWORK_MAX_MCOST < GetFeeworkHardness 300000 GMF_RELAY 999"
  using GetFeeworkHardness_bounds [of 500 1 GMF_BLOCK] GetFeeworkHardness_bounds [of 999 300000 GMF_RELAY] by simp

end
