(* ===== verification/Block.thy ===== *)
theory Block
  imports Tx
begin

text \<open>
  Blocks: the inline methods of \<open>CBlock\<close> in \<^verbatim>\<open>src/blockchain/main.h\<close>: kinds of blocks, the
  hashed header, totals, the Merkle tree with its branches, and the serialization. The record \<open>blk_env\<close>
  adds to the globals of transactions the nine-fold X13 hash of the header and the hash of all NFT hashes.
  \<open>None\<close> is an exception or a read outside of a vector.
\<close>

section \<open>The class\<close>

record blk_env =
  be_tx :: tx_env
  be_Hash9 :: "valtype \<Rightarrow> uint256"
  be_hashOfNftHashes :: uint256

record CBlock =
  blk_nVersion :: int
  blk_hashPrevBlock :: uint256
  blk_hashMerkleRoot :: uint256
  blk_nTime :: u32
  blk_nBits :: u32
  blk_nNonce :: u32
  blk_nHeight :: int
  blk_nStakerID :: u32
  vtx :: "CTransaction list"
  vchBlockSig :: valtype
  vMerkleTree :: "uint256 list"

definition GENESIS_VERSION :: int where "GENESIS_VERSION = 6"
definition PURCHASE_VERSION :: int where "PURCHASE_VERSION = 7"
definition QPOS_VERSION :: int where "QPOS_VERSION = 8"

definition CBlock_SetNull :: "tx_env \<Rightarrow> CBlock" where
  "CBlock_SetNull env =
     (let nFork = GetFork (te_fTestNet env) (te_nBestHeight env + 1)
      in \<lparr>blk_nVersion = (if nFork < XST_FORKPURCHASE then GENESIS_VERSION
                          else if nFork < XST_FORKQPOS then PURCHASE_VERSION else QPOS_VERSION),
          blk_hashPrevBlock = 0, blk_hashMerkleRoot = 0, blk_nTime = 0, blk_nBits = 0, blk_nNonce = 0,
          blk_nHeight = 0, blk_nStakerID = 0, vtx = [], vchBlockSig = [], vMerkleTree = []\<rparr>)"

definition CBlock_IsNull :: "CBlock \<Rightarrow> bool" where
  "CBlock_IsNull b \<longleftrightarrow> blk_nBits b = 0"

text \<open>The bytes of the fields from \<open>nVersion\<close> to \<open>nNonce\<close>, and of the two fields that follow.\<close>

definition header_old :: "CBlock \<Rightarrow> valtype" where
  "header_old b = store_le 4 (word_of_int (blk_nVersion b) :: u32) @ store_le 32 (blk_hashPrevBlock b) @
     store_le 32 (blk_hashMerkleRoot b) @ store_le 4 (blk_nTime b) @ store_le 4 (blk_nBits b) @ store_le 4 (blk_nNonce b)"

definition header_qpos :: "CBlock \<Rightarrow> valtype" where
  "header_qpos b = store_le 4 (word_of_int (blk_nHeight b) :: u32) @ store_le 4 (blk_nStakerID b)"

definition GetHash9 :: "blk_env \<Rightarrow> CBlock \<Rightarrow> uint256" where
  "GetHash9 env b =
     (if blk_nVersion b < QPOS_VERSION then be_Hash9 env (header_old b)
      else be_Hash9 env (header_old b @ header_qpos b))"

definition NFTHEIGHT :: "bool \<Rightarrow> int" where
  "NFTHEIGHT fTestNet = (if fTestNet then 4768119 else 3695200)"

definition Block_GetHash :: "blk_env \<Rightarrow> CBlock \<Rightarrow> uint256" where
  "Block_GetHash env b =
     (if blk_nHeight b = NFTHEIGHT (te_fTestNet (be_tx env))
      then be_Hash9 env (store_le 32 (be_hashOfNftHashes env) @
             store_le 32 (be_Hash9 env (header_old b @ header_qpos b)))
      else if blk_nVersion b < QPOS_VERSION then be_Hash9 env (header_old b)
      else be_Hash9 env (header_old b @ header_qpos b))"

definition GetBlockTime :: "CBlock \<Rightarrow> int" where
  "GetBlockTime b = uint (blk_nTime b)"

definition UpdateTime :: "tx_env \<Rightarrow> CBlock \<Rightarrow> CBlock" where
  "UpdateTime env b = b\<lparr>blk_nTime := word_of_int (max (GetBlockTime b) (te_AdjustedTime env))\<rparr>"

definition IsQuantumProofOfStake :: "CBlock \<Rightarrow> bool" where
  "IsQuantumProofOfStake b \<longleftrightarrow> blk_nStakerID b > 0"

definition IsProofOfStake :: "CBlock \<Rightarrow> bool" where
  "IsProofOfStake b \<longleftrightarrow> length (vtx b) > 1 \<and> IsCoinStake (vtx b ! 1)"

definition IsProofOfWork :: "CBlock \<Rightarrow> bool" where
  "IsProofOfWork b \<longleftrightarrow> \<not> (IsProofOfStake b \<or> IsQuantumProofOfStake b)"

definition GetTxVolume :: "CBlock \<Rightarrow> u32" where
  "GetTxVolume b = (if IsProofOfStake b then of_nat (length (vtx b)) - 1 else of_nat (length (vtx b)))"

fun Block_ValueOut_loop :: "CTransaction list \<Rightarrow> int \<Rightarrow> int option" where
  "Block_ValueOut_loop [] v = Some v"
| "Block_ValueOut_loop (tx # txs) v =
     (case GetValueOut tx of None \<Rightarrow> None | Some n \<Rightarrow> Block_ValueOut_loop txs (v + n))"

definition Block_GetValueOut :: "CBlock \<Rightarrow> int option" where
  "Block_GetValueOut b = Block_ValueOut_loop (vtx b) 0"

definition GetProofOfStake :: "CBlock \<Rightarrow> COutPoint \<times> u32" where
  "GetProofOfStake b =
     (if IsProofOfStake b
      then (prevout (vin (vtx b ! 1) ! 0), if HasTimestamp (vtx b ! 1) then tx_nTime (vtx b ! 1) else blk_nTime b)
      else (\<lparr>op_hash = 0, op_n = -1\<rparr>, 0))"

definition GetMaxTransactionTime :: "CBlock \<Rightarrow> int" where
  "GetMaxTransactionTime b =
     (let m = fold (\<lambda>tx m. if HasTimestamp tx then max m (uint (tx_nTime tx)) else m) (vtx b) 0
      in if m = 0 \<and> length (vtx b) > 0 then uint (blk_nTime b) else m)"

section \<open>The Merkle tree\<close>

definition hash_pair :: "tx_env \<Rightarrow> uint256 \<Rightarrow> uint256 \<Rightarrow> uint256" where
  "hash_pair env a b = te_Hash env (store_le 32 a @ store_le 32 b)"

text \<open>The inner loop appends the next level to the tree, the outer loop runs over the levels.\<close>

function merkle_level :: "tx_env \<Rightarrow> nat \<Rightarrow> nat \<Rightarrow> nat \<Rightarrow> uint256 list \<Rightarrow> uint256 list" where
  "merkle_level env j nSize i tree =
     (if i < nSize
      then merkle_level env j nSize (i + 2)
             (tree @ [hash_pair env (tree ! (j + i)) (tree ! (j + min (i + 1) (nSize - 1)))])
      else tree)"
  by pat_completeness auto
termination by (relation "measure (\<lambda>(env, j, nSize, i, tree). nSize - i)") auto

function merkle_loop :: "tx_env \<Rightarrow> nat \<Rightarrow> nat \<Rightarrow> uint256 list \<Rightarrow> uint256 list" where
  "merkle_loop env j nSize tree =
     (if nSize > 1 then merkle_loop env (j + nSize) ((nSize + 1) div 2) (merkle_level env j nSize 0 tree) else tree)"
  by pat_completeness auto
termination by (relation "measure (\<lambda>(env, j, nSize, tree). nSize)") auto

text \<open>The root, and the block with the tree that is kept in memory.\<close>

definition BuildMerkleTree :: "tx_env \<Rightarrow> CBlock \<Rightarrow> uint256 \<times> CBlock" where
  "BuildMerkleTree env b =
     (let tree = merkle_loop env 0 (length (vtx b)) (map (GetHash env) (vtx b))
      in (if tree = [] then 0 else last tree, b\<lparr>vMerkleTree := tree\<rparr>))"

function branch_loop :: "uint256 list \<Rightarrow> nat \<Rightarrow> nat \<Rightarrow> nat \<Rightarrow> uint256 list \<Rightarrow> uint256 list option" where
  "branch_loop tree j nSize nIndex branch =
     (if nSize > 1
      then let i = min (nIndex XOR 1) (nSize - 1)
           in if j + i < length tree
              then branch_loop tree (j + nSize) ((nSize + 1) div 2) (nIndex div 2) (branch @ [tree ! (j + i)])
              else None
      else Some branch)"
  by pat_completeness auto
termination by (relation "measure (\<lambda>(tree, j, nSize, nIndex, branch). nSize)") auto

declare merkle_level.simps [simp del] merkle_loop.simps [simp del] branch_loop.simps [simp del]

definition GetMerkleBranch :: "tx_env \<Rightarrow> CBlock \<Rightarrow> nat \<Rightarrow> uint256 list option" where
  "GetMerkleBranch env b nIndex =
     (let b = (if vMerkleTree b = [] then snd (BuildMerkleTree env b) else b)
      in branch_loop (vMerkleTree b) 0 (length (vtx b)) nIndex [])"

fun CheckMerkleBranch_loop :: "tx_env \<Rightarrow> uint256 \<Rightarrow> uint256 list \<Rightarrow> int \<Rightarrow> uint256" where
  "CheckMerkleBranch_loop env h [] nIndex = h"
| "CheckMerkleBranch_loop env h (otherside # branch) nIndex =
     CheckMerkleBranch_loop env (if nIndex mod 2 = 1 then hash_pair env otherside h else hash_pair env h otherside)
       branch (nIndex div 2)"

definition CheckMerkleBranch :: "tx_env \<Rightarrow> uint256 \<Rightarrow> uint256 list \<Rightarrow> int \<Rightarrow> uint256" where
  "CheckMerkleBranch env h branch nIndex = (if nIndex = -1 then 0 else CheckMerkleBranch_loop env h branch nIndex)"

section \<open>Serialization\<close>

definition ser_block :: "CBlock \<Rightarrow> valtype" where
  "ser_block b = header_old b @ (if blk_nVersion b \<ge> QPOS_VERSION then header_qpos b else []) @
     ser_vector ser_tx (vtx b) @ ser_vch (vchBlockSig b)"

definition size_block :: "CBlock \<Rightarrow> u32" where
  "size_block b = 80 + (if blk_nVersion b \<ge> QPOS_VERSION then 8 else 0) + size_vector size_tx (vtx b) + size_vch (vchBlockSig b)"

text \<open>
  Transactions are read into new objects, whose time is \<open>t\<close>; the fields that an old header
  lacks and the Merkle tree are those of the object that is read into.
\<close>

definition unser_block :: "u32 \<Rightarrow> CBlock \<Rightarrow> valtype \<Rightarrow> (CBlock \<times> valtype) option" where
  "unser_block t b s = do {
     (v, s) \<leftarrow> read_word 4 s;
     (hp, s) \<leftarrow> read_word 32 s;
     (hm, s) \<leftarrow> read_word 32 s;
     (ti, s) \<leftarrow> read_word 4 s;
     (bits, s) \<leftarrow> read_word 4 s;
     (nonce, s) \<leftarrow> read_word 4 s;
     let ver = sint (v :: u32);
     (h, i, s) \<leftarrow> (if ver \<ge> QPOS_VERSION
                  then do { (h, s) \<leftarrow> read_word 4 s; (i, s) \<leftarrow> read_word 4 s; Some (sint (h :: u32), i, s) }
                  else Some (blk_nHeight b, blk_nStakerID b, s));
     (txs, s) \<leftarrow> unser_vector (unser_tx t) s;
     (sig, s) \<leftarrow> unser_vch s;
     Some (b\<lparr>blk_nVersion := ver, blk_hashPrevBlock := hp, blk_hashMerkleRoot := hm, blk_nTime := ti, blk_nBits := bits,
             blk_nNonce := nonce, blk_nHeight := h, blk_nStakerID := i, vtx := txs, vchBlockSig := sig\<rparr>, s) }"

section \<open>Branches of the tree\<close>

text \<open>The level above a list of hashes; a last hash without partner is paired with itself.\<close>

definition level_above :: "tx_env \<Rightarrow> uint256 list \<Rightarrow> uint256 list" where
  "level_above env hs =
     map (\<lambda>k. hash_pair env (hs ! (2 * k)) (hs ! min (2 * k + 1) (length hs - 1))) [0..<(length hs + 1) div 2]"

lemma length_level_above [simp]: "length (level_above env hs) = (length hs + 1) div 2"
  by (simp add: level_above_def)

lemma nth_level_above:
  "2 * k < length hs \<Longrightarrow>
    level_above env hs ! k = hash_pair env (hs ! (2 * k)) (hs ! min (Suc (2 * k)) (length hs - Suc 0))"
  by (subgoal_tac "k < Suc (length hs) div 2") (simp_all add: level_above_def)

lemma merkle_level_above:
  assumes "length tree = j + length hs + k" "take (length hs) (drop j tree) = hs"
  shows "merkle_level env j (length hs) (2 * k) tree = tree @ drop k (level_above env hs)"
  using assms
proof (induction "(length hs + 1) div 2 - k" arbitrary: k tree)
  case 0
  then have "\<not> 2 * k < length hs" by linarith
  then show ?case using 0 by (simp add: merkle_level.simps)
next
  case (Suc n)
  let ?h = "hash_pair env (tree ! (j + 2 * k)) (tree ! (j + min (2 * k + 1) (length hs - 1)))"
  have k: "2 * k < length hs" using Suc.hyps(2) by linarith
  have at: "tree ! (j + i) = hs ! i" if "i < length hs" for i
  proof -
    have "hs ! i = take (length hs) (drop j tree) ! i" using Suc.prems(2) by simp
    then show ?thesis using that Suc.prems(1) by simp
  qed
  have "tree ! (j + min (2 * k + 1) (length hs - 1)) = hs ! min (2 * k + 1) (length hs - 1)"
    using k by (intro at) linarith
  then have "?h = level_above env hs ! k" using k at [OF k] by (simp add: nth_level_above)
  moreover have "drop k (level_above env hs) = level_above env hs ! k # drop (Suc k) (level_above env hs)"
    using k by (intro Cons_nth_drop_Suc [symmetric]) simp
  moreover have "merkle_level env j (length hs) (2 * Suc k) (tree @ [?h]) = (tree @ [?h]) @ drop (Suc k) (level_above env hs)"
    using Suc.hyps(2) Suc.prems by (intro Suc.hyps(1)) auto
  ultimately show ?case using k by (simp add: merkle_level.simps [of env j "length hs" "2 * k"])
qed

lemma xor_one: "n XOR Suc 0 = (if even n then n + 1 else n - 1)" for n :: nat
proof (cases "even n")
  case True
  then obtain k where "n = 2 * k" by (elim evenE)
  then show ?thesis by (simp add: xor_nat_rec [of "2 * k"])
next
  case False
  then obtain k where "n = 2 * k + 1" by (elim oddE)
  then show ?thesis by (simp add: xor_nat_rec [of "Suc (2 * k)"])
qed

lemma level_above_step:
  assumes "i < length hs" "1 < length hs"
  shows "int i mod 2 = 1 \<Longrightarrow> hash_pair env (hs ! min (i XOR Suc 0) (length hs - Suc 0)) (hs ! i) = level_above env hs ! (i div 2)"
    and "int i mod 2 \<noteq> 1 \<Longrightarrow> hash_pair env (hs ! i) (hs ! min (i XOR Suc 0) (length hs - Suc 0)) = level_above env hs ! (i div 2)"
proof -
  assume "int i mod 2 = 1"
  then have "odd i" by presburger
  then obtain k where k: "i = Suc (2 * k)" by (elim oddE) simp
  moreover have "min (2 * k) (length hs - Suc 0) = 2 * k" "min (Suc (2 * k)) (length hs - Suc 0) = Suc (2 * k)"
    using assms k by linarith+
  ultimately show "hash_pair env (hs ! min (i XOR Suc 0) (length hs - Suc 0)) (hs ! i) = level_above env hs ! (i div 2)"
    using assms by (simp add: nth_level_above xor_one)
next
  assume "int i mod 2 \<noteq> 1"
  then have "even i" by presburger
  then obtain k where "i = 2 * k" by (elim evenE)
  then show "hash_pair env (hs ! i) (hs ! min (i XOR Suc 0) (length hs - Suc 0)) = level_above env hs ! (i div 2)"
    using assms by (simp add: nth_level_above xor_one)
qed

lemma merkle_loop_prefix: "\<exists>more. merkle_loop env j (length hs) (pre @ hs) = pre @ hs @ more" if "length pre = j"
  using that
proof (induction "length hs" arbitrary: j hs pre rule: less_induct)
  case less
  show ?case
  proof (cases "length hs > 1")
    case True
    have "merkle_level env j (length hs) (2 * 0) (pre @ hs) = (pre @ hs) @ drop 0 (level_above env hs)"
      using less.prems by (intro merkle_level_above) simp_all
    moreover have "\<exists>more. merkle_loop env (j + length hs) (length (level_above env hs)) ((pre @ hs) @ level_above env hs) =
        (pre @ hs) @ level_above env hs @ more"
      using True less.prems by (intro less.hyps) simp_all
    ultimately show ?thesis using True by (auto simp: merkle_loop.simps [of env j "length hs"])
  qed (simp add: merkle_loop.simps)
qed

lemma branch_loop_verifies:
  assumes "length pre = j" "i < length hs" "tree = merkle_loop env j (length hs) (pre @ hs)"
  shows "\<exists>branch'. branch_loop tree j (length hs) i branch = Some (branch @ branch') \<and>
    CheckMerkleBranch_loop env (hs ! i) branch' (int i) = last tree"
  using assms
proof (induction "length hs" arbitrary: j hs pre i branch rule: less_induct)
  case less
  obtain more where more: "tree = pre @ hs @ more" using merkle_loop_prefix [OF less.prems(1)] less.prems(3) by metis
  show ?case
  proof (cases "length hs > 1")
    case True
    let ?up = "level_above env hs" and ?i = "min (i XOR 1) (length hs - 1)"
    have lv: "merkle_level env j (length hs) (2 * 0) (pre @ hs) = (pre @ hs) @ drop 0 ?up"
      using less.prems by (intro merkle_level_above) simp_all
    then have tree: "tree = merkle_loop env (j + length hs) (length ?up) ((pre @ hs) @ ?up)"
      using True less.prems(3) by (simp add: merkle_loop.simps [of env j "length hs"])
    have at: "j + ?i < length tree" "tree ! (j + ?i) = hs ! ?i"
      using more True less.prems(1) by (auto simp: nth_append)
    have up: "length ?up < length hs" "length (pre @ hs) = j + length hs" "i div 2 < length ?up"
      using True less.prems(1,2) by simp_all
    obtain b where b: "branch_loop tree (j + length hs) (length ?up) (i div 2) (branch @ [tree ! (j + ?i)]) =
        Some ((branch @ [tree ! (j + ?i)]) @ b)"
      "CheckMerkleBranch_loop env (?up ! (i div 2)) b (int (i div 2)) = last tree"
      using less.hyps [OF up tree] by blast
    show ?thesis
      using True b at level_above_step [OF less.prems(2) True, of env]
      by (intro exI [of _ "hs ! ?i # b"], cases "int i mod 2 = 1")
        (simp_all add: branch_loop.simps [of tree j "length hs"] Let_def zdiv_int)
  next
    case False
    then have "length hs = 1" "i = 0" using less.prems(2) by linarith+
    moreover have "more = []" using False more less.prems(3) by (simp add: merkle_loop.simps)
    ultimately show ?thesis using more by (cases hs) (simp_all add: branch_loop.simps)
  qed
qed

text \<open>
  C35. Every transaction of a block can be shown to belong to it: the branch that \<open>GetMerkleBranch\<close> gives for
  the position of the transaction exists, and \<open>CheckMerkleBranch\<close> computes from it and the hash of the transaction
  exactly the root that \<open>BuildMerkleTree\<close> computes, whatever the number of transactions.
\<close>

theorem merkle_branch_verifies:
  assumes "i < length (vtx b)" "vMerkleTree b = []"
  shows "\<exists>branch. GetMerkleBranch env b i = Some branch \<and>
    CheckMerkleBranch env (GetHash env (vtx b ! i)) branch (int i) = fst (BuildMerkleTree env b)"
proof -
  let ?hs = "map (GetHash env) (vtx b)"
  obtain more where "merkle_loop env 0 (length ?hs) ([] @ ?hs) = [] @ ?hs @ more"
    using merkle_loop_prefix [of "[]" 0 env ?hs] by auto
  then have "merkle_loop env 0 (length (vtx b)) ?hs \<noteq> []" using assms(1) by auto
  with branch_loop_verifies [of "[]" 0 i ?hs _ env "[]"] assms show ?thesis
    by (simp add: GetMerkleBranch_def CheckMerkleBranch_def BuildMerkleTree_def Let_def)
qed

definition demo_blk :: CBlock where
  "demo_blk = (CBlock_SetNull demo_tx_env)\<lparr>vtx := map (\<lambda>v. demo_spend [\<lparr>nValue = v, scriptPubKey = []\<rparr>]) [1, 2, 3]\<rparr>"

theorem merkle_branch_verifies_witness:
  "\<exists>branch. GetMerkleBranch demo_tx_env demo_blk 2 = Some branch \<and>
     CheckMerkleBranch demo_tx_env (GetHash demo_tx_env (vtx demo_blk ! 2)) branch 2 = fst (BuildMerkleTree demo_tx_env demo_blk)"
proof -
  have b: "length (vtx demo_blk) = 3" "vMerkleTree demo_blk = []" by (simp_all add: demo_blk_def CBlock_SetNull_def Let_def)
  from merkle_branch_verifies [of 2 demo_blk demo_tx_env] b show ?thesis by simp
qed

end
