(* ===== verification/QPQueue.thy ===== *)
theory QPQueue
  imports ChainParams
begin

text \<open>
  The block-production schedule: \<^verbatim>\<open>src/qpos/QPQueue.cpp\<close>, \<^verbatim>\<open>src/qpos/QPWindow.hpp\<close> and
  \<^verbatim>\<open>src/qpos/QPSlotInfo.cpp\<close>. A queue assigns one five-second slot to each staker of a round,
  remembers the current slot, and keeps one bit per slot that says whether a block was produced.
  Times, slots and staker IDs are 32-bit unsigned as in the source, so the window arithmetic wraps.
  A \<open>bool\<close> result with an output reference is an option: \<open>None\<close> for \<open>false\<close>. An out-of-range
  \<open>operator[]\<close> or \<open>back()\<close> is undefined behaviour in the source and \<open>None\<close> here.
\<close>

section \<open>Slot status and windows\<close>

datatype QPSlotStatus = QPSLOT_INVALID | QPSLOT_MISSED | QPSLOT_HIT | QPSLOT_CURRENT | QPSLOT_FUTURE

fun GetSlotStatusType :: "QPSlotStatus \<Rightarrow> string" where
  "GetSlotStatusType QPSLOT_INVALID = ''invalid''"
| "GetSlotStatusType QPSLOT_MISSED = ''missed''"
| "GetSlotStatusType QPSLOT_HIT = ''produced''"
| "GetSlotStatusType QPSLOT_CURRENT = ''current''"
| "GetSlotStatusType QPSLOT_FUTURE = ''future''"

fun GetSlotStatusAbbrev :: "QPSlotStatus \<Rightarrow> string" where
  "GetSlotStatusAbbrev QPSLOT_INVALID = ''!''"
| "GetSlotStatusAbbrev QPSLOT_MISSED = ''x''"
| "GetSlotStatusAbbrev QPSLOT_HIT = ''+''"
| "GetSlotStatusAbbrev QPSLOT_CURRENT = ''-''"
| "GetSlotStatusAbbrev QPSLOT_FUTURE = ''o''"

record QPWindow =
  win_start :: u32
  win_end :: u32

definition BitIsOn :: "valtype \<Rightarrow> u32 \<Rightarrow> u32" where
  "BitIsOn vch nBit =
     (let nByte = nBit div 8; nSize = of_nat (length vch)
      in if nByte \<ge> nSize then 0
         else ucast (vch ! unat nByte) AND drop_bit (unat (nBit mod 8)) 0x80)"

definition SetBit :: "valtype \<Rightarrow> u32 \<Rightarrow> u32 \<times> valtype" where
  "SetBit vch nBit =
     (let nByte = nBit div 8; nSize = of_nat (length vch)
      in if nByte \<ge> nSize then (0, vch)
         else let nBitValue = drop_bit (unat (nBit mod 8)) (0x80 :: u32)
              in (nBitValue,
                  vch[unat nByte := ucast (ucast (vch ! unat nByte) OR nBitValue)]))"

section \<open>The queue\<close>

record QPQueue =
  q_nVersion :: int
  nCurrentSlot :: u32
  nSlotTime0 :: u32
  vStakerIDs :: "u32 list"
  vchBlockStats :: valtype

definition QPQueue_SetNull :: QPQueue where
  "QPQueue_SetNull =
     \<lparr>q_nVersion = 1, nCurrentSlot = 0, nSlotTime0 = 0, vStakerIDs = [], vchBlockStats = []\<rparr>"

definition QPQueue_new :: "u32 \<Rightarrow> u32 list \<Rightarrow> QPQueue" where
  "QPQueue_new nSlotTime0In vStakerIDsIn =
     (let nSize = length vStakerIDsIn;
          nBytes = (if nSize mod 8 = 0 then nSize div 8 else nSize div 8 + 1)
      in \<lparr>q_nVersion = 1, nCurrentSlot = 0, nSlotTime0 = nSlotTime0In,
          vStakerIDs = vStakerIDsIn, vchBlockStats = replicate nBytes 0\<rparr>)"

definition GetIDForSlot :: "QPQueue \<Rightarrow> u32 \<Rightarrow> u32 option" where
  "GetIDForSlot q slot =
     (if unat slot \<ge> length (vStakerIDs q) then None else Some (vStakerIDs q ! unat slot))"

fun GetSlotForID_loop :: "u32 list \<Rightarrow> u32 \<Rightarrow> u32 \<Rightarrow> u32 option" where
  "GetSlotForID_loop [] nID slot = None"
| "GetSlotForID_loop (x # xs) nID slot =
     (if x = nID then Some slot else GetSlotForID_loop xs nID (slot + 1))"

definition GetSlotForID :: "QPQueue \<Rightarrow> u32 \<Rightarrow> u32 option" where
  "GetSlotForID q nID = GetSlotForID_loop (vStakerIDs q) nID 0"

definition window_at :: "QPQueue \<Rightarrow> u32 \<Rightarrow> QPWindow" where
  "window_at q slot =
     (let start = nSlotTime0 q + QP_TARGET_SPACING * slot
      in \<lparr>win_start = start, win_end = start + QP_TARGET_SPACING - 1\<rparr>)"

definition GetWindowForID :: "QPQueue \<Rightarrow> u32 \<Rightarrow> QPWindow option" where
  "GetWindowForID q nID =
     (case GetSlotForID q nID of None \<Rightarrow> None | Some slot \<Rightarrow> Some (window_at q slot))"

definition GetWindowForSlot :: "QPQueue \<Rightarrow> u32 \<Rightarrow> QPWindow option" where
  "GetWindowForSlot q nSlot =
     (if unat nSlot \<ge> length (vStakerIDs q) then None else Some (window_at q nSlot))"

text \<open>The bit of a slot: the slots fill the bit vector from its end.\<close>

definition slot_bit :: "QPQueue \<Rightarrow> u32 \<Rightarrow> u32" where
  "slot_bit q nSlot =
     nSlot + of_nat (length (vchBlockStats q)) * 8 - of_nat (length (vStakerIDs q))"

definition GetStatusForSlot :: "QPQueue \<Rightarrow> u32 \<Rightarrow> bool \<times> QPSlotStatus" where
  "GetStatusForSlot q nSlot =
     (if unat nSlot \<ge> length (vStakerIDs q) then (False, QPSLOT_INVALID)
      else if nSlot > nCurrentSlot q then (True, QPSLOT_FUTURE)
      else if BitIsOn (vchBlockStats q) (slot_bit q nSlot) \<noteq> 0 then (True, QPSLOT_HIT)
      else if nSlot = nCurrentSlot q then (True, QPSLOT_CURRENT)
      else (True, QPSLOT_MISSED))"

definition GetMinTime :: "QPQueue \<Rightarrow> u32" where
  "GetMinTime q = nSlotTime0 q"

definition GetMaxTime :: "QPQueue \<Rightarrow> u32" where
  "GetMaxTime q = nSlotTime0 q + QP_TARGET_SPACING * of_nat (length (vStakerIDs q)) - 1"

definition GetSlotStartTime :: "QPQueue \<Rightarrow> u32 \<Rightarrow> u32 option" where
  "GetSlotStartTime q nSlot =
     (if unat nSlot \<ge> length (vStakerIDs q) then None
      else Some (nSlotTime0 q + QP_TARGET_SPACING * nSlot))"

definition GetSlotForTime :: "QPQueue \<Rightarrow> u32 \<Rightarrow> u32 option" where
  "GetSlotForTime q nTime =
     (if nTime < nSlotTime0 q then None
      else if nTime > GetMaxTime q then None
      else Some ((nTime - nSlotTime0 q) div QP_TARGET_SPACING))"

definition GetCurrentSlotStart :: "QPQueue \<Rightarrow> u32" where
  "GetCurrentSlotStart q = nSlotTime0 q + QP_TARGET_SPACING * nCurrentSlot q"

definition GetCurrentSlotEnd :: "QPQueue \<Rightarrow> u32" where
  "GetCurrentSlotEnd q =
     (let start = nSlotTime0 q + QP_TARGET_SPACING * nCurrentSlot q
      in start + QP_TARGET_SPACING - 1)"

definition GetCurrentSlotWindow :: "QPQueue \<Rightarrow> QPWindow" where
  "GetCurrentSlotWindow q =
     (let start = nSlotTime0 q + QP_TARGET_SPACING * nCurrentSlot q
      in \<lparr>win_start = start, win_end = start + QP_TARGET_SPACING - 1\<rparr>)"

definition TimeIsInCurrentSlotWindow :: "QPQueue \<Rightarrow> u32 \<Rightarrow> bool" where
  "TimeIsInCurrentSlotWindow q nTime =
     (let w = GetCurrentSlotWindow q in win_start w \<le> nTime \<and> nTime \<le> win_end w)"

definition GetCurrentID :: "QPQueue \<Rightarrow> u32 option" where
  "GetCurrentID q =
     (if unat (nCurrentSlot q) < length (vStakerIDs q)
      then Some (vStakerIDs q ! unat (nCurrentSlot q)) else None)"

definition GetLastID :: "QPQueue \<Rightarrow> u32 option" where
  "GetLastID q = (if vStakerIDs q = [] then None else Some (last (vStakerIDs q)))"

definition IsOnLastSlot :: "QPQueue \<Rightarrow> bool" where
  "IsOnLastSlot q \<longleftrightarrow> int (unat (nCurrentSlot q)) = int (length (vStakerIDs q)) - 1"

definition QPQueue_Size :: "QPQueue \<Rightarrow> u32" where
  "QPQueue_Size q = of_nat (length (vStakerIDs q))"

definition QPQueue_IsEmpty :: "QPQueue \<Rightarrow> bool" where
  "QPQueue_IsEmpty q = (vStakerIDs q = [])"

definition SlotProduced :: "QPQueue \<Rightarrow> u32 \<Rightarrow> u32 \<times> QPQueue" where
  "SlotProduced q nSlot =
     (let (r, vch) = SetBit (vchBlockStats q) (slot_bit q nSlot)
      in (r, q\<lparr>vchBlockStats := vch\<rparr>))"

definition IncrementSlot :: "QPQueue \<Rightarrow> bool \<times> QPQueue" where
  "IncrementSlot q =
     (if unat (nCurrentSlot q + 1) \<ge> length (vStakerIDs q) then (False, q)
      else (True, q\<lparr>nCurrentSlot := nCurrentSlot q + 1\<rparr>))"

definition QPQueue_Reset :: "QPQueue \<Rightarrow> QPQueue" where
  "QPQueue_Reset q = q\<lparr>nCurrentSlot := 0\<rparr>"

section \<open>Slot information\<close>

record QPSlotInfo =
  si_nTime :: int
  si_nSlot :: u32
  si_nStakerID :: u32
  si_window :: QPWindow
  si_status :: QPSlotStatus

definition null_window :: QPWindow where
  "null_window = \<lparr>win_start = 0, win_end = 0\<rparr>"

definition QPSlotInfo_SetNull :: QPSlotInfo where
  "QPSlotInfo_SetNull =
     \<lparr>si_nTime = 0, si_nSlot = 0, si_nStakerID = 0, si_window = null_window,
      si_status = QPSLOT_INVALID\<rparr>"

definition QPSlotInfo_Set :: "int \<Rightarrow> u32 \<Rightarrow> QPQueue \<Rightarrow> QPSlotInfo" where
  "QPSlotInfo_Set nTimeIn nSlotIn q =
     (case GetIDForSlot q nSlotIn of
        None \<Rightarrow> \<lparr>si_nTime = nTimeIn, si_nSlot = nSlotIn, si_nStakerID = 0,
                 si_window = null_window, si_status = QPSLOT_INVALID\<rparr>
      | Some nID \<Rightarrow>
          (case GetWindowForSlot q nSlotIn of
             None \<Rightarrow> \<lparr>si_nTime = nTimeIn, si_nSlot = nSlotIn, si_nStakerID = nID,
                      si_window = null_window, si_status = QPSLOT_INVALID\<rparr>
           | Some w \<Rightarrow> \<lparr>si_nTime = nTimeIn, si_nSlot = nSlotIn, si_nStakerID = nID,
                      si_window = w, si_status = snd (GetStatusForSlot q nSlotIn)\<rparr>))"

definition GetRelativeStatusType :: "QPSlotInfo \<Rightarrow> int \<Rightarrow> bool \<Rightarrow> string" where
  "GetRelativeStatusType si nTimeIn fQueueIsOld =
     (if (si_status si = QPSLOT_CURRENT \<or> si_status si = QPSLOT_FUTURE) \<and> fQueueIsOld
      then ''missed''
      else if (si_status si = QPSLOT_CURRENT \<or> si_status si = QPSLOT_FUTURE) \<and>
              nTimeIn > uint (win_end (si_window si))
      then ''late''
      else if (si_status si = QPSLOT_CURRENT \<or> si_status si = QPSLOT_FUTURE) \<and>
              nTimeIn \<ge> uint (win_start (si_window si))
      then ''current''
      else GetSlotStatusType (si_status si))"

definition GetRelativeStatusType_now :: "QPSlotInfo \<Rightarrow> bool \<Rightarrow> string" where
  "GetRelativeStatusType_now si fQueueIsOld = GetRelativeStatusType si (si_nTime si) fQueueIsOld"

definition GetTimeUntil :: "QPSlotInfo \<Rightarrow> int \<Rightarrow> int" where
  "GetTimeUntil si nTimeIn = uint (win_start (si_window si)) - nTimeIn"

definition QPSlotInfo_IsValid :: "QPSlotInfo \<Rightarrow> bool" where
  "QPSlotInfo_IsValid si = (si_status si \<noteq> QPSLOT_INVALID)"

definition GetSlotsInfoInternal :: "int \<Rightarrow> u32 \<Rightarrow> QPQueue \<Rightarrow> QPSlotInfo list" where
  "GetSlotsInfoInternal nTime nSlotFirst q =
     map (\<lambda>slot. QPSlotInfo_Set nTime (of_nat slot) q)
       [unat nSlotFirst ..< unat (QPQueue_Size q)]"

section \<open>Invariants of the queue\<close>

abbreviation queue_len :: "QPQueue \<Rightarrow> nat" where
  "queue_len q \<equiv> length (vStakerIDs q)"

text \<open>
  \<open>queue_wf\<close> is the structural invariant: the bit vector has one bit per slot (rounded up to
  bytes) and the current slot exists unless the queue is empty. \<open>queue_fits\<close> says that the queue
  is not empty and that its last second is representable, so that no time computation wraps.
\<close>

definition queue_wf :: "QPQueue \<Rightarrow> bool" where
  "queue_wf q \<longleftrightarrow>
     length (vchBlockStats q) = (queue_len q + 7) div 8 \<and> queue_len q < 2 ^ 29 \<and>
     (unat (nCurrentSlot q) < queue_len q \<or> vStakerIDs q = [] \<and> nCurrentSlot q = 0)"

definition queue_fits :: "QPQueue \<Rightarrow> bool" where
  "queue_fits q \<longleftrightarrow> vStakerIDs q \<noteq> [] \<and> unat (nSlotTime0 q) + 5 * queue_len q < 2 ^ 32"

lemma queue_wf_SetNull [wf_intros]: "queue_wf QPQueue_SetNull"
  by (simp add: queue_wf_def QPQueue_SetNull_def)

lemma bytes_for_bits:
  "(if n mod 8 = 0 then n div 8 else n div 8 + 1) = (n + 7) div (8::nat)"
proof -
  have e: "(n + 7) div 8 = n div 8 + (n mod 8 + 7) div 8"
    by (simp add: div_add1_eq [of n 7 8])
  have "n mod 8 < 8" by simp
  then have "(n mod 8 + 7) div 8 = (if n mod 8 = 0 then 0 else 1)"
    by (auto intro!: div_nat_eqI)
  then show ?thesis by (simp only: e split: if_split) simp
qed

lemma queue_wf_new [wf_intros]: "length ids < 2 ^ 29 \<Longrightarrow> queue_wf (QPQueue_new t ids)"
  by (simp only: queue_wf_def QPQueue_new_def Let_def bytes_for_bits) simp

lemma new_queue_simps [queue_simps, simp]:
  "vStakerIDs (QPQueue_new t ids) = ids" "nSlotTime0 (QPQueue_new t ids) = t"
  "nCurrentSlot (QPQueue_new t ids) = 0"
  by (simp_all add: QPQueue_new_def Let_def)

lemma SlotProduced_simps [queue_simps, simp]:
  "vStakerIDs (snd (SlotProduced q s)) = vStakerIDs q"
  "nSlotTime0 (snd (SlotProduced q s)) = nSlotTime0 q"
  "nCurrentSlot (snd (SlotProduced q s)) = nCurrentSlot q"
  by (simp_all add: SlotProduced_def split: prod.splits)

lemma length_SetBit [simp]: "length (snd (SetBit vch b)) = length vch"
  by (simp add: SetBit_def Let_def)

lemma stats_SlotProduced [queue_simps]:
  "vchBlockStats (snd (SlotProduced q s)) = snd (SetBit (vchBlockStats q) (slot_bit q s))"
  by (simp add: SlotProduced_def split: prod.splits)

lemma queue_wf_SlotProduced [wf_intros]: "queue_wf q \<Longrightarrow> queue_wf (snd (SlotProduced q s))"
  by (simp add: queue_wf_def stats_SlotProduced)

lemma IncrementSlot_cases:
  assumes "queue_wf q" and "vStakerIDs q \<noteq> []"
  shows "IncrementSlot q =
    (if unat (nCurrentSlot q) + 1 < queue_len q
     then (True, q\<lparr>nCurrentSlot := nCurrentSlot q + 1\<rparr>) else (False, q))"
proof -
  have "unat (nCurrentSlot q) + 1 < 2 ^ 32" using assms by (auto simp: queue_wf_def)
  then have "unat (nCurrentSlot q + 1) = unat (nCurrentSlot q) + 1"
    by (intro unat_Suc_small) simp
  then show ?thesis by (auto simp: IncrementSlot_def)
qed

lemma queue_wf_IncrementSlot [wf_intros]: "queue_wf q \<Longrightarrow> queue_wf (snd (IncrementSlot q))"
  by (auto simp: IncrementSlot_def queue_wf_def)

lemma IncrementSlot_simps [queue_simps, simp]:
  "vStakerIDs (snd (IncrementSlot q)) = vStakerIDs q"
  "nSlotTime0 (snd (IncrementSlot q)) = nSlotTime0 q"
  "vchBlockStats (snd (IncrementSlot q)) = vchBlockStats q"
  by (simp_all add: IncrementSlot_def)

lemma queue_fits_IncrementSlot [simp]: "queue_fits (snd (IncrementSlot q)) = queue_fits q"
  by (simp add: queue_fits_def)

section \<open>Slot bits\<close>

lemma unat_slot_bit:
  assumes "queue_wf q" and "unat s < queue_len q"
  shows "unat (slot_bit q s) = unat s + 8 * length (vchBlockStats q) - queue_len q"
proof -
  let ?n = "queue_len q" and ?b = "8 * length (vchBlockStats q)"
  have n: "?n \<le> ?b" "?b < 2 ^ 30" "?n < 2 ^ 29"
    using assms by (auto simp: queue_wf_def)
  have "slot_bit q s = of_nat (unat s + ?b - ?n)"
    using n(1) by (simp add: slot_bit_def of_nat_diff mult.commute)
  moreover have "unat s + ?b - ?n < 2 ^ 32" using n assms by simp
  ultimately show ?thesis by (simp add: unat_of_nat_small)
qed

lemma slot_bit_range:
  assumes "queue_wf q" and "unat s < queue_len q"
  shows "unat (slot_bit q s) < 8 * length (vchBlockStats q)"
    and "length (vchBlockStats q) < 2 ^ 32"
  using assms unat_slot_bit [OF assms] by (auto simp: queue_wf_def)

lemma slot_bit_inj:
  assumes "queue_wf q" and "unat s < queue_len q" and "unat s' < queue_len q"
    and "slot_bit q s = slot_bit q s'"
  shows "s = s'"
proof -
  have "queue_len q \<le> 8 * length (vchBlockStats q)" using assms by (auto simp: queue_wf_def)
  then have "unat s = unat s'"
    using unat_slot_bit [OF assms(1,2)] unat_slot_bit [OF assms(1,3)] assms(2,3,4) by simp
  then show ?thesis by (simp add: word_unat_eq_iff)
qed

text \<open>Byte and bit index of a valid bit number.\<close>

lemma bit_index_in_range:
  assumes "unat b < 8 * length vch" and "length vch < 2 ^ 32"
  shows "\<not> b div 8 \<ge> (of_nat (length vch) :: u32)" "unat (b div 8) = unat b div 8"
    "unat (b mod 8) = unat b mod 8" "unat b div 8 < length vch"
  using assms by (auto simp: word_le_nat_alt unat_div unat_mod unat_of_nat_small)

lemma shifted_80: "k < 8 \<Longrightarrow> drop_bit k (0x80 :: u32) = 2 ^ (7 - k)"
proof -
  assume "k < 8"
  then have "k = 0 \<or> k = 1 \<or> k = 2 \<or> k = 3 \<or> k = 4 \<or> k = 5 \<or> k = 6 \<or> k = 7" by arith
  then show ?thesis by auto
qed

lemma BitIsOn_iff_bit:
  assumes "unat b < 8 * length vch" and "length vch < 2 ^ 32"
  shows "BitIsOn vch b \<noteq> 0 \<longleftrightarrow> bit (vch ! (unat b div 8)) (7 - unat b mod 8)"
proof -
  note idx = bit_index_in_range [OF assms]
  have "BitIsOn vch b = ucast (vch ! (unat b div 8)) AND 2 ^ (7 - unat b mod 8)"
    using idx by (simp add: BitIsOn_def Let_def shifted_80)
  moreover have "7 - unat b mod 8 < 32" by simp
  ultimately show ?thesis
    by (simp add: and_exp_eq_0_iff_not_bit bit_simps)
qed

lemma SetBit_eq:
  assumes "unat b < 8 * length vch" and "length vch < 2 ^ 32"
  shows "SetBit vch b =
    (2 ^ (7 - unat b mod 8),
     vch[unat b div 8 := vch ! (unat b div 8) OR 2 ^ (7 - unat b mod 8)])"
proof -
  note idx = bit_index_in_range [OF assms]
  have "ucast (ucast (x::u8) OR (2 ^ (7 - unat b mod 8) :: u32)) = x OR 2 ^ (7 - unat b mod 8)" for x
    by (rule bit_word_eqI) (auto simp: bit_simps)
  then show ?thesis
    using idx by (simp add: SetBit_def Let_def shifted_80)
qed

lemma seven_minus_inj: "x < 8 \<Longrightarrow> y < 8 \<Longrightarrow> 7 - x = 7 - (y::nat) \<longleftrightarrow> x = y"
  by arith

lemma BitIsOn_SetBit:
  assumes "unat b < 8 * length vch" and "unat c < 8 * length vch" and "length vch < 2 ^ 32"
  shows "BitIsOn (snd (SetBit vch b)) c \<noteq> 0 \<longleftrightarrow> c = b \<or> BitIsOn vch c \<noteq> 0"
proof -
  have len: "length (snd (SetBit vch b)) = length vch" by simp
  have "c = b \<longleftrightarrow> unat c div 8 = unat b div 8 \<and> unat c mod 8 = unat b mod 8"
    by (metis div_mult_mod_eq word_unat_eq_iff)
  moreover have "7 - unat c mod 8 = 7 - unat b mod 8 \<longleftrightarrow> unat c mod 8 = unat b mod 8"
    by (rule seven_minus_inj) simp_all
  moreover have "7 - unat b mod 8 < 8" by simp
  ultimately show ?thesis
    using assms bit_index_in_range(4) [OF assms(1,3)]
    by (auto simp: BitIsOn_iff_bit len SetBit_eq nth_list_update bit_simps)
qed

lemma SetBit_result_nonzero:
  assumes "unat b < 8 * length vch" and "length vch < 2 ^ 32"
  shows "fst (SetBit vch b) \<noteq> 0"
proof -
  have "unat (push_bit (7 - unat b mod 8) (1::u32)) = 2 ^ (7 - unat b mod 8)"
    by (rule unat_one_shifted) simp
  then have "(2::u32) ^ (7 - unat b mod 8) \<noteq> 0" by (auto simp: push_bit_eq_mult)
  then show ?thesis using SetBit_eq [OF assms] by simp
qed

lemma status_after_SlotProduced:
  assumes "queue_wf q" and "unat s < queue_len q" and "unat s' < queue_len q"
  shows "GetStatusForSlot (snd (SlotProduced q s)) s' =
    (if s' = s \<and> s \<le> nCurrentSlot q then (True, QPSLOT_HIT) else GetStatusForSlot q s')"
proof -
  note r = slot_bit_range [OF assms(1,2)] slot_bit_range(1) [OF assms(1,3)]
  have sb: "slot_bit (snd (SlotProduced q s)) = slot_bit q"
    by (auto simp: slot_bit_def stats_SlotProduced)
  have "BitIsOn (vchBlockStats (snd (SlotProduced q s))) (slot_bit q s') \<noteq> 0 \<longleftrightarrow>
      s' = s \<or> BitIsOn (vchBlockStats q) (slot_bit q s') \<noteq> 0"
    using BitIsOn_SetBit [OF r(1,3,2)] slot_bit_inj [OF assms(1,3,2)]
    by (auto simp: stats_SlotProduced)
  then show ?thesis
    using assms by (auto simp: GetStatusForSlot_def sb)
qed

lemma SlotProduced_nonzero:
  assumes "queue_wf q" and "unat s < queue_len q"
  shows "fst (SlotProduced q s) \<noteq> 0"
  using SetBit_result_nonzero [OF slot_bit_range [OF assms]]
  by (auto simp: SlotProduced_def split: prod.splits)

section \<open>Slots and times\<close>

lemma unat_spacing [simp]: "unat QP_TARGET_SPACING = 5"
  by (simp add: QP_TARGET_SPACING_def)

lemma unat_slot_start:
  assumes "unat (nSlotTime0 q) + 5 * unat s < 2 ^ 32"
  shows "unat (nSlotTime0 q + QP_TARGET_SPACING * s) = unat (nSlotTime0 q) + 5 * unat s"
proof -
  have "unat (QP_TARGET_SPACING * s) = 5 * unat s"
    using assms by (subst unat_mult_small) auto
  then show ?thesis using assms by (subst unat_add_small) auto
qed

lemma unat_slot_end:
  assumes "unat (nSlotTime0 q) + 5 * unat s + 5 < 2 ^ 32"
  shows "unat (nSlotTime0 q + QP_TARGET_SPACING * s + QP_TARGET_SPACING - 1) =
    unat (nSlotTime0 q) + 5 * unat s + 4"
proof -
  let ?x = "nSlotTime0 q + QP_TARGET_SPACING * s"
  have x: "unat ?x = unat (nSlotTime0 q) + 5 * unat s"
    using assms by (intro unat_slot_start) simp
  have "?x + QP_TARGET_SPACING - 1 = ?x + 4" by (simp add: QP_TARGET_SPACING_def)
  moreover have "unat (?x + 4) = unat ?x + 4"
    using assms x by (subst unat_add_small) auto
  ultimately show ?thesis by (simp only: x)
qed

lemma unat_window_at:
  assumes "queue_fits q" and "unat s < queue_len q"
  shows "unat (win_start (window_at q s)) = unat (nSlotTime0 q) + 5 * unat s"
    "unat (win_end (window_at q s)) = unat (nSlotTime0 q) + 5 * unat s + 4"
  using assms unat_slot_start [of q s] unat_slot_end [of q s]
  by (simp_all add: window_at_def Let_def queue_fits_def)

lemma unat_GetMaxTime:
  assumes "queue_fits q"
  shows "unat (GetMaxTime q) = unat (nSlotTime0 q) + 5 * queue_len q - 1"
proof -
  have l: "unat (of_nat (queue_len q) :: u32) = queue_len q"
    using assms by (intro unat_of_nat_small) (auto simp: queue_fits_def)
  have "unat (nSlotTime0 q + QP_TARGET_SPACING * of_nat (queue_len q)) =
      unat (nSlotTime0 q) + 5 * queue_len q"
    using assms l unat_slot_start [of q "of_nat (queue_len q)"] by (simp add: queue_fits_def)
  then show ?thesis
    using assms by (subst GetMaxTime_def, subst unat_minus_one) (auto simp: queue_fits_def)
qed

lemma GetSlotForTime_eq:
  assumes "queue_fits q"
  shows "GetSlotForTime q t =
    (if unat (nSlotTime0 q) \<le> unat t \<and> unat t < unat (nSlotTime0 q) + 5 * queue_len q
     then Some (of_nat ((unat t - unat (nSlotTime0 q)) div 5)) else None)"
proof -
  have "(t - nSlotTime0 q) div QP_TARGET_SPACING = of_nat ((unat t - unat (nSlotTime0 q)) div 5)"
    if "unat (nSlotTime0 q) \<le> unat t"
    using that by (simp add: word_unat_eq_iff unat_div unat_sub word_le_nat_alt unat_of_nat_small
        less_imp_diff_less unat_bound_word [of t, simplified] div_le_dividend [THEN le_less_trans])
  moreover have "unat t > unat (GetMaxTime q) \<longleftrightarrow> \<not> unat t < unat (nSlotTime0 q) + 5 * queue_len q"
    using unat_GetMaxTime [OF assms] assms
    by (cases "vStakerIDs q") (auto simp: queue_fits_def)
  ultimately show ?thesis
    by (auto simp: GetSlotForTime_def word_less_nat_alt)
qed

section \<open>The schedule contract\<close>

text \<open>
  What block validation relies on: every slot of a round has a window, the slot looked up for a
  time is the one whose window contains that time, and every second of the round is covered.
  From it follow, once for all implementations, that windows of different slots are disjoint and
  that no second can be signed by two different slots.
\<close>

locale slot_schedule =
  fixes inv :: "'q \<Rightarrow> bool"
    and size :: "'q \<Rightarrow> nat"
    and window :: "'q \<Rightarrow> u32 \<Rightarrow> QPWindow option"
    and slot_for_time :: "'q \<Rightarrow> u32 \<Rightarrow> u32 option"
    and min_time :: "'q \<Rightarrow> u32"
    and max_time :: "'q \<Rightarrow> u32"
  assumes window_defined: "inv q \<Longrightarrow> window q s \<noteq> None \<longleftrightarrow> unat s < size q"
    and time_in_window: "inv q \<Longrightarrow> slot_for_time q t = Some s \<longleftrightarrow>
      (\<exists>w. window q s = Some w \<and> win_start w \<le> t \<and> t \<le> win_end w)"
    and covered: "inv q \<Longrightarrow> slot_for_time q t \<noteq> None \<longleftrightarrow> min_time q \<le> t \<and> t \<le> max_time q"
begin

lemma slot_for_time_valid: "inv q \<Longrightarrow> slot_for_time q t = Some s \<Longrightarrow> unat s < size q"
  using time_in_window window_defined by fastforce

lemma windows_disjoint:
  assumes "inv q" and "window q s = Some w" and "window q s' = Some w'"
    and "win_start w \<le> t" "t \<le> win_end w" "win_start w' \<le> t" "t \<le> win_end w'"
  shows "s = s'"
proof -
  have "slot_for_time q t = Some s" and "slot_for_time q t = Some s'"
    using assms time_in_window by blast+
  then show ?thesis by simp
qed

lemma unique_slot:
  assumes "inv q" and "min_time q \<le> t" and "t \<le> max_time q"
  shows "\<exists>!s. unat s < size q \<and> (\<exists>w. window q s = Some w \<and> win_start w \<le> t \<and> t \<le> win_end w)"
proof -
  obtain s where s: "slot_for_time q t = Some s" using covered assms by fastforce
  then obtain w where w: "window q s = Some w" "win_start w \<le> t" "t \<le> win_end w"
    using time_in_window assms(1) by blast
  show ?thesis
    using w slot_for_time_valid [OF assms(1) s] windows_disjoint [OF assms(1)]
    by (intro ex1I [of _ s]) blast+
qed

end

lemma GetSlotForTime_window:
  assumes "queue_fits q"
  shows "GetSlotForTime q t = Some s \<longleftrightarrow>
    (\<exists>w. GetWindowForSlot q s = Some w \<and> win_start w \<le> t \<and> t \<le> win_end w)"
  (is "?L \<longleftrightarrow> ?R")
proof -
  let ?T0 = "unat (nSlotTime0 q)" and ?n = "queue_len q"
  have "?R \<longleftrightarrow> unat s < ?n \<and> ?T0 + 5 * unat s \<le> unat t \<and> unat t \<le> ?T0 + 5 * unat s + 4"
    using unat_window_at [OF assms] by (auto simp: GetWindowForSlot_def word_le_nat_alt)
  also have "\<dots> \<longleftrightarrow> ?T0 \<le> unat t \<and> unat t < ?T0 + 5 * ?n \<and> unat s = (unat t - ?T0) div 5"
    by auto
  also have "\<dots> \<longleftrightarrow> ?T0 \<le> unat t \<and> unat t < ?T0 + 5 * ?n \<and> s = of_nat ((unat t - ?T0) div 5)"
    using unat_bound_word [of t]
    by (auto simp: word_unat_eq_iff unat_of_nat_small div_le_dividend [THEN le_less_trans]
        less_imp_diff_less)
  also have "\<dots> \<longleftrightarrow> ?L"
    by (auto simp: GetSlotForTime_eq [OF assms])
  finally show ?thesis by blast
qed

interpretation qsched: slot_schedule queue_fits queue_len GetWindowForSlot GetSlotForTime
  GetMinTime GetMaxTime
proof (unfold_locales, goal_cases)
  case (1 q s)
  show ?case by (simp add: GetWindowForSlot_def)
next
  case (2 q t s)
  then show ?case by (rule GetSlotForTime_window)
next
  case (3 q t)
  then show ?case
    by (auto simp: GetSlotForTime_def GetMinTime_def)
qed

section \<open>Properties of the queue\<close>

text \<open>
  C33. No two stakers can own the same second: for a queue whose times fit in 32 bits, every
  second from its minimum to its maximum time lies in the window of exactly one slot, and that is
  the slot that the time look-up returns.
\<close>

theorem every_second_has_one_slot:
  assumes "queue_fits q" and "GetMinTime q \<le> t" and "t \<le> GetMaxTime q"
  shows "(\<exists>!s. unat s < queue_len q \<and>
            (\<exists>w. GetWindowForSlot q s = Some w \<and> win_start w \<le> t \<and> t \<le> win_end w)) \<and>
    (\<exists>s w. GetSlotForTime q t = Some s \<and> GetWindowForSlot q s = Some w \<and>
           win_start w \<le> t \<and> t \<le> win_end w)"
proof
  show "\<exists>!s. unat s < queue_len q \<and>
      (\<exists>w. GetWindowForSlot q s = Some w \<and> win_start w \<le> t \<and> t \<le> win_end w)"
    using qsched.unique_slot assms .
  obtain s where "GetSlotForTime q t = Some s"
    using qsched.covered assms by fastforce
  then show "\<exists>s w. GetSlotForTime q t = Some s \<and> GetWindowForSlot q s = Some w \<and>
      win_start w \<le> t \<and> t \<le> win_end w"
    using qsched.time_in_window [OF assms(1)] by blast
qed

theorem every_second_has_one_slot_witness:
  "GetSlotForTime (QPQueue_new 1000 [7, 3, 5]) 1007 = Some 1 \<and>
   (\<exists>s w. GetSlotForTime (QPQueue_new 1000 [7, 3, 5]) 1007 = Some s \<and>
      GetWindowForSlot (QPQueue_new 1000 [7, 3, 5]) s = Some w \<and> win_start w \<le> 1007 \<and> 1007 \<le> win_end w)"
proof -
  let ?q = "QPQueue_new 1000 [7, 3, 5]"
  have "queue_fits ?q" "GetMinTime ?q \<le> 1007" "1007 \<le> GetMaxTime ?q"
    by (simp_all add: queue_fits_def GetMinTime_def GetMaxTime_def QP_TARGET_SPACING_def)
  from every_second_has_one_slot [OF this]
  show ?thesis by (simp add: GetSlotForTime_def GetMaxTime_def QP_TARGET_SPACING_def)
qed

text \<open>
  Recording a produced block changes the status of that slot only: after it the slot counts as
  produced (once the queue has reached it), every other slot keeps its status, the call reports
  success, and the queue stays well formed.
\<close>

theorem SlotProduced_only_that_slot:
  assumes "queue_wf q" and "unat s < queue_len q"
  shows "fst (SlotProduced q s) \<noteq> 0 \<and> queue_wf (snd (SlotProduced q s)) \<and>
    (\<forall>s'. unat s' < queue_len q \<longrightarrow>
       GetStatusForSlot (snd (SlotProduced q s)) s' =
         (if s' = s \<and> s \<le> nCurrentSlot q then (True, QPSLOT_HIT) else GetStatusForSlot q s'))"
  using SlotProduced_nonzero [OF assms] queue_wf_SlotProduced [OF assms(1)]
    status_after_SlotProduced [OF assms] by blast

theorem SlotProduced_only_that_slot_witness:
  "GetStatusForSlot (snd (SlotProduced (QPQueue_new 1000 [7, 3, 5]) 0)) 0 = (True, QPSLOT_HIT) \<and>
   GetStatusForSlot (snd (SlotProduced (QPQueue_new 1000 [7, 3, 5]) 0)) 1 = (True, QPSLOT_FUTURE)"
proof -
  let ?q = "QPQueue_new 1000 [7, 3, 5]"
  have wf: "queue_wf ?q" by (rule queue_wf_new) simp
  have "unat (0::u32) < queue_len ?q" by simp
  note w = SlotProduced_only_that_slot [OF wf this]
  have "GetStatusForSlot (snd (SlotProduced ?q 0)) 0 = (True, QPSLOT_HIT)"
    "GetStatusForSlot (snd (SlotProduced ?q 0)) 1 = GetStatusForSlot ?q 1"
    using w by simp_all
  then show ?thesis by (simp add: GetStatusForSlot_def)
qed

end
