(* ===== verification/QPPower.thy ===== *)
theory QPPower
  imports ChainParams
begin

text \<open>
  Chain power: \<^verbatim>\<open>src/qpos/QPPowerElement.cpp\<close> and \<^verbatim>\<open>src/qpos/QPPowerRound.cpp\<close>. A round
  records, for every slot that has passed, the weight of its staker and whether the block was
  produced; the pico power is the produced share in units of \<open>10\<^sup>-\<^sup>1\<^sup>2\<close>. Weights are added in
  32 bits and the final quotient is taken in 64 bits, both with wrap-around.
\<close>

record QPPowerElement =
  pe_nVersion :: u32
  pe_nStakerID :: u32
  pe_nWeight :: u32
  pe_fDidProduceBlock :: bool

definition QPPowerElement_SetNull :: QPPowerElement where
  "QPPowerElement_SetNull =
     \<lparr>pe_nVersion = 1, pe_nStakerID = 0, pe_nWeight = 0, pe_fDidProduceBlock = False\<rparr>"

definition QPPowerElement_new :: "u32 \<Rightarrow> u32 \<Rightarrow> bool \<Rightarrow> QPPowerElement" where
  "QPPowerElement_new nStakerIDIn nWeightIn fDidProduceBlockIn =
     \<lparr>pe_nVersion = 1, pe_nStakerID = nStakerIDIn, pe_nWeight = nWeightIn,
      pe_fDidProduceBlock = fDidProduceBlockIn\<rparr>"

record QPPowerRound =
  pr_nVersion :: int
  vElements :: "QPPowerElement list"

definition QPPowerRound_SetNull :: QPPowerRound where
  "QPPowerRound_SetNull = \<lparr>pr_nVersion = 1, vElements = []\<rparr>"

definition PowerRound_GetWeight :: "QPPowerRound \<Rightarrow> u32" where
  "PowerRound_GetWeight r =
     fold (\<lambda>e nWeight. if pe_fDidProduceBlock e then nWeight + pe_nWeight e else nWeight)
       (vElements r) 0"

definition PowerRound_GetTotalWeight :: "QPPowerRound \<Rightarrow> u32" where
  "PowerRound_GetTotalWeight r = fold (\<lambda>e nWeight. nWeight + pe_nWeight e) (vElements r) 0"

definition PowerRound_GetPicoPower :: "QPPowerRound \<Rightarrow> u64" where
  "PowerRound_GetPicoPower r =
     (let nWeight = ucast (PowerRound_GetWeight r) :: u64;
          nTotalWeight = ucast (PowerRound_GetTotalWeight r) :: u64
      in if nTotalWeight = 0 then 0 else (nWeight * TRIL) div nTotalWeight)"

definition PowerRound_Size :: "QPPowerRound \<Rightarrow> u32" where
  "PowerRound_Size r = of_nat (length (vElements r))"

definition PowerRound_IsEmpty :: "QPPowerRound \<Rightarrow> bool" where
  "PowerRound_IsEmpty r = (vElements r = [])"

definition PowerRound_Copy :: "QPPowerRound \<Rightarrow> QPPowerRound \<Rightarrow> QPPowerRound" where
  "PowerRound_Copy r other = r\<lparr>vElements := vElements other\<rparr>"

definition PowerRound_PushBack :: "QPPowerRound \<Rightarrow> u32 \<Rightarrow> u32 \<Rightarrow> bool \<Rightarrow> QPPowerRound" where
  "PowerRound_PushBack r nStakerIDIn nWeightIn fDidProduceBlockIn =
     r\<lparr>vElements := vElements r @ [QPPowerElement_new nStakerIDIn nWeightIn fDidProduceBlockIn]\<rparr>"

section \<open>Weights without wrap-around\<close>

text \<open>The mathematical weights, and the condition under which the 32-bit sums equal them.\<close>

definition round_weight :: "QPPowerRound \<Rightarrow> nat" where
  "round_weight r = (\<Sum>e\<leftarrow>filter pe_fDidProduceBlock (vElements r). unat (pe_nWeight e))"

definition round_total :: "QPPowerRound \<Rightarrow> nat" where
  "round_total r = (\<Sum>e\<leftarrow>vElements r. unat (pe_nWeight e))"

lemma round_weight_le_total: "round_weight r \<le> round_total r"
  unfolding round_weight_def round_total_def by (rule sum_list_map_filter_le)

lemma fold_produced_weight:
  "fold (\<lambda>e nWeight. if pe_fDidProduceBlock e then nWeight + pe_nWeight e else nWeight) es a =
   a + sum_list (map pe_nWeight (filter pe_fDidProduceBlock es))"
  by (induction es arbitrary: a) (auto simp: algebra_simps)

lemma unat_GetTotalWeight:
  "round_total r < 2 ^ 32 \<Longrightarrow> unat (PowerRound_GetTotalWeight r) = round_total r"
  unfolding PowerRound_GetTotalWeight_def round_total_def fold_add_word
  by (simp add: unat_sum_list_word)

lemma unat_GetWeight:
  "round_total r < 2 ^ 32 \<Longrightarrow> unat (PowerRound_GetWeight r) = round_weight r"
  using round_weight_le_total [of r]
  unfolding PowerRound_GetWeight_def round_weight_def fold_produced_weight
  by (simp add: unat_sum_list_word)

text \<open>The quotient \<open>w * 10\<^sup>1\<^sup>2 / t\<close> in 64 bits, for weights small enough not to wrap.\<close>

lemma unat_TRIL: "unat TRIL = 1000000000000"
  by (simp add: TRIL_def)

lemma pico_quotient:
  fixes w t :: u64
  assumes "unat w * 1000000000000 < 2 ^ 64"
  shows "unat ((w * TRIL) div t) = unat w * 1000000000000 div unat t"
proof -
  have "unat (w * TRIL) = unat w * 1000000000000"
    using assms by (subst unat_mult_small) (auto simp: unat_TRIL)
  then show ?thesis by (simp add: unat_div)
qed

lemma pico_le_TRIL:
  fixes w t :: nat
  assumes "w \<le> t"
  shows "w * 1000000000000 div t \<le> 1000000000000"
proof (cases "t = 0")
  case False
  have "w * 1000000000000 div t \<le> t * 1000000000000 div t"
    using assms by (intro div_le_mono) simp
  then show ?thesis using False by simp
qed simp

lemma unat_ucast_32_64 [simp]: "unat (ucast (x::u32) :: u64) = unat x"
  by (simp add: unsigned_ucast_eq take_bit_nat_eq_self unsigned_less [THEN less_le_trans])

text \<open>
  The pico power of a round is the produced share of the total weight scaled to \<open>10\<^sup>1\<^sup>2\<close> and
  rounded down, hence at most \<open>10\<^sup>1\<^sup>2\<close>, as long as the weights of the round add up to less than
  \<open>18446744\<close> so that neither the 32-bit sums nor the 64-bit product wrap.
\<close>

theorem GetPicoPower_share:
  assumes "round_total r < 18446744" and "0 < round_total r"
  shows "unat (PowerRound_GetPicoPower r) = round_weight r * 1000000000000 div round_total r \<and>
    unat (PowerRound_GetPicoPower r) \<le> 1000000000000"
proof -
  let ?w = "ucast (PowerRound_GetWeight r) :: u64" and ?t = "ucast (PowerRound_GetTotalWeight r) :: u64"
  have u: "unat ?w = round_weight r" "unat ?t = round_total r"
    using unat_GetWeight [of r] unat_GetTotalWeight [of r] assms by simp_all
  then have "?t \<noteq> 0" using assms(2) by (metis less_irrefl unat_0)
  moreover have "unat ((?w * TRIL) div ?t) = round_weight r * 1000000000000 div round_total r"
    using round_weight_le_total [of r] assms(1) u by (subst pico_quotient) simp_all
  ultimately show ?thesis
    using pico_le_TRIL [OF round_weight_le_total] by (simp add: PowerRound_GetPicoPower_def Let_def)
qed

theorem GetPicoPower_share_witness:
  "unat (PowerRound_GetPicoPower
     (PowerRound_PushBack (PowerRound_PushBack QPPowerRound_SetNull 1 51 True) 2 49 False)) =
   510000000000"
proof -
  let ?r = "PowerRound_PushBack (PowerRound_PushBack QPPowerRound_SetNull 1 51 True) 2 49 False"
  have "round_total ?r = 100" "round_weight ?r = 51"
    by (simp_all add: round_total_def round_weight_def PowerRound_PushBack_def
        QPPowerElement_new_def QPPowerRound_SetNull_def)
  with GetPicoPower_share [of ?r] show ?thesis by simp
qed

end
