(* ===== verification/QPStaker.thy ===== *)
theory QPStaker
  imports QPTx
begin

text \<open>
  The staker record of \<^verbatim>\<open>src/qpos/QPStaker.cpp\<close>. The two \<open>bitset<4096>\<close> histories are 4096-bit
  words with the most recent assignment at bit 0; the block counters are 32-bit unsigned and wrap.
  Disk look-ups of the creation block and the JSON views are not modelled.
\<close>

type_synonym QPRecentBlocks = "4096 word"

record QPStaker =
  st_nVersion :: int
  st_bRecentBlocks :: QPRecentBlocks
  bPrevRecentBlocks :: QPRecentBlocks
  hashBlockCreated :: uint256
  hashTxCreated :: uint256
  nOutCreated :: u32
  nPrice :: int
  nBlocksProduced :: u32
  nBlocksMissed :: u32
  nBlocksDocked :: u32
  nBlocksAssigned :: u32
  nBlocksSeen :: u32
  hashBlockMostRecent :: uint256
  nPrevBlocksMissed :: u32
  nPcmDelegatePayout :: u32
  nHeightDisabled :: int
  fQualified :: bool
  nTotalEarned :: int
  sAlias :: string
  mapMeta :: "(string, string) omap"
  pubkeyOwner :: CPubKey
  pubkeyManager :: CPubKey
  pubkeyDelegate :: CPubKey
  pubkeyController :: CPubKey

section \<open>Construction\<close>

definition QPStaker_Reset :: "QPStaker \<Rightarrow> QPStaker" where
  "QPStaker_Reset s = s\<lparr>st_nVersion := 1, st_bRecentBlocks := - 1, bPrevRecentBlocks := - 1,
     nBlocksProduced := 0, nBlocksMissed := 0, nBlocksDocked := 0, nBlocksAssigned := 0,
     nBlocksSeen := 0, hashBlockMostRecent := 0, nPrevBlocksMissed := 0, nPcmDelegatePayout := 0,
     nHeightDisabled := -1, fQualified := True, nTotalEarned := 0, sAlias := '''', mapMeta := []\<rparr>"

text \<open>
  The default constructor leaves \<open>nOutCreated\<close> and \<open>nPrice\<close> indeterminate; they are zero here and
  every use of the constructor in the model overwrites them.
\<close>

definition QPStaker_default :: QPStaker where
  "QPStaker_default =
     \<lparr>st_nVersion = 1, st_bRecentBlocks = - 1, bPrevRecentBlocks = - 1, hashBlockCreated = 0,
      hashTxCreated = 0, nOutCreated = 0, nPrice = 0, nBlocksProduced = 0, nBlocksMissed = 0,
      nBlocksDocked = 0, nBlocksAssigned = 0, nBlocksSeen = 0, hashBlockMostRecent = 0,
      nPrevBlocksMissed = 0, nPcmDelegatePayout = 0, nHeightDisabled = -1, fQualified = True,
      nTotalEarned = 0, sAlias = '''', mapMeta = [], pubkeyOwner = [], pubkeyManager = [],
      pubkeyDelegate = [], pubkeyController = []\<rparr>"

text \<open>Construction from a purchase; \<open>None\<close> when there is no key (\<open>keys[0]\<close> out of range).\<close>

definition QPStaker_of_deet :: "QPTxDetails \<Rightarrow> QPStaker option" where
  "QPStaker_of_deet deet =
     (case deet_keys deet of
        [] \<Rightarrow> None
      | k # _ \<Rightarrow> Some (QPStaker_Reset (QPStaker_default
          \<lparr>pubkeyOwner := k, pubkeyManager := k, pubkeyDelegate := k, pubkeyController := k,
           hashBlockCreated := deet_hash deet, hashTxCreated := deet_txid deet,
           nOutCreated := word_of_int (deet_n deet), nPrice := deet_value deet\<rparr>)))"

section \<open>Queries\<close>

definition bitset_count :: "'w::len word \<Rightarrow> nat" where
  "bitset_count w = length (filter (bit w) [0..<LENGTH('w)])"

definition GetRecentBlocksProduced :: "QPStaker \<Rightarrow> u32" where
  "GetRecentBlocksProduced s = of_nat (bitset_count (st_bRecentBlocks s))"

definition GetPrevRecentBlocksProduced :: "QPStaker \<Rightarrow> u32" where
  "GetPrevRecentBlocksProduced s = of_nat (bitset_count (bPrevRecentBlocks s))"

definition GetRecentBlocksMissed :: "QPStaker \<Rightarrow> u32" where
  "GetRecentBlocksMissed s =
     (let m = QP_STAKER_RECENT_BLOCKS - GetRecentBlocksProduced s in min (nBlocksMissed s) m)"

definition GetPrevRecentBlocksMissed :: "QPStaker \<Rightarrow> u32" where
  "GetPrevRecentBlocksMissed s =
     (let m = QP_STAKER_RECENT_BLOCKS - GetPrevRecentBlocksProduced s
      in min (nPrevBlocksMissed s) m)"

definition GetNetBlocks :: "QPStaker \<Rightarrow> u32" where
  "GetNetBlocks s =
     (if nBlocksDocked s \<ge> nBlocksProduced s then 0 else nBlocksProduced s - nBlocksDocked s)"

definition DidMissMostRecentBlock :: "QPStaker \<Rightarrow> bool" where
  "DidMissMostRecentBlock s \<longleftrightarrow> \<not> bit (st_bRecentBlocks s) 0"

definition DidProduceMostRecentBlock :: "QPStaker \<Rightarrow> bool" where
  "DidProduceMostRecentBlock s \<longleftrightarrow> bit (st_bRecentBlocks s) 0"

definition GetWeight :: "QPStaker \<Rightarrow> u32 \<Rightarrow> u32" where
  "GetWeight s nSeniority =
     (let net = GetNetBlocks s
      in if net > 0 then uisqrt (net + nSeniority * nSeniority) else nSeniority)"

definition IsProductive :: "QPStaker \<Rightarrow> bool" where
  "IsProductive s \<longleftrightarrow> nTotalEarned s > 0"

definition IsEnabled :: "QPStaker \<Rightarrow> bool" where
  "IsEnabled s \<longleftrightarrow> fQualified s \<and> nHeightDisabled s = 0"

definition IsDisabled :: "QPStaker \<Rightarrow> bool" where
  "IsDisabled s \<longleftrightarrow> nHeightDisabled s \<noteq> 0 \<or> \<not> fQualified s"

definition IsQualified :: "QPStaker \<Rightarrow> bool" where
  "IsQualified s = fQualified s"

definition IsDisqualified :: "QPStaker \<Rightarrow> bool" where
  "IsDisqualified s \<longleftrightarrow> \<not> fQualified s"

text \<open>The scan of the \<open>n\<close> most recent bits: true when no bit is set.\<close>

definition no_recent_hit :: "QPRecentBlocks \<Rightarrow> nat \<Rightarrow> bool" where
  "no_recent_hit b n \<longleftrightarrow> list_all (\<lambda>i. \<not> bit b i) [0..<n]"

definition ShouldBeDisabled :: "bool \<Rightarrow> QPStaker \<Rightarrow> int \<Rightarrow> bool" where
  "ShouldBeDisabled fTestNet s nHeight =
     (let nMaxMiss = GetStakerMaxMisses fTestNet nHeight; nPrevMaxMiss = nMaxMiss div 2
      in if no_recent_hit (st_bRecentBlocks s) (unat nMaxMiss) then True
         else no_recent_hit (bPrevRecentBlocks s) (unat nPrevMaxMiss))"

definition ShouldBeDisqualified :: "QPStaker \<Rightarrow> u32 \<Rightarrow> bool" where
  "ShouldBeDisqualified s nPrevRecentBlocksMissedMax \<longleftrightarrow>
     GetPrevRecentBlocksMissed s > nPrevRecentBlocksMissedMax \<or>
     (nBlocksSeen s > QP_NOOB_BLOCKS \<and>
      (GetNetBlocks s \<le> 0 \<or> GetRecentBlocksMissed s > QP_STAKER_RECENT_BLOCKS div 2))"

definition HasMeta :: "QPStaker \<Rightarrow> string \<Rightarrow> bool" where
  "HasMeta s key = om_count key (mapMeta s)"

definition GetMeta :: "QPStaker \<Rightarrow> string \<Rightarrow> string option" where
  "GetMeta s key = map_of (mapMeta s) key"

definition GetEnableHeight :: "bool \<Rightarrow> QPStaker \<Rightarrow> int \<Rightarrow> int" where
  "GetEnableHeight fTestNet s nHeight =
     (if fTestNet
      then (if GetFork fTestNet nHeight < XST_FORKMISSFIX then 0
            else sint (word_of_int (nHeightDisabled s) + QP_STAKER_REENABLE_WAIT_T))
      else if nHeightDisabled s = 0 then 0
      else sint (word_of_int (nHeightDisabled s) + QP_STAKER_REENABLE_WAIT_M))"

definition CanBeEnabled :: "bool \<Rightarrow> QPStaker \<Rightarrow> int \<Rightarrow> bool" where
  "CanBeEnabled fTestNet s nHeight \<longleftrightarrow> nHeight \<ge> GetEnableHeight fTestNet s nHeight"

section \<open>Updates\<close>

definition shl1 :: "'w::len word \<Rightarrow> 'w word" where
  "shl1 b = push_bit 1 b"

definition bset0 :: "'w::len word \<Rightarrow> 'w word" where
  "bset0 b = set_bit 0 b"

lemma bit_bset0: "bit (bset0 (b::'w::len word)) i \<longleftrightarrow> i = 0 \<or> bit b i"
  by (auto simp: bset0_def bit_set_bit_iff)

lemma bit_shl1: "bit (shl1 (b::'w::len word)) i \<longleftrightarrow> 0 < i \<and> i < LENGTH('w) \<and> bit b (i - 1)"
  unfolding shl1_def bit_push_bit_iff by auto

definition UpdatePrevRecentBlocks :: "QPStaker \<Rightarrow> bool \<Rightarrow> QPStaker" where
  "UpdatePrevRecentBlocks s fPrevDidProduceBlock =
     (let s = s\<lparr>bPrevRecentBlocks := shl1 (bPrevRecentBlocks s)\<rparr>
      in if fPrevDidProduceBlock then s\<lparr>bPrevRecentBlocks := bset0 (bPrevRecentBlocks s)\<rparr>
         else s\<lparr>nPrevBlocksMissed := nPrevBlocksMissed s + 1\<rparr>)"

text \<open>The result carries the owner reward and the delegate reward.\<close>

definition ProducedBlock :: "QPStaker \<Rightarrow> uint256 \<Rightarrow> int \<Rightarrow> bool \<Rightarrow> QPStaker \<times> int \<times> int" where
  "ProducedBlock s hashBlock nBlockReward fPrevDidProduceBlock =
     (let s = s\<lparr>nBlocksProduced := nBlocksProduced s + 1,
                nBlocksAssigned := nBlocksAssigned s + 1,
                hashBlockMostRecent := hashBlock,
                st_bRecentBlocks := bset0 (shl1 (st_bRecentBlocks s)),
                nPcmDelegatePayout := min 100000 (nPcmDelegatePayout s)\<rparr>;
          nDelegateReward =
            (if nPcmDelegatePayout s = 0 \<or> pubkeyDelegate s = pubkeyOwner s then 0
             else (nBlockReward * uint (nPcmDelegatePayout s)) sdiv 100000);
          nOwnerReward =
            (if nPcmDelegatePayout s = 0 \<or> pubkeyDelegate s = pubkeyOwner s then nBlockReward
             else nBlockReward - nDelegateReward);
          s = s\<lparr>nTotalEarned := nTotalEarned s + nBlockReward\<rparr>
      in (UpdatePrevRecentBlocks s fPrevDidProduceBlock, nOwnerReward, nDelegateReward))"

definition MissedBlock :: "QPStaker \<Rightarrow> bool \<Rightarrow> int \<Rightarrow> QPStaker" where
  "MissedBlock s fPrevDidProduceBlock nFork =
     (let s = s\<lparr>nBlocksAssigned := nBlocksAssigned s + 1, nBlocksMissed := nBlocksMissed s + 1\<rparr>;
          s = (if nFork \<ge> XST_FORKMISSFIX then s\<lparr>nBlocksDocked := nBlocksDocked s + 1\<rparr> else s);
          s = s\<lparr>st_bRecentBlocks := shl1 (st_bRecentBlocks s)\<rparr>
      in UpdatePrevRecentBlocks s fPrevDidProduceBlock)"

definition SawBlock :: "QPStaker \<Rightarrow> QPStaker" where
  "SawBlock s = s\<lparr>nBlocksSeen := nBlocksSeen s + 1\<rparr>"

definition SetDelegatePayout :: "QPStaker \<Rightarrow> u32 \<Rightarrow> bool \<times> QPStaker" where
  "SetDelegatePayout s pcm =
     (if pcm > 100000 then (False, s\<lparr>nPcmDelegatePayout := 100000\<rparr>)
      else (True, s\<lparr>nPcmDelegatePayout := pcm\<rparr>))"

definition Enable :: "QPStaker \<Rightarrow> bool \<times> QPStaker" where
  "Enable s = (if IsDisqualified s then (False, s) else (True, s\<lparr>nHeightDisabled := 0\<rparr>))"

definition Disable :: "QPStaker \<Rightarrow> int \<Rightarrow> QPStaker" where
  "Disable s nHeight = s\<lparr>nHeightDisabled := nHeight\<rparr>"

definition Disqualify :: "QPStaker \<Rightarrow> QPStaker" where
  "Disqualify s = s\<lparr>nHeightDisabled := INT_MAX sdiv 2, fQualified := False\<rparr>"

definition Requalify :: "QPStaker \<Rightarrow> bool \<Rightarrow> QPStaker" where
  "Requalify s fEnable = s\<lparr>nHeightDisabled := (if fEnable then 0 else -1), fQualified := True\<rparr>"

definition SetAlias :: "QPStaker \<Rightarrow> string \<Rightarrow> bool \<times> QPStaker" where
  "SetAlias s sAliasIn =
     (if sAlias s \<noteq> '''' then (False, s) else (True, s\<lparr>sAlias := sAliasIn\<rparr>))"

definition SetMeta :: "QPStaker \<Rightarrow> string \<Rightarrow> string \<Rightarrow> QPStaker" where
  "SetMeta s key value =
     (if value = '''' then s\<lparr>mapMeta := om_erase key (mapMeta s)\<rparr>
      else s\<lparr>mapMeta := om_put key value (mapMeta s)\<rparr>)"

definition ResetDocked :: "QPStaker \<Rightarrow> QPStaker" where
  "ResetDocked s = s\<lparr>nBlocksDocked := 0\<rparr>"

section \<open>Invariant\<close>

text \<open>
  Every assigned block is counted as produced or as missed, the payout is a fraction in
  millipercent, and the meta-data map is ordered. The first clause is an equation between 32-bit
  counters, so it survives their wrap-around.
\<close>

definition staker_wf :: "QPStaker \<Rightarrow> bool" where
  "staker_wf s \<longleftrightarrow>
     nBlocksAssigned s = nBlocksProduced s + nBlocksMissed s \<and>
     nPcmDelegatePayout s \<le> 100000 \<and> om_wf (mapMeta s)"

lemmas staker_update_defs =
  ProducedBlock_def MissedBlock_def UpdatePrevRecentBlocks_def SawBlock_def SetDelegatePayout_def
  Enable_def Disable_def Disqualify_def Requalify_def SetAlias_def SetMeta_def ResetDocked_def

lemma staker_wf_default [wf_intros]: "staker_wf QPStaker_default"
  by (simp add: staker_wf_def QPStaker_default_def)

lemma staker_wf_of_deet [wf_intros]: "QPStaker_of_deet d = Some s \<Longrightarrow> staker_wf s"
  by (auto simp: staker_wf_def QPStaker_of_deet_def QPStaker_Reset_def QPStaker_default_def
      split: list.splits)

lemma staker_wf_ProducedBlock [wf_intros]:
  "staker_wf s \<Longrightarrow> staker_wf (fst (ProducedBlock s h r p))"
  by (simp add: staker_wf_def ProducedBlock_def UpdatePrevRecentBlocks_def Let_def algebra_simps)

lemma staker_wf_MissedBlock [wf_intros]: "staker_wf s \<Longrightarrow> staker_wf (MissedBlock s p f)"
  by (simp add: staker_wf_def MissedBlock_def UpdatePrevRecentBlocks_def Let_def algebra_simps)

lemma staker_wf_updates [wf_intros]:
  assumes "staker_wf s"
  shows "staker_wf (SawBlock s)" "staker_wf (snd (SetDelegatePayout s pcm))"
    "staker_wf (snd (Enable s))" "staker_wf (Disable s h)" "staker_wf (Disqualify s)"
    "staker_wf (Requalify s e)" "staker_wf (snd (SetAlias s a))" "staker_wf (SetMeta s k v)"
    "staker_wf (ResetDocked s)"
  using assms by (auto simp: staker_wf_def staker_update_defs)

lemma staker_wf_keys [wf_intros]:
  assumes "staker_wf s"
  shows "staker_wf (s\<lparr>pubkeyOwner := k\<rparr>)" "staker_wf (s\<lparr>pubkeyManager := k\<rparr>)"
    "staker_wf (s\<lparr>pubkeyDelegate := k\<rparr>)" "staker_wf (s\<lparr>pubkeyController := k\<rparr>)"
  using assms by (auto simp: staker_wf_def)

lemma enabled_iff_not_disabled: "IsEnabled s \<longleftrightarrow> \<not> IsDisabled s"
  by (auto simp: IsEnabled_def IsDisabled_def)

section \<open>Rewards\<close>

lemma delegate_share:
  fixes r :: int
  assumes "0 \<le> r" and "p \<le> (100000::u32)"
  shows "0 \<le> (r * uint p) sdiv 100000" "(r * uint p) sdiv 100000 \<le> r"
proof -
  have p: "0 \<le> uint p" "uint p \<le> 100000"
    using assms(2) by (auto simp: word_le_def)
  then have "(r * uint p) sdiv 100000 = (r * uint p) div 100000"
    using assms(1) by (simp add: signed_divide_int_def sgn_if)
  moreover have "r * uint p \<le> r * 100000"
    using assms(1) p by (intro mult_left_mono) auto
  moreover have "0 \<le> r * uint p" using assms(1) p by simp
  ultimately show "0 \<le> (r * uint p) sdiv 100000" "(r * uint p) sdiv 100000 \<le> r"
    by auto
qed

lemma ProducedBlock_rewards:
  assumes "ProducedBlock s h r p = (s', ow, de)"
  shows "ow + de = r" "0 \<le> r \<Longrightarrow> 0 \<le> ow" "0 \<le> r \<Longrightarrow> 0 \<le> de"
    "nTotalEarned s' = nTotalEarned s + r" "pubkeyOwner s' = pubkeyOwner s"
    "pubkeyManager s' = pubkeyManager s" "pubkeyDelegate s' = pubkeyDelegate s"
proof -
  let ?p = "min 100000 (nPcmDelegatePayout s)" and ?sp = "pubkeyDelegate s = pubkeyOwner s"
  have de: "de = (if ?p = 0 \<or> ?sp then 0 else (r * uint ?p) sdiv 100000)" and ow: "ow = r - de"
    using assms by (auto simp: ProducedBlock_def Let_def)
  show "nTotalEarned s' = nTotalEarned s + r" "pubkeyOwner s' = pubkeyOwner s"
    "pubkeyManager s' = pubkeyManager s" "pubkeyDelegate s' = pubkeyDelegate s"
    using assms by (auto simp: ProducedBlock_def UpdatePrevRecentBlocks_def Let_def)
  show "ow + de = r" by (simp add: ow)
  show "0 \<le> r \<Longrightarrow> 0 \<le> ow" "0 \<le> r \<Longrightarrow> 0 \<le> de"
    using delegate_share [of r ?p] by (auto simp: de ow)
qed

section \<open>The history of assignments\<close>

text \<open>
  The abstract history of a staker is the list of its outcomes, latest first. A bit set
  \<open>represents\<close> it when bit \<open>i\<close> is the \<open>i\<close>-th latest outcome; a fresh staker counts as having
  produced everything.
\<close>

definition represents :: "QPRecentBlocks \<Rightarrow> bool list \<Rightarrow> bool" where
  "represents b h \<longleftrightarrow> (\<forall>i<4096. bit b i = (if i < length h then h ! i else True))"

lemma represents_fresh: "represents (- 1) []"
  by (simp add: represents_def)

lemma represents_push:
  "represents b h \<Longrightarrow> represents (if x then bset0 (shl1 b) else shl1 b) (x # h)"
  by (auto simp: represents_def bit_shl1 bit_bset0 nth_Cons split: nat.splits)

text \<open>The abstract step of a staker: outcome of its own slot and of the slot before it.\<close>

fun staker_event :: "QPStaker \<Rightarrow> (uint256 \<times> int) option \<times> bool \<times> int \<Rightarrow> QPStaker" where
  "staker_event s (Some (h, r), prev, nFork) = fst (ProducedBlock s h r prev)"
| "staker_event s (None, prev, nFork) = MissedBlock s prev nFork"

definition run_events :: "QPStaker \<Rightarrow> ((uint256 \<times> int) option \<times> bool \<times> int) list \<Rightarrow> QPStaker" where
  "run_events s es = fold (\<lambda>e s. staker_event s e) es s"

lemma history_ProducedBlock [staker_simps]:
  "st_bRecentBlocks (fst (ProducedBlock s h r p)) = bset0 (shl1 (st_bRecentBlocks s))"
  "bPrevRecentBlocks (fst (ProducedBlock s h r p)) =
    (if p then bset0 (shl1 (bPrevRecentBlocks s)) else shl1 (bPrevRecentBlocks s))"
  by (simp_all add: ProducedBlock_def UpdatePrevRecentBlocks_def Let_def)

lemma history_MissedBlock [staker_simps]:
  "st_bRecentBlocks (MissedBlock s p f) = shl1 (st_bRecentBlocks s)"
  "bPrevRecentBlocks (MissedBlock s p f) =
    (if p then bset0 (shl1 (bPrevRecentBlocks s)) else shl1 (bPrevRecentBlocks s))"
  by (simp_all add: MissedBlock_def UpdatePrevRecentBlocks_def Let_def)

lemma history_staker_event:
  "st_bRecentBlocks (staker_event s e) =
    (if fst e \<noteq> None then bset0 (shl1 (st_bRecentBlocks s)) else shl1 (st_bRecentBlocks s))"
  "bPrevRecentBlocks (staker_event s e) =
    (if fst (snd e) then bset0 (shl1 (bPrevRecentBlocks s)) else shl1 (bPrevRecentBlocks s))"
  by (cases "(s, e)" rule: staker_event.cases; simp add: staker_simps)+

lemma staker_event_history:
  assumes "represents (st_bRecentBlocks s) h" and "represents (bPrevRecentBlocks s) g"
  shows "represents (st_bRecentBlocks (staker_event s e)) ((fst e \<noteq> None) # h)"
    "represents (bPrevRecentBlocks (staker_event s e)) (fst (snd e) # g)"
  unfolding history_staker_event
  by (rule represents_push [OF assms(1)], rule represents_push [OF assms(2)])

lemma run_events_history:
  assumes "represents (st_bRecentBlocks s) h" and "represents (bPrevRecentBlocks s) g"
  shows "represents (st_bRecentBlocks (run_events s es)) (rev (map (\<lambda>e. fst e \<noteq> None) es) @ h) \<and>
    represents (bPrevRecentBlocks (run_events s es)) (rev (map (fst \<circ> snd) es) @ g)"
  using assms
proof (induction es arbitrary: s h g)
  case Nil
  then show ?case by (simp add: run_events_def)
next
  case (Cons e es)
  from Cons.IH [OF staker_event_history [OF Cons.prems]] show ?case
    by (simp add: run_events_def)
qed

lemma no_recent_hit_iff:
  assumes "represents b h" and "n \<le> 4096"
  shows "no_recent_hit b n \<longleftrightarrow> n \<le> length h \<and> list_all Not (take n h)"
proof -
  have "no_recent_hit b n \<longleftrightarrow> (\<forall>i<n. i < length h \<and> \<not> h ! i)"
    using assms by (auto simp: no_recent_hit_def represents_def list_all_iff)
  also have "\<dots> \<longleftrightarrow> n \<le> length h \<and> (\<forall>i<n. \<not> h ! i)"
    by (auto simp: not_less [symmetric])
  also have "\<dots> \<longleftrightarrow> n \<le> length h \<and> list_all Not (take n h)"
    by (auto simp: list_all_length)
  finally show ?thesis .
qed

lemma unat_max_misses: "unat (GetStakerMaxMisses fTestNet h) \<in> {8, 512}"
  by (simp add: GetStakerMaxMisses_def QP_STAKER_MAX_MISSES_1_T_def QP_STAKER_MAX_MISSES_2_T_def
      QP_STAKER_MAX_MISSES_M_def)

lemma ShouldBeDisabled_iff:
  assumes "represents (st_bRecentBlocks s) h" and "represents (bPrevRecentBlocks s) g"
  shows "ShouldBeDisabled fTestNet s nHeight \<longleftrightarrow>
    (let n = unat (GetStakerMaxMisses fTestNet nHeight) in
      (n \<le> length h \<and> list_all Not (take n h)) \<or>
      (n div 2 \<le> length g \<and> list_all Not (take (n div 2) g)))"
proof -
  have "unat (GetStakerMaxMisses fTestNet nHeight) \<le> 4096"
    using unat_max_misses [of fTestNet nHeight] by auto
  then show ?thesis
    by (auto simp: ShouldBeDisabled_def Let_def unat_div no_recent_hit_iff [OF assms(1)]
        no_recent_hit_iff [OF assms(2)])
qed

section \<open>Weight\<close>

lemma unat_GetNetBlocks: "unat (GetNetBlocks s) = unat (nBlocksProduced s) - unat (nBlocksDocked s)"
  by (auto simp: GetNetBlocks_def word_le_nat_alt unat_sub)

lemma GetWeight_root:
  assumes "0 < GetNetBlocks s" and "unat (GetNetBlocks s) + unat n * unat n < 2 ^ 32"
  shows "is_root (unat (GetWeight s n)) (unat (GetNetBlocks s) + unat n * unat n)"
proof -
  have "unat (n * n) = unat n * unat n" using assms(2) by (intro unat_mult_small) simp
  then have "unat (GetNetBlocks s + n * n) = unat (GetNetBlocks s) + unat n * unat n"
    using assms(2) by (subst unat_add_small) auto
  then show ?thesis
    using assms(1) uisqrt_is_root [of "GetNetBlocks s + n * n"] by (simp add: GetWeight_def Let_def)
qed

lemma is_root_mono: "is_root r a \<Longrightarrow> is_root t b \<Longrightarrow> a \<le> b \<Longrightarrow> r \<le> t"
proof (rule ccontr)
  assume r: "is_root r a" "is_root t b" "a \<le> b" and "\<not> r \<le> t"
  then have "(t + 1) * (t + 1) \<le> r * r" by (intro mult_mono) auto
  with r show False by (auto simp: is_root_def)
qed

lemma is_root_square: "is_root n (n * n)"
  by (simp add: is_root_def)

lemma GetWeight_ge_seniority:
  assumes "unat (GetNetBlocks s) + unat n * unat n < 2 ^ 32"
  shows "unat n \<le> unat (GetWeight s n)"
proof (cases "0 < GetNetBlocks s")
  case True
  from is_root_mono [OF is_root_square GetWeight_root [OF True assms]] show ?thesis by simp
next
  case False
  then show ?thesis by (simp add: GetWeight_def)
qed

section \<open>Properties of a staker\<close>

text \<open>
  Producing a block splits the block reward exactly between owner and delegate: both shares
  are non-negative, they add up to the reward, the reward is added to the staker's total, and a
  delegate with no payout fraction or with the owner's key gets nothing.
\<close>

theorem ProducedBlock_splits_reward:
  assumes "ProducedBlock s h r p = (s', ow, de)" and "0 \<le> r"
  shows "ow + de = r \<and> 0 \<le> ow \<and> 0 \<le> de \<and> nTotalEarned s' = nTotalEarned s + r \<and>
    (nPcmDelegatePayout s = 0 \<or> pubkeyDelegate s = pubkeyOwner s \<longrightarrow> de = 0)"
proof -
  have "nPcmDelegatePayout s = 0 \<or> pubkeyDelegate s = pubkeyOwner s \<Longrightarrow> de = 0"
    using assms(1) by (auto simp: ProducedBlock_def Let_def)
  then show ?thesis using ProducedBlock_rewards [OF assms(1)] assms(2) by simp
qed

theorem ProducedBlock_splits_reward_witness:
  "snd (ProducedBlock (QPStaker_default\<lparr>pubkeyDelegate := [2], nPcmDelegatePayout := 30000\<rparr>)
     7 1000 True) = (700, 300) \<and> (700::int) + 300 = 1000"
proof -
  let ?s = "QPStaker_default\<lparr>pubkeyDelegate := [2], nPcmDelegatePayout := 30000\<rparr>"
  have e: "snd (ProducedBlock ?s 7 1000 True) = (700, 300)"
    by (simp add: ProducedBlock_def Let_def QPStaker_default_def)
  then obtain s' where "ProducedBlock ?s 7 1000 True = (s', 700, 300)"
    by (metis prod.collapse)
  from ProducedBlock_splits_reward [OF this] e show ?thesis by simp
qed

text \<open>
  C34. Automatic disabling looks at the history and nothing else: after any sequence of produced
  and missed assignments of a fresh staker, it is due for disabling exactly when its latest
  \<open>n\<close> assignments were all missed, or the slots before its latest \<open>n / 2\<close> assignments were all
  missed, where \<open>n\<close> is the miss limit at that height.
\<close>

theorem ShouldBeDisabled_history:
  assumes "st_bRecentBlocks s = - 1" and "bPrevRecentBlocks s = - 1"
  shows "ShouldBeDisabled fTestNet (run_events s es) nHeight \<longleftrightarrow>
    (let n = unat (GetStakerMaxMisses fTestNet nHeight);
         own = rev (map (\<lambda>e. fst e \<noteq> None) es); before = rev (map (fst \<circ> snd) es)
     in (n \<le> length es \<and> list_all Not (take n own)) \<or>
        (n div 2 \<le> length es \<and> list_all Not (take (n div 2) before)))"
proof -
  have "represents (st_bRecentBlocks s) []" "represents (bPrevRecentBlocks s) []"
    using represents_fresh assms by simp_all
  from run_events_history [OF this, of es] show ?thesis
    by (simp add: ShouldBeDisabled_iff [where h = "rev (map (\<lambda>e. fst e \<noteq> None) es)"
          and g = "rev (map (fst \<circ> snd) es)"] Let_def)
qed

theorem ShouldBeDisabled_history_witness:
  "ShouldBeDisabled True (run_events QPStaker_default (replicate 8 (None, True, 8))) 20000"
proof -
  have "st_bRecentBlocks QPStaker_default = - 1" "bPrevRecentBlocks QPStaker_default = - 1"
    by (simp_all add: QPStaker_default_def)
  note w = ShouldBeDisabled_history [OF this, of True "replicate 8 (None, True, 8)" 20000]
  have "GetStakerMaxMisses True 20000 = 8"
    by (simp add: GetStakerMaxMisses_def GetFork_def mapForksTestNet_def map_list_of_def
        om_insert_def om_count_def QP_STAKER_MAX_MISSES_1_T_def)
  then show ?thesis unfolding w by (simp add: Let_def list_all_iff)
qed

text \<open>
  Weight rewards seniority and net production: unless the 32-bit sum wraps, the weight of a
  staker is the floor of the square root of its net blocks plus the square of its seniority when
  it has net blocks, and in every case at least its seniority.
\<close>

theorem GetWeight_seniority:
  assumes "unat (GetNetBlocks s) + unat n * unat n < 2 ^ 32"
  shows "unat n \<le> unat (GetWeight s n) \<and>
    (0 < GetNetBlocks s \<longrightarrow>
      is_root (unat (GetWeight s n)) (unat (nBlocksProduced s) - unat (nBlocksDocked s) + unat n * unat n))"
  using GetWeight_ge_seniority [OF assms] GetWeight_root [OF _ assms] by (simp add: unat_GetNetBlocks)

theorem GetWeight_seniority_witness:
  "is_root (unat (GetWeight (QPStaker_default\<lparr>nBlocksProduced := 100\<rparr>) 10)) 200"
  using GetWeight_seniority [of "QPStaker_default\<lparr>nBlocksProduced := 100\<rparr>" 10]
  by (simp add: GetNetBlocks_def QPStaker_default_def)

end
