(* ===== verification/QPRegistry.thy ===== *)
theory QPRegistry
  imports QPQueue QPPower QPStaker
begin

text \<open>
  The staker registry, \<^verbatim>\<open>src/qpos/QPRegistry.cpp\<close>: its state and its queries. The operations
  that change it are in \<open>QPRegistryOps\<close> and \<open>QPRegistryUpdate\<close>.

  What the class takes from elsewhere is the record \<open>qp_env\<close>: the network flag, the NFT tables,
  the clock, the command-line minimum of the power, the two hash functions used for seeding, the
  Mersenne-twister shuffler of Boost (seed, number of the draw, bound), the snapshot data base's
  viability test, and the indeterminate value of one uninitialised local. The mutex that every
  public method takes makes each method one atomic step; it has no counterpart here.
\<close>

record qp_env =
  env_fTestNet :: bool
  env_mapNfts :: QPMapNft
  env_mapNftLookup :: QPMapNftLookup
  env_AdjustedTime :: int
  env_MinPicoPower :: u64
  env_Hash9 :: "uint256 \<Rightarrow> uint256"
  env_SerializeHash :: "uint256 \<Rightarrow> uint256"
  env_shuffler :: "u32 \<Rightarrow> nat \<Rightarrow> nat \<Rightarrow> nat"
  env_SnapshotIsViable :: "int \<Rightarrow> bool"
  env_hashGenesis :: uint256
  env_uninit :: u32

record CBlockIndex =
  bi_nHeight :: int
  bi_nTime :: u32
  bi_nStakerID :: u32
  bi_hashBlock :: uint256
  bi_nMoneySupply :: int
  bi_vDeets :: "QPTxDetails list"

record QPRegistry =
  rg_nVersion :: int
  nRound :: u32
  nRoundSeed :: u32
  mapStakers :: "(u32, QPStaker) omap"
  mapBalances :: "(CPubKey, int) omap"
  mapLastClaim :: "(CPubKey, int) omap"
  mapActive :: "(CPubKey, int) omap"
  mapAliases :: "(string, u32 \<times> string) omap"
  queue :: QPQueue
  queuePrev :: QPQueue
  rg_bRecentBlocks :: "32768 word"
  nIDCounter :: u32
  nIDSlotPrev :: u32
  fCurrentBlockWasProduced :: bool
  fPrevBlockWasProduced :: bool
  nBlockHeight :: int
  hashBlock :: uint256
  hashBlockLastSnapshot :: uint256
  hashLastBlockPrev1Queue :: uint256
  hashLastBlockPrev2Queue :: uint256
  hashLastBlockPrev3Queue :: uint256
  powerRoundPrev :: QPPowerRound
  powerRoundCurrent :: QPPowerRound
  mapNftOwners :: "(u32, u32) omap"
  mapNftOwnerLookup :: "(u32, u32) omap"
  nHeightExitedReplay :: u32
  fShouldRollback :: bool
  mapCertifiedNodes :: "(u32, string) omap"

text \<open>\<open>SetNull\<close> leaves the two NFT ownership maps as they are.\<close>

definition QPRegistry_SetNull :: "qp_env \<Rightarrow> QPRegistry \<Rightarrow> QPRegistry" where
  "QPRegistry_SetNull env r =
     r\<lparr>rg_nVersion := 1, nRound := 0, nRoundSeed := 0, mapStakers := [], mapBalances := [],
       mapLastClaim := [], mapActive := [], mapAliases := [], rg_bRecentBlocks := 0,
       nIDCounter := 0, nIDSlotPrev := 0, fCurrentBlockWasProduced := False,
       fPrevBlockWasProduced := True, nBlockHeight := 0, hashBlock := env_hashGenesis env,
       hashBlockLastSnapshot := env_hashGenesis env,
       hashLastBlockPrev1Queue := env_hashGenesis env,
       hashLastBlockPrev2Queue := env_hashGenesis env,
       hashLastBlockPrev3Queue := env_hashGenesis env,
       nHeightExitedReplay := 0, queue := QPQueue_SetNull, queuePrev := QPQueue_SetNull,
       powerRoundPrev := QPPowerRound_SetNull, powerRoundCurrent := QPPowerRound_SetNull,
       fShouldRollback := False, mapCertifiedNodes := []\<rparr>"

definition QPRegistry_new :: "qp_env \<Rightarrow> QPRegistry" where
  "QPRegistry_new env =
     \<lparr>rg_nVersion = 1, nRound = 0, nRoundSeed = 0, mapStakers = [], mapBalances = [],
      mapLastClaim = [], mapActive = [], mapAliases = [], queue = QPQueue_SetNull,
      queuePrev = QPQueue_SetNull, rg_bRecentBlocks = 0, nIDCounter = 0, nIDSlotPrev = 0,
      fCurrentBlockWasProduced = False, fPrevBlockWasProduced = True, nBlockHeight = 0,
      hashBlock = env_hashGenesis env, hashBlockLastSnapshot = env_hashGenesis env,
      hashLastBlockPrev1Queue = env_hashGenesis env,
      hashLastBlockPrev2Queue = env_hashGenesis env,
      hashLastBlockPrev3Queue = env_hashGenesis env,
      powerRoundPrev = QPPowerRound_SetNull, powerRoundCurrent = QPPowerRound_SetNull,
      mapNftOwners = [], mapNftOwnerLookup = [], nHeightExitedReplay = 0,
      fShouldRollback = False, mapCertifiedNodes = []\<rparr>"

text \<open>\<open>CopyInternal\<close> copies every field except the list of certified nodes.\<close>

definition CopyInternal :: "QPRegistry \<Rightarrow> QPRegistry \<Rightarrow> QPRegistry" where
  "CopyInternal r other = other\<lparr>mapCertifiedNodes := mapCertifiedNodes r\<rparr>"

section \<open>Queries\<close>

abbreviation fork_at :: "qp_env \<Rightarrow> int \<Rightarrow> int" where
  "fork_at env h \<equiv> GetFork (env_fTestNet env) h"

definition GetStakerInternal :: "QPRegistry \<Rightarrow> u32 \<Rightarrow> QPStaker option" where
  "GetStakerInternal r nID =
     (if 0 < nID \<and> nID \<le> nIDCounter r then map_of (mapStakers r) nID else None)"

definition IsInReplayMode :: "QPRegistry \<Rightarrow> bool" where
  "IsInReplayMode r \<longleftrightarrow> nHeightExitedReplay r = 0"

definition OutOfReplayMode :: "QPRegistry \<Rightarrow> bool" where
  "OutOfReplayMode r \<longleftrightarrow> nHeightExitedReplay r \<noteq> 0"

definition GetTotalEarned :: "QPRegistry \<Rightarrow> int" where
  "GetTotalEarned r = fold (\<lambda>(k, s) total. total + nTotalEarned s) (mapStakers r) 0"

definition GetNumberOf :: "(QPStaker \<Rightarrow> bool) \<Rightarrow> QPRegistry \<Rightarrow> u32" where
  "GetNumberOf f r = fold (\<lambda>(k, s) count. if f s then count + 1 else count) (mapStakers r) 0"

definition GetNumberProductiveInternal :: "QPRegistry \<Rightarrow> u32" where
  "GetNumberProductiveInternal r = GetNumberOf IsProductive r"
definition GetNumberEnabledInternal :: "QPRegistry \<Rightarrow> u32" where
  "GetNumberEnabledInternal r = GetNumberOf IsEnabled r"
definition GetNumberDisabledInternal :: "QPRegistry \<Rightarrow> u32" where
  "GetNumberDisabledInternal r = GetNumberOf IsDisabled r"
definition GetNumberQualifiedInternal :: "QPRegistry \<Rightarrow> u32" where
  "GetNumberQualifiedInternal r = GetNumberOf IsQualified r"
definition GetNumberDisqualifiedInternal :: "QPRegistry \<Rightarrow> u32" where
  "GetNumberDisqualifiedInternal r = GetNumberOf IsDisqualified r"

definition IsEnabledStaker :: "QPRegistry \<Rightarrow> u32 \<Rightarrow> bool" where
  "IsEnabledStaker r nStakerID =
     (case GetStakerInternal r nStakerID of None \<Rightarrow> False | Some s \<Rightarrow> IsEnabled s)"

definition CanEnableStaker :: "qp_env \<Rightarrow> QPRegistry \<Rightarrow> u32 \<Rightarrow> int \<Rightarrow> bool" where
  "CanEnableStaker env r nStakerID nHeight =
     (case GetStakerInternal r nStakerID of
        None \<Rightarrow> False | Some s \<Rightarrow> CanBeEnabled (env_fTestNet env) s nHeight)"

definition IsQualifiedStaker :: "QPRegistry \<Rightarrow> u32 \<Rightarrow> bool" where
  "IsQualifiedStaker r nStakerID =
     (case GetStakerInternal r nStakerID of None \<Rightarrow> False | Some s \<Rightarrow> IsQualified s)"

text \<open>The comparison with the clock promotes the 32-bit time to the signed 64-bit type.\<close>

definition TimestampIsValid :: "qp_env \<Rightarrow> QPRegistry \<Rightarrow> u32 \<Rightarrow> u32 \<Rightarrow> bool" where
  "TimestampIsValid env r nStakerID nTime =
     (case GetWindowForID (queue r) nStakerID of
        None \<Rightarrow> False
      | Some w \<Rightarrow> \<not> nTime < win_start w \<and> \<not> nTime > win_end w \<and>
                  \<not> uint nTime > env_AdjustedTime env)"

definition GetRecentBlock :: "QPRegistry \<Rightarrow> u32 \<Rightarrow> int" where
  "GetRecentBlock r n =
     (if n \<ge> 32768 then -1 else of_bool (bit (rg_bRecentBlocks r) (unat n)))"

definition GetBalanceForPubKey :: "QPRegistry \<Rightarrow> CPubKey \<Rightarrow> int option" where
  "GetBalanceForPubKey r key = map_of (mapBalances r) key"

definition PubKeyIsInLedger :: "QPRegistry \<Rightarrow> CPubKey \<Rightarrow> bool" where
  "PubKeyIsInLedger r key = om_count key (mapBalances r)"

definition PubKeyActiveCount :: "QPRegistry \<Rightarrow> CPubKey \<Rightarrow> int option" where
  "PubKeyActiveCount r key = map_of (mapActive r) key"

definition PubKeyIsInactive :: "QPRegistry \<Rightarrow> CPubKey \<Rightarrow> bool option" where
  "PubKeyIsInactive r key = map_option (\<lambda>n. n \<le> 0) (map_of (mapActive r) key)"

definition CanClaimInternal :: "qp_env \<Rightarrow> QPRegistry \<Rightarrow> CPubKey \<Rightarrow> int \<Rightarrow> int \<Rightarrow> bool" where
  "CanClaimInternal env r key nValue nClaimTime =
     (let nTime = env_AdjustedTime env
      in if nClaimTime > nTime then False
         else let nClaimTime = (if nClaimTime \<le> 0 then nTime else nClaimTime)
              in (case map_of (mapBalances r) key of
                    None \<Rightarrow> False
                  | Some bal \<Rightarrow>
                      if nValue > bal then False
                      else (case map_of (mapLastClaim r) key of
                              None \<Rightarrow> True
                            | Some lastClaim \<Rightarrow>
                                \<not> (\<not> env_fTestNet env \<and>
                                   nClaimTime < lastClaim + QP_MIN_SECS_PER_CLAIM))))"

record qpos_authorities =
  auth_owner :: CPubKey
  auth_manager :: CPubKey
  auth_delegate :: CPubKey
  auth_controller :: CPubKey

definition qualified_staker :: "QPRegistry \<Rightarrow> u32 \<Rightarrow> QPStaker option" where
  "qualified_staker r nStakerID =
     (case GetStakerInternal r nStakerID of
        None \<Rightarrow> None | Some s \<Rightarrow> if IsDisqualified s then None else Some s)"

text \<open>The controller field receives the manager key.\<close>

definition GetStakerAuthorities :: "QPRegistry \<Rightarrow> u32 \<Rightarrow> qpos_authorities option" where
  "GetStakerAuthorities r nStakerID =
     map_option (\<lambda>s. \<lparr>auth_owner = pubkeyOwner s, auth_manager = pubkeyManager s,
        auth_delegate = pubkeyDelegate s, auth_controller = pubkeyManager s\<rparr>)
       (qualified_staker r nStakerID)"

definition GetOwnerKey :: "QPRegistry \<Rightarrow> u32 \<Rightarrow> CPubKey option" where
  "GetOwnerKey r nStakerID = map_option pubkeyOwner (qualified_staker r nStakerID)"
definition GetManagerKey :: "QPRegistry \<Rightarrow> u32 \<Rightarrow> CPubKey option" where
  "GetManagerKey r nStakerID = map_option pubkeyManager (qualified_staker r nStakerID)"
definition GetDelegateKey :: "QPRegistry \<Rightarrow> u32 \<Rightarrow> CPubKey option" where
  "GetDelegateKey r nStakerID = map_option pubkeyDelegate (qualified_staker r nStakerID)"
definition GetControllerKey :: "QPRegistry \<Rightarrow> u32 \<Rightarrow> CPubKey option" where
  "GetControllerKey r nStakerID = map_option pubkeyController (qualified_staker r nStakerID)"

definition GetStakerWeight :: "QPRegistry \<Rightarrow> u32 \<Rightarrow> u32 option" where
  "GetStakerWeight r nStakerID =
     map_option (\<lambda>s. GetWeight s ((nIDCounter r + 1) - nStakerID)) (qualified_staker r nStakerID)"

section \<open>NFTs and aliases\<close>

definition IsNftKey :: "qp_env \<Rightarrow> string \<Rightarrow> bool" where
  "IsNftKey env sCharKey = om_count sCharKey (env_mapNftLookup env)"

definition NftIsAvailable_ID :: "qp_env \<Rightarrow> QPRegistry \<Rightarrow> u32 \<Rightarrow> bool" where
  "NftIsAvailable_ID env r nID =
     (if fork_at env (nBlockHeight r) < XST_FORKPURCHASE3
      then om_count nID (env_mapNfts env) \<and> \<not> om_count nID (mapNftOwners r)
      else om_count nID (env_mapNfts env) \<and> \<not> om_count nID (mapNftOwnerLookup r))"

text \<open>The variant that returns the character key; an empty key counts as not available.\<close>

definition NftIsAvailable_IDKey :: "qp_env \<Rightarrow> QPRegistry \<Rightarrow> u32 \<Rightarrow> bool \<times> string" where
  "NftIsAvailable_IDKey env r nID =
     (let sCharKey =
        (if fork_at env (nBlockHeight r) < XST_FORKPURCHASE3
         then (if om_count nID (env_mapNfts env) \<and> \<not> om_count nID (mapNftOwners r)
               then strCharKey (om_at QPNft_null (env_mapNfts env) nID) else '''')
         else (if om_count nID (env_mapNfts env) \<and> \<not> om_count nID (mapNftOwnerLookup r)
               then strCharKey (om_at QPNft_null (env_mapNfts env) nID) else ''''))
      in (sCharKey \<noteq> '''', sCharKey))"

definition NftIsAvailable_Key :: "qp_env \<Rightarrow> QPRegistry \<Rightarrow> string \<Rightarrow> bool \<times> u32" where
  "NftIsAvailable_Key env r sCharKey =
     (if sCharKey \<noteq> ToLowercaseSafe sCharKey then (False, 0)
      else let nID = (if om_count sCharKey (env_mapNftLookup env)
                      then om_at 0 (env_mapNftLookup env) sCharKey else 0);
               nID = (if om_count nID (mapNftOwnerLookup r) then 0 else nID)
           in (nID \<noteq> 0, nID))"

definition GetNftOwner :: "QPRegistry \<Rightarrow> u32 \<Rightarrow> u32" where
  "GetNftOwner r nID = om_at 0 (mapNftOwnerLookup r) nID"

definition GetNftIDForAlias :: "qp_env \<Rightarrow> string \<Rightarrow> bool \<times> u32" where
  "GetNftIDForAlias env sAliasIn =
     (let nID = om_at 0 (env_mapNftLookup env) (ToLowercaseSafe sAliasIn) in (nID \<noteq> 0, nID))"

definition GetNftNickForID :: "qp_env \<Rightarrow> u32 \<Rightarrow> bool \<times> string" where
  "GetNftNickForID env nID =
     (let sNick = (case map_of (env_mapNfts env) nID of None \<Rightarrow> '''' | Some n \<Rightarrow> strNickname n)
      in (sNick \<noteq> '''', sNick))"

text \<open>\<open>Some\<close> carries the lower-case key under which the alias would be registered.\<close>

definition AliasIsAvailableInternal :: "QPRegistry \<Rightarrow> string \<Rightarrow> string option" where
  "AliasIsAvailableInternal r sAliasIn =
     (if \<not> AliasIsValid sAliasIn then None
      else let sKey = ToLowercaseSafe sAliasIn
           in if om_count sKey (mapAliases r) then None else Some sKey)"

definition GetIDForAliasInternal :: "QPRegistry \<Rightarrow> string \<Rightarrow> u32 option" where
  "GetIDForAliasInternal r sAliasIn = map_option fst (map_of (mapAliases r) (ToLowercaseSafe sAliasIn))"

definition GetAliasForIDInternal :: "QPRegistry \<Rightarrow> u32 \<Rightarrow> string option" where
  "GetAliasForIDInternal r nID = map_option sAlias (GetStakerInternal r nID)"

definition GetAliasForIDInternal_string :: "QPRegistry \<Rightarrow> u32 \<Rightarrow> string" where
  "GetAliasForIDInternal_string r nID =
     (if nID = 0 then STRING_NO_ALIAS
      else case GetStakerInternal r nID of None \<Rightarrow> STRING_NO_ALIAS | Some s \<Rightarrow> sAlias s)"

definition GetStakerForAlias :: "QPRegistry \<Rightarrow> string \<Rightarrow> QPStaker option" where
  "GetStakerForAlias r sAliasIn =
     (case GetIDForAliasInternal r sAliasIn of
        None \<Rightarrow> None | Some nID \<Rightarrow> GetStakerInternal r nID)"

section \<open>Power\<close>

definition GetPicoPowerInternal :: "QPRegistry \<Rightarrow> u64" where
  "GetPicoPowerInternal r =
     (let w = ucast (PowerRound_GetWeight (powerRoundPrev r) +
                     PowerRound_GetWeight (powerRoundCurrent r)) :: u64;
          t = ucast (PowerRound_GetTotalWeight (powerRoundPrev r) +
                     PowerRound_GetTotalWeight (powerRoundCurrent r)) :: u64
      in if t = 0 then 0 else (w * TRIL) div t)"

definition GetPicoPowerPrevInternal :: "QPRegistry \<Rightarrow> u64" where
  "GetPicoPowerPrevInternal r =
     (let w = ucast (PowerRound_GetWeight (powerRoundPrev r)) :: u64;
          t = ucast (PowerRound_GetTotalWeight (powerRoundPrev r)) :: u64
      in if t = 0 then 0 else (w * TRIL) div t)"

definition GetPicoPowerCurrentInternal :: "QPRegistry \<Rightarrow> u64" where
  "GetPicoPowerCurrentInternal r =
     (let w = ucast (PowerRound_GetWeight (powerRoundCurrent r)) :: u64;
          t = ucast (PowerRound_GetTotalWeight (powerRoundCurrent r)) :: u64
      in if t = 0 then 0 else (w * TRIL) div t)"

definition HasEnoughPower :: "qp_env \<Rightarrow> QPRegistry \<Rightarrow> bool" where
  "HasEnoughPower env r \<longleftrightarrow>
     PowerRound_IsEmpty (powerRoundPrev r) \<or> GetPicoPowerInternal r \<ge> env_MinPicoPower env"

section \<open>Certified nodes, misses and the current staker\<close>

definition GetCertifiedNodes :: "QPRegistry \<Rightarrow> string list" where
  "GetCertifiedNodes r = map snd (mapCertifiedNodes r)"

definition IsCertifiedNode :: "QPRegistry \<Rightarrow> string \<Rightarrow> bool" where
  "IsCertifiedNode r sNodeAddress = list_ex (\<lambda>(k, v). v = sNodeAddress) (mapCertifiedNodes r)"

definition GetIDForCurrentSlot :: "QPRegistry \<Rightarrow> u32 option" where
  "GetIDForCurrentSlot r =
     (if QPQueue_Size (queue r) = 0 then Some 0 else GetCurrentID (queue r))"

definition GetStakersWhere :: "(QPStaker \<Rightarrow> bool) \<Rightarrow> QPRegistry \<Rightarrow> (u32, QPStaker) omap" where
  "GetStakersWhere select r =
     fold (\<lambda>(k, s) m. if select s then om_put k s m else m) (mapStakers r) []"

text \<open>The loop collects the misses of the enabled stakers other than \<open>nID\<close>.\<close>

definition GetPrevRecentBlocksMissedMax :: "QPRegistry \<Rightarrow> u32 \<Rightarrow> u32 option" where
  "GetPrevRecentBlocksMissedMax r nID =
     (let vMissed = map (GetPrevRecentBlocksMissed \<circ> snd)
            (filter (\<lambda>(k, s). k \<noteq> nID \<and> IsEnabled s) (mapStakers r));
          n = of_nat (length vMissed) :: u32;
          total = fold (\<lambda>m t. t + m) vMissed 0
      in if n = 0 then None
         else let mean = total div n;
                  sum_of_delta_sq =
                    fold (\<lambda>m acc. let delta = (if mean > m then mean - m else m - mean)
                                  in acc + delta * delta) vMissed 0;
                  stdev = uisqrt (sum_of_delta_sq div n)
              in Some (max QP_MIN_OF_BLOCKS_MISSED_MAX (mean + stdev * 8)))"

end
