(* ===== verification/QPRegistryOps.thy ===== *)
theory QPRegistryOps
  imports QPRegistry
begin

text \<open>
  The registry operations that a block's qPoS transactions trigger (\<^verbatim>\<open>src/qpos/QPRegistry.cpp\<close>):
  purchases, key changes, enabling and disabling, claims and meta data, and \<open>ApplyOps\<close>, which
  applies all operations of a block in order. A \<open>bool\<close> method is a pair of its result and the
  registry it leaves behind; a failing method may already have changed the registry, exactly
  where the source returns after a write.
\<close>

section \<open>Key reference counts\<close>

definition ActivatePubKey :: "QPRegistry \<Rightarrow> CPubKey \<Rightarrow> CBlockIndex \<Rightarrow> QPRegistry" where
  "ActivatePubKey r key pindex =
     (let r = (if om_count key (mapActive r) then r
               else r\<lparr>mapActive := om_put key 0 (mapActive r)\<rparr>);
          r = (if om_at 0 (mapActive r) key = 0
               then r\<lparr>mapBalances := om_put key 0 (mapBalances r),
                      mapLastClaim := om_put key (uint (bi_nTime pindex)) (mapLastClaim r)\<rparr>
               else r)
      in r\<lparr>mapActive := om_put key (om_at 0 (mapActive r) key + 1) (mapActive r)\<rparr>)"

definition DeactivatePubKey :: "QPRegistry \<Rightarrow> CPubKey \<Rightarrow> bool \<times> QPRegistry" where
  "DeactivatePubKey r key =
     (case map_of (mapActive r) key of
        None \<Rightarrow> (False, r)
      | Some n \<Rightarrow> if n < 1 then (False, r)
                  else (True, r\<lparr>mapActive := om_put key (n - 1) (mapActive r)\<rparr>))"

section \<open>Aliases and NFTs\<close>

text \<open>
  \<open>SetStakerAlias\<close> copies the staker before it tests the pointer; with no such staker that is
  undefined behaviour, \<open>None\<close> here.
\<close>

definition SetStakerAlias :: "QPRegistry \<Rightarrow> u32 \<Rightarrow> string \<Rightarrow> (bool \<times> QPRegistry) option" where
  "SetStakerAlias r nID sAliasIn =
     (case AliasIsAvailableInternal r sAliasIn of
        None \<Rightarrow> Some (False, r)
      | Some sKey \<Rightarrow>
          (case GetStakerInternal r nID of
             None \<Rightarrow> None
           | Some s \<Rightarrow>
               if IsDisqualified s then Some (False, r)
               else (case SetAlias s sAliasIn of
                       (False, _) \<Rightarrow> Some (False, r)
                     | (True, s') \<Rightarrow>
                         Some (True, r\<lparr>mapStakers := om_put nID s' (mapStakers r),
                           mapAliases := om_put sKey (nID, sAliasIn) (mapAliases r)\<rparr>))))"

definition SetStakerNft :: "qp_env \<Rightarrow> QPRegistry \<Rightarrow> u32 \<Rightarrow> u32 \<Rightarrow> bool \<times> QPRegistry" where
  "SetStakerNft env r nStakerID nNftID =
     (if \<not> om_count nStakerID (mapStakers r) then (False, r)
      else if \<not> om_count nNftID (env_mapNfts env) then (False, r)
      else if om_count nStakerID (mapNftOwners r) then (False, r)
      else if om_count nNftID (mapNftOwnerLookup r) then (False, r)
      else (True, r\<lparr>mapNftOwners := om_put nStakerID nNftID (mapNftOwners r),
                    mapNftOwnerLookup := om_put nNftID nStakerID (mapNftOwnerLookup r)\<rparr>))"

text \<open>\<open>mapStakers[nID].SetAlias(...)\<close>\<close>

definition SetAliasAt :: "QPRegistry \<Rightarrow> u32 \<Rightarrow> string \<Rightarrow> bool \<times> QPRegistry" where
  "SetAliasAt r nID sAliasIn =
     (let (ok, s) = SetAlias (om_at QPStaker_default (mapStakers r) nID) sAliasIn
      in (ok, r\<lparr>mapStakers := om_put nID s (mapStakers r)\<rparr>))"

section \<open>Purchases\<close>

definition IncrementID :: "QPRegistry \<Rightarrow> u32 \<times> QPRegistry" where
  "IncrementID r = (let n = nIDCounter r + 1 in (n, r\<lparr>nIDCounter := n\<rparr>))"

text \<open>The keys of the new staker; \<open>None\<close> when the number of keys or the payout is wrong.\<close>

definition PurchaseKeys :: "QPTxDetails \<Rightarrow> QPStaker \<Rightarrow> QPStaker option" where
  "PurchaseKeys deet staker =
     (let keys = deet_keys deet; nKeys = length keys
      in if deet_t deet = TX_PURCHASE1 then (if nKeys \<noteq> 1 then None else Some staker)
         else if deet_t deet = TX_PURCHASE4
         then (case (if nKeys = 4
                     then Some (staker\<lparr>pubkeyManager := keys ! 1, pubkeyDelegate := keys ! 2,
                                       pubkeyController := keys ! 3\<rparr>)
                     else if nKeys = 3
                     then Some (staker\<lparr>pubkeyManager := keys ! 1, pubkeyDelegate := keys ! 1,
                                       pubkeyController := keys ! 2\<rparr>)
                     else None) of
                 None \<Rightarrow> None
               | Some staker \<Rightarrow>
                   (case SetDelegatePayout staker (word_of_int (deet_pcm deet)) of
                      (False, _) \<Rightarrow> None | (True, s) \<Rightarrow> Some s))
         else None)"

text \<open>
  The NFT of the new staker: the one named by ID, the one whose key is the alias, or the next
  one that is free; in the first two cases the staker's alias becomes the character's nickname.
\<close>

definition PurchaseNft ::
  "qp_env \<Rightarrow> QPRegistry \<Rightarrow> QPTxDetails \<Rightarrow> u32 \<Rightarrow> string \<Rightarrow> bool \<times> QPRegistry" where
  "PurchaseNft env r deet nID sKey =
     (if deet_id deet \<noteq> 0
      then (let (avail, sCharKey) = NftIsAvailable_IDKey env r (deet_id deet)
            in if \<not> avail then (False, r)
               else if sCharKey \<noteq> sKey then (False, r)
               else (case SetStakerNft env r nID (deet_id deet) of
                       (False, r) \<Rightarrow> (False, r)
                     | (True, r) \<Rightarrow>
                         SetAliasAt r nID
                           (strNickname (om_at QPNft_null (env_mapNfts env) (deet_id deet)))))
      else if IsNftKey env sKey
      then (let (avail, nNftID) = NftIsAvailable_Key env r sKey
            in if \<not> avail then (False, r)
               else (case SetStakerNft env r nID nNftID of
                       (False, r) \<Rightarrow> (False, r)
                     | (True, r) \<Rightarrow>
                         SetAliasAt r nID
                           (strNickname (om_at QPNft_null (env_mapNfts env) nNftID))))
      else (case find (\<lambda>(i, n). \<not> om_count i (mapNftOwnerLookup r)) (env_mapNfts env) of
              None \<Rightarrow> (False, r)
            | Some (i, n) \<Rightarrow>
                (case SetStakerNft env r nID i of
                   (False, r) \<Rightarrow> (False, r)
                 | (True, r) \<Rightarrow> SetAliasAt r nID (deet_alias deet))))"

definition ApplyPurchase ::
  "qp_env \<Rightarrow> QPRegistry \<Rightarrow> QPTxDetails \<Rightarrow> CBlockIndex \<Rightarrow> bool \<times> QPRegistry" where
  "ApplyPurchase env r deet pindex =
     (case QPStaker_of_deet deet of
        None \<Rightarrow> (False, r)
      | Some staker0 \<Rightarrow>
     (case PurchaseKeys deet staker0 of
        None \<Rightarrow> (False, r)
      | Some staker \<Rightarrow>
     (case AliasIsAvailableInternal r (deet_alias deet) of
        None \<Rightarrow> (False, r)
      | Some sKey \<Rightarrow>
          let (nID, r) = IncrementID r;
              r = r\<lparr>mapStakers := om_put nID staker (mapStakers r)\<rparr>
          in (case PurchaseNft env r deet nID sKey of
                (False, r) \<Rightarrow> (False, r)
              | (True, r) \<Rightarrow>
                  let r = (if env_fTestNet env \<and> fork_at env (bi_nHeight pindex) < XST_FORKMISSFIX
                           then ActivatePubKey r (pubkeyOwner staker) pindex else r);
                      r = ActivatePubKey r (pubkeyManager staker) pindex;
                      r = ActivatePubKey r (pubkeyDelegate staker) pindex
                  in (True, r\<lparr>mapAliases :=
                              om_put sKey (nID, deet_alias deet) (mapAliases r)\<rparr>)))))"

section \<open>Key and state changes\<close>

definition put_staker :: "u32 \<Rightarrow> QPStaker \<Rightarrow> QPRegistry \<Rightarrow> QPRegistry" where
  "put_staker nID s r = r\<lparr>mapStakers := om_put nID s (mapStakers r)\<rparr>"

definition ApplySetKey ::
  "qp_env \<Rightarrow> QPRegistry \<Rightarrow> QPTxDetails \<Rightarrow> CBlockIndex \<Rightarrow> bool \<times> QPRegistry" where
  "ApplySetKey env r deet pindex =
     (case map_of (mapStakers r) (deet_id deet) of
        None \<Rightarrow> (False, r)
      | Some staker \<Rightarrow>
          if IsDisqualified staker then (False, r)
          else (case deet_keys deet of
             [keyNew] \<Rightarrow>
               (case deet_t deet of
                  TX_SETOWNER \<Rightarrow>
                    (let keyOld = pubkeyOwner staker
                     in if keyNew = keyOld then (True, r)
                        else let r = (if env_fTestNet env
                                      then let r = snd (DeactivatePubKey r keyOld)
                                           in if fork_at env (bi_nHeight pindex) < XST_FORKMISSFIX
                                              then ActivatePubKey r keyNew pindex else r
                                      else r)
                             in (True, put_staker (deet_id deet) (staker\<lparr>pubkeyOwner := keyNew\<rparr>) r))
                | TX_SETMANAGER \<Rightarrow>
                    (let keyOld = pubkeyManager staker
                     in if keyNew = keyOld
                        then (True, put_staker (deet_id deet) (staker\<lparr>pubkeyManager := keyNew\<rparr>) r)
                        else (case DeactivatePubKey r keyOld of
                                (False, r) \<Rightarrow> (False, r)
                              | (True, r) \<Rightarrow>
                                  (True, put_staker (deet_id deet) (staker\<lparr>pubkeyManager := keyNew\<rparr>)
                                           (ActivatePubKey r keyNew pindex))))
                | TX_SETDELEGATE \<Rightarrow>
                    (let keyOld = pubkeyDelegate staker;
                         (ok, staker) = SetDelegatePayout staker (word_of_int (deet_pcm deet));
                         r = put_staker (deet_id deet) staker r
                     in if \<not> ok then (False, r)
                        else if keyNew = keyOld then (True, r)
                        else (case DeactivatePubKey r keyOld of
                                (False, r) \<Rightarrow> (False, r)
                              | (True, r) \<Rightarrow>
                                  (True, put_staker (deet_id deet) (staker\<lparr>pubkeyDelegate := keyNew\<rparr>)
                                           (ActivatePubKey r keyNew pindex))))
                | TX_SETCONTROLLER \<Rightarrow>
                    (True, put_staker (deet_id deet) (staker\<lparr>pubkeyController := keyNew\<rparr>) r)
                | _ \<Rightarrow> (False, r))
           | _ \<Rightarrow> (False, r)))"

definition ApplySetState ::
  "qp_env \<Rightarrow> QPRegistry \<Rightarrow> QPTxDetails \<Rightarrow> int \<Rightarrow> bool \<times> QPRegistry" where
  "ApplySetState env r deet nHeight =
     (case map_of (mapStakers r) (deet_id deet) of
        None \<Rightarrow> (False, r)
      | Some staker \<Rightarrow>
          if IsDisqualified staker then (False, r)
          else if deet_t deet = TX_ENABLE
          then (if CanBeEnabled (env_fTestNet env) staker (nBlockHeight r)
                then let (ok, s) = Enable staker in (ok, put_staker (deet_id deet) s r)
                else (True, r))
          else if deet_t deet = TX_DISABLE
          then (True, put_staker (deet_id deet) (Disable staker nHeight) r)
          else (False, r))"

section \<open>Claims and meta data\<close>

definition ApplyClaim :: "qp_env \<Rightarrow> QPRegistry \<Rightarrow> QPTxDetails \<Rightarrow> int \<Rightarrow> bool \<times> QPRegistry" where
  "ApplyClaim env r deet nBlockTime =
     (if deet_t deet \<noteq> TX_CLAIM then (False, r)
      else (case deet_keys deet of
              [key] \<Rightarrow>
                if \<not> CanClaimInternal env r key (deet_value deet) nBlockTime then (False, r)
                else (True, r\<lparr>mapLastClaim := om_put key nBlockTime (mapLastClaim r),
                              mapBalances := om_put key
                                (om_at 0 (mapBalances r) key - deet_value deet) (mapBalances r)\<rparr>)
            | _ \<Rightarrow> (False, r)))"

definition ApplySetMeta :: "QPRegistry \<Rightarrow> QPTxDetails \<Rightarrow> bool \<times> QPRegistry" where
  "ApplySetMeta r deet =
     (if deet_t deet \<noteq> TX_SETMETA then (False, r)
      else (case map_of (mapStakers r) (deet_id deet) of
              None \<Rightarrow> (False, r)
            | Some staker \<Rightarrow>
                if IsDisqualified staker then (False, r)
                else (True, put_staker (deet_id deet)
                        (SetMeta staker (deet_meta_key deet) (deet_meta_value deet)) r)))"

section \<open>All operations of a block\<close>

text \<open>One operation, and its error code when it fails.\<close>

definition ApplyOp ::
  "qp_env \<Rightarrow> CBlockIndex \<Rightarrow> QPTxDetails \<Rightarrow> QPRegistry \<Rightarrow> int \<times> QPRegistry" where
  "ApplyOp env pindex deet r =
     (let fail = (\<lambda>n (ok, r'). (if ok then 0 else n, r'))
      in case deet_t deet of
           TX_PURCHASE1 \<Rightarrow> fail 1 (ApplyPurchase env r deet pindex)
         | TX_PURCHASE4 \<Rightarrow> fail 1 (ApplyPurchase env r deet pindex)
         | TX_SETOWNER \<Rightarrow> fail 2 (ApplySetKey env r deet pindex)
         | TX_SETMANAGER \<Rightarrow> fail 2 (ApplySetKey env r deet pindex)
         | TX_SETDELEGATE \<Rightarrow> fail 2 (ApplySetKey env r deet pindex)
         | TX_SETCONTROLLER \<Rightarrow> fail 2 (ApplySetKey env r deet pindex)
         | TX_ENABLE \<Rightarrow> fail 3 (ApplySetState env r deet (bi_nHeight pindex))
         | TX_DISABLE \<Rightarrow> fail 3 (ApplySetState env r deet (bi_nHeight pindex))
         | TX_CLAIM \<Rightarrow> fail 4 (ApplyClaim env r deet (uint (bi_nTime pindex)))
         | TX_SETMETA \<Rightarrow> fail 5 (ApplySetMeta r deet)
         | _ \<Rightarrow> (6, r))"

fun ApplyOps_loop ::
  "qp_env \<Rightarrow> CBlockIndex \<Rightarrow> QPTxDetails list \<Rightarrow> QPRegistry \<Rightarrow> int \<times> QPRegistry" where
  "ApplyOps_loop env pindex [] r = (0, r)"
| "ApplyOps_loop env pindex (deet # deets) r =
     (case ApplyOp env pindex deet r of
        (code, r') \<Rightarrow> if code \<noteq> 0 then (code, r') else ApplyOps_loop env pindex deets r')"

definition ApplyOps :: "qp_env \<Rightarrow> QPRegistry \<Rightarrow> CBlockIndex \<Rightarrow> int \<times> QPRegistry" where
  "ApplyOps env r pindex = ApplyOps_loop env pindex (bi_vDeets pindex) r"

end
