(* ===== verification/QPTxCheck.thy ===== *)
theory QPTxCheck
  imports Tx QPRegistryOps
begin

text \<open>
  The checks of \<^verbatim>\<open>src/blockchain/main.cpp\<close> that decide whether the qPoS operations of a transaction may
  reach the registry: who signed (\<open>GetSignatory\<close>, \<open>ValidateSignatory\<close>), one check per kind of operation,
  and \<open>CheckQPoS\<close>, which runs them for all operations of a transaction.

  A check that returns false is \<open>Reject\<close> with what it adds to the denial-of-service score;
  \<open>Abort\<close> is an exception or an undefined read. The record \<open>chk_env\<close> holds what the checks read
  elsewhere: the globals, the height of the best block index, for the transactions on disk
  the hash of their block, for blocks of the index whether they are in the main chain (\<open>Some None\<close> is a null pointer),
  and the indeterminate contents of local structures.
\<close>

datatype 'a verdict = Accept 'a | Reject int | Abort

record chk_env =
  ce_tx :: tx_env
  ce_qp :: qp_env
  ce_nHeightBest :: int
  ce_GetTransaction :: "uint256 \<Rightarrow> uint256 option"
  ce_mapBlockIndex :: "uint256 \<Rightarrow> bool option option"
  ce_purchase :: qpos_purchase
  ce_setkey :: qpos_setkey
  ce_setstate :: u32
  ce_setmeta :: qpos_setmeta
  ce_claim :: qpos_claim

abbreviation ce_fork :: "chk_env \<Rightarrow> int \<Rightarrow> int" where
  "ce_fork env h \<equiv> GetFork (te_fTestNet (ce_tx env)) h"

abbreviation ce_nBestHeight :: "chk_env \<Rightarrow> int" where
  "ce_nBestHeight env \<equiv> te_nBestHeight (ce_tx env)"

definition QP_BLOCKS_PER_DAY :: int where "QP_BLOCKS_PER_DAY = 17280"
definition QPKEY_OMC :: u32 where "QPKEY_OMC = QPKEY_OM OR QPKEY_CONTROLLER"

section \<open>Signatories\<close>

definition input_in_main_chain :: "chk_env \<Rightarrow> uint256 \<Rightarrow> bool" where
  "input_in_main_chain env hashTx =
     (case ce_GetTransaction env hashTx of
        None \<Rightarrow> False
      | Some hashBlk \<Rightarrow>
          if hashBlk = 0 then False
          else case ce_mapBlockIndex env hashBlk of
                 None \<Rightarrow> False
               | Some None \<Rightarrow> False
               | Some (Some fInMainChain) \<Rightarrow> fInMainChain)"

definition GetSignatory :: "chk_env \<Rightarrow> CTransaction \<Rightarrow> MapPrevTx \<Rightarrow> nat \<Rightarrow> CPubKey verdict" where
  "GetSignatory env tx mapInputs idx =
     (if idx \<ge> length (vin tx) then Reject 0
      else let input = vin tx ! idx
           in if ce_fork env (ce_nHeightBest env) \<ge> XST_FORKQPOSB \<and>
                 \<not> input_in_main_chain env (op_hash (prevout input))
              then Reject 0
              else case GetOutputFor input mapInputs of
                     None \<Rightarrow> Abort
                   | Some prev \<Rightarrow>
                       (case Solver (scriptPubKey prev) [] of
                          (ok, typetxo, vSolutions) \<Rightarrow>
                            if \<not> ok then Reject 0
                            else if typetxo = TX_PUBKEY
                            then (if length (hd vSolutions) = 33 then Accept (hd vSolutions) else Reject 0)
                            else if typetxo = TX_PUBKEYHASH \<or> typetxo = TX_CLAIM
                            then (if length (scriptSig input) \<ge> 33
                                  then Accept (drop (length (scriptSig input) - 33) (scriptSig input))
                                  else Reject 0)
                            else Reject 0))"

text \<open>The index that the variants of \<open>ValidateSignatory\<close> take is not used.\<close>

definition ValidateSignatory_keys ::
  "chk_env \<Rightarrow> CTransaction \<Rightarrow> MapPrevTx \<Rightarrow> nat \<Rightarrow> CPubKey list \<Rightarrow> bool verdict" where
  "ValidateSignatory_keys env tx mapInputs idx vKeys =
     (case GetSignatory env tx mapInputs 0 of
        Abort \<Rightarrow> Abort
      | Reject _ \<Rightarrow> Accept False
      | Accept keySignatory \<Rightarrow> Accept (keySignatory \<noteq> [] \<and> keySignatory \<in> set vKeys))"

definition ValidateSignatory_key ::
  "chk_env \<Rightarrow> CTransaction \<Rightarrow> MapPrevTx \<Rightarrow> nat \<Rightarrow> CPubKey \<Rightarrow> bool verdict" where
  "ValidateSignatory_key env tx mapInputs idx key =
     (case GetSignatory env tx mapInputs 0 of
        Abort \<Rightarrow> Abort
      | Reject _ \<Rightarrow> Accept False
      | Accept keySignatory \<Rightarrow> Accept (keySignatory \<noteq> [] \<and> keySignatory = key))"

text \<open>The keys of the wanted types, or \<open>None\<close> when the staker is not qualified.\<close>

definition authority_keys :: "QPRegistry \<Rightarrow> u32 \<Rightarrow> u32 \<Rightarrow> CPubKey list option" where
  "authority_keys r nStakerID fKeyTypes =
     (let get = (\<lambda>t f vKeys. if fKeyTypes AND t \<noteq> 0 then map_option (\<lambda>k. vKeys @ [k]) (f r nStakerID) else Some vKeys)
      in do {
           vKeys \<leftarrow> get QPKEY_OWNER GetOwnerKey [];
           vKeys \<leftarrow> get QPKEY_MANAGER GetManagerKey vKeys;
           vKeys \<leftarrow> get QPKEY_DELEGATE GetDelegateKey vKeys;
           get QPKEY_CONTROLLER GetControllerKey vKeys
         })"

definition ValidateSignatory ::
  "chk_env \<Rightarrow> QPRegistry \<Rightarrow> CTransaction \<Rightarrow> MapPrevTx \<Rightarrow> nat \<Rightarrow> u32 \<Rightarrow> u32 \<Rightarrow> bool verdict" where
  "ValidateSignatory env r tx mapInputs idx nStakerID fKeyTypes =
     (case authority_keys r nStakerID fKeyTypes of
        None \<Rightarrow> Accept False
      | Some vKeys \<Rightarrow> ValidateSignatory_keys env tx mapInputs idx vKeys)"

section \<open>Purchases\<close>

text \<open>One purchase: the lower-case alias it registers and the purchase.\<close>

definition CheckPurchase1 ::
  "chk_env \<Rightarrow> QPRegistry \<Rightarrow> int \<Rightarrow> txnouttype \<Rightarrow> qpos_purchase \<Rightarrow> (string \<times> qpos_purchase) verdict" where
  "CheckPurchase1 env r nStakerPrice typetxo p =
     (let qp = ce_qp env;
          nick = (\<lambda>nft. strNickname (om_at QPNft_null (env_mapNfts qp) nft))
      in if typetxo = TX_PURCHASE1 \<and> length (pu_keys p) \<noteq> 1 then Reject 100
         else if typetxo \<noteq> TX_PURCHASE1 \<and> (length (pu_keys p) < 3 \<or> length (pu_keys p) > 4) then Reject 100
         else if pu_value p < nStakerPrice then Reject 100
         else if pu_value p > nStakerPrice * 2 then Reject 20
         else if pu_pcm p > 100000 then Reject 100
         else if pu_nft p > 0
         then (case NftIsAvailable_IDKey qp r (pu_nft p) of
                 (avail, sLC) \<Rightarrow>
                   if \<not> avail then Reject 100
                   else Accept (sLC, p\<lparr>pu_alias := nick (pu_nft p)\<rparr>))
         else (case AliasIsAvailableInternal r (pu_alias p) of
                 None \<Rightarrow> Reject 100
               | Some sLC \<Rightarrow>
                   (case GetNftIDForAlias qp sLC of
                      (found, nft) \<Rightarrow>
                        let p = p\<lparr>pu_nft := nft\<rparr>
                        in if \<not> found then Accept (sLC, p)
                           else case NftIsAvailable_IDKey qp r nft of
                                  (avail, sCharKey) \<Rightarrow>
                                    if \<not> avail then Reject 100
                                    else if sCharKey \<noteq> sLC then Reject 0
                                    else Accept (sLC, p\<lparr>pu_alias := nick nft\<rparr>))))"

fun CheckPurchases_loop ::
  "chk_env \<Rightarrow> QPRegistry \<Rightarrow> int \<Rightarrow> CTxOut list \<Rightarrow> (string, qpos_purchase) omap \<Rightarrow>
   (string, qpos_purchase) omap verdict" where
  "CheckPurchases_loop env r nStakerPrice [] mapRet = Accept mapRet"
| "CheckPurchases_loop env r nStakerPrice (txout # os) mapRet =
     (case Solver (scriptPubKey txout) [] of
        (ok, typetxo, vSolutions) \<Rightarrow>
          if \<not> ok then Reject 0
          else if typetxo \<noteq> TX_PURCHASE1 \<and> typetxo \<noteq> TX_PURCHASE4
          then CheckPurchases_loop env r nStakerPrice os mapRet
          else if ce_fork env (ce_nBestHeight env + 1) < XST_FORKPURCHASE then Reject 100
          else if nValue txout \<noteq> 0 then Reject 100
          else if vSolutions = [] then Reject 100
          else case ExtractPurchase (env_mapNfts (ce_qp env)) (env_mapNftLookup (ce_qp env)) (hd vSolutions) (ce_purchase env) of
                 None \<Rightarrow> Abort
               | Some p \<Rightarrow>
                   (case CheckPurchase1 env r nStakerPrice typetxo p of
                      Abort \<Rightarrow> Abort
                    | Reject n \<Rightarrow> Reject n
                    | Accept (sLC, p) \<Rightarrow>
                        if om_count sLC mapRet then Reject 100
                        else CheckPurchases_loop env r nStakerPrice os (om_put sLC p mapRet)))"

definition CheckPurchases ::
  "chk_env \<Rightarrow> QPRegistry \<Rightarrow> int \<Rightarrow> CTransaction \<Rightarrow> (string, qpos_purchase) omap verdict" where
  "CheckPurchases env r nStakerPrice tx = CheckPurchases_loop env r nStakerPrice (vout tx) []"

section \<open>Key changes\<close>

definition is_setkey_type :: "txnouttype \<Rightarrow> bool" where
  "is_setkey_type t \<longleftrightarrow> t \<in> {TX_SETOWNER, TX_SETMANAGER, TX_SETDELEGATE, TX_SETCONTROLLER}"

text \<open>The loop; the accumulators are the types of the keys changed so far, the staker and the changes.\<close>

fun CheckSetKeys_loop ::
  "chk_env \<Rightarrow> QPRegistry \<Rightarrow> nat \<Rightarrow> CTxOut list \<Rightarrow> u32 \<Rightarrow> u32 \<Rightarrow> qpos_setkey list \<Rightarrow>
   (u32 \<times> u32 \<times> qpos_setkey list) verdict" where
  "CheckSetKeys_loop env r nVin [] fKeyTypes nStakerID vRet = Accept (fKeyTypes, nStakerID, vRet)"
| "CheckSetKeys_loop env r nVin (txout # os) fKeyTypes nStakerID vRet =
     (case Solver (scriptPubKey txout) [] of
        (ok, typetxo, vSolutions) \<Rightarrow>
          if \<not> ok then Reject 0
          else if \<not> is_setkey_type typetxo then CheckSetKeys_loop env r nVin os fKeyTypes nStakerID vRet
          else if ce_fork env (ce_nBestHeight env) < XST_FORKPURCHASE then Reject 100
          else if nValue txout \<noteq> 0 then Reject 100
          else if nVin \<noteq> 1 then Reject 100
          else let fThisKeyType = the (mapQPoSKeyTypes typetxo)
               in if fKeyTypes AND fThisKeyType \<noteq> 0 then Reject 100
                  else if fThisKeyType \<noteq> QPKEY_OWNER \<and> QPKEY_OWNER AND fKeyTypes \<noteq> 0 then Reject 100
                  else if fThisKeyType \<noteq> QPKEY_MANAGER \<and> fThisKeyType \<noteq> QPKEY_OWNER \<and> QPKEY_MANAGER AND fKeyTypes \<noteq> 0
                  then Reject 100
                  else case ExtractSetKey (hd vSolutions) ((ce_setkey env)\<lparr>sk_keytype := fThisKeyType\<rparr>) of
                         None \<Rightarrow> Abort
                       | Some setkey \<Rightarrow>
                           if fThisKeyType = QPKEY_DELEGATE \<and> sk_pcm setkey > 100000 then Reject 100
                           else if nStakerID = 0 \<and> \<not> IsQualifiedStaker r (sk_id setkey) then Reject 100
                           else if nStakerID \<noteq> 0 \<and> sk_id setkey \<noteq> nStakerID then Reject 100
                           else CheckSetKeys_loop env r nVin os (fKeyTypes OR fThisKeyType) (sk_id setkey) (vRet @ [setkey]))"

definition CheckSetKeys ::
  "chk_env \<Rightarrow> QPRegistry \<Rightarrow> CTransaction \<Rightarrow> MapPrevTx \<Rightarrow> qpos_setkey list verdict" where
  "CheckSetKeys env r tx mapInputs =
     (case CheckSetKeys_loop env r (length (vin tx)) (vout tx) 0 0 [] of
        Abort \<Rightarrow> Abort
      | Reject n \<Rightarrow> Reject n
      | Accept (fKeyTypes, nStakerID, vRet) \<Rightarrow>
          if fKeyTypes = 0 then Reject 0
          else case ValidateSignatory env r tx mapInputs 0 nStakerID
                      (if QPKEY_OWNER AND fKeyTypes \<noteq> 0 then QPKEY_OWNER else QPKEY_OM) of
                 Accept True \<Rightarrow> Accept vRet
               | Abort \<Rightarrow> Abort
               | _ \<Rightarrow> Reject 100)"

section \<open>State changes\<close>

text \<open>The vector of solutions is shared by the outputs; the result is the identifier and the state.\<close>

fun CheckSetState_loop ::
  "chk_env \<Rightarrow> QPRegistry \<Rightarrow> CTransaction \<Rightarrow> MapPrevTx \<Rightarrow> CTxOut list \<Rightarrow> valtype list \<Rightarrow> u32 \<Rightarrow> bool \<Rightarrow>
   (u32 \<times> bool) verdict" where
  "CheckSetState_loop env r tx mapInputs [] sols i enable = Accept (i, enable)"
| "CheckSetState_loop env r tx mapInputs (txout # os) sols i enable =
     (case Solver (scriptPubKey txout) sols of
        (ok, typetxo, vSolutions) \<Rightarrow>
          if \<not> ok then Reject 0
          else if typetxo \<noteq> TX_ENABLE \<and> typetxo \<noteq> TX_DISABLE
          then CheckSetState_loop env r tx mapInputs os vSolutions i enable
          else if ce_fork env (ce_nBestHeight env) < XST_FORKPURCHASE then Reject 100
          else if nValue txout \<noteq> 0 then Reject 100
          else if i \<noteq> 0 then Reject 100
          else if length (vin tx) \<noteq> 1 then Reject 100
          else case ExtractSetState (hd vSolutions) i of
                 None \<Rightarrow> Abort
               | Some i \<Rightarrow>
                   if \<not> IsQualifiedStaker r i then Reject 100
                   else case ValidateSignatory env r tx mapInputs 0 i QPKEY_OMC of
                          Accept True \<Rightarrow>
                            CheckSetState_loop env r tx mapInputs os vSolutions i (typetxo = TX_ENABLE)
                        | Abort \<Rightarrow> Abort
                        | _ \<Rightarrow> Reject 100)"

definition CheckSetState ::
  "chk_env \<Rightarrow> QPRegistry \<Rightarrow> CTransaction \<Rightarrow> MapPrevTx \<Rightarrow> (u32 \<times> bool) verdict" where
  "CheckSetState env r tx mapInputs = CheckSetState_loop env r tx mapInputs (vout tx) [] 0 False"

section \<open>Claims\<close>

text \<open>Whether a claim was found, and the solutions of the last output.\<close>

fun CheckClaim_loop ::
  "nat \<Rightarrow> nat \<Rightarrow> CTxOut list \<Rightarrow> valtype list \<Rightarrow> bool \<Rightarrow> (bool \<times> valtype list) verdict" where
  "CheckClaim_loop nVin nVout [] sols fFoundClaim = Accept (fFoundClaim, sols)"
| "CheckClaim_loop nVin nVout (txout # os) sols fFoundClaim =
     (case Solver (scriptPubKey txout) sols of
        (ok, typetxo, vSolutions) \<Rightarrow>
          if \<not> ok then Reject 0
          else if typetxo = TX_CLAIM \<and> nVin \<noteq> 1 then Reject 100
          else if typetxo = TX_CLAIM \<and> nVout \<noteq> 1 then Reject 100
          else CheckClaim_loop nVin nVout os vSolutions (fFoundClaim \<or> typetxo = TX_CLAIM))"

text \<open>The verdict and the claim that is left in the argument, also when the verdict is negative.\<close>

definition CheckClaim ::
  "chk_env \<Rightarrow> QPRegistry \<Rightarrow> CTransaction \<Rightarrow> MapPrevTx \<Rightarrow> qpos_claim \<Rightarrow> unit verdict \<times> qpos_claim" where
  "CheckClaim env r tx mapInputs claim =
     (let claim = claim\<lparr>cl_value := 0\<rparr>
      in case CheckClaim_loop (length (vin tx)) (length (vout tx)) (vout tx) [] False of
           Abort \<Rightarrow> (Abort, claim)
         | Reject n \<Rightarrow> (Reject n, claim)
         | Accept (fFoundClaim, vSolutions) \<Rightarrow>
             if \<not> fFoundClaim then (Accept (), claim)
             else if \<not> te_fTestNet (ce_tx env) \<and> ce_fork env (ce_nBestHeight env - QP_BLOCKS_PER_DAY) < XST_FORKQPOS
             then (Reject 100, claim)
             else case ExtractClaim (hd vSolutions) claim of
                    None \<Rightarrow> (Abort, claim)
                  | Some claim \<Rightarrow>
                      if cl_value claim < MIN_TXOUT_AMOUNT then (Reject 100, claim)
                      else if \<not> CanClaimInternal (ce_qp env) r (cl_key claim) (cl_value claim) 0
                      then (Reject 100, claim)
                      else case ValidateSignatory_key env tx mapInputs 0 (cl_key claim) of
                             Accept True \<Rightarrow> (Accept (), claim)
                           | Abort \<Rightarrow> (Abort, claim)
                           | _ \<Rightarrow> (Reject 100, claim))"

section \<open>Meta data\<close>

fun CheckSetMetas_loop ::
  "chk_env \<Rightarrow> QPRegistry \<Rightarrow> CTransaction \<Rightarrow> MapPrevTx \<Rightarrow> CTxOut list \<Rightarrow> u32 \<Rightarrow> string list \<Rightarrow> bool \<Rightarrow>
   qpos_setmeta list \<Rightarrow> qpos_setmeta list verdict" where
  "CheckSetMetas_loop env r tx mapInputs [] nStakerID mapMetas fCheckedSignatory vRet = Accept vRet"
| "CheckSetMetas_loop env r tx mapInputs (txout # os) nStakerID mapMetas fCheckedSignatory vRet =
     (case Solver (scriptPubKey txout) [] of
        (ok, typetxo, vSolutions) \<Rightarrow>
          if \<not> ok then Reject 0
          else if typetxo \<noteq> TX_SETMETA
          then CheckSetMetas_loop env r tx mapInputs os nStakerID mapMetas fCheckedSignatory vRet
          else if ce_fork env (ce_nBestHeight env) < XST_FORKPURCHASE then Reject 100
          else if nValue txout \<noteq> 0 then Reject 100
          else if length (vin tx) \<noteq> 1 then Reject 100
          else case ExtractSetMeta (hd vSolutions) (ce_setmeta env) of
                 None \<Rightarrow> Abort
               | Some sm \<Rightarrow>
                   if nStakerID = 0 \<and> \<not> IsQualifiedStaker r (sm_id sm) then Reject 100
                   else if nStakerID \<noteq> 0 \<and> sm_id sm \<noteq> nStakerID then Reject 100
                   else let fAuthorities = CheckMetaKey (sm_key sm)
                        in if fAuthorities = QPKEY_NONE then Reject 100
                           else if \<not> CheckMetaValue (sm_value sm) then Reject 100
                           else if sm_key sm \<in> set mapMetas then Reject 100
                           else let next = (\<lambda>_. CheckSetMetas_loop env r tx mapInputs os (sm_id sm)
                                                  (sm_key sm # mapMetas) True (vRet @ [sm]))
                                in if fCheckedSignatory then next ()
                                   else case ValidateSignatory env r tx mapInputs 0 (sm_id sm) fAuthorities of
                                          Accept True \<Rightarrow> next ()
                                        | Abort \<Rightarrow> Abort
                                        | _ \<Rightarrow> Reject 100)"

definition CheckSetMetas ::
  "chk_env \<Rightarrow> QPRegistry \<Rightarrow> CTransaction \<Rightarrow> MapPrevTx \<Rightarrow> qpos_setmeta list verdict" where
  "CheckSetMetas env r tx mapInputs = CheckSetMetas_loop env r tx mapInputs (vout tx) 0 [] False []"

section \<open>All operations of a transaction\<close>

text \<open>
  What \<open>CheckQPoS\<close> accumulates over the transactions of a block, and the flags of one call. The map of
  meta-data changes that is passed along is never filled.
\<close>

record qp_checked =
  ck_purchases :: "(string, qpos_purchase) omap"
  ck_setkeys :: "(u32, qpos_setkey list) omap"
  ck_claims :: "(CPubKey, qpos_claim list) omap"
  ck_deets :: "QPTxDetails list"

record qp_flags =
  fl_Purchases :: bool
  fl_SetKeys :: bool
  fl_SetState :: bool
  fl_Claim :: bool
  fl_SetMetas :: bool

definition no_flags :: qp_flags where
  "no_flags = \<lparr>fl_Purchases = False, fl_SetKeys = False, fl_SetState = False, fl_Claim = False, fl_SetMetas = False\<rparr>"

definition check_deet_purchase ::
  "chk_env \<Rightarrow> QPRegistry \<Rightarrow> CTransaction \<Rightarrow> CBlockIndex \<Rightarrow> qp_flags \<times> qp_checked \<Rightarrow>
   (qp_flags \<times> qp_checked) verdict" where
  "check_deet_purchase env r tx pindexPrev = (\<lambda>(fl, ck).
     if fl_Purchases fl then Accept (fl, ck)
     else let nStakerPrice = GetStakerPrice (te_fTestNet (ce_tx env)) (GetNumberQualifiedInternal r) (bi_nMoneySupply pindexPrev)
                (ce_fork env (bi_nHeight pindexPrev + 1)) False
          in case CheckPurchases env r nStakerPrice tx of
               Abort \<Rightarrow> Abort
             | Reject n \<Rightarrow> Reject n
             | Accept mapTxPrchs \<Rightarrow>
                 if list_ex (\<lambda>(k, p). om_count k (ck_purchases ck)) mapTxPrchs then Reject 100
                 else Accept (fl\<lparr>fl_Purchases := True\<rparr>,
                        ck\<lparr>ck_purchases := fold (\<lambda>(k, p). om_put k p) mapTxPrchs (ck_purchases ck)\<rparr>))"

definition check_deet_setkey ::
  "chk_env \<Rightarrow> QPRegistry \<Rightarrow> CTransaction \<Rightarrow> MapPrevTx \<Rightarrow> qp_flags \<times> qp_checked \<Rightarrow> (qp_flags \<times> qp_checked) verdict" where
  "check_deet_setkey env r tx mapInputs = (\<lambda>(fl, ck).
     if fl_SetKeys fl then Accept (fl, ck)
     else case CheckSetKeys env r tx mapInputs of
            Abort \<Rightarrow> Abort
          | Reject n \<Rightarrow> Reject n
          | Accept vSetKeys \<Rightarrow>
              if vSetKeys = [] then Reject 100
              else if om_count (sk_id (hd vSetKeys)) (ck_setkeys ck) then Reject 100
              else Accept (fl\<lparr>fl_SetKeys := True\<rparr>, ck\<lparr>ck_setkeys := om_put (sk_id (hd vSetKeys)) vSetKeys (ck_setkeys ck)\<rparr>))"

definition check_deet_setstate ::
  "chk_env \<Rightarrow> QPRegistry \<Rightarrow> CTransaction \<Rightarrow> MapPrevTx \<Rightarrow> qp_flags \<times> qp_checked \<Rightarrow> (qp_flags \<times> qp_checked) verdict" where
  "check_deet_setstate env r tx mapInputs = (\<lambda>(fl, ck).
     if fl_SetState fl then Reject 100
     else case CheckSetState env r tx mapInputs of
            Abort \<Rightarrow> Abort
          | Reject n \<Rightarrow> Reject n
          | Accept _ \<Rightarrow> Accept (fl\<lparr>fl_SetState := True\<rparr>, ck))"

definition check_deet_claim ::
  "chk_env \<Rightarrow> QPRegistry \<Rightarrow> CTransaction \<Rightarrow> MapPrevTx \<Rightarrow> u32 \<Rightarrow> qp_flags \<times> qp_checked \<Rightarrow>
   (qp_flags \<times> qp_checked) verdict" where
  "check_deet_claim env r tx mapInputs nTime = (\<lambda>(fl, ck).
     if fl_Claim fl then Reject 100
     else case CheckClaim env r tx mapInputs (ce_claim env) of
            (Abort, _) \<Rightarrow> Abort
          | (Reject n, _) \<Rightarrow> Reject (n + 100)
          | (Accept _, claim) \<Rightarrow>
              let vPrev = om_at [] (ck_claims ck) (cl_key claim);
                  nTotal = fold (\<lambda>c n. n + cl_value c) vPrev (cl_value claim)
              in if om_count (cl_key claim) (ck_claims ck) \<and>
                    \<not> CanClaimInternal (ce_qp env) r (cl_key claim) nTotal (uint nTime)
                 then Reject 100
                 else Accept (fl\<lparr>fl_Claim := True\<rparr>, ck\<lparr>ck_claims := om_put (cl_key claim) (vPrev @ [claim]) (ck_claims ck)\<rparr>))"

definition check_deet_setmeta ::
  "chk_env \<Rightarrow> QPRegistry \<Rightarrow> CTransaction \<Rightarrow> MapPrevTx \<Rightarrow> qp_flags \<times> qp_checked \<Rightarrow> (qp_flags \<times> qp_checked) verdict" where
  "check_deet_setmeta env r tx mapInputs = (\<lambda>(fl, ck).
     if fl_SetMetas fl then Accept (fl, ck)
     else case CheckSetMetas env r tx mapInputs of
            Abort \<Rightarrow> Abort
          | Reject n \<Rightarrow> Reject n
          | Accept vSetMetas \<Rightarrow>
              if vSetMetas = [] then Reject 100 else Accept (fl\<lparr>fl_SetMetas := True\<rparr>, ck))"

definition check_deet ::
  "chk_env \<Rightarrow> QPRegistry \<Rightarrow> CTransaction \<Rightarrow> MapPrevTx \<Rightarrow> u32 \<Rightarrow> CBlockIndex \<Rightarrow> QPTxDetails \<Rightarrow>
   qp_flags \<times> qp_checked \<Rightarrow> (qp_flags \<times> qp_checked) verdict" where
  "check_deet env r tx mapInputs nTime pindexPrev deet st =
     (case (if deet_t deet \<in> {TX_PURCHASE1, TX_PURCHASE4} then check_deet_purchase env r tx pindexPrev st
            else if is_setkey_type (deet_t deet) then check_deet_setkey env r tx mapInputs st
            else if deet_t deet \<in> {TX_ENABLE, TX_DISABLE} then check_deet_setstate env r tx mapInputs st
            else if deet_t deet = TX_CLAIM then check_deet_claim env r tx mapInputs nTime st
            else if deet_t deet = TX_SETMETA then check_deet_setmeta env r tx mapInputs st
            else Reject 100) of
        Accept (fl, ck) \<Rightarrow> Accept (fl, ck\<lparr>ck_deets := ck_deets ck @ [deet]\<rparr>)
      | v \<Rightarrow> v)"

fun CheckQPoS_loop ::
  "chk_env \<Rightarrow> QPRegistry \<Rightarrow> CTransaction \<Rightarrow> MapPrevTx \<Rightarrow> u32 \<Rightarrow> CBlockIndex \<Rightarrow> QPTxDetails list \<Rightarrow>
   qp_flags \<times> qp_checked \<Rightarrow> (qp_flags \<times> qp_checked) verdict" where
  "CheckQPoS_loop env r tx mapInputs nTime pindexPrev [] st = Accept st"
| "CheckQPoS_loop env r tx mapInputs nTime pindexPrev (deet # ds) st =
     (case check_deet env r tx mapInputs nTime pindexPrev deet st of
        Accept st \<Rightarrow> CheckQPoS_loop env r tx mapInputs nTime pindexPrev ds st
      | v \<Rightarrow> v)"

definition CheckQPoS ::
  "chk_env \<Rightarrow> QPRegistry \<Rightarrow> CTransaction \<Rightarrow> MapPrevTx \<Rightarrow> u32 \<Rightarrow> QPTxDetails list \<Rightarrow> CBlockIndex \<Rightarrow>
   qp_checked \<Rightarrow> qp_checked verdict" where
  "CheckQPoS env r tx mapInputs nTime vDeets pindexPrev ck =
     (case CheckQPoS_loop env r tx mapInputs nTime pindexPrev vDeets (no_flags, ck) of
        Accept (fl, ck) \<Rightarrow> Accept ck | Reject n \<Rightarrow> Reject n | Abort \<Rightarrow> Abort)"

section \<open>Gathering operations and values\<close>

text \<open>The details of one output, if it is a qPoS operation; the outer option is an undefined read.\<close>

definition deets_of_output ::
  "chk_env \<Rightarrow> uint256 \<Rightarrow> uint256 \<Rightarrow> nat \<Rightarrow> txnouttype \<Rightarrow> valtype \<Rightarrow> QPTxDetails option option" where
  "deets_of_output env hashBlk hashTx nOut t vch =
     (let deets = QPTxDetails_SetNull\<lparr>deet_t := t, deet_hash := hashBlk, deet_txid := hashTx, deet_n := int nOut\<rparr>
      in if t \<in> {TX_PURCHASE1, TX_PURCHASE4}
         then map_option Some (ExtractPurchase_deets (env_mapNfts (ce_qp env)) (env_mapNftLookup (ce_qp env)) (ce_purchase env) vch deets)
         else if is_setkey_type t then map_option Some (ExtractSetKey_deets (ce_setkey env) vch deets)
         else if t \<in> {TX_ENABLE, TX_DISABLE} then map_option Some (ExtractSetState_deets (ce_setstate env) vch deets)
         else if t = TX_CLAIM then map_option Some (ExtractClaim_deets (ce_claim env) vch deets)
         else if t = TX_SETMETA then map_option Some (ExtractSetMeta_deets (ce_setmeta env) vch deets)
         else Some None)"

definition needs_inputs :: "txnouttype \<Rightarrow> bool" where
  "needs_inputs t \<longleftrightarrow> is_setkey_type t \<or> t \<in> {TX_ENABLE, TX_DISABLE, TX_CLAIM, TX_SETMETA}"

fun GetQPTxDetails_loop ::
  "chk_env \<Rightarrow> uint256 \<Rightarrow> uint256 \<Rightarrow> CTxOut list \<Rightarrow> nat \<Rightarrow> valtype list \<Rightarrow> bool \<Rightarrow> QPTxDetails list \<Rightarrow>
   (bool \<times> QPTxDetails list) option" where
  "GetQPTxDetails_loop env hashBlk hashTx [] nOut sols fNeedsInputs vDeets = Some (fNeedsInputs, vDeets)"
| "GetQPTxDetails_loop env hashBlk hashTx (txout # os) nOut sols fNeedsInputs vDeets =
     (case Solver (scriptPubKey txout) sols of
        (ok, whichType, vSolutions) \<Rightarrow>
          if \<not> ok then GetQPTxDetails_loop env hashBlk hashTx os (nOut + 1) vSolutions fNeedsInputs vDeets
          else case deets_of_output env hashBlk hashTx nOut whichType (hd vSolutions) of
                 None \<Rightarrow> None
               | Some None \<Rightarrow> GetQPTxDetails_loop env hashBlk hashTx os (nOut + 1) vSolutions fNeedsInputs vDeets
               | Some (Some d) \<Rightarrow>
                   GetQPTxDetails_loop env hashBlk hashTx os (nOut + 1) vSolutions
                     (fNeedsInputs \<or> needs_inputs whichType) (vDeets @ [d]))"

definition GetQPTxDetails :: "chk_env \<Rightarrow> CTransaction \<Rightarrow> uint256 \<Rightarrow> (bool \<times> QPTxDetails list) option" where
  "GetQPTxDetails env tx hashBlk =
     GetQPTxDetails_loop env hashBlk (GetHash (ce_tx env) tx) (vout tx) 0 [] False []"

text \<open>\<open>r\<close> is the main registry; \<open>None\<close> is an input that is not found.\<close>

definition GetValueIn :: "chk_env \<Rightarrow> QPRegistry \<Rightarrow> CTransaction \<Rightarrow> MapPrevTx \<Rightarrow> int \<Rightarrow> int option" where
  "GetValueIn env r tx inputs nClaim =
     (if IsCoinBase tx then Some 0
      else let nClaim = (if nClaim = 0 then cl_value (snd (CheckClaim env r tx inputs (ce_claim env))) else nClaim)
           in fold (\<lambda>i n. case (n, GetOutputFor i inputs) of
                            (Some n, Some o') \<Rightarrow> Some (n + nValue o') | _ \<Rightarrow> None) (vin tx) (Some nClaim))"

fun GetClaimIn_loop :: "chk_env \<Rightarrow> CTxOut list \<Rightarrow> valtype list \<Rightarrow> int \<Rightarrow> int option" where
  "GetClaimIn_loop env [] sols nClaim = Some nClaim"
| "GetClaimIn_loop env (txout # os) sols nClaim =
     (case Solver (scriptPubKey txout) sols of
        (ok, typetxo, vSolutions) \<Rightarrow>
          if typetxo = TX_CLAIM
          then case ExtractClaim (hd vSolutions) (ce_claim env) of
                 None \<Rightarrow> None | Some c \<Rightarrow> GetClaimIn_loop env os vSolutions (nClaim + cl_value c)
          else GetClaimIn_loop env os vSolutions nClaim)"

definition GetClaimIn :: "chk_env \<Rightarrow> CTransaction \<Rightarrow> int option" where
  "GetClaimIn env tx = GetClaimIn_loop env (vout tx) [] 0"

end
