(* ===== verification/Blake2b.thy ===== *)
theory Blake2b
  imports CBytes
begin

text \<open>
  The BLAKE2b hash function (\<^verbatim>\<open>src/crypto/argon2/src/blake2/blake2b.c\<close>): the streaming interface,
  the one-shot function and the variable-length hash of Argon2. The functions return the C return
  code with the new state or the digest. A pointer that may be \<open>NULL\<close> is an option; the length
  that comes with it says how many bytes are read. Lengths are natural numbers: they are lengths
  of objects in memory. Internal memory is wiped, as \<open>FLAG_clear_internal_memory\<close> is set.
\<close>

abbreviation (input) BLAKE2B_BLOCKBYTES :: nat where "BLAKE2B_BLOCKBYTES \<equiv> 128"
abbreviation (input) BLAKE2B_OUTBYTES :: nat where "BLAKE2B_OUTBYTES \<equiv> 64"
abbreviation (input) BLAKE2B_KEYBYTES :: nat where "BLAKE2B_KEYBYTES \<equiv> 64"

definition blake2b_IV :: "u64 list" where
  "blake2b_IV =
     [0x6a09e667f3bcc908, 0xbb67ae8584caa73b, 0x3c6ef372fe94f82b, 0xa54ff53a5f1d36f1,
      0x510e527fade682d1, 0x9b05688c2b3e6c1f, 0x1f83d9abfb41bd6b, 0x5be0cd19137e2179]"

definition blake2b_sigma :: "nat list list" where
  "blake2b_sigma =
     [[0, 1, 2, 3, 4, 5, 6, 7, 8, 9, 10, 11, 12, 13, 14, 15],
      [14, 10, 4, 8, 9, 15, 13, 6, 1, 12, 0, 2, 11, 7, 5, 3],
      [11, 8, 12, 0, 5, 2, 15, 13, 10, 14, 3, 6, 7, 1, 9, 4],
      [7, 9, 3, 1, 13, 12, 11, 14, 2, 6, 5, 10, 4, 0, 15, 8],
      [9, 0, 5, 7, 2, 4, 10, 15, 14, 1, 11, 12, 6, 8, 3, 13],
      [2, 12, 6, 10, 0, 11, 8, 3, 4, 13, 7, 5, 15, 14, 1, 9],
      [12, 5, 1, 15, 14, 13, 4, 10, 0, 7, 6, 3, 9, 2, 8, 11],
      [13, 11, 7, 14, 12, 1, 3, 9, 5, 0, 15, 4, 8, 6, 2, 10],
      [6, 15, 14, 9, 11, 3, 0, 8, 12, 2, 13, 7, 1, 4, 10, 5],
      [10, 2, 8, 4, 7, 6, 1, 5, 15, 11, 9, 14, 3, 12, 13, 0],
      [0, 1, 2, 3, 4, 5, 6, 7, 8, 9, 10, 11, 12, 13, 14, 15],
      [14, 10, 4, 8, 9, 15, 13, 6, 1, 12, 0, 2, 11, 7, 5, 3]]"

record blake2b_param =
  digest_length :: u8
  key_length :: u8
  fanout :: u8
  depth :: u8
  leaf_length :: u32
  node_offset :: u64
  node_depth :: u8
  inner_length :: u8
  reserved :: "u8 list"
  salt_p :: "u8 list"
  personal :: "u8 list"

text \<open>The packed structure as bytes; fields wider than a byte in the machine's order.\<close>

definition param_bytes :: "blake2b_param \<Rightarrow> u8 list" where
  "param_bytes P =
     [digest_length P, key_length P, fanout P, depth P] @ store32 (leaf_length P) @
     store64 (node_offset P) @ [node_depth P, inner_length P] @ reserved P @ salt_p P @ personal P"

record blake2b_state =
  st_h :: "u64 list"
  st_t0 :: u64
  st_t1 :: u64
  st_f0 :: u64
  st_f1 :: u64
  st_buf :: "u8 list"
  st_buflen :: nat
  st_outlen :: nat
  st_last_node :: u8

definition blake2b_zero :: blake2b_state where
  "blake2b_zero = \<lparr>st_h = replicate 8 0, st_t0 = 0, st_t1 = 0, st_f0 = 0, st_f1 = 0,
     st_buf = replicate 128 0, st_buflen = 0, st_outlen = 0, st_last_node = 0\<rparr>"

section \<open>State changes\<close>

definition blake2b_set_lastnode :: "blake2b_state \<Rightarrow> blake2b_state" where
  "blake2b_set_lastnode S = S\<lparr>st_f1 := -1\<rparr>"

definition blake2b_set_lastblock :: "blake2b_state \<Rightarrow> blake2b_state" where
  "blake2b_set_lastblock S =
     (let S = (if st_last_node S \<noteq> 0 then blake2b_set_lastnode S else S) in S\<lparr>st_f0 := -1\<rparr>)"

definition blake2b_increment_counter :: "blake2b_state \<Rightarrow> u64 \<Rightarrow> blake2b_state" where
  "blake2b_increment_counter S inc =
     (let S = S\<lparr>st_t0 := st_t0 S + inc\<rparr>
      in S\<lparr>st_t1 := st_t1 S + (if st_t0 S < inc then 1 else 0)\<rparr>)"

definition blake2b_invalidate_state :: "blake2b_state \<Rightarrow> blake2b_state" where
  "blake2b_invalidate_state S = blake2b_set_lastblock blake2b_zero"

definition blake2b_init0 :: "blake2b_state \<Rightarrow> blake2b_state" where
  "blake2b_init0 S = blake2b_zero\<lparr>st_h := blake2b_IV\<rparr>"

definition blake2b_init_param :: "blake2b_state \<Rightarrow> blake2b_param \<Rightarrow> int \<times> blake2b_state" where
  "blake2b_init_param S P =
     (let p = param_bytes P; S = blake2b_init0 S;
          h = map (\<lambda>i. st_h S ! i XOR load64 (drop (i * 8) p)) [0..<8]
      in (0, S\<lparr>st_h := h, st_outlen := unat (digest_length P)\<rparr>))"

definition unkeyed_param :: "nat \<Rightarrow> nat \<Rightarrow> blake2b_param" where
  "unkeyed_param outlen keylen =
     \<lparr>digest_length = of_nat outlen, key_length = of_nat keylen, fanout = 1, depth = 1,
      leaf_length = 0, node_offset = 0, node_depth = 0, inner_length = 0,
      reserved = replicate 14 0, salt_p = replicate 16 0, personal = replicate 16 0\<rparr>"

definition blake2b_init :: "blake2b_state \<Rightarrow> nat \<Rightarrow> int \<times> blake2b_state" where
  "blake2b_init S outlen =
     (if outlen = 0 \<or> outlen > BLAKE2B_OUTBYTES then (-1, blake2b_invalidate_state S)
      else blake2b_init_param S (unkeyed_param outlen 0))"

section \<open>Compression\<close>

definition blake2b_G ::
  "u64 list \<Rightarrow> nat \<Rightarrow> nat \<Rightarrow> nat \<Rightarrow> nat \<Rightarrow> nat \<Rightarrow> nat \<Rightarrow> u64 list \<Rightarrow> u64 list" where
  "blake2b_G m r i ia ib ic jd v =
     (let a = v ! ia; b = v ! ib; c = v ! ic; d = v ! jd;
          a = a + b + m ! (blake2b_sigma ! r ! (2 * i + 0));
          d = rotr64 (d XOR a) 32;
          c = c + d;
          b = rotr64 (b XOR c) 24;
          a = a + b + m ! (blake2b_sigma ! r ! (2 * i + 1));
          d = rotr64 (d XOR a) 16;
          c = c + d;
          b = rotr64 (b XOR c) 63
      in v[ia := a, ib := b, ic := c, jd := d])"

definition blake2b_ROUND :: "u64 list \<Rightarrow> nat \<Rightarrow> u64 list \<Rightarrow> u64 list" where
  "blake2b_ROUND m r v =
     (let v = blake2b_G m r 0 0 4 8 12 v;
          v = blake2b_G m r 1 1 5 9 13 v;
          v = blake2b_G m r 2 2 6 10 14 v;
          v = blake2b_G m r 3 3 7 11 15 v;
          v = blake2b_G m r 4 0 5 10 15 v;
          v = blake2b_G m r 5 1 6 11 12 v;
          v = blake2b_G m r 6 2 7 8 13 v
      in blake2b_G m r 7 3 4 9 14 v)"

definition blake2b_compress :: "blake2b_state \<Rightarrow> u8 list \<Rightarrow> blake2b_state" where
  "blake2b_compress S block =
     (let m = map (\<lambda>i. load64 (drop (i * 8) block)) [0..<16];
          v = map (\<lambda>i. st_h S ! i) [0..<8] @
              [blake2b_IV ! 0, blake2b_IV ! 1, blake2b_IV ! 2, blake2b_IV ! 3,
               blake2b_IV ! 4 XOR st_t0 S, blake2b_IV ! 5 XOR st_t1 S,
               blake2b_IV ! 6 XOR st_f0 S, blake2b_IV ! 7 XOR st_f1 S];
          v = fold (blake2b_ROUND m) [0..<12] v
      in S\<lparr>st_h := map (\<lambda>i. st_h S ! i XOR v ! i XOR v ! (i + 8)) [0..<8]\<rparr>)"

section \<open>Streaming\<close>

text \<open>The \<open>while\<close> loop that compresses full blocks without copying them.\<close>

function update_loop :: "blake2b_state \<Rightarrow> u8 list \<Rightarrow> blake2b_state \<times> u8 list" where
  "update_loop S pin =
     (if length pin > BLAKE2B_BLOCKBYTES
      then update_loop (blake2b_compress (blake2b_increment_counter S 128) (take 128 pin)) (drop 128 pin)
      else (S, pin))"
  by pat_completeness auto
termination by (relation "measure (\<lambda>(S, pin). length pin)") auto

declare update_loop.simps [simp del]

definition blake2b_update_bytes :: "blake2b_state \<Rightarrow> u8 list \<Rightarrow> blake2b_state" where
  "blake2b_update_bytes S pin =
     (let (S, pin) =
        (if st_buflen S + length pin > BLAKE2B_BLOCKBYTES
         then let left = st_buflen S; fill = BLAKE2B_BLOCKBYTES - left;
                  S = S\<lparr>st_buf := write_at (st_buf S) left (take fill pin)\<rparr>;
                  S = blake2b_increment_counter S 128;
                  S = blake2b_compress S (st_buf S);
                  S = S\<lparr>st_buflen := 0\<rparr>
              in update_loop S (drop fill pin)
         else (S, pin))
      in S\<lparr>st_buf := write_at (st_buf S) (st_buflen S) pin, st_buflen := st_buflen S + length pin\<rparr>)"

definition blake2b_update :: "blake2b_state \<Rightarrow> u8 list option \<Rightarrow> nat \<Rightarrow> int \<times> blake2b_state" where
  "blake2b_update S inp inlen =
     (if inlen = 0 then (0, S)
      else case inp of
        None \<Rightarrow> (-1, S)
      | Some pin \<Rightarrow> if st_f0 S \<noteq> 0 then (-1, S)
                    else (0, blake2b_update_bytes S (take inlen pin)))"

definition blake2b_init_key :: "blake2b_state \<Rightarrow> nat \<Rightarrow> u8 list option \<Rightarrow> nat \<Rightarrow> int \<times> blake2b_state" where
  "blake2b_init_key S outlen key keylen =
     (if outlen = 0 \<or> outlen > BLAKE2B_OUTBYTES then (-1, blake2b_invalidate_state S)
      else if key = None \<or> keylen = 0 \<or> keylen > BLAKE2B_KEYBYTES then (-1, blake2b_invalidate_state S)
      else case blake2b_init_param S (unkeyed_param outlen keylen) of
        (ret, S) \<Rightarrow>
          if ret < 0 then (-1, blake2b_invalidate_state S)
          else (0, snd (blake2b_update S
                 (Some (write_at (replicate 128 0) 0 (take keylen (the key)))) BLAKE2B_BLOCKBYTES)))"

text \<open>The digest is \<open>None\<close> when the call fails and leaves the output untouched.\<close>

definition blake2b_final :: "blake2b_state \<Rightarrow> nat \<Rightarrow> int \<times> u8 list option \<times> blake2b_state" where
  "blake2b_final S outlen =
     (if outlen < st_outlen S then (-1, None, S)
      else if st_f0 S \<noteq> 0 then (-1, None, S)
      else
        let S = blake2b_increment_counter S (of_nat (st_buflen S));
            S = blake2b_set_lastblock S;
            S = S\<lparr>st_buf := write_at (st_buf S) (st_buflen S) (replicate (BLAKE2B_BLOCKBYTES - st_buflen S) 0)\<rparr>;
            S = blake2b_compress S (st_buf S);
            buffer = concat (map (\<lambda>i. store64 (st_h S ! i)) [0..<8])
        in (0, Some (take (st_outlen S) buffer), S\<lparr>st_buf := replicate 128 0, st_h := replicate 8 0\<rparr>))"

definition blake2b ::
  "bool \<Rightarrow> nat \<Rightarrow> u8 list option \<Rightarrow> nat \<Rightarrow> u8 list option \<Rightarrow> nat \<Rightarrow> int \<times> u8 list option" where
  "blake2b out_ok outlen inp inlen key keylen =
     (if inp = None \<and> inlen > 0 then (-1, None)
      else if \<not> out_ok \<or> outlen = 0 \<or> outlen > BLAKE2B_OUTBYTES then (-1, None)
      else if (key = None \<and> keylen > 0) \<or> keylen > BLAKE2B_KEYBYTES then (-1, None)
      else
        case (if keylen > 0 then blake2b_init_key blake2b_zero outlen key keylen
              else blake2b_init blake2b_zero outlen) of
          (ret, S) \<Rightarrow>
            if ret < 0 then (-1, None)
            else case blake2b_update S inp inlen of
              (ret, S) \<Rightarrow>
                if ret < 0 then (-1, None)
                else case blake2b_final S outlen of (ret, digest, S) \<Rightarrow> (ret, digest))"

section \<open>Variable-length output\<close>

text \<open>
  Three updates and the final call of \<open>blake2b_long\<close>, with its \<open>TRY\<close>: the first negative code ends
  the function.
\<close>

definition long_prefix_hash :: "nat \<Rightarrow> u8 list \<Rightarrow> u8 list \<Rightarrow> int \<times> u8 list option" where
  "long_prefix_hash outlen outlen_bytes inp =
     (case blake2b_init blake2b_zero outlen of (ret, S) \<Rightarrow>
      if ret < 0 then (ret, None) else
      case blake2b_update S (Some outlen_bytes) (length outlen_bytes) of (ret, S) \<Rightarrow>
      if ret < 0 then (ret, None) else
      case blake2b_update S (Some inp) (length inp) of (ret, S) \<Rightarrow>
      if ret < 0 then (ret, None) else
      case blake2b_final S outlen of (ret, digest, S) \<Rightarrow> (ret, digest))"

text \<open>The output written so far is an accumulator; \<open>toproduce\<close> counts the bytes still missing.\<close>

function long_loop :: "u8 list \<Rightarrow> u8 list \<Rightarrow> nat \<Rightarrow> int \<times> u8 list option" where
  "long_loop out out_buffer toproduce =
     (if toproduce > BLAKE2B_OUTBYTES
      then case blake2b True BLAKE2B_OUTBYTES (Some out_buffer) BLAKE2B_OUTBYTES None 0 of
             (ret, Some d) \<Rightarrow> if ret < 0 then (ret, None)
                             else long_loop (out @ take 32 d) d (toproduce - 32)
           | (ret, None) \<Rightarrow> (ret, None)
      else case blake2b True toproduce (Some out_buffer) BLAKE2B_OUTBYTES None 0 of
             (ret, Some d) \<Rightarrow> if ret < 0 then (ret, None) else (ret, Some (out @ take toproduce d))
           | (ret, None) \<Rightarrow> (ret, None))"
  by pat_completeness auto
termination by (relation "measure (\<lambda>(a, b, n). n)") auto

declare long_loop.simps [simp del]

definition blake2b_long :: "nat \<Rightarrow> u8 list \<Rightarrow> int \<times> u8 list option" where
  "blake2b_long outlen inp =
     (if outlen > 2 ^ 32 - 1 then (-1, None)
      else
        let outlen_bytes = store32 (of_nat outlen)
        in if outlen \<le> BLAKE2B_OUTBYTES then long_prefix_hash outlen outlen_bytes inp
           else case long_prefix_hash BLAKE2B_OUTBYTES outlen_bytes inp of
                  (ret, Some d) \<Rightarrow> if ret < 0 then (ret, None)
                                  else long_loop (take 32 d) d (outlen - 32)
                | (ret, None) \<Rightarrow> (ret, None))"

section \<open>The standard\<close>

text \<open>
  RFC 7693, section 3: the mixing function works on the vector one assignment at a time, the
  message schedule repeats after ten rounds, the offset counter is one number of 128 bits, and the
  message is cut into blocks of which the last one is padded with zeros.
\<close>

definition rfc_mix :: "u64 list \<Rightarrow> nat \<Rightarrow> nat \<Rightarrow> nat \<Rightarrow> nat \<Rightarrow> u64 \<Rightarrow> u64 \<Rightarrow> u64 list" where
  "rfc_mix v a b c d x y =
     (let v = v[a := v ! a + v ! b + x];
          v = v[d := word_rotr 32 (v ! d XOR v ! a)];
          v = v[c := v ! c + v ! d];
          v = v[b := word_rotr 24 (v ! b XOR v ! c)];
          v = v[a := v ! a + v ! b + y];
          v = v[d := word_rotr 16 (v ! d XOR v ! a)];
          v = v[c := v ! c + v ! d]
      in v[b := word_rotr 63 (v ! b XOR v ! c)])"

definition rfc_schedule :: "(nat \<times> nat \<times> nat \<times> nat) list" where
  "rfc_schedule = [(0, 4, 8, 12), (1, 5, 9, 13), (2, 6, 10, 14), (3, 7, 11, 15),
     (0, 5, 10, 15), (1, 6, 11, 12), (2, 7, 8, 13), (3, 4, 9, 14)]"

definition rfc_round :: "u64 list \<Rightarrow> nat \<Rightarrow> u64 list \<Rightarrow> u64 list" where
  "rfc_round m r v =
     fold (\<lambda>(i, a, b, c, d) v. rfc_mix v a b c d (m ! (blake2b_sigma ! (r mod 10) ! (2 * i)))
             (m ! (blake2b_sigma ! (r mod 10) ! (2 * i + 1))))
       (zip [0..<8] rfc_schedule) v"

definition rfc_F :: "u64 list \<Rightarrow> u8 list \<Rightarrow> nat \<Rightarrow> bool \<Rightarrow> u64 list" where
  "rfc_F h block t f =
     (let m = map (\<lambda>i. load64 (drop (i * 8) block)) [0..<16];
          v = h @ blake2b_IV;
          v = v[12 := v ! 12 XOR of_nat t, 13 := v ! 13 XOR of_nat (t div 2 ^ 64)];
          v = (if f then v[14 := NOT (v ! 14)] else v);
          v = fold (rfc_round m) [0..<12] v
      in map (\<lambda>i. h ! i XOR v ! i XOR v ! (i + 8)) [0..<8])"

definition pad_block :: "u8 list \<Rightarrow> u8 list" where
  "pad_block d = d @ replicate (128 - length d) 0"

definition rfc_h0 :: "nat \<Rightarrow> nat \<Rightarrow> u64 list" where
  "rfc_h0 nn kk =
     blake2b_IV[0 := blake2b_IV ! 0 XOR 0x01010000 XOR push_bit 8 (of_nat kk) XOR of_nat nn]"

definition rfc_blake2b :: "nat \<Rightarrow> u8 list \<Rightarrow> u8 list \<Rightarrow> u8 list" where
  "rfc_blake2b nn key msg =
     (let d = (if key = [] then msg else pad_block key @ msg);
          dd = max 1 ((length d + 127) div 128);
          block = (\<lambda>i. pad_block (take 128 (drop (128 * i) d)));
          h = fold (\<lambda>i h. rfc_F h (block i) (128 * (i + 1)) False) [0..<dd - 1] (rfc_h0 nn (length key));
          h = rfc_F h (block (dd - 1)) (length d) True
      in take nn (concat (map store64 h)))"

section \<open>The compression function meets the standard\<close>

lemma update_twice:
  assumes "distinct [a, b, c, d]" and "a < length v" "b < length v" "c < length v" "d < length v"
  shows "v[a := a1, d := d1, c := c1, b := b1, a := a2, d := d2, c := c2, b := b2] =
    v[a := a2, b := b2, c := c2, d := d2]"
  by (rule nth_equalityI) (use assms in \<open>auto simp: nth_list_update\<close>)

lemma G_rfc_mix:
  assumes d: "distinct [a, b, c, d]" and l: "a < length v" "b < length v" "c < length v" "d < length v"
  shows "blake2b_G m r i a b c d v =
    rfc_mix v a b c d (m ! (blake2b_sigma ! r ! (2 * i))) (m ! (blake2b_sigma ! r ! (2 * i + 1)))"
proof -
  have swap: "a \<noteq> b" "a \<noteq> c" "a \<noteq> d" "b \<noteq> c" "b \<noteq> d" "c \<noteq> d" using d by auto
  show ?thesis
    unfolding blake2b_G_def rfc_mix_def Let_def
    by (simp only: nth_list_update_eq nth_list_update_neq length_list_update l swap swap [symmetric]
        not_False_eq_True update_twice [OF d l] rotr64_rotate) simp
qed

lemma length_rfc_mix [simp]: "length (rfc_mix v a b c d x y) = length v"
  by (simp add: rfc_mix_def Let_def)

lemma length_G [simp]: "length (blake2b_G m r i a b c d v) = length v"
  by (simp add: blake2b_G_def Let_def)

lemma length_ROUND [simp]: "length (blake2b_ROUND m r v) = length v"
  by (simp add: blake2b_ROUND_def Let_def)

lemma sigma_period: "r < 12 \<Longrightarrow> blake2b_sigma ! (r mod 10) = blake2b_sigma ! r"
proof -
  have "\<forall>r \<in> set [0..<12]. blake2b_sigma ! (r mod 10) = blake2b_sigma ! r" by code_simp
  then show "r < 12 \<Longrightarrow> blake2b_sigma ! (r mod 10) = blake2b_sigma ! r" by simp
qed

lemma ROUND_rfc_round:
  assumes "r < 12" and "length v = 16"
  shows "blake2b_ROUND m r v = rfc_round m r v"
proof -
  have up: "[0..<8] = [0, 1, 2, 3, 4, 5, 6, 7]" by (simp add: upt_rec)
  show ?thesis
    using assms(2)
    by (simp add: blake2b_ROUND_def rfc_round_def rfc_schedule_def up sigma_period [OF assms(1)]
        Let_def G_rfc_mix)
qed

lemma fold_ROUND_rfc:
  "\<forall>r \<in> set rs. r < 12 \<Longrightarrow> length v = 16 \<Longrightarrow> fold (blake2b_ROUND m) rs v = fold (rfc_round m) rs v"
proof (induction rs arbitrary: v)
  case (Cons r rs)
  then show ?case by (simp add: ROUND_rfc_round [symmetric])
qed simp

definition counts :: "blake2b_state \<Rightarrow> nat \<Rightarrow> bool" where
  "counts S n \<longleftrightarrow> st_t0 S = of_nat n \<and> st_t1 S = of_nat (n div 2 ^ 64)"

lemma compress_rfc_F:
  assumes "length (st_h S) = 8" and "counts S n" and "st_f1 S = 0" and "st_f0 S = (if f then -1 else 0)"
  shows "st_h (blake2b_compress S block) = rfc_F (st_h S) block n f"
proof -
  obtain a0 a1 a2 a3 a4 a5 a6 a7 where h: "st_h S = [a0, a1, a2, a3, a4, a5, a6, a7]"
    using assms(1) by (auto simp: length_Suc_conv numeral_eq_Suc)
  have up: "[0..<8] = [0, 1, 2, 3, 4, 5, 6, 7]" by (simp add: upt_rec)
  let ?m = "map (\<lambda>i. load64 (drop (i * 8) block)) [0..<16]"
  let ?v = "map (\<lambda>i. st_h S ! i) [0..<8] @
              [blake2b_IV ! 0, blake2b_IV ! 1, blake2b_IV ! 2, blake2b_IV ! 3,
               blake2b_IV ! 4 XOR st_t0 S, blake2b_IV ! 5 XOR st_t1 S,
               blake2b_IV ! 6 XOR st_f0 S, blake2b_IV ! 7 XOR st_f1 S]"
  let ?w = "let v = st_h S @ blake2b_IV;
          v = v[12 := v ! 12 XOR of_nat n, 13 := v ! 13 XOR of_nat (n div 2 ^ 64)]
      in (if f then v[14 := NOT (v ! 14)] else v)"
  have "?v = ?w"
    unfolding h up using assms(2-4)
    by (simp add: blake2b_IV_def counts_def Let_def)
  moreover have "fold (blake2b_ROUND ?m) [0..<12] ?v = fold (rfc_round ?m) [0..<12] ?v"
    by (rule fold_ROUND_rfc) simp_all
  ultimately show ?thesis
    unfolding blake2b_compress_def rfc_F_def Let_def by simp
qed

section \<open>The streaming interface meets the standard\<close>

lemma length_rfc_F [simp]: "length (rfc_F h b t f) = 8"
  by (simp add: rfc_F_def Let_def)

lemma div_add_carry:
  fixes M :: nat
  assumes "0 < M" and "k < M"
  shows "(n + k) div M = n div M + (if (n + k) mod M < k then 1 else 0)"
proof -
  obtain q r where n: "n = r + q * M" "r < M"
    using assms(1) by (metis div_mult_mod_eq add.commute mod_less_divisor)
  have e: "n + k = (r + k) + q * M" by (simp add: n(1))
  have d: "n div M = q" "(n + k) div M = q + (r + k) div M" "(n + k) mod M = (r + k) mod M"
    unfolding e using assms(1) n by (simp_all del: add.assoc)
  show ?thesis
  proof (cases "r + k < M")
    case False
    define x where "x = r + k - M"
    have "r + k = x + M" "x < M" "x < k" using False n(2) assms(2) by (auto simp: x_def)
    then show ?thesis using assms(1) by (simp add: d div_add_self2)
  qed (simp add: d)
qed

lemma counts_increment:
  assumes "counts S n" and "k < 2 ^ 64"
  shows "counts (blake2b_increment_counter S (of_nat k)) (n + k)"
proof -
  let ?M = "2 ^ 64 :: nat"
  have t0: "st_t0 S = of_nat n" "st_t1 S = of_nat (n div ?M)" using assms(1) by (auto simp: counts_def)
  have u: "unat (of_nat n + of_nat k :: u64) = (n + k) mod ?M" "unat (of_nat k :: u64) = k"
    using assms(2) by (simp_all add: unat_of_nat take_bit_nat_eq_self flip: of_nat_add take_bit_eq_mod)
  have "(n + k) div ?M = n div ?M + (if (n + k) mod ?M < k then 1 else 0)"
    using assms(2) by (intro div_add_carry) simp_all
  then show ?thesis
    by (simp add: counts_def blake2b_increment_counter_def Let_def t0 word_less_nat_alt u)
qed

text \<open>Blocks are absorbed while more than one block is left.\<close>

function chain :: "u64 list \<Rightarrow> nat \<Rightarrow> u8 list \<Rightarrow> u64 list \<times> nat \<times> u8 list" where
  "chain h n d =
     (if length d > 128 then chain (rfc_F h (take 128 d) (n + 128) False) (n + 128) (drop 128 d) else (h, n, d))"
  by pat_completeness auto
termination by (relation "measure (\<lambda>(h, n, d). length d)") auto

declare chain.simps [simp del]

lemma chain_append:
  "chain h n (xs @ ys) = (case chain h n xs of (h', n', r) \<Rightarrow> chain h' n' (r @ ys))"
proof (induction h n xs rule: chain.induct)
  case (1 h n d)
  show ?case
  proof (cases "length d > 128")
    case True
    then show ?thesis
      using 1 by (subst chain.simps) (simp add: chain.simps [of h n d])
  qed (simp add: chain.simps [of h n d])
qed

lemma chain_rest: "chain h n d = (h', n', r) \<Longrightarrow> length r \<le> 128"
proof (induction h n d rule: chain.induct)
  case (1 h n d)
  then show ?case by (cases "length d > 128") (auto simp: chain.simps [of h n d])
qed

text \<open>What a state stands for: a chaining value, a byte count and the bytes in the buffer.\<close>

definition absorbs :: "blake2b_state \<Rightarrow> u64 list \<Rightarrow> nat \<Rightarrow> u8 list \<Rightarrow> bool" where
  "absorbs S h n d \<longleftrightarrow> st_h S = h \<and> length h = 8 \<and> counts S n \<and> st_f0 S = 0 \<and> st_f1 S = 0 \<and>
     st_last_node S = 0 \<and> length (st_buf S) = 128 \<and> st_buflen S = length d \<and> length d \<le> 128 \<and>
     take (length d) (st_buf S) = d"

definition same_rest :: "blake2b_state \<Rightarrow> blake2b_state \<Rightarrow> bool" where
  "same_rest S S' \<longleftrightarrow> st_f0 S' = st_f0 S \<and> st_f1 S' = st_f1 S \<and> st_last_node S' = st_last_node S \<and>
     st_buf S' = st_buf S \<and> st_buflen S' = st_buflen S \<and> st_outlen S' = st_outlen S"

lemma same_rest_compress: "same_rest S (blake2b_compress (blake2b_increment_counter S k) b)"
  by (simp add: same_rest_def blake2b_compress_def blake2b_increment_counter_def Let_def)

lemma counts_compress: "counts (blake2b_compress S b) n = counts S n"
  by (simp add: counts_def blake2b_compress_def Let_def)

lemma increment_keeps:
  "st_h (blake2b_increment_counter S k) = st_h S" "st_f0 (blake2b_increment_counter S k) = st_f0 S"
  "st_f1 (blake2b_increment_counter S k) = st_f1 S" "st_buf (blake2b_increment_counter S k) = st_buf S"
  "st_buflen (blake2b_increment_counter S k) = st_buflen S" "st_outlen (blake2b_increment_counter S k) = st_outlen S"
  "st_last_node (blake2b_increment_counter S k) = st_last_node S"
  by (simp_all add: blake2b_increment_counter_def Let_def)

text \<open>One block, as the loop and the first step of an update take it.\<close>

lemma absorb_block:
  assumes "length (st_h S) = 8" and "counts S n" and "st_f0 S = 0" and "st_f1 S = 0"
  shows "st_h (blake2b_compress (blake2b_increment_counter S 128) b) = rfc_F (st_h S) b (n + 128) False"
    and "counts (blake2b_compress (blake2b_increment_counter S 128) b) (n + 128)"
proof -
  have c: "counts (blake2b_increment_counter S 128) (n + 128)"
    using counts_increment [OF assms(2), of 128] by simp
  then show "counts (blake2b_compress (blake2b_increment_counter S 128) b) (n + 128)"
    by (simp add: counts_compress)
  show "st_h (blake2b_compress (blake2b_increment_counter S 128) b) = rfc_F (st_h S) b (n + 128) False"
    using compress_rfc_F [of "blake2b_increment_counter S 128" "n + 128" False b] assms c
    by (simp add: increment_keeps)
qed

lemma update_loop_chain:
  assumes "length (st_h S) = 8" and "counts S n" and "st_f0 S = 0" and "st_f1 S = 0"
    and "update_loop S pin = (S', r)"
  shows "\<exists>n'. chain (st_h S) n pin = (st_h S', n', r) \<and> counts S' n' \<and> length (st_h S') = 8 \<and> same_rest S S'"
  using assms
proof (induction S pin arbitrary: n rule: update_loop.induct)
  case (1 S pin)
  let ?S1 = "blake2b_compress (blake2b_increment_counter S 128) (take 128 pin)"
  show ?case
  proof (cases "length pin > 128")
    case True
    note b = absorb_block [OF 1(2-5), of "take 128 pin"]
    have k: "same_rest S ?S1" by (rule same_rest_compress)
    then have f: "st_f0 ?S1 = 0" "st_f1 ?S1 = 0" using 1(4,5) by (auto simp: same_rest_def)
    have "update_loop ?S1 (drop 128 pin) = (S', r)" using 1(6) True by (simp add: update_loop.simps [of S])
    then obtain n' where "chain (st_h ?S1) (n + 128) (drop 128 pin) = (st_h S', n', r)" "counts S' n'"
        "length (st_h S') = 8" "same_rest ?S1 S'"
      using 1(1) [OF True _ b(2) f] b(1) by auto
    then show ?thesis using True k b(1) by (subst chain.simps) (auto simp: same_rest_def)
  next
    case False
    then show ?thesis using 1(2,3,6) by (auto simp: update_loop.simps [of S] chain.simps same_rest_def)
  qed
qed

lemma absorbs_update_bytes:
  assumes "absorbs S h n d" and "chain h n (d @ pin) = (h', n', d')"
  shows "absorbs (blake2b_update_bytes S pin) h' n' d' \<and> st_outlen (blake2b_update_bytes S pin) = st_outlen S"
proof (cases "length d + length pin > 128")
  case True
  let ?fill = "128 - length d"
  let ?S1 = "S\<lparr>st_buf := write_at (st_buf S) (length d) (take ?fill pin)\<rparr>"
  let ?S2 = "blake2b_compress (blake2b_increment_counter ?S1 128) (st_buf ?S1)"
  let ?S3 = "?S2\<lparr>st_buflen := 0\<rparr>"
  have a: "st_h S = h" "length h = 8" "counts S n" "st_f0 S = 0" "st_f1 S = 0" "st_last_node S = 0"
      "length (st_buf S) = 128" "st_buflen S = length d" "length d \<le> 128" "take (length d) (st_buf S) = d"
    using assms(1) by (auto simp: absorbs_def)
  have buf: "st_buf ?S1 = take 128 (d @ pin)"
    using True a by (simp add: write_at_full)
  have "length (st_h ?S1) = 8" "counts ?S1 n" "st_f0 ?S1 = 0" "st_f1 ?S1 = 0"
    using a by (simp_all add: counts_def)
  note b = absorb_block [OF this, of "take 128 (d @ pin)"]
  have k: "same_rest ?S1 ?S2" by (rule same_rest_compress)
  obtain S' r where ul: "update_loop ?S3 (drop ?fill pin) = (S', r)" by force
  have "length (st_h ?S3) = 8" "counts ?S3 (n + 128)" "st_f0 ?S3 = 0" "st_f1 ?S3 = 0"
    using b k a buf by (auto simp: same_rest_def counts_def)
  from update_loop_chain [OF this ul] obtain n'' where
    c: "chain (st_h ?S3) (n + 128) (drop ?fill pin) = (st_h S', n'', r)" "counts S' n''" "length (st_h S') = 8"
      "same_rest ?S3 S'" by blast
  have "chain h n (d @ pin) = chain (rfc_F h (take 128 (d @ pin)) (n + 128) False) (n + 128) (drop ?fill pin)"
    using True a(9) by (subst chain.simps) simp
  then have e: "h' = st_h S'" "n' = n''" "d' = r" using assms(2) c(1) b(1) a(1) buf by simp_all
  have r: "length r \<le> 128" using chain_rest [OF c(1)] .
  have u: "blake2b_update_bytes S pin =
      S'\<lparr>st_buf := write_at (st_buf S') (st_buflen S') r, st_buflen := st_buflen S' + length r\<rparr>"
    using True a(8) ul by (simp add: blake2b_update_bytes_def Let_def increment_keeps)
  have "length (st_buf S') = 128" "st_buflen S' = 0" "st_f0 S' = 0" "st_f1 S' = 0" "st_last_node S' = 0"
    "st_outlen S' = st_outlen S"
    using c(4) k a buf True by (auto simp: same_rest_def)
  then show ?thesis using c(2,3) r e take_write_at [of 0 "st_buf S'" r]
    by (simp add: u absorbs_def counts_def)
next
  case False
  then have "h' = h" "n' = n" "d' = d @ pin" using assms(2) by (simp_all add: chain.simps [of h n "d @ pin"])
  then show ?thesis
    using False assms(1) take_write_at [of "length d" "st_buf S" pin]
    by (auto simp: absorbs_def blake2b_update_bytes_def counts_def)
qed

definition out_bytes :: "u64 list \<Rightarrow> u8 list" where
  "out_bytes h = concat (map store64 h)"

lemma length_out_bytes: "length h = 8 \<Longrightarrow> length (out_bytes h) = 64"
  by (simp add: out_bytes_def length_concat comp_def sum_list_triv)

lemma map_nth_8: "length h = 8 \<Longrightarrow> map (\<lambda>i. f (h ! i)) [0..<8] = map f h"
  by (rule nth_equalityI) simp_all

lemma absorbs_final:
  assumes "absorbs S h n d" and "st_outlen S \<le> outlen"
  shows "\<exists>S'. blake2b_final S outlen =
    (0, Some (take (st_outlen S) (out_bytes (rfc_F h (pad_block d) (n + length d) True))), S') \<and> st_f0 S' \<noteq> 0"
proof -
  let ?S1 = "blake2b_set_lastblock (blake2b_increment_counter S (of_nat (length d)))"
  let ?S2 = "?S1\<lparr>st_buf := write_at (st_buf ?S1) (length d) (replicate (128 - length d) 0)\<rparr>"
  let ?S3 = "blake2b_compress ?S2 (st_buf ?S2)"
  have a: "st_h S = h" "length h = 8" "counts S n" "st_f0 S = 0" "st_f1 S = 0" "st_last_node S = 0"
      "length (st_buf S) = 128" "st_buflen S = length d" "length d \<le> 128" "take (length d) (st_buf S) = d"
    using assms(1) by (auto simp: absorbs_def)
  have s1: "st_h ?S1 = h" "st_f0 ?S1 = -1" "st_f1 ?S1 = 0" "st_buf ?S1 = st_buf S" "st_outlen ?S1 = st_outlen S"
    "st_buflen ?S1 = length d"
    using a by (simp_all add: blake2b_set_lastblock_def Let_def increment_keeps)
  have "counts ?S2 (n + length d)"
    using counts_increment [OF a(3), of "length d"] a(6,9)
    by (simp add: counts_def blake2b_set_lastblock_def Let_def increment_keeps)
  moreover have buf: "st_buf ?S2 = pad_block d"
    using a by (simp add: s1 pad_block_def write_at_full)
  ultimately have h3: "st_h ?S3 = rfc_F h (pad_block d) (n + length d) True"
    using compress_rfc_F [of ?S2 "n + length d" True] a(2) s1 by simp
  have o3: "st_outlen ?S3 = st_outlen S" "st_f0 ?S3 = -1" using s1 by (simp_all add: blake2b_compress_def Let_def)
  define S3 where "S3 = ?S3"
  have f: "blake2b_final S outlen = (0, Some (take (st_outlen S3) (concat (map (\<lambda>i. store64 (st_h S3 ! i)) [0..<8]))),
      S3\<lparr>st_buf := replicate 128 0, st_h := replicate 8 0\<rparr>)"
    using assms(2) a(4,8) s1(6) by (simp add: blake2b_final_def Let_def S3_def)
  note h3 = h3 [folded S3_def] and o3 = o3 [folded S3_def]
  have "concat (map (\<lambda>i. store64 (st_h S3 ! i)) [0..<8]) = out_bytes (st_h S3)"
    using h3 by (subst map_nth_8) (simp_all add: S3_def out_bytes_def)
  then show ?thesis
    using f h3 o3 by simp
qed

section \<open>Initialisation and the one-shot function\<close>

lemma unat_small_u8: "n < 256 \<Longrightarrow> unat (of_nat n :: u8) = n"
  by (simp add: unat_of_nat_small)

lemma load64_zeros: "load64 (replicate 8 0 @ r) = 0" "load64 (replicate 8 0) = 0"
  by (simp_all add: load64_def nth_append)

lemma ucast_of_nat_u8: "n < 256 \<Longrightarrow> (ucast (of_nat n :: u8) :: u64) = of_nat n"
  by (simp add: unsigned_of_nat take_bit_nat_eq_self)

lemma store_le_0: "store_le n (0 :: 'w::len word) = replicate n 0"
  by (induction n) simp_all

text \<open>Only the first word of the chaining value depends on the parameters.\<close>

lemma param_word0:
  assumes "nn < 256" and "kk < 256"
  shows "load64 (param_bytes (unkeyed_param nn kk)) = 0x01010000 XOR push_bit 8 (of_nat kk) XOR of_nat nn"
proof -
  let ?n = "of_nat nn :: u64" and ?k = "of_nat kk :: u64"
  have b: "\<not> bit ?n i" "\<not> bit ?k i" if "8 \<le> i" for i
    using that bit_imp_le_length [of "of_nat nn :: u8" i] bit_imp_le_length [of "of_nat kk :: u8" i]
    unfolding ucast_of_nat_u8 [OF assms(1), symmetric] ucast_of_nat_u8 [OF assms(2), symmetric]
    by (auto simp: bit_ucast_iff)
  have "load64 (param_bytes (unkeyed_param nn kk)) =
      ucast (of_nat nn :: u8) OR push_bit 8 (ucast (of_nat kk :: u8)) OR push_bit 16 1 OR push_bit 24 1"
    by (simp add: load64_def param_bytes_def unkeyed_param_def store32_def store_le_0 nth_append)
  also have "\<dots> = ?n OR push_bit 8 ?k OR 0x01010000"
    by (simp add: ucast_of_nat_u8 assms or.assoc)
  also have "\<dots> = 0x01010000 XOR push_bit 8 ?k XOR ?n"
  proof (rule bit_word_eqI)
    fix i :: nat assume "i < LENGTH(64)"
    have lit: "bit (0x01010000 :: u64) i \<longleftrightarrow> i = 16 \<or> i = 24"
    proof -
      have e: "(0x01010000 :: u64) = push_bit 16 1 OR push_bit 24 1" by simp
      have "bit (push_bit 16 1 OR push_bit 24 1 :: u64) i \<longleftrightarrow> i = 16 \<or> i = 24"
        unfolding bit_or_iff bit_push_bit_iff bit_1_iff using \<open>i < LENGTH(64)\<close> by auto
      then show ?thesis unfolding e .
    qed
    show "bit (?n OR push_bit 8 ?k OR 0x01010000) i = bit (0x01010000 XOR push_bit 8 ?k XOR ?n) i"
      using b [of i] b [of "i - 8"] lit by (auto simp: bit_or_iff bit_xor_iff bit_push_bit_iff)
  qed
  finally show ?thesis .
qed

lemma param_tail: "drop 8 (param_bytes (unkeyed_param nn kk)) = replicate 56 0"
proof -
  have "drop 8 (param_bytes (unkeyed_param nn kk)) =
      replicate 8 0 @ replicate 2 0 @ replicate 14 0 @ replicate 16 0 @ replicate 16 0"
    by (simp add: param_bytes_def unkeyed_param_def store32_def store64_def store_le_0 numeral_2_eq_2)
  also have "\<dots> = replicate 56 0" unfolding replicate_add [symmetric] by simp
  finally show ?thesis .
qed

lemma param_words: "1 \<le> i \<Longrightarrow> i < 8 \<Longrightarrow> load64 (drop (i * 8) (param_bytes (unkeyed_param nn kk))) = 0"
proof -
  assume i: "1 \<le> i" "i < 8"
  have "drop (i * 8) (param_bytes (unkeyed_param nn kk)) = drop ((i - 1) * 8) (replicate 56 0)"
    using i by (simp add: param_tail [of nn kk, symmetric] diff_mult_distrib)
  moreover have "8 \<le> 56 - (i - 1) * 8" using i by simp
  ultimately show ?thesis by (simp add: load64_def)
qed

lemma init_param_h0:
  assumes "nn < 256" and "kk < 256"
  shows "map (\<lambda>i. blake2b_IV ! i XOR load64 (drop (i * 8) (param_bytes (unkeyed_param nn kk)))) [0..<8] = rfc_h0 nn kk"
proof (rule nth_equalityI)
  fix i assume "i < length (map (\<lambda>i. blake2b_IV ! i XOR load64 (drop (i * 8) (param_bytes (unkeyed_param nn kk)))) [0..<8])"
  then have i: "i < 8" by simp
  show "map (\<lambda>i. blake2b_IV ! i XOR load64 (drop (i * 8) (param_bytes (unkeyed_param nn kk)))) [0..<8] ! i = rfc_h0 nn kk ! i"
    using i param_word0 [OF assms] param_words [of i nn kk]
    by (cases "i = 0") (simp_all add: rfc_h0_def blake2b_IV_def xor.assoc)
qed (simp add: rfc_h0_def blake2b_IV_def)

lemma absorbs_init_param:
  assumes "nn < 256" and "kk < 256"
  shows "\<exists>S'. blake2b_init_param S (unkeyed_param nn kk) = (0, S') \<and> absorbs S' (rfc_h0 nn kk) 0 [] \<and> st_outlen S' = nn"
proof -
  have "length (rfc_h0 nn kk) = 8" by (simp add: rfc_h0_def blake2b_IV_def)
  then show ?thesis
    using init_param_h0 [OF assms] assms
    by (simp add: blake2b_init_param_def blake2b_init0_def blake2b_zero_def Let_def absorbs_def counts_def
        unkeyed_param_def unat_small_u8)
qed

lemma absorbs_update:
  assumes "absorbs S h n d" and "length m = inlen" and "chain h n (d @ m) = (h', n', d')"
  shows "\<exists>S'. blake2b_update S (Some (m @ x)) inlen = (0, S') \<and> absorbs S' h' n' d' \<and> st_outlen S' = st_outlen S"
proof (cases "m = []")
  case True
  have "length d \<le> 128" using assms(1) by (simp add: absorbs_def)
  then show ?thesis using True assms by (auto simp: blake2b_update_def chain.simps [of h n d])
next
  case False
  then show ?thesis
    using assms absorbs_update_bytes [OF assms(1,3)] by (auto simp: blake2b_update_def absorbs_def)
qed

lemma absorbs_init_key:
  assumes "0 < nn" "nn \<le> 64" and "0 < length key" "length key \<le> 64"
  shows "\<exists>S'. blake2b_init_key S nn (Some (key @ x)) (length key) = (0, S') \<and>
    absorbs S' (rfc_h0 nn (length key)) 0 (pad_block key) \<and> st_outlen S' = nn"
proof -
  let ?h = "rfc_h0 nn (length key)"
  obtain S1 where S1: "blake2b_init_param S (unkeyed_param nn (length key)) = (0, S1)" "absorbs S1 ?h 0 []" "st_outlen S1 = nn"
    using absorbs_init_param [of nn "length key" S] assms by auto
  have "chain ?h 0 ([] @ pad_block key) = (?h, 0, pad_block key)"
    using assms by (subst chain.simps) (simp add: pad_block_def)
  moreover have "length (pad_block key) = 128" using assms by (simp add: pad_block_def)
  ultimately obtain S2 where "blake2b_update S1 (Some (pad_block key @ [])) 128 = (0, S2)" "absorbs S2 ?h 0 (pad_block key)"
      "st_outlen S2 = st_outlen S1"
    using absorbs_update [OF S1(2)] by blast
  moreover have "write_at (replicate 128 0) 0 key = pad_block key" by (simp add: write_at_def pad_block_def)
  ultimately show ?thesis using assms S1 by (simp add: blake2b_init_key_def)
qed

text \<open>The recursion over blocks and the indexed blocks of the standard.\<close>

lemma chain_indexed:
  "chain h n d = (let m = (length d - 1) div 128
     in (fold (\<lambda>i h. rfc_F h (take 128 (drop (128 * i) d)) (n + 128 * (i + 1)) False) [0..<m] h,
         n + 128 * m, drop (128 * m) d))"
proof (induction h n d rule: chain.induct)
  case (1 h n d)
  show ?case
  proof (cases "length d > 128")
    case True
    define m where "m = (length d - 129) div 128"
    have m: "(length d - 1) div 128 = Suc m" "(length (drop 128 d) - 1) div 128 = m"
    proof -
      have "length d - 1 = (length d - 129) + 128" using True by simp
      then have "(length d - 1) div 128 = (length d - 129) div 128 + 1" by (metis div_add_self2 zero_neq_numeral)
      then show "(length d - 1) div 128 = Suc m" by (simp add: m_def)
      show "(length (drop 128 d) - 1) div 128 = m" by (simp add: m_def)
    qed
    have up: "[0..<Suc m] = 0 # map Suc [0..<m]" by (simp add: upt_conv_Cons map_Suc_upt)
    show ?thesis
      using 1 [OF True] True m
      by (subst chain.simps) (simp add: Let_def up fold_map comp_def add.assoc add.commute [of 128] del: upt_Suc)
  next
    case False
    then have "(length d - 1) div 128 = 0" by simp
    then show ?thesis using False by (subst chain.simps) simp
  qed
qed

text \<open>What a finished computation yields, in terms of the standard.\<close>

lemma rfc_blake2b_chain:
  assumes "chain (rfc_h0 nn (length key)) 0 ((if key = [] then [] else pad_block key) @ msg) = (h, n, d)"
  shows "take nn (out_bytes (rfc_F h (pad_block d) (n + length d) True)) = rfc_blake2b nn key msg"
proof -
  define D where "D = (if key = [] then msg else pad_block key @ msg)"
  define m where "m = (length D - 1) div 128"
  have D: "(if key = [] then [] else pad_block key) @ msg = D" by (simp add: D_def)
  have dd: "max 1 ((length D + 127) div 128) - 1 = m"
  proof (cases "D = []")
    case False
    then have "length D + 127 = (length D - 1) + 128" by (cases D) simp_all
    then have "(length D + 127) div 128 = (length D - 1) div 128 + 1" by (metis div_add_self2 zero_neq_numeral)
    then show ?thesis by (simp add: m_def)
  qed (simp add: m_def)
  have len: "128 * i + 128 \<le> length D" if "i < m" for i
  proof -
    have "128 * m \<le> length D - 1" unfolding m_def by simp
    then show ?thesis using that by linarith
  qed
  have full: "pad_block (take 128 (drop (128 * i) D)) = take 128 (drop (128 * i) D)" if "i < m" for i
    using len [OF that] by (simp add: pad_block_def)
  have last: "length (drop (128 * m) D) \<le> 128" "n + length d = length D"
      "h = fold (\<lambda>i h. rfc_F h (take 128 (drop (128 * i) D)) (0 + 128 * (i + 1)) False) [0..<m] (rfc_h0 nn (length key))"
      "d = drop (128 * m) D"
  proof -
    have "128 * m \<le> length D - 1" unfolding m_def by simp
    then have "128 * m \<le> length D" by linarith
    then show "length (drop (128 * m) D) \<le> 128" "n + length d = length D"
      using assms chain_rest [OF assms] unfolding D chain_indexed [of "rfc_h0 nn (length key)"] Let_def m_def [symmetric]
      by auto
  qed (use assms in \<open>auto simp: D chain_indexed [of "rfc_h0 nn (length key)"] Let_def m_def\<close>)
  have "h = fold (\<lambda>i h. rfc_F h (pad_block (take 128 (drop (128 * i) D))) (128 * (i + 1)) False) [0..<m] (rfc_h0 nn (length key))"
    unfolding last(3) using full by (intro fold_cong) simp_all
  moreover have "take 128 (drop (128 * m) D) = drop (128 * m) D" using last(1) by simp
  moreover have "n + length (drop (128 * m) D) = length D" using last(2,4) by simp
  ultimately show ?thesis
    unfolding rfc_blake2b_def Let_def D_def [symmetric] dd out_bytes_def last(4) by (simp only:)
qed

lemma blake2b_correct:
  assumes "0 < outlen" "outlen \<le> 64" and "length key \<le> 64"
  shows "blake2b True outlen (Some msg) (length msg) (Some key) (length key) = (0, Some (rfc_blake2b outlen key msg))"
proof -
  let ?d = "if key = [] then [] else pad_block key"
  let ?h0 = "rfc_h0 outlen (length key)"
  obtain S1 where S1: "(if length key > 0 then blake2b_init_key blake2b_zero outlen (Some key) (length key)
      else blake2b_init blake2b_zero outlen) = (0, S1)" "absorbs S1 ?h0 0 ?d" "st_outlen S1 = outlen"
    using absorbs_init_key [of outlen key blake2b_zero "[]"] absorbs_init_param [of outlen 0 blake2b_zero] assms
    by (cases "key = []") (auto simp: blake2b_init_def)
  obtain h n d where c: "chain ?h0 0 (?d @ msg) = (h, n, d)" by (metis prod_cases3)
  obtain S2 where S2: "blake2b_update S1 (Some (msg @ [])) (length msg) = (0, S2)" "absorbs S2 h n d" "st_outlen S2 = outlen"
    using absorbs_update [OF S1(2) refl c] S1(3) by blast
  then obtain S3 where "blake2b_final S2 outlen =
      (0, Some (take outlen (out_bytes (rfc_F h (pad_block d) (n + length d) True))), S3)"
    using absorbs_final [OF S2(2), of outlen] by auto
  then show ?thesis
    unfolding rfc_blake2b_chain [OF c] using assms S1(1) S2(1) by (simp add: blake2b_def del: length_greater_0_conv)
qed

lemma length_rfc_blake2b: "nn \<le> 64 \<Longrightarrow> length (rfc_blake2b nn key msg) = nn"
  by (simp add: rfc_blake2b_def Let_def length_out_bytes [unfolded out_bytes_def])

section \<open>Properties\<close>

text \<open>
  C38. \<open>blake2b\<close> computes the hash function of RFC 7693, keyed or not, for every output length from
  1 to 64 bytes, every key of at most 64 bytes and every message: return code 0 and the digest of
  the standard, which has the length asked for.
\<close>

theorem blake2b_RFC7693:
  assumes "0 < outlen" "outlen \<le> 64" and "length key \<le> 64"
  shows "blake2b True outlen (Some msg) (length msg) (Some key) (length key) =
      (0, Some (rfc_blake2b outlen key msg)) \<and> length (rfc_blake2b outlen key msg) = outlen"
  using blake2b_correct [OF assms] length_rfc_blake2b [OF assms(2)] by blast

theorem blake2b_RFC7693_witness:
  "fst (blake2b True 32 (Some [1, 2]) (length [1, 2 :: u8]) (Some [7]) (length [7 :: u8])) = 0"
  using blake2b_RFC7693 [of 32 "[7]" "[1, 2]"] by simp

definition update_all :: "u8 list list \<Rightarrow> blake2b_state \<Rightarrow> blake2b_state" where
  "update_all ps S = fold (\<lambda>p S. snd (blake2b_update S (Some p) (length p))) ps S"

lemma absorbs_update_all:
  assumes "absorbs S h n d" and "chain h n (d @ concat ps) = (h', n', d')"
  shows "absorbs (update_all ps S) h' n' d' \<and> st_outlen (update_all ps S) = st_outlen S"
  using assms
proof (induction ps arbitrary: S h n d)
  case Nil
  then show ?case by (auto simp: update_all_def absorbs_def chain.simps [of h n d])
next
  case (Cons p ps)
  obtain h1 n1 d1 where c: "chain h n (d @ p) = (h1, n1, d1)" by (metis prod_cases3)
  obtain S1 where S1: "blake2b_update S (Some (p @ [])) (length p) = (0, S1)" "absorbs S1 h1 n1 d1" "st_outlen S1 = st_outlen S"
    using absorbs_update [OF Cons.prems(1) refl c] by blast
  have "chain h1 n1 (d1 @ concat ps) = (h', n', d')"
    using Cons.prems(2) c chain_append [of h n "d @ p" "concat ps"] by simp
  from Cons.IH [OF S1(2) this] show ?case using S1 by (simp add: update_all_def)
qed

lemma update_all_final:
  assumes "0 < outlen" "outlen \<le> 64" and "blake2b_init S0 outlen = (ret, S)"
  shows "ret = 0 \<and> (\<exists>S'. blake2b_final (update_all ps S) outlen = (0, Some (rfc_blake2b outlen [] (concat ps)), S') \<and>
    st_f0 S' \<noteq> 0)"
proof -
  have S: "ret = 0" "absorbs S (rfc_h0 outlen 0) 0 []" "st_outlen S = outlen"
    using absorbs_init_param [of outlen 0 S0] assms(1-3) by (auto simp: blake2b_init_def)
  obtain h n d where c: "chain (rfc_h0 outlen 0) 0 ([] @ concat ps) = (h, n, d)" by (metis prod_cases3)
  note u = absorbs_update_all [OF S(2) c]
  then obtain S3 where "blake2b_final (update_all ps S) outlen =
      (0, Some (take outlen (out_bytes (rfc_F h (pad_block d) (n + length d) True))), S3)" "st_f0 S3 \<noteq> 0"
    using absorbs_final [of "update_all ps S" h n d outlen] S(3) by auto
  moreover have "chain (rfc_h0 outlen (length [])) 0 ((if [] = [] then [] else pad_block []) @ concat ps) = (h, n, d)"
    using c by simp
  note rfc_blake2b_chain [OF this]
  ultimately show ?thesis using S(1) by auto
qed

text \<open>
  The streaming interface hashes the concatenation of its pieces: however the message is cut
  into updates, empty ones included, the final call succeeds with the digest the standard gives for
  the whole message; afterwards the state is spent and both further updates and a second final
  call are refused.
\<close>

theorem blake2b_streaming:
  assumes "0 < outlen" "outlen \<le> 64" and "blake2b_init S0 outlen = (ret, S)"
    and "blake2b_final (update_all ps S) outlen = (ret', digest, S')" and "p \<noteq> []"
  shows "ret = 0 \<and> ret' = 0 \<and> digest = Some (rfc_blake2b outlen [] (concat ps)) \<and>
    fst (blake2b_update S' (Some p) (length p)) = -1 \<and> fst (blake2b_final S' outlen) = -1"
  using update_all_final [OF assms(1-3), of ps] assms(4,5) by (auto simp: blake2b_update_def blake2b_final_def)

theorem blake2b_streaming_witness:
  "let S = snd (blake2b_init blake2b_zero 20); (ret, digest, S') = blake2b_final (update_all [[1], [], [2, 3]] S) 20
   in ret = 0 \<and> digest = Some (rfc_blake2b 20 [] [1, 2, 3])"
proof -
  have "blake2b_init blake2b_zero 20 = (fst (blake2b_init blake2b_zero 20), snd (blake2b_init blake2b_zero 20))" by simp
  from blake2b_streaming [OF _ _ this, of "[[1], [], [2, 3]]" _ _ _ "[9]"] show ?thesis
    by (auto simp: Let_def split: prod.splits)
qed

section \<open>Variable-length output and RFC 9106\<close>

text \<open>
  RFC 9106, section 3.3: \<open>H'\<close> is one hash for at most 64 bytes; beyond, it is the first halves of a
  chain \<open>V\<^sub>1, \<dots>, V\<^sub>r\<close> of 64-byte hashes followed by a last hash of the length that is missing.
\<close>

definition rfc_V :: "u8 list \<Rightarrow> nat \<Rightarrow> u8 list" where
  "rfc_V a i = ((\<lambda>x. rfc_blake2b 64 [] x) ^^ i) (rfc_blake2b 64 [] a)"

definition rfc_Hprime :: "nat \<Rightarrow> u8 list \<Rightarrow> u8 list" where
  "rfc_Hprime T A =
     (let a = store32 (of_nat T) @ A
      in if T \<le> 64 then rfc_blake2b T [] a
         else let r = (T + 31) div 32 - 2
              in concat (map (\<lambda>i. take 32 (rfc_V a i)) [0..<r]) @ rfc_blake2b (T - 32 * r) [] (rfc_V a (r - 1)))"

lemma long_prefix_hash_correct:
  assumes "0 < outlen" "outlen \<le> 64"
  shows "long_prefix_hash outlen p inp = (0, Some (rfc_blake2b outlen [] (p @ inp)))"
proof -
  obtain S where S: "blake2b_init blake2b_zero outlen = (0, S)" "absorbs S (rfc_h0 outlen 0) 0 []" "st_outlen S = outlen"
    using absorbs_init_param [of outlen 0 blake2b_zero] assms by (auto simp: blake2b_init_def)
  obtain h1 n1 d1 where c1: "chain (rfc_h0 outlen 0) 0 ([] @ p) = (h1, n1, d1)" by (metis prod_cases3)
  obtain S1 where S1: "blake2b_update S (Some (p @ [])) (length p) = (0, S1)" "absorbs S1 h1 n1 d1" "st_outlen S1 = outlen"
    using absorbs_update [OF S(2) refl c1] S(3) by blast
  obtain h n d where c: "chain h1 n1 (d1 @ inp) = (h, n, d)" by (metis prod_cases3)
  obtain S2 where S2: "blake2b_update S1 (Some (inp @ [])) (length inp) = (0, S2)" "absorbs S2 h n d" "st_outlen S2 = outlen"
    using absorbs_update [OF S1(2) refl c] S1(3) by blast
  then obtain S3 where f: "blake2b_final S2 outlen =
      (0, Some (take outlen (out_bytes (rfc_F h (pad_block d) (n + length d) True))), S3)"
    using absorbs_final [OF S2(2), of outlen] by auto
  have "chain (rfc_h0 outlen (length [])) 0 ((if [] = [] then [] else pad_block []) @ p @ inp) = (h, n, d)"
    using chain_append [of "rfc_h0 outlen 0" 0 p inp] c1 c by simp
  from rfc_blake2b_chain [OF this] show ?thesis
    using S(1) S1(1) S2(1) f by (simp add: long_prefix_hash_def)
qed

lemma blake2b_64:
  assumes "0 < k" "k \<le> 64" and "length v = 64"
  shows "blake2b True k (Some v) 64 None 0 = (0, Some (rfc_blake2b k [] v))"
proof -
  have "blake2b True k (Some v) 64 None 0 = blake2b True k (Some v) (length v) (Some []) (length [])"
    using assms(3) by (simp add: blake2b_def)
  with blake2b_correct [OF assms(1,2), of "[]" v] show ?thesis by simp
qed

lemma long_loop_correct:
  assumes "32 < t" and "length v = 64"
  shows "long_loop out v t = (0, Some (out @
    (let q = (t - 33) div 32; V = (\<lambda>i. ((\<lambda>x. rfc_blake2b 64 [] x) ^^ i) v)
     in concat (map (\<lambda>i. take 32 (V (Suc i))) [0..<q]) @ rfc_blake2b (t - 32 * q) [] (V q))))"
  using assms
proof (induction out v t rule: long_loop.induct)
  case (1 out v t)
  show ?case
  proof (cases "t > 64")
    case True
    define q where "q = (t - 65) div 32"
    have e: "t - 33 = (t - 65) + 32" using True by simp
    have q: "(t - 33) div 32 = Suc q" "(t - 32 - 33) div 32 = q"
      unfolding e q_def by (simp_all add: diff_diff_left)
    let ?d = "rfc_blake2b 64 [] v"
    have up: "[0..<Suc q] = 0 # map Suc [0..<q]" by (simp add: upt_conv_Cons map_Suc_upt)
    have b: "blake2b True 64 (Some v) 64 None 0 = (0, Some ?d)" using 1(3) by (simp add: blake2b_64)
    have "long_loop out v t = long_loop (out @ take 32 ?d) ?d (t - 32)"
      using True b by (subst long_loop.simps) simp
    also have "\<dots> = (0, Some ((out @ take 32 ?d) @
      (let q = (t - 32 - 33) div 32; V = (\<lambda>i. ((\<lambda>x. rfc_blake2b 64 [] x) ^^ i) ?d)
       in concat (map (\<lambda>i. take 32 (V (Suc i))) [0..<q]) @ rfc_blake2b (t - 32 - 32 * q) [] (V q))))"
      using True b 1(1) [OF True b [symmetric]] by (simp add: length_rfc_blake2b)
    finally show ?thesis
      unfolding Let_def q up by (simp add: comp_def funpow_swap1 diff_diff_left)
  next
    case False
    then have "(t - 33) div 32 = 0" by simp
    then show ?thesis using False 1(2,3) blake2b_64 [of t v]
      by (subst long_loop.simps) (simp add: length_rfc_blake2b)
  qed
qed

lemma blake2b_long_correct:
  "blake2b_long outlen inp =
     (if 0 < outlen \<and> outlen < 2 ^ 32 then (0, Some (rfc_Hprime outlen inp)) else (-1, None)) \<and>
   (0 < outlen \<longrightarrow> length (rfc_Hprime outlen inp) = outlen)"
proof
  let ?a = "store32 (of_nat outlen) @ inp"
  show "blake2b_long outlen inp =
     (if 0 < outlen \<and> outlen < 2 ^ 32 then (0, Some (rfc_Hprime outlen inp)) else (-1, None))"
  proof (cases "0 < outlen \<and> outlen < 2 ^ 32")
    case range: True
    show ?thesis
    proof (cases "outlen \<le> 64")
      case True
      then show ?thesis
        using range long_prefix_hash_correct [of outlen] by (simp add: blake2b_long_def rfc_Hprime_def Let_def)
    next
      case False
      define q where "q = (outlen - 65) div 32"
      have e: "outlen + 31 = (outlen - 65) + 32 * 3" using False by simp
      then have r: "(outlen + 31) div 32 - 2 = Suc q" unfolding e q_def by simp
      have V: "length (rfc_blake2b 64 [] ?a) = 64" by (simp add: length_rfc_blake2b)
      have up: "[0..<Suc q] = 0 # map Suc [0..<q]" by (simp add: upt_conv_Cons map_Suc_upt)
      have "blake2b_long outlen inp = long_loop (take 32 (rfc_blake2b 64 [] ?a)) (rfc_blake2b 64 [] ?a) (outlen - 32)"
        using range False long_prefix_hash_correct [of 64] by (simp add: blake2b_long_def Let_def)
      also have "\<dots> = (0, Some (rfc_Hprime outlen inp))"
        using False long_loop_correct [OF _ V, of "outlen - 32"]
        unfolding rfc_Hprime_def Let_def r up q_def [symmetric]
        by (simp add: rfc_V_def comp_def q_def [symmetric] diff_diff_left)
      finally show ?thesis using range by simp
    qed
  next
    case False
    then show ?thesis
      by (auto simp: blake2b_long_def long_prefix_hash_def blake2b_init_def)
  qed
  show "0 < outlen \<longrightarrow> length (rfc_Hprime outlen inp) = outlen"
  proof (cases "outlen \<le> 64")
    case False
    define r where "r = (outlen + 31) div 32 - 2"
    have "32 * ((outlen + 31) div 32) \<le> outlen + 31" "outlen + 31 < 32 * ((outlen + 31) div 32) + 32"
      using div_mult_mod_eq [of "outlen + 31" 32] mod_less_divisor [of 32 "outlen + 31"] by linarith+
    then have r: "outlen - 32 * r \<le> 64" "32 * r \<le> outlen" using False unfolding r_def by linarith+
    have len: "length (rfc_V ?a i) = 64" for i
      by (cases i) (simp_all add: rfc_V_def length_rfc_blake2b)
    have "length (concat (map (\<lambda>i. take 32 (rfc_V ?a i)) [0..<r])) = 32 * r"
      by (simp add: length_concat comp_def len sum_list_triv)
    then show ?thesis
      using False r by (simp add: rfc_Hprime_def Let_def r_def [symmetric] length_rfc_blake2b)
  qed (simp add: rfc_Hprime_def length_rfc_blake2b Let_def)
qed

text \<open>
  \<open>blake2b_long\<close> computes the variable-length hash \<open>H'\<close> of RFC 9106 for every length from 1 to
  \<open>2\<^sup>3\<^sup>2 - 1\<close> bytes and every input, and the result has exactly that length: the loop ends and no
  inner call fails. A length of zero and longer requests are refused without output.
\<close>

theorem blake2b_long_RFC9106:
  "blake2b_long outlen inp =
     (if 0 < outlen \<and> outlen < 2 ^ 32 then (0, Some (rfc_Hprime outlen inp)) else (-1, None)) \<and>
   (0 < outlen \<longrightarrow> length (rfc_Hprime outlen inp) = outlen)"
  by (rule blake2b_long_correct)

theorem blake2b_long_RFC9106_witness: "blake2b_long 1024 [1] = (0, Some (rfc_Hprime 1024 [1]))"
  using blake2b_long_RFC9106 [of 1024 "[1]"] by simp

end
