(* ===== verification/Argon2Core.thy ===== *)
theory Argon2Core
  imports Blake2b
begin

text \<open>
  The memory-hard core of Argon2: \<^verbatim>\<open>src/crypto/argon2/src/ref.c\<close>, \<^verbatim>\<open>core.c\<close> and
  \<^verbatim>\<open>blake2/blamka-round-ref.h\<close>. A block is a list of 128 words, the memory is a list of blocks, and
  a loop variable that runs below a 32-bit bound is a natural number.

  The body of the loop of \<open>fill_segment\<close> is split into the part that only concerns the thread's
  local variables (\<open>seg_pre\<close>, \<open>seg_post\<close>) and the part that reads and writes the shared memory
  (\<open>seg_write\<close>). The multi-threaded filling runs the writes of the lanes of a slice in an order
  chosen by the scheduler.
\<close>

type_synonym argon2_block = "u64 list"

abbreviation (input) ARGON2_SYNC_POINTS :: u32 where "ARGON2_SYNC_POINTS \<equiv> 4"
abbreviation (input) ARGON2_QWORDS_IN_BLOCK :: nat where "ARGON2_QWORDS_IN_BLOCK \<equiv> 128"
abbreviation (input) ARGON2_ADDRESSES_IN_BLOCK :: nat where "ARGON2_ADDRESSES_IN_BLOCK \<equiv> 128"
abbreviation (input) ARGON2_BLOCK_SIZE :: nat where "ARGON2_BLOCK_SIZE \<equiv> 1024"
abbreviation (input) ARGON2_VERSION_10 :: u32 where "ARGON2_VERSION_10 \<equiv> 0x10"
abbreviation (input) ARGON2_VERSION_NUMBER :: u32 where "ARGON2_VERSION_NUMBER \<equiv> 0x13"

datatype argon2_type = Argon2_d | Argon2_i | Argon2_id

fun type_code :: "argon2_type \<Rightarrow> u32" where
  "type_code Argon2_d = 0"
| "type_code Argon2_i = 1"
| "type_code Argon2_id = 2"

record argon2_instance =
  in_version :: u32
  in_passes :: u32
  in_memory_blocks :: u32
  in_segment_length :: u32
  in_lane_length :: u32
  in_lanes :: u32
  in_threads :: u32
  in_type :: argon2_type

record argon2_position =
  pos_pass :: u32
  pos_lane :: u32
  pos_slice :: u8
  pos_index :: u32

section \<open>Blocks\<close>

definition init_block_value :: "u8 \<Rightarrow> argon2_block" where
  "init_block_value b = replicate ARGON2_QWORDS_IN_BLOCK (load64 (replicate 8 b))"

definition xor_block :: "argon2_block \<Rightarrow> argon2_block \<Rightarrow> argon2_block" where
  "xor_block dst src = map (\<lambda>i. dst ! i XOR src ! i) [0..<ARGON2_QWORDS_IN_BLOCK]"

definition load_block :: "u8 list \<Rightarrow> argon2_block" where
  "load_block input = map (\<lambda>i. load64 (drop (i * 8) input)) [0..<ARGON2_QWORDS_IN_BLOCK]"

definition store_block :: "argon2_block \<Rightarrow> u8 list" where
  "store_block src = concat (map (\<lambda>i. store64 (src ! i)) [0..<ARGON2_QWORDS_IN_BLOCK])"

definition fBlaMka :: "u64 \<Rightarrow> u64 \<Rightarrow> u64" where
  "fBlaMka x y =
     (let m = 0xFFFFFFFF; xy = (x AND m) * (y AND m) in x + y + 2 * xy)"

definition blamka_G :: "nat \<Rightarrow> nat \<Rightarrow> nat \<Rightarrow> nat \<Rightarrow> u64 list \<Rightarrow> u64 list" where
  "blamka_G ia ib ic jd v =
     (let a = v ! ia; b = v ! ib; c = v ! ic; d = v ! jd;
          a = fBlaMka a b;
          d = rotr64 (d XOR a) 32;
          c = fBlaMka c d;
          b = rotr64 (b XOR c) 24;
          a = fBlaMka a b;
          d = rotr64 (d XOR a) 16;
          c = fBlaMka c d;
          b = rotr64 (b XOR c) 63
      in v[ia := a, ib := b, ic := c, jd := d])"

definition BLAKE2_ROUND_NOMSG :: "nat list \<Rightarrow> u64 list \<Rightarrow> u64 list" where
  "BLAKE2_ROUND_NOMSG x v =
     (let v = blamka_G (x ! 0) (x ! 4) (x ! 8) (x ! 12) v;
          v = blamka_G (x ! 1) (x ! 5) (x ! 9) (x ! 13) v;
          v = blamka_G (x ! 2) (x ! 6) (x ! 10) (x ! 14) v;
          v = blamka_G (x ! 3) (x ! 7) (x ! 11) (x ! 15) v;
          v = blamka_G (x ! 0) (x ! 5) (x ! 10) (x ! 15) v;
          v = blamka_G (x ! 1) (x ! 6) (x ! 11) (x ! 12) v;
          v = blamka_G (x ! 2) (x ! 7) (x ! 8) (x ! 13) v
      in blamka_G (x ! 3) (x ! 4) (x ! 9) (x ! 14) v)"

definition fill_block :: "argon2_block \<Rightarrow> argon2_block \<Rightarrow> argon2_block \<Rightarrow> bool \<Rightarrow> argon2_block" where
  "fill_block prev_block ref_block next_block with_xor =
     (let blockR = xor_block ref_block prev_block;
          block_tmp = blockR;
          block_tmp = (if with_xor then xor_block block_tmp next_block else block_tmp);
          blockR = fold (\<lambda>i. BLAKE2_ROUND_NOMSG
              [16 * i, 16 * i + 1, 16 * i + 2, 16 * i + 3, 16 * i + 4, 16 * i + 5, 16 * i + 6, 16 * i + 7,
               16 * i + 8, 16 * i + 9, 16 * i + 10, 16 * i + 11, 16 * i + 12, 16 * i + 13, 16 * i + 14,
               16 * i + 15]) [0..<8] blockR;
          blockR = fold (\<lambda>i. BLAKE2_ROUND_NOMSG
              [2 * i, 2 * i + 1, 2 * i + 16, 2 * i + 17, 2 * i + 32, 2 * i + 33, 2 * i + 48, 2 * i + 49,
               2 * i + 64, 2 * i + 65, 2 * i + 80, 2 * i + 81, 2 * i + 96, 2 * i + 97, 2 * i + 112,
               2 * i + 113]) [0..<8] blockR
      in xor_block block_tmp blockR)"

text \<open>The address block and the input block with its counter.\<close>

definition next_addresses :: "argon2_block \<Rightarrow> argon2_block \<times> argon2_block" where
  "next_addresses input_block =
     (let zero_block = init_block_value 0;
          input_block = input_block[6 := input_block ! 6 + 1];
          address_block = fill_block zero_block input_block zero_block False;
          address_block = fill_block zero_block address_block zero_block False
      in (address_block, input_block))"

section \<open>The reference block\<close>

definition index_alpha :: "argon2_instance \<Rightarrow> argon2_position \<Rightarrow> u32 \<Rightarrow> bool \<Rightarrow> u32" where
  "index_alpha instance position pseudo_rand same_lane =
     (let slice = (ucast (pos_slice position) :: u32);
          reference_area_size =
            (if 0 = pos_pass position
             then if 0 = pos_slice position then pos_index position - 1
                  else if same_lane then slice * in_segment_length instance + pos_index position - 1
                  else slice * in_segment_length instance + (if pos_index position = 0 then -1 else 0)
             else if same_lane
             then in_lane_length instance - in_segment_length instance + pos_index position - 1
             else in_lane_length instance - in_segment_length instance + (if pos_index position = 0 then -1 else 0));
          relative_position = (ucast pseudo_rand :: u64);
          relative_position = drop_bit 32 (relative_position * relative_position);
          relative_position = ucast (reference_area_size - 1) - drop_bit 32 (ucast reference_area_size * relative_position);
          start_position =
            (if 0 \<noteq> pos_pass position
             then if slice = ARGON2_SYNC_POINTS - 1 then 0 else (slice + 1) * in_segment_length instance
             else 0)
      in ucast ((ucast start_position + relative_position) mod (ucast (in_lane_length instance) :: u64)))"

section \<open>A segment\<close>

record seg_local =
  sl_address :: argon2_block
  sl_input :: argon2_block
  sl_curr :: u32
  sl_prev :: u32

definition data_independent_addressing :: "argon2_instance \<Rightarrow> argon2_position \<Rightarrow> bool" where
  "data_independent_addressing instance position \<longleftrightarrow>
     in_type instance = Argon2_i \<or>
     in_type instance = Argon2_id \<and> pos_pass position = 0 \<and>
       ucast (pos_slice position) < ARGON2_SYNC_POINTS div 2"

definition starting_index :: "argon2_position \<Rightarrow> nat" where
  "starting_index position = (if pos_pass position = 0 \<and> pos_slice position = 0 then 2 else 0)"

definition seg_init :: "argon2_instance \<Rightarrow> argon2_position \<Rightarrow> seg_local" where
  "seg_init instance position =
     (let input_block =
            (if data_independent_addressing instance position
             then (init_block_value 0)
               [0 := ucast (pos_pass position), 1 := ucast (pos_lane position), 2 := ucast (pos_slice position),
                3 := ucast (in_memory_blocks instance), 4 := ucast (in_passes instance),
                5 := ucast (type_code (in_type instance))]
             else []);
          (address_block, input_block) =
            (if pos_pass position = 0 \<and> pos_slice position = 0 \<and> data_independent_addressing instance position
             then next_addresses input_block else ([], input_block));
          curr_offset = pos_lane position * in_lane_length instance +
            ucast (pos_slice position) * in_segment_length instance + of_nat (starting_index position);
          prev_offset = (if 0 = curr_offset mod in_lane_length instance
                         then curr_offset + in_lane_length instance - 1 else curr_offset - 1)
      in \<lparr>sl_address = address_block, sl_input = input_block, sl_curr = curr_offset, sl_prev = prev_offset\<rparr>)"

definition seg_pre :: "argon2_instance \<Rightarrow> argon2_position \<Rightarrow> nat \<Rightarrow> seg_local \<Rightarrow> seg_local" where
  "seg_pre instance position i loc =
     (let loc = (if sl_curr loc mod in_lane_length instance = 1 then loc\<lparr>sl_prev := sl_curr loc - 1\<rparr> else loc)
      in if data_independent_addressing instance position \<and> i mod ARGON2_ADDRESSES_IN_BLOCK = 0
         then case next_addresses (sl_input loc) of
                (address_block, input_block) \<Rightarrow> loc\<lparr>sl_address := address_block, sl_input := input_block\<rparr>
         else loc)"

definition seg_post :: "seg_local \<Rightarrow> seg_local" where
  "seg_post loc = loc\<lparr>sl_curr := sl_curr loc + 1, sl_prev := sl_prev loc + 1\<rparr>"

definition seg_rand ::
  "argon2_instance \<Rightarrow> argon2_position \<Rightarrow> nat \<Rightarrow> seg_local \<Rightarrow> argon2_block list \<Rightarrow> u64" where
  "seg_rand instance position i loc memory =
     (if data_independent_addressing instance position
      then sl_address loc ! (i mod ARGON2_ADDRESSES_IN_BLOCK)
      else memory ! unat (sl_prev loc) ! 0)"

definition seg_ref_lane :: "argon2_instance \<Rightarrow> argon2_position \<Rightarrow> u64 \<Rightarrow> u64" where
  "seg_ref_lane instance position pseudo_rand =
     (if pos_pass position = 0 \<and> pos_slice position = 0 then ucast (pos_lane position)
      else drop_bit 32 pseudo_rand mod ucast (in_lanes instance))"

text \<open>The position of the reference block in memory.\<close>

definition seg_ref :: "argon2_instance \<Rightarrow> argon2_position \<Rightarrow> nat \<Rightarrow> u64 \<Rightarrow> nat" where
  "seg_ref instance position i pseudo_rand =
     (let ref_lane = seg_ref_lane instance position pseudo_rand;
          ref_index = index_alpha instance (position\<lparr>pos_index := of_nat i\<rparr>)
            (ucast (pseudo_rand AND 0xFFFFFFFF)) (ref_lane = ucast (pos_lane position))
      in unat (ucast (in_lane_length instance) * ref_lane + ucast ref_index :: u64))"

definition seg_write ::
  "argon2_instance \<Rightarrow> argon2_position \<Rightarrow> nat \<Rightarrow> seg_local \<Rightarrow> argon2_block list \<Rightarrow> argon2_block list" where
  "seg_write instance position i loc memory =
     (let pseudo_rand = seg_rand instance position i loc memory;
          ref_block = memory ! seg_ref instance position i pseudo_rand;
          curr = unat (sl_curr loc);
          prev_block = memory ! unat (sl_prev loc)
      in memory[curr := fill_block prev_block ref_block (memory ! curr)
           (\<not> ARGON2_VERSION_10 = in_version instance \<and> \<not> 0 = pos_pass position)])"

definition fill_segment ::
  "argon2_instance \<Rightarrow> argon2_position \<Rightarrow> argon2_block list \<Rightarrow> argon2_block list" where
  "fill_segment instance position memory =
     snd (fold (\<lambda>i (loc, memory). let loc = seg_pre instance position i loc
                                  in (seg_post loc, seg_write instance position i loc memory))
            [starting_index position..<unat (in_segment_length instance)]
            (seg_init instance position, memory))"

section \<open>All segments\<close>

definition position_at :: "nat \<Rightarrow> nat \<Rightarrow> nat \<Rightarrow> argon2_position" where
  "position_at r s l = \<lparr>pos_pass = of_nat r, pos_lane = of_nat l, pos_slice = of_nat s, pos_index = 0\<rparr>"

definition fill_memory_blocks_st :: "argon2_instance \<Rightarrow> argon2_block list \<Rightarrow> argon2_block list" where
  "fill_memory_blocks_st instance memory =
     fold (\<lambda>r. fold (\<lambda>s. fold (\<lambda>l. fill_segment instance (position_at r s l))
                            [0..<unat (in_lanes instance)]) [0..<4])
       [0..<unat (in_passes instance)] memory"

text \<open>
  A thread of lane \<open>l\<close> performs the steps \<open>(l, i)\<close> in the order of \<open>i\<close>; \<open>local_at\<close> is the value of its
  local variables in iteration \<open>i\<close>. The scheduler yields, for a pass and a slice, the order in
  which steps of the lanes take place, and whether every thread could be created and joined; when
  one could not, the filling stops after the steps that did take place.
\<close>

definition local_at :: "argon2_instance \<Rightarrow> argon2_position \<Rightarrow> nat \<Rightarrow> seg_local" where
  "local_at instance position i =
     seg_pre instance position i
       (fold (\<lambda>j loc. seg_post (seg_pre instance position j loc)) [starting_index position..<i]
         (seg_init instance position))"

definition thread_step ::
  "argon2_instance \<Rightarrow> nat \<Rightarrow> nat \<Rightarrow> nat \<times> nat \<Rightarrow> argon2_block list \<Rightarrow> argon2_block list" where
  "thread_step instance r s = (\<lambda>(l, i).
     seg_write instance (position_at r s l) i (local_at instance (position_at r s l) i))"

type_synonym schedule = "nat \<Rightarrow> nat \<Rightarrow> (nat \<times> nat) list \<times> bool"

definition fill_memory_blocks_mt ::
  "schedule \<Rightarrow> argon2_instance \<Rightarrow> argon2_block list \<Rightarrow> argon2_block list \<times> bool" where
  "fill_memory_blocks_mt sched instance memory =
     fold (\<lambda>r. fold (\<lambda>s (memory, ok).
                 if \<not> ok then (memory, False)
                 else (fold (thread_step instance r s) (fst (sched r s)) memory, snd (sched r s))) [0..<4])
       [0..<unat (in_passes instance)] (memory, True)"

section \<open>The first and the last blocks\<close>

definition fill_first_blocks ::
  "u8 list \<Rightarrow> argon2_instance \<Rightarrow> argon2_block list \<Rightarrow> argon2_block list" where
  "fill_first_blocks blockhash instance memory =
     fold (\<lambda>l memory.
         let seed = (\<lambda>k. take 64 blockhash @ store32 k @ store32 (of_nat l));
             bytes = (\<lambda>k. the (snd (blake2b_long ARGON2_BLOCK_SIZE (seed k))));
             at = (\<lambda>k. unat (of_nat l * in_lane_length instance + k));
             memory = memory[at 0 := load_block (bytes 0)]
         in memory[at 1 := load_block (bytes 1)])
       [0..<unat (in_lanes instance)] memory"

definition final_block :: "argon2_instance \<Rightarrow> argon2_block list \<Rightarrow> argon2_block" where
  "final_block instance memory =
     fold (\<lambda>l blockhash. xor_block blockhash
             (memory ! unat (of_nat l * in_lane_length instance + (in_lane_length instance - 1))))
       [1..<unat (in_lanes instance)] (memory ! unat (in_lane_length instance - 1))"

end
