(* ===== verification/Argon2.thy ===== *)
theory Argon2
  imports Argon2Core
begin

text \<open>
  The interface of Argon2 as this program has it, with a persistent memory buffer:
  \<^verbatim>\<open>src/crypto/argon2/src/argon2.c\<close>, \<^verbatim>\<open>core.c\<close> and \<^verbatim>\<open>include/argon2.h\<close>. The record
  \<open>argon2_env\<close> holds what the machine decides: the memory \<open>malloc\<close> or an allocation call-back
  returns for a number of blocks (with its indeterminate contents), whether small allocations
  succeed (a thread handle has 8 bytes and the data of a thread 24), and the scheduling of threads. A function returns its error code, the bytes written to
  the output, and the context and buffer it leaves behind.
\<close>

section \<open>Codes and parameters\<close>

datatype argon2_error_codes =
    ARGON2_OK
  | ARGON2_OUTPUT_PTR_NULL
  | ARGON2_OUTPUT_TOO_SHORT | ARGON2_OUTPUT_TOO_LONG
  | ARGON2_PWD_TOO_SHORT | ARGON2_PWD_TOO_LONG
  | ARGON2_SALT_TOO_SHORT | ARGON2_SALT_TOO_LONG
  | ARGON2_AD_TOO_SHORT | ARGON2_AD_TOO_LONG
  | ARGON2_SECRET_TOO_SHORT | ARGON2_SECRET_TOO_LONG
  | ARGON2_TIME_TOO_SMALL | ARGON2_TIME_TOO_LARGE
  | ARGON2_MEMORY_TOO_LITTLE | ARGON2_MEMORY_TOO_MUCH
  | ARGON2_LANES_TOO_FEW | ARGON2_LANES_TOO_MANY
  | ARGON2_PWD_PTR_MISMATCH | ARGON2_SALT_PTR_MISMATCH
  | ARGON2_SECRET_PTR_MISMATCH | ARGON2_AD_PTR_MISMATCH
  | ARGON2_MEMORY_ALLOCATION_ERROR
  | ARGON2_FREE_MEMORY_CBK_NULL | ARGON2_ALLOCATE_MEMORY_CBK_NULL
  | ARGON2_INCORRECT_PARAMETER | ARGON2_INCORRECT_TYPE
  | ARGON2_OUT_PTR_MISMATCH
  | ARGON2_THREADS_TOO_FEW | ARGON2_THREADS_TOO_MANY
  | ARGON2_MISSING_ARGS
  | ARGON2_ENCODING_FAIL | ARGON2_DECODING_FAIL
  | ARGON2_THREAD_FAIL
  | ARGON2_DECODING_LENGTH_FAIL
  | ARGON2_VERIFY_MISMATCH
  | ARGON2_BUFFER_SIZE_TOO_SMALL

abbreviation (input) ARGON2_MIN_LANES :: u32 where "ARGON2_MIN_LANES \<equiv> 1"
abbreviation (input) ARGON2_MAX_LANES :: u32 where "ARGON2_MAX_LANES \<equiv> 0xFFFFFF"
abbreviation (input) ARGON2_MIN_THREADS :: u32 where "ARGON2_MIN_THREADS \<equiv> 1"
abbreviation (input) ARGON2_MAX_THREADS :: u32 where "ARGON2_MAX_THREADS \<equiv> 0xFFFFFF"
abbreviation (input) ARGON2_MIN_OUTLEN :: u32 where "ARGON2_MIN_OUTLEN \<equiv> 4"
abbreviation (input) ARGON2_MAX_LEN :: u32 where "ARGON2_MAX_LEN \<equiv> 0xFFFFFFFF"
abbreviation (input) ARGON2_MIN_MEMORY :: u32 where "ARGON2_MIN_MEMORY \<equiv> 8"
abbreviation (input) ARGON2_MIN_TIME :: u32 where "ARGON2_MIN_TIME \<equiv> 1"
abbreviation (input) ARGON2_MIN_SALT_LENGTH :: u32 where "ARGON2_MIN_SALT_LENGTH \<equiv> 8"
abbreviation (input) ARGON2_FLAG_CLEAR_PASSWORD :: u32 where "ARGON2_FLAG_CLEAR_PASSWORD \<equiv> 1"
abbreviation (input) ARGON2_FLAG_CLEAR_SECRET :: u32 where "ARGON2_FLAG_CLEAR_SECRET \<equiv> 2"

text \<open>A null pointer is \<open>None\<close>.\<close>

record argon2_buffer =
  bf_blocks :: u32
  bf_memory :: "argon2_block list option"
  bf_clear :: bool

record argon2_context =
  cx_out :: bool
  cx_outlen :: u32
  cx_pwd :: "u8 list option"
  cx_pwdlen :: u32
  cx_salt :: "u8 list option"
  cx_saltlen :: u32
  cx_secret :: "u8 list option"
  cx_secretlen :: u32
  cx_ad :: "u8 list option"
  cx_adlen :: u32
  cx_t_cost :: u32
  cx_m_cost :: u32
  cx_lanes :: u32
  cx_threads :: u32
  cx_buffer :: "argon2_buffer option"
  cx_version :: u32
  cx_allocate_cbk :: bool
  cx_free_cbk :: bool
  cx_flags :: u32

record argon2_env =
  ae_alloc :: "nat \<Rightarrow> argon2_block list option"
  ae_malloc :: "nat \<Rightarrow> bool"
  ae_sched :: schedule

section \<open>Core functions\<close>

definition validate_inputs :: "argon2_context \<Rightarrow> argon2_error_codes" where
  "validate_inputs c =
     (if \<not> cx_out c then ARGON2_OUTPUT_PTR_NULL
      else if ARGON2_MIN_OUTLEN > cx_outlen c then ARGON2_OUTPUT_TOO_SHORT
      else if ARGON2_MAX_LEN < cx_outlen c then ARGON2_OUTPUT_TOO_LONG
      else if cx_pwd c = None \<and> 0 \<noteq> cx_pwdlen c then ARGON2_PWD_PTR_MISMATCH
      else if ARGON2_MAX_LEN < cx_pwdlen c then ARGON2_PWD_TOO_LONG
      else if cx_salt c = None \<and> 0 \<noteq> cx_saltlen c then ARGON2_SALT_PTR_MISMATCH
      else if ARGON2_MIN_SALT_LENGTH > cx_saltlen c then ARGON2_SALT_TOO_SHORT
      else if ARGON2_MAX_LEN < cx_saltlen c then ARGON2_SALT_TOO_LONG
      else if cx_secret c = None \<and> 0 \<noteq> cx_secretlen c then ARGON2_SECRET_PTR_MISMATCH
      else if cx_secret c \<noteq> None \<and> ARGON2_MAX_LEN < cx_secretlen c then ARGON2_SECRET_TOO_LONG
      else if cx_ad c = None \<and> 0 \<noteq> cx_adlen c then ARGON2_AD_PTR_MISMATCH
      else if cx_ad c \<noteq> None \<and> ARGON2_MAX_LEN < cx_adlen c then ARGON2_AD_TOO_LONG
      else if ARGON2_MIN_MEMORY > cx_m_cost c then ARGON2_MEMORY_TOO_LITTLE
      else if cx_m_cost c < 8 * cx_lanes c then ARGON2_MEMORY_TOO_LITTLE
      else if ARGON2_MIN_TIME > cx_t_cost c then ARGON2_TIME_TOO_SMALL
      else if ARGON2_MAX_LEN < cx_t_cost c then ARGON2_TIME_TOO_LARGE
      else if ARGON2_MIN_LANES > cx_lanes c then ARGON2_LANES_TOO_FEW
      else if ARGON2_MAX_LANES < cx_lanes c then ARGON2_LANES_TOO_MANY
      else if ARGON2_MIN_THREADS > cx_threads c then ARGON2_THREADS_TOO_FEW
      else if ARGON2_MAX_THREADS < cx_threads c then ARGON2_THREADS_TOO_MANY
      else if cx_allocate_cbk c \<and> \<not> cx_free_cbk c then ARGON2_FREE_MEMORY_CBK_NULL
      else if \<not> cx_allocate_cbk c \<and> cx_free_cbk c then ARGON2_ALLOCATE_MEMORY_CBK_NULL
      else ARGON2_OK)"

text \<open>On a 64-bit machine the product in the overflow check does not wrap.\<close>

definition allocate_memory :: "argon2_env \<Rightarrow> u32 \<Rightarrow> argon2_error_codes \<times> argon2_block list" where
  "allocate_memory env num =
     (let memory_size = ucast num * (1024 :: u64)
      in if memory_size div 1024 \<noteq> ucast num then (ARGON2_MEMORY_ALLOCATION_ERROR, [])
         else case ae_alloc env (unat num) of
                None \<Rightarrow> (ARGON2_MEMORY_ALLOCATION_ERROR, [])
              | Some memory \<Rightarrow> (ARGON2_OK, memory))"

text \<open>One call of \<open>blake2b_update\<close> whose return code is ignored.\<close>

definition hash_in :: "u8 list \<Rightarrow> blake2b_state \<Rightarrow> blake2b_state" where
  "hash_in p S = snd (blake2b_update S (Some p) (length p))"

definition hash_opt :: "u8 list option \<Rightarrow> u32 \<Rightarrow> blake2b_state \<Rightarrow> blake2b_state" where
  "hash_opt p n S = (case p of None \<Rightarrow> S | Some p \<Rightarrow> hash_in (take (unat n) p) S)"

text \<open>The flags ask for the password and the secret to be wiped once they are hashed.\<close>

definition clear_pwd :: "argon2_context \<Rightarrow> argon2_context" where
  "clear_pwd c =
     (if cx_pwd c \<noteq> None \<and> cx_flags c AND ARGON2_FLAG_CLEAR_PASSWORD \<noteq> 0
      then c\<lparr>cx_pwd := map_option (\<lambda>p. write_at p 0 (replicate (unat (cx_pwdlen c)) 0)) (cx_pwd c),
             cx_pwdlen := 0\<rparr> else c)"

definition clear_secret :: "argon2_context \<Rightarrow> argon2_context" where
  "clear_secret c =
     (if cx_secret c \<noteq> None \<and> cx_flags c AND ARGON2_FLAG_CLEAR_SECRET \<noteq> 0
      then c\<lparr>cx_secret := map_option (\<lambda>p. write_at p 0 (replicate (unat (cx_secretlen c)) 0)) (cx_secret c),
             cx_secretlen := 0\<rparr> else c)"

definition initial_hash :: "argon2_context \<Rightarrow> argon2_type \<Rightarrow> u8 list \<times> argon2_context" where
  "initial_hash c type =
     (let S = snd (blake2b_init blake2b_zero 64);
          S = hash_in (store32 (cx_lanes c)) S;
          S = hash_in (store32 (cx_outlen c)) S;
          S = hash_in (store32 (cx_m_cost c)) S;
          S = hash_in (store32 (cx_t_cost c)) S;
          S = hash_in (store32 (cx_version c)) S;
          S = hash_in (store32 (type_code type)) S;
          S = hash_in (store32 (cx_pwdlen c)) S;
          S = hash_opt (cx_pwd c) (cx_pwdlen c) S;
          c = clear_pwd c;
          S = hash_in (store32 (cx_saltlen c)) S;
          S = hash_opt (cx_salt c) (cx_saltlen c) S;
          S = hash_in (store32 (cx_secretlen c)) S;
          S = hash_opt (cx_secret c) (cx_secretlen c) S;
          c = clear_secret c;
          S = hash_in (store32 (cx_adlen c)) S;
          S = hash_opt (cx_ad c) (cx_adlen c) S
      in case blake2b_final S 64 of (ret, digest, S) \<Rightarrow> (the digest, c))"

text \<open>
  The code, the memory and the context. Memory is allocated only when no buffer provides it.
\<close>

definition initialize ::
  "argon2_env \<Rightarrow> argon2_instance \<Rightarrow> argon2_block list option \<Rightarrow> argon2_context \<Rightarrow>
   argon2_error_codes \<times> argon2_block list \<times> argon2_context" where
  "initialize env instance memory context =
     (case (case memory of None \<Rightarrow> allocate_memory env (in_memory_blocks instance)
                         | Some memory \<Rightarrow> (ARGON2_OK, memory)) of
        (result, memory) \<Rightarrow>
          if result \<noteq> ARGON2_OK then (result, memory, context)
          else case initial_hash context (in_type instance) of
                 (blockhash, context) \<Rightarrow> (ARGON2_OK, fill_first_blocks blockhash instance memory, context))"

definition fill_memory_blocks ::
  "argon2_env \<Rightarrow> argon2_instance \<Rightarrow> argon2_block list \<Rightarrow> argon2_error_codes \<times> argon2_block list" where
  "fill_memory_blocks env instance memory =
     (if in_lanes instance = 0 then (ARGON2_INCORRECT_PARAMETER, memory)
      else if in_threads instance = 1 then (ARGON2_OK, fill_memory_blocks_st instance memory)
      else if \<not> (ae_malloc env (unat (in_lanes instance) * 8) \<and> ae_malloc env (unat (in_lanes instance) * 24))
      then (ARGON2_MEMORY_ALLOCATION_ERROR, memory)
      else case fill_memory_blocks_mt (ae_sched env) instance memory of
             (memory, ok) \<Rightarrow> (if ok then ARGON2_OK else ARGON2_THREAD_FAIL, memory))"

text \<open>The digest and the contents of the buffer; a buffer is wiped when it asks for it.\<close>

definition free_memory :: "argon2_context \<Rightarrow> u32 \<Rightarrow> argon2_block list \<Rightarrow> argon2_block list" where
  "free_memory context num memory =
     (let doclear = (case cx_buffer context of None \<Rightarrow> True | Some b \<Rightarrow> bf_clear b)
      in if doclear then write_at memory 0 (replicate (unat num) (init_block_value 0)) else memory)"

definition finalize ::
  "argon2_context \<Rightarrow> argon2_instance \<Rightarrow> argon2_block list \<Rightarrow> u8 list \<times> argon2_block list" where
  "finalize context instance memory =
     (the (snd (blake2b_long (unat (cx_outlen context)) (store_block (final_block instance memory)))),
      free_memory context (in_memory_blocks instance) memory)"

section \<open>The context function\<close>

definition segment_length_of :: "argon2_context \<Rightarrow> u32" where
  "segment_length_of c =
     (let memory_blocks = cx_m_cost c;
          memory_blocks = (if memory_blocks < 2 * ARGON2_SYNC_POINTS * cx_lanes c
                           then 2 * ARGON2_SYNC_POINTS * cx_lanes c else memory_blocks)
      in memory_blocks div (cx_lanes c * ARGON2_SYNC_POINTS))"

definition instance_of :: "argon2_context \<Rightarrow> argon2_type \<Rightarrow> argon2_instance" where
  "instance_of c type =
     (let segment_length = segment_length_of c
      in \<lparr>in_version = cx_version c, in_passes = cx_t_cost c,
          in_memory_blocks = segment_length * (cx_lanes c * ARGON2_SYNC_POINTS),
          in_segment_length = segment_length, in_lane_length = segment_length * ARGON2_SYNC_POINTS,
          in_lanes = cx_lanes c,
          in_threads = (if cx_threads c > cx_lanes c then cx_lanes c else cx_threads c), in_type = type\<rparr>)"

text \<open>The code, the digest (\<open>None\<close> when nothing is written) and the context afterwards.\<close>

definition argon2_ctx ::
  "argon2_env \<Rightarrow> argon2_context \<Rightarrow> argon2_type \<Rightarrow> argon2_error_codes \<times> u8 list option \<times> argon2_context" where
  "argon2_ctx env context type =
     (let result = validate_inputs context
      in if result \<noteq> ARGON2_OK then (result, None, context)
         else
           let instance = instance_of context type
           in if (case cx_buffer context of None \<Rightarrow> False
                  | Some b \<Rightarrow> bf_blocks b < in_memory_blocks instance)
              then (ARGON2_BUFFER_SIZE_TOO_SMALL, None, context)
              else case initialize env instance (Option.bind (cx_buffer context) bf_memory) context of
                (result, memory, context) \<Rightarrow>
                  let keep = (\<lambda>memory. context\<lparr>cx_buffer := map_option (bf_memory_update (map_option (\<lambda>_. memory))) (cx_buffer context)\<rparr>)
                  in if result \<noteq> ARGON2_OK then (result, None, context)
                     else case fill_memory_blocks env instance memory of
                       (result, memory) \<Rightarrow>
                         if result \<noteq> ARGON2_OK then (result, None, keep memory)
                         else case finalize context instance memory of
                                (digest, memory) \<Rightarrow> (ARGON2_OK, Some digest, keep memory))"

end
