(* ===== verification/Argon2Fill.thy ===== *)
theory Argon2Fill
  imports Argon2Core
begin

text \<open>
  What the core of Argon2 reads and writes: the reference index stays inside the finished part of
  the memory, the steps of different lanes of one slice do not interfere, and the filled memory
  does not depend on what the memory held before.
\<close>

section \<open>Geometry\<close>

abbreviation seg_len :: "argon2_instance \<Rightarrow> nat" where
  "seg_len inst \<equiv> unat (in_segment_length inst)"

abbreviation n_lanes :: "argon2_instance \<Rightarrow> nat" where
  "n_lanes inst \<equiv> unat (in_lanes inst)"

definition inst_wf :: "argon2_instance \<Rightarrow> bool" where
  "inst_wf inst \<longleftrightarrow> 2 \<le> seg_len inst \<and> unat (in_lane_length inst) = 4 * seg_len inst \<and>
     unat (in_memory_blocks inst) = n_lanes inst * (4 * seg_len inst)"

text \<open>The cell of column \<open>c\<close> in lane \<open>l\<close>.\<close>

definition cell :: "argon2_instance \<Rightarrow> nat \<Rightarrow> nat \<Rightarrow> nat" where
  "cell inst l c = l * (4 * seg_len inst) + c"

definition cells :: "argon2_instance \<Rightarrow> nat set" where
  "cells inst = {..<n_lanes inst * (4 * seg_len inst)}"

lemma cell_less:
  assumes "l < n_lanes inst" and "c < 4 * seg_len inst"
  shows "cell inst l c < n_lanes inst * (4 * seg_len inst)"
proof -
  have "cell inst l c < (l + 1) * (4 * seg_len inst)" using assms(2) by (simp add: cell_def)
  also have "\<dots> \<le> n_lanes inst * (4 * seg_len inst)" using assms(1) by (intro mult_le_mono1) simp
  finally show ?thesis .
qed

lemma cell_inj:
  assumes "c < 4 * seg_len inst" and "c' < 4 * seg_len inst" and "cell inst l c = cell inst l' c'"
  shows "l = l' \<and> c = c'"
proof -
  have "cell inst l c div (4 * seg_len inst) = l" "cell inst l c mod (4 * seg_len inst) = c" 
    using assms(1) by (simp_all add: cell_def)
  moreover have "cell inst l' c' div (4 * seg_len inst) = l'" "cell inst l' c' mod (4 * seg_len inst) = c'"
    using assms(2) by (simp_all add: cell_def)
  ultimately show ?thesis using assms(3) by metis
qed

lemma cell_surj:
  assumes "k \<in> cells inst"
  obtains l c where "k = cell inst l c" "l < n_lanes inst" "c < 4 * seg_len inst"
proof
  let ?L = "4 * seg_len inst"
  have "0 < ?L" using assms by (cases "seg_len inst = 0") (auto simp: cells_def)
  then show "k mod ?L < ?L" by simp
  show "k div ?L < n_lanes inst" using assms \<open>0 < ?L\<close> by (simp add: cells_def less_mult_imp_div_less)
  show "k = cell inst (k div ?L) (k mod ?L)" unfolding cell_def by (rule div_mult_mod_eq [symmetric])
qed

lemma inst_wf_bound: "inst_wf inst \<Longrightarrow> n_lanes inst * (4 * seg_len inst) < 2 ^ 32"
  using unat_bound_word [of "in_memory_blocks inst"] by (simp add: inst_wf_def)

section \<open>The reference index\<close>

definition ref_area :: "bool \<Rightarrow> nat \<Rightarrow> bool \<Rightarrow> nat \<Rightarrow> nat \<Rightarrow> nat" where
  "ref_area first s same i seg =
     (if first then if s = 0 then i - 1 else if same then s * seg + i - 1 else s * seg - (if i = 0 then 1 else 0)
      else if same then 3 * seg + i - 1 else 3 * seg - (if i = 0 then 1 else 0))"

lemma scaled_below: "0 < R \<Longrightarrow> x < 2 ^ 32 \<Longrightarrow> R * x div 2 ^ 32 \<le> R - (1::nat)"
proof -
  assume R: "0 < R" and x: "x < (2::nat) ^ 32"
  have "R * x < R * 2 ^ 32" using R x by simp
  then have "R * x div 2 ^ 32 < R" by (simp add: less_mult_imp_div_less)
  then show ?thesis by simp
qed

text \<open>The 64-bit arithmetic of the last steps of \<open>index_alpha\<close>, for a non-empty area.\<close>

lemma relative_position_nat:
  fixes R p :: u32
  assumes "0 < unat R"
  shows "unat (ucast (R - 1) - drop_bit 32 (ucast R * drop_bit 32 (ucast p * ucast p :: u64) :: u64)) =
    unat R - 1 - unat R * (unat p * unat p div 2 ^ 32) div 2 ^ 32"
proof -
  let ?x = "drop_bit 32 (ucast p * ucast p :: u64)"
  have p: "unat p < 2 ^ 32" "unat R < 2 ^ 32" using unat_bound_word [of p] unat_bound_word [of R] by simp_all
  have pp: "unat p * unat p < 2 ^ 64" using mult_strict_mono' [OF p(1) p(1)] by simp
  have x: "unat ?x = unat p * unat p div 2 ^ 32"
    using pp by (simp add: drop_bit_eq_div unat_div unat_mult_small)
  have xl: "unat ?x < 2 ^ 32" unfolding x using pp by (simp add: less_mult_imp_div_less)
  have "unat R * unat ?x < 2 ^ 64" using mult_strict_mono' [OF p(2) xl] by simp
  then have y: "unat (drop_bit 32 (ucast R * ?x :: u64)) = unat R * unat ?x div 2 ^ 32"
    by (simp add: drop_bit_eq_div unat_div unat_mult_small)
  have r1: "unat (R - 1) = unat R - 1"
    using assms by (simp add: unat_sub_if_size)
  have "unat R * unat ?x div 2 ^ 32 \<le> unat R - 1" using scaled_below [OF assms xl] .
  then show ?thesis
    unfolding x [symmetric] by (subst unat_sub_if_size) (simp add: y r1)
qed

text \<open>The area size, computed modulo \<open>2\<^sup>3\<^sup>2\<close>, is the number meant.\<close>

lemma ref_area_word:
  fixes seg i L :: u32 and sl :: u8
  assumes L: "unat L = 4 * unat seg" and i: "unat i < unat seg" and s: "unat sl < 4"
    and first: "first \<Longrightarrow> sl = 0 \<Longrightarrow> 1 \<le> unat i"
  shows "unat (if first then if 0 = sl then i - 1
               else if same then ucast sl * seg + i - 1 else ucast sl * seg + (if i = 0 then -1 else 0)
             else if same then L - seg + i - 1 else L - seg + (if i = 0 then -1 else 0)) =
    ref_area first (unat sl) same (unat i) (unat seg)"
proof -
  have Lb: "4 * unat seg < 2 ^ 32" using unat_bound_word [of L] L by simp
  have m: "unat (ucast sl * seg :: u32) = unat sl * unat seg"
  proof -
    have "unat sl * unat seg \<le> 3 * unat seg" using s by (intro mult_le_mono1) simp
    then have "unat (ucast sl :: u32) * unat seg < 2 ^ 32" unfolding unat_ucast_up using Lb by linarith
    then show ?thesis by (simp add: unat_mult_small)
  qed
  have d: "unat (L - seg) = 3 * unat seg" using L by (simp add: unat_sub_if_size)
  have sub1: "unat (x - 1) = unat x - 1" if "0 < unat x" for x :: u32
    using that by (simp add: unat_sub_if_size)
  have sb: "unat sl * unat seg + unat i < 2 ^ 32"
  proof -
    have "unat sl * unat seg + unat i < (unat sl + 1) * unat seg" using i by simp
    also have "\<dots> \<le> 4 * unat seg" using s by (intro mult_le_mono1) simp
    finally show ?thesis using Lb by simp
  qed
  have add: "unat (ucast sl * seg + i) = unat sl * unat seg + unat i" "unat (L - seg + i) = 3 * unat seg + unat i"
    using sb m d Lb i by (simp_all add: unat_add_small)
  have seg: "0 < unat seg" using i by simp
  have nz: "0 < unat sl * unat seg" if "sl \<noteq> 0" using that seg by (simp add: unat_gt_0)
  have i0: "i = 0 \<longleftrightarrow> unat i = 0" by (simp add: unat_eq_0)
  have neg: "x + -1 = x - 1" for x :: u32 by simp
  show ?thesis
    using first nz seg i0 s
    by (auto simp: ref_area_def neg sub1 add m d unat_eq_0 split: if_splits)
qed

definition first_free :: "bool \<Rightarrow> nat \<Rightarrow> nat \<Rightarrow> nat" where
  "first_free first s seg = (if first \<or> s = 3 then 0 else (s + 1) * seg)"

lemma index_alpha_nat:
  assumes wf: "inst_wf inst" and i: "unat (pos_index pos) < seg_len inst" and s: "unat (pos_slice pos) < 4"
    and first: "pos_pass pos = 0 \<Longrightarrow> pos_slice pos = 0 \<Longrightarrow> 2 \<le> unat (pos_index pos)"
  shows "\<exists>rel < ref_area (pos_pass pos = 0) (unat (pos_slice pos)) same (unat (pos_index pos)) (seg_len inst).
    unat (index_alpha inst pos pr same) =
      (first_free (pos_pass pos = 0) (unat (pos_slice pos)) (seg_len inst) + rel) mod (4 * seg_len inst)"
proof -
  let ?seg = "seg_len inst" and ?s = "unat (pos_slice pos)" and ?f = "pos_pass pos = 0"
  let ?R = "if ?f then if 0 = pos_slice pos then pos_index pos - 1
               else if same then ucast (pos_slice pos) * in_segment_length inst + pos_index pos - 1
               else ucast (pos_slice pos) * in_segment_length inst + (if pos_index pos = 0 then -1 else 0)
             else if same then in_lane_length inst - in_segment_length inst + pos_index pos - 1
             else in_lane_length inst - in_segment_length inst + (if pos_index pos = 0 then -1 else 0)"
  let ?st = "if 0 \<noteq> pos_pass pos
             then if (ucast (pos_slice pos) :: u32) = 4 - 1 then 0
                  else (ucast (pos_slice pos) + 1) * in_segment_length inst else (0 :: u32)"
  have L: "unat (in_lane_length inst) = 4 * ?seg" "2 \<le> ?seg" using wf by (auto simp: inst_wf_def)
  have Lb: "4 * ?seg < 2 ^ 32" using unat_bound_word [of "in_lane_length inst"] L by simp
  have R: "unat ?R = ref_area ?f ?s same (unat (pos_index pos)) ?seg"
    by (rule ref_area_word [OF L(1) i s]) (use first in auto)
  have "0 < ref_area ?f ?s same (unat (pos_index pos)) ?seg"
  proof (cases "pos_slice pos = 0")
    case False
    then have "1 * ?seg \<le> ?s * ?seg" by (intro mult_le_mono1) (simp add: Suc_le_eq unat_gt_0)
    then have "2 \<le> ?s * ?seg" using L(2) by linarith
    then show ?thesis using L(2) False by (auto simp: ref_area_def unat_eq_0 unat_gt_0)
  qed (use first L(2) i in \<open>auto simp: ref_area_def\<close>)
  then have R0: "0 < unat ?R" using R by simp
  have st: "unat ?st = first_free ?f ?s ?seg" "unat ?st < 4 * ?seg"
  proof -
    have e3: "(ucast (pos_slice pos) :: u32) = 3 \<longleftrightarrow> ?s = 3"
      by (simp add: word_unat_eq_iff)
    have s1: "unat (ucast (pos_slice pos) + 1 :: u32) = ?s + 1" using s by (simp add: unat_add_small)
    have "(?s + 1) * ?seg \<le> 4 * ?seg" using s by (intro mult_le_mono1) simp
    then have "unat (ucast (pos_slice pos) + 1 :: u32) * ?seg < 2 ^ 32" unfolding s1 using Lb by linarith
    then have "unat ((ucast (pos_slice pos) + 1) * in_segment_length inst :: u32) = (?s + 1) * ?seg"
      unfolding s1 [symmetric] by (intro unat_mult_small) simp
    then show "unat ?st = first_free ?f ?s ?seg" using e3 by (auto simp: first_free_def)
    have "(?s + 1) * ?seg \<le> 3 * ?seg" if "?s \<noteq> 3" using s that by (intro mult_le_mono1) simp
    then show "unat ?st < 4 * ?seg" using L(2) unfolding \<open>unat ?st = first_free ?f ?s ?seg\<close> by (auto simp: first_free_def)
  qed
  define rel where "rel = unat ?R - 1 - unat ?R * (unat pr * unat pr div 2 ^ 32) div 2 ^ 32"
  let ?rel = "ucast (?R - 1) - drop_bit 32 (ucast ?R * drop_bit 32 (ucast pr * ucast pr :: u64) :: u64)"
  have rel: "unat ?rel = rel" unfolding rel_def by (rule relative_position_nat [OF R0])
  have rb: "rel < unat ?R" using R0 by (simp add: rel_def)
  have "unat (ucast ?st + ?rel :: u64) = first_free ?f ?s ?seg + rel"
    using st Lb rb unat_bound_word [of ?R] rel by (subst unat_add_small) simp_all
  then have "unat ((ucast ?st + ?rel) mod ucast (in_lane_length inst) :: u64) =
      (first_free ?f ?s ?seg + rel) mod (4 * ?seg)"
    by (simp only: unat_mod unat_ucast_up L)
  moreover have "(first_free ?f ?s ?seg + rel) mod (4 * ?seg) < 2 ^ 32"
    using mod_less_divisor [of "4 * ?seg" "first_free ?f ?s ?seg + rel"] Lb L(2) by linarith
  ultimately have "unat (index_alpha inst pos pr same) = (first_free ?f ?s ?seg + rel) mod (4 * ?seg)"
    unfolding index_alpha_def Let_def
    by (simp add: unsigned_ucast_eq take_bit_nat_eq_self eq_commute [of 0 "pos_pass pos"])
  with rb R show ?thesis by (intro exI [of _ rel]) simp
qed

section \<open>The cells a step touches\<close>

definition prev_col :: "argon2_instance \<Rightarrow> nat \<Rightarrow> nat" where
  "prev_col inst c = (if c = 0 then 4 * seg_len inst - 1 else c - 1)"

definition step_ok :: "argon2_instance \<Rightarrow> nat \<Rightarrow> nat \<Rightarrow> nat \<times> nat \<Rightarrow> bool" where
  "step_ok inst r s = (\<lambda>(l, i). r < 2 ^ 32 \<and> s < 4 \<and> l < n_lanes inst \<and> i < seg_len inst \<and> (r = 0 \<and> s = 0 \<longrightarrow> 2 \<le> i))"

lemma position_at_simps [simp]:
  "pos_slice (position_at r s l) = of_nat s" "pos_lane (position_at r s l) = of_nat l"
  "r < 2 ^ 32 \<Longrightarrow> pos_pass (position_at r s l) = 0 \<longleftrightarrow> r = 0"
  "s < 4 \<Longrightarrow> (of_nat s :: u8) = 0 \<longleftrightarrow> s = 0" "s < 4 \<Longrightarrow> unat (of_nat s :: u8) = s"
  by (auto simp: position_at_def word_of_nat_eq_0_iff dvd_imp_le unat_of_nat_small dest: dvd_imp_le)

lemma starting_index_at: "r < 2 ^ 32 \<Longrightarrow> s < 4 \<Longrightarrow> starting_index (position_at r s l) = (if r = 0 \<and> s = 0 then 2 else 0)"
  by (simp add: starting_index_def)

lemma of_nat_mod_small:
  assumes "k < 2 ^ 32" and "L < 2 ^ 32"
  shows "(of_nat k :: u32) mod of_nat L = of_nat (k mod L)"
proof (rule word_unat_eq_iff [THEN iffD2])
  have "k mod L < 2 ^ 32" using assms(1) by (meson mod_less_eq_dividend le_less_trans)
  then show "unat (of_nat k mod of_nat L :: u32) = unat (of_nat (k mod L) :: u32)"
    using assms by (simp add: unat_mod unat_of_nat_small)
qed

lemma slice_col: "s < 4 \<Longrightarrow> i < seg_len inst \<Longrightarrow> s * seg_len inst + i < 4 * seg_len inst"
proof -
  assume s: "s < 4" and i: "i < seg_len inst"
  have "s * seg_len inst + i < (s + 1) * seg_len inst" using i by simp
  also have "\<dots> \<le> 4 * seg_len inst" using s by (intro mult_le_mono1) simp
  finally show ?thesis .
qed

lemma wf_words:
  assumes "inst_wf inst"
  shows "in_lane_length inst = of_nat (4 * seg_len inst)"
proof -
  have "in_lane_length inst = of_nat (unat (in_lane_length inst))" by simp
  also have "unat (in_lane_length inst) = 4 * seg_len inst" using assms by (simp add: inst_wf_def)
  finally show "in_lane_length inst = of_nat (4 * seg_len inst)" .
qed

text \<open>
  The local offsets before iteration \<open>i\<close>: the current cell is right, and the previous one is right
  except in column 1, where the iteration repairs it.
\<close>

definition offsets_ok :: "argon2_instance \<Rightarrow> nat \<Rightarrow> nat \<Rightarrow> seg_local \<Rightarrow> bool" where
  "offsets_ok inst l c loc \<longleftrightarrow> sl_curr loc = of_nat (cell inst l c) \<and>
     (c \<noteq> 1 \<longrightarrow> sl_prev loc = of_nat (cell inst l (prev_col inst c)))"

lemma curr_mod:
  assumes wf: "inst_wf inst" and l: "l < n_lanes inst" and c: "c < 4 * seg_len inst"
  shows "(of_nat (cell inst l c) :: u32) mod in_lane_length inst = of_nat c" "cell inst l c < 2 ^ 32"
proof -
  show b: "cell inst l c < 2 ^ 32" using cell_less [OF l c] inst_wf_bound [OF wf] by linarith
  have "cell inst l c mod (4 * seg_len inst) = c" using c by (simp add: cell_def)
  moreover have "4 * seg_len inst < 2 ^ 32" using wf unat_bound_word [of "in_lane_length inst"] by (simp add: inst_wf_def)
  ultimately show "(of_nat (cell inst l c) :: u32) mod in_lane_length inst = of_nat c"
    unfolding wf_words [OF wf] using of_nat_mod_small [OF b] by metis
qed

lemma of_nat_small_eq: "c < 2 ^ 32 \<Longrightarrow> (of_nat c :: u32) = 1 \<longleftrightarrow> c = 1" "c < 2 ^ 32 \<Longrightarrow> (of_nat c :: u32) = 0 \<longleftrightarrow> c = 0"
  by (simp_all add: word_unat_eq_iff unat_of_nat_small)

lemma seg_pre_offsets:
  assumes wf: "inst_wf inst" and l: "l < n_lanes inst" and c: "c < 4 * seg_len inst" and ok: "offsets_ok inst l c loc"
  shows "sl_curr (seg_pre inst pos i loc) = of_nat (cell inst l c) \<and>
    sl_prev (seg_pre inst pos i loc) = of_nat (cell inst l (prev_col inst c))"
proof -
  have cb: "c < 2 ^ 32" using curr_mod(2) [OF wf l c] by (simp add: cell_def)
  have m: "sl_curr loc mod in_lane_length inst = 1 \<longleftrightarrow> c = 1"
    using ok curr_mod(1) [OF wf l c] of_nat_small_eq(1) [OF cb] by (simp add: offsets_ok_def)
  have "c = 1 \<Longrightarrow> of_nat (cell inst l c) - 1 = (of_nat (cell inst l (prev_col inst c)) :: u32)"
    by (simp add: cell_def prev_col_def)
  then show ?thesis
    using ok m by (auto simp: seg_pre_def Let_def offsets_ok_def split: prod.splits if_splits)
qed

lemma seg_post_offsets:
  assumes "sl_curr loc = of_nat (cell inst l c)" and "sl_prev loc = of_nat (cell inst l (prev_col inst c))"
  shows "offsets_ok inst l (c + 1) (seg_post loc)"
  using assms by (cases c) (simp_all add: offsets_ok_def seg_post_def cell_def prev_col_def add.commute)

lemma seg_init_fields:
  fixes inst pos and co :: u32
  defines "co \<equiv> pos_lane pos * in_lane_length inst + ucast (pos_slice pos) * in_segment_length inst +
    of_nat (starting_index pos)"
  shows "sl_curr (seg_init inst pos) = co"
    "sl_prev (seg_init inst pos) =
      (if 0 = co mod in_lane_length inst then co + in_lane_length inst - 1 else co - 1)"
  unfolding seg_init_def co_def Let_def case_prod_unfold by (simp_all only: seg_local.simps)

lemma seg_init_offsets:
  assumes wf: "inst_wf inst" and r: "r < 2 ^ 32" and s: "s < 4" and l: "l < n_lanes inst"
  shows "offsets_ok inst l (s * seg_len inst + starting_index (position_at r s l)) (seg_init inst (position_at r s l))"
proof -
  let ?st = "starting_index (position_at r s l)"
  let ?c = "s * seg_len inst + ?st"
  have seg: "2 \<le> seg_len inst" using wf by (simp add: inst_wf_def)
  have c: "?c < 4 * seg_len inst"
    using seg s slice_col [of s 0 inst] by (auto simp: starting_index_at [OF r s])
  have w: "of_nat l * in_lane_length inst + ucast (of_nat s :: u8) * in_segment_length inst + of_nat ?st =
      (of_nat (cell inst l ?c) :: u32)"
  proof -
    have "(ucast (of_nat s :: u8) :: u32) = of_nat s" using s by (simp add: word_unat_eq_iff unat_of_nat_small)
    then show ?thesis unfolding wf_words [OF wf] by (simp add: cell_def algebra_simps)
  qed
  have z: "0 = (of_nat (cell inst l ?c) :: u32) mod in_lane_length inst \<longleftrightarrow> ?c = 0"
    unfolding curr_mod(1) [OF wf l c] using curr_mod(2) [OF wf l c] of_nat_small_eq(2) [of ?c] by (auto simp: cell_def)
  have p0: "of_nat (cell inst l ?c) + in_lane_length inst - 1 = (of_nat (cell inst l (prev_col inst ?c)) :: u32)" if "?c = 0"
    unfolding that wf_words [OF wf] using seg by (simp add: cell_def prev_col_def of_nat_diff)
  have p1: "of_nat (cell inst l ?c) - 1 = (of_nat (cell inst l (prev_col inst ?c)) :: u32)" if "?c \<noteq> 0"
    using that by (cases ?c) (simp_all add: cell_def prev_col_def)
  have "(if 0 = (of_nat (cell inst l ?c) :: u32) mod in_lane_length inst
      then of_nat (cell inst l ?c) + in_lane_length inst - 1 else of_nat (cell inst l ?c) - 1) =
      (of_nat (cell inst l (prev_col inst ?c)) :: u32)"
  proof (cases "?c = 0")
    case True
    show ?thesis unfolding if_P [OF z [THEN iffD2, OF True]] using p0 [OF True] .
  next
    case False
    then have n: "\<not> 0 = (of_nat (cell inst l ?c) :: u32) mod in_lane_length inst" by (simp only: z not_False_eq_True)
    show ?thesis unfolding if_not_P [OF n] using p1 [OF False] .
  qed
  then show ?thesis unfolding offsets_ok_def seg_init_fields position_at_simps(1,2) w by (simp only: simp_thms)
qed

lemma local_at_offsets:
  assumes wf: "inst_wf inst" and ok: "step_ok inst r s (l, i)"
  shows "sl_curr (local_at inst (position_at r s l) i) = of_nat (cell inst l (s * seg_len inst + i)) \<and>
    sl_prev (local_at inst (position_at r s l) i) = of_nat (cell inst l (prev_col inst (s * seg_len inst + i)))"
proof -
  let ?pos = "position_at r s l"
  let ?f = "\<lambda>j loc. seg_post (seg_pre inst ?pos j loc)"
  have b: "r < 2 ^ 32" "s < 4" "l < n_lanes inst" "i < seg_len inst" "starting_index ?pos \<le> i"
    using ok by (auto simp: step_ok_def starting_index_at)
  have "offsets_ok inst l (s * seg_len inst + k) (fold ?f [starting_index ?pos..<k] (seg_init inst ?pos))"
    if "starting_index ?pos \<le> k" "k \<le> i" for k
    using that
  proof (induction k rule: dec_induct)
    case base
    show ?case using seg_init_offsets [OF wf b(1-3)] by simp
  next
    case (step k)
    have c: "s * seg_len inst + k < 4 * seg_len inst" using slice_col [OF b(2), of k inst] b(4) step by simp
    from step have "offsets_ok inst l (s * seg_len inst + k) (fold ?f [starting_index ?pos..<k] (seg_init inst ?pos))" by simp
    from seg_post_offsets [OF conjunct1 conjunct2, OF seg_pre_offsets [OF wf b(3) c this] seg_pre_offsets [OF wf b(3) c this]]
    show ?case using step by simp
  qed
  from seg_pre_offsets [OF wf b(3) slice_col [OF b(2,4)] this [OF b(5) order_refl]] show ?thesis
    by (simp add: local_at_def)
qed

text \<open>
  The cells step \<open>(l, i)\<close> of a slice may refer to. In the first pass these are finished cells only;
  later, every cell of the own lane but the current one. In other lanes the slice that is being
  filled is out of bounds.
\<close>

definition may_read :: "argon2_instance \<Rightarrow> nat \<Rightarrow> nat \<Rightarrow> nat \<times> nat \<Rightarrow> nat \<Rightarrow> nat \<Rightarrow> bool" where
  "may_read inst r s = (\<lambda>(l, i) l' c'. l' < n_lanes inst \<and> c' < 4 * seg_len inst \<and>
     (if r = 0 then c' < s * seg_len inst + (if l' = l then i else 0)
      else if l' = l then c' \<noteq> s * seg_len inst + i
      else \<not> (s * seg_len inst \<le> c' \<and> c' < (s + 1) * seg_len inst)))"

lemma wrap_mod: "0 < L \<Longrightarrow> v < 2 * L \<Longrightarrow> v mod L = (if v < L then v else v - L)" for v L :: nat
  by (simp add: mod_if)

lemma ref_col_ok:
  assumes seg: "2 \<le> seg" and i: "i < seg" and s: "s < 4" and rel: "rel < ref_area (r = 0) s same i seg"
    and first: "r = 0 \<Longrightarrow> s = 0 \<Longrightarrow> same" and c: "c = (first_free (r = 0) s seg + rel) mod (4 * seg)"
  shows "c < 4 * seg \<and> (if r = (0::nat) then c < s * seg + (if same then i else 0)
      else if same then c \<noteq> s * seg + i else \<not> (s * seg \<le> c \<and> c < (s + 1) * seg))"
proof -
  have s4: "s = 0 \<or> s = 1 \<or> s = 2 \<or> s = 3" using s by linarith
  have "first_free (r = 0) s seg + rel < 2 * (4 * seg)"
    using s4 rel i by (auto simp: first_free_def ref_area_def split: if_splits)
  then have c': "c = (if first_free (r = 0) s seg + rel < 4 * seg then first_free (r = 0) s seg + rel
      else first_free (r = 0) s seg + rel - 4 * seg)"
    unfolding c using seg by (intro wrap_mod) simp_all
  show ?thesis
    using s4 rel first i seg unfolding c'
    by (elim disjE; cases "r = 0"; cases same) (auto simp: first_free_def ref_area_def split: if_splits)
qed

lemma seg_ref_lane_at:
  assumes wf: "inst_wf inst" and ok: "step_ok inst r s (l, i)"
  shows "unat (seg_ref_lane inst (position_at r s l) pr) < n_lanes inst"
    and "r = 0 \<Longrightarrow> s = 0 \<Longrightarrow> unat (seg_ref_lane inst (position_at r s l) pr) = l"
    and "seg_ref_lane inst (position_at r s l) pr = ucast (pos_lane (position_at r s l)) \<longleftrightarrow>
      unat (seg_ref_lane inst (position_at r s l) pr) = l"
proof -
  have b: "r < 2 ^ 32" "s < 4" "l < n_lanes inst" using ok by (auto simp: step_ok_def)
  then have "l < 2 ^ 32" using unat_bound_word [of "in_lanes inst"] by simp
  then have l: "unat (ucast (of_nat l :: u32) :: u64) = l" by (simp add: unat_of_nat_small)
  then show "r = 0 \<Longrightarrow> s = 0 \<Longrightarrow> unat (seg_ref_lane inst (position_at r s l) pr) = l"
    using b by (simp add: seg_ref_lane_def)
  show "seg_ref_lane inst (position_at r s l) pr = ucast (pos_lane (position_at r s l)) \<longleftrightarrow>
      unat (seg_ref_lane inst (position_at r s l) pr) = l"
    using l by (simp add: word_unat_eq_iff)
  show "unat (seg_ref_lane inst (position_at r s l) pr) < n_lanes inst"
    using b l by (simp add: seg_ref_lane_def unat_mod)
qed

lemma seg_ref_cell:
  assumes wf: "inst_wf inst" and ok: "step_ok inst r s (l, i)"
  shows "\<exists>l' c'. seg_ref inst (position_at r s l) i pr = cell inst l' c' \<and> may_read inst r s (l, i) l' c'"
proof -
  let ?pos = "position_at r s l"
  let ?lane = "seg_ref_lane inst ?pos pr"
  let ?same = "?lane = ucast (pos_lane ?pos)"
  let ?p = "?pos\<lparr>pos_index := of_nat i\<rparr>"
  note lane = seg_ref_lane_at [OF wf ok, of pr]
  have b: "r < 2 ^ 32" "s < 4" "l < n_lanes inst" "i < seg_len inst" "r = 0 \<and> s = 0 \<longrightarrow> 2 \<le> i"
    using ok by (auto simp: step_ok_def)
  have L: "unat (in_lane_length inst) = 4 * seg_len inst" "2 \<le> seg_len inst" using wf by (auto simp: inst_wf_def)
  have ib: "unat (of_nat i :: u32) = i"
    using b(4) unat_bound_word [of "in_segment_length inst"] by (simp add: unat_of_nat_small)
  define c where "c = unat (index_alpha inst ?p (ucast (pr AND 0xFFFFFFFF)) ?same)"
  obtain rel where rel: "rel < ref_area (r = 0) s ?same i (seg_len inst)"
      "c = (first_free (r = 0) s (seg_len inst) + rel) mod (4 * seg_len inst)"
    using index_alpha_nat [OF wf, of ?p ?same "ucast (pr AND 0xFFFFFFFF)"] b ib
    by (auto simp: c_def)
  have first: "r = 0 \<Longrightarrow> s = 0 \<Longrightarrow> ?same" using lane(2,3) by simp
  have cok: "c < 4 * seg_len inst" "if r = 0 then c < s * seg_len inst + (if ?same then i else 0)
      else if ?same then c \<noteq> s * seg_len inst + i
      else \<not> (s * seg_len inst \<le> c \<and> c < (s + 1) * seg_len inst)"
    using ref_col_ok [OF L(2) b(4,2) rel(1) first rel(2)] by blast+
  have "cell inst (unat ?lane) c < 2 ^ 32" using curr_mod(2) [OF wf lane(1) cok(1)] .
  then have "seg_ref inst ?pos i pr = cell inst (unat ?lane) c"
    unfolding seg_ref_def Let_def
    by (subst unat_word_ariths(1), subst unat_word_ariths(2))
      (simp only: unat_ucast_up c_def [symmetric] L(1) cell_def, simp add: mult.commute)
  moreover have "may_read inst r s (l, i) (unat ?lane) c"
    using cok lane by (simp add: may_read_def split: if_splits)
  ultimately show ?thesis by blast
qed

section \<open>A step as a function of what it reads\<close>

definition new_block :: "argon2_instance \<Rightarrow> nat \<Rightarrow> nat \<Rightarrow> nat \<times> nat \<Rightarrow> argon2_block list \<Rightarrow> argon2_block" where
  "new_block inst r s = (\<lambda>(l, i) memory.
     let pos = position_at r s l; loc = local_at inst pos i; c = s * seg_len inst + i;
         pr = (if data_independent_addressing inst pos then sl_address loc ! (i mod 128)
               else memory ! cell inst l (prev_col inst c) ! 0)
     in fill_block (memory ! cell inst l (prev_col inst c)) (memory ! seg_ref inst pos i pr)
          (memory ! cell inst l c) (\<not> ARGON2_VERSION_10 = in_version inst \<and> r \<noteq> 0))"

lemma prev_col_less: "2 \<le> seg_len inst \<Longrightarrow> c < 4 * seg_len inst \<Longrightarrow> prev_col inst c < 4 * seg_len inst"
  by (auto simp: prev_col_def)

lemma prev_col_neq: "2 \<le> seg_len inst \<Longrightarrow> prev_col inst c \<noteq> c" "c \<noteq> 0 \<Longrightarrow> prev_col inst c < c"
  by (auto simp: prev_col_def)

lemma thread_step_eq:
  assumes wf: "inst_wf inst" and ok: "step_ok inst r s (l, i)"
  shows "thread_step inst r s (l, i) memory =
    memory[cell inst l (s * seg_len inst + i) := new_block inst r s (l, i) memory]"
proof -
  have b: "r < 2 ^ 32" "s < 4" "l < n_lanes inst" "i < seg_len inst" using ok by (auto simp: step_ok_def)
  have c: "s * seg_len inst + i < 4 * seg_len inst" using slice_col [OF b(2,4)] .
  have p: "prev_col inst (s * seg_len inst + i) < 4 * seg_len inst"
    using prev_col_less [OF _ c] wf by (simp add: inst_wf_def)
  note o = local_at_offsets [OF wf ok]
  have u: "unat (sl_curr (local_at inst (position_at r s l) i)) = cell inst l (s * seg_len inst + i)"
    "unat (sl_prev (local_at inst (position_at r s l) i)) = cell inst l (prev_col inst (s * seg_len inst + i))"
    using o curr_mod(2) [OF wf b(3) c] curr_mod(2) [OF wf b(3) p] by (simp_all add: unat_of_nat_small)
  have r0: "0 = pos_pass (position_at r s l) \<longleftrightarrow> r = 0" using b(1) by (metis position_at_simps(3))
  show ?thesis
    unfolding thread_step_def new_block_def seg_write_def seg_rand_def Let_def prod.case u r0 by (rule refl)
qed

lemma fill_block_no_xor: "fill_block p q n False = fill_block p q n' False"
  by (simp add: fill_block_def Let_def)

lemma new_block_cong:
  assumes wf: "inst_wf inst" and ok: "step_ok inst r s (l, i)"
    and eq: "\<And>l' c'. may_read inst r s (l, i) l' c' \<Longrightarrow> m1 ! cell inst l' c' = m2 ! cell inst l' c'"
    and own: "r \<noteq> 0 \<Longrightarrow> m1 ! cell inst l (s * seg_len inst + i) = m2 ! cell inst l (s * seg_len inst + i)"
  shows "new_block inst r s (l, i) m1 = new_block inst r s (l, i) m2"
proof -
  let ?c = "s * seg_len inst + i"
  have b: "s < 4" "l < n_lanes inst" "i < seg_len inst" "r = 0 \<and> s = 0 \<longrightarrow> 2 \<le> i" using ok by (auto simp: step_ok_def)
  have seg: "2 \<le> seg_len inst" using wf by (simp add: inst_wf_def)
  have "r = 0 \<Longrightarrow> ?c \<noteq> 0" using b seg by auto
  then have "may_read inst r s (l, i) l (prev_col inst ?c)"
    using b(2) prev_col_less [OF seg slice_col [OF b(1,3)]] prev_col_neq(1) [OF seg, of ?c] prev_col_neq(2) [of ?c]
    by (simp add: may_read_def)
  then have prev: "m1 ! cell inst l (prev_col inst ?c) = m2 ! cell inst l (prev_col inst ?c)" by (rule eq)
  have ref: "m1 ! seg_ref inst (position_at r s l) i pr = m2 ! seg_ref inst (position_at r s l) i pr" for pr
    using seg_ref_cell [OF wf ok, of pr] eq by auto
  show ?thesis
  proof (cases "r = 0")
    case True
    then show ?thesis
      unfolding new_block_def Let_def prod.case prev ref by (simp add: fill_block_no_xor)
  next
    case False
    show ?thesis unfolding new_block_def Let_def prod.case prev ref own [OF False] by (rule refl)
  qed
qed

section \<open>Lanes do not interfere\<close>

lemma concat_map_Nil [simp]: "concat (map (\<lambda>x. []) xs) = []"
  by (induction xs) simp_all

definition by_lane :: "nat \<Rightarrow> (nat \<times> 'i) list \<Rightarrow> (nat \<times> 'i) list" where
  "by_lane n xs = concat (map (\<lambda>l. filter (\<lambda>x. fst x = l) xs) [0..<n])"

text \<open>Steps that carry a lane, and commute when their lanes differ, can be sorted by lane.\<close>

locale lane_system =
  fixes step :: "nat \<times> 'i \<Rightarrow> 'm \<Rightarrow> 'm"
    and ok :: "nat \<times> 'i \<Rightarrow> bool"
  assumes commute: "ok x \<Longrightarrow> ok y \<Longrightarrow> fst x \<noteq> fst y \<Longrightarrow> step x (step y m) = step y (step x m)"
begin

lemma step_past:
  assumes "ok x" and "\<forall>y \<in> set ys. ok y \<and> fst y \<noteq> fst x"
  shows "fold step ys (step x m) = step x (fold step ys m)"
  using assms(2)
proof (induction ys arbitrary: m)
  case (Cons y ys)
  then have "fold step (y # ys) (step x m) = fold step ys (step x (step y m))"
    using commute [OF _ assms(1), of y m] by simp
  with Cons show ?case by simp
qed simp

lemma sorted_run:
  assumes "\<forall>x \<in> set xs. ok x \<and> fst x < n"
  shows "fold step xs m = fold step (by_lane n xs) m"
  using assms
proof (induction xs arbitrary: m)
  case (Cons x xs)
  define k where "k = fst x"
  have k: "k < n" "ok x" using Cons.prems by (auto simp: k_def)
  let ?A = "concat (map (\<lambda>l. filter (\<lambda>x. fst x = l) xs) [0..<k])"
  let ?B = "filter (\<lambda>x. fst x = k) xs @ concat (map (\<lambda>l. filter (\<lambda>x. fst x = l) xs) [Suc k..<n])"
  have split: "[0..<n] = [0..<k] @ k # [Suc k..<n]"
    using k(1) by (metis le_add_same_cancel1 less_imp_le_nat upt_add_eq_append upt_conv_Cons le_add_diff_inverse zero_le)
  have other: "map (\<lambda>l. filter (\<lambda>x. fst x = l) (x # xs)) ls = map (\<lambda>l. filter (\<lambda>x. fst x = l) xs) ls"
    if "k \<notin> set ls" for ls
    using that by (auto simp: k_def)
  have own: "filter (\<lambda>y. fst y = k) (x # xs) = x # filter (\<lambda>y. fst y = k) xs" by (simp add: k_def)
  have k_out: "k \<notin> set [0..<k]" "k \<notin> set [Suc k..<n]" by simp_all
  have "by_lane n (x # xs) = ?A @ (x # filter (\<lambda>y. fst y = k) xs) @ concat (map (\<lambda>l. filter (\<lambda>x. fst x = l) xs) [Suc k..<n])"
    unfolding by_lane_def split map_append list.map concat_append concat.simps other [OF k_out(1)] other [OF k_out(2)] own ..
  moreover have "by_lane n xs = ?A @ ?B" unfolding by_lane_def split by simp
  ultimately have e: "by_lane n (x # xs) = ?A @ x # ?B" "by_lane n xs = ?A @ ?B" by simp_all
  have A: "\<forall>y \<in> set ?A. ok y \<and> fst y \<noteq> fst x" using Cons.prems by (auto simp: k_def)
  have "fold step (by_lane n (x # xs)) m = fold step ?B (fold step ?A (step x m))"
    unfolding e using step_past [OF k(2) A] by simp
  also have "\<dots> = fold step xs (step x m)" using Cons.IH [of "step x m"] Cons.prems unfolding e by simp
  finally show ?case by simp
qed (simp add: by_lane_def)

end

lemma thread_steps_commute:
  assumes wf: "inst_wf inst" and x: "step_ok inst r s x" and y: "step_ok inst r s y" and ne: "fst x \<noteq> fst y"
  shows "thread_step inst r s x (thread_step inst r s y m) = thread_step inst r s y (thread_step inst r s x m)"
proof -
  obtain l i l2 j where xy: "x = (l, i)" "y = (l2, j)" "l \<noteq> l2" using ne by (cases x, cases y) auto
  let ?c = "s * seg_len inst + i" and ?d = "s * seg_len inst + j"
  have b: "?c < 4 * seg_len inst" "?d < 4 * seg_len inst" using x y xy slice_col by (auto simp: step_ok_def)
  have n: "cell inst l ?c \<noteq> cell inst l2 ?d" using cell_inj [OF b] xy(3) by blast
  have nr: "\<not> may_read inst r s (l1, i1) l2' (s * seg_len inst + i2)" if "l1 \<noteq> l2'" "i2 < seg_len inst" for l1 i1 l2' i2
    using that by (auto simp: may_read_def)
  have cong: "new_block inst r s (l1, i1) (m[cell inst l2' (s * seg_len inst + i2) := v]) = new_block inst r s (l1, i1) m"
    if "step_ok inst r s (l1, i1)" "step_ok inst r s (l2', i2)" "l1 \<noteq> l2'" for l1 i1 l2' i2 v
  proof (rule new_block_cong [OF wf that(1)])
    have j: "i2 < seg_len inst" "s * seg_len inst + i2 < 4 * seg_len inst" "s * seg_len inst + i1 < 4 * seg_len inst"
      using that slice_col by (auto simp: step_ok_def)
    fix l' c' assume r: "may_read inst r s (l1, i1) l' c'"
    then have "cell inst l2' (s * seg_len inst + i2) \<noteq> cell inst l' c'"
      using cell_inj [OF j(2), of c' l2' l'] nr [OF that(3) j(1)] by (auto simp: may_read_def)
    then show "m[cell inst l2' (s * seg_len inst + i2) := v] ! cell inst l' c' = m ! cell inst l' c'" by simp
  next
    have j: "s * seg_len inst + i2 < 4 * seg_len inst" "s * seg_len inst + i1 < 4 * seg_len inst"
      using that slice_col by (auto simp: step_ok_def)
    show "m[cell inst l2' (s * seg_len inst + i2) := v] ! cell inst l1 (s * seg_len inst + i1) =
        m ! cell inst l1 (s * seg_len inst + i1)"
      using cell_inj [OF j, of l2' l1] that(3) by (intro nth_list_update_neq) auto
  qed
  show ?thesis
    using x y cong n xy(3) unfolding xy
    by (simp add: thread_step_eq [OF wf] list_update_swap)
qed

interpretation argon_lanes: lane_system "thread_step inst r s" "\<lambda>x. inst_wf inst \<and> step_ok inst r s x" for inst r s
  by unfold_locales (rule thread_steps_commute; simp)

section \<open>Single-threaded and multi-threaded filling\<close>

abbreviation seg_steps :: "argon2_instance \<Rightarrow> nat \<Rightarrow> nat \<Rightarrow> nat \<Rightarrow> (nat \<times> nat) list" where
  "seg_steps inst r s l \<equiv> map (Pair l) [starting_index (position_at r s l)..<seg_len inst]"

lemma fill_segment_steps:
  "fill_segment inst (position_at r s l) m = fold (thread_step inst r s) (seg_steps inst r s l) m"
proof -
  let ?pos = "position_at r s l"
  let ?a = "starting_index ?pos"
  let ?f = "\<lambda>i (loc, memory). let loc = seg_pre inst ?pos i loc in (seg_post loc, seg_write inst ?pos i loc memory)"
  have "fold ?f [?a..<k] (seg_init inst ?pos, m) =
      (fold (\<lambda>j loc. seg_post (seg_pre inst ?pos j loc)) [?a..<k] (seg_init inst ?pos),
       fold (thread_step inst r s) (map (Pair l) [?a..<k]) m)" if "?a \<le> k" for k
    using that
  proof (induction k rule: dec_induct)
    case (step k)
    then show ?case by (simp add: Let_def thread_step_def local_at_def)
  qed simp
  moreover have "[?a..<seg_len inst] = []" if "\<not> ?a \<le> seg_len inst" using that by simp
  ultimately show ?thesis unfolding fill_segment_def by (cases "?a \<le> seg_len inst") simp_all
qed

lemma seg_steps_ok:
  assumes "r < 2 ^ 32" "s < 4" "l < n_lanes inst" and "x \<in> set (seg_steps inst r s l)"
  shows "step_ok inst r s x" "fst x = l"
  using assms by (auto simp: step_ok_def starting_index_at split: if_splits)

text \<open>A fair schedule lets every lane run through its segment in order, in any interleaving.\<close>

definition sched_ok :: "argon2_instance \<Rightarrow> schedule \<Rightarrow> bool" where
  "sched_ok inst sched \<longleftrightarrow> (\<forall>r < unat (in_passes inst). \<forall>s < 4. snd (sched r s) \<and>
     (\<forall>x \<in> set (fst (sched r s)). fst x < n_lanes inst) \<and>
     (\<forall>l < n_lanes inst. filter (\<lambda>x. fst x = l) (fst (sched r s)) = seg_steps inst r s l))"

lemma slice_any_order:
  assumes wf: "inst_wf inst" and r: "r < 2 ^ 32" and s: "s < 4"
    and steps: "\<forall>x \<in> set steps. fst x < n_lanes inst" "\<forall>l < n_lanes inst. filter (\<lambda>x. fst x = l) steps = seg_steps inst r s l"
  shows "fold (thread_step inst r s) steps m =
    fold (\<lambda>l. fill_segment inst (position_at r s l)) [0..<n_lanes inst] m"
proof -
  have ok: "\<forall>x \<in> set steps. (inst_wf inst \<and> step_ok inst r s x) \<and> fst x < n_lanes inst"
  proof
    fix x assume x: "x \<in> set steps"
    then have "x \<in> set (filter (\<lambda>y. fst y = fst x) steps)" by simp
    then have "x \<in> set (seg_steps inst r s (fst x))" using steps x by metis
    with x show "(inst_wf inst \<and> step_ok inst r s x) \<and> fst x < n_lanes inst"
      using seg_steps_ok(1) [OF r s] steps(1) wf by blast
  qed
  have "by_lane (n_lanes inst) steps = concat (map (\<lambda>l. seg_steps inst r s l) [0..<n_lanes inst])"
    unfolding by_lane_def using steps(2) by (intro arg_cong [where f = concat] map_cong) auto
  then have "fold (thread_step inst r s) steps m =
      fold (thread_step inst r s) (concat (map (\<lambda>l. seg_steps inst r s l) [0..<n_lanes inst])) m"
    using argon_lanes.sorted_run [OF ok] by simp
  also have "\<dots> = fold (\<lambda>l. fill_segment inst (position_at r s l)) [0..<n_lanes inst] m"
  proof -
    have "fold (thread_step inst r s) (concat (map (\<lambda>l. seg_steps inst r s l) ls)) m =
        fold (\<lambda>l. fill_segment inst (position_at r s l)) ls m" for ls
      by (induction ls arbitrary: m) (simp_all add: fill_segment_steps)
    then show ?thesis .
  qed
  finally show ?thesis .
qed

lemma fold_True: "(\<And>x m. x \<in> set xs \<Longrightarrow> f x (m, True) = (g x m, True)) \<Longrightarrow> fold f xs (m, True) = (fold g xs m, True)"
  by (induction xs arbitrary: m) auto

lemma mt_eq_st:
  assumes wf: "inst_wf inst" and sched: "sched_ok inst sched"
  shows "fill_memory_blocks_mt sched inst m = (fill_memory_blocks_st inst m, True)"
  unfolding fill_memory_blocks_mt_def fill_memory_blocks_st_def
proof (rule fold_True, rule fold_True)
  fix r m s m'
  assume "r \<in> set [0..<unat (in_passes inst)]" "s \<in> set [0..<4::nat]"
  then have rs: "r < unat (in_passes inst)" "r < 2 ^ 32" "s < 4"
    using unat_bound_word [of "in_passes inst"] by auto
  then have st: "snd (sched r s)" "\<forall>x \<in> set (fst (sched r s)). fst x < n_lanes inst"
      "\<forall>l < n_lanes inst. filter (\<lambda>x. fst x = l) (fst (sched r s)) = seg_steps inst r s l"
    using sched unfolding sched_ok_def by blast+
  show "(case (m', True) of (memory, ok) \<Rightarrow> if \<not> ok then (memory, False)
      else (fold (thread_step inst r s) (fst (sched r s)) memory, snd (sched r s))) =
     (fold (\<lambda>l. fill_segment inst (position_at r s l)) [0..<n_lanes inst] m', True)"
    using st slice_any_order [OF wf rs(2,3) st(2,3)] by simp
qed

section \<open>The old contents of the memory do not matter\<close>

definition agree :: "nat set \<Rightarrow> argon2_block list \<Rightarrow> argon2_block list \<Rightarrow> bool" where
  "agree D m1 m2 \<longleftrightarrow> (\<forall>k \<in> D. m1 ! k = m2 ! k)"

lemma agree_mono: "agree D m1 m2 \<Longrightarrow> D' \<subseteq> D \<Longrightarrow> agree D' m1 m2"
  by (auto simp: agree_def)

definition fits :: "argon2_instance \<Rightarrow> argon2_block list \<Rightarrow> bool" where
  "fits inst m \<longleftrightarrow> n_lanes inst * (4 * seg_len inst) \<le> length m"

lemma thread_step_agree:
  assumes wf: "inst_wf inst" and ok: "step_ok inst r s (l, i)" and fit: "fits inst m1" "fits inst m2"
    and D: "agree D m1 m2" "\<And>l' c'. may_read inst r s (l, i) l' c' \<Longrightarrow> cell inst l' c' \<in> D"
    and own: "r \<noteq> 0 \<Longrightarrow> cell inst l (s * seg_len inst + i) \<in> D"
  shows "agree (insert (cell inst l (s * seg_len inst + i)) D) (thread_step inst r s (l, i) m1) (thread_step inst r s (l, i) m2)"
proof -
  have "new_block inst r s (l, i) m1 = new_block inst r s (l, i) m2"
    by (rule new_block_cong [OF wf ok]) (use D own in \<open>auto simp: agree_def\<close>)
  moreover have "cell inst l (s * seg_len inst + i) < n_lanes inst * (4 * seg_len inst)"
    using ok cell_less slice_col by (auto simp: step_ok_def)
  ultimately show ?thesis
    using D(1) fit unfolding thread_step_eq [OF wf ok] by (auto simp: agree_def fits_def nth_list_update)
qed

lemma length_thread_step [simp]: "length (thread_step inst r s x m) = length m"
  by (cases x) (simp add: thread_step_def seg_write_def Let_def)

lemma fits_thread_step [simp]: "fits inst (thread_step inst r s x m) = fits inst m"
  by (simp add: fits_def)

lemma length_fold_steps [simp]: "length (fold (thread_step inst r s) xs m) = length m"
  by (induction xs arbitrary: m) simp_all

lemma length_fill_segments [simp]: "length (fold (\<lambda>l. fill_segment inst (position_at r s l)) ls m) = length m"
  by (induction ls arbitrary: m) (simp_all add: fill_segment_steps)

text \<open>What is finished when lane \<open>l\<close> of slice \<open>s\<close> starts in the first pass.\<close>

definition done_cells :: "argon2_instance \<Rightarrow> nat \<Rightarrow> nat \<Rightarrow> nat set" where
  "done_cells inst s l = {cell inst l' c | l' c. l' < n_lanes inst \<and> c < 4 * seg_len inst \<and>
     (c < s * seg_len inst \<or> s = 0 \<and> c < 2 \<or> l' < l \<and> c < (s + 1) * seg_len inst)}"

lemma first_pass_segment:
  assumes wf: "inst_wf inst" and s: "s < 4" and l: "l < n_lanes inst" and fit: "fits inst m1" "fits inst m2"
    and D: "agree (done_cells inst s l) m1 m2"
  shows "agree (done_cells inst s (l + 1)) (fill_segment inst (position_at 0 s l) m1) (fill_segment inst (position_at 0 s l) m2)"
proof -
  let ?seg = "seg_len inst" and ?a = "starting_index (position_at 0 s l)"
  let ?run = "\<lambda>k m. fold (thread_step inst 0 s) (map (Pair l) [?a..<k]) m"
  let ?D = "\<lambda>k. done_cells inst s l \<union> {cell inst l c | c. c < s * ?seg + k}"
  have seg: "2 \<le> ?seg" using wf by (simp add: inst_wf_def)
  have a: "?a = (if s = 0 then 2 else 0)" using s starting_index_at [of 0 s l] by simp
  have "agree (?D k) (?run k m1) (?run k m2)" if "?a \<le> k" "k \<le> ?seg" for k
    using that
  proof (induction k rule: dec_induct)
    case base
    have "{cell inst l c | c. c < s * ?seg + ?a} \<subseteq> done_cells inst s l"
    proof
      fix x assume "x \<in> {cell inst l c | c. c < s * ?seg + ?a}"
      then obtain c where c: "x = cell inst l c" "c < s * ?seg + ?a" by blast
      have "s * ?seg \<le> 3 * ?seg" using s by (intro mult_le_mono1) simp
      moreover have "?a \<le> 2" "0 < s \<Longrightarrow> ?a = 0" unfolding a by simp_all
      ultimately have "c < 4 * ?seg" using c(2) seg by (cases s) (simp, linarith)
      moreover have "c < s * ?seg \<or> s = 0 \<and> c < 2" using c(2) a by (cases "s = 0") simp_all
      ultimately show "x \<in> done_cells inst s l" using c(1) l unfolding done_cells_def by blast
    qed
    with D show ?case by (simp add: Un_absorb2)
  next
    case (step k)
    have ok: "step_ok inst 0 s (l, k)" using step s l a by (auto simp: step_ok_def split: if_splits)
    have IH: "agree (?D k) (?run k m1) (?run k m2)" using step by simp
    have rd: "cell inst l' c' \<in> ?D k" if "may_read inst 0 s (l, k) l' c'" for l' c'
      using that by (cases "l' = l") (auto simp: may_read_def done_cells_def)
    have "agree (insert (cell inst l (s * ?seg + k)) (?D k)) (?run (Suc k) m1) (?run (Suc k) m2)"
      using thread_step_agree [OF wf ok _ _ IH rd] fit step by (simp add: fits_def)
    then show ?case by (rule agree_mono) (auto simp: less_Suc_eq)
  qed
  moreover have "?a \<le> ?seg" using a seg by simp
  ultimately have "agree (?D ?seg) (fill_segment inst (position_at 0 s l) m1) (fill_segment inst (position_at 0 s l) m2)"
    unfolding fill_segment_steps by simp
  then show ?thesis
    by (rule agree_mono) (auto simp: done_cells_def less_Suc_eq add.commute)
qed

lemma first_pass_lanes:
  assumes wf: "inst_wf inst" and s: "s < 4" and k: "k \<le> n_lanes inst" and fit: "fits inst m1" "fits inst m2"
    and D: "agree (done_cells inst s 0) m1 m2"
  shows "agree (done_cells inst s k) (fold (\<lambda>l. fill_segment inst (position_at 0 s l)) [0..<k] m1)
    (fold (\<lambda>l. fill_segment inst (position_at 0 s l)) [0..<k] m2)"
  using k
proof (induction k)
  case (Suc k)
  then show ?case using first_pass_segment [OF wf s, of k] fit by (simp add: fits_def)
qed (simp add: D)

lemma slice_done: "inst_wf inst \<Longrightarrow> done_cells inst (s + 1) 0 \<subseteq> done_cells inst s (n_lanes inst)"
  by (auto simp: done_cells_def)

definition fill_slices :: "argon2_instance \<Rightarrow> nat \<Rightarrow> nat list \<Rightarrow> argon2_block list \<Rightarrow> argon2_block list" where
  "fill_slices inst r = fold (\<lambda>s. fold (\<lambda>l. fill_segment inst (position_at r s l)) [0..<n_lanes inst])"

lemma length_fill_slices [simp]: "length (fill_slices inst r ss m) = length m"
  unfolding fill_slices_def by (induction ss arbitrary: m) simp_all

lemma first_pass:
  assumes wf: "inst_wf inst" and k: "k \<le> 4" and fit: "fits inst m1" "fits inst m2"
    and D: "agree (done_cells inst 0 0) m1 m2"
  shows "agree (done_cells inst k 0) (fill_slices inst 0 [0..<k] m1) (fill_slices inst 0 [0..<k] m2)"
  using k
proof (induction k)
  case (Suc k)
  have "fits inst (fill_slices inst 0 [0..<k] m1)" "fits inst (fill_slices inst 0 [0..<k] m2)"
    using fit by (simp_all add: fits_def)
  from first_pass_lanes [OF wf _ order_refl this, of k] Suc
  have "agree (done_cells inst k (n_lanes inst)) (fill_slices inst 0 [0..<Suc k] m1) (fill_slices inst 0 [0..<Suc k] m2)"
    by (simp add: fill_slices_def)
  then show ?case using agree_mono slice_done [OF wf, of k] by simp
qed (simp add: fill_slices_def D)

lemma all_done: "inst_wf inst \<Longrightarrow> cells inst \<subseteq> done_cells inst 4 0"
proof
  fix k assume "inst_wf inst" "k \<in> cells inst"
  then obtain l c where "l < n_lanes inst" "c < 4 * seg_len inst" "k = cell inst l c"
    using cell_surj by blast
  then show "k \<in> done_cells inst 4 0" unfolding done_cells_def by blast
qed

text \<open>Later passes turn memories that agree into memories that agree.\<close>

lemma later_steps:
  assumes wf: "inst_wf inst" and ok: "\<forall>x \<in> set xs. step_ok inst r s x" and fit: "fits inst m1" "fits inst m2"
    and D: "agree (cells inst) m1 m2"
  shows "agree (cells inst) (fold (thread_step inst r s) xs m1) (fold (thread_step inst r s) xs m2)"
  using ok fit D
proof (induction xs arbitrary: m1 m2)
  case (Cons x xs)
  obtain l i where x: "x = (l, i)" by force
  have own: "cell inst l (s * seg_len inst + i) \<in> cells inst"
    using Cons.prems(1) cell_less slice_col by (auto simp: x step_ok_def cells_def)
  have "agree (insert (cell inst l (s * seg_len inst + i)) (cells inst)) (thread_step inst r s x m1) (thread_step inst r s x m2)"
    unfolding x using Cons.prems x own
    by (intro thread_step_agree [OF wf]) (auto simp: may_read_def cells_def intro: cell_less)
  with Cons own show ?case by (simp add: insert_absorb)
qed simp

lemma later_slices:
  assumes wf: "inst_wf inst" and r: "r < 2 ^ 32" and ss: "\<forall>s \<in> set ss. s < 4" and fit: "fits inst m1" "fits inst m2"
    and D: "agree (cells inst) m1 m2"
  shows "agree (cells inst) (fill_slices inst r ss m1) (fill_slices inst r ss m2)"
proof -
  have lanes: "agree (cells inst) (fold (\<lambda>l. fill_segment inst (position_at r s l)) ls m1)
      (fold (\<lambda>l. fill_segment inst (position_at r s l)) ls m2)"
    if "s < 4" "\<forall>l \<in> set ls. l < n_lanes inst" "fits inst m1" "fits inst m2" "agree (cells inst) m1 m2" for s ls m1 m2
    using that
  proof (induction ls arbitrary: m1 m2)
    case (Cons l ls)
    have "agree (cells inst) (fill_segment inst (position_at r s l) m1) (fill_segment inst (position_at r s l) m2)"
      unfolding fill_segment_steps
      using Cons.prems seg_steps_ok(1) [OF r Cons.prems(1)] by (intro later_steps [OF wf]) auto
    with Cons show ?case by (simp add: fill_segment_steps fits_def)
  qed simp
  show ?thesis
    using ss fit D
  proof (induction ss arbitrary: m1 m2)
    case (Cons s ss)
    then show ?case using lanes [of s "[0..<n_lanes inst]" m1 m2] by (simp add: fill_slices_def fits_def)
  qed (simp add: fill_slices_def)
qed

lemma fill_memory_agree:
  assumes wf: "inst_wf inst" and p: "0 < in_passes inst" and fit: "fits inst m1" "fits inst m2"
    and D: "agree (done_cells inst 0 0) m1 m2"
  shows "agree (cells inst) (fill_memory_blocks_st inst m1) (fill_memory_blocks_st inst m2)"
proof -
  have st: "fill_memory_blocks_st inst m = fold (\<lambda>r. fill_slices inst r [0..<4]) [0..<unat (in_passes inst)] m" for m
    by (simp add: fill_memory_blocks_st_def fill_slices_def)
  have split: "[0..<unat (in_passes inst)] = 0 # [1..<unat (in_passes inst)]"
    using p by (simp add: upt_conv_Cons unat_gt_0 word_neq_0_conv)
  have "agree (cells inst) (fill_slices inst 0 [0..<4] m1) (fill_slices inst 0 [0..<4] m2)"
    using first_pass [OF wf order_refl fit D] all_done [OF wf] by (rule agree_mono)
  moreover have "agree (cells inst) (fold (\<lambda>r. fill_slices inst r [0..<4]) rs m1) (fold (\<lambda>r. fill_slices inst r [0..<4]) rs m2)"
    if "\<forall>r \<in> set rs. r < 2 ^ 32" "fits inst m1" "fits inst m2" "agree (cells inst) m1 m2" for rs m1 m2
    using that
  proof (induction rs arbitrary: m1 m2)
    case (Cons r rs)
    then show ?case using later_slices [OF wf, of r "[0..<4]" m1 m2] by (simp add: fits_def)
  qed simp
  ultimately show ?thesis
    unfolding st split using fit unat_bound_word [of "in_passes inst"] by (simp add: fits_def)
qed

end
