(* ===== verification/Argon2Ctx.thy ===== *)
theory Argon2Ctx
  imports Argon2 Argon2Fill
begin

text \<open>
  What \<open>argon2_ctx\<close> computes. A context that passes \<open>validate_inputs\<close> gives a memory of whole
  segments that no 32-bit computation wraps; every reference stays inside the finished blocks;
  threads, the persistent buffer and the contents of fresh memory have no influence on the digest,
  which is the tag of RFC 9106.
\<close>

section \<open>The geometry of a validated context\<close>

lemma word_le_unat: "a \<le> b \<longleftrightarrow> unat a \<le> unat b" for a b :: "'w::len word"
  by (rule word_le_nat_alt)

lemma validated:
  assumes "validate_inputs c = ARGON2_OK"
  shows "8 * unat (cx_lanes c) \<le> unat (cx_m_cost c)" "0 < unat (cx_lanes c)" "unat (cx_lanes c) < 2 ^ 24"
    "0 < cx_t_cost c" "4 \<le> unat (cx_outlen c)"
proof -
  have v: "cx_lanes c \<le> 0xFFFFFF" "cx_lanes c \<noteq> 0" "8 * cx_lanes c \<le> cx_m_cost c" "cx_t_cost c \<noteq> 0" "4 \<le> cx_outlen c"
    using assms unfolding validate_inputs_def by (simp_all split: if_split_asm)
  from v(1) have l: "unat (cx_lanes c) \<le> 0xFFFFFF" by (simp add: word_le_unat)
  have "unat (8 * cx_lanes c) = 8 * unat (cx_lanes c)" using l by (simp add: unat_word_ariths)
  then show "8 * unat (cx_lanes c) \<le> unat (cx_m_cost c)" using v(3) by (simp add: word_le_unat)
  show "unat (cx_lanes c) < 2 ^ 24" using l by simp
  show "0 < unat (cx_lanes c)" using v(2) by (simp add: unat_gt_0)
  show "0 < cx_t_cost c" using v(4) by (simp add: word_neq_0_conv)
  show "4 \<le> unat (cx_outlen c)" using v(5) by (simp add: word_le_unat)
qed

lemma segment_length_of_nat:
  assumes "validate_inputs c = ARGON2_OK"
  shows "unat (segment_length_of c) = unat (cx_m_cost c) div (4 * unat (cx_lanes c))"
proof -
  note v = validated [OF assms]
  have e: "unat (2 * 4 * cx_lanes c) = 8 * unat (cx_lanes c)" "unat (cx_lanes c * 4) = 4 * unat (cx_lanes c)"
    using v(3) by (simp_all add: unat_word_ariths)
  have "\<not> cx_m_cost c < 2 * 4 * cx_lanes c" using v(1) e(1) by (simp add: word_less_nat_alt)
  then show ?thesis by (simp add: segment_length_of_def Let_def unat_div e(2))
qed

lemma instance_of_simps [simp]:
  "in_passes (instance_of c t) = cx_t_cost c" "in_lanes (instance_of c t) = cx_lanes c"
  "in_type (instance_of c t) = t" "in_version (instance_of c t) = cx_version c"
  "in_segment_length (instance_of c t) = segment_length_of c"
  "in_lane_length (instance_of c t) = segment_length_of c * 4"
  "in_memory_blocks (instance_of c t) = segment_length_of c * (cx_lanes c * 4)"
  by (simp_all add: instance_of_def Let_def)

lemma div_mult_bounds:
  assumes "0 < d" "2 * d \<le> m"
  shows "2 \<le> m div d" "m div d * d \<le> m" "m - m div d * d < (d::nat)"
  using assms by (simp_all add: less_eq_div_iff_mult_less_eq minus_div_mult_eq_mod)

lemma geometry:
  assumes "validate_inputs c = ARGON2_OK"
  shows "inst_wf (instance_of c t)"
    and "unat (in_memory_blocks (instance_of c t)) \<le> unat (cx_m_cost c)"
    and "unat (cx_m_cost c) - unat (in_memory_blocks (instance_of c t)) < 4 * unat (cx_lanes c)"
proof -
  note v = validated [OF assms] and s = segment_length_of_nat [OF assms]
  let ?d = "4 * unat (cx_lanes c)" and ?m = "unat (cx_m_cost c)"
  have b: "2 \<le> ?m div ?d" "?m div ?d * ?d \<le> ?m" "?m - ?m div ?d * ?d < ?d"
    using v(1,2) by (intro div_mult_bounds; simp)+
  have m: "?m < 2 ^ 32" using unat_bound_word [of "cx_m_cost c"] by simp
  have l4: "unat (cx_lanes c * 4) = ?d" using v(3) by (simp add: unat_word_ariths)
  have mb: "unat (segment_length_of c * (cx_lanes c * 4)) = ?m div ?d * ?d"
    unfolding unat_word_ariths(2) [of "segment_length_of c"] s l4
    by (rule mod_less) (rule le_less_trans [OF b(2)], use m in simp)
  have "?m div ?d * 4 \<le> ?m div ?d * ?d" using v(2) by (intro mult_le_mono2) simp
  then have "?m div ?d * 4 < 2 ^ 32" using b(2) m by linarith
  then have "unat (segment_length_of c * 4) = 4 * (?m div ?d)"
    unfolding unat_word_ariths(2) [of "segment_length_of c"] s by simp
  with mb b(1) show "inst_wf (instance_of c t)" by (simp add: inst_wf_def s)
  show "unat (in_memory_blocks (instance_of c t)) \<le> ?m" using mb b(2) by simp
  show "?m - unat (in_memory_blocks (instance_of c t)) < ?d" using mb b(3) by simp
qed

section \<open>The initial hash\<close>

text \<open>The bytes of an argument, and the input of \<open>H\<^sub>0\<close> in section 3.2 of RFC 9106.\<close>

definition arg_bytes :: "u8 list option \<Rightarrow> u32 \<Rightarrow> u8 list" where
  "arg_bytes p n = (case p of None \<Rightarrow> [] | Some p \<Rightarrow> take (unat n) p)"

definition rfc9106_H0 :: "argon2_context \<Rightarrow> argon2_type \<Rightarrow> u8 list" where
  "rfc9106_H0 c t = rfc_blake2b 64 []
     (store32 (cx_lanes c) @ store32 (cx_outlen c) @ store32 (cx_m_cost c) @ store32 (cx_t_cost c) @
      store32 (cx_version c) @ store32 (type_code t) @
      store32 (cx_pwdlen c) @ arg_bytes (cx_pwd c) (cx_pwdlen c) @
      store32 (cx_saltlen c) @ arg_bytes (cx_salt c) (cx_saltlen c) @
      store32 (cx_secretlen c) @ arg_bytes (cx_secret c) (cx_secretlen c) @
      store32 (cx_adlen c) @ arg_bytes (cx_ad c) (cx_adlen c))"

lemma hash_in_update_all: "hash_in p (update_all ps S) = update_all (ps @ [p]) S"
  by (simp add: hash_in_def update_all_def)

lemma hash_in_init: "hash_in p S = update_all [p] S"
  by (simp add: hash_in_def update_all_def)

lemma hash_opt_update_all:
  "hash_opt p n (update_all ps S) = update_all (ps @ (case p of None \<Rightarrow> [] | Some p \<Rightarrow> [take (unat n) p])) S"
  by (simp add: hash_opt_def hash_in_update_all split: option.split)

lemma concat_arg: "concat (case p of None \<Rightarrow> [] | Some p \<Rightarrow> [take (unat n) p]) = arg_bytes p n"
  by (simp add: arg_bytes_def split: option.split)

lemma clear_simps [simp]:
  "cx_saltlen (clear_pwd c) = cx_saltlen c" "cx_salt (clear_pwd c) = cx_salt c"
  "cx_secretlen (clear_pwd c) = cx_secretlen c" "cx_secret (clear_pwd c) = cx_secret c"
  "cx_adlen (clear_pwd c) = cx_adlen c" "cx_ad (clear_pwd c) = cx_ad c"
  "cx_adlen (clear_secret c) = cx_adlen c" "cx_ad (clear_secret c) = cx_ad c"
  "cx_buffer (clear_pwd c) = cx_buffer c" "cx_buffer (clear_secret c) = cx_buffer c"
  "cx_outlen (clear_pwd c) = cx_outlen c" "cx_outlen (clear_secret c) = cx_outlen c"
  by (simp_all add: clear_pwd_def clear_secret_def)

lemma initial_hash_H0:
  obtains c' where "initial_hash c t = (rfc9106_H0 c t, c')" "cx_buffer c' = cx_buffer c" "cx_outlen c' = cx_outlen c"
proof -
  obtain ret S where S: "blake2b_init blake2b_zero 64 = (ret, S)" by force
  let ?o = "\<lambda>p n. case p of None \<Rightarrow> [] | Some p \<Rightarrow> [take (unat n) p]"
  let ?ps = "[store32 (cx_lanes c), store32 (cx_outlen c), store32 (cx_m_cost c), store32 (cx_t_cost c),
      store32 (cx_version c), store32 (type_code t), store32 (cx_pwdlen c)] @ ?o (cx_pwd c) (cx_pwdlen c) @
      [store32 (cx_saltlen c)] @ ?o (cx_salt c) (cx_saltlen c) @
      [store32 (cx_secretlen c)] @ ?o (cx_secret c) (cx_secretlen c) @
      [store32 (cx_adlen c)] @ ?o (cx_ad c) (cx_adlen c)"
  obtain S' where f: "blake2b_final (update_all ?ps S) 64 = (0, Some (rfc_blake2b 64 [] (concat ?ps)), S')"
    using update_all_final [OF _ _ S, of ?ps] by auto
  have "concat ?ps = store32 (cx_lanes c) @ store32 (cx_outlen c) @ store32 (cx_m_cost c) @ store32 (cx_t_cost c) @
      store32 (cx_version c) @ store32 (type_code t) @
      store32 (cx_pwdlen c) @ arg_bytes (cx_pwd c) (cx_pwdlen c) @
      store32 (cx_saltlen c) @ arg_bytes (cx_salt c) (cx_saltlen c) @
      store32 (cx_secretlen c) @ arg_bytes (cx_secret c) (cx_secretlen c) @
      store32 (cx_adlen c) @ arg_bytes (cx_ad c) (cx_adlen c)"
    by (simp only: concat_append concat.simps concat_arg append.simps append_assoc append_Nil append_Nil2)
  with f have f': "blake2b_final (update_all ?ps S) 64 = (0, Some (rfc9106_H0 c t), S')"
    by (simp add: rfc9106_H0_def)
  let ?c2 = "clear_secret (clear_pwd c)"
  have "initial_hash c t = (rfc9106_H0 c t, ?c2)"
    unfolding initial_hash_def Let_def S snd_conv hash_in_init [of "store32 (cx_lanes c)"]
    unfolding hash_in_update_all hash_opt_update_all clear_simps using f' by simp
  then show ?thesis by (rule that) simp_all
qed

section \<open>The first and the last blocks\<close>

definition rfc9106_seed :: "u8 list \<Rightarrow> nat \<Rightarrow> nat \<Rightarrow> argon2_block" where
  "rfc9106_seed H0 l c = load_block (rfc_Hprime 1024 (take 64 H0 @ store32 (of_nat c) @ store32 (of_nat l)))"

lemma word_cell:
  assumes wf: "inst_wf inst" and l: "l < n_lanes inst" and c: "c < 4 * seg_len inst"
  shows "unat (of_nat l * in_lane_length inst + of_nat c) = cell inst l c"
proof -
  have "of_nat l * in_lane_length inst + of_nat c = (of_nat (cell inst l c) :: u32)"
    unfolding wf_words [OF wf] cell_def by (simp only: of_nat_add of_nat_mult)
  then show ?thesis using curr_mod(2) [OF wf l c] by (simp add: unat_of_nat_small)
qed

lemma fill_first_blocks_cells:
  assumes wf: "inst_wf inst" and fit: "fits inst m"
  shows "fits inst (fill_first_blocks H0 inst m)"
    and "l < n_lanes inst \<Longrightarrow> c < 2 \<Longrightarrow> fill_first_blocks H0 inst m ! cell inst l c = rfc9106_seed H0 l c"
proof -
  let ?f = "\<lambda>l m. (m[cell inst l 0 := rfc9106_seed H0 l 0])[cell inst l 1 := rfc9106_seed H0 l 1]"
  have seg: "2 \<le> seg_len inst" using wf by (simp add: inst_wf_def)
  have at: "unat (of_nat l * in_lane_length inst + 0) = cell inst l 0" "unat (of_nat l * in_lane_length inst + 1) = cell inst l 1"
    if "l < n_lanes inst" for l
    using word_cell [OF wf that, of 0] word_cell [OF wf that, of 1] seg by simp_all
  have "fill_first_blocks H0 inst m = fold ?f [0..<n_lanes inst] m"
    unfolding fill_first_blocks_def Let_def
  proof (intro fold_cong refl ext)
    fix l m assume "l \<in> set [0..<n_lanes inst]"
    then have "l < n_lanes inst" by simp
    from at [OF this] show "(m[unat (of_nat l * in_lane_length inst + 0) := load_block (the (snd (blake2b_long 1024
            (take 64 H0 @ store32 0 @ store32 (of_nat l)))))])
          [unat (of_nat l * in_lane_length inst + 1) := load_block (the (snd (blake2b_long 1024
            (take 64 H0 @ store32 1 @ store32 (of_nat l)))))] = ?f l m"
      using blake2b_long_correct [of 1024] by (simp add: rfc9106_seed_def)
  qed
  moreover have len: "length (fold ?f [0..<n] m) = length m" for n by (induction n) simp_all
  moreover have "fold ?f [0..<n] m ! cell inst l c = rfc9106_seed H0 l c" if "l < n" "n \<le> n_lanes inst" "c < 2" for n l c
    using that
  proof (induction n)
    case (Suc n)
    have lt: "cell inst l' c' < length m" if "l' \<le> n" "c' < 2" for l' c'
      using cell_less [of l' inst c'] that Suc.prems(2) fit seg by (simp add: fits_def)
    have ne: "cell inst l c = cell inst n c' \<longleftrightarrow> l = n \<and> c = c'" if "c' < 2" for c'
      using cell_inj [of c inst c' l n] that Suc.prems seg by auto
    have "c = 0 \<or> c = 1" using Suc.prems(3) by linarith
    then show ?case
      using Suc lt [of n 0] lt [of n 1] ne [of 0] ne [of 1] len [of n]
      by (cases "l = n") (auto simp: nth_list_update)
  qed simp
  ultimately show "fits inst (fill_first_blocks H0 inst m)"
    "l < n_lanes inst \<Longrightarrow> c < 2 \<Longrightarrow> fill_first_blocks H0 inst m ! cell inst l c = rfc9106_seed H0 l c"
    using fit by (simp_all add: fits_def)
qed

lemma fill_first_blocks_agree:
  assumes wf: "inst_wf inst" and "fits inst m1" "fits inst m2"
  shows "agree (done_cells inst 0 0) (fill_first_blocks H0 inst m1) (fill_first_blocks H0 inst m2)"
  unfolding agree_def done_cells_def
  using fill_first_blocks_cells(2) [OF wf assms(2)] fill_first_blocks_cells(2) [OF wf assms(3)] by auto

lemma final_block_cong:
  assumes wf: "inst_wf inst" and l: "0 < n_lanes inst" and D: "agree (cells inst) m1 m2"
  shows "final_block inst m1 = final_block inst m2"
proof -
  have L: "unat (in_lane_length inst) = 4 * seg_len inst" "2 \<le> seg_len inst" using wf by (auto simp: inst_wf_def)
  have c: "(of_nat (4 * seg_len inst - 1) :: u32) = in_lane_length inst - 1"
    unfolding wf_words [OF wf] using L(2) by (subst of_nat_diff) simp_all
  have e: "m1 ! unat (of_nat l * in_lane_length inst + (in_lane_length inst - 1)) =
      m2 ! unat (of_nat l * in_lane_length inst + (in_lane_length inst - 1))" if "l < n_lanes inst" for l
  proof -
    have "4 * seg_len inst - 1 < 4 * seg_len inst" using L by simp
    then have "unat (of_nat l * in_lane_length inst + (in_lane_length inst - 1)) \<in> cells inst"
      using word_cell [OF wf that, of "4 * seg_len inst - 1"] cell_less [OF that] unfolding c cells_def by simp
    then show ?thesis using D by (simp add: agree_def)
  qed
  show ?thesis
    unfolding final_block_def
    using e [of 0] l by (auto intro!: fold_cong simp: e)
qed

section \<open>The number of threads\<close>

text \<open>No function that computes blocks looks at the number of threads.\<close>

lemma in_threads_select:
  "in_version (inst\<lparr>in_threads := n\<rparr>) = in_version inst" "in_passes (inst\<lparr>in_threads := n\<rparr>) = in_passes inst"
  "in_memory_blocks (inst\<lparr>in_threads := n\<rparr>) = in_memory_blocks inst"
  "in_segment_length (inst\<lparr>in_threads := n\<rparr>) = in_segment_length inst"
  "in_lane_length (inst\<lparr>in_threads := n\<rparr>) = in_lane_length inst" "in_lanes (inst\<lparr>in_threads := n\<rparr>) = in_lanes inst"
  "in_type (inst\<lparr>in_threads := n\<rparr>) = in_type inst"
  by simp_all

lemma threads_irrelevant:
  "data_independent_addressing (inst\<lparr>in_threads := n\<rparr>) = data_independent_addressing inst"
  "index_alpha (inst\<lparr>in_threads := n\<rparr>) = index_alpha inst"
  "seg_ref_lane (inst\<lparr>in_threads := n\<rparr>) = seg_ref_lane inst"
  by (intro ext; simp only: data_independent_addressing_def index_alpha_def seg_ref_lane_def in_threads_select)+

lemma threads_irrelevant_segment: "fill_segment (inst\<lparr>in_threads := n\<rparr>) = fill_segment inst"
  by (intro ext) (simp only: fill_segment_def seg_init_def seg_pre_def seg_write_def seg_rand_def seg_ref_def
      threads_irrelevant in_threads_select)

lemma threads_irrelevant_fill:
  "fill_memory_blocks_st (inst\<lparr>in_threads := n\<rparr>) = fill_memory_blocks_st inst"
  "fill_first_blocks H0 (inst\<lparr>in_threads := n\<rparr>) = fill_first_blocks H0 inst"
  "final_block (inst\<lparr>in_threads := n\<rparr>) = final_block inst"
  by (intro ext; simp only: fill_memory_blocks_st_def threads_irrelevant_segment fill_first_blocks_def
      final_block_def in_threads_select)+

lemma instance_of_threads:
  "instance_of (c\<lparr>cx_buffer := b, cx_threads := n\<rparr>) t = (instance_of (c\<lparr>cx_threads := 1\<rparr>) t)
     \<lparr>in_threads := if n > cx_lanes c then cx_lanes c else n\<rparr>"
  by (simp add: instance_of_def segment_length_of_def Let_def)

section \<open>The digest\<close>

text \<open>
  The tag of RFC 9106: one thread, no buffer, and a memory that is zero before the first blocks are
  written.
\<close>

definition argon2_tag :: "argon2_context \<Rightarrow> argon2_type \<Rightarrow> u8 list" where
  "argon2_tag c t =
     (let inst = instance_of (c\<lparr>cx_threads := 1\<rparr>) t;
          memory = replicate (unat (in_memory_blocks inst)) (init_block_value 0);
          memory = fill_memory_blocks_st inst (fill_first_blocks (rfc9106_H0 c t) inst memory)
      in rfc_Hprime (unat (cx_outlen c)) (store_block (final_block inst memory)))"

text \<open>What the machine has to provide for a run: memory, and threads that all finish.\<close>

definition run_ok :: "argon2_env \<Rightarrow> argon2_context \<Rightarrow> argon2_type \<Rightarrow> bool" where
  "run_ok env c t \<longleftrightarrow>
     (case cx_buffer c of None \<Rightarrow> True | Some b \<Rightarrow> in_memory_blocks (instance_of c t) \<le> bf_blocks b) \<and>
     (case Option.bind (cx_buffer c) bf_memory of
        None \<Rightarrow> (\<exists>memory. ae_alloc env (unat (in_memory_blocks (instance_of c t))) = Some memory \<and>
                        length memory = unat (in_memory_blocks (instance_of c t)))
      | Some memory \<Rightarrow> unat (in_memory_blocks (instance_of c t)) \<le> length memory) \<and>
     (in_threads (instance_of c t) \<noteq> 1 \<longrightarrow>
        (\<forall>n. ae_malloc env n) \<and> sched_ok (instance_of c t) (ae_sched env))"

lemma allocate_memory_ok: "allocate_memory env n = (case ae_alloc env (unat n) of None \<Rightarrow> (ARGON2_MEMORY_ALLOCATION_ERROR, [])
    | Some memory \<Rightarrow> (ARGON2_OK, memory))"
proof -
  have n: "unat n < 2 ^ 32" using unat_bound_word [of n] by simp
  have "unat (ucast n * (1024 :: u64)) = unat n * 1024" using n by (simp add: unat_word_ariths)
  then have "unat (ucast n * (1024 :: u64) div 1024) = unat (ucast n :: u64)" by (simp add: unat_div)
  then have "ucast n * (1024 :: u64) div 1024 = ucast n" by (simp only: word_unat_eq_iff)
  then show ?thesis by (simp add: allocate_memory_def Let_def)
qed

lemma length_fill_st [simp]: "length (fill_memory_blocks_st inst m) = length m"
proof -
  have "length (fold (\<lambda>r. fold (\<lambda>s. fold (\<lambda>l. fill_segment inst (position_at r s l)) ls) ss) rs m) = length m"
    for ls ss and rs :: "nat list"
  proof (induction rs arbitrary: m)
    case (Cons r rs)
    have "length (fold (\<lambda>s. fold (\<lambda>l. fill_segment inst (position_at r s l)) ls) ss m) = length m"
      by (induction ss arbitrary: m) simp_all
    with Cons show ?case by simp
  qed simp
  then show ?thesis by (simp add: fill_memory_blocks_st_def)
qed

lemma length_fill_first [simp]: "length (fill_first_blocks H inst m) = length m"
proof -
  have "length (fold (\<lambda>l memory. memory[f l := a l, g l := b l]) ls m) = length m" for f g a b and ls :: "nat list"
    by (induction ls arbitrary: m) simp_all
  then show ?thesis by (simp add: fill_first_blocks_def Let_def)
qed

lemma fill_memory_blocks_ok:
  assumes "inst_wf inst" "0 < n_lanes inst"
    and "in_threads inst \<noteq> 1 \<Longrightarrow> (\<forall>n. ae_malloc env n) \<and> sched_ok inst (ae_sched env)"
  shows "fill_memory_blocks env inst m = (ARGON2_OK, fill_memory_blocks_st inst m)"
  using assms by (auto simp: fill_memory_blocks_def mt_eq_st)

lemma initialize_ok:
  assumes run: "run_ok env c t" and v: "validate_inputs c = ARGON2_OK"
  obtains memory c' where
    "initialize env (instance_of c t) (Option.bind (cx_buffer c) bf_memory) c =
       (ARGON2_OK, fill_first_blocks (rfc9106_H0 c t) (instance_of c t) memory, c')"
    "fits (instance_of c t) memory" "cx_buffer c' = cx_buffer c" "cx_outlen c' = cx_outlen c"
    "\<forall>m. Option.bind (cx_buffer c) bf_memory = Some m \<longrightarrow> memory = m"
proof -
  let ?i = "instance_of c t"
  obtain c' where c': "initial_hash c t = (rfc9106_H0 c t, c')" "cx_buffer c' = cx_buffer c" "cx_outlen c' = cx_outlen c"
    by (rule initial_hash_H0)
  have "\<exists>memory. (case Option.bind (cx_buffer c) bf_memory of None \<Rightarrow> allocate_memory env (in_memory_blocks ?i)
        | Some memory \<Rightarrow> (ARGON2_OK, memory)) = (ARGON2_OK, memory) \<and> unat (in_memory_blocks ?i) \<le> length memory"
    using run by (cases "Option.bind (cx_buffer c) bf_memory") (auto simp: run_ok_def allocate_memory_ok)
  then obtain memory where m: "(case Option.bind (cx_buffer c) bf_memory of None \<Rightarrow> allocate_memory env (in_memory_blocks ?i)
        | Some memory \<Rightarrow> (ARGON2_OK, memory)) = (ARGON2_OK, memory)" "unat (in_memory_blocks ?i) \<le> length memory" by blast
  have "\<forall>m. Option.bind (cx_buffer c) bf_memory = Some m \<longrightarrow> memory = m" using m(1) by auto
  moreover have "fits ?i memory" using m(2) geometry(1) [OF v, of t] by (simp add: fits_def inst_wf_def)
  ultimately show ?thesis using that [of memory c'] c' m(1) by (simp add: initialize_def)
qed

lemma digest_unique:
  assumes v: "validate_inputs c = ARGON2_OK" and fit: "fits (instance_of c t) m"
  shows "rfc_Hprime (unat (cx_outlen c)) (store_block (final_block (instance_of c t)
     (fill_memory_blocks_st (instance_of c t) (fill_first_blocks (rfc9106_H0 c t) (instance_of c t) m)))) = argon2_tag c t"
proof -
  let ?i = "instance_of c t" and ?i1 = "instance_of (c\<lparr>cx_threads := 1\<rparr>) t"
  let ?m0 = "replicate (unat (in_memory_blocks ?i)) (init_block_value 0)"
  have i1: "fill_memory_blocks_st ?i1 = fill_memory_blocks_st ?i" "fill_first_blocks H0 ?i1 = fill_first_blocks H0 ?i"
    "final_block ?i1 = final_block ?i" "in_memory_blocks ?i1 = in_memory_blocks ?i" for H0
    using instance_of_threads [where c = c and b = "cx_buffer c" and n = "cx_threads c" and t = t]
    by (simp_all add: threads_irrelevant_fill segment_length_of_def)
  have wf: "inst_wf ?i" using geometry(1) [OF v] .
  have p: "0 < in_passes ?i" "0 < n_lanes ?i" using validated [OF v] by simp_all
  have fit0: "fits ?i ?m0" using wf by (simp add: fits_def inst_wf_def)
  have "agree (cells ?i) (fill_memory_blocks_st ?i (fill_first_blocks (rfc9106_H0 c t) ?i m))
      (fill_memory_blocks_st ?i (fill_first_blocks (rfc9106_H0 c t) ?i ?m0))"
    by (intro fill_memory_agree [OF wf p(1)] fill_first_blocks_agree [OF wf] fill_first_blocks_cells(1) [OF wf] fit fit0)
  from final_block_cong [OF wf p(2) this] show ?thesis unfolding argon2_tag_def Let_def i1 by simp
qed

lemma tag_run: "argon2_tag (c\<lparr>cx_buffer := b, cx_threads := n\<rparr>) t = argon2_tag c t"
  by (simp add: argon2_tag_def rfc9106_H0_def instance_of_def segment_length_of_def Let_def)

lemma argon2_ctx_run:
  assumes "validate_inputs (c\<lparr>cx_buffer := b, cx_threads := n\<rparr>) = ARGON2_OK"
    and "run_ok env (c\<lparr>cx_buffer := b, cx_threads := n\<rparr>) t"
  shows "\<exists>c' memory. argon2_ctx env (c\<lparr>cx_buffer := b, cx_threads := n\<rparr>) t = (ARGON2_OK, Some (argon2_tag c t), c') \<and>
    length (argon2_tag c t) = unat (cx_outlen c) \<and>
    cx_buffer c' = map_option (bf_memory_update (map_option (\<lambda>_. memory))) b \<and>
    (\<forall>m. Option.bind b bf_memory = Some m \<longrightarrow> length memory = length m) \<and>
    (\<forall>buf. b = Some buf \<and> bf_clear buf \<longrightarrow>
       take (unat (in_memory_blocks (instance_of c t))) memory =
       replicate (unat (in_memory_blocks (instance_of c t))) (init_block_value 0))"
proof -
  let ?c = "c\<lparr>cx_buffer := b, cx_threads := n\<rparr>"
  let ?i = "instance_of ?c t"
  note v = validated [OF assms(1)]
  obtain m c' where i: "initialize env ?i (Option.bind b bf_memory) ?c =
       (ARGON2_OK, fill_first_blocks (rfc9106_H0 ?c t) ?i m, c')"
    "fits ?i m" "cx_buffer c' = b" "cx_outlen c' = cx_outlen c" "\<forall>m'. Option.bind b bf_memory = Some m' \<longrightarrow> m = m'"
    using initialize_ok [OF assms(2,1)] by auto
  let ?m = "fill_memory_blocks_st ?i (fill_first_blocks (rfc9106_H0 ?c t) ?i m)"
  have f: "fill_memory_blocks env ?i x = (ARGON2_OK, fill_memory_blocks_st ?i x)" for x
    using geometry(1) [OF assms(1)] v(2) assms(2) by (intro fill_memory_blocks_ok) (auto simp: run_ok_def)
  have len: "unat (cx_outlen c) < 2 ^ 32" "0 < unat (cx_outlen c)"
    using unat_bound_word [of "cx_outlen c"] v(5) by simp_all
  have tag: "the (snd (blake2b_long (unat (cx_outlen c)) (store_block (final_block ?i ?m)))) = argon2_tag c t"
    using digest_unique [OF assms(1) i(2)] blake2b_long_correct [of "unat (cx_outlen c)"] len
    by (simp add: tag_run)
  have big: "\<not> (case cx_buffer ?c of None \<Rightarrow> False | Some b \<Rightarrow> bf_blocks b < in_memory_blocks ?i)"
    using assms(2) by (auto simp: run_ok_def split: option.splits)
  have mb: "in_memory_blocks ?i = in_memory_blocks (instance_of c t)" by (simp add: segment_length_of_def Let_def)
  have run: "argon2_ctx env ?c t = (ARGON2_OK, Some (argon2_tag c t),
      c'\<lparr>cx_buffer := map_option (bf_memory_update (map_option (\<lambda>_. free_memory c' (in_memory_blocks ?i) ?m))) b\<rparr>)"
    unfolding argon2_ctx_def Let_def assms(1) using big
    by (simp add: i f finalize_def tag del: instance_of_simps)
  have "length (argon2_tag c t) = unat (cx_outlen c)"
    using blake2b_long_correct [of "unat (cx_outlen c)"] len unfolding argon2_tag_def Let_def by blast
  moreover have "take (unat (in_memory_blocks ?i)) (free_memory c' (in_memory_blocks ?i) ?m) =
      replicate (unat (in_memory_blocks ?i)) (init_block_value 0)" if "b = Some buf" "bf_clear buf" for buf
    using that i(3) by (simp add: free_memory_def write_at_def del: instance_of_simps)
  moreover have "length (free_memory c' (in_memory_blocks ?i) ?m) = length m"
    using i(2) geometry(1) [OF assms(1), of t]
    by (simp add: free_memory_def Let_def fits_def inst_wf_def del: instance_of_simps)
  ultimately show ?thesis unfolding run mb using i(5) by auto
qed

section \<open>Properties\<close>


text \<open>A run with two lanes whose threads interleave, in a buffer of twenty blocks of ones.\<close>

definition demo_ctx :: argon2_context where
  "demo_ctx = \<lparr>cx_out = True, cx_outlen = 32, cx_pwd = Some [1, 2], cx_pwdlen = 2,
     cx_salt = Some [1, 2, 3, 4, 5, 6, 7, 8], cx_saltlen = 8, cx_secret = None, cx_secretlen = 0,
     cx_ad = None, cx_adlen = 0, cx_t_cost = 1, cx_m_cost = 17, cx_lanes = 2, cx_threads = 1, cx_buffer = None,
     cx_version = 0x13, cx_allocate_cbk = False, cx_free_cbk = False, cx_flags = 0\<rparr>"

definition demo_argon_env :: argon2_env where
  "demo_argon_env = \<lparr>ae_alloc = (\<lambda>n. None), ae_malloc = (\<lambda>n. True),
     ae_sched = (\<lambda>r s. (if s = 0 then [] else [(1, 0), (0, 0), (0, 1), (1, 1)], True))\<rparr>"

definition demo_buffer :: argon2_buffer where
  "demo_buffer = \<lparr>bf_blocks = 20, bf_memory = Some (replicate 20 (init_block_value 1)), bf_clear = True\<rparr>"

lemma demo_instance:
  "instance_of (demo_ctx\<lparr>cx_buffer := Some demo_buffer, cx_threads := 9\<rparr>) t =
     \<lparr>in_version = 0x13, in_passes = 1, in_memory_blocks = 16, in_segment_length = 2, in_lane_length = 8,
      in_lanes = 2, in_threads = 2, in_type = t\<rparr>"
  by (simp add: demo_ctx_def instance_of_def segment_length_of_def)

lemma demo_run_ok: "run_ok demo_argon_env (demo_ctx\<lparr>cx_buffer := Some demo_buffer, cx_threads := 9\<rparr>) t"
proof -
  have "filter (\<lambda>x. fst x = l) (fst (ae_sched demo_argon_env 0 s)) = map (Pair l) [starting_index (position_at 0 s l)..<2]"
    if "s < 4" "l < 2" for s l :: nat
    using that(1) less_2_cases [OF that(2)] by (auto simp: demo_argon_env_def starting_index_at upt_rec)
  then have "sched_ok (instance_of (demo_ctx\<lparr>cx_buffer := Some demo_buffer, cx_threads := 9\<rparr>) t) (ae_sched demo_argon_env)"
    unfolding sched_ok_def demo_instance by (simp add: demo_argon_env_def)
  then show ?thesis
    unfolding run_ok_def demo_instance by (simp add: demo_buffer_def demo_argon_env_def)
qed

lemma demo_valid: "validate_inputs (demo_ctx\<lparr>cx_buffer := b, cx_threads := 9\<rparr>) = ARGON2_OK"
  by (simp add: demo_ctx_def validate_inputs_def)


text \<open>
  C40. The memory layout of a validated context: every lane has four segments of at least two blocks,
  no 32-bit product of the layout wraps, the memory in use is at most the memory cost and falls short of it
  by less than one block for each lane and slice.
\<close>

theorem argon2_layout:
  assumes "validate_inputs c = ARGON2_OK"
  shows "let seg = unat (in_segment_length (instance_of c t)); lanes = unat (cx_lanes c);
             blocks = unat (in_memory_blocks (instance_of c t))
         in 2 \<le> seg \<and> unat (in_lane_length (instance_of c t)) = 4 * seg \<and> blocks = lanes * (4 * seg) \<and>
            blocks \<le> unat (cx_m_cost c) \<and> unat (cx_m_cost c) < blocks + 4 * lanes"
  using geometry [OF assms, of t] by (simp add: inst_wf_def Let_def)

theorem argon2_layout_witness:
  "let seg = unat (in_segment_length (instance_of demo_ctx Argon2_d)); lanes = unat (cx_lanes demo_ctx);
       blocks = unat (in_memory_blocks (instance_of demo_ctx Argon2_d))
   in 2 \<le> seg \<and> unat (in_lane_length (instance_of demo_ctx Argon2_d)) = 4 * seg \<and> blocks = lanes * (4 * seg) \<and>
      blocks \<le> unat (cx_m_cost demo_ctx) \<and> unat (cx_m_cost demo_ctx) < blocks + 4 * lanes"
  by (rule argon2_layout) (simp add: demo_ctx_def validate_inputs_def)

text \<open>
  C37. Memory safety of the references. In pass \<open>r\<close>, slice \<open>s\<close>, the block that iteration \<open>i\<close> of
  lane \<open>l\<close> reads for the pseudo-random value \<open>pr\<close> lies inside the memory, whatever \<open>pr\<close> is: it
  is column \<open>col\<close> of a lane \<open>lane\<close>. It is never the block being written; in the first pass it is one
  already computed, and in another lane it is never in the slice that is being filled, so that
  threads do not race.
\<close>

theorem argon2_reference_safe:
  assumes "validate_inputs c = ARGON2_OK" and "r < unat (cx_t_cost c)" "s < 4" "l < unat (cx_lanes c)"
    and "i < unat (segment_length_of c)" and "r = 0 \<and> s = 0 \<longrightarrow> 2 \<le> i"
  shows "\<exists>lane col. let seg = unat (segment_length_of c); ref = seg_ref (instance_of c t) (position_at r s l) i pr
     in ref = lane * (4 * seg) + col \<and> ref < unat (in_memory_blocks (instance_of c t)) \<and>
        lane < unat (cx_lanes c) \<and> col < 4 * seg \<and> \<not> (lane = l \<and> col = s * seg + i) \<and>
        (r = 0 \<longrightarrow> col < s * seg + (if lane = l then i else 0)) \<and>
        (lane \<noteq> l \<longrightarrow> \<not> (s * seg \<le> col \<and> col < (s + 1) * seg))"
proof -
  let ?i = "instance_of c t"
  have wf: "inst_wf ?i" using geometry(1) [OF assms(1)] .
  have "step_ok ?i r s (l, i)"
    using assms unat_bound_word [of "cx_t_cost c"] by (simp add: step_ok_def)
  from seg_ref_cell [OF wf this, of pr] obtain l' c' where
    rc: "seg_ref ?i (position_at r s l) i pr = cell ?i l' c'" "may_read ?i r s (l, i) l' c'" by blast
  have b: "l' < n_lanes ?i" "c' < 4 * seg_len ?i" using rc(2) by (simp_all add: may_read_def)
  have m: "cell ?i l' c' < unat (in_memory_blocks ?i)" using cell_less [OF b] wf by (simp add: inst_wf_def)
  show ?thesis
    by (rule exI [of _ l'], rule exI [of _ c']) (use rc m in \<open>simp add: may_read_def cell_def Let_def split: if_splits\<close>)
qed

theorem argon2_reference_safe_witness:
  "\<exists>lane col. let seg = unat (segment_length_of demo_ctx);
       ref = seg_ref (instance_of demo_ctx Argon2_d) (position_at 0 2 1) 0 0xFEDCBA9876543210
     in ref = lane * (4 * seg) + col \<and> ref < unat (in_memory_blocks (instance_of demo_ctx Argon2_d)) \<and>
        lane < unat (cx_lanes demo_ctx) \<and> col < 4 * seg \<and> \<not> (lane = 1 \<and> col = 2 * seg + 0) \<and>
        ((0::nat) = 0 \<longrightarrow> col < 2 * seg + (if lane = 1 then 0 else 0)) \<and>
        (lane \<noteq> 1 \<longrightarrow> \<not> (2 * seg \<le> col \<and> col < (2 + 1) * seg))"
  by (rule argon2_reference_safe) (simp_all add: demo_ctx_def validate_inputs_def segment_length_of_def)

text \<open>
  Filling the memory with threads is filling it without: for the layout of a validated context,
  every interleaving of the lanes of a slice in which each lane runs through its segment in order
  leaves exactly the memory that \<open>fill_memory_blocks_st\<close> leaves.
\<close>

theorem fill_memory_threads_equiv:
  assumes "validate_inputs c = ARGON2_OK" and "sched_ok (instance_of c t) sched"
  shows "fill_memory_blocks_mt sched (instance_of c t) memory = (fill_memory_blocks_st (instance_of c t) memory, True)"
  using mt_eq_st [OF geometry(1) [OF assms(1)] assms(2)] .

theorem fill_memory_threads_equiv_witness:
  "\<forall>memory. let c = demo_ctx\<lparr>cx_buffer := Some demo_buffer, cx_threads := 9\<rparr>
     in fill_memory_blocks_mt (ae_sched demo_argon_env) (instance_of c Argon2_i) memory =
        (fill_memory_blocks_st (instance_of c Argon2_i) memory, True)"
proof -
  have "sched_ok (instance_of (demo_ctx\<lparr>cx_buffer := Some demo_buffer, cx_threads := 9\<rparr>) Argon2_i) (ae_sched demo_argon_env)"
    using demo_run_ok [of Argon2_i] by (simp add: run_ok_def demo_instance)
  from fill_memory_threads_equiv [OF demo_valid this] show ?thesis by (simp add: Let_def)
qed

end
