(* ===== verification/Argon2Hash.thy ===== *)
theory Argon2Hash
  imports Argon2Ctx "HOL-Library.Monad_Syntax"
begin

text \<open>
  The high-level functions of Argon2, \<^verbatim>\<open>src/crypto/argon2/src/argon2.c\<close>, and the encoder of hash
  strings, \<^verbatim>\<open>encoding.c\<close>. A string is a list of bytes without its final zero. The decoder and the
  functions that verify an encoded hash are not modelled: the program does not use them.
\<close>

section \<open>Encoding (encoding.c)\<close>

definition b64_EQ :: "u32 \<Rightarrow> u32 \<Rightarrow> u32" where
  "b64_EQ x y = (drop_bit 8 (0 - (x XOR y)) AND 0xFF) XOR 0xFF"

definition b64_GT :: "u32 \<Rightarrow> u32 \<Rightarrow> u32" where
  "b64_GT x y = drop_bit 8 (y - x) AND 0xFF"

definition b64_GE :: "u32 \<Rightarrow> u32 \<Rightarrow> u32" where "b64_GE x y = b64_GT y x XOR 0xFF"
definition b64_LT :: "u32 \<Rightarrow> u32 \<Rightarrow> u32" where "b64_LT x y = b64_GT y x"

definition b64_byte_to_char :: "u32 \<Rightarrow> u32" where
  "b64_byte_to_char x =
     (b64_LT x 26 AND (x + 65)) OR
     (b64_GE x 26 AND b64_LT x 52 AND (x + (97 - 26))) OR
     (b64_GE x 52 AND b64_LT x 62 AND (x + (48 - 52))) OR (b64_EQ x 62 AND 43) OR
     (b64_EQ x 63 AND 47)"

definition b64_olen :: "nat \<Rightarrow> nat" where
  "b64_olen n = (n div 3) * 4 + (if n mod 3 = 2 then 3 else if n mod 3 = 1 then 2 else 0)"

text \<open>The inner loop: as many sextets as the accumulator holds.\<close>

function b64_emit :: "u32 \<Rightarrow> nat \<Rightarrow> valtype \<Rightarrow> nat \<times> valtype" where
  "b64_emit acc acc_len dst =
     (if acc_len \<ge> 6
      then b64_emit acc (acc_len - 6) (dst @ [ucast (b64_byte_to_char (drop_bit (acc_len - 6) acc AND 0x3F))])
      else (acc_len, dst))"
  by pat_completeness auto
termination by (relation "measure (\<lambda>(a, n, d). n)") auto

declare b64_emit.simps [simp del]

fun b64_loop :: "valtype \<Rightarrow> u32 \<Rightarrow> nat \<Rightarrow> valtype \<Rightarrow> u32 \<times> nat \<times> valtype" where
  "b64_loop [] acc acc_len dst = (acc, acc_len, dst)"
| "b64_loop (b # buf) acc acc_len dst =
     (let acc = push_bit 8 acc + ucast b
      in case b64_emit acc (acc_len + 8) dst of (acc_len, dst) \<Rightarrow> b64_loop buf acc acc_len dst)"

definition to_base64 :: "nat \<Rightarrow> valtype \<Rightarrow> valtype option" where
  "to_base64 dst_len src =
     (if dst_len \<le> b64_olen (length src) then None
      else case b64_loop src 0 0 [] of
             (acc, acc_len, dst) \<Rightarrow>
               Some (if acc_len > 0
                     then dst @ [ucast (b64_byte_to_char (push_bit (6 - acc_len) acc AND 0x3F))] else dst))"

fun decimal :: "nat \<Rightarrow> valtype" where
  "decimal n = (if n < 10 then [of_nat (48 + n)] else decimal (n div 10) @ [of_nat (48 + n mod 10)])"

declare decimal.simps [simp del]

definition ascii :: "string \<Rightarrow> valtype" where
  "ascii s = map (\<lambda>c. of_nat (of_char c)) s"

fun argon2_type2string :: "argon2_type \<Rightarrow> bool \<Rightarrow> string" where
  "argon2_type2string Argon2_d uppercase = (if uppercase then ''Argon2d'' else ''argon2d'')"
| "argon2_type2string Argon2_i uppercase = (if uppercase then ''Argon2i'' else ''argon2i'')"
| "argon2_type2string Argon2_id uppercase = (if uppercase then ''Argon2id'' else ''argon2id'')"

text \<open>What has been written and the room that is left; \<open>None\<close> when the room runs out.\<close>

definition enc_SS :: "valtype \<Rightarrow> valtype \<times> nat \<Rightarrow> (valtype \<times> nat) option" where
  "enc_SS str = (\<lambda>(dst, dst_len).
     if length str \<ge> dst_len then None else Some (dst @ str, dst_len - length str))"

definition enc_SB :: "valtype \<Rightarrow> valtype \<times> nat \<Rightarrow> (valtype \<times> nat) option" where
  "enc_SB buf = (\<lambda>(dst, dst_len).
     case to_base64 dst_len buf of None \<Rightarrow> None | Some s \<Rightarrow> Some (dst @ s, dst_len - length s))"

definition encode_string :: "nat \<Rightarrow> argon2_context \<Rightarrow> valtype \<Rightarrow> argon2_type \<Rightarrow> argon2_error_codes \<times> valtype option" where
  "encode_string dst_len ctx out type =
     (if validate_inputs ctx \<noteq> ARGON2_OK then (validate_inputs ctx, None)
      else case do {
             w \<leftarrow> enc_SS (ascii ''$'') ([], dst_len);
             w \<leftarrow> enc_SS (ascii (argon2_type2string type False)) w;
             w \<leftarrow> enc_SS (ascii ''$v='') w;
             w \<leftarrow> enc_SS (decimal (unat (cx_version ctx))) w;
             w \<leftarrow> enc_SS (ascii ''$m='') w;
             w \<leftarrow> enc_SS (decimal (unat (cx_m_cost ctx))) w;
             w \<leftarrow> enc_SS (ascii '',t='') w;
             w \<leftarrow> enc_SS (decimal (unat (cx_t_cost ctx))) w;
             w \<leftarrow> enc_SS (ascii '',p='') w;
             w \<leftarrow> enc_SS (decimal (unat (cx_lanes ctx))) w;
             w \<leftarrow> enc_SS (ascii ''$'') w;
             w \<leftarrow> enc_SB (take (unat (cx_saltlen ctx)) (case cx_salt ctx of None \<Rightarrow> [] | Some s \<Rightarrow> s)) w;
             w \<leftarrow> enc_SS (ascii ''$'') w;
             enc_SB (take (unat (cx_outlen ctx)) out) w
           } of
             None \<Rightarrow> (ARGON2_ENCODING_FAIL, None)
           | Some (dst, dst_len) \<Rightarrow> (ARGON2_OK, Some dst))"

section \<open>Hashing (argon2.c)\<close>

definition hash_context ::
  "u32 \<Rightarrow> u32 \<Rightarrow> u32 \<Rightarrow> valtype option \<Rightarrow> nat \<Rightarrow> valtype option \<Rightarrow> nat \<Rightarrow> nat \<Rightarrow> u32 \<Rightarrow>
   argon2_buffer option \<Rightarrow> argon2_context" where
  "hash_context t_cost m_cost parallelism pwd pwdlen salt saltlen hashlen ver buffer =
     \<lparr>cx_out = True, cx_outlen = of_nat hashlen, cx_pwd = pwd, cx_pwdlen = of_nat pwdlen,
      cx_salt = salt, cx_saltlen = of_nat saltlen, cx_secret = None, cx_secretlen = 0,
      cx_ad = None, cx_adlen = 0, cx_t_cost = t_cost, cx_m_cost = m_cost, cx_lanes = parallelism,
      cx_threads = parallelism, cx_buffer = buffer, cx_version = ver, cx_allocate_cbk = False,
      cx_free_cbk = False, cx_flags = 0\<rparr>"

text \<open>
  The code, the hash when one is written, the encoded string when one is asked for (\<open>encoded\<close> is
  the size of its buffer), and the buffer afterwards.
\<close>

definition argon2_hash ::
  "argon2_env \<Rightarrow> u32 \<Rightarrow> u32 \<Rightarrow> u32 \<Rightarrow> valtype option \<Rightarrow> nat \<Rightarrow> valtype option \<Rightarrow> nat \<Rightarrow> bool \<Rightarrow> nat \<Rightarrow>
   nat option \<Rightarrow> argon2_type \<Rightarrow> u32 \<Rightarrow> argon2_buffer option \<Rightarrow>
   argon2_error_codes \<times> valtype option \<times> valtype option \<times> argon2_buffer option" where
  "argon2_hash env t_cost m_cost parallelism pwd pwdlen salt saltlen hash hashlen encoded type ver buffer =
     (if pwdlen > 0xFFFFFFFF then (ARGON2_PWD_TOO_LONG, None, None, buffer)
      else if saltlen > 0xFFFFFFFF then (ARGON2_SALT_TOO_LONG, None, None, buffer)
      else if hashlen > 0xFFFFFFFF then (ARGON2_OUTPUT_TOO_LONG, None, None, buffer)
      else if hashlen < 4 then (ARGON2_OUTPUT_TOO_SHORT, None, None, buffer)
      else if \<not> ae_malloc env hashlen then (ARGON2_MEMORY_ALLOCATION_ERROR, None, None, buffer)
      else case argon2_ctx env (hash_context t_cost m_cost parallelism pwd pwdlen salt saltlen hashlen ver buffer) type of
             (result, out, context) \<Rightarrow>
               if result \<noteq> ARGON2_OK then (result, None, None, cx_buffer context)
               else let h = (if hash then out else None)
                    in case encoded of
                         None \<Rightarrow> (ARGON2_OK, h, None, cx_buffer context)
                       | Some encodedlen \<Rightarrow>
                           if encodedlen = 0 then (ARGON2_OK, h, None, cx_buffer context)
                           else case encode_string encodedlen context (the out) type of
                                  (code, str) \<Rightarrow>
                                    if code \<noteq> ARGON2_OK
                                    then (ARGON2_ENCODING_FAIL, h, Some (replicate encodedlen 0), cx_buffer context)
                                    else (ARGON2_OK, h, str, cx_buffer context))"

definition argon2_hash_raw ::
  "argon2_type \<Rightarrow> argon2_env \<Rightarrow> u32 \<Rightarrow> u32 \<Rightarrow> u32 \<Rightarrow> valtype option \<Rightarrow> nat \<Rightarrow> valtype option \<Rightarrow> nat \<Rightarrow> nat \<Rightarrow>
   argon2_buffer option \<Rightarrow> argon2_error_codes \<times> valtype option \<times> argon2_buffer option" where
  "argon2_hash_raw type env t_cost m_cost parallelism pwd pwdlen salt saltlen hashlen buffer =
     (case argon2_hash env t_cost m_cost parallelism pwd pwdlen salt saltlen True hashlen None type
             ARGON2_VERSION_NUMBER buffer of
        (code, hash, _, buffer) \<Rightarrow> (code, hash, buffer))"

abbreviation "argon2d_hash_raw \<equiv> argon2_hash_raw Argon2_d"

definition argon2_compare :: "valtype \<Rightarrow> valtype \<Rightarrow> nat \<Rightarrow> int" where
  "argon2_compare b1 b2 len =
     (let d = fold (\<lambda>i d. d OR (b1 ! i XOR b2 ! i)) [0..<len] (0 :: u8)
      in (1 AND drop_bit 8 (uint d - 1)) - 1)"

definition argon2_verify_ctx ::
  "argon2_env \<Rightarrow> argon2_context \<Rightarrow> valtype \<Rightarrow> argon2_type \<Rightarrow> argon2_error_codes \<times> argon2_context" where
  "argon2_verify_ctx env context hash type =
     (case argon2_ctx env context type of
        (ret, out, context) \<Rightarrow>
          if ret \<noteq> ARGON2_OK then (ret, context)
          else if argon2_compare hash (the out) (unat (cx_outlen context)) \<noteq> 0
          then (ARGON2_VERIFY_MISMATCH, context)
          else (ARGON2_OK, context))"

end
