(* ===== verification/Feework.thy ===== *)
theory Feework
  imports Tx Argon2Hash
begin

text \<open>
  Work proofs for transactions without money fee: \<^verbatim>\<open>src/feeless/Feework.cpp\<close>,
  \<^verbatim>\<open>src/feeless/FeeworkBuffer.cpp\<close> and \<open>CTransaction::CheckFeework\<close> of
  \<^verbatim>\<open>src/blockchain/main.cpp\<close>. The lock of the buffer makes each hash one atomic step.
\<close>

section \<open>The class\<close>

datatype Feework_Status =
    FW_UNCHECKED | FW_OK | FW_NONE | FW_EMPTY | FW_COINBASE | FW_COINSTAKE | FW_INSOLUBLE | FW_MISPLACED
  | FW_BADVERSION | FW_MISSING | FW_BLOCKUNKNOWN | FW_BLOCKTOODEEP | FW_INPUTERROR | FW_INPUTNOTMAIN
  | FW_LOWMCOST | FW_HIGHMCOST | FW_NOHEIGHT | FW_NOLIMIT | FW_NOMCOST | FW_NOHASH | FW_NOWORK | FW_INSUFFICIENT

record Feework =
  fw_height :: int
  fw_pblockhash :: "uint256 option"
  fw_bytes :: u64
  fw_mcost :: u32
  fw_limit :: u64
  fw_work :: u64
  fw_hash :: u64
  fw_status :: Feework_Status

definition Feework_SetNull :: Feework where
  "Feework_SetNull = \<lparr>fw_height = -1, fw_pblockhash = None, fw_bytes = 0, fw_mcost = 0, fw_limit = 0,
     fw_work = 0, fw_hash = 0, fw_status = FW_UNCHECKED\<rparr>"

definition Feework_IsValid :: "Feework \<Rightarrow> bool" where
  "Feework_IsValid f \<longleftrightarrow> fw_status f = FW_OK \<or> fw_status f = FW_NONE"

fun Feework_GetStatus :: "Feework_Status \<Rightarrow> string" where
  "Feework_GetStatus FW_UNCHECKED = ''unchecked''"
| "Feework_GetStatus FW_OK = ''ok''"
| "Feework_GetStatus FW_NONE = ''tx_has_no_feework''"
| "Feework_GetStatus FW_EMPTY = ''tx_has_empty_vout''"
| "Feework_GetStatus FW_COINBASE = ''tx_is_coinbase''"
| "Feework_GetStatus FW_COINSTAKE = ''tx_is_coinstake''"
| "Feework_GetStatus FW_INSOLUBLE = ''tx_hash_insoluble_script''"
| "Feework_GetStatus FW_MISPLACED = ''tx_has_misplaced_feework''"
| "Feework_GetStatus FW_BADVERSION = ''tx_has_bad_version''"
| "Feework_GetStatus FW_MISSING = ''tx_missing_feework''"
| "Feework_GetStatus FW_BLOCKUNKNOWN = ''unknown_block''"
| "Feework_GetStatus FW_BLOCKTOODEEP = ''block_too_deep''"
| "Feework_GetStatus FW_INPUTERROR = ''error_fetching_inputs''"
| "Feework_GetStatus FW_INPUTNOTMAIN = ''input_not_in_mainchain''"
| "Feework_GetStatus FW_LOWMCOST = ''low_memory_cost''"
| "Feework_GetStatus FW_HIGHMCOST = ''high_memory_cost''"
| "Feework_GetStatus FW_NOHEIGHT = ''no_height''"
| "Feework_GetStatus FW_NOWORK = ''no_work''"
| "Feework_GetStatus FW_NOLIMIT = ''no_limit''"
| "Feework_GetStatus FW_NOMCOST = ''no_memory_cost''"
| "Feework_GetStatus FW_NOHASH = ''no_hash''"
| "Feework_GetStatus FW_INSUFFICIENT = ''insufficient_work''"

text \<open>\<open>None\<close> is an undefined read of a number, as for the other decoders.\<close>

definition ExtractFeework :: "valtype \<Rightarrow> Feework \<Rightarrow> Feework option" where
  "ExtractFeework vch f =
     (case IncrementN vch 0 4 of
        (False, _) \<Rightarrow> Some f
      | (True, e) \<Rightarrow> do {
          h \<leftarrow> GETUINT32 (slice vch 0 e);
          let f = f\<lparr>fw_height := sint h\<rparr>;
          case IncrementN vch e 4 of
            (False, _) \<Rightarrow> Some f
          | (True, e2) \<Rightarrow> do {
              m \<leftarrow> GETUINT32 (slice vch e e2);
              let f = f\<lparr>fw_mcost := m\<rparr>;
              case IncrementN vch e2 8 of
                (False, _) \<Rightarrow> Some f
              | (True, e3) \<Rightarrow> do { w \<leftarrow> GETUINT64 (slice vch e2 e3); Some (f\<lparr>fw_work := w\<rparr>) } } })"

definition Feework_payload :: "Feework \<Rightarrow> valtype" where
  "Feework_payload f = vchnum32 (word_of_int (fw_height f)) @ vchnum32 (fw_mcost f) @ vchnum64 (fw_work f)"

definition Feework_GetScript :: "Feework \<Rightarrow> valtype" where
  "Feework_GetScript f = push_data (Feework_payload f) @ [OP_FEEWORK]"

definition Feework_Check :: "Feework \<Rightarrow> u32 \<Rightarrow> bool \<times> Feework" where
  "Feework_Check f mcostIn =
     (let s = (if fw_status f = FW_UNCHECKED
               then if fw_mcost f < mcostIn then FW_LOWMCOST
                    else if fw_mcost f > FEEWORK_MAX_MCOST then FW_HIGHMCOST
                    else if fw_height f < 0 then FW_NOHEIGHT
                    else if fw_work f = 0 then FW_NOWORK
                    else if fw_hash f = 0 then FW_NOHASH
                    else if fw_limit f = 0 then FW_NOLIMIT
                    else if fw_mcost f = 0 then FW_NOMCOST
                    else if fw_limit f < fw_hash f then FW_INSUFFICIENT
                    else FW_OK
               else fw_status f)
      in (s = FW_OK, f\<lparr>fw_status := s\<rparr>))"

text \<open>The intermediate results are 128-bit integers, which hold them all.\<close>

definition Feework_GetDiff :: "Feework \<Rightarrow> int" where
  "Feework_GetDiff f =
     (if \<not> (fw_mcost f \<noteq> 0 \<and> fw_limit f \<noteq> 0 \<and> fw_work f \<noteq> 0 \<and> fw_hash f \<noteq> 0) then 0
      else let diff = (((uint TX_FEEWORK_LIMIT * MIN_TX_FEE) div uint (fw_hash f)) * uint (fw_mcost f)) div uint FEELESS_MCOST_MIN
           in if diff > 9223372036854775807 then MIN_TX_FEE else diff)"

section \<open>The buffer\<close>

record FeeworkBuffer =
  fb_pbuffer :: "argon2_buffer option"
  fb_alloc_error :: bool
  fb_mem_alloc_error :: bool

text \<open>
  \<open>malloc_struct\<close> and \<open>malloc_blocks\<close> are what the two allocations yield. A buffer structure that is
  allocated here has indeterminate fields \<open>uninit\<close> until they are set.
\<close>

definition FeeworkBuffer_Initialize ::
  "argon2_buffer \<Rightarrow> bool \<Rightarrow> (nat \<Rightarrow> argon2_block list option) \<Rightarrow> FeeworkBuffer \<Rightarrow> FeeworkBuffer" where
  "FeeworkBuffer_Initialize uninit malloc_struct malloc_blocks b =
     (case (case fb_pbuffer b of None \<Rightarrow> if malloc_struct then Some uninit else None | Some p \<Rightarrow> Some p) of
        None \<Rightarrow> \<lparr>fb_pbuffer = None, fb_alloc_error = True, fb_mem_alloc_error = False\<rparr>
      | Some p \<Rightarrow>
          let p = p\<lparr>bf_blocks := FEEWORK_MAX_MCOST, bf_memory := malloc_blocks (unat FEEWORK_MAX_MCOST)\<rparr>
          in case bf_memory p of
               None \<Rightarrow> \<lparr>fb_pbuffer = Some p, fb_alloc_error = False, fb_mem_alloc_error = True\<rparr>
             | Some m \<Rightarrow> \<lparr>fb_pbuffer = Some (p\<lparr>bf_clear := False\<rparr>), fb_alloc_error = False, fb_mem_alloc_error = False\<rparr>)"

section \<open>The hash\<close>

definition FEELESS_WORKLEN :: nat where "FEELESS_WORKLEN = 8"
definition FEELESS_HASHLEN :: nat where "FEELESS_HASHLEN = 8"
definition FEELESS_TCOST :: u32 where "FEELESS_TCOST = 1"
definition FEELESS_PARALLELISM :: u32 where "FEELESS_PARALLELISM = 1"
definition FEELESS_MAX_DEPTH :: int where "FEELESS_MAX_DEPTH = 24"

text \<open>The private function: a hash that Argon2 does not write stays zero.\<close>

definition GetFeeworkHash_raw ::
  "argon2_env \<Rightarrow> u32 \<Rightarrow> valtype \<Rightarrow> valtype \<Rightarrow> FeeworkBuffer \<Rightarrow> argon2_error_codes \<times> u64 \<times> FeeworkBuffer" where
  "GetFeeworkHash_raw env mcost data work buffer =
     (case argon2d_hash_raw env FEELESS_TCOST mcost FEELESS_PARALLELISM (Some data) (length data)
             (Some work) FEELESS_WORKLEN FEELESS_HASHLEN (fb_pbuffer buffer) of
        (result, hash, p) \<Rightarrow>
          (result, GetValue (case hash of None \<Rightarrow> replicate 8 0 | Some h \<Rightarrow> h), buffer\<lparr>fb_pbuffer := p\<rparr>))"

definition GetFeeworkHash ::
  "argon2_env \<Rightarrow> Feework \<Rightarrow> valtype \<Rightarrow> FeeworkBuffer \<Rightarrow> argon2_error_codes \<times> Feework \<times> FeeworkBuffer" where
  "GetFeeworkHash env f ss buffer =
     (if fw_mcost f > FEEWORK_MAX_MCOST
      then (ARGON2_MEMORY_TOO_MUCH, f\<lparr>fw_hash := TX_FEEWORK_ABSOLUTE_LIMIT\<rparr>, buffer)
      else case GetFeeworkHash_raw env (fw_mcost f) ss (vchnum64 (fw_work f)) buffer of
             (result, h, buffer) \<Rightarrow> (result, f\<lparr>fw_hash := h\<rparr>, buffer))"

section \<open>Checking a transaction\<close>

text \<open>
  The environment of \<open>CheckFeework\<close>: the globals, the machine Argon2 runs on, whether the registry is
  in replay mode, and the depths in the main chain of the transactions that the inputs
  refer to, as far as they can be fetched.
\<close>

record fw_env =
  fe_tx :: tx_env
  fe_argon :: argon2_env
  fe_replay :: bool
  fe_FetchInputs :: "CTransaction \<Rightarrow> int list option"

text \<open>The type and the solutions of the last output, or the status that ends the loop.\<close>

fun CheckFeework_vout :: "CTxOut list \<Rightarrow> (Feework_Status \<times> int, txnouttype \<times> valtype list) sum" where
  "CheckFeework_vout [] = Inl (FW_EMPTY, 100)"
| "CheckFeework_vout (txout # r) =
     (case Solver (scriptPubKey txout) [] of
        (ok, typetxo, vSolutions) \<Rightarrow>
          if \<not> ok then Inl (FW_INSOLUBLE, 0)
          else if typetxo = TX_FEEWORK \<and> r \<noteq> [] then Inl (FW_MISPLACED, 100)
          else if r = [] then Inr (typetxo, vSolutions)
          else CheckFeework_vout r)"

definition feework_data :: "uint256 \<Rightarrow> CTransaction \<Rightarrow> valtype" where
  "feework_data hashBlock tx =
     store_le 32 hashBlock @ ser_tx (blank_sigs (tx\<lparr>vout := butlast (vout tx)\<rparr>))"

text \<open>
  \<open>hashes\<close> are the hashes of the block and its ancestors, the block of height \<open>nHeight\<close> first; a walk
  behind the first block is a null pointer. The result is the score or success, the feework and
  the buffer.
\<close>

definition CheckFeework ::
  "fw_env \<Rightarrow> CTransaction \<Rightarrow> Feework \<Rightarrow> bool \<Rightarrow> FeeworkBuffer \<Rightarrow> int \<Rightarrow> uint256 list \<Rightarrow> u32 \<Rightarrow>
   GetMinFee_mode \<Rightarrow> bool \<Rightarrow> bool \<Rightarrow> ((int, unit) sum \<times> Feework \<times> FeeworkBuffer) option" where
  "CheckFeework env tx f fRequired buffer nHeight hashes nBlockSize mode fCheckDepth fMiner =
     (let fTestNet = te_fTestNet (fe_tx env);
          stop = (\<lambda>f s dos. Some (Inl dos, f\<lparr>fw_status := s\<rparr>, buffer))
      in if vout tx = [] then stop f FW_EMPTY 100
         else if IsCoinBase tx then stop f FW_COINBASE 100
         else if IsCoinStake tx then stop f FW_COINSTAKE 100
         else case CheckFeework_vout (vout tx) of
           Inl (s, dos) \<Rightarrow> stop f s dos
         | Inr (typetxo, vSolutions) \<Rightarrow>
             if typetxo \<noteq> TX_FEEWORK
             then if fRequired then stop f FW_MISSING 100
                  else Some (Inr (), f\<lparr>fw_status := FW_NONE\<rparr>, buffer)
             else if \<not> fTestNet \<and> nVersion tx < FEELESS_VERSION then stop f FW_BADVERSION 100
             else do {
               f \<leftarrow> ExtractFeework (hd vSolutions) f;
               let nFork = GetFork fTestNet (fw_height f);
               if \<not> fTestNet \<and> nFork < XST_FORKFEELESS then stop f FW_BADVERSION 100
               else if fw_height f > nHeight
               then stop f FW_BLOCKUNKNOWN (if fe_replay env then 0 else 34)
               else if fCheckDepth \<and> fw_height f < nHeight - FEELESS_MAX_DEPTH then stop f FW_BLOCKTOODEEP 34
               else if nat (nHeight - fw_height f) \<ge> length hashes then None
               else if (fMiner \<or> nFork \<ge> XST_FORKFEELESS2) \<and> fe_FetchInputs env tx = None then stop f FW_INPUTERROR 0
               else if (fMiner \<or> nFork \<ge> XST_FORKFEELESS2) \<and> list_ex (\<lambda>d. d < 1) (the (fe_FetchInputs env tx))
               then stop f FW_INPUTNOTMAIN 0
               else let ss = feework_data (hashes ! nat (nHeight - fw_height f)) tx;
                        f = f\<lparr>fw_limit := (if mode = GMF_RELAY then TX_FEEWORK_LIMIT else RELAY_TX_FEEWORK_LIMIT)\<rparr>
                    in case GetFeeworkHash (fe_argon env) f ss buffer of
                         (result, f, buffer) \<Rightarrow>
                           case Feework_Check f (GetFeeworkHardness nBlockSize mode (ucast (fw_bytes f))) of
                             (ok, f) \<Rightarrow> Some (if ok then Inr () else Inl 100, f, buffer)
             })"

section \<open>Scripts of work proofs\<close>

lemma GETUINT_inverse:
  "length v = 4 \<Longrightarrow> \<exists>n. GETUINT32 v = Some n \<and> vchnum32 n = v"
  "length v = 8 \<Longrightarrow> \<exists>n. GETUINT64 v = Some n \<and> vchnum64 n = v"
proof -
  have "(ucast (ucast (GetValue v) :: u32) :: u64) = GetValue v" if "length v = 4"
  proof (rule bit_word_eqI)
    fix b assume "b < LENGTH(64)"
    then show "bit (ucast (ucast (GetValue v) :: u32) :: u64) b = bit (GetValue v) b"
      using that by (auto simp: bit_simps bit_GetValue)
  qed
  then show "length v = 4 \<Longrightarrow> \<exists>n. GETUINT32 v = Some n \<and> vchnum32 n = v"
    using SetNum_GetValue [of v] by (simp add: GETUINT32_def vchnum_Set_exact vchnum32_def)
  show "length v = 8 \<Longrightarrow> \<exists>n. GETUINT64 v = Some n \<and> vchnum64 n = v"
    using SetNum_GetValue [of v] by (simp add: GETUINT64_def vchnum_Set_exact vchnum64_def)
qed

lemma length_Feework_payload [simp]: "length (Feework_payload f) = 16"
  by (simp add: Feework_payload_def)

lemma split_16:
  assumes "length (d :: valtype) = 16"
  obtains a b c where "d = a @ b @ c" "length a = 4" "length b = 4" "length c = 8"
proof
  show "d = take 4 d @ take 4 (drop 4 d) @ drop 8 d" by (metis append_take_drop_id drop_drop numeral_plus_numeral semiring_norm(8) semiring_norm(2,7,6) num.simps add_num_simps)
qed (use assms in auto)

lemma ExtractFeework_parts:
  assumes "length a = 4" "length b = 4" "length c = 8"
    and "GETUINT32 a = Some h" "GETUINT32 b = Some m" "GETUINT64 c = Some w"
  shows "ExtractFeework (a @ b @ c) f = Some (f\<lparr>fw_height := sint h, fw_mcost := m, fw_work := w\<rparr>)"
proof -
  have sl: "slice (a @ b @ c) 0 4 = a" "slice (a @ b @ c) 4 8 = b" "slice (a @ b @ c) 8 16 = c"
    using assms(1-3) by (simp_all add: slice_def)
  have "IncrementN (a @ b @ c) 0 4 = (True, 4)" "IncrementN (a @ b @ c) 4 4 = (True, 8)"
    "IncrementN (a @ b @ c) 8 8 = (True, 16)"
    using assms(1-3) by (simp_all add: IncrementN_eq)
  then show ?thesis unfolding ExtractFeework_def by (simp add: sl assms(4-6))
qed

lemma ExtractFeework_payload:
  assumes "- (2 ^ 31) \<le> fw_height f" "fw_height f < 2 ^ 31"
  shows "ExtractFeework (Feework_payload f) g =
    Some (g\<lparr>fw_height := fw_height f, fw_mcost := fw_mcost f, fw_work := fw_work f\<rparr>)"
proof -
  have "sint (word_of_int (fw_height f) :: u32) = fw_height f"
    using assms by (simp add: signed_of_int signed_take_bit_int_eq_self)
  then show ?thesis unfolding Feework_payload_def
    using ExtractFeework_parts [OF length_vchnum(2,2,1) GETUINT32_vchnum32 GETUINT32_vchnum32 GETUINT64_vchnum64] by simp
qed

text \<open>Sixteen bytes always decode, and to a feework whose payload they are.\<close>

lemma ExtractFeework_inverse:
  assumes "length d = 16"
  shows "\<exists>h m w. ExtractFeework d f = Some (f\<lparr>fw_height := h, fw_mcost := m, fw_work := w\<rparr>) \<and>
    Feework_payload (f\<lparr>fw_height := h, fw_mcost := m, fw_work := w\<rparr>) = d"
proof -
  obtain a b c where d: "d = a @ b @ c" and len: "length a = 4" "length b = 4" "length c = 8" using split_16 [OF assms] .
  obtain h m w where n: "GETUINT32 a = Some h" "vchnum32 h = a" "GETUINT32 b = Some m" "vchnum32 m = b"
    "GETUINT64 c = Some w" "vchnum64 w = c" using GETUINT_inverse len by metis
  then show ?thesis unfolding d using ExtractFeework_parts [OF len n(1,3,5)]
    by (intro exI [of _ "sint h"] exI [of _ m] exI [of _ w]) (simp add: Feework_payload_def)
qed

lemma Solver_feework_iff:
  "Solver s vs = (True, TX_FEEWORK, sols) \<longleftrightarrow> (\<exists>d. s = push_data d @ [OP_FEEWORK] \<and> sols = [d] \<and> length d = 16)"
  by (subst Solver_payload_iff) (auto simp: payload_op_def payload_size_def payload_text_def)

section \<open>The hash is the tag of Argon2d\<close>

definition feework_tag :: "u32 \<Rightarrow> valtype \<Rightarrow> u64 \<Rightarrow> u8 list" where
  "feework_tag mcost data work =
     argon2_tag (hash_context 1 mcost 1 (Some data) (length data) (Some (vchnum64 work)) 8 8 0x13 None) Argon2_d"

definition buffer_ready :: "FeeworkBuffer \<Rightarrow> bool" where
  "buffer_ready b \<longleftrightarrow> (\<exists>p m. fb_pbuffer b = Some p \<and> bf_blocks p = FEEWORK_MAX_MCOST \<and> bf_memory p = Some m \<and>
     length m = unat FEEWORK_MAX_MCOST)"

lemma Initialize_ready:
  assumes "\<And>n. \<exists>m. malloc_blocks n = Some m \<and> length m = n"
  shows "buffer_ready (FeeworkBuffer_Initialize uninit True malloc_blocks b)"
  using assms [of "unat FEEWORK_MAX_MCOST"]
  by (auto simp: FeeworkBuffer_Initialize_def buffer_ready_def Let_def split: option.splits)

lemma hash_context_run:
  "hash_context t m p pwd n salt k h v b = (hash_context t m p pwd n salt k h v None)\<lparr>cx_buffer := b, cx_threads := p\<rparr>"
  by (simp add: hash_context_def)

lemma feework_argon2:
  assumes "buffer_ready b" "length data < 2 ^ 32" "8 \<le> mcost" "mcost \<le> FEEWORK_MAX_MCOST"
  shows "\<exists>c' b'. buffer_ready b' \<and> b' = b\<lparr>fb_pbuffer := cx_buffer c'\<rparr> \<and>
    argon2_ctx env (hash_context 1 mcost 1 (Some data) (length data) (Some (vchnum64 work)) 8 8 0x13 (fb_pbuffer b)) Argon2_d =
      (ARGON2_OK, Some (feework_tag mcost data work), c') \<and> length (feework_tag mcost data work) = 8"
proof -
  obtain p m where p: "fb_pbuffer b = Some p" "bf_blocks p = FEEWORK_MAX_MCOST" "bf_memory p = Some m"
    "length m = unat FEEWORK_MAX_MCOST" using assms(1) by (auto simp: buffer_ready_def)
  let ?k = "hash_context 1 mcost 1 (Some data) (length data) (Some (vchnum64 work)) 8 8 0x13 None"
  let ?c = "?k\<lparr>cx_buffer := Some p, cx_threads := 1\<rparr>"
  have "x \<le> 4294967295" for x :: u32 using unat_bound_word [of x] by (simp add: word_le_nat_alt)
  then have v: "validate_inputs ?c = ARGON2_OK" using assms(3) by (simp add: validate_inputs_def hash_context_def not_less)
  have "unat (in_memory_blocks (instance_of ?c Argon2_d)) \<le> unat mcost"
    using geometry [OF v, of Argon2_d] by (simp add: hash_context_def)
  then have fit: "in_memory_blocks (instance_of ?c Argon2_d) \<le> FEEWORK_MAX_MCOST"
    using assms(4) by (simp add: word_le_nat_alt del: instance_of_simps)
  have "in_threads (instance_of ?c Argon2_d) = 1" by (simp add: hash_context_def instance_of_def Let_def)
  then have "run_ok env ?c Argon2_d"
    using p fit by (simp add: run_ok_def word_le_nat_alt del: instance_of_simps)
  from argon2_ctx_run [where c = ?k, OF v this] obtain c' memory where
    r: "argon2_ctx env ?c Argon2_d = (ARGON2_OK, Some (argon2_tag ?k Argon2_d), c')"
    "length (argon2_tag ?k Argon2_d) = unat (cx_outlen ?k)"
    "cx_buffer c' = Some (bf_memory_update (map_option (\<lambda>_. memory)) p)"
    "\<forall>m. Option.bind (Some p) bf_memory = Some m \<longrightarrow> length memory = length m"
    by (auto simp only: option.map)
  have "buffer_ready (b\<lparr>fb_pbuffer := cx_buffer c'\<rparr>)" using r(3,4) p by (simp add: buffer_ready_def)
  moreover have "hash_context 1 mcost 1 (Some data) (length data) (Some (vchnum64 work)) 8 8 0x13 (fb_pbuffer b) = ?c"
    unfolding p(1) by (rule hash_context_run)
  ultimately show ?thesis using r(1,2) by (intro exI [of _ c'] exI [of _ "b\<lparr>fb_pbuffer := cx_buffer c'\<rparr>"])
      (simp add: feework_tag_def hash_context_def)
qed

lemma GetFeeworkHash_cases:
  assumes "buffer_ready b" "length ss < 2 ^ 32" "ae_malloc env 8"
  shows "\<exists>b'. buffer_ready b' \<and> GetFeeworkHash env f ss b =
    (if fw_mcost f > FEEWORK_MAX_MCOST then (ARGON2_MEMORY_TOO_MUCH, f\<lparr>fw_hash := TX_FEEWORK_ABSOLUTE_LIMIT\<rparr>, b')
     else if fw_mcost f < 8 then (ARGON2_MEMORY_TOO_LITTLE, f\<lparr>fw_hash := 0\<rparr>, b')
     else (ARGON2_OK, f\<lparr>fw_hash := GetValue (feework_tag (fw_mcost f) ss (fw_work f))\<rparr>, b'))"
proof -
  note defs = GetFeeworkHash_def GetFeeworkHash_raw_def argon2_hash_raw_def argon2_hash_def
    FEELESS_WORKLEN_def FEELESS_HASHLEN_def FEELESS_TCOST_def FEELESS_PARALLELISM_def
  consider "fw_mcost f > FEEWORK_MAX_MCOST" | "fw_mcost f < 8" "\<not> fw_mcost f > FEEWORK_MAX_MCOST"
    | "8 \<le> fw_mcost f" "fw_mcost f \<le> FEEWORK_MAX_MCOST" by (meson not_less)
  then show ?thesis
  proof cases
    case 1
    then show ?thesis using assms(1) by (auto simp: GetFeeworkHash_def)
  next
    case 2
    have "x \<le> 4294967295" for x :: u32 using unat_bound_word [of x] by (simp add: word_le_nat_alt)
    then have "validate_inputs (hash_context 1 (fw_mcost f) 1 (Some ss) (length ss) (Some (vchnum64 (fw_work f))) 8 8 0x13
        (fb_pbuffer b)) = ARGON2_MEMORY_TOO_LITTLE"
      using 2(1) by (simp add: validate_inputs_def hash_context_def not_less)
    moreover have "GetValue (replicate 8 0) = 0" by (simp add: GetValue_def upt_rec)
    ultimately show ?thesis using 2 assms
      by (intro exI [of _ b]) (simp add: defs argon2_ctx_def hash_context_def)
  next
    case 3
    from feework_argon2 [OF assms(1,2) 3] obtain c' b' where r: "buffer_ready b'" "b' = b\<lparr>fb_pbuffer := cx_buffer c'\<rparr>"
      "argon2_ctx (env) (hash_context 1 (fw_mcost f) 1 (Some ss) (length ss) (Some (vchnum64 (fw_work f))) 8 8 0x13
         (fb_pbuffer b)) Argon2_d = (ARGON2_OK, Some (feework_tag (fw_mcost f) ss (fw_work f)), c')" by blast
    then show ?thesis using 3 assms(2,3) by (intro exI [of _ b']) (simp add: defs not_less [symmetric])
  qed
qed

section \<open>Accepted work\<close>

lemma CheckFeework_vout_iff:
  "CheckFeework_vout os = Inr (TX_FEEWORK, sols) \<longleftrightarrow> os \<noteq> [] \<and>
   list_all (\<lambda>x. fst (Solver (scriptPubKey x) []) \<and> fst (snd (Solver (scriptPubKey x) [])) \<noteq> TX_FEEWORK) (butlast os) \<and>
   Solver (scriptPubKey (last os)) [] = (True, TX_FEEWORK, sols)"
  by (induction os) (auto split: prod.splits if_splits)

lemma Feework_script_solved:
  "Solver s [] = (True, TX_FEEWORK, [Feework_payload g]) \<longleftrightarrow> s = Feework_GetScript g"
  by (auto simp: Solver_feework_iff Feework_GetScript_def)

text \<open>
  The conditions under which the work proof \<open>g\<close> is accepted for a transaction.
\<close>

definition feework_placed :: "CTransaction \<Rightarrow> Feework \<Rightarrow> bool" where
  "feework_placed tx g \<longleftrightarrow>
     \<not> IsCoinBase tx \<and> \<not> IsCoinStake tx \<and> vout tx \<noteq> [] \<and>
     scriptPubKey (last (vout tx)) = Feework_GetScript g \<and>
     list_all (\<lambda>x. fst (Solver (scriptPubKey x) []) \<and> fst (snd (Solver (scriptPubKey x) [])) \<noteq> TX_FEEWORK) (butlast (vout tx))"

definition feework_timely :: "fw_env \<Rightarrow> CTransaction \<Rightarrow> int \<Rightarrow> uint256 list \<Rightarrow> bool \<Rightarrow> bool \<Rightarrow> Feework \<Rightarrow> bool" where
  "feework_timely env tx h hashes fCheckDepth fMiner g \<longleftrightarrow>
     (let nFork = GetFork (te_fTestNet (fe_tx env)) (fw_height g)
      in (te_fTestNet (fe_tx env) \<or> FEELESS_VERSION \<le> nVersion tx \<and> XST_FORKFEELESS \<le> nFork) \<and>
         0 \<le> fw_height g \<and> fw_height g \<le> h \<and> (fCheckDepth \<longrightarrow> h - FEELESS_MAX_DEPTH \<le> fw_height g) \<and>
         nat (h - fw_height g) < length hashes \<and>
         (fMiner \<or> XST_FORKFEELESS2 \<le> nFork \<longrightarrow>
            (\<exists>ds. fe_FetchInputs env tx = Some ds \<and> \<not> list_ex (\<lambda>d. d < 1) ds)))"

definition feework_enough :: "CTransaction \<Rightarrow> int \<Rightarrow> uint256 list \<Rightarrow> u32 \<Rightarrow> Feework \<Rightarrow> bool" where
  "feework_enough tx h hashes hardness g \<longleftrightarrow>
     (let tag = GetValue (feework_tag (fw_mcost g) (feework_data (hashes ! nat (h - fw_height g)) tx) (fw_work g))
      in hardness \<le> fw_mcost g \<and> 8 \<le> fw_mcost g \<and> fw_mcost g \<le> FEEWORK_MAX_MCOST \<and> fw_work g \<noteq> 0 \<and>
         0 < tag \<and> tag \<le> TX_FEEWORK_LIMIT)"

lemma Feework_Check_OK:
  assumes "Feework_Check f m = (True, f')" "fw_status f = FW_UNCHECKED"
  shows "f' = f\<lparr>fw_status := FW_OK\<rparr> \<and> m \<le> fw_mcost f \<and> fw_mcost f \<le> FEEWORK_MAX_MCOST \<and> 0 \<le> fw_height f \<and>
    fw_work f \<noteq> 0 \<and> fw_hash f \<noteq> 0 \<and> fw_hash f \<le> fw_limit f"
  using assms by (auto simp: Feework_Check_def Let_def not_less split: if_splits)

lemma CheckFeework_accepted:
  assumes acc: "CheckFeework env tx f req b h hashes bs mode chk miner = Some (Inr (), f', b')"
    and ok: "fw_status f' = FW_OK" "fw_status f = FW_UNCHECKED"
    and run: "buffer_ready b" "ae_malloc (fe_argon env) 8" "\<forall>x. length (feework_data x tx) < 2 ^ 32"
  shows "feework_placed tx f' \<and> feework_timely env tx h hashes chk miner f' \<and>
    feework_enough tx h hashes (GetFeeworkHardness bs mode (ucast (fw_bytes f))) f'"
proof -
  obtain t sols where vo: "CheckFeework_vout (vout tx) = Inr (t, sols)" "vout tx \<noteq> []" "\<not> IsCoinBase tx" "\<not> IsCoinStake tx"
    using acc ok by (auto simp: CheckFeework_def Let_def split: sum.splits if_splits prod.splits)
  have t: "t = TX_FEEWORK" using acc ok vo by (auto simp: CheckFeework_def Let_def split: if_splits)
  note last = iffD1 [OF CheckFeework_vout_iff, OF vo(1) [unfolded t]]
  then obtain d where d: "scriptPubKey (last (vout tx)) = push_data d @ [OP_FEEWORK]" "sols = [d]" "length d = 16"
    by (auto simp: Solver_feework_iff)
  obtain fh fm w where e: "ExtractFeework d f = Some (f\<lparr>fw_height := fh, fw_mcost := fm, fw_work := w\<rparr>)"
    "Feework_payload (f\<lparr>fw_height := fh, fw_mcost := fm, fw_work := w\<rparr>) = d"
    using ExtractFeework_inverse [OF d(3)] by blast
  let ?g = "f\<lparr>fw_height := fh, fw_mcost := fm, fw_work := w,
      fw_limit := if mode = GMF_RELAY then TX_FEEWORK_LIMIT else RELAY_TX_FEEWORK_LIMIT\<rparr>"
  let ?ss = "feework_data (hashes ! nat (h - fh)) tx"
  obtain res g' where gh: "GetFeeworkHash (fe_argon env) ?g ?ss b = (res, g', b')"
    "Feework_Check g' (GetFeeworkHardness bs mode (ucast (fw_bytes g'))) = (True, f')"
    and hh: "\<not> fh > h" "\<not> (chk \<and> fh < h - FEELESS_MAX_DEPTH)" "nat (h - fh) < length hashes"
      "te_fTestNet (fe_tx env) \<or> FEELESS_VERSION \<le> nVersion tx \<and> XST_FORKFEELESS \<le> GetFork (te_fTestNet (fe_tx env)) fh"
      "miner \<or> XST_FORKFEELESS2 \<le> GetFork (te_fTestNet (fe_tx env)) fh \<Longrightarrow>
        \<exists>ds. fe_FetchInputs env tx = Some ds \<and> \<not> list_ex (\<lambda>d. d < 1) ds"
    using acc ok unfolding CheckFeework_def Let_def
    by (auto simp: vo t d(2) e(1) not_less not_le split: if_splits prod.splits)
  obtain b2 where "GetFeeworkHash (fe_argon env) ?g ?ss b =
    (if fm > FEEWORK_MAX_MCOST then (ARGON2_MEMORY_TOO_MUCH, ?g\<lparr>fw_hash := TX_FEEWORK_ABSOLUTE_LIMIT\<rparr>, b2)
     else if fm < 8 then (ARGON2_MEMORY_TOO_LITTLE, ?g\<lparr>fw_hash := 0\<rparr>, b2)
     else (ARGON2_OK, ?g\<lparr>fw_hash := GetValue (feework_tag fm ?ss w)\<rparr>, b2))"
    using GetFeeworkHash_cases [OF run(1) _ run(2), of ?ss ?g] run(3) by auto
  with gh(1) have r: "g' = ?g\<lparr>fw_hash := fw_hash g'\<rparr>"
    "fm \<le> FEEWORK_MAX_MCOST \<Longrightarrow> fw_hash g' = (if fm < 8 then 0 else GetValue (feework_tag fm ?ss w))"
    by (auto simp: not_less split: if_splits)
  have st: "fw_status g' = FW_UNCHECKED" "fw_mcost g' = fm" "fw_height g' = fh" "fw_work g' = w" "fw_bytes g' = fw_bytes f"
    "fw_limit g' = TX_FEEWORK_LIMIT"
    using ok(2) by (subst r(1), simp add: TX_FEEWORK_LIMIT_def RELAY_TX_FEEWORK_LIMIT_def)+
  note c = Feework_Check_OK [OF gh(2) st(1), unfolded st]
  have f': "f' = g'\<lparr>fw_status := FW_OK\<rparr>" using c by blast
  have "Feework_payload f' = d" using e(2) st by (simp add: f' Feework_payload_def)
  with vo(2-) last d(1) have "feework_placed tx f'" by (auto simp: feework_placed_def Feework_GetScript_def)
  moreover have "feework_timely env tx h hashes chk miner f'"
    using hh c st by (auto simp: f' feework_timely_def Let_def not_less)
  moreover have "feework_enough tx h hashes (GetFeeworkHardness bs mode (ucast (fw_bytes f))) f'"
    using c r(2) st by (auto simp: f' feework_enough_def Let_def word_gt_0 not_less split: if_splits)
  ultimately show ?thesis by blast
qed

lemma CheckFeework_accepts:
  assumes g: "feework_placed tx g" "feework_timely env tx h hashes chk miner g"
    "feework_enough tx h hashes (GetFeeworkHardness bs mode (ucast (fw_bytes f))) g"
    and ok: "fw_status f = FW_UNCHECKED" "h < 2 ^ 31"
    and run: "buffer_ready b" "ae_malloc (fe_argon env) 8" "\<forall>x. length (feework_data x tx) < 2 ^ 32"
  shows "\<exists>f' b'. CheckFeework env tx f req b h hashes bs mode chk miner = Some (Inr (), f', b') \<and> fw_status f' = FW_OK"
proof -
  have vo: "CheckFeework_vout (vout tx) = Inr (TX_FEEWORK, [Feework_payload g])" "vout tx \<noteq> []" "\<not> IsCoinBase tx" "\<not> IsCoinStake tx"
    using g(1) by (simp_all add: CheckFeework_vout_iff feework_placed_def Feework_script_solved)
  have hr: "0 \<le> fw_height g" "fw_height g \<le> h" using g(2) by (simp_all add: feework_timely_def Let_def)
  have e: "ExtractFeework (Feework_payload g) f = Some (f\<lparr>fw_height := fw_height g, fw_mcost := fw_mcost g, fw_work := fw_work g\<rparr>)"
    using hr ok(2) by (intro ExtractFeework_payload) simp_all
  let ?g = "f\<lparr>fw_height := fw_height g, fw_mcost := fw_mcost g, fw_work := fw_work g,
      fw_limit := if mode = GMF_RELAY then TX_FEEWORK_LIMIT else RELAY_TX_FEEWORK_LIMIT\<rparr>"
  let ?ss = "feework_data (hashes ! nat (h - fw_height g)) tx"
  let ?v = "GetValue (feework_tag (fw_mcost g) ?ss (fw_work g))"
  have en: "GetFeeworkHardness bs mode (ucast (fw_bytes f)) \<le> fw_mcost g" "8 \<le> fw_mcost g" "fw_mcost g \<le> FEEWORK_MAX_MCOST"
    "fw_work g \<noteq> 0" "?v \<noteq> 0" "?v \<le> TX_FEEWORK_LIMIT" using g(3) by (auto simp: feework_enough_def Let_def)
  then have "\<not> fw_mcost g < 8" "\<not> FEEWORK_MAX_MCOST < fw_mcost g" by (simp_all add: not_less)
  then obtain b2 where gh: "GetFeeworkHash (fe_argon env) ?g ?ss b = (ARGON2_OK, ?g\<lparr>fw_hash := ?v\<rparr>, b2)"
    using GetFeeworkHash_cases [OF run(1) _ run(2), of ?ss ?g] run(3) by auto
  have "fw_mcost g \<noteq> 0" using en(2) by auto
  then have c: "Feework_Check (?g\<lparr>fw_hash := ?v\<rparr>) (GetFeeworkHardness bs mode (ucast (fw_bytes f))) =
      (True, ?g\<lparr>fw_hash := ?v, fw_status := FW_OK\<rparr>)"
    using en hr(1) ok(1)
    by (simp add: Feework_Check_def not_less [symmetric] TX_FEEWORK_LIMIT_def RELAY_TX_FEEWORK_LIMIT_def)
  let ?n = "GetFork (te_fTestNet (fe_tx env)) (fw_height g)"
  have tm: "\<not> te_fTestNet (fe_tx env) \<and> nVersion tx < FEELESS_VERSION \<longleftrightarrow> False"
    "\<not> te_fTestNet (fe_tx env) \<and> ?n < XST_FORKFEELESS \<longleftrightarrow> False" "h < fw_height g \<longleftrightarrow> False"
    "chk \<and> fw_height g < h - FEELESS_MAX_DEPTH \<longleftrightarrow> False" "length hashes \<le> nat (h - fw_height g) \<longleftrightarrow> False"
    "(miner \<or> XST_FORKFEELESS2 \<le> ?n) \<and> fe_FetchInputs env tx = None \<longleftrightarrow> False"
    "(miner \<or> XST_FORKFEELESS2 \<le> ?n) \<and> list_ex (\<lambda>d. d < 1) (the (fe_FetchInputs env tx)) \<longleftrightarrow> False"
    using g(2) by (auto simp: feework_timely_def Let_def)
  have "CheckFeework env tx f req b h hashes bs mode chk miner = Some (Inr (), ?g\<lparr>fw_hash := ?v, fw_status := FW_OK\<rparr>, b2)"
    unfolding CheckFeework_def Let_def vo(1) using vo(2-)
    by (simp add: e tm gh c del: de_Morgan_conj not_less not_le)
  then show ?thesis by auto
qed

section \<open>Properties\<close>

text \<open>
  A work proof survives its script: the output script that \<open>GetScript\<close> builds is recognised by
  \<open>Solver\<close> as a feework output, and \<open>ExtractFeework\<close> reads from it the height, memory cost and work
  that were put in. Conversely a script is recognised as feework only if it is the script of a
  sixteen-byte payload, which always decodes.
\<close>

theorem feework_script_roundtrip:
  assumes "- (2 ^ 31) \<le> fw_height f" "fw_height f < 2 ^ 31"
  shows "Solver (Feework_GetScript f) [] = (True, TX_FEEWORK, [Feework_payload f]) \<and>
    ExtractFeework (Feework_payload f) g =
      Some (g\<lparr>fw_height := fw_height f, fw_mcost := fw_mcost f, fw_work := fw_work f\<rparr>) \<and>
    (Solver s [] = (True, TX_FEEWORK, sols) \<longleftrightarrow>
      (\<exists>f'. s = Feework_GetScript f' \<and> sols = [Feework_payload f'] \<and> ExtractFeework (Feework_payload f') g \<noteq> None))"
proof -
  have "\<exists>f'. Feework_payload f' = d \<and> ExtractFeework d g \<noteq> None" if "length d = 16" for d
    using ExtractFeework_inverse [OF that, of g] by auto
  then show ?thesis using ExtractFeework_payload [OF assms, of g]
    by (auto simp: Feework_script_solved Solver_feework_iff [of s] Feework_GetScript_def)
qed

definition demo_feework :: Feework where
  "demo_feework = Feework_SetNull\<lparr>fw_height := 6000000, fw_mcost := 512, fw_work := 77\<rparr>"

theorem feework_script_roundtrip_witness:
  "Solver (Feework_GetScript demo_feework) [] = (True, TX_FEEWORK, [Feework_payload demo_feework]) \<and>
   ExtractFeework (Feework_payload demo_feework) Feework_SetNull = Some demo_feework"
  using feework_script_roundtrip [of demo_feework Feework_SetNull]
  by (simp add: demo_feework_def Feework_SetNull_def)

text \<open>
  C39. With an initialised buffer the feework hash is total and deterministic: a memory cost beyond
  the protocol's maximum and one below Argon2's minimum give their error and the hash that no
  check accepts, every other one succeeds with the 64-bit value of the Argon2d tag of the data under the
  work as salt, whatever earlier hashes left in the buffer; and the buffer stays ready for the next call.
\<close>

theorem GetFeeworkHash_spec:
  assumes "buffer_ready b" "length ss < 2 ^ 32" "ae_malloc env 8"
  shows "\<exists>b'. buffer_ready b' \<and> GetFeeworkHash env f ss b =
    (if fw_mcost f > FEEWORK_MAX_MCOST then (ARGON2_MEMORY_TOO_MUCH, f\<lparr>fw_hash := TX_FEEWORK_ABSOLUTE_LIMIT\<rparr>, b')
     else if fw_mcost f < 8 then (ARGON2_MEMORY_TOO_LITTLE, f\<lparr>fw_hash := 0\<rparr>, b')
     else (ARGON2_OK, f\<lparr>fw_hash := GetValue (feework_tag (fw_mcost f) ss (fw_work f))\<rparr>, b'))"
  using GetFeeworkHash_cases [OF assms] .

text \<open>A buffer that allocates, with blocks of ones in it.\<close>

definition demo_feework_buffer :: FeeworkBuffer where
  "demo_feework_buffer =
     FeeworkBuffer_Initialize demo_buffer True (\<lambda>n. Some (replicate n (init_block_value 1)))
       \<lparr>fb_pbuffer = None, fb_alloc_error = False, fb_mem_alloc_error = False\<rparr>"

lemma demo_feework_buffer_ready: "buffer_ready demo_feework_buffer"
  unfolding demo_feework_buffer_def by (rule Initialize_ready) simp

theorem GetFeeworkHash_spec_witness:
  "\<exists>b'. buffer_ready b' \<and> GetFeeworkHash demo_argon_env demo_feework [1, 2, 3] demo_feework_buffer =
     (ARGON2_OK, demo_feework\<lparr>fw_hash := GetValue (feework_tag 512 [1, 2, 3] 77)\<rparr>, b')"
proof -
  have mc: "fw_mcost demo_feework = 512" "fw_work demo_feework = 77" by (simp_all add: demo_feework_def)
  have "\<not> fw_mcost demo_feework > FEEWORK_MAX_MCOST" "\<not> fw_mcost demo_feework < 8"
    unfolding mc by (simp_all add: FEEWORK_MAX_MCOST_def FEELESS_MCOST_MIN_def)
  moreover have "ae_malloc demo_argon_env 8" by (simp add: demo_argon_env_def)
  ultimately show ?thesis
    using GetFeeworkHash_spec [OF demo_feework_buffer_ready, of "[1, 2, 3]" demo_argon_env demo_feework]
    by (simp only: if_False mc) simp
qed

text \<open>
  C25. What the check of a work proof means. With a ready buffer, \<open>CheckFeework\<close> accepts a transaction
  with status \<open>OK\<close> exactly if: it is neither coin base nor coin stake; its last output is the script of a work
  proof and no other output is one, and all are solvable; version, fork and referenced block are
  right (at most 24 blocks deep when depth is checked), the inputs are confirmed where this is asked for; the memory cost lies
  between the hardness demanded at this block size and the maximum; and the Argon2d tag, of the
  hash of the referenced block followed by the transaction without work and signatures, is positive and
  at most the limit.
\<close>

theorem CheckFeework_iff:
  assumes "fw_status f = FW_UNCHECKED" "h < 2 ^ 31" "buffer_ready b" "ae_malloc (fe_argon env) 8"
    and "\<forall>x. length (feework_data x tx) < 2 ^ 32"
  shows "(\<exists>f' b'. CheckFeework env tx f req b h hashes bs mode chk miner = Some (Inr (), f', b') \<and> fw_status f' = FW_OK) \<longleftrightarrow>
    (\<exists>g. feework_placed tx g \<and> feework_timely env tx h hashes chk miner g \<and>
         feework_enough tx h hashes (GetFeeworkHardness bs mode (ucast (fw_bytes f))) g)"
  using CheckFeework_accepted [OF _ _ assms(1,3,4,5)] CheckFeework_accepts [OF _ _ _ assms(1,2,3,4,5)] by blast

definition demo_feeless :: CTransaction where
  "demo_feeless = demo_spend [\<lparr>nValue = 5000000, scriptPubKey = p2pkh (replicate 20 7)\<rparr>,
     \<lparr>nValue = 0, scriptPubKey = Feework_GetScript demo_feework\<rparr>]"

definition demo_fw_env :: fw_env where
  "demo_fw_env = \<lparr>fe_tx = demo_tx_env, fe_argon = demo_argon_env, fe_replay = False, fe_FetchInputs = (\<lambda>tx. Some [7])\<rparr>"

lemma demo_feeless_ok:
  "feework_placed demo_feeless demo_feework" "feework_timely demo_fw_env demo_feeless 6000003 [1, 2, 3, 4] True False demo_feework"
proof -
  show "feework_placed demo_feeless demo_feework"
    by (simp add: feework_placed_def demo_feeless_def demo_spend_def IsCoinBase_def IsCoinStake_def COutPoint_IsNull_def
        CTxOut_IsEmpty_def Solver_p2pkh_demo)
  have "15 \<le> GetFork False 6000000" by code_simp
  then show "feework_timely demo_fw_env demo_feeless 6000003 [1, 2, 3, 4] True False demo_feework"
    by (simp add: feework_timely_def demo_feeless_def demo_spend_def demo_fw_env_def demo_tx_env_def demo_feework_def
        FEELESS_MAX_DEPTH_def)
qed

theorem CheckFeework_iff_witness:
  "feework_placed demo_feeless demo_feework \<and>
   feework_timely demo_fw_env demo_feeless 6000003 [1, 2, 3, 4] True False demo_feework \<and>
   ((\<exists>f' b'. CheckFeework demo_fw_env demo_feeless Feework_SetNull True demo_feework_buffer 6000003 [1, 2, 3, 4] 1000
        GMF_RELAY True False = Some (Inr (), f', b') \<and> fw_status f' = FW_OK) \<longleftrightarrow>
    (\<exists>g. feework_placed demo_feeless g \<and> feework_timely demo_fw_env demo_feeless 6000003 [1, 2, 3, 4] True False g \<and>
         feework_enough demo_feeless 6000003 [1, 2, 3, 4] (GetFeeworkHardness 1000 GMF_RELAY 0) g))"
proof -
  have len: "\<forall>x. length (feework_data x demo_feeless) < 2 ^ 32"
    by (simp add: feework_data_def demo_feeless_def demo_spend_def ser_tx_def ser_vector_def ser_txin_def ser_txout_def
        ser_outpoint_def ser_vch_def blank_sigs_def p2pkh_def WriteCompactSize_def push_data_def)
  have null: "fw_status Feework_SetNull = FW_UNCHECKED" "ucast (fw_bytes Feework_SetNull) = (0 :: u32)"
    by (simp_all add: Feework_SetNull_def)
  have "ae_malloc (fe_argon demo_fw_env) 8" by (simp add: demo_fw_env_def demo_argon_env_def)
  from CheckFeework_iff [OF null(1) _ demo_feework_buffer_ready this len, where h = 6000003] demo_feeless_ok
  show ?thesis by (simp only: null(2)) simp
qed

end
