(* ===== verification/Interp.thy ===== *)
theory Interp
  imports Tx "HOL-Library.Product_Lexorder"
begin

text \<open>
  The script interpreter: \<open>EvalScript\<close>, \<open>CheckSig\<close>, \<open>SignatureHash\<close> and \<open>VerifyScript\<close> of
  \<^verbatim>\<open>src/blockchain/script.cpp\<close>, the encoding rules of \<^verbatim>\<open>src/wallet/key.cpp\<close>, and the integers of
  \<^verbatim>\<open>src/primitives/bignum.h\<close>. A stack is a list whose head is its top; \<open>CBigNum\<close> is \<open>int\<close>. A script fails when the interpreter
  returns false, and equally when it throws, because it catches everything: both are \<open>None\<close>.

  The record \<open>scr_env\<close> holds the hash functions, and the two operations of OpenSSL keys.
\<close>

record scr_env =
  se_tx :: tx_env
  se_RIPEMD160 :: "valtype \<Rightarrow> valtype"
  se_SHA1 :: "valtype \<Rightarrow> valtype"
  se_SHA256 :: "valtype \<Rightarrow> valtype"
  se_Hash160 :: "valtype \<Rightarrow> valtype"
  se_SetPubKey :: "valtype \<Rightarrow> bool"
  se_Verify :: "valtype \<Rightarrow> uint256 \<Rightarrow> valtype \<Rightarrow> bool"

section \<open>More opcodes\<close>

abbreviation (input) OP_1NEGATE :: u8 where "OP_1NEGATE \<equiv> 0x4f"
abbreviation (input) OP_NOP :: u8 where "OP_NOP \<equiv> 0x61"
abbreviation (input) OP_IF :: u8 where "OP_IF \<equiv> 0x63"
abbreviation (input) OP_NOTIF :: u8 where "OP_NOTIF \<equiv> 0x64"
abbreviation (input) OP_ELSE :: u8 where "OP_ELSE \<equiv> 0x67"
abbreviation (input) OP_ENDIF :: u8 where "OP_ENDIF \<equiv> 0x68"
abbreviation (input) OP_VERIFY :: u8 where "OP_VERIFY \<equiv> 0x69"
abbreviation (input) OP_TOALTSTACK :: u8 where "OP_TOALTSTACK \<equiv> 0x6b"
abbreviation (input) OP_FROMALTSTACK :: u8 where "OP_FROMALTSTACK \<equiv> 0x6c"
abbreviation (input) OP_2DROP :: u8 where "OP_2DROP \<equiv> 0x6d"
abbreviation (input) OP_2DUP :: u8 where "OP_2DUP \<equiv> 0x6e"
abbreviation (input) OP_3DUP :: u8 where "OP_3DUP \<equiv> 0x6f"
abbreviation (input) OP_2OVER :: u8 where "OP_2OVER \<equiv> 0x70"
abbreviation (input) OP_2ROT :: u8 where "OP_2ROT \<equiv> 0x71"
abbreviation (input) OP_2SWAP :: u8 where "OP_2SWAP \<equiv> 0x72"
abbreviation (input) OP_IFDUP :: u8 where "OP_IFDUP \<equiv> 0x73"
abbreviation (input) OP_DEPTH :: u8 where "OP_DEPTH \<equiv> 0x74"
abbreviation (input) OP_DROP :: u8 where "OP_DROP \<equiv> 0x75"
abbreviation (input) OP_NIP :: u8 where "OP_NIP \<equiv> 0x77"
abbreviation (input) OP_OVER :: u8 where "OP_OVER \<equiv> 0x78"
abbreviation (input) OP_PICK :: u8 where "OP_PICK \<equiv> 0x79"
abbreviation (input) OP_ROLL :: u8 where "OP_ROLL \<equiv> 0x7a"
abbreviation (input) OP_ROT :: u8 where "OP_ROT \<equiv> 0x7b"
abbreviation (input) OP_SWAP :: u8 where "OP_SWAP \<equiv> 0x7c"
abbreviation (input) OP_TUCK :: u8 where "OP_TUCK \<equiv> 0x7d"
abbreviation (input) OP_CAT :: u8 where "OP_CAT \<equiv> 0x7e"
abbreviation (input) OP_SUBSTR :: u8 where "OP_SUBSTR \<equiv> 0x7f"
abbreviation (input) OP_LEFT :: u8 where "OP_LEFT \<equiv> 0x80"
abbreviation (input) OP_RIGHT :: u8 where "OP_RIGHT \<equiv> 0x81"
abbreviation (input) OP_SIZE :: u8 where "OP_SIZE \<equiv> 0x82"
abbreviation (input) OP_INVERT :: u8 where "OP_INVERT \<equiv> 0x83"
abbreviation (input) OP_AND :: u8 where "OP_AND \<equiv> 0x84"
abbreviation (input) OP_OR :: u8 where "OP_OR \<equiv> 0x85"
abbreviation (input) OP_XOR :: u8 where "OP_XOR \<equiv> 0x86"
abbreviation (input) OP_1ADD :: u8 where "OP_1ADD \<equiv> 0x8b"
abbreviation (input) OP_1SUB :: u8 where "OP_1SUB \<equiv> 0x8c"
abbreviation (input) OP_2MUL :: u8 where "OP_2MUL \<equiv> 0x8d"
abbreviation (input) OP_2DIV :: u8 where "OP_2DIV \<equiv> 0x8e"
abbreviation (input) OP_NEGATE :: u8 where "OP_NEGATE \<equiv> 0x8f"
abbreviation (input) OP_ABS :: u8 where "OP_ABS \<equiv> 0x90"
abbreviation (input) OP_NOT :: u8 where "OP_NOT \<equiv> 0x91"
abbreviation (input) OP_0NOTEQUAL :: u8 where "OP_0NOTEQUAL \<equiv> 0x92"
abbreviation (input) OP_ADD :: u8 where "OP_ADD \<equiv> 0x93"
abbreviation (input) OP_SUB :: u8 where "OP_SUB \<equiv> 0x94"
abbreviation (input) OP_MUL :: u8 where "OP_MUL \<equiv> 0x95"
abbreviation (input) OP_DIV :: u8 where "OP_DIV \<equiv> 0x96"
abbreviation (input) OP_MOD :: u8 where "OP_MOD \<equiv> 0x97"
abbreviation (input) OP_LSHIFT :: u8 where "OP_LSHIFT \<equiv> 0x98"
abbreviation (input) OP_RSHIFT :: u8 where "OP_RSHIFT \<equiv> 0x99"
abbreviation (input) OP_BOOLAND :: u8 where "OP_BOOLAND \<equiv> 0x9a"
abbreviation (input) OP_BOOLOR :: u8 where "OP_BOOLOR \<equiv> 0x9b"
abbreviation (input) OP_NUMEQUAL :: u8 where "OP_NUMEQUAL \<equiv> 0x9c"
abbreviation (input) OP_NUMEQUALVERIFY :: u8 where "OP_NUMEQUALVERIFY \<equiv> 0x9d"
abbreviation (input) OP_NUMNOTEQUAL :: u8 where "OP_NUMNOTEQUAL \<equiv> 0x9e"
abbreviation (input) OP_LESSTHAN :: u8 where "OP_LESSTHAN \<equiv> 0x9f"
abbreviation (input) OP_GREATERTHAN :: u8 where "OP_GREATERTHAN \<equiv> 0xa0"
abbreviation (input) OP_LESSTHANOREQUAL :: u8 where "OP_LESSTHANOREQUAL \<equiv> 0xa1"
abbreviation (input) OP_GREATERTHANOREQUAL :: u8 where "OP_GREATERTHANOREQUAL \<equiv> 0xa2"
abbreviation (input) OP_MIN :: u8 where "OP_MIN \<equiv> 0xa3"
abbreviation (input) OP_MAX :: u8 where "OP_MAX \<equiv> 0xa4"
abbreviation (input) OP_WITHIN :: u8 where "OP_WITHIN \<equiv> 0xa5"
abbreviation (input) OP_RIPEMD160 :: u8 where "OP_RIPEMD160 \<equiv> 0xa6"
abbreviation (input) OP_SHA1 :: u8 where "OP_SHA1 \<equiv> 0xa7"
abbreviation (input) OP_SHA256 :: u8 where "OP_SHA256 \<equiv> 0xa8"
abbreviation (input) OP_HASH256 :: u8 where "OP_HASH256 \<equiv> 0xaa"
abbreviation (input) OP_CODESEPARATOR :: u8 where "OP_CODESEPARATOR \<equiv> 0xab"
abbreviation (input) OP_NOP1 :: u8 where "OP_NOP1 \<equiv> 0xb0"
abbreviation (input) OP_CHECKLOCKTIMEVERIFY :: u8 where "OP_CHECKLOCKTIMEVERIFY \<equiv> 0xb1"
abbreviation (input) OP_NOP3 :: u8 where "OP_NOP3 \<equiv> 0xb2"
abbreviation (input) OP_NOP10 :: u8 where "OP_NOP10 \<equiv> 0xb9"

abbreviation (input) MAX_SCRIPT_ELEMENT_SIZE :: nat where "MAX_SCRIPT_ELEMENT_SIZE \<equiv> 520"

definition SCRIPT_VERIFY_NOCACHE :: u32 where "SCRIPT_VERIFY_NOCACHE = 1"
definition SCRIPT_VERIFY_NULLDUMMY :: u32 where "SCRIPT_VERIFY_NULLDUMMY = push_bit 1 1"
definition SCRIPT_VERIFY_DISCOURAGE_UPGRADABLE_NOPS :: u32 where "SCRIPT_VERIFY_DISCOURAGE_UPGRADABLE_NOPS = push_bit 2 1"
definition SCRIPT_VERIFY_STRICTENC :: u32 where "SCRIPT_VERIFY_STRICTENC = push_bit 3 1"
definition SCRIPT_VERIFY_ALLOW_EMPTY_SIG :: u32 where "SCRIPT_VERIFY_ALLOW_EMPTY_SIG = push_bit 4 1"
definition SCRIPT_VERIFY_FIX_HASHTYPE :: u32 where "SCRIPT_VERIFY_FIX_HASHTYPE = push_bit 5 1"
definition SCRIPT_VERIFY_CHECKLOCKTIMEVERIFY :: u32 where "SCRIPT_VERIFY_CHECKLOCKTIMEVERIFY = push_bit 6 1"

definition MANDATORY_SCRIPT_VERIFY_FLAGS :: u32 where
  "MANDATORY_SCRIPT_VERIFY_FLAGS = SCRIPT_VERIFY_NULLDUMMY OR SCRIPT_VERIFY_STRICTENC OR SCRIPT_VERIFY_ALLOW_EMPTY_SIG OR
     SCRIPT_VERIFY_FIX_HASHTYPE OR SCRIPT_VERIFY_CHECKLOCKTIMEVERIFY"
definition STANDARD_SCRIPT_VERIFY_FLAGS :: u32 where
  "STANDARD_SCRIPT_VERIFY_FLAGS = MANDATORY_SCRIPT_VERIFY_FLAGS OR SCRIPT_VERIFY_DISCOURAGE_UPGRADABLE_NOPS"

abbreviation (input) SIGHASH_ALL :: int where "SIGHASH_ALL \<equiv> 1"
abbreviation (input) SIGHASH_NONE :: int where "SIGHASH_NONE \<equiv> 2"
abbreviation (input) SIGHASH_SINGLE :: int where "SIGHASH_SINGLE \<equiv> 3"
abbreviation (input) SIGHASH_ANYONECANPAY :: int where "SIGHASH_ANYONECANPAY \<equiv> 0x80"

section \<open>Numbers\<close>

text \<open>Sign and magnitude, little-endian, the sign in the highest bit of the last byte.\<close>

fun vch_magnitude :: "valtype \<Rightarrow> int" where
  "vch_magnitude [] = 0"
| "vch_magnitude (b # bs) = uint b + 256 * vch_magnitude bs"

definition setvch :: "valtype \<Rightarrow> int" where
  "setvch vch =
     (if vch = [] then 0
      else let m = vch_magnitude (butlast vch @ [last vch AND 0x7f])
           in if last vch AND 0x80 \<noteq> 0 then - m else m)"

fun magnitude_vch :: "nat \<Rightarrow> valtype" where
  "magnitude_vch n = (if n = 0 then [] else of_nat (n mod 256) # magnitude_vch (n div 256))"

declare magnitude_vch.simps [simp del]

definition getvch :: "int \<Rightarrow> valtype" where
  "getvch n =
     (let m = magnitude_vch (nat \<bar>n\<bar>)
      in if m = [] then []
         else if last m AND 0x80 \<noteq> 0 then m @ [if n < 0 then 0x80 else 0]
         else if n < 0 then butlast m @ [last m OR 0x80] else m)"

definition getint :: "int \<Rightarrow> int" where
  "getint n = (if 0 \<le> n then if n > 2147483647 then 2147483647 else n
               else if - n > 2147483647 then -2147483648 else n)"

definition CastToBigNum :: "valtype \<Rightarrow> nat \<Rightarrow> int option" where
  "CastToBigNum vch nMaxNumSize = (if length vch > nMaxNumSize then None else Some (setvch (getvch (setvch vch))))"

fun CastToBool :: "valtype \<Rightarrow> bool" where
  "CastToBool [] = False"
| "CastToBool (b # bs) = (if b \<noteq> 0 then \<not> (bs = [] \<and> b = 0x80) else CastToBool bs)"

definition vchFalse :: valtype where "vchFalse = []"
definition vchTrue :: valtype where "vchTrue = [1]"

abbreviation vch_bool :: "bool \<Rightarrow> valtype" where "vch_bool f \<equiv> (if f then vchTrue else vchFalse)"
abbreviation num_bool :: "bool \<Rightarrow> int" where "num_bool f \<equiv> (if f then 1 else 0)"

section \<open>Encodings of keys and signatures\<close>

definition IsCompressedOrUncompressedPubKey :: "valtype \<Rightarrow> bool" where
  "IsCompressedOrUncompressedPubKey k =
     (if length k < 33 then False
      else if k ! 0 = 0x04 then length k = 65
      else if k ! 0 = 0x02 \<or> k ! 0 = 0x03 then length k = 33
      else False)"

definition IsDERSignature :: "valtype \<Rightarrow> bool \<Rightarrow> bool" where
  "IsDERSignature vchSig haveHashType =
     (let n = length vchSig; nLenR = unat (vchSig ! 3); nLenS = unat (vchSig ! (5 + nLenR));
          R = drop 4 vchSig; S = drop (6 + nLenR) vchSig
      in if n < 9 then False
         else if n > 73 then False
         else if vchSig ! 0 \<noteq> 0x30 then False
         else if unat (vchSig ! 1) \<noteq> n - (if haveHashType then 3 else 2) then False
         else if 5 + nLenR \<ge> n then False
         else if nLenR + nLenS + (if haveHashType then 7 else 6) \<noteq> n then False
         else if vchSig ! 2 \<noteq> 0x02 then False
         else if nLenR = 0 then False
         else if R ! 0 AND 0x80 \<noteq> 0 then False
         else if nLenR > 1 \<and> R ! 0 = 0 \<and> R ! 1 AND 0x80 = 0 then False
         else if vchSig ! (4 + nLenR) \<noteq> 0x02 then False
         else if nLenS = 0 then False
         else if S ! 0 AND 0x80 \<noteq> 0 then False
         else if nLenS > 1 \<and> S ! 0 = 0 \<and> S ! 1 AND 0x80 = 0 then False
         else True)"

fun compare_same :: "valtype \<Rightarrow> valtype \<Rightarrow> int" where
  "compare_same (a # as) (b # bs) = (if a > b then 1 else if b > a then -1 else compare_same as bs)"
| "compare_same _ _ = 0"

function CompareBigEndian :: "valtype \<Rightarrow> valtype \<Rightarrow> int" where
  "CompareBigEndian c1 c2 =
     (if length c1 > length c2 then if hd c1 \<noteq> 0 then 1 else CompareBigEndian (tl c1) c2
      else if length c2 > length c1 then if hd c2 \<noteq> 0 then -1 else CompareBigEndian c1 (tl c2)
      else compare_same c1 c2)"
  by pat_completeness auto
termination by (relation "measure (\<lambda>(c1, c2). length c1 + length c2)") auto

declare CompareBigEndian.simps [simp del]

definition vchMaxModOrder :: valtype where
  "vchMaxModOrder = replicate 15 0xFF @ [0xFE,
     0xBA, 0xAE, 0xDC, 0xE6, 0xAF, 0x48, 0xA0, 0x3B, 0xBF, 0xD2, 0x5E, 0x8C, 0xD0, 0x36, 0x41, 0x40]"

definition vchMaxModHalfOrder :: valtype where
  "vchMaxModHalfOrder = 0x7F # replicate 15 0xFF @ [
     0x5D, 0x57, 0x6E, 0x73, 0x57, 0xA4, 0x50, 0x1D, 0xDF, 0xE9, 0x2F, 0x46, 0x68, 0x1B, 0x20, 0xA0]"

definition CheckSignatureElement :: "valtype \<Rightarrow> bool \<Rightarrow> bool" where
  "CheckSignatureElement vch half \<longleftrightarrow>
     CompareBigEndian vch [] > 0 \<and> CompareBigEndian vch (if half then vchMaxModHalfOrder else vchMaxModOrder) \<le> 0"

definition IsLowDERSignature :: "valtype \<Rightarrow> bool" where
  "IsLowDERSignature vchSig =
     (if \<not> IsDERSignature vchSig True then False
      else let nLenR = unat (vchSig ! 3); nLenS = unat (vchSig ! (5 + nLenR))
           in CheckSignatureElement (take nLenS (drop (6 + nLenR) vchSig)) True)"

definition IsDefinedHashtypeSignature :: "valtype \<Rightarrow> bool" where
  "IsDefinedHashtypeSignature vchSig =
     (if length vchSig = 0 then False
      else let nHashType = uint (last vchSig AND NOT 0x80) in \<not> (nHashType < SIGHASH_ALL \<or> nHashType > SIGHASH_SINGLE))"

definition CheckSignatureEncoding :: "tx_env \<Rightarrow> valtype \<Rightarrow> u32 \<Rightarrow> bool" where
  "CheckSignatureEncoding env vchSig flags =
     (if GetFork (te_fTestNet env) (te_nBestHeight env) < XST_FORK005 then True
      else if flags AND SCRIPT_VERIFY_ALLOW_EMPTY_SIG \<noteq> 0 \<and> length vchSig = 0 then True
      else if \<not> IsLowDERSignature vchSig then False
      else if flags AND SCRIPT_VERIFY_FIX_HASHTYPE = 0 \<and> \<not> IsDefinedHashtypeSignature vchSig then False
      else True)"

definition CheckPubKeyEncoding :: "valtype \<Rightarrow> bool" where
  "CheckPubKeyEncoding k = IsCompressedOrUncompressedPubKey k"

definition CheckLockTime :: "CTransaction \<Rightarrow> nat \<Rightarrow> int \<Rightarrow> bool" where
  "CheckLockTime txTo nIn nLock =
     (if \<not> (uint (nLockTime txTo) < LOCKTIME_THRESHOLD \<and> nLock < LOCKTIME_THRESHOLD \<or>
             uint (nLockTime txTo) \<ge> LOCKTIME_THRESHOLD \<and> nLock \<ge> LOCKTIME_THRESHOLD) then False
      else if nLock > uint (nLockTime txTo) then False
      else if CTxIn_IsFinal (vin txTo ! nIn) then False
      else True)"

section \<open>Signatures\<close>

abbreviation (input) IMMALLEABLE_VERSION :: int where "IMMALLEABLE_VERSION \<equiv> 3"

text \<open>\<open>CScript::FindAndDelete\<close>: occurrences at the start of an operation are erased.\<close>

function delete_prefix :: "valtype \<Rightarrow> valtype \<Rightarrow> valtype" where
  "delete_prefix b s = (if b \<noteq> [] \<and> length s \<ge> length b \<and> take (length b) s = b then delete_prefix b (drop (length b) s) else s)"
  by pat_completeness auto
termination
proof (relation "measure (length \<circ> snd)")
  fix b s :: valtype
  assume "b \<noteq> [] \<and> length b \<le> length s \<and> take (length b) s = b"
  then have "0 < length b" "length b \<le> length s" by auto
  then have "length s - length b < length s" by linarith
  then show "((b, drop (length b) s), b, s) \<in> measure (length \<circ> snd)" by simp
qed simp

declare delete_prefix.simps [simp del]

lemma length_delete_prefix: "length (delete_prefix b s) \<le> length s"
  by (induction b s rule: delete_prefix.induct) (subst delete_prefix.simps, auto)

function FindAndDelete_loop :: "valtype \<Rightarrow> valtype \<Rightarrow> valtype" where
  "FindAndDelete_loop b pc =
     (let pc = delete_prefix b pc
      in case GetOp2 pc False of
           (ok, opcode, vch, pc') \<Rightarrow>
             if ok then take (length pc - length pc') pc @ FindAndDelete_loop b pc' else pc)"
  by pat_completeness auto
termination
  by (relation "measure (length \<circ> snd)")
    (auto dest!: GetOp2_shorter [OF sym] intro: less_le_trans length_delete_prefix)

declare FindAndDelete_loop.simps [simp del]

definition FindAndDelete :: "valtype \<Rightarrow> valtype \<Rightarrow> valtype" where
  "FindAndDelete s b = (if b = [] then s else FindAndDelete_loop b s)"

definition SignatureHash :: "tx_env \<Rightarrow> valtype \<Rightarrow> CTransaction \<Rightarrow> nat \<Rightarrow> int \<Rightarrow> uint256" where
  "SignatureHash env scriptCode txTo nIn nHashType =
     (if nIn \<ge> length (vin txTo) then 1
      else let scriptCode = FindAndDelete scriptCode [OP_CODESEPARATOR];
               blanked = (map (scriptSig_update (\<lambda>_. [])) (vin txTo))
                 [nIn := (vin txTo ! nIn)\<lparr>scriptSig := scriptCode\<rparr>];
               free = map (\<lambda>i. if i \<noteq> nIn then (blanked ! i)\<lparr>nSequence := 0\<rparr> else blanked ! i) [0..<length blanked];
               kind = nHashType AND 0x1f
           in if kind = SIGHASH_SINGLE \<and> nIn \<ge> length (vout txTo) then 1
              else let outs = (if kind = SIGHASH_NONE then []
                               else if kind = SIGHASH_SINGLE
                               then map (\<lambda>i. if i < nIn then \<lparr>nValue = -1, scriptPubKey = []\<rparr> else vout txTo ! i) [0..<nIn + 1]
                               else vout txTo);
                       ins = (if kind = SIGHASH_NONE \<or> kind = SIGHASH_SINGLE then free else blanked);
                       ins = (if nHashType AND SIGHASH_ANYONECANPAY \<noteq> 0 then [ins ! nIn] else ins);
                       txTmp = txTo\<lparr>vin := ins, vout := outs\<rparr>
                   in te_Hash env ((if nVersion txTo \<ge> IMMALLEABLE_VERSION then store_le 32 (GetHash env txTo) else []) @
                        ser_tx txTmp @ store_le 4 (word_of_int nHashType :: u32)))"

text \<open>The hash type and the signature proper.\<close>

definition split_sig :: "valtype \<Rightarrow> int \<Rightarrow> (int \<times> valtype) option" where
  "split_sig vchSig nHashType =
     (if vchSig = [] then None
      else if nHashType = 0 then Some (uint (last vchSig), butlast vchSig)
      else if nHashType \<noteq> uint (last vchSig) then None
      else Some (nHashType, butlast vchSig))"

text \<open>Without the cache of valid signatures.\<close>

definition CheckSig :: "scr_env \<Rightarrow> valtype \<Rightarrow> valtype \<Rightarrow> valtype \<Rightarrow> CTransaction \<Rightarrow> nat \<Rightarrow> int \<Rightarrow> bool" where
  "CheckSig env vchSig vchPubKey scriptCode txTo nIn nHashType =
     (case split_sig vchSig nHashType of
        None \<Rightarrow> False
      | Some (nHashType, sig) \<Rightarrow>
          se_SetPubKey env vchPubKey \<and> se_Verify env vchPubKey (SignatureHash (se_tx env) scriptCode txTo nIn nHashType) sig)"

text \<open>
  The cache is a set of triples of hash, signature and key, in ascending order; \<open>rnd\<close> are the random hashes that
  choose which entries are evicted.
\<close>

type_synonym sigdata_type = "uint256 \<times> valtype \<times> valtype"

definition evict_one :: "uint256 \<Rightarrow> sigdata_type list \<Rightarrow> sigdata_type list" where
  "evict_one randomHash setValid =
     (let k = (case filter (\<lambda>k. (randomHash, [], []) \<le> k) setValid of [] \<Rightarrow> hd setValid | it # _ \<Rightarrow> it)
      in removeAll k setValid)"

fun evict :: "int \<Rightarrow> (nat \<Rightarrow> uint256) \<Rightarrow> nat \<Rightarrow> sigdata_type list \<Rightarrow> sigdata_type list" where
  "evict nMaxCacheSize rnd 0 setValid = setValid"
| "evict nMaxCacheSize rnd (Suc n) setValid =
     (if int (length setValid) > nMaxCacheSize then evict nMaxCacheSize rnd n (evict_one (rnd n) setValid) else setValid)"

definition SignatureCache_Set :: "int \<Rightarrow> (nat \<Rightarrow> uint256) \<Rightarrow> sigdata_type \<Rightarrow> sigdata_type list \<Rightarrow> sigdata_type list" where
  "SignatureCache_Set nMaxCacheSize rnd k setValid =
     (if nMaxCacheSize \<le> 0 then setValid else insort_insert k (evict nMaxCacheSize rnd (length setValid) setValid))"

definition CheckSig_cached ::
  "scr_env \<Rightarrow> int \<Rightarrow> (nat \<Rightarrow> uint256) \<Rightarrow> sigdata_type list \<Rightarrow> valtype \<Rightarrow> valtype \<Rightarrow> valtype \<Rightarrow> CTransaction \<Rightarrow> nat \<Rightarrow> int \<Rightarrow>
   bool \<times> sigdata_type list" where
  "CheckSig_cached env nMaxCacheSize rnd setValid vchSig vchPubKey scriptCode txTo nIn nHashType =
     (case split_sig vchSig nHashType of
        None \<Rightarrow> (False, setValid)
      | Some (nHashType, sig) \<Rightarrow>
          let sighash = SignatureHash (se_tx env) scriptCode txTo nIn nHashType
          in if (sighash, sig, vchPubKey) \<in> set setValid then (True, setValid)
             else if \<not> se_SetPubKey env vchPubKey then (False, setValid)
             else if \<not> se_Verify env vchPubKey sighash sig then (False, setValid)
             else (True, SignatureCache_Set nMaxCacheSize rnd (sighash, sig, vchPubKey) setValid))"

section \<open>One operation\<close>

text \<open>
  The stack, the second stack, the conditions of the open branches (the innermost first), the number of operations, and
  the script from the last code separator on.
\<close>

record scr_state =
  ss_stack :: "valtype list"
  ss_alt :: "valtype list"
  ss_vfExec :: "bool list"
  ss_nOpCount :: int
  ss_code :: valtype

text \<open>What the operations know of the transaction.\<close>

record scr_ctx =
  sx_txTo :: CTransaction
  sx_nIn :: nat
  sx_flags :: u32
  sx_nHashType :: int

abbreviation flag_set :: "scr_ctx \<Rightarrow> u32 \<Rightarrow> bool" where "flag_set x f \<equiv> sx_flags x AND f \<noteq> 0"

definition disabled_op :: "u8 \<Rightarrow> bool" where
  "disabled_op opcode \<longleftrightarrow> opcode \<in> {OP_CAT, OP_SUBSTR, OP_LEFT, OP_RIGHT, OP_INVERT, OP_AND, OP_OR, OP_XOR, OP_2MUL, OP_2DIV,
     OP_MUL, OP_DIV, OP_MOD, OP_LSHIFT, OP_RSHIFT}"

definition op_locktime :: "scr_ctx \<Rightarrow> valtype list \<Rightarrow> valtype list option" where
  "op_locktime x stack =
     (if \<not> flag_set x SCRIPT_VERIFY_CHECKLOCKTIMEVERIFY
      then if flag_set x SCRIPT_VERIFY_DISCOURAGE_UPGRADABLE_NOPS then None else Some stack
      else case stack of
             [] \<Rightarrow> None
           | vch # _ \<Rightarrow>
               (case CastToBigNum vch 5 of
                  None \<Rightarrow> None
                | Some nLock \<Rightarrow>
                    if nLock < 0 then None
                    else if \<not> CheckLockTime (sx_txTo x) (sx_nIn x) nLock then None
                    else Some stack))"

definition op_claim :: "valtype list \<Rightarrow> valtype list option" where
  "op_claim stack = (if length stack \<noteq> 3 then None else if length (hd stack) \<noteq> 41 then None else Some (tl stack))"

definition op_if :: "u8 \<Rightarrow> bool \<Rightarrow> scr_state \<Rightarrow> scr_state option" where
  "op_if opcode fExec s =
     (if fExec
      then (case ss_stack s of
              [] \<Rightarrow> None
            | vch # r \<Rightarrow>
                Some (s\<lparr>ss_stack := r,
                        ss_vfExec := (if opcode = OP_NOTIF then \<not> CastToBool vch else CastToBool vch) # ss_vfExec s\<rparr>))
      else Some (s\<lparr>ss_vfExec := False # ss_vfExec s\<rparr>))"

text \<open>The operations that rearrange the main stack only.\<close>

definition op_pick :: "u8 \<Rightarrow> valtype list \<Rightarrow> valtype list option" where
  "op_pick opcode stack =
     (if length stack < 2 then None
      else case CastToBigNum (hd stack) 4 of
             None \<Rightarrow> None
           | Some bn \<Rightarrow>
               let n = getint bn; r = tl stack
               in if n < 0 \<or> n \<ge> int (length r) then None
                  else let vch = r ! nat n
                       in Some (vch # (if opcode = OP_ROLL then take (nat n) r @ drop (nat n + 1) r else r)))"

fun op_stack :: "u8 \<Rightarrow> valtype list \<Rightarrow> valtype list option" where
  "op_stack opcode stack =
     (if opcode = OP_2DROP then (case stack of a # b # r \<Rightarrow> Some r | _ \<Rightarrow> None)
      else if opcode = OP_2DUP then (case stack of a # b # r \<Rightarrow> Some (a # b # a # b # r) | _ \<Rightarrow> None)
      else if opcode = OP_3DUP then (case stack of a # b # c # r \<Rightarrow> Some (a # b # c # a # b # c # r) | _ \<Rightarrow> None)
      else if opcode = OP_2OVER then (case stack of a # b # c # d # r \<Rightarrow> Some (c # d # a # b # c # d # r) | _ \<Rightarrow> None)
      else if opcode = OP_2ROT
      then (case stack of a # b # c # d # e # f # r \<Rightarrow> Some (e # f # a # b # c # d # r) | _ \<Rightarrow> None)
      else if opcode = OP_2SWAP then (case stack of a # b # c # d # r \<Rightarrow> Some (c # d # a # b # r) | _ \<Rightarrow> None)
      else if opcode = OP_IFDUP then (case stack of a # r \<Rightarrow> Some (if CastToBool a then a # a # r else a # r) | _ \<Rightarrow> None)
      else if opcode = OP_DEPTH then Some (getvch (int (length stack)) # stack)
      else if opcode = OP_DROP then (case stack of a # r \<Rightarrow> Some r | _ \<Rightarrow> None)
      else if opcode = OP_DUP then (case stack of a # r \<Rightarrow> Some (a # a # r) | _ \<Rightarrow> None)
      else if opcode = OP_NIP then (case stack of a # b # r \<Rightarrow> Some (a # r) | _ \<Rightarrow> None)
      else if opcode = OP_OVER then (case stack of a # b # r \<Rightarrow> Some (b # a # b # r) | _ \<Rightarrow> None)
      else if opcode = OP_PICK \<or> opcode = OP_ROLL then op_pick opcode stack
      else if opcode = OP_ROT then (case stack of a # b # c # r \<Rightarrow> Some (c # a # b # r) | _ \<Rightarrow> None)
      else if opcode = OP_SWAP then (case stack of a # b # r \<Rightarrow> Some (b # a # r) | _ \<Rightarrow> None)
      else if opcode = OP_TUCK then (case stack of a # b # r \<Rightarrow> Some (a # b # a # r) | _ \<Rightarrow> None)
      else if opcode = OP_SIZE then (case stack of a # r \<Rightarrow> Some (getvch (int (length a)) # a # r) | _ \<Rightarrow> None)
      else None)"

definition op_equal :: "u8 \<Rightarrow> valtype list \<Rightarrow> valtype list option" where
  "op_equal opcode stack =
     (case stack of
        a # b # r \<Rightarrow> if opcode = OP_EQUALVERIFY then if b = a then Some r else None else Some (vch_bool (b = a) # r)
      | _ \<Rightarrow> None)"

text \<open>Arithmetic with one, two and three operands.\<close>

definition op_num1 :: "u8 \<Rightarrow> valtype list \<Rightarrow> valtype list option" where
  "op_num1 opcode stack =
     (case stack of
        [] \<Rightarrow> None
      | a # r \<Rightarrow>
          (case CastToBigNum a 4 of
             None \<Rightarrow> None
           | Some bn \<Rightarrow>
               Some (getvch (if opcode = OP_1ADD then bn + 1
                             else if opcode = OP_1SUB then bn - 1
                             else if opcode = OP_NEGATE then - bn
                             else if opcode = OP_ABS then if bn < 0 then - bn else bn
                             else if opcode = OP_NOT then num_bool (bn = 0)
                             else num_bool (bn \<noteq> 0)) # r)))"

definition num2 :: "u8 \<Rightarrow> int \<Rightarrow> int \<Rightarrow> int" where
  "num2 opcode bn1 bn2 =
     (if opcode = OP_ADD then bn1 + bn2
      else if opcode = OP_SUB then bn1 - bn2
      else if opcode = OP_BOOLAND then num_bool (bn1 \<noteq> 0 \<and> bn2 \<noteq> 0)
      else if opcode = OP_BOOLOR then num_bool (bn1 \<noteq> 0 \<or> bn2 \<noteq> 0)
      else if opcode = OP_NUMEQUAL \<or> opcode = OP_NUMEQUALVERIFY then num_bool (bn1 = bn2)
      else if opcode = OP_NUMNOTEQUAL then num_bool (bn1 \<noteq> bn2)
      else if opcode = OP_LESSTHAN then num_bool (bn1 < bn2)
      else if opcode = OP_GREATERTHAN then num_bool (bn1 > bn2)
      else if opcode = OP_LESSTHANOREQUAL then num_bool (bn1 \<le> bn2)
      else if opcode = OP_GREATERTHANOREQUAL then num_bool (bn1 \<ge> bn2)
      else if opcode = OP_MIN then if bn1 < bn2 then bn1 else bn2
      else if bn1 > bn2 then bn1 else bn2)"

definition op_num2 :: "u8 \<Rightarrow> valtype list \<Rightarrow> valtype list option" where
  "op_num2 opcode stack =
     (case stack of
        b # a # r \<Rightarrow>
          (case (CastToBigNum a 4, CastToBigNum b 4) of
             (Some bn1, Some bn2) \<Rightarrow>
               let v = getvch (num2 opcode bn1 bn2)
               in if opcode = OP_NUMEQUALVERIFY then if CastToBool v then Some r else None else Some (v # r)
           | _ \<Rightarrow> None)
      | _ \<Rightarrow> None)"

definition op_within :: "valtype list \<Rightarrow> valtype list option" where
  "op_within stack =
     (case stack of
        c # b # a # r \<Rightarrow>
          (case (CastToBigNum a 4, CastToBigNum b 4, CastToBigNum c 4) of
             (Some bn1, Some bn2, Some bn3) \<Rightarrow> Some (vch_bool (bn2 \<le> bn1 \<and> bn1 < bn3) # r)
           | _ \<Rightarrow> None)
      | _ \<Rightarrow> None)"

definition op_hash_of :: "scr_env \<Rightarrow> u8 \<Rightarrow> valtype \<Rightarrow> valtype" where
  "op_hash_of env opcode vch =
     (if opcode = OP_RIPEMD160 then se_RIPEMD160 env vch
      else if opcode = OP_SHA1 then se_SHA1 env vch
      else if opcode = OP_SHA256 then se_SHA256 env vch
      else if opcode = OP_HASH160 then se_Hash160 env vch
      else store_le 32 (te_Hash (se_tx env) vch))"

definition op_crypto_hash :: "scr_env \<Rightarrow> u8 \<Rightarrow> valtype list \<Rightarrow> valtype list option" where
  "op_crypto_hash env opcode stack = (case stack of [] \<Rightarrow> None | a # r \<Rightarrow> Some (op_hash_of env opcode a # r))"

definition op_checksig :: "scr_env \<Rightarrow> scr_ctx \<Rightarrow> valtype \<Rightarrow> u8 \<Rightarrow> valtype list \<Rightarrow> valtype list option" where
  "op_checksig env x code opcode stack =
     (case stack of
        vchPubKey # vchSig # r \<Rightarrow>
          let scriptCode = FindAndDelete code (push_data vchSig);
              fEnc = CheckSignatureEncoding (se_tx env) vchSig (sx_flags x) \<and> CheckPubKeyEncoding vchPubKey
          in if flag_set x SCRIPT_VERIFY_STRICTENC \<and> \<not> fEnc then None
             else let fSuccess = (fEnc \<and> CheckSig env vchSig vchPubKey scriptCode (sx_txTo x) (sx_nIn x) (sx_nHashType x))
                  in if opcode = OP_CHECKSIGVERIFY then if fSuccess then Some r else None else Some (vch_bool fSuccess # r)
      | _ \<Rightarrow> None)"

text \<open>Every signature must be made by one of the remaining keys, in order.\<close>

fun multisig_loop :: "scr_env \<Rightarrow> scr_ctx \<Rightarrow> valtype \<Rightarrow> valtype list \<Rightarrow> valtype list \<Rightarrow> bool option" where
  "multisig_loop env x scriptCode [] keys = Some True"
| "multisig_loop env x scriptCode (vchSig # sigs) [] = Some False"
| "multisig_loop env x scriptCode (vchSig # sigs) (vchPubKey # keys) =
     (let fEnc = CheckSignatureEncoding (se_tx env) vchSig (sx_flags x) \<and> CheckPubKeyEncoding vchPubKey
      in if flag_set x SCRIPT_VERIFY_STRICTENC \<and> \<not> fEnc then None
         else let fOk = (fEnc \<and> CheckSig env vchSig vchPubKey scriptCode (sx_txTo x) (sx_nIn x) (sx_nHashType x));
                  sigs = (if fOk then sigs else vchSig # sigs)
              in if length sigs > length keys then Some False else multisig_loop env x scriptCode sigs keys)"

text \<open>The stack afterwards and the number of keys, which counts as so many operations.\<close>

definition op_checkmultisig ::
  "scr_env \<Rightarrow> scr_ctx \<Rightarrow> valtype \<Rightarrow> int \<Rightarrow> u8 \<Rightarrow> valtype list \<Rightarrow> (valtype list \<times> int) option" where
  "op_checkmultisig env x code nOpCount opcode stack =
     (if stack = [] then None
      else case CastToBigNum (hd stack) 4 of
        None \<Rightarrow> None
      | Some bn \<Rightarrow>
          let nKeysCount = getint bn
          in if nKeysCount < 0 \<or> nKeysCount > 20 then None
             else let nOpCount = nOpCount + nKeysCount; nK = nat nKeysCount
                  in if nOpCount > 201 then None
                     else if length stack < 2 + nK then None
                     else case CastToBigNum (stack ! (1 + nK)) 4 of
                            None \<Rightarrow> None
                          | Some bn2 \<Rightarrow>
                              let nSigsCount = getint bn2; nS = nat nSigsCount
                              in if nSigsCount < 0 \<or> nSigsCount > nKeysCount then None
                                 else if length stack < 3 + nK + nS then None
                                 else let keys = take nK (drop 1 stack); sigs = take nS (drop (2 + nK) stack);
                                          scriptCode = fold (\<lambda>sig c. FindAndDelete c (push_data sig)) sigs code
                                      in case multisig_loop env x scriptCode sigs keys of
                                           None \<Rightarrow> None
                                         | Some fSuccess \<Rightarrow>
                                             let r = drop (2 + nK + nS) stack
                                             in if flag_set x SCRIPT_VERIFY_NULLDUMMY \<and> length (hd r) \<noteq> 0 then None
                                                else if opcode = OP_CHECKMULTISIGVERIFY
                                                then if fSuccess then Some (tl r, nOpCount) else None
                                                else Some (vch_bool fSuccess # tl r, nOpCount))"

text \<open>The switch; \<open>pc\<close> is the script behind the operation.\<close>

definition eval_op :: "scr_env \<Rightarrow> scr_ctx \<Rightarrow> u8 \<Rightarrow> bool \<Rightarrow> valtype \<Rightarrow> scr_state \<Rightarrow> scr_state option" where
  "eval_op env x opcode fExec pc s =
     (let stack = ss_stack s; put = map_option (\<lambda>st. s\<lparr>ss_stack := st\<rparr>)
      in if opcode = OP_1NEGATE \<or> OP_1 \<le> opcode \<and> opcode \<le> OP_16
         then put (Some (getvch (uint opcode - 0x50) # stack))
         else if opcode = OP_NOP then Some s
         else if opcode = OP_CHECKLOCKTIMEVERIFY then put (op_locktime x stack)
         else if opcode = OP_NOP1 \<or> OP_NOP3 \<le> opcode \<and> opcode \<le> OP_NOP10
         then if flag_set x SCRIPT_VERIFY_DISCOURAGE_UPGRADABLE_NOPS then None else Some s
         else if opcode \<in> {OP_PURCHASE1, OP_PURCHASE4, OP_SETOWNER, OP_SETMANAGER, OP_SETDELEGATE, OP_SETCONTROLLER,
                           OP_ENABLE, OP_DISABLE, OP_SETMETA} then None
         else if opcode = OP_CLAIM then put (op_claim stack)
         else if opcode = OP_FEEWORK then None
         else if opcode = OP_IF \<or> opcode = OP_NOTIF then op_if opcode fExec s
         else if opcode = OP_ELSE
         then (case ss_vfExec s of [] \<Rightarrow> None | f # r \<Rightarrow> Some (s\<lparr>ss_vfExec := (\<not> f) # r\<rparr>))
         else if opcode = OP_ENDIF
         then (case ss_vfExec s of [] \<Rightarrow> None | f # r \<Rightarrow> Some (s\<lparr>ss_vfExec := r\<rparr>))
         else if opcode = OP_VERIFY
         then (case stack of [] \<Rightarrow> None | a # r \<Rightarrow> if CastToBool a then put (Some r) else None)
         else if opcode = OP_RETURN then None
         else if opcode = OP_TOALTSTACK
         then (case stack of [] \<Rightarrow> None | a # r \<Rightarrow> Some (s\<lparr>ss_stack := r, ss_alt := a # ss_alt s\<rparr>))
         else if opcode = OP_FROMALTSTACK
         then (case ss_alt s of [] \<Rightarrow> None | a # r \<Rightarrow> Some (s\<lparr>ss_stack := a # stack, ss_alt := r\<rparr>))
         else if OP_2DROP \<le> opcode \<and> opcode \<le> OP_TUCK \<or> opcode = OP_SIZE then put (op_stack opcode stack)
         else if opcode = OP_EQUAL \<or> opcode = OP_EQUALVERIFY then put (op_equal opcode stack)
         else if OP_1ADD \<le> opcode \<and> opcode \<le> OP_0NOTEQUAL then put (op_num1 opcode stack)
         else if OP_ADD \<le> opcode \<and> opcode \<le> OP_MAX then put (op_num2 opcode stack)
         else if opcode = OP_WITHIN then put (op_within stack)
         else if OP_RIPEMD160 \<le> opcode \<and> opcode \<le> OP_HASH256 then put (op_crypto_hash env opcode stack)
         else if opcode = OP_CODESEPARATOR then Some (s\<lparr>ss_code := pc\<rparr>)
         else if opcode = OP_CHECKSIG \<or> opcode = OP_CHECKSIGVERIFY then put (op_checksig env x (ss_code s) opcode stack)
         else if opcode = OP_CHECKMULTISIG \<or> opcode = OP_CHECKMULTISIGVERIFY
         then map_option (\<lambda>(st, n). s\<lparr>ss_stack := st, ss_nOpCount := n\<rparr>)
                (op_checkmultisig env x (ss_code s) (ss_nOpCount s) opcode stack)
         else None)"

section \<open>Scripts\<close>

definition eval_step :: "scr_env \<Rightarrow> scr_ctx \<Rightarrow> u8 \<Rightarrow> valtype \<Rightarrow> valtype \<Rightarrow> scr_state \<Rightarrow> scr_state option" where
  "eval_step env x opcode vchPushValue pc s =
     (let fExec = list_all id (ss_vfExec s)
      in if length vchPushValue > MAX_SCRIPT_ELEMENT_SIZE then None
         else let s = (if opcode > OP_16 then s\<lparr>ss_nOpCount := ss_nOpCount s + 1\<rparr> else s)
              in if opcode > OP_16 \<and> ss_nOpCount s > 201 then None
                 else if disabled_op opcode then None
                 else case (if fExec \<and> opcode \<le> OP_PUSHDATA4 then Some (s\<lparr>ss_stack := vchPushValue # ss_stack s\<rparr>)
                            else if fExec \<or> OP_IF \<le> opcode \<and> opcode \<le> OP_ENDIF then eval_op env x opcode fExec pc s
                            else Some s) of
                        None \<Rightarrow> None
                      | Some s \<Rightarrow> if length (ss_stack s) + length (ss_alt s) > 1000 then None else Some s)"

function eval_loop :: "scr_env \<Rightarrow> scr_ctx \<Rightarrow> valtype \<Rightarrow> scr_state \<Rightarrow> scr_state option" where
  "eval_loop env x pc s =
     (if pc = [] then Some s
      else case GetOp2 pc False of
             (ok, opcode, vchPushValue, pc') \<Rightarrow>
               if \<not> ok then None
               else case eval_step env x opcode vchPushValue pc' s of
                      None \<Rightarrow> None
                    | Some s \<Rightarrow> eval_loop env x pc' s)"
  by pat_completeness auto
termination
  by (relation "measure (\<lambda>(env, x, pc, s). length pc)") (auto dest: GetOp2_shorter [OF sym])

declare eval_loop.simps [simp del]

definition EvalScript ::
  "scr_env \<Rightarrow> valtype list \<Rightarrow> valtype \<Rightarrow> CTransaction \<Rightarrow> nat \<Rightarrow> u32 \<Rightarrow> int \<Rightarrow> valtype list option" where
  "EvalScript env stack script txTo nIn flags nHashType =
     (if length script > 10000 then None
      else case eval_loop env \<lparr>sx_txTo = txTo, sx_nIn = nIn, sx_flags = flags, sx_nHashType = nHashType\<rparr> script
                  \<lparr>ss_stack = stack, ss_alt = [], ss_vfExec = [], ss_nOpCount = 0, ss_code = script\<rparr> of
             None \<Rightarrow> None
           | Some s \<Rightarrow> if ss_vfExec s \<noteq> [] then None else Some (ss_stack s))"

definition VerifyScript :: "scr_env \<Rightarrow> valtype \<Rightarrow> valtype \<Rightarrow> CTransaction \<Rightarrow> nat \<Rightarrow> u32 \<Rightarrow> int \<Rightarrow> bool" where
  "VerifyScript env sigScript pubScript txTo nIn flags nHashType =
     (case EvalScript env [] sigScript txTo nIn flags nHashType of
        None \<Rightarrow> False
      | Some stackCopy \<Rightarrow>
          (case EvalScript env stackCopy pubScript txTo nIn flags nHashType of
             None \<Rightarrow> False
           | Some stack \<Rightarrow>
               if stack = [] then False
               else if \<not> CastToBool (hd stack) then False
               else if IsPayToScriptHash pubScript
               then if \<not> IsPushOnly sigScript then False
                    else (case EvalScript env (tl stackCopy) (hd stackCopy) txTo nIn flags nHashType of
                            None \<Rightarrow> False
                          | Some stack2 \<Rightarrow> if stack2 = [] then False else CastToBool (hd stack2))
               else True))"

end
