(* ===== verification/Inputs.thy ===== *)
theory Inputs
  imports Block QPTxCheck Feework Interp
begin

text \<open>
  How transactions take over the outputs of earlier ones (\<^verbatim>\<open>src/blockchain/main.cpp\<close>):
  \<open>FetchInputs\<close>, \<open>ConnectInputs\<close>, \<open>DisconnectInputs\<close> and \<open>ClientConnectInputs\<close>, with the rewards of the
  old consensus. The data base is the record \<open>CTxDB\<close> of its two tables, the transaction index and the block index
  on disk. A chain of block indices in memory is the list of the blocks from the given one back to the first.

  The record \<open>led_env\<close> holds what is read elsewhere: the globals of the checks, the Argon2 functions and the
  replay mode for work proofs, the transactions and block times in the block files, the memory pool,
  the depth of an indexed transaction, whether the data base accepts a write, how scripts are verified, and the last checkpoint.
\<close>

section \<open>State\<close>

record CBlockMemIndex =
  mi_hash :: uint256
  mi_nFile :: u32
  mi_nBlockPos :: u32

record CDiskBlockIndex =
  db_nVersion :: int
  db_nTime :: u32
  db_nHeight :: int
  db_nBits :: u32
  db_nFlags :: u32
  db_nMint :: int
  db_nMoneySupply :: int
  db_vDeets :: "QPTxDetails list"
  db_hashNext :: uint256
  db_nStakerID :: u32
  db_bnChainTrust :: int

record CTxDB =
  txdb_tx :: "uint256 \<Rightarrow> CTxIndex option"
  txdb_block :: "uint256 \<Rightarrow> CDiskBlockIndex option"

type_synonym tx_pool = "(uint256, CTxIndex) omap"

record led_env =
  le_chk :: chk_env
  le_argon :: argon2_env
  le_replay :: bool
  le_ReadFromDisk :: "CDiskTxPos \<Rightarrow> CTransaction option"
  le_BlockTime :: "u32 \<Rightarrow> u32 \<Rightarrow> u32 option"
  le_mempool :: "uint256 \<Rightarrow> CTransaction option"
  le_depth :: "CTxIndex \<Rightarrow> int"
  le_write_ok :: "uint256 \<Rightarrow> bool"
  le_VerifyScript :: "valtype \<Rightarrow> valtype \<Rightarrow> CTransaction \<Rightarrow> nat \<Rightarrow> u32 \<Rightarrow> bool"
  le_GetTotalBlocksEstimate :: int

abbreviation le_tx :: "led_env \<Rightarrow> tx_env" where "le_tx env \<equiv> ce_tx (le_chk env)"
abbreviation le_fTestNet :: "led_env \<Rightarrow> bool" where "le_fTestNet env \<equiv> te_fTestNet (le_tx env)"
abbreviation le_nBestHeight :: "led_env \<Rightarrow> int" where "le_nBestHeight env \<equiv> te_nBestHeight (le_tx env)"

definition ReadTxIndex :: "CTxDB \<Rightarrow> uint256 \<Rightarrow> CTxIndex option" where
  "ReadTxIndex db h = txdb_tx db h"

definition UpdateTxIndex :: "led_env \<Rightarrow> CTxDB \<Rightarrow> uint256 \<Rightarrow> CTxIndex \<Rightarrow> CTxDB option" where
  "UpdateTxIndex env db h ti = (if le_write_ok env h then Some (db\<lparr>txdb_tx := (txdb_tx db)(h \<mapsto> ti)\<rparr>) else None)"

definition EraseTxIndex :: "led_env \<Rightarrow> CTxDB \<Rightarrow> CTransaction \<Rightarrow> CTxDB" where
  "EraseTxIndex env db tx = db\<lparr>txdb_tx := (txdb_tx db)(GetHash (le_tx env) tx := None)\<rparr>"

definition ContainsTx :: "CTxDB \<Rightarrow> uint256 \<Rightarrow> bool" where
  "ContainsTx db h \<longleftrightarrow> txdb_tx db h \<noteq> None"

definition ReadFromDisk :: "led_env \<Rightarrow> CTxDB \<Rightarrow> COutPoint \<Rightarrow> (CTransaction \<times> CTxIndex) option" where
  "ReadFromDisk env db p = do {
     ti \<leftarrow> ReadTxIndex db (op_hash p);
     tx \<leftarrow> le_ReadFromDisk env (ti_pos ti);
     if unat (op_n p) \<ge> length (vout tx) then None else Some (tx, ti) }"

text \<open>The marker for transactions that are only in the memory pool.\<close>

definition POS_MEMPOOL :: CDiskTxPos where
  "POS_MEMPOOL = \<lparr>tp_nFile = 1, tp_nBlockPos = 1, tp_nTxPos = 1\<rparr>"

section \<open>Fetching inputs\<close>

fun FetchInputs_loop ::
  "led_env \<Rightarrow> CTxDB \<Rightarrow> tx_pool \<Rightarrow> bool \<Rightarrow> CTxIn list \<Rightarrow> MapPrevTx \<Rightarrow> MapPrevTx verdict" where
  "FetchInputs_loop env db mapTestPool fChanges [] inputsRet = Accept inputsRet"
| "FetchInputs_loop env db mapTestPool fChanges (txin # r) inputsRet =
     (let h = op_hash (prevout txin)
      in if om_count h inputsRet then FetchInputs_loop env db mapTestPool fChanges r inputsRet
         else case (if fChanges \<and> om_count h mapTestPool then map_of mapTestPool h else ReadTxIndex db h) of
                None \<Rightarrow>
                  if fChanges then Reject 0
                  else (case le_mempool env h of
                          None \<Rightarrow> Reject 0
                        | Some txPrev \<Rightarrow>
                            FetchInputs_loop env db mapTestPool fChanges r
                              (om_put h (CTxIndex_new CDiskTxPos_SetNull (length (vout txPrev)), txPrev) inputsRet))
              | Some txindex \<Rightarrow>
                  (case (if ti_pos txindex = POS_MEMPOOL then le_mempool env h else le_ReadFromDisk env (ti_pos txindex)) of
                     None \<Rightarrow> Reject 0
                   | Some txPrev \<Rightarrow>
                       FetchInputs_loop env db mapTestPool fChanges r (om_put h (txindex, txPrev) inputsRet)))"

fun FetchInputs_range :: "MapPrevTx \<Rightarrow> CTxIn list \<Rightarrow> bool verdict" where
  "FetchInputs_range inputs [] = Accept True"
| "FetchInputs_range inputs (txin # r) =
     (case map_of inputs (op_hash (prevout txin)) of
        None \<Rightarrow> Abort
      | Some (txindex, txPrev) \<Rightarrow>
          if unat (op_n (prevout txin)) \<ge> length (vout txPrev) \<or> unat (op_n (prevout txin)) \<ge> length (ti_vSpent txindex)
          then Accept False else FetchInputs_range inputs r)"

text \<open>The first component is \<open>fInvalid\<close>.\<close>

definition FetchInputs ::
  "led_env \<Rightarrow> CTxDB \<Rightarrow> tx_pool \<Rightarrow> bool \<Rightarrow> bool \<Rightarrow> CTransaction \<Rightarrow> MapPrevTx \<Rightarrow> bool \<times> MapPrevTx verdict" where
  "FetchInputs env db mapTestPool fBlock fMiner tx inputsRet =
     (if IsCoinBase tx then (False, Accept inputsRet)
      else case FetchInputs_loop env db mapTestPool (fBlock \<or> fMiner) (vin tx) inputsRet of
             Accept inputs \<Rightarrow>
               (case FetchInputs_range inputs (vin tx) of
                  Accept True \<Rightarrow> (False, Accept inputs)
                | Accept False \<Rightarrow> (True, Reject 100)
                | _ \<Rightarrow> (False, Abort))
           | v \<Rightarrow> (False, v))"

section \<open>Rewards of the old consensus\<close>

definition MAX_STEALTH_PROOF_OF_STAKE :: "bool \<Rightarrow> int" where
  "MAX_STEALTH_PROOF_OF_STAKE fTestNet = (if fTestNet then 20 * COIN else COIN div 5)"

definition nCoinbaseMaturity :: "bool \<Rightarrow> int" where
  "nCoinbaseMaturity fTestNet = (if fTestNet then 10 else 40)"

definition nStakeMinAge :: "bool \<Rightarrow> u32" where
  "nStakeMinAge fTestNet = (if fTestNet then 1 * 60 else 60 * 60 * 24 * 3)"

definition MAX_COIN_SECONDS :: int where "MAX_COIN_SECONDS = 9 * 24 * 60 * 60"

definition GetProofOfStakeReward :: "bool \<Rightarrow> int \<Rightarrow> int" where
  "GetProofOfStakeReward fTestNet nCoinAge = (nCoinAge * MAX_STEALTH_PROOF_OF_STAKE fTestNet) sdiv 365"

definition GetProofOfWorkReward :: "bool \<Rightarrow> int \<Rightarrow> int \<Rightarrow> int" where
  "GetProofOfWorkReward fTestNet nHeight nFees =
     (let nFork = GetFork fTestNet nHeight
      in (if fTestNet
          then if nHeight = 0 then 16 * COIN else if nFork < XST_FORK002 then 90000 * COIN else 0
          else if nHeight = 0 then 16 * COIN
          else if nHeight \<le> 10 then 23300 * COIN
          else if nHeight \<le> 260 then 16 * COIN
          else if nHeight \<le> 1700 then 8000 * COIN
          else if nHeight \<le> 3140 then 4000 * COIN
          else if nHeight \<le> 4580 then 2000 * COIN
          else if nFork < XST_FORK002 then 1000 * COIN
          else 0) + nFees)"

fun GetCoinAge_loop :: "led_env \<Rightarrow> CTxDB \<Rightarrow> u32 \<Rightarrow> CTxIn list \<Rightarrow> int \<Rightarrow> int option" where
  "GetCoinAge_loop env db nTxTime [] bnCentSecond = Some bnCentSecond"
| "GetCoinAge_loop env db nTxTime (txin # r) bnCentSecond =
     (case ReadFromDisk env db (prevout txin) of
        None \<Rightarrow> GetCoinAge_loop env db nTxTime r bnCentSecond
      | Some (txPrev, txindex) \<Rightarrow>
          (case le_BlockTime env (tp_nFile (ti_pos txindex)) (tp_nBlockPos (ti_pos txindex)) of
             None \<Rightarrow> None
           | Some nBlockTime \<Rightarrow>
               let nTxPrevTime = (if HasTimestamp txPrev then tx_nTime txPrev else nBlockTime)
               in if nTxTime < nTxPrevTime then None
                  else if nBlockTime + nStakeMinAge (le_fTestNet env) > nTxTime
                  then GetCoinAge_loop env db nTxTime r bnCentSecond
                  else GetCoinAge_loop env db nTxTime r
                         (bnCentSecond + (nValue (vout txPrev ! unat (op_n (prevout txin))) *
                            min (uint (nTxTime - nTxPrevTime)) MAX_COIN_SECONDS) sdiv CENT)))"

definition GetCoinAge :: "led_env \<Rightarrow> CTxDB \<Rightarrow> CTransaction \<Rightarrow> u32 \<Rightarrow> u64 option" where
  "GetCoinAge env db tx nBlockTime =
     (if IsCoinBase tx then Some 0
      else case GetCoinAge_loop env db (if HasTimestamp tx then tx_nTime tx else nBlockTime) (vin tx) 0 of
             None \<Rightarrow> None
           | Some bnCentSecond \<Rightarrow> Some (word_of_int (((bnCentSecond * CENT) sdiv COIN) sdiv (24 * 60 * 60))))"

section \<open>Connecting inputs\<close>

definition VerifySignature :: "led_env \<Rightarrow> CTransaction \<Rightarrow> CTransaction \<Rightarrow> nat \<Rightarrow> u32 \<Rightarrow> bool" where
  "VerifySignature env txFrom txTo nIn flags =
     (let txin = vin txTo ! nIn
      in if unat (op_n (prevout txin)) \<ge> length (vout txFrom) then False
         else if op_hash (prevout txin) \<noteq> GetHash (le_tx env) txFrom then False
         else le_VerifyScript env (scriptSig txin) (scriptPubKey (vout txFrom ! unat (op_n (prevout txin)))) txTo nIn flags)"

text \<open>Whether one of the blocks above \<open>nMinHeight\<close> holds the transaction.\<close>

fun immature :: "CBlockMemIndex list \<Rightarrow> int \<Rightarrow> int \<Rightarrow> CDiskTxPos \<Rightarrow> bool" where
  "immature [] nHeight nMinHeight pos = False"
| "immature (pmemIndex # pprev) nHeight nMinHeight pos =
     (if nHeight > nMinHeight
      then if mi_nBlockPos pmemIndex = tp_nBlockPos pos \<and> mi_nFile pmemIndex = tp_nFile pos then True
           else immature pprev (nHeight - 1) nMinHeight pos
      else False)"

text \<open>The inexpensive checks of all inputs; the result is the value of the inputs.\<close>

fun ConnectInputs_values ::
  "led_env \<Rightarrow> CBlockMemIndex list \<Rightarrow> CDiskBlockIndex \<Rightarrow> CTransaction \<Rightarrow> MapPrevTx \<Rightarrow> CTxIn list \<Rightarrow> int \<Rightarrow> int verdict" where
  "ConnectInputs_values env pchain diskIndex tx inputs [] nValueIn = Accept nValueIn"
| "ConnectInputs_values env pchain diskIndex tx inputs (txin # r) nValueIn =
     (case map_of inputs (op_hash (prevout txin)) of
        None \<Rightarrow> Abort
      | Some (txindex, txPrev) \<Rightarrow>
          let n = unat (op_n (prevout txin));
              nTxTime = (if HasTimestamp tx then tx_nTime tx else db_nTime diskIndex)
          in if n \<ge> length (vout txPrev) \<or> n \<ge> length (ti_vSpent txindex) then Reject 100
             else if (IsCoinBase txPrev \<or> IsCoinStake txPrev) \<and>
                     immature pchain (db_nHeight diskIndex) (db_nHeight diskIndex - nCoinbaseMaturity (le_fTestNet env)) (ti_pos txindex)
             then Reject 0
             else if HasTimestamp txPrev \<and> HasTimestamp tx \<and> tx_nTime txPrev > nTxTime then Reject 100
             else if CTxOut_IsEmpty (vout txPrev ! n) \<and> GetFork (le_fTestNet env) (le_nBestHeight env + 1) \<ge> XST_FORK005
             then Reject 1
             else let nValueIn = nValueIn + nValue (vout txPrev ! n)
                  in if \<not> MoneyRange (nValue (vout txPrev ! n)) \<or> \<not> MoneyRange nValueIn then Reject 100
                     else ConnectInputs_values env pchain diskIndex tx inputs r nValueIn)"

text \<open>Signatures are checked and outputs marked as spent; \<open>i\<close> is the index of the first remaining input.\<close>

fun ConnectInputs_spend ::
  "led_env \<Rightarrow> CTransaction \<Rightarrow> CDiskTxPos \<Rightarrow> bool \<Rightarrow> bool \<Rightarrow> u32 \<Rightarrow> CTxIn list \<Rightarrow> nat \<Rightarrow> MapPrevTx \<Rightarrow> tx_pool \<Rightarrow>
   tx_pool verdict" where
  "ConnectInputs_spend env tx posThisTx fBlock fMiner flags [] i inputs mapTestPool = Accept mapTestPool"
| "ConnectInputs_spend env tx posThisTx fBlock fMiner flags (txin # r) i inputs mapTestPool =
     (let h = op_hash (prevout txin); n = unat (op_n (prevout txin))
      in case map_of inputs h of
           None \<Rightarrow> Abort
         | Some (txindex, txPrev) \<Rightarrow>
             if n \<ge> length (ti_vSpent txindex) then Abort
             else if \<not> CDiskTxPos_IsNull (ti_vSpent txindex ! n) then Reject 0
             else if \<not> (fBlock \<and> le_nBestHeight env < le_GetTotalBlocksEstimate env) \<and>
                     \<not> VerifySignature env txPrev tx i flags
             then Reject 100
             else let txindex = txindex\<lparr>ti_vSpent := (ti_vSpent txindex)[n := posThisTx]\<rparr>
                  in ConnectInputs_spend env tx posThisTx fBlock fMiner flags r (i + 1)
                       (om_put h (txindex, txPrev) inputs)
                       (if fBlock \<or> fMiner then om_put h txindex mapTestPool else mapTestPool))"

definition feework_env :: "led_env \<Rightarrow> CTxDB \<Rightarrow> fw_env" where
  "feework_env env db = \<lparr>fe_tx = le_tx env, fe_argon = le_argon env, fe_replay = le_replay env,
     fe_FetchInputs = (\<lambda>tx. case snd (FetchInputs env db [] False True tx []) of
        Accept inputs \<Rightarrow> Some (map (\<lambda>(h, txindex, txPrev). le_depth env txindex) inputs) | _ \<Rightarrow> None)\<rparr>"

text \<open>The check of a work proof where a chain of block indices is given, with the default arguments.\<close>

definition CheckFeework_at ::
  "led_env \<Rightarrow> CTxDB \<Rightarrow> CTransaction \<Rightarrow> Feework \<Rightarrow> bool \<Rightarrow> FeeworkBuffer \<Rightarrow> CBlockMemIndex list \<Rightarrow> u32 \<Rightarrow>
   GetMinFee_mode \<Rightarrow> (int \<times> Feework \<times> FeeworkBuffer) option" where
  "CheckFeework_at env db tx feework fRequired buffer pchain nBlockSize mode =
     (case txdb_block db (mi_hash (hd pchain)) of
        None \<Rightarrow> None
      | Some diskIndex \<Rightarrow>
          map_option (\<lambda>(res, fb). (case res of Inl dos \<Rightarrow> dos | Inr _ \<Rightarrow> 0, fb))
            (CheckFeework (feework_env env db) tx feework fRequired buffer (db_nHeight diskIndex) (map mi_hash pchain)
               nBlockSize mode True False))"

definition ConnectInputs_fee ::
  "led_env \<Rightarrow> CTxDB \<Rightarrow> CBlockMemIndex list \<Rightarrow> CTransaction \<Rightarrow> bool \<Rightarrow> bool \<Rightarrow> int \<Rightarrow> Feework \<times> FeeworkBuffer \<Rightarrow>
   (Feework \<times> FeeworkBuffer) verdict" where
  "ConnectInputs_fee env db pchain tx fBlock fInBlock nTxFee = (\<lambda>(feework, buffer).
     if nTxFee < GetMinFee 1 GMF_BLOCK 0
     then (case (if fw_status feework = FW_UNCHECKED
                 then CheckFeework_at env db tx (feework\<lparr>fw_bytes := ucast (size_tx tx)\<rparr>) True buffer
                        (if fInBlock \<and> tl pchain \<noteq> [] then tl pchain else pchain) 1 GMF_BLOCK
                 else Some (0, feework, buffer)) of
             None \<Rightarrow> Abort
           | Some (dos, feework, buffer) \<Rightarrow>
               if fw_status feework \<noteq> FW_OK then Reject (dos + (if fBlock then 100 else 0))
               else Accept (feework, buffer))
     else Accept (feework, buffer))"

definition ConnectInputs ::
  "led_env \<Rightarrow> CTxDB \<Rightarrow> CTransaction \<Rightarrow> MapPrevTx \<Rightarrow> tx_pool \<Rightarrow> CDiskTxPos \<Rightarrow> CBlockMemIndex list \<Rightarrow> bool \<Rightarrow> bool \<Rightarrow>
   u32 \<Rightarrow> int \<Rightarrow> int \<Rightarrow> Feework \<times> FeeworkBuffer \<Rightarrow> bool \<Rightarrow> (tx_pool \<times> Feework \<times> FeeworkBuffer) verdict" where
  "ConnectInputs env db tx inputs mapTestPool posThisTx pchain fBlock fMiner flags nValuePurchases nClaim fb fInBlock =
     (case txdb_block db (mi_hash (hd pchain)) of
        None \<Rightarrow> Abort
      | Some diskIndex \<Rightarrow>
          if IsCoinBase tx then Accept (mapTestPool, fb)
          else case ConnectInputs_values env pchain diskIndex tx inputs (vin tx) 0 of
                 Abort \<Rightarrow> Abort
               | Reject n \<Rightarrow> Reject n
               | Accept nValueIn \<Rightarrow>
                   (case ConnectInputs_spend env tx posThisTx fBlock fMiner flags (vin tx) 0 inputs mapTestPool of
                      Abort \<Rightarrow> Abort
                    | Reject n \<Rightarrow> Reject n
                    | Accept mapTestPool \<Rightarrow>
                        if IsCoinStake tx
                        then (case (GetCoinAge env db tx (db_nTime diskIndex), GetValueOut tx) of
                                (None, _) \<Rightarrow> Reject 0
                              | (_, None) \<Rightarrow> Abort
                              | (Some nCoinAge, Some nValueOut) \<Rightarrow>
                                  if nValueOut - nValueIn > GetProofOfStakeReward (le_fTestNet env) (sint nCoinAge) -
                                       GetMinFee 1 GMF_BLOCK 0 + MIN_TX_FEE
                                  then Reject 100 else Accept (mapTestPool, fb))
                        else (case GetValueOut tx of
                                None \<Rightarrow> Abort
                              | Some nValueOut \<Rightarrow>
                                  let nTxCredit = nValueIn + nClaim; nTxDebit = nValueOut + nValuePurchases
                                  in if nTxCredit < nTxDebit then Reject 100
                                     else case ConnectInputs_fee env db pchain tx fBlock fInBlock (nTxCredit - nTxDebit) fb of
                                            Abort \<Rightarrow> Abort
                                          | Reject n \<Rightarrow> Reject n
                                          | Accept fb \<Rightarrow>
                                              if \<not> MoneyRange (nTxCredit - nTxDebit) then Reject 100
                                              else Accept (mapTestPool, fb))))"

text \<open>With the transactions of the memory pool only; \<open>flags\<close> as for new transactions.\<close>

definition verify_flags :: "led_env \<Rightarrow> u32 \<Rightarrow> u32" where
  "verify_flags env flags =
     (if GetFork (le_fTestNet env) (le_nBestHeight env + 1) < XST_FORK005
      then flags AND NOT SCRIPT_VERIFY_CHECKLOCKTIMEVERIFY else flags)"

fun ClientConnectInputs_loop :: "led_env \<Rightarrow> CTransaction \<Rightarrow> CTxIn list \<Rightarrow> nat \<Rightarrow> int \<Rightarrow> int option" where
  "ClientConnectInputs_loop env tx [] i nValueIn = Some nValueIn"
| "ClientConnectInputs_loop env tx (txin # r) i nValueIn =
     (case le_mempool env (op_hash (prevout txin)) of
        None \<Rightarrow> None
      | Some txPrev \<Rightarrow>
          if unat (op_n (prevout txin)) \<ge> length (vout txPrev) then None
          else if \<not> VerifySignature env txPrev tx i (verify_flags env STANDARD_SCRIPT_VERIFY_FLAGS) then None
          else let v = nValue (vout txPrev ! unat (op_n (prevout txin)))
               in if \<not> MoneyRange v \<or> \<not> MoneyRange (nValueIn + v) then None
                  else ClientConnectInputs_loop env tx r (i + 1) (nValueIn + v))"

definition ClientConnectInputs :: "led_env \<Rightarrow> CTransaction \<Rightarrow> bool verdict" where
  "ClientConnectInputs env tx =
     (if IsCoinBase tx then Accept False
      else case ClientConnectInputs_loop env tx (vin tx) 0 0 of
             None \<Rightarrow> Accept False
           | Some nValueIn \<Rightarrow> (case GetValueOut tx of None \<Rightarrow> Abort | Some v \<Rightarrow> Accept (\<not> v > nValueIn)))"

section \<open>Disconnecting inputs\<close>

fun DisconnectInputs_loop :: "led_env \<Rightarrow> CTxIn list \<Rightarrow> CTxDB \<Rightarrow> bool \<times> CTxDB" where
  "DisconnectInputs_loop env [] db = (True, db)"
| "DisconnectInputs_loop env (txin # r) db =
     (let h = op_hash (prevout txin); n = unat (op_n (prevout txin))
      in case ReadTxIndex db h of
           None \<Rightarrow> (True, db)
         | Some txindex \<Rightarrow>
             if n \<ge> length (ti_vSpent txindex) then (False, db)
             else case UpdateTxIndex env db h (txindex\<lparr>ti_vSpent := (ti_vSpent txindex)[n := CDiskTxPos_SetNull]\<rparr>) of
                    None \<Rightarrow> (False, db)
                  | Some db \<Rightarrow> DisconnectInputs_loop env r db)"

definition DisconnectInputs :: "led_env \<Rightarrow> CTransaction \<Rightarrow> CTxDB \<Rightarrow> bool \<times> CTxDB" where
  "DisconnectInputs env tx db = (if IsCoinBase tx then (True, db) else DisconnectInputs_loop env (vin tx) db)"

end
