(* ===== verification/Difficulty.thy ===== *)
theory Difficulty
  imports Inputs
begin

text \<open>
  Targets of the old consensus: the compact form of big numbers (\<^verbatim>\<open>src/primitives/bignum.h\<close>) and the
  retargeting and proof-of-work check of \<^verbatim>\<open>src/blockchain/main.cpp\<close>. Big numbers are integers; the byte strings in
  between are the documented MPI format of OpenSSL without its length: big-endian, the sign in the first bit.
\<close>

section \<open>Compact numbers\<close>

fun be_bytes :: "nat \<Rightarrow> u8 list" where
  "be_bytes n = (if n = 0 then [] else be_bytes (n div 256) @ [of_nat (n mod 256)])"

declare be_bytes.simps [simp del]

definition be_value :: "u8 list \<Rightarrow> nat" where
  "be_value bs = fold (\<lambda>b v. 256 * v + unat b) bs 0"

definition BN_bn2mpi :: "int \<Rightarrow> u8 list" where
  "BN_bn2mpi n =
     (let m = be_bytes (nat \<bar>n\<bar>); m = (if m \<noteq> [] \<and> bit (hd m) 7 then 0 # m else m)
      in if n < 0 then (hd m OR 0x80) # tl m else m)"

definition BN_mpi2bn :: "u8 list \<Rightarrow> int" where
  "BN_mpi2bn bs =
     (if bs = [] then 0
      else let v = int (be_value ((hd bs AND 0x7f) # tl bs)) in if bit (hd bs) 7 then - v else v)"

definition SetCompact :: "u32 \<Rightarrow> int" where
  "SetCompact nCompact =
     (let nSize = unat (drop_bit 24 nCompact)
      in BN_mpi2bn ((replicate nSize 0)[0 := ucast (drop_bit 16 nCompact), 1 := ucast (drop_bit 8 nCompact), 2 := ucast nCompact]))"

definition GetCompact :: "int \<Rightarrow> u32" where
  "GetCompact n =
     (let vch = BN_bn2mpi n; nSize = length vch
      in push_bit 24 (of_nat nSize) OR (if nSize \<ge> 1 then push_bit 16 (ucast (vch ! 0)) else 0) OR
         (if nSize \<ge> 2 then push_bit 8 (ucast (vch ! 1)) else 0) OR (if nSize \<ge> 3 then ucast (vch ! 2) else 0))"

definition getuint256 :: "int \<Rightarrow> uint256" where
  "getuint256 n =
     (let vch = BN_bn2mpi n in if vch = [] then 0 else of_nat (be_value ((hd vch AND 0x7f) # tl vch)))"

section \<open>Targets\<close>

definition bnProofOfWorkLimit :: "bool \<Rightarrow> int" where
  "bnProofOfWorkLimit fTestNet = (2 ^ 256 - 1) div 2 ^ (if fTestNet then 16 else 20)"

definition bnProofOfStakeLimit :: "bool \<Rightarrow> int" where
  "bnProofOfStakeLimit fTestNet = (2 ^ 256 - 1) div 2 ^ 2"

definition nTargetTimespan :: int where "nTargetTimespan = 60 * 30"

definition nTargetSpacing :: "bool \<Rightarrow> int" where
  "nTargetSpacing fTestNet = (if fTestNet then 20 else 60)"

definition nTargetSpacingWorkMax :: int where "nTargetSpacingWorkMax = 3 * nTargetSpacing False"

function ComputeMaxBits_loop :: "int \<Rightarrow> int \<Rightarrow> int \<Rightarrow> int" where
  "ComputeMaxBits_loop bnTargetLimit bnResult nTime =
     (if nTime > 0 \<and> bnResult < bnTargetLimit
      then ComputeMaxBits_loop bnTargetLimit (bnResult * 2) (nTime - 24 * 60 * 6) else bnResult)"
  by pat_completeness auto
termination by (relation "measure (\<lambda>(l, b, t). nat t)") auto

declare ComputeMaxBits_loop.simps [simp del]

definition ComputeMaxBits :: "int \<Rightarrow> u32 \<Rightarrow> int \<Rightarrow> u32" where
  "ComputeMaxBits bnTargetLimit nBase nTime =
     GetCompact (min (ComputeMaxBits_loop bnTargetLimit (SetCompact nBase * 2) nTime) bnTargetLimit)"

definition ComputeMinWork :: "bool \<Rightarrow> u32 \<Rightarrow> int \<Rightarrow> u32" where
  "ComputeMinWork fTestNet nBase nTime = ComputeMaxBits (bnProofOfWorkLimit fTestNet) nBase nTime"

definition ComputeMinStake :: "bool \<Rightarrow> u32 \<Rightarrow> int \<Rightarrow> u32 \<Rightarrow> u32" where
  "ComputeMinStake fTestNet nBase nTime nBlockTime = ComputeMaxBits (bnProofOfStakeLimit fTestNet) nBase nTime"

definition BLOCK_PROOF_OF_STAKE :: u32 where "BLOCK_PROOF_OF_STAKE = 1"
definition BLOCK_QPOS :: u32 where "BLOCK_QPOS = 8"

definition Index_IsProofOfWork :: "CDiskBlockIndex \<Rightarrow> bool" where
  "Index_IsProofOfWork d \<longleftrightarrow> db_nFlags d AND (BLOCK_PROOF_OF_STAKE OR BLOCK_QPOS) = 0"

definition Index_IsProofOfStake :: "CDiskBlockIndex \<Rightarrow> bool" where
  "Index_IsProofOfStake d \<longleftrightarrow> db_nFlags d AND BLOCK_PROOF_OF_STAKE \<noteq> 0"

text \<open>\<open>None\<close> is an index that cannot be read.\<close>

fun GetLastBlockIndex :: "CTxDB \<Rightarrow> bool \<Rightarrow> CBlockMemIndex list \<Rightarrow> CBlockMemIndex list option" where
  "GetLastBlockIndex db fProofOfStake [] = Some []"
| "GetLastBlockIndex db fProofOfStake [pmemIndex] = Some [pmemIndex]"
| "GetLastBlockIndex db fProofOfStake (pmemIndex # pprev) =
     (case txdb_block db (mi_hash pmemIndex) of
        None \<Rightarrow> None
      | Some d \<Rightarrow> if Index_IsProofOfStake d \<noteq> fProofOfStake then GetLastBlockIndex db fProofOfStake pprev
                  else Some (pmemIndex # pprev))"

text \<open>The new target from the last one, the actual spacing of two blocks and the wanted spacing.\<close>

definition retarget :: "int \<Rightarrow> int \<Rightarrow> int \<Rightarrow> int \<Rightarrow> int" where
  "retarget bnTargetLimit bnOld nSpacing nActual =
     (let nActual = (if nActual < 0 then 1 else if nActual > nTargetTimespan then nTargetTimespan else nActual);
          nInterval = nTargetTimespan sdiv nSpacing;
          bnNew = (bnOld * ((nInterval - 1) * nSpacing + nActual + nActual)) sdiv ((nInterval + 1) * nSpacing)
      in if bnNew > bnTargetLimit then bnTargetLimit else bnNew)"

definition GetNextTargetRequired :: "bool \<Rightarrow> CTxDB \<Rightarrow> CBlockMemIndex list \<Rightarrow> bool \<Rightarrow> u32 option" where
  "GetNextTargetRequired fTestNet db pmemIndexLast fProofOfStake =
     (let bnTargetLimit = (if fProofOfStake then bnProofOfStakeLimit fTestNet else bnProofOfWorkLimit fTestNet)
      in if pmemIndexLast = [] then Some (GetCompact bnTargetLimit)
         else do {
           pmemIndexPrev \<leftarrow> GetLastBlockIndex db fProofOfStake pmemIndexLast;
           if length pmemIndexPrev \<le> 1 then Some (GetCompact bnTargetLimit)
           else do {
             pmemIndexPrevPrev \<leftarrow> GetLastBlockIndex db fProofOfStake (tl pmemIndexPrev);
             if length pmemIndexPrevPrev \<le> 1 then Some (GetCompact bnTargetLimit)
             else do {
               diskIndexLast \<leftarrow> txdb_block db (mi_hash (hd pmemIndexLast));
               diskIndexPrev \<leftarrow> txdb_block db (mi_hash (hd pmemIndexPrev));
               diskIndexPrevPrev \<leftarrow> txdb_block db (mi_hash (hd pmemIndexPrevPrev));
               let spacing = (if fProofOfStake then nTargetSpacing fTestNet
                              else min nTargetSpacingWorkMax
                                     (nTargetSpacing fTestNet * (1 + db_nHeight diskIndexLast - db_nHeight diskIndexPrev)));
               Some (GetCompact (retarget bnTargetLimit (SetCompact (db_nBits diskIndexPrev)) spacing
                 (uint (db_nTime diskIndexPrev) - uint (db_nTime diskIndexPrevPrev)))) } } })"

definition CheckProofOfWork :: "bool \<Rightarrow> uint256 \<Rightarrow> uint256 \<Rightarrow> u32 \<Rightarrow> bool" where
  "CheckProofOfWork fTestNet hashGenesisBlock h nBits =
     (if h = hashGenesisBlock then True
      else let bnTarget = SetCompact nBits
           in if bnTarget \<le> 0 \<or> bnTarget > bnProofOfWorkLimit fTestNet then False
              else \<not> h > getuint256 bnTarget)"

end
