(* ===== verification/QPRegistryUpdate.thy ===== *)
theory QPRegistryUpdate
  imports QPRegistryOps
begin

text \<open>
  How the registry follows the chain (\<^verbatim>\<open>src/qpos/QPRegistry.cpp\<close>): rewards and misses, the
  shuffled queue of the next round, docking and purging of balances, replay mode, and the two
  entry points \<open>UpdateOnNewTime\<close> and \<open>UpdateOnNewBlock\<close>. The catch-up loop is a partial function
  whose value is \<open>None\<close> when it does not return (or when it would read the current staker of an
  empty queue). Writes to the snapshot data base are returned as a list of actions.
\<close>

section \<open>Disabling and disqualifying\<close>

definition DisableStaker :: "QPRegistry \<Rightarrow> u32 \<Rightarrow> int \<Rightarrow> bool \<times> QPRegistry" where
  "DisableStaker r nID nHeight =
     (case GetStakerInternal r nID of
        None \<Rightarrow> (False, r)
      | Some s \<Rightarrow> if IsDisabled s then (False, r)
                  else (True, put_staker nID (Disable s nHeight) r))"

definition DisableStakerIfNecessary ::
  "qp_env \<Rightarrow> QPRegistry \<Rightarrow> u32 \<Rightarrow> QPStaker \<Rightarrow> int \<Rightarrow> bool \<times> QPRegistry" where
  "DisableStakerIfNecessary env r nID s nHeight =
     (if fork_at env (nBlockHeight r) < XST_FORKFEELESS then (True, r)
      else if ShouldBeDisabled (env_fTestNet env) s nHeight
      then (if GetNumberEnabledInternal r > 3 then DisableStaker r nID nHeight else (True, r))
      else (True, r))"

definition DisqualifyStaker :: "QPRegistry \<Rightarrow> u32 \<Rightarrow> bool \<times> QPRegistry" where
  "DisqualifyStaker r nID =
     (case GetStakerInternal r nID of
        None \<Rightarrow> (False, r)
      | Some s \<Rightarrow> if IsDisqualified s then (False, r)
                  else (True, put_staker nID (Disqualify s) r))"

text \<open>With no other enabled staker the limit is the indeterminate value of a local.\<close>

definition DisqualifyStakerIfNecessary ::
  "qp_env \<Rightarrow> QPRegistry \<Rightarrow> u32 \<Rightarrow> QPStaker \<Rightarrow> bool \<times> QPRegistry" where
  "DisqualifyStakerIfNecessary env r nID s =
     (if env_fTestNet env then (True, r)
      else let (fResult, nMax) = (case GetPrevRecentBlocksMissedMax r nID of
                                    None \<Rightarrow> (False, env_uninit env) | Some m \<Rightarrow> (True, m))
           in if ShouldBeDisqualified s nMax then DisqualifyStaker r nID else (fResult, r))"

section \<open>Produced and missed blocks\<close>

definition credit_balance :: "CPubKey \<Rightarrow> int \<Rightarrow> QPRegistry \<Rightarrow> QPRegistry" where
  "credit_balance key n r =
     r\<lparr>mapBalances := om_put key (om_at 0 (mapBalances r) key + n) (mapBalances r)\<rparr>"

definition StakerProducedBlock ::
  "qp_env \<Rightarrow> QPRegistry \<Rightarrow> CBlockIndex \<Rightarrow> int \<Rightarrow> bool \<times> QPRegistry" where
  "StakerProducedBlock env r pindex nReward =
     (let nID = bi_nStakerID pindex
      in case GetStakerInternal r nID of
           None \<Rightarrow> (False, r)
         | Some s \<Rightarrow>
             if IsDisqualified s then (False, r)
             else
               let nSeniority = (nIDCounter r + 1) - nID;
                   r = r\<lparr>powerRoundCurrent :=
                         PowerRound_PushBack (powerRoundCurrent r) nID (GetWeight s nSeniority) True\<rparr>;
                   (s, nOwnerReward, nDelegateReward) =
                     ProducedBlock s (bi_hashBlock pindex) nReward (fPrevBlockWasProduced r);
                   r = put_staker nID s r;
                   r = (if env_fTestNet env \<and> fork_at env (nBlockHeight r) < XST_FORKMISSFIX
                        then credit_balance (pubkeyOwner s) nOwnerReward r
                        else credit_balance (pubkeyManager s) nOwnerReward r);
                   r = (if nDelegateReward > 0
                        then credit_balance (pubkeyDelegate s) nDelegateReward r else r);
                   r = (if fork_at env (nBlockHeight r) < XST_FORKREINSTATE
                        then snd (DisqualifyStakerIfNecessary env r nID s) else r)
               in (True, r\<lparr>rg_bRecentBlocks := bset0 (shl1 (rg_bRecentBlocks r)),
                           fCurrentBlockWasProduced := True, fPrevBlockWasProduced := True\<rparr>))"

definition StakerMissedBlock :: "qp_env \<Rightarrow> QPRegistry \<Rightarrow> u32 \<Rightarrow> int \<Rightarrow> bool \<times> QPRegistry" where
  "StakerMissedBlock env r nID nHeight =
     (let nFork = fork_at env nHeight
      in case GetStakerInternal r nID of
           None \<Rightarrow> (False, r)
         | Some s \<Rightarrow>
             if IsDisqualified s then (False, r)
             else
               let nSeniority = (nIDCounter r + 1) - nID;
                   r = r\<lparr>powerRoundCurrent :=
                         PowerRound_PushBack (powerRoundCurrent r) nID (GetWeight s nSeniority) False\<rparr>;
                   s = MissedBlock s (fPrevBlockWasProduced r) nFork;
                   r = put_staker nID s r;
                   r = (if nFork \<ge> XST_FORKMISSFIX
                        then snd (DisableStakerIfNecessary env r nID s nHeight) else r)
               in (True, r\<lparr>rg_bRecentBlocks := shl1 (rg_bRecentBlocks r),
                           fPrevBlockWasProduced := False\<rparr>))"

section \<open>The queue of the next round\<close>

text \<open>\<open>iter_swap\<close> of positions \<open>i\<close> and \<open>j\<close>; a position behind the end is undefined.\<close>

fun shuffle_loop :: "(nat \<Rightarrow> nat \<Rightarrow> nat) \<Rightarrow> nat \<Rightarrow> u32 list \<Rightarrow> nat list \<Rightarrow> u32 list" where
  "shuffle_loop draw k ids [] = ids"
| "shuffle_loop draw k ids (i # is) =
     (let j = draw k (i + 1)
      in shuffle_loop draw (k + 1) (if i \<noteq> j then ids[i := ids ! j, j := ids ! i] else ids) is)"

definition hash_byte :: "uint256 \<Rightarrow> nat \<Rightarrow> u8" where
  "hash_byte h i = ucast (drop_bit (8 * i) h)"

definition QP_ROUNDS :: nat where
  "QP_ROUNDS = 1"

definition QueueSeed :: "qp_env \<Rightarrow> uint256 \<Rightarrow> u32" where
  "QueueSeed env prevHash =
     (let hash = (if env_fTestNet env then env_SerializeHash env prevHash
                  else (env_Hash9 env ^^ QP_ROUNDS) prevHash);
          vch = map (hash_byte hash) [0..<4]
      in case GETUINT32 vch of None \<Rightarrow> 0 | Some seed \<Rightarrow> seed)"

definition EnabledIDs :: "QPRegistry \<Rightarrow> u32 list" where
  "EnabledIDs r = map fst (filter (\<lambda>(k, s). IsEnabled s) (mapStakers r))"

definition NewQueue :: "qp_env \<Rightarrow> QPRegistry \<Rightarrow> u32 \<Rightarrow> uint256 \<Rightarrow> bool \<times> QPRegistry" where
  "NewQueue env r nTime0 prevHash =
     (let vIDs = EnabledIDs r
      in if length vIDs < 1 then (False, r)
         else
           let vIDs = sort vIDs;
               seed = QueueSeed env prevHash;
               vIDs = shuffle_loop (env_shuffler env seed) 0 vIDs [1..<length vIDs]
           in (True, r\<lparr>queuePrev := queue r, queue := QPQueue_new nTime0 vIDs,
                       nRound := nRound r + 1, nRoundSeed := seed,
                       powerRoundPrev := PowerRound_Copy (powerRoundPrev r) (powerRoundCurrent r),
                       powerRoundCurrent := QPPowerRound_SetNull,
                       hashLastBlockPrev3Queue := hashLastBlockPrev2Queue r,
                       hashLastBlockPrev2Queue := hashLastBlockPrev1Queue r,
                       hashLastBlockPrev1Queue := prevHash\<rparr>))"

section \<open>Docking and purging\<close>

fun DockInactiveKeys_loop ::
  "int \<Rightarrow> (CPubKey, int) omap \<Rightarrow> bool \<times> (CPubKey, int) omap \<Rightarrow> bool \<times> (CPubKey, int) omap" where
  "DockInactiveKeys_loop nDockValue [] (fResult, bal) = (fResult, bal)"
| "DockInactiveKeys_loop nDockValue ((key, n) # act) (fResult, bal) =
     DockInactiveKeys_loop nDockValue act
       (if n < 1
        then (case map_of bal key of
                None \<Rightarrow> (False, bal)
              | Some b \<Rightarrow> (fResult, om_put key (b - nDockValue) bal))
        else (fResult, bal))"

definition DockInactiveKeys :: "QPRegistry \<Rightarrow> int \<Rightarrow> bool \<times> QPRegistry" where
  "DockInactiveKeys r nMoneySupply =
     (let nDockValue = nMoneySupply sdiv DOCK_INACTIVE_FRACTION;
          (fResult, bal) = DockInactiveKeys_loop nDockValue (mapActive r) (True, mapBalances r)
      in (fResult, r\<lparr>mapBalances := bal\<rparr>))"

definition PurgeLowBalances :: "QPRegistry \<Rightarrow> int \<Rightarrow> QPRegistry" where
  "PurgeLowBalances r nMoneySupply =
     (let nDockValue = nMoneySupply sdiv DOCK_INACTIVE_FRACTION;
          vPurge = map fst (filter (\<lambda>(key, b). b < nDockValue \<and> om_at 0 (mapActive r) key \<le> 0)
                     (mapBalances r))
      in r\<lparr>mapBalances := fold om_erase vPurge (mapBalances r),
           mapActive := fold om_erase vPurge (mapActive r)\<rparr>)"

section \<open>Replay mode\<close>

definition ExitReplayModeInternal :: "QPRegistry \<Rightarrow> QPRegistry" where
  "ExitReplayModeInternal r = r\<lparr>nHeightExitedReplay := word_of_int (nBlockHeight r)\<rparr>"

definition EnterReplayMode :: "QPRegistry \<Rightarrow> QPRegistry" where
  "EnterReplayMode r =
     (if OutOfReplayMode r \<and>
         nBlockHeight r > sint (nHeightExitedReplay r + (1 + QPQueue_Size (queue r)))
      then r\<lparr>nHeightExitedReplay := 0\<rparr> else r)"

definition CheckSynced :: "qp_env \<Rightarrow> QPRegistry \<Rightarrow> QPRegistry" where
  "CheckSynced env r =
     (if IsInReplayMode r \<and> HasEnoughPower env r \<and>
         TimeIsInCurrentSlotWindow (queue r) (word_of_int (env_AdjustedTime env))
      then ExitReplayModeInternal r else r)"

section \<open>Catching up with a time\<close>

text \<open>The first part of a turn of the \<open>while\<close> loop: a slot without a block counts as missed.\<close>

definition miss_step ::
  "qp_env \<Rightarrow> CBlockIndex \<Rightarrow> QPRegistry \<Rightarrow> u32 \<Rightarrow> QPRegistry option" where
  "miss_step env pindex r nNewQueues =
     (let nHeight = bi_nHeight pindex; nFork = fork_at env nHeight
      in if fCurrentBlockWasProduced r then Some r
         else if nFork \<ge> XST_FORKQPOS \<and> (nFork < XST_FORKFEELESS2 \<or> nNewQueues \<le> 1)
         then map_option (\<lambda>i. snd (StakerMissedBlock env r i nHeight)) (GetCurrentID (queue r))
         else Some (ExitReplayModeInternal r))"

text \<open>The last part: the rollback flag and replay mode.\<close>

definition power_step :: "qp_env \<Rightarrow> QPRegistry \<Rightarrow> QPRegistry" where
  "power_step env r =
     (let r = r\<lparr>fCurrentBlockWasProduced := False\<rparr>
      in if HasEnoughPower env r then r\<lparr>fShouldRollback := False\<rparr>
         else let r = r\<lparr>fShouldRollback := True\<rparr>
              in if OutOfReplayMode r then ExitReplayModeInternal r else r)"

text \<open>One turn; the flag is false when no new queue can be built.\<close>

definition UpdateOnNewTime_body ::
  "qp_env \<Rightarrow> CBlockIndex \<Rightarrow> QPRegistry \<times> u32 \<Rightarrow> (bool \<times> QPRegistry \<times> u32) option" where
  "UpdateOnNewTime_body env pindex = (\<lambda>(r, nNewQueues). do {
     r \<leftarrow> miss_step env pindex r nNewQueues;
     case IncrementSlot (queue r) of
       (True, q) \<Rightarrow> Some (True, power_step env (r\<lparr>queue := q\<rparr>), nNewQueues)
     | (False, q) \<Rightarrow>
         (let r = snd (DockInactiveKeys r (bi_nMoneySupply pindex));
              r = PurgeLowBalances r (bi_nMoneySupply pindex)
          in case NewQueue env r (GetMaxTime (queue r) + 1) (hashBlock r) of
               (False, r) \<Rightarrow> Some (False, r, nNewQueues)
             | (True, r) \<Rightarrow> Some (True, power_step env r, nNewQueues + 1))
   })"

partial_function (option) UpdateOnNewTime_loop ::
  "qp_env \<Rightarrow> CBlockIndex \<Rightarrow> u32 \<Rightarrow> QPRegistry \<times> u32 \<Rightarrow> (bool \<times> QPRegistry) option" where
  "UpdateOnNewTime_loop env pindex nTime st =
     (if GetCurrentSlotEnd (queue (fst st)) < nTime
      then do {
        res \<leftarrow> UpdateOnNewTime_body env pindex st;
        (if fst res then UpdateOnNewTime_loop env pindex nTime (snd res)
         else Some (False, fst (snd res)))
      }
      else Some (True, fst st))"

declare UpdateOnNewTime_loop.simps [code]

datatype SnapType = NO_SNAPS | SPARSE_SNAPS | ALL_SNAPS

datatype snap_action = WriteSnapshot int QPRegistry | EraseSnapshot int

text \<open>
  The snapshot decision (write, erase); heights are compared modulo unsigned constants, so they
  are converted to unsigned first.
\<close>

definition SnapshotDecision ::
  "qp_env \<Rightarrow> CBlockIndex \<Rightarrow> SnapType \<Rightarrow> QPRegistry \<Rightarrow> bool \<times> bool" where
  "SnapshotDecision env pindex nSnapshotType r =
     (let M = BLOCKS_PER_SNAPSHOT * PERMANENT_SNAPSHOT_RATIO;
          nHeight = bi_nHeight pindex; uHeight = word_of_int nHeight :: u32;
          (fWrite, fErase) =
            (if nSnapshotType = NO_SNAPS \<or> fork_at env nHeight < XST_FORKPURCHASE
             then (False, False)
             else if nSnapshotType = SPARSE_SNAPS then (uHeight mod M = 0, \<not> uHeight mod M = 0)
             else (uHeight mod BLOCKS_PER_SNAPSHOT = 0, False))
      in (fWrite \<and> bi_hashBlock pindex \<noteq> hashBlockLastSnapshot r,
          fErase \<and> env_SnapshotIsViable env nHeight))"

definition SnapshotStep ::
  "qp_env \<Rightarrow> CBlockIndex \<Rightarrow> SnapType \<Rightarrow> QPRegistry \<Rightarrow> snap_action list \<times> QPRegistry" where
  "SnapshotStep env pindex nSnapshotType r =
     (case SnapshotDecision env pindex nSnapshotType r of
        (fWrite, fErase) \<Rightarrow>
          if fWrite
          then let r = r\<lparr>hashBlockLastSnapshot := bi_hashBlock pindex\<rparr>;
                   N = BLOCKS_PER_SNAPSHOT * RECENT_SNAPSHOTS;
                   M = BLOCKS_PER_SNAPSHOT * PERMANENT_SNAPSHOT_RATIO;
                   uErase = word_of_int (bi_nHeight pindex) - N
               in (WriteSnapshot (bi_nHeight pindex) r #
                   (if uErase mod M \<noteq> 0 then [EraseSnapshot (sint uErase)] else []), r)
          else if fErase then ([EraseSnapshot (bi_nHeight pindex)], r)
          else ([], r))"

definition UpdateOnNewTimeInternal ::
  "qp_env \<Rightarrow> QPRegistry \<Rightarrow> u32 \<Rightarrow> CBlockIndex \<Rightarrow> SnapType \<Rightarrow>
   (snap_action list \<times> bool \<times> QPRegistry) option" where
  "UpdateOnNewTimeInternal env r nTime pindex nSnapshotType =
     (let (snaps, r) = SnapshotStep env pindex nSnapshotType r
      in if fork_at env (bi_nHeight pindex + 1) \<ge> XST_FORKQPOS
         then (if QPQueue_IsEmpty (queue r)
               then (case NewQueue env r (bi_nTime pindex + 1) (bi_hashBlock pindex) of
                       (False, r) \<Rightarrow> Some (snaps, False, r)
                     | (True, r) \<Rightarrow>
                         map_option (Pair snaps) (UpdateOnNewTime_loop env pindex nTime (r, 1)))
               else map_option (Pair snaps) (UpdateOnNewTime_loop env pindex nTime (r, 0)))
         else Some (snaps, True, r))"

definition UpdateCertifiedNodesList :: "QPRegistry \<Rightarrow> QPRegistry" where
  "UpdateCertifiedNodesList r =
     r\<lparr>mapCertifiedNodes :=
       fold (\<lambda>(k, s) m. if \<not> IsDisqualified s
                        then (case GetMeta s META_KEY_CERTIFIED_NODE of
                                None \<Rightarrow> m | Some v \<Rightarrow> om_put k v m)
                        else m) (mapStakers r) []\<rparr>"

section \<open>A new block\<close>

text \<open>
  The result of processing a block: the method returns a flag, or the program exits because the
  operations of a block that is not merely checked could not be applied.
\<close>

datatype block_result = Returned bool QPRegistry | Exited QPRegistry

definition ForkResets :: "qp_env \<Rightarrow> QPRegistry \<Rightarrow> int \<Rightarrow> QPRegistry" where
  "ForkResets env r nFork =
     (let nForkPrev = fork_at env (nBlockHeight r)
      in if nForkPrev < XST_FORKMISSFIX2
         then (if nFork \<ge> XST_FORKMISSFIX2
               then r\<lparr>mapStakers := om_map_vals ResetDocked (mapStakers r)\<rparr>
               else if nForkPrev < XST_FORKREINSTATE \<and> nFork \<ge> XST_FORKREINSTATE
               then r\<lparr>mapStakers := om_map_vals
                      (\<lambda>s. ResetDocked (if IsDisqualified s then Requalify s True else s))
                      (mapStakers r)\<rparr>
               else r)
         else r)"

definition ProduceStep ::
  "qp_env \<Rightarrow> QPRegistry \<Rightarrow> CBlockIndex \<Rightarrow> CBlockIndex \<Rightarrow> bool \<times> QPRegistry" where
  "ProduceStep env r pindex pindexPrev =
     (case GetSlotForID (queue r) (bi_nStakerID pindex) of
        None \<Rightarrow> (False, r)
      | Some nStakerSlot \<Rightarrow>
          if nStakerSlot \<noteq> nCurrentSlot (queue r) then (False, r)
          else if fCurrentBlockWasProduced r \<and> OutOfReplayMode r then (False, r)
          else
            (case StakerProducedBlock env r pindex
                    (GetQPoSReward (Some (bi_nMoneySupply pindexPrev))) of
               (False, r) \<Rightarrow> (False, r)
             | (True, r) \<Rightarrow>
                 let (bits, q) = SlotProduced (queue r) nStakerSlot; r = r\<lparr>queue := q\<rparr>
                 in if bits = 0 then (False, r)
                    else (True, UpdateCertifiedNodesList
                            (r\<lparr>mapStakers := om_map_vals
                               (\<lambda>s. if IsQualified s then SawBlock s else s) (mapStakers r)\<rparr>))))"

definition UpdateOnNewBlock ::
  "qp_env \<Rightarrow> QPRegistry \<Rightarrow> CBlockIndex \<Rightarrow> CBlockIndex \<Rightarrow> SnapType \<Rightarrow> bool \<Rightarrow>
   (snap_action list \<times> block_result) option" where
  "UpdateOnNewBlock env r pindex pindexPrev nSnapshotType fJustCheck =
     (let nFork = fork_at env (bi_nHeight pindex); r = ForkResets env r nFork
      in do {
        (snaps, ok, r) \<leftarrow> UpdateOnNewTimeInternal env r (bi_nTime pindex) pindexPrev nSnapshotType;
        Some (snaps,
          if \<not> ok then Returned False r
          else
            let (nCode, r) = (if nFork \<ge> XST_FORKPURCHASE \<and> bi_vDeets pindex \<noteq> []
                              then ApplyOps env r pindex else (0, r))
            in if nCode \<noteq> 0 then (if fJustCheck then Returned False r else Exited r)
               else
                 let (ok, r) = (if nFork \<ge> XST_FORKQPOS then ProduceStep env r pindex pindexPrev
                                else (True, r))
                 in if \<not> ok then Returned False r
                    else Returned True (r\<lparr>nBlockHeight := bi_nHeight pindex,
                                          hashBlock := bi_hashBlock pindex\<rparr>))
      })"

text \<open>
  Which staker should sign now: the queue itself when it covers the current time, else a copy of
  the registry advanced to that time. The result is \<open>(produce, ID, time)\<close>.
\<close>

definition GetIDForCurrentTime ::
  "qp_env \<Rightarrow> QPRegistry \<Rightarrow> CBlockIndex \<Rightarrow> (bool \<times> u32 \<times> u32) option" where
  "GetIDForCurrentTime env r pindex =
     (let nTime = word_of_int (env_AdjustedTime env) :: u32;
          advance = do {
            (snaps, ok, t) \<leftarrow> UpdateOnNewTimeInternal env (CopyInternal (QPRegistry_new env) r)
                                nTime pindex NO_SNAPS;
            i \<leftarrow> GetIDForCurrentSlot t;
            Some (True, i, nTime)
          }
      in if nTime < GetCurrentSlotStart (queue r)
         then map_option (\<lambda>i. (False, i, nTime)) (GetCurrentID (queue r))
         else if nTime \<le> GetMaxTime (queue r)
         then (case GetSlotForTime (queue r) nTime of
                 None \<Rightarrow> Some (False, 0, nTime)
               | Some nSlot \<Rightarrow> do {
                   i \<leftarrow> GetCurrentID (queue r);
                   if nSlot = nCurrentSlot (queue r)
                   then Some (\<not> fCurrentBlockWasProduced r, i, nTime)
                   else if nSlot < nCurrentSlot (queue r) then Some (False, i, nTime)
                   else advance
                 })
         else advance)"

end
