(* ===== verification/Ledger.thy ===== *)
theory Ledger
  imports Difficulty QPRegistryUpdate
begin

text \<open>
  Blocks and the ledger (\<^verbatim>\<open>src/blockchain/main.cpp\<close>): \<open>CheckBlock\<close> with the signature check, \<open>ConnectBlock\<close>,
  which enters the transactions of a block into the transaction index and keeps the books of the money supply,
  and \<open>DisconnectBlock\<close>.

  A verdict \<open>Reject\<close> carries what is added to the denial-of-service score of the block. \<open>CheckBlock\<close> also gives
  the registry, which it moves on to the time of the block, and the transactions it removes from the memory pool.
  The record \<open>blkchk_env\<close> adds the hash functions for blocks, the elliptic-curve operations and the
  best block. The notification of wallets and of the explorer is left out.
\<close>

section \<open>Checks of a block\<close>

record blkchk_env =
  bc_led :: led_env
  bc_Hash9 :: "valtype \<Rightarrow> uint256"
  bc_hashOfNftHashes :: uint256
  bc_hashGenesisBlock :: uint256
  bc_SetPubKey :: "CPubKey \<Rightarrow> bool"
  bc_Verify :: "CPubKey \<Rightarrow> uint256 \<Rightarrow> valtype \<Rightarrow> bool"
  bc_pindexBest :: CBlockIndex
  bc_write_block_ok :: "uint256 \<Rightarrow> bool"

abbreviation bc_chk :: "blkchk_env \<Rightarrow> chk_env" where "bc_chk env \<equiv> le_chk (bc_led env)"
abbreviation bc_tx :: "blkchk_env \<Rightarrow> tx_env" where "bc_tx env \<equiv> ce_tx (bc_chk env)"
abbreviation bc_qp :: "blkchk_env \<Rightarrow> qp_env" where "bc_qp env \<equiv> ce_qp (bc_chk env)"
abbreviation bc_fork :: "blkchk_env \<Rightarrow> int \<Rightarrow> int" where "bc_fork env h \<equiv> GetFork (te_fTestNet (bc_tx env)) h"

definition MAX_BLOCK_SIGOPS :: u32 where "MAX_BLOCK_SIGOPS = MAX_BLOCK_SIZE div 50"
definition nMaxClockDrift :: int where "nMaxClockDrift = 2 * 60 * 60"

definition block_hash :: "blkchk_env \<Rightarrow> CBlock \<Rightarrow> uint256" where
  "block_hash env b =
     Block_GetHash \<lparr>be_tx = bc_tx env, be_Hash9 = bc_Hash9 env, be_hashOfNftHashes = bc_hashOfNftHashes env\<rparr> b"

definition CheckCoinStakeTimestamp :: "int \<Rightarrow> int \<Rightarrow> bool" where
  "CheckCoinStakeTimestamp nTimeBlock nTimeTx \<longleftrightarrow> nTimeBlock = nTimeTx"

fun CheckBlockSignature_pow :: "blkchk_env \<Rightarrow> CBlock \<Rightarrow> CTxOut list \<Rightarrow> bool" where
  "CheckBlockSignature_pow env b [] = False"
| "CheckBlockSignature_pow env b (txout # r) =
     (case Solver (scriptPubKey txout) [] of
        (ok, whichType, vSolutions) \<Rightarrow>
          if \<not> ok then False
          else if whichType = TX_PUBKEY \<and> bc_SetPubKey env (hd vSolutions) \<and> vchBlockSig b \<noteq> [] \<and>
                  bc_Verify env (hd vSolutions) (block_hash env b) (vchBlockSig b)
          then True
          else CheckBlockSignature_pow env b r)"

definition CheckBlockSignature :: "blkchk_env \<Rightarrow> QPRegistry \<Rightarrow> CBlock \<Rightarrow> bool" where
  "CheckBlockSignature env r b =
     (if block_hash env b = bc_hashGenesisBlock env then vchBlockSig b = []
      else if IsQuantumProofOfStake b
      then (case GetDelegateKey r (blk_nStakerID b) of
              None \<Rightarrow> False
            | Some vchPubKey \<Rightarrow>
                if \<not> bc_SetPubKey env vchPubKey then False
                else if vchBlockSig b = [] then False
                else bc_Verify env vchPubKey (block_hash env b) (vchBlockSig b))
      else if IsProofOfStake b
      then (case Solver (scriptPubKey (vout (vtx b ! 1) ! 1)) [] of
              (ok, whichType, vSolutions) \<Rightarrow>
                if \<not> ok then False
                else if whichType = TX_PUBKEY
                then (if \<not> bc_SetPubKey env (hd vSolutions) then False
                      else if vchBlockSig b = [] then False
                      else bc_Verify env (hd vSolutions) (block_hash env b) (vchBlockSig b))
                else False)
      else CheckBlockSignature_pow env b (vout (vtx b ! 0)))"

text \<open>Size, work and time; the registry is moved on to the time of a qPoS block.\<close>

definition CheckBlock_header ::
  "blkchk_env \<Rightarrow> QPRegistry \<Rightarrow> CBlock \<Rightarrow> int \<Rightarrow> bool \<Rightarrow> bool \<Rightarrow> unit verdict \<times> QPRegistry" where
  "CheckBlock_header env r b nThisHeight fCheckPOW fCheckQPoS =
     (let nFork = bc_fork env nThisHeight; nBlockFork = bc_fork env (blk_nHeight b)
      in if nBlockFork < XST_FORKQPOS \<and> vtx b = [] \<or> of_nat (length (vtx b)) > MAX_BLOCK_SIZE \<or> size_block b > MAX_BLOCK_SIZE
         then (Reject 100, r)
         else if fCheckPOW \<and> IsProofOfWork b \<and>
                 \<not> CheckProofOfWork (te_fTestNet (bc_tx env)) (bc_hashGenesisBlock env) (block_hash env b) (blk_nBits b)
         then (Reject 50, r)
         else if nBlockFork \<ge> XST_FORKQPOS \<and> fCheckQPoS
         then (if IsInReplayMode r then (Accept (), r)
               else case UpdateOnNewTimeInternal (bc_qp env) r (blk_nTime b) (bc_pindexBest env) NO_SNAPS of
                      None \<Rightarrow> (Abort, r)
                    | Some (_, _, r) \<Rightarrow>
                        if TimestampIsValid (bc_qp env) r (blk_nStakerID b) (blk_nTime b) then (Accept (), r)
                        else (Reject 0, r))
         else if nFork \<ge> XST_FORK005
         then (if GetBlockTime b > FutureDrift (te_AdjustedTime (bc_tx env)) then (Reject 0, r) else (Accept (), r))
         else (if GetBlockTime b > te_AdjustedTime (bc_tx env) + nMaxClockDrift then (Reject 0, r) else (Accept (), r)))"

text \<open>Which transactions may be coinbase and coinstake, and the time of the first.\<close>

definition CheckBlock_kinds :: "blkchk_env \<Rightarrow> CBlock \<Rightarrow> int \<Rightarrow> unit verdict" where
  "CheckBlock_kinds env b nThisHeight =
     (let nFork = bc_fork env nThisHeight; nBlockFork = bc_fork env (blk_nHeight b); t = vtx b
      in if nBlockFork \<ge> XST_FORKQPOS \<and> list_ex (\<lambda>tx. IsCoinBase tx \<or> IsCoinStake tx) t then Reject 100
         else if nBlockFork \<ge> XST_FORKQPOS \<and> \<not> IsQuantumProofOfStake b then Reject 100
         else if nBlockFork < XST_FORKQPOS \<and> \<not> IsCoinBase (t ! 0) then Reject 100
         else if nBlockFork < XST_FORKQPOS \<and> list_ex IsCoinBase (tl t) then Reject 100
         else if nFork < XST_FORK005 \<and> nBlockFork < XST_FORKQPOS
         then (if GetBlockTime b > uint (tx_nTime (t ! 0)) + nMaxClockDrift then Reject 50 else Accept ())
         else if t \<noteq> [] \<and> HasTimestamp (t ! 0) \<and> \<not> IsProofOfWork b \<and> GetBlockTime b > FutureDrift (uint (tx_nTime (t ! 0)))
         then Reject 50
         else Accept ())"

text \<open>The coinstake of a proof-of-stake block, and the signature.\<close>

definition CheckBlock_stake :: "blkchk_env \<Rightarrow> QPRegistry \<Rightarrow> CBlock \<Rightarrow> bool \<Rightarrow> unit verdict" where
  "CheckBlock_stake env r b fCheckSig =
     (let t = vtx b
      in if IsProofOfStake b \<and> (length (vout (t ! 0)) \<noteq> 1 \<or> \<not> CTxOut_IsEmpty (vout (t ! 0) ! 0)) then Reject 100
         else if IsProofOfStake b \<and> \<not> IsCoinStake (t ! 1) then Reject 100
         else if IsProofOfStake b \<and> list_ex IsCoinStake (drop 2 t) then Reject 100
         else if IsProofOfStake b \<and> HasTimestamp (t ! 1) \<and>
                 \<not> CheckCoinStakeTimestamp (GetBlockTime b) (uint (tx_nTime (t ! 1))) then Reject 50
         else if IsProofOfStake b \<and> bc_fork env (te_nBestHeight (bc_tx env) + 1) \<ge> XST_FORK002 \<and> IsProofOfWork b then Reject 100
         else if IsProofOfStake b \<and> fCheckSig \<and> \<not> CheckBlockSignature env r b then Reject 100
         else if IsQuantumProofOfStake b \<and> fCheckSig \<and> \<not> CheckBlockSignature env r b then Reject 100
         else Accept ())"

fun CheckBlock_txs :: "blkchk_env \<Rightarrow> CBlock \<Rightarrow> CTransaction list \<Rightarrow> unit verdict" where
  "CheckBlock_txs env b [] = Accept ()"
| "CheckBlock_txs env b (tx # txs) =
     (case CheckTransaction (bc_tx env) tx (blk_nHeight b) of
        Inl nDoS \<Rightarrow> Reject nDoS
      | Inr _ \<Rightarrow> if HasTimestamp tx \<and> GetBlockTime b < uint (tx_nTime tx) then Reject 50
                  else CheckBlock_txs env b txs)"

definition CheckBlock_body :: "blkchk_env \<Rightarrow> CBlock \<Rightarrow> bool \<Rightarrow> unit verdict" where
  "CheckBlock_body env b fCheckMerkleRoot =
     (case CheckBlock_txs env b (vtx b) of
        Accept _ \<Rightarrow>
          if \<not> distinct (map (GetHash (bc_tx env)) (vtx b)) then Reject 100
          else if fold (\<lambda>tx n. n + GetLegacySigOpCount tx) (vtx b) 0 > MAX_BLOCK_SIGOPS then Reject 100
          else if fCheckMerkleRoot \<and> blk_hashMerkleRoot b \<noteq> fst (BuildMerkleTree (bc_tx env) b) then Reject 100
          else Accept ()
      | v \<Rightarrow> v)"

text \<open>Equality of transactions, and the inputs from earlier transactions of the same block.\<close>

definition tx_equal :: "CTransaction \<Rightarrow> CTransaction \<Rightarrow> bool" where
  "tx_equal a b =
     (if HasTimestamp a \<and> HasTimestamp b \<and> tx_nTime a \<noteq> tx_nTime b then False
      else nVersion a = nVersion b \<and> vin a = vin b \<and> vout a = vout b \<and> nLockTime a = nLockTime b)"

fun prefill_input :: "tx_env \<Rightarrow> CTransaction \<Rightarrow> uint256 \<Rightarrow> CTransaction list \<Rightarrow> MapPrevTx \<Rightarrow> MapPrevTx" where
  "prefill_input env tx h [] mapInputs = mapInputs"
| "prefill_input env tx h (tx2 # txs) mapInputs =
     (if tx_equal tx2 tx then mapInputs
      else prefill_input env tx h txs
             (if GetHash env tx2 = h
              then om_put h (CTxIndex_new CDiskTxPos_SetNull (length (vout tx)), tx) mapInputs else mapInputs))"

definition prefill_inputs :: "tx_env \<Rightarrow> CTransaction \<Rightarrow> CTransaction list \<Rightarrow> MapPrevTx" where
  "prefill_inputs env tx txs = fold (\<lambda>txin. prefill_input env tx (op_hash (prevout txin)) txs) (vin tx) []"

definition index_of :: "CDiskBlockIndex \<Rightarrow> uint256 \<Rightarrow> CBlockIndex" where
  "index_of d h = \<lparr>bi_nHeight = db_nHeight d, bi_nTime = db_nTime d, bi_nStakerID = db_nStakerID d, bi_hashBlock = h,
     bi_nMoneySupply = db_nMoneySupply d, bi_vDeets = db_vDeets d\<rparr>"

text \<open>One transaction of the loop over qPoS operations; a failure names the transaction that leaves the memory pool.\<close>

fun CheckBlock_ops ::
  "blkchk_env \<Rightarrow> CTxDB \<Rightarrow> QPRegistry \<Rightarrow> CBlock \<Rightarrow> CBlockIndex \<Rightarrow> CTransaction list \<Rightarrow> qp_checked \<Rightarrow>
   qp_checked verdict \<times> CTransaction list" where
  "CheckBlock_ops env db r b pindexPrev [] ck = (Accept ck, [])"
| "CheckBlock_ops env db r b pindexPrev (tx # txs) ck =
     (case GetQPTxDetails (bc_chk env) tx (block_hash env b) of
        None \<Rightarrow> (Abort, [])
      | Some (fNeedsInputs, vDeets) \<Rightarrow>
          (case (if fNeedsInputs
                 then FetchInputs (bc_led env) db [] False False tx (prefill_inputs (bc_tx env) tx (vtx b))
                 else (False, Accept [])) of
             (fInvalid, Abort) \<Rightarrow> (Abort, [])
           | (fInvalid, Reject _) \<Rightarrow> (Reject (if fInvalid then 50 else 0), [tx])
           | (_, Accept mapInputs) \<Rightarrow>
               (case CheckQPoS (bc_chk env) r tx mapInputs (blk_nTime b) vDeets pindexPrev ck of
                  Abort \<Rightarrow> (Abort, [])
                | Reject _ \<Rightarrow> (Reject 0, [tx])
                | Accept ck \<Rightarrow> CheckBlock_ops env db r b pindexPrev txs ck)))"

text \<open>The operations of all transactions, as the constructor of a block index collects them.\<close>

fun block_deets :: "blkchk_env \<Rightarrow> uint256 \<Rightarrow> CTransaction list \<Rightarrow> QPTxDetails list option" where
  "block_deets env h [] = Some []"
| "block_deets env h (tx # txs) = do {
     (_, ds) \<leftarrow> GetQPTxDetails (bc_chk env) tx h;
     rest \<leftarrow> block_deets env h txs;
     Some (ds @ rest) }"

definition CheckBlock_qpos ::
  "blkchk_env \<Rightarrow> CTxDB \<Rightarrow> QPRegistry \<Rightarrow> CBlock \<Rightarrow> CBlockIndex \<Rightarrow> QPTxDetails list verdict \<times> CTransaction list" where
  "CheckBlock_qpos env db r b pindexPrev =
     (case CheckBlock_ops env db r b pindexPrev (vtx b)
             \<lparr>ck_purchases = [], ck_setkeys = [], ck_claims = [], ck_deets = []\<rparr> of
        (Accept ck, gone) \<Rightarrow>
          (case block_deets env (block_hash env b) (vtx b) of
             None \<Rightarrow> (Abort, gone)
           | Some vDeets \<Rightarrow>
               (case UpdateOnNewBlock (bc_qp env) (r\<lparr>mapCertifiedNodes := []\<rparr>)
                       \<lparr>bi_nHeight = blk_nHeight b, bi_nTime = blk_nTime b, bi_nStakerID = blk_nStakerID b,
                        bi_hashBlock = block_hash env b, bi_nMoneySupply = 0, bi_vDeets = vDeets\<rparr>
                       pindexPrev NO_SNAPS True of
                  Some (_, Returned True _) \<Rightarrow> (Accept (ck_deets ck), gone)
                | Some (_, Returned False _) \<Rightarrow> (Reject 0, gone)
                | _ \<Rightarrow> (Abort, gone)))
      | (Reject n, gone) \<Rightarrow> (Reject n, gone)
      | (Abort, gone) \<Rightarrow> (Abort, gone))"

definition CheckBlock ::
  "blkchk_env \<Rightarrow> CTxDB \<Rightarrow> QPRegistry \<Rightarrow> CBlock \<Rightarrow> CBlockMemIndex \<Rightarrow> bool \<Rightarrow> bool \<Rightarrow> bool \<Rightarrow> bool \<Rightarrow>
   QPTxDetails list verdict \<times> QPRegistry \<times> CTransaction list" where
  "CheckBlock env db r b pmemIndexPrev fCheckPOW fCheckMerkleRoot fCheckSig fCheckQPoS =
     (case txdb_block db (mi_hash pmemIndexPrev) of
        None \<Rightarrow> (Abort, r, [])
      | Some diskIndexPrev \<Rightarrow>
          let nThisHeight = db_nHeight diskIndexPrev + 1
          in case CheckBlock_header env r b nThisHeight fCheckPOW fCheckQPoS of
               (Abort, r) \<Rightarrow> (Abort, r, [])
             | (Reject n, r) \<Rightarrow> (Reject n, r, [])
             | (Accept _, r) \<Rightarrow>
                 (case CheckBlock_kinds env b nThisHeight of
                    Abort \<Rightarrow> (Abort, r, [])
                  | Reject n \<Rightarrow> (Reject n, r, [])
                  | Accept _ \<Rightarrow>
                      (case CheckBlock_stake env r b fCheckSig of
                         Abort \<Rightarrow> (Abort, r, [])
                       | Reject n \<Rightarrow> (Reject n, r, [])
                       | Accept _ \<Rightarrow>
                           (case CheckBlock_body env b fCheckMerkleRoot of
                              Abort \<Rightarrow> (Abort, r, [])
                            | Reject n \<Rightarrow> (Reject n, r, [])
                            | Accept _ \<Rightarrow>
                                if fCheckQPoS
                                then (case CheckBlock_qpos env db r b (index_of diskIndexPrev (mi_hash pmemIndexPrev)) of
                                        (v, gone) \<Rightarrow> (v, r, gone))
                                else (Accept [], r, [])))))"

section \<open>Connecting a block\<close>

text \<open>The running totals of \<open>ConnectBlock\<close>, with the queued changes and the position of the next transaction.\<close>

record connect_state =
  cs_mapQueuedChanges :: tx_pool
  cs_nFees :: int
  cs_nValueIn :: int
  cs_nValueOut :: int
  cs_nValuePurchases :: int
  cs_nValueClaims :: int
  cs_nSigOps :: u32
  cs_nTxPos :: u32
  cs_buffer :: FeeworkBuffer

text \<open>A transaction may replace an older one with the same hash only if that is completely spent.\<close>

definition bip30_ok :: "CTxDB \<Rightarrow> uint256 \<Rightarrow> bool" where
  "bip30_ok db h = (case ReadTxIndex db h of
     None \<Rightarrow> True | Some txindexOld \<Rightarrow> \<not> list_ex CDiskTxPos_IsNull (ti_vSpent txindexOld))"

text \<open>Claim and purchases of a transaction that is not a coinstake: the value claimed, and the value of the purchases.\<close>

definition ConnectBlock_claim ::
  "blkchk_env \<Rightarrow> QPRegistry \<Rightarrow> CTransaction \<Rightarrow> MapPrevTx \<Rightarrow> int verdict" where
  "ConnectBlock_claim env r tx mapInputs =
     (if IsCoinStake tx then Accept 0
      else case CheckClaim (bc_chk env) r tx mapInputs ((ce_claim (bc_chk env))\<lparr>cl_value := 0\<rparr>) of
             (Accept _, claim) \<Rightarrow> Accept (cl_value claim)
           | (Reject _, _) \<Rightarrow> Reject 0
           | (Abort, _) \<Rightarrow> Abort)"

definition ConnectBlock_purchases ::
  "blkchk_env \<Rightarrow> QPRegistry \<Rightarrow> int \<Rightarrow> CTransaction \<Rightarrow> int verdict" where
  "ConnectBlock_purchases env r nMoneySupplyPrev tx =
     (if IsCoinStake tx then Accept 0
      else let nPrice = GetStakerPrice (te_fTestNet (bc_tx env)) (GetNumberQualifiedInternal r) nMoneySupplyPrev
                          (bc_fork env (te_nBestHeight (bc_tx env) + 1)) False
           in case CheckPurchases (bc_chk env) r nPrice tx of
                Accept mapPurchases \<Rightarrow> Accept (fold (\<lambda>(a, p) n. n + pu_value p) mapPurchases 0)
              | Reject _ \<Rightarrow> Reject 0
              | Abort \<Rightarrow> Abort)"

text \<open>
  A transaction with inputs. \<open>r\<close> is the registry the block is checked against and \<open>rMain\<close> the main registry,
  which \<open>GetValueIn\<close> asks for claims. The score of a transaction is not added to that of the block.
\<close>

definition ConnectBlock_spend ::
  "blkchk_env \<Rightarrow> CTxDB \<Rightarrow> QPRegistry \<Rightarrow> QPRegistry \<Rightarrow> CBlockMemIndex list \<Rightarrow> int \<Rightarrow> CDiskTxPos \<Rightarrow> CTransaction \<Rightarrow>
   connect_state \<Rightarrow> connect_state verdict" where
  "ConnectBlock_spend env db r rMain pchain nMoneySupplyPrev posThisTx tx cs =
     (let le = bc_led env; chk = bc_chk env; flags = verify_flags le (SCRIPT_VERIFY_NOCACHE OR STANDARD_SCRIPT_VERIFY_FLAGS)
      in case snd (FetchInputs le db (cs_mapQueuedChanges cs) True False tx []) of
           Abort \<Rightarrow> Abort
         | Reject _ \<Rightarrow> Reject 0
         | Accept mapInputs \<Rightarrow>
             (case GetP2SHSigOpCount tx mapInputs of
                None \<Rightarrow> Abort
              | Some nP2SH \<Rightarrow>
                  if cs_nSigOps cs + nP2SH > MAX_BLOCK_SIGOPS then Reject 100
                  else case ConnectBlock_claim env r tx mapInputs of
                         Abort \<Rightarrow> Abort
                       | Reject n \<Rightarrow> Reject n
                       | Accept nClaim \<Rightarrow>
                           (case (GetValueIn chk rMain tx mapInputs nClaim, GetValueOut tx) of
                              (Some nTxValueIn, Some nTxValueOut) \<Rightarrow>
                                (case ConnectBlock_purchases env r nMoneySupplyPrev tx of
                                   Abort \<Rightarrow> Abort
                                 | Reject n \<Rightarrow> Reject n
                                 | Accept nTxValuePurchases \<Rightarrow>
                                     (case ConnectInputs le db tx mapInputs (cs_mapQueuedChanges cs) posThisTx pchain True False
                                             flags nTxValuePurchases nClaim (Feework_SetNull, cs_buffer cs) True of
                                        Abort \<Rightarrow> Abort
                                      | Reject _ \<Rightarrow> Reject 0
                                      | Accept (mapQueuedChanges, _, buffer) \<Rightarrow>
                                          Accept (cs\<lparr>cs_mapQueuedChanges := mapQueuedChanges,
                                            cs_nFees := cs_nFees cs +
                                              (if IsCoinStake tx then 0 else nTxValueIn - (nTxValueOut + nTxValuePurchases)),
                                            cs_nValueIn := cs_nValueIn cs + nTxValueIn,
                                            cs_nValueOut := cs_nValueOut cs + nTxValueOut,
                                            cs_nValuePurchases := cs_nValuePurchases cs + nTxValuePurchases,
                                            cs_nValueClaims := cs_nValueClaims cs + nClaim,
                                            cs_nSigOps := cs_nSigOps cs + nP2SH, cs_buffer := buffer\<rparr>)))
                            | _ \<Rightarrow> Abort)))"

definition ConnectBlock_tx ::
  "blkchk_env \<Rightarrow> CTxDB \<Rightarrow> QPRegistry \<Rightarrow> QPRegistry \<Rightarrow> CBlockMemIndex list \<Rightarrow> int \<Rightarrow> bool \<Rightarrow> CTransaction \<Rightarrow>
   connect_state \<Rightarrow> connect_state verdict" where
  "ConnectBlock_tx env db r rMain pchain nMoneySupplyPrev fJustCheck tx cs =
     (let hashTx = GetHash (bc_tx env) tx;
          posThisTx = \<lparr>tp_nFile = mi_nFile (hd pchain), tp_nBlockPos = mi_nBlockPos (hd pchain), tp_nTxPos = cs_nTxPos cs\<rparr>;
          nSigOps = cs_nSigOps cs + GetLegacySigOpCount tx
      in if \<not> bip30_ok db hashTx then Reject 0
         else if nSigOps > MAX_BLOCK_SIGOPS then Reject 100
         else let cs = cs\<lparr>cs_nSigOps := nSigOps, cs_nTxPos := (if fJustCheck then cs_nTxPos cs else cs_nTxPos cs + size_tx tx)\<rparr>
              in case (if IsCoinBase tx
                       then (case GetValueOut tx of
                               None \<Rightarrow> Abort | Some v \<Rightarrow> Accept (cs\<lparr>cs_nValueOut := cs_nValueOut cs + v\<rparr>))
                       else ConnectBlock_spend env db r rMain pchain nMoneySupplyPrev posThisTx tx cs) of
                   Accept cs \<Rightarrow>
                     Accept (cs\<lparr>cs_mapQueuedChanges :=
                       om_put hashTx (CTxIndex_new posThisTx (length (vout tx))) (cs_mapQueuedChanges cs)\<rparr>)
                 | v \<Rightarrow> v)"

fun ConnectBlock_loop ::
  "blkchk_env \<Rightarrow> CTxDB \<Rightarrow> QPRegistry \<Rightarrow> QPRegistry \<Rightarrow> CBlockMemIndex list \<Rightarrow> int \<Rightarrow> bool \<Rightarrow> CTransaction list \<Rightarrow>
   connect_state \<Rightarrow> connect_state verdict" where
  "ConnectBlock_loop env db r rMain pchain nMoneySupplyPrev fJustCheck [] cs = Accept cs"
| "ConnectBlock_loop env db r rMain pchain nMoneySupplyPrev fJustCheck (tx # txs) cs =
     (case ConnectBlock_tx env db r rMain pchain nMoneySupplyPrev fJustCheck tx cs of
        Accept cs \<Rightarrow> ConnectBlock_loop env db r rMain pchain nMoneySupplyPrev fJustCheck txs cs
      | v \<Rightarrow> v)"

text \<open>The position of the first transaction: the header, without its two empty vectors, and the number of transactions.\<close>

definition first_tx_pos :: "int \<Rightarrow> u32 \<Rightarrow> nat \<Rightarrow> u32" where
  "first_tx_pos ver nBlockPos n =
     nBlockPos + size_block \<lparr>blk_nVersion = ver, blk_hashPrevBlock = 0, blk_hashMerkleRoot = 0, blk_nTime = 0, blk_nBits = 0,
       blk_nNonce = 0, blk_nHeight = 0, blk_nStakerID = 0, vtx = [], vchBlockSig = [], vMerkleTree = []\<rparr> -
     2 * GetSizeOfCompactSize 0 + GetSizeOfCompactSize (of_nat n)"

text \<open>Mint and money supply of the block, from the totals.\<close>

definition connect_books :: "CDiskBlockIndex \<Rightarrow> int \<Rightarrow> int \<Rightarrow> connect_state \<Rightarrow> CDiskBlockIndex" where
  "connect_books d nFork nMoneySupplyPrev cs =
     d\<lparr>db_nMint := (if Index_IsProofOfWork d
                    then cs_nValueOut cs + cs_nValuePurchases cs - (cs_nValueIn cs - cs_nValueClaims cs)
                    else cs_nValueOut cs + cs_nValuePurchases cs + cs_nFees cs - (cs_nValueIn cs - cs_nValueClaims cs)),
       db_nMoneySupply := (if nFork \<ge> XST_FORKPURCHASE3
                           then nMoneySupplyPrev + cs_nValueOut cs - (cs_nValueIn cs - cs_nValueClaims cs)
                           else nMoneySupplyPrev + cs_nValueOut cs -
                                (cs_nValuePurchases cs + cs_nValueIn cs - cs_nValueClaims cs))\<rparr>"

fun write_queued :: "led_env \<Rightarrow> tx_pool \<Rightarrow> CTxDB \<Rightarrow> CTxDB option" where
  "write_queued env [] db = Some db"
| "write_queued env ((h, txindex) # r) db =
     (case UpdateTxIndex env db h txindex of None \<Rightarrow> None | Some db \<Rightarrow> write_queued env r db)"

definition WriteDiskBlockIndex :: "blkchk_env \<Rightarrow> CTxDB \<Rightarrow> uint256 \<Rightarrow> CDiskBlockIndex \<Rightarrow> CTxDB option" where
  "WriteDiskBlockIndex env db h d =
     (if bc_write_block_ok env h then Some (db\<lparr>txdb_block := (txdb_block db)(h \<mapsto> d)\<rparr>) else None)"

text \<open>
  \<open>pchain\<close> starts with the block itself. Without a previous block the check of the block fails an assertion.
\<close>

definition ConnectBlock ::
  "blkchk_env \<Rightarrow> CTxDB \<Rightarrow> QPRegistry \<Rightarrow> QPRegistry \<Rightarrow> CBlock \<Rightarrow> CBlockMemIndex list \<Rightarrow> bool \<Rightarrow> FeeworkBuffer \<Rightarrow>
   CTxDB verdict \<times> QPRegistry" where
  "ConnectBlock env db r rMain b pchain fJustCheck buffer =
     (let pmemIndex = hd pchain; fPrev = (tl pchain \<noteq> [])
      in case (txdb_block db (mi_hash pmemIndex),
               if fPrev then txdb_block db (mi_hash (hd (tl pchain))) else None) of
           (None, _) \<Rightarrow> (Abort, r)
         | (Some diskIndex, None) \<Rightarrow> (Abort, r)
         | (Some diskIndex, Some diskIndexPrev) \<Rightarrow>
             (case CheckBlock env db r b (hd (tl pchain)) (\<not> fJustCheck) (\<not> fJustCheck) True (\<not> fJustCheck) of
                (Abort, r, _) \<Rightarrow> (Abort, r)
              | (Reject n, r, _) \<Rightarrow> (Reject n, r)
              | (Accept vDeets, r, _) \<Rightarrow>
                  (case ConnectBlock_loop env db r rMain pchain (db_nMoneySupply diskIndexPrev) fJustCheck (vtx b)
                          \<lparr>cs_mapQueuedChanges = [], cs_nFees = 0, cs_nValueIn = 0, cs_nValueOut = 0, cs_nValuePurchases = 0,
                           cs_nValueClaims = 0, cs_nSigOps = 0,
                           cs_nTxPos = (if fJustCheck then 1
                             else first_tx_pos (db_nVersion diskIndex) (mi_nBlockPos pmemIndex) (length (vtx b))),
                           cs_buffer = buffer\<rparr> of
                     Abort \<Rightarrow> (Abort, r)
                   | Reject n \<Rightarrow> (Reject n, r)
                   | Accept cs \<Rightarrow>
                       (case WriteDiskBlockIndex env db (mi_hash pmemIndex)
                               ((connect_books diskIndex (bc_fork env (te_nBestHeight (bc_tx env) + 1))
                                   (db_nMoneySupply diskIndexPrev) cs)\<lparr>db_vDeets := vDeets\<rparr>) of
                          None \<Rightarrow> (Reject 0, r)
                        | Some db \<Rightarrow>
                            if fJustCheck then (Accept db, r)
                            else (case write_queued (bc_led env) (cs_mapQueuedChanges cs) db of
                                    None \<Rightarrow> (Reject 0, r)
                                  | Some db \<Rightarrow>
                                      (case WriteDiskBlockIndex env db (mi_hash (hd (tl pchain)))
                                              (diskIndexPrev\<lparr>db_hashNext := mi_hash pmemIndex\<rparr>) of
                                         None \<Rightarrow> (Reject 0, r)
                                       | Some db \<Rightarrow> (Accept db, r)))))))"

section \<open>Disconnecting a block\<close>

fun DisconnectBlock_loop :: "led_env \<Rightarrow> CTransaction list \<Rightarrow> CTxDB \<Rightarrow> bool \<times> CTxDB" where
  "DisconnectBlock_loop env [] db = (True, db)"
| "DisconnectBlock_loop env (tx # txs) db =
     (case DisconnectInputs env tx db of
        (True, db) \<Rightarrow> DisconnectBlock_loop env txs db
      | (False, db) \<Rightarrow> (False, db))"

definition DisconnectBlock :: "blkchk_env \<Rightarrow> CTxDB \<Rightarrow> CBlock \<Rightarrow> CBlockMemIndex list \<Rightarrow> (bool \<times> CTxDB) option" where
  "DisconnectBlock env db b pchain =
     (case DisconnectBlock_loop (bc_led env) (rev (vtx b)) db of
        (False, db) \<Rightarrow> Some (False, db)
      | (True, db) \<Rightarrow>
          (case (if tl pchain = [] then Some (True, db)
                 else case txdb_block db (mi_hash (hd (tl pchain))) of
                        None \<Rightarrow> None
                      | Some diskIndexPrev \<Rightarrow>
                          (case WriteDiskBlockIndex env db (mi_hash (hd (tl pchain))) (diskIndexPrev\<lparr>db_hashNext := 0\<rparr>) of
                             None \<Rightarrow> Some (False, db) | Some db \<Rightarrow> Some (True, db))) of
             None \<Rightarrow> None
           | Some (False, db) \<Rightarrow> Some (False, db)
           | Some (True, db) \<Rightarrow> Some (True, fold (\<lambda>tx db. EraseTxIndex (bc_led env) db tx) (vtx b) db)))"

end
