(* ===== verification/MemPool.thy ===== *)
theory MemPool
  imports Ledger "HOL-Library.Product_Lexorder"
begin

text \<open>
  The memory pool: class \<open>CTxMemPool\<close> of \<^verbatim>\<open>src/blockchain/main.h\<close> and \<^verbatim>\<open>main.cpp\<close>. An output is the pair of
  the hash of its transaction and its index, ordered as the source orders \<open>COutPoint\<close>. A \<open>CInPoint\<close> points into
  \<open>mapTx\<close>: the pointer is the key of the entry, and following it to a missing entry is undefined behaviour. The global
  counter \<open>nTransactionsUpdated\<close> is a field.

  The record \<open>mp_env\<close> adds to the inputs of the ledger the script interpreter as \<open>AreInputsStandard\<close> calls it.
\<close>

section \<open>State\<close>

type_synonym outpoint = "uint256 \<times> u32"

abbreviation out_key :: "COutPoint \<Rightarrow> outpoint" where
  "out_key p \<equiv> (op_hash p, op_n p)"

record CInPoint =
  ip_ptx :: uint256
  ip_n :: u32

record CTxMemPool =
  mapTx :: "(uint256, CTransaction) omap"
  mapNextTx :: "(outpoint, CInPoint) omap"
  mapClaims :: "(uint256, CPubKey) omap"
  mapRegistrations :: "(uint256, string list) omap"
  mapFeeless :: "(int, uint256 list) omap"
  nTransactionsUpdated :: u32

definition CTxMemPool_new :: CTxMemPool where
  "CTxMemPool_new = \<lparr>mapTx = [], mapNextTx = [], mapClaims = [], mapRegistrations = [], mapFeeless = [],
     nTransactionsUpdated = 0\<rparr>"

record mp_env =
  mp_led :: led_env
  mp_EvalScript :: "valtype \<Rightarrow> CTransaction \<Rightarrow> nat \<Rightarrow> valtype list option"

abbreviation mp_chk :: "mp_env \<Rightarrow> chk_env" where "mp_chk env \<equiv> le_chk (mp_led env)"
abbreviation mp_tx :: "mp_env \<Rightarrow> tx_env" where "mp_tx env \<equiv> le_tx (mp_led env)"

text \<open>What the other parts see of the pool.\<close>

definition pool_env :: "mp_env \<Rightarrow> CTxMemPool \<Rightarrow> led_env" where
  "pool_env env p = (mp_led env)\<lparr>le_mempool := map_of (mapTx p)\<rparr>"

section \<open>Adding and removing\<close>

text \<open>The loop of \<open>addUnchecked\<close> over the inputs; \<open>i\<close> is the index of the first one.\<close>

fun add_inputs :: "uint256 \<Rightarrow> CTxIn list \<Rightarrow> nat \<Rightarrow> (outpoint, CInPoint) omap \<Rightarrow> (outpoint, CInPoint) omap" where
  "add_inputs hash [] i m = m"
| "add_inputs hash (txin # r) i m =
     add_inputs hash r (i + 1) (om_put (out_key (prevout txin)) \<lparr>ip_ptx = hash, ip_n = of_nat i\<rparr> m)"

definition addUnchecked :: "uint256 \<Rightarrow> CTransaction \<Rightarrow> CTxMemPool \<Rightarrow> CTxMemPool" where
  "addUnchecked hash tx p =
     p\<lparr>mapTx := om_put hash tx (mapTx p), mapNextTx := add_inputs hash (vin tx) 0 (mapNextTx p),
       nTransactionsUpdated := nTransactionsUpdated p + 1\<rparr>"

text \<open>The part of \<open>remove\<close> that erases the transaction itself, and the part that is always done.\<close>

definition erase_tx :: "uint256 \<Rightarrow> CTransaction \<Rightarrow> CTxMemPool \<Rightarrow> CTxMemPool" where
  "erase_tx hash tx p =
     p\<lparr>mapNextTx := fold (\<lambda>txin. om_erase (out_key (prevout txin))) (vin tx) (mapNextTx p),
       mapTx := om_erase hash (mapTx p), nTransactionsUpdated := nTransactionsUpdated p + 1\<rparr>"

definition forget_tx :: "uint256 \<Rightarrow> CTxMemPool \<Rightarrow> CTxMemPool" where
  "forget_tx hash p =
     p\<lparr>mapClaims := om_erase hash (mapClaims p), mapRegistrations := om_erase hash (mapRegistrations p)\<rparr>"

text \<open>
  The loop over the outputs, which removes the transactions that spend them with the given function; \<open>None\<close> is a
  dangling pointer.
\<close>

fun remove_spenders ::
  "(CTransaction \<Rightarrow> CTxMemPool \<Rightarrow> CTxMemPool option) \<Rightarrow> uint256 \<Rightarrow> nat list \<Rightarrow> CTxMemPool \<Rightarrow> CTxMemPool option" where
  "remove_spenders remv hash [] p = Some p"
| "remove_spenders remv hash (i # is) p =
     (case map_of (mapNextTx p) (hash, of_nat i) of
        None \<Rightarrow> remove_spenders remv hash is p
      | Some it \<Rightarrow>
          (case map_of (mapTx p) (ip_ptx it) of
             None \<Rightarrow> None
           | Some tx \<Rightarrow> (case remv tx p of None \<Rightarrow> None | Some p \<Rightarrow> remove_spenders remv hash is p)))"

text \<open>The recursion is bounded by its first argument; \<open>None\<close> also stands for reaching the bound.\<close>

fun remove_rec :: "nat \<Rightarrow> tx_env \<Rightarrow> bool \<Rightarrow> CTransaction \<Rightarrow> CTxMemPool \<Rightarrow> CTxMemPool option" where
  "remove_rec 0 env fRecursive tx p = None"
| "remove_rec (Suc n) env fRecursive tx p =
     (let hash = GetHash env tx
      in if om_count hash (mapTx p)
         then (case (if fRecursive then remove_spenders (remove_rec n env True) hash [0..<length (vout tx)] p else Some p) of
                 None \<Rightarrow> None
               | Some p \<Rightarrow> Some (forget_tx hash (erase_tx hash tx p)))
         else Some (forget_tx hash p))"

definition pool_remove :: "tx_env \<Rightarrow> CTransaction \<Rightarrow> bool \<Rightarrow> CTxMemPool \<Rightarrow> CTxMemPool option" where
  "pool_remove env tx fRecursive p = remove_rec (length (mapTx p) + 1) env fRecursive tx p"

fun removeConflicts_loop :: "tx_env \<Rightarrow> CTransaction \<Rightarrow> CTxIn list \<Rightarrow> CTxMemPool \<Rightarrow> CTxMemPool option" where
  "removeConflicts_loop env tx [] p = Some p"
| "removeConflicts_loop env tx (txin # r) p =
     (case map_of (mapNextTx p) (out_key (prevout txin)) of
        None \<Rightarrow> removeConflicts_loop env tx r p
      | Some it \<Rightarrow>
          (case map_of (mapTx p) (ip_ptx it) of
             None \<Rightarrow> None
           | Some txConflict \<Rightarrow>
               if \<not> tx_equal txConflict tx
               then (case pool_remove env txConflict True p of
                       None \<Rightarrow> None
                     | Some p \<Rightarrow> removeConflicts_loop env tx r p)
               else removeConflicts_loop env tx r p))"

definition removeConflicts :: "tx_env \<Rightarrow> CTransaction \<Rightarrow> CTxMemPool \<Rightarrow> CTxMemPool option" where
  "removeConflicts env tx p = removeConflicts_loop env tx (vin tx) p"

definition pool_clear :: "CTxMemPool \<Rightarrow> CTxMemPool" where
  "pool_clear p = p\<lparr>mapTx := [], mapNextTx := [], nTransactionsUpdated := nTransactionsUpdated p + 1\<rparr>"

definition queryHashes :: "CTxMemPool \<Rightarrow> uint256 list" where
  "queryHashes p = map fst (mapTx p)"

definition pool_size :: "CTxMemPool \<Rightarrow> nat" where
  "pool_size p = length (mapTx p)"

definition pool_exists :: "CTxMemPool \<Rightarrow> uint256 \<Rightarrow> bool" where
  "pool_exists p hash = om_count hash (mapTx p)"

definition pool_lookup :: "CTxMemPool \<Rightarrow> uint256 \<Rightarrow> CTransaction option" where
  "pool_lookup p hash = map_of (mapTx p) hash"

text \<open>The loop over a set of hashes that \<open>removeInvalidPurchases\<close> and \<open>removeOldFeeless\<close> share.\<close>

fun remove_all :: "tx_env \<Rightarrow> uint256 list \<Rightarrow> CTxMemPool \<Rightarrow> CTxMemPool option" where
  "remove_all env [] p = Some p"
| "remove_all env (txid # r) p =
     (case map_of (mapTx p) txid of
        None \<Rightarrow> remove_all env r p
      | Some tx \<Rightarrow> (case pool_remove env tx False p of None \<Rightarrow> None | Some p \<Rightarrow> remove_all env r p))"

section \<open>Purchases that became invalid\<close>

text \<open>
  The hashes of the transactions to remove, in ascending order; \<open>None\<close> is an undefined read. A transaction whose
  purchases fail the check is removed whatever the second loop finds in the purchases gathered so far.
\<close>

fun invalid_purchases :: "chk_env \<Rightarrow> QPRegistry \<Rightarrow> int \<Rightarrow> (uint256, CTransaction) omap \<Rightarrow> uint256 list option" where
  "invalid_purchases env r nStakerPrice [] = Some []"
| "invalid_purchases env r nStakerPrice ((h, tx) # m) =
     (case CheckPurchases env r nStakerPrice tx of
        Abort \<Rightarrow> None
      | Reject _ \<Rightarrow> map_option (Cons h) (invalid_purchases env r nStakerPrice m)
      | Accept mapPurchases \<Rightarrow>
          map_option (\<lambda>hs. if list_ex (\<lambda>(name, _). AliasIsAvailableInternal r name = None) mapPurchases then h # hs else hs)
            (invalid_purchases env r nStakerPrice m))"

definition removeInvalidPurchases :: "chk_env \<Rightarrow> QPRegistry \<Rightarrow> CBlockIndex \<Rightarrow> CTxMemPool \<Rightarrow> (nat \<times> CTxMemPool) option" where
  "removeInvalidPurchases env r pindexBest p =
     (let nStakerPrice = GetStakerPrice (te_fTestNet (ce_tx env)) (GetNumberQualifiedInternal r) (bi_nMoneySupply pindexBest)
            (ce_fork env (bi_nHeight pindexBest + 1)) False
      in case invalid_purchases env r nStakerPrice (mapTx p) of
           None \<Rightarrow> None
         | Some setToRemove \<Rightarrow> map_option (Pair (length setToRemove)) (remove_all (ce_tx env) setToRemove p))"

section \<open>Feeless transactions\<close>

definition addFeeless :: "int \<Rightarrow> uint256 \<Rightarrow> CTxMemPool \<Rightarrow> bool \<times> CTxMemPool" where
  "addFeeless nHeight txid p =
     (let s = om_at [] (mapFeeless p) nHeight
      in (txid \<notin> set s, p\<lparr>mapFeeless := om_put nHeight (insort_insert txid s) (mapFeeless p)\<rparr>))"

definition removeOldFeeless :: "tx_env \<Rightarrow> CTxMemPool \<Rightarrow> (nat \<times> CTxMemPool) option" where
  "removeOldFeeless env p =
     (let old = takeWhile (\<lambda>(h, _). \<not> te_nBestHeight env - h \<le> FEELESS_MAX_DEPTH) (mapFeeless p);
          setTxToRemove = fold insort_insert (concat (map snd old)) [];
          setHeightToRemove = map fst old
      in map_option
           (\<lambda>p. (length setTxToRemove, p\<lparr>mapFeeless := fold om_erase setHeightToRemove (mapFeeless p)\<rparr>))
           (remove_all env setTxToRemove p))"

section \<open>Standard inputs\<close>

fun AreInputsStandard_loop :: "mp_env \<Rightarrow> CTransaction \<Rightarrow> MapPrevTx \<Rightarrow> CTxIn list \<Rightarrow> nat \<Rightarrow> bool verdict" where
  "AreInputsStandard_loop env tx mapInputs [] i = Accept True"
| "AreInputsStandard_loop env tx mapInputs (txin # r) i =
     (case GetOutputFor txin mapInputs of
        None \<Rightarrow> Abort
      | Some prev \<Rightarrow>
          (case Solver (scriptPubKey prev) [] of
             (ok, whichType, vSolutions) \<Rightarrow>
               let nArgsExpected = ScriptSigArgsExpected whichType vSolutions
               in if \<not> ok then Accept False
                  else if nArgsExpected < 0 then Accept False
                  else case mp_EvalScript env (scriptSig txin) tx i of
                         None \<Rightarrow> Accept False
                       | Some stack \<Rightarrow>
                           if whichType = TX_SCRIPTHASH
                           then if stack = [] then Accept False
                                else (case Solver (last stack) [] of
                                        (ok2, whichType2, vSolutions2) \<Rightarrow>
                                          let tmpExpected = ScriptSigArgsExpected whichType2 vSolutions2
                                          in if \<not> ok2 then Accept False
                                             else if whichType2 = TX_SCRIPTHASH then Accept False
                                             else if tmpExpected < 0 then Accept False
                                             else if int (length stack) \<noteq> nArgsExpected + tmpExpected then Accept False
                                             else AreInputsStandard_loop env tx mapInputs r (i + 1))
                           else if int (length stack) \<noteq> nArgsExpected then Accept False
                           else AreInputsStandard_loop env tx mapInputs r (i + 1)))"

definition AreInputsStandard :: "mp_env \<Rightarrow> CTransaction \<Rightarrow> MapPrevTx \<Rightarrow> bool verdict" where
  "AreInputsStandard env tx mapInputs =
     (if IsCoinBase tx then Accept True else AreInputsStandard_loop env tx mapInputs (vin tx) 0)"

section \<open>Accepting a transaction\<close>

text \<open>The checks up to the conflicts with pooled transactions.\<close>

definition accept_new :: "mp_env \<Rightarrow> CTxDB \<Rightarrow> CTransaction \<Rightarrow> bool \<Rightarrow> CTxMemPool \<Rightarrow> unit verdict" where
  "accept_new env db tx fCheckInputs p =
     (let nNewHeight = te_nBestHeight (mp_tx env) + 1; hash = GetHash (mp_tx env) tx
      in case CheckTransaction (mp_tx env) tx nNewHeight of
           Inl dos \<Rightarrow> Reject dos
         | Inr _ \<Rightarrow>
             if IsCoinBase tx then Reject 100
             else if IsCoinStake tx then Reject 100
             else if \<not> te_fTestNet (mp_tx env) \<and> \<not> IsStandard (mp_tx env) tx nNewHeight then Reject 0
             else if om_count hash (mapTx p) then Reject 0
             else if fCheckInputs \<and> ContainsTx db hash then Reject 0
             else if list_ex (\<lambda>txin. om_count (out_key (prevout txin)) (mapNextTx p)) (vin tx) then Reject 0
             else Accept ())"

text \<open>The purchases: their value, and the pool in which their aliases are reserved.\<close>

definition accept_purchases ::
  "mp_env \<Rightarrow> QPRegistry \<Rightarrow> CBlockIndex \<Rightarrow> CTransaction \<Rightarrow> CTxMemPool \<Rightarrow> (int \<times> CTxMemPool) verdict" where
  "accept_purchases env r pindexBest tx p =
     (let hash = GetHash (mp_tx env) tx;
          nStakerPrice = GetStakerPrice (te_fTestNet (mp_tx env)) (GetNumberQualifiedInternal r) (bi_nMoneySupply pindexBest)
            (ce_fork (mp_chk env) (te_nBestHeight (mp_tx env) + 1)) False
      in case CheckPurchases (mp_chk env) r nStakerPrice tx of
           Abort \<Rightarrow> Abort
         | Reject n \<Rightarrow> Reject n
         | Accept mapNames \<Rightarrow>
             if mapNames = [] then Accept (0, p)
             else if om_count hash (mapRegistrations p) then Reject 0
             else if list_ex (\<lambda>(_, names). list_ex (\<lambda>n. om_count n mapNames) names) (mapRegistrations p) then Reject 0
             else Accept (sum_list (map (pu_value \<circ> snd) mapNames),
                    p\<lparr>mapRegistrations := om_put hash (map fst mapNames) (mapRegistrations p)\<rparr>))"

text \<open>The claim; its value.\<close>

definition accept_claim ::
  "mp_env \<Rightarrow> QPRegistry \<Rightarrow> CTransaction \<Rightarrow> MapPrevTx \<Rightarrow> CTxMemPool \<Rightarrow> int verdict" where
  "accept_claim env r tx mapInputs p =
     (case CheckClaim (mp_chk env) r tx mapInputs (ce_claim (mp_chk env)) of
        (Abort, _) \<Rightarrow> Abort
      | (Reject n, _) \<Rightarrow> Reject n
      | (Accept _, claim) \<Rightarrow>
          if cl_value claim > 0
          then if list_ex (\<lambda>(_, key). key = cl_key claim) (mapClaims p) then Reject 0
               else if \<not> CanClaimInternal (ce_qp (mp_chk env)) r (cl_key claim) (cl_value claim) 0 then Reject 0
               else Accept (cl_value claim)
          else Accept (cl_value claim))"

definition accept_qpos ::
  "mp_env \<Rightarrow> QPRegistry \<Rightarrow> CBlockIndex \<Rightarrow> CTransaction \<Rightarrow> MapPrevTx \<Rightarrow> unit verdict" where
  "accept_qpos env r pindexBest tx mapInputs =
     (case GetQPTxDetails (mp_chk env) tx 0 of
        None \<Rightarrow> Abort
      | Some (_, vDeets) \<Rightarrow>
          if vDeets = [] then Accept ()
          else if HasFeework tx then Reject 0
          else case CheckQPoS (mp_chk env) r tx mapInputs (word_of_int (te_AdjustedTime (mp_tx env))) vDeets pindexBest
                      \<lparr>ck_purchases = [], ck_setkeys = [], ck_claims = [], ck_deets = []\<rparr> of
                 Abort \<Rightarrow> Abort
               | Reject n \<Rightarrow> Reject n
               | Accept _ \<Rightarrow> Accept ())"

text \<open>The fee, or a work proof in its place.\<close>

definition accept_fee ::
  "mp_env \<Rightarrow> CTxDB \<Rightarrow> CTransaction \<Rightarrow> CBlockMemIndex list \<Rightarrow> CTxMemPool \<Rightarrow> int \<Rightarrow> Feework \<times> FeeworkBuffer \<Rightarrow>
   (Feework \<times> FeeworkBuffer) verdict" where
  "accept_fee env db tx pchain p nFees = (\<lambda>(feework, buffer).
     if nFees < GetMinFee 1000 GMF_RELAY (ucast (fw_bytes feework))
     then (case CheckFeework_at (pool_env env p) db tx feework True buffer pchain 1000 GMF_RELAY of
             None \<Rightarrow> Abort
           | Some (dos, feework, buffer) \<Rightarrow>
               (case fw_status feework of
                  FW_OK \<Rightarrow> Accept (feework, buffer)
                | FW_BLOCKUNKNOWN \<Rightarrow> Reject dos
                | _ \<Rightarrow> Reject (dos + 100)))
     else Accept (feework, buffer))"

text \<open>The checks of the inputs, which \<open>fCheckInputs\<close> turns on.\<close>

definition accept_inputs ::
  "mp_env \<Rightarrow> CTxDB \<Rightarrow> QPRegistry \<Rightarrow> CTransaction \<Rightarrow> MapPrevTx \<Rightarrow> CBlockMemIndex list \<Rightarrow> CTxMemPool \<Rightarrow> int \<Rightarrow> int \<Rightarrow>
   Feework \<times> FeeworkBuffer \<Rightarrow> (Feework \<times> FeeworkBuffer) verdict" where
  "accept_inputs env db r tx mapInputs pchain p nValuePurchases nClaim fb =
     (case AreInputsStandard env tx mapInputs of
        Abort \<Rightarrow> Abort
      | Reject n \<Rightarrow> Reject n
      | Accept fStandard \<Rightarrow>
          if \<not> fStandard \<and> \<not> te_fTestNet (mp_tx env) then Reject 0
          else (case (GetValueIn (mp_chk env) r tx mapInputs nClaim, GetValueOut tx) of
                  (Some nIn, Some nOut) \<Rightarrow>
                    (case accept_fee env db tx pchain p (nIn - (nOut + nValuePurchases)) fb of
                       Abort \<Rightarrow> Abort
                     | Reject n \<Rightarrow> Reject n
                     | Accept fb \<Rightarrow>
                         (case ConnectInputs (pool_env env p) db tx mapInputs [] POS_MEMPOOL pchain False False
                                 (verify_flags (mp_led env) STANDARD_SCRIPT_VERIFY_FLAGS) nValuePurchases nClaim fb False of
                            Abort \<Rightarrow> Abort
                          | Reject n \<Rightarrow> Reject n
                          | Accept (_, fb) \<Rightarrow> Accept fb))
                | _ \<Rightarrow> Abort))"

text \<open>The last check of the work proof.\<close>

definition accept_feework ::
  "mp_env \<Rightarrow> CTxDB \<Rightarrow> CTransaction \<Rightarrow> CBlockMemIndex list \<Rightarrow> CTxMemPool \<Rightarrow> Feework \<times> FeeworkBuffer \<Rightarrow>
   (Feework \<times> FeeworkBuffer) verdict" where
  "accept_feework env db tx pchain p = (\<lambda>(feework, buffer).
     if fw_status feework = FW_UNCHECKED
     then (case txdb_block db (mi_hash (hd pchain)) of
             None \<Rightarrow> Abort
           | Some diskIndex \<Rightarrow>
               (case CheckFeework (feework_env (pool_env env p) db) tx feework False buffer (db_nHeight diskIndex)
                       (map mi_hash pchain) 1 GMF_BLOCK True False of
                  None \<Rightarrow> Abort
                | Some (Inl dos, _) \<Rightarrow> Reject dos
                | Some (Inr _, fb) \<Rightarrow> Accept fb))
     else Accept (feework, buffer))"

definition accept_store :: "uint256 \<Rightarrow> CTransaction \<Rightarrow> Feework \<Rightarrow> CTxMemPool \<Rightarrow> CTxMemPool" where
  "accept_store hash tx feework p =
     (let p = addUnchecked hash tx p
      in if fw_status feework = FW_OK then snd (addFeeless (fw_height feework) hash p) else p)"

text \<open>
  The verdict, \<open>*pfMissingInputs\<close>, and the pool, which a rejected transaction may have changed. The feework buffer
  is an argument: what an initialised buffer holds has no influence on a hash.
\<close>

definition pool_accept ::
  "mp_env \<Rightarrow> CTxDB \<Rightarrow> QPRegistry \<Rightarrow> CBlockIndex \<Rightarrow> CBlockMemIndex list \<Rightarrow> FeeworkBuffer \<Rightarrow> CTransaction \<Rightarrow> bool \<Rightarrow>
   CTxMemPool \<Rightarrow> unit verdict \<times> bool \<times> CTxMemPool" where
  "pool_accept env db r pindexBest pchain buffer tx fCheckInputs p =
     (case accept_new env db tx fCheckInputs p of
        Abort \<Rightarrow> (Abort, False, p)
      | Reject n \<Rightarrow> (Reject n, False, p)
      | Accept _ \<Rightarrow>
          (case accept_purchases env r pindexBest tx p of
             Abort \<Rightarrow> (Abort, False, p)
           | Reject n \<Rightarrow> (Reject n, False, p)
           | Accept (nValuePurchases, p) \<Rightarrow>
               (case FetchInputs (pool_env env p) db [] False False tx [] of
                  (_, Abort) \<Rightarrow> (Abort, False, p)
                | (fInvalid, Reject n) \<Rightarrow> (Reject n, \<not> fInvalid, p)
                | (_, Accept mapInputs) \<Rightarrow>
                    (case accept_claim env r tx mapInputs p of
                       Abort \<Rightarrow> (Abort, False, p)
                     | Reject n \<Rightarrow> (Reject n, False, p)
                     | Accept nClaim \<Rightarrow>
                         (case accept_qpos env r pindexBest tx mapInputs of
                            Abort \<Rightarrow> (Abort, False, p)
                          | Reject n \<Rightarrow> (Reject n, False, p)
                          | Accept _ \<Rightarrow>
                              let fb = (Feework_SetNull\<lparr>fw_bytes := ucast (size_tx tx)\<rparr>, buffer)
                              in case (if fCheckInputs
                                       then accept_inputs env db r tx mapInputs pchain p nValuePurchases nClaim fb
                                       else Accept fb) of
                                   Abort \<Rightarrow> (Abort, False, p)
                                 | Reject n \<Rightarrow> (Reject n, False, p)
                                 | Accept fb \<Rightarrow>
                                     (case accept_feework env db tx pchain p fb of
                                        Abort \<Rightarrow> (Abort, False, p)
                                      | Reject n \<Rightarrow> (Reject n, False, p)
                                      | Accept (feework, _) \<Rightarrow>
                                          (Accept (), False, accept_store (GetHash (mp_tx env) tx) tx feework p)))))))"

end
