(* ===== verification/QPRegistryInv.thy ===== *)
theory QPRegistryInv
  imports QPRegistryOps
begin

text \<open>
  Invariants of the registry under the operations of a block: identifiers and map order, NFT
  ownership, key reference counts, aliases, and non-negative balances. The locale \<open>block_ops\<close>
  lifts "one successful operation keeps the invariant" to whole blocks; it is interpreted on
  \<open>ApplyOp\<close> for each invariant. An operation that fails ends block processing, so nothing is
  claimed about the registry it leaves.
\<close>

section \<open>Sequences of operations\<close>

locale block_ops =
  fixes step :: "'op \<Rightarrow> 's \<Rightarrow> int \<times> 's"
    and inv :: "'s \<Rightarrow> bool"
    and admissible :: "'op \<Rightarrow> bool"
  assumes step_inv: "inv s \<Longrightarrow> admissible op \<Longrightarrow> step op s = (0, s') \<Longrightarrow> inv s'"
begin

fun run :: "'op list \<Rightarrow> 's \<Rightarrow> int \<times> 's" where
  "run [] s = (0, s)"
| "run (op # ops) s = (case step op s of (code, s') \<Rightarrow> if code \<noteq> 0 then (code, s') else run ops s')"

lemma run_inv: "inv s \<Longrightarrow> list_all admissible ops \<Longrightarrow> run ops s = (0, s') \<Longrightarrow> inv s'"
proof (induction ops arbitrary: s)
  case (Cons op ops)
  obtain code t where t: "step op s = (code, t)" by force
  with Cons.prems have "code = 0" "run ops t = (0, s')" by (auto split: if_splits)
  with Cons t step_inv [of s op t] show ?case by simp
qed simp

end

section \<open>Effect of each operation\<close>

lemma om_put_put [simp]: "om_put k v (om_put k w m) = om_put k v m"
  by (induction k w m rule: om_put.induct) auto

lemma Activate_simps [registry_defs]:
  "mapActive (ActivatePubKey r k p) = om_put k (om_at 0 (mapActive r) k + 1) (mapActive r)"
  "mapStakers (ActivatePubKey r k p) = mapStakers r"
  "mapAliases (ActivatePubKey r k p) = mapAliases r"
  "nIDCounter (ActivatePubKey r k p) = nIDCounter r"
  "mapNftOwners (ActivatePubKey r k p) = mapNftOwners r"
  "mapNftOwnerLookup (ActivatePubKey r k p) = mapNftOwnerLookup r"
  "queue (ActivatePubKey r k p) = queue r"
  "mapBalances (ActivatePubKey r k p) =
    (if om_at 0 (mapActive r) k = 0 then om_put k 0 (mapBalances r) else mapBalances r)"
  "mapLastClaim (ActivatePubKey r k p) =
    (if om_at 0 (mapActive r) k = 0 then om_put k (uint (bi_nTime p)) (mapLastClaim r)
     else mapLastClaim r)"
  by (auto simp: ActivatePubKey_def Let_def om_count_def om_at_def split: option.splits)

lemma Deactivate_True:
  "DeactivatePubKey r k = (True, r') \<longleftrightarrow>
    (\<exists>n \<ge> 1. map_of (mapActive r) k = Some n \<and> r' = r\<lparr>mapActive := om_put k (n - 1) (mapActive r)\<rparr>)"
  by (auto simp: DeactivatePubKey_def split: option.splits if_splits)

lemma snd_Deactivate_simps [registry_defs]:
  "mapStakers (snd (DeactivatePubKey r k)) = mapStakers r"
  "mapBalances (snd (DeactivatePubKey r k)) = mapBalances r"
  "mapLastClaim (snd (DeactivatePubKey r k)) = mapLastClaim r"
  "mapAliases (snd (DeactivatePubKey r k)) = mapAliases r"
  "nIDCounter (snd (DeactivatePubKey r k)) = nIDCounter r"
  "mapNftOwners (snd (DeactivatePubKey r k)) = mapNftOwners r"
  "mapNftOwnerLookup (snd (DeactivatePubKey r k)) = mapNftOwnerLookup r"
  "om_wf (mapActive r) \<Longrightarrow> om_wf (mapActive (snd (DeactivatePubKey r k)))"
  by (auto simp: DeactivatePubKey_def split: option.splits)

lemma put_staker_simps [registry_defs]:
  "mapStakers (put_staker i s r) = om_put i s (mapStakers r)"
  "mapBalances (put_staker i s r) = mapBalances r"
  "mapLastClaim (put_staker i s r) = mapLastClaim r"
  "mapActive (put_staker i s r) = mapActive r"
  "mapAliases (put_staker i s r) = mapAliases r"
  "nIDCounter (put_staker i s r) = nIDCounter r"
  "mapNftOwners (put_staker i s r) = mapNftOwners r"
  "mapNftOwnerLookup (put_staker i s r) = mapNftOwnerLookup r"
  by (simp_all add: put_staker_def)

text \<open>The new staker of a successful purchase.\<close>

lemma SetStakerNft_True:
  "SetStakerNft env r i n = (True, r') \<longleftrightarrow>
    om_count i (mapStakers r) \<and> om_count n (env_mapNfts env) \<and>
    \<not> om_count i (mapNftOwners r) \<and> \<not> om_count n (mapNftOwnerLookup r) \<and>
    r' = r\<lparr>mapNftOwners := om_put i n (mapNftOwners r),
           mapNftOwnerLookup := om_put n i (mapNftOwnerLookup r)\<rparr>"
  by (auto simp: SetStakerNft_def)

lemma SetAliasAt_True:
  "SetAliasAt r i a = (True, r') \<longleftrightarrow>
    sAlias (om_at QPStaker_default (mapStakers r) i) = '''' \<and>
    r' = put_staker i ((om_at QPStaker_default (mapStakers r) i)\<lparr>sAlias := a\<rparr>) r"
  by (auto simp: SetAliasAt_def SetAlias_def put_staker_def)

lemma PurchaseNft_True:
  assumes "PurchaseNft env r deet i sKey = (True, r')"
  obtains n a r1 where "SetStakerNft env r i n = (True, r1)" and "SetAliasAt r1 i a = (True, r')"
  using assms
  by (auto simp: PurchaseNft_def Let_def split: if_splits option.splits prod.splits bool.splits)

lemma PurchaseKeys_of_deet:
  assumes "QPStaker_of_deet deet = Some s0" and "PurchaseKeys deet s0 = Some s"
  shows "staker_wf s" "sAlias s = ''''" "\<not> IsDisqualified s"
  using assms
  by (auto simp: PurchaseKeys_def QPStaker_of_deet_def QPStaker_Reset_def staker_wf_def IsDisqualified_def
      SetDelegatePayout_def Let_def not_less split: if_splits list.splits prod.splits bool.splits)

text \<open>
  A successful purchase, spelled out: a fresh identifier, one staker under it, one NFT, the
  manager and delegate keys activated in this order (and the owner key first on the test
  network before \<open>XST_FORKMISSFIX\<close>), and one alias.
\<close>

definition PurchaseActivate ::
  "qp_env \<Rightarrow> CBlockIndex \<Rightarrow> QPStaker \<Rightarrow> QPRegistry \<Rightarrow> QPRegistry" where
  "PurchaseActivate env pindex s r =
     (let r = (if env_fTestNet env \<and> fork_at env (bi_nHeight pindex) < XST_FORKMISSFIX
               then ActivatePubKey r (pubkeyOwner s) pindex else r);
          r = ActivatePubKey r (pubkeyManager s) pindex
      in ActivatePubKey r (pubkeyDelegate s) pindex)"

lemma ApplyPurchase_True:
  assumes "ApplyPurchase env r deet pindex = (True, r')"
  obtains s0 s sKey n a where
    "QPStaker_of_deet deet = Some s0" and "PurchaseKeys deet s0 = Some s"
    and "AliasIsAvailableInternal r (deet_alias deet) = Some sKey"
    and "om_count n (env_mapNfts env)" and "\<not> om_count (nIDCounter r + 1) (mapNftOwners r)"
    and "\<not> om_count n (mapNftOwnerLookup r)"
    and "r' = (PurchaseActivate env pindex s
           (r\<lparr>nIDCounter := nIDCounter r + 1,
              mapStakers := om_put (nIDCounter r + 1) (s\<lparr>sAlias := a\<rparr>) (mapStakers r),
              mapNftOwners := om_put (nIDCounter r + 1) n (mapNftOwners r),
              mapNftOwnerLookup := om_put n (nIDCounter r + 1) (mapNftOwnerLookup r)\<rparr>))
         \<lparr>mapAliases := om_put sKey (nIDCounter r + 1, deet_alias deet) (mapAliases r)\<rparr>"
proof -
  let ?i = "nIDCounter r + 1"
  obtain s0 s sKey where s: "QPStaker_of_deet deet = Some s0" "PurchaseKeys deet s0 = Some s"
      "AliasIsAvailableInternal r (deet_alias deet) = Some sKey"
    using assms by (auto simp: ApplyPurchase_def split: option.splits)
  let ?r1 = "r\<lparr>nIDCounter := ?i, mapStakers := om_put ?i s (mapStakers r)\<rparr>"
  obtain r2 where p: "PurchaseNft env ?r1 deet ?i sKey = (True, r2)"
      and r': "r' = (PurchaseActivate env pindex s r2)
        \<lparr>mapAliases := om_put sKey (?i, deet_alias deet)
          (mapAliases (PurchaseActivate env pindex s r2))\<rparr>"
    using assms s
    by (auto simp: ApplyPurchase_def IncrementID_def PurchaseActivate_def Let_def
        split: prod.splits bool.splits)
  from p obtain n a r3 where n: "SetStakerNft env ?r1 ?i n = (True, r3)"
      "SetAliasAt r3 ?i a = (True, r2)" by (rule PurchaseNft_True)
  have r2: "r2 = r\<lparr>nIDCounter := ?i,
              mapStakers := om_put ?i (s\<lparr>sAlias := a\<rparr>) (mapStakers r),
              mapNftOwners := om_put ?i n (mapNftOwners r),
              mapNftOwnerLookup := om_put n ?i (mapNftOwnerLookup r)\<rparr>"
    using n by (auto simp: SetStakerNft_True SetAliasAt_True put_staker_def)
  have "mapAliases (PurchaseActivate env pindex s r2) = mapAliases r"
    using r2 by (simp add: PurchaseActivate_def Let_def registry_defs)
  with s n r' r2 show ?thesis by (intro that [of s0 s sKey n a]) (auto simp: SetStakerNft_True)
qed

section \<open>Identifiers and NFT ownership\<close>

text \<open>
  The staker identifiers are exactly \<open>1, \<dots>, nIDCounter\<close>; every staker owns exactly one NFT of
  the table, the two ownership maps are inverse to each other, all maps are ordered and every
  staker is well formed.
\<close>

definition maps_wf :: "QPRegistry \<Rightarrow> bool" where
  "maps_wf r \<longleftrightarrow> om_wf (mapStakers r) \<and> om_wf (mapBalances r) \<and> om_wf (mapLastClaim r) \<and>
     om_wf (mapActive r) \<and> om_wf (mapAliases r) \<and> om_wf (mapNftOwners r) \<and>
     om_wf (mapNftOwnerLookup r) \<and> list_all (\<lambda>(i, s). staker_wf s) (mapStakers r)"

definition ids_wf :: "qp_env \<Rightarrow> QPRegistry \<Rightarrow> bool" where
  "ids_wf env r \<longleftrightarrow>
     (\<forall>i. om_count i (mapStakers r) \<longleftrightarrow> 0 < i \<and> i \<le> nIDCounter r) \<and>
     (\<forall>i. om_count i (mapNftOwners r) \<longleftrightarrow> 0 < i \<and> i \<le> nIDCounter r) \<and>
     (\<forall>i n. map_of (mapNftOwners r) i = Some n \<longleftrightarrow> map_of (mapNftOwnerLookup r) n = Some i) \<and>
     (\<forall>n. om_count n (mapNftOwnerLookup r) \<longrightarrow> om_count n (env_mapNfts env))"

definition nfts_fit :: "qp_env \<Rightarrow> bool" where
  "nfts_fit env \<longleftrightarrow> length (env_mapNfts env) < 2 ^ 32 - 1"

lemma list_all_om_put [simp]: "list_all P m \<Longrightarrow> P (k, v) \<Longrightarrow> list_all P (om_put k v m)"
  by (induction k v m rule: om_put.induct) auto

lemma maps_wf_put_staker [wf_intros]:
  "maps_wf r \<Longrightarrow> staker_wf s \<Longrightarrow> maps_wf (put_staker i s r)"
  by (simp add: maps_wf_def registry_defs)

lemma maps_wf_staker: "maps_wf r \<Longrightarrow> map_of (mapStakers r) i = Some s \<Longrightarrow> staker_wf s"
  by (auto simp: maps_wf_def list_all_iff dest!: map_of_SomeD)

lemma maps_wf_Activate [wf_intros]: "maps_wf r \<Longrightarrow> maps_wf (ActivatePubKey r k p)"
  by (auto simp: maps_wf_def registry_defs)

lemma maps_wf_Deactivate [wf_intros]: "maps_wf r \<Longrightarrow> maps_wf (snd (DeactivatePubKey r k))"
  by (auto simp: maps_wf_def registry_defs)

lemma ids_wf_cong:
  "mapStakers r' = mapStakers r \<Longrightarrow> nIDCounter r' = nIDCounter r \<Longrightarrow>
   mapNftOwners r' = mapNftOwners r \<Longrightarrow> mapNftOwnerLookup r' = mapNftOwnerLookup r \<Longrightarrow>
   ids_wf env r' = ids_wf env r"
  by (simp add: ids_wf_def)

lemma ids_wf_put_staker [wf_intros]:
  "ids_wf env r \<Longrightarrow> om_count i (mapStakers r) \<Longrightarrow> ids_wf env (put_staker i s r)"
  unfolding ids_wf_def registry_defs om_count_put by blast

lemma card_ids: "card {i :: u32. 0 < i \<and> i \<le> c} = unat c"
proof -
  have "{i :: u32. 0 < i \<and> i \<le> c} = (of_nat :: nat \<Rightarrow> u32) ` {1..unat c}"
  proof (intro equalityI subsetI)
    fix i :: u32 assume "i \<in> {i. 0 < i \<and> i \<le> c}"
    then have "unat i \<in> {1..unat c}" by (auto simp: word_le_nat_alt word_less_nat_alt)
    then show "i \<in> of_nat ` {1..unat c}" by (intro image_eqI [of _ _ "unat i"]) auto
  next
    fix i :: u32 assume "i \<in> of_nat ` {1..unat c}"
    then obtain n where n: "i = of_nat n" "1 \<le> n" "n \<le> unat c" by auto
    then have "unat i = n" using unat_bound_word [of c] by (auto intro!: unat_of_nat_small)
    with n show "i \<in> {i. 0 < i \<and> i \<le> c}" by (auto simp: word_le_nat_alt word_less_nat_alt)
  qed
  moreover have "inj_on (of_nat :: nat \<Rightarrow> u32) {1..unat c}"
    by (rule inj_on_inverseI [where g = unat])
      (use unat_bound_word [of c] in \<open>auto intro!: unat_of_nat_small\<close>)
  ultimately show ?thesis by (simp add: card_image)
qed

lemma ids_count_nfts:
  assumes "ids_wf env r"
  shows "unat (nIDCounter r) = card {n. om_count n (mapNftOwnerLookup r)}"
proof -
  let ?D = "{i. 0 < i \<and> i \<le> nIDCounter r}" and ?f = "\<lambda>i. the (map_of (mapNftOwners r) i)"
  have inv: "map_of (mapNftOwners r) i = Some n \<longleftrightarrow> map_of (mapNftOwnerLookup r) n = Some i" for i n
    using assms by (simp add: ids_wf_def)
  have D: "?D = {i. \<exists>n. map_of (mapNftOwners r) i = Some n}"
    using assms by (auto simp: ids_wf_def om_count_def)
  have "inj_on ?f ?D"
  proof (rule inj_onI)
    fix x y assume "x \<in> ?D" "y \<in> ?D" and e: "?f x = ?f y"
    then obtain n m where "map_of (mapNftOwners r) x = Some n" "map_of (mapNftOwners r) y = Some m"
      unfolding D by auto
    with e show "x = y" using inv by (metis option.sel)
  qed
  moreover have "?f ` ?D = {n. om_count n (mapNftOwnerLookup r)}"
  proof (intro equalityI subsetI)
    fix n assume "n \<in> ?f ` ?D"
    then obtain i where "map_of (mapNftOwners r) i = Some n" unfolding D by auto
    then show "n \<in> {n. om_count n (mapNftOwnerLookup r)}" by (auto simp: om_count_def inv)
  next
    fix n assume "n \<in> {n. om_count n (mapNftOwnerLookup r)}"
    then obtain i where "map_of (mapNftOwners r) i = Some n" by (auto simp: om_count_def inv)
    then show "n \<in> ?f ` ?D" unfolding D by (intro image_eqI [of _ _ i]) auto
  qed
  ultimately show ?thesis using card_image [of ?f ?D] card_ids by metis
qed

text \<open>Because every purchase takes an NFT of a finite table, the identifier counter cannot wrap.\<close>

lemma id_counter_no_wrap:
  assumes "ids_wf env r" and "nfts_fit env" 
  shows "unat (nIDCounter r + 1) = unat (nIDCounter r) + 1"
proof -
  have "{n. om_count n (mapNftOwnerLookup r)} \<subseteq> set (map fst (env_mapNfts env))"
    using assms(1) by (auto simp: ids_wf_def om_count_iff)
  then have "card {n. om_count n (mapNftOwnerLookup r)} \<le> length (env_mapNfts env)"
    by (metis card_length card_mono length_map List.finite_set le_trans)
  then have "unat (nIDCounter r) + 1 < 2 ^ 32"
    using ids_count_nfts [OF assms(1)] assms(2) by (simp add: nfts_fit_def)
  then show ?thesis by (intro unat_Suc_small) simp
qed

lemma lookup_none: "\<not> om_count k m \<longleftrightarrow> map_of m k = None"
  by (simp add: om_count_def)

lemma ids_wf_new_owner:
  assumes wf: "ids_wf env r" and nw: "unat (nIDCounter r + 1) = unat (nIDCounter r) + 1"
    and n: "om_count n (env_mapNfts env)" "\<not> om_count n (mapNftOwnerLookup r)"
    and r': "nIDCounter r' = nIDCounter r + 1"
      "mapStakers r' = om_put (nIDCounter r + 1) s (mapStakers r)"
      "mapNftOwners r' = om_put (nIDCounter r + 1) n (mapNftOwners r)"
      "mapNftOwnerLookup r' = om_put n (nIDCounter r + 1) (mapNftOwnerLookup r)"
  shows "ids_wf env r'"
proof -
  let ?i = "nIDCounter r + 1"
  have le: "0 < i \<and> i \<le> ?i \<longleftrightarrow> i = ?i \<or> 0 < i \<and> i \<le> nIDCounter r" for i
    using nw by (auto simp: word_le_nat_alt word_less_nat_alt word_unat_eq_iff)
  have "\<not> ?i \<le> nIDCounter r" using nw by (simp add: word_le_nat_alt)
  then have fresh: "\<not> om_count ?i (mapNftOwners r)" using wf by (auto simp: ids_wf_def)
  have inv: "map_of (mapNftOwners r) i = Some j \<longleftrightarrow> map_of (mapNftOwnerLookup r) j = Some i" for i j
    using wf by (simp add: ids_wf_def)
  have "\<forall>i. om_count i (mapStakers r') \<longleftrightarrow> 0 < i \<and> i \<le> nIDCounter r'"
    "\<forall>i. om_count i (mapNftOwners r') \<longleftrightarrow> 0 < i \<and> i \<le> nIDCounter r'"
    unfolding r' le om_count_put using wf by (auto simp: ids_wf_def)
  moreover have "map_of (mapNftOwners r') i = Some j \<longleftrightarrow> map_of (mapNftOwnerLookup r') j = Some i" for i j
    using fresh n(2) inv [of i j] inv [of "?i" j] inv [of i n] by (auto simp: r' lookup_none)
  moreover have "\<forall>j. om_count j (mapNftOwnerLookup r') \<longrightarrow> om_count j (env_mapNfts env)"
    unfolding r' om_count_put using n(1) wf by (auto simp: ids_wf_def)
  ultimately show ?thesis by (simp add: ids_wf_def)
qed

lemmas PurchaseActivate_simps = PurchaseActivate_def Let_def registry_defs

lemma ids_wf_ApplyPurchase:
  assumes "ids_wf env r" and "nfts_fit env" and "ApplyPurchase env r deet p = (True, r')"
  shows "ids_wf env r'"
  using assms(3)
proof (rule ApplyPurchase_True)
  fix s0 s sKey n a
  assume "om_count n (env_mapNfts env)" "\<not> om_count n (mapNftOwnerLookup r)"
    and r': "r' = (PurchaseActivate env p s
           (r\<lparr>nIDCounter := nIDCounter r + 1,
              mapStakers := om_put (nIDCounter r + 1) (s\<lparr>sAlias := a\<rparr>) (mapStakers r),
              mapNftOwners := om_put (nIDCounter r + 1) n (mapNftOwners r),
              mapNftOwnerLookup := om_put n (nIDCounter r + 1) (mapNftOwnerLookup r)\<rparr>))
         \<lparr>mapAliases := om_put sKey (nIDCounter r + 1, deet_alias deet) (mapAliases r)\<rparr>"
  then show ?thesis
    by (intro ids_wf_new_owner [OF assms(1) id_counter_no_wrap [OF assms(1,2)], of n _ "s\<lparr>sAlias := a\<rparr>"])
      (simp_all add: PurchaseActivate_simps)
qed

lemma maps_wf_ApplyPurchase:
  assumes "maps_wf r" and "ApplyPurchase env r deet p = (True, r')"
  shows "maps_wf r'"
  using assms(2)
proof (rule ApplyPurchase_True)
  fix s0 s sKey n a
  assume s: "QPStaker_of_deet deet = Some s0" "PurchaseKeys deet s0 = Some s"
    and r': "r' = (PurchaseActivate env p s
           (r\<lparr>nIDCounter := nIDCounter r + 1,
              mapStakers := om_put (nIDCounter r + 1) (s\<lparr>sAlias := a\<rparr>) (mapStakers r),
              mapNftOwners := om_put (nIDCounter r + 1) n (mapNftOwners r),
              mapNftOwnerLookup := om_put n (nIDCounter r + 1) (mapNftOwnerLookup r)\<rparr>))
         \<lparr>mapAliases := om_put sKey (nIDCounter r + 1, deet_alias deet) (mapAliases r)\<rparr>"
  have "staker_wf (s\<lparr>sAlias := a\<rparr>)"
    using PurchaseKeys_of_deet(1) [OF s] by (simp add: staker_wf_def)
  then show ?thesis
    using assms(1) unfolding r' maps_wf_def by (simp add: PurchaseActivate_simps)
qed

text \<open>The remaining operations write at most one existing staker.\<close>

lemma Deactivate_frame:
  assumes "DeactivatePubKey r k = (b, r1)"
  shows "maps_wf r \<Longrightarrow> maps_wf r1" "mapStakers r1 = mapStakers r" "nIDCounter r1 = nIDCounter r"
    "mapNftOwners r1 = mapNftOwners r" "mapNftOwnerLookup r1 = mapNftOwnerLookup r"
    "mapBalances r1 = mapBalances r" "mapAliases r1 = mapAliases r"
  using assms maps_wf_Deactivate [of r k] snd_Deactivate_simps [of r k] by auto

lemma ApplySetKey_frame:
  assumes "ApplySetKey env r deet p = (True, r')"
  shows "\<exists>s s'. map_of (mapStakers r) (deet_id deet) = Some s \<and> \<not> IsDisqualified s \<and>
      (staker_wf s \<longrightarrow> staker_wf s') \<and> sAlias s' = sAlias s \<and>
      mapStakers r' \<in> {mapStakers r, om_put (deet_id deet) s' (mapStakers r)} \<and>
      nIDCounter r' = nIDCounter r \<and> mapNftOwners r' = mapNftOwners r \<and>
      mapNftOwnerLookup r' = mapNftOwnerLookup r \<and> mapAliases r' = mapAliases r"
    and "maps_wf r \<Longrightarrow> maps_wf r'"
proof -
  obtain s keyNew where s: "map_of (mapStakers r) (deet_id deet) = Some s" "\<not> IsDisqualified s"
    and k: "deet_keys deet = [keyNew]"
    using assms by (auto simp: ApplySetKey_def split: option.splits if_splits list.splits)
  define pay where "pay = snd (SetDelegatePayout s (word_of_int (deet_pcm deet)))"
  have pay: "staker_wf s \<Longrightarrow> staker_wf pay" "sAlias pay = sAlias s" "pubkeyDelegate pay = pubkeyDelegate s"
    unfolding pay_def using staker_wf_updates(2) by (auto simp: SetDelegatePayout_def)
  have sd: "SetDelegatePayout s (word_of_int (deet_pcm deet)) = (b, t) \<Longrightarrow> t = pay" for b t
    by (simp add: pay_def)
  let ?c = "\<lambda>s'. (staker_wf s \<longrightarrow> staker_wf s') \<and> sAlias s' = sAlias s \<and>
      mapStakers r' \<in> {mapStakers r, om_put (deet_id deet) s' (mapStakers r)}"
  have "(?c s \<or> ?c (s\<lparr>pubkeyOwner := keyNew\<rparr>) \<or> ?c (s\<lparr>pubkeyManager := keyNew\<rparr>) \<or>
       ?c (s\<lparr>pubkeyController := keyNew\<rparr>) \<or> ?c pay \<or> ?c (pay\<lparr>pubkeyDelegate := keyNew\<rparr>)) \<and>
      nIDCounter r' = nIDCounter r \<and> mapNftOwners r' = mapNftOwners r \<and>
      mapNftOwnerLookup r' = mapNftOwnerLookup r \<and> mapAliases r' = mapAliases r"
    using assms s k staker_wf_keys [of s keyNew] staker_wf_keys(3) [OF pay(1), of keyNew] pay(1,2)
    by (cases "deet_t deet")
      (auto simp: ApplySetKey_def Let_def registry_defs Deactivate_frame
        dest!: sd dest: Deactivate_frame split: if_splits prod.splits bool.splits)
  with s show "\<exists>s s'. map_of (mapStakers r) (deet_id deet) = Some s \<and> \<not> IsDisqualified s \<and>
      (staker_wf s \<longrightarrow> staker_wf s') \<and> sAlias s' = sAlias s \<and>
      mapStakers r' \<in> {mapStakers r, om_put (deet_id deet) s' (mapStakers r)} \<and>
      nIDCounter r' = nIDCounter r \<and> mapNftOwners r' = mapNftOwners r \<and>
      mapNftOwnerLookup r' = mapNftOwnerLookup r \<and> mapAliases r' = mapAliases r"
    by blast
  show "maps_wf r'" if "maps_wf r"
    using assms s k maps_wf_staker [OF that s(1)] that
    by (cases "deet_t deet")
      (auto simp: ApplySetKey_def Let_def dest!: sd split: if_splits prod.splits bool.splits
        intro!: maps_wf_put_staker maps_wf_Activate maps_wf_Deactivate staker_wf_keys pay(1)
        dest: Deactivate_frame(1))
qed

lemma ApplySetState_True:
  assumes "ApplySetState env r deet h = (True, r')"
  shows "\<exists>s s'. map_of (mapStakers r) (deet_id deet) = Some s \<and> \<not> IsDisqualified s \<and>
    r' \<in> {r, put_staker (deet_id deet) (s\<lparr>nHeightDisabled := s'\<rparr>) r}"
  using assms
  by (auto simp: ApplySetState_def Enable_def Disable_def Let_def split: option.splits if_splits)

lemma ApplySetMeta_True:
  "ApplySetMeta r deet = (True, r') \<longleftrightarrow> deet_t deet = TX_SETMETA \<and>
    (\<exists>s. map_of (mapStakers r) (deet_id deet) = Some s \<and> \<not> IsDisqualified s \<and>
      r' = put_staker (deet_id deet) (SetMeta s (deet_meta_key deet) (deet_meta_value deet)) r)"
  by (auto simp: ApplySetMeta_def split: option.splits if_splits)

lemma ApplyClaim_True:
  "ApplyClaim env r deet t = (True, r') \<longleftrightarrow> deet_t deet = TX_CLAIM \<and>
    (\<exists>key. deet_keys deet = [key] \<and> CanClaimInternal env r key (deet_value deet) t \<and>
      r' = r\<lparr>mapLastClaim := om_put key t (mapLastClaim r),
             mapBalances := om_put key (om_at 0 (mapBalances r) key - deet_value deet) (mapBalances r)\<rparr>)"
  by (auto simp: ApplyClaim_def split: list.splits if_splits)

text \<open>Successful operations by kind.\<close>

lemma ApplyOp_cases:
  assumes "ApplyOp env p deet r = (0, r')"
  obtains
    (purchase) "deet_t deet \<in> {TX_PURCHASE1, TX_PURCHASE4}" "ApplyPurchase env r deet p = (True, r')"
  | (setkey) "deet_t deet \<in> {TX_SETOWNER, TX_SETMANAGER, TX_SETDELEGATE, TX_SETCONTROLLER}"
      "ApplySetKey env r deet p = (True, r')"
  | (setstate) "deet_t deet \<in> {TX_ENABLE, TX_DISABLE}"
      "ApplySetState env r deet (bi_nHeight p) = (True, r')"
  | (claim) "deet_t deet = TX_CLAIM" "ApplyClaim env r deet (uint (bi_nTime p)) = (True, r')"
  | (setmeta) "deet_t deet = TX_SETMETA" "ApplySetMeta r deet = (True, r')"
  using assms
  by (cases "deet_t deet") (auto simp: ApplyOp_def Let_def split: prod.splits if_splits)

definition registry_wf :: "qp_env \<Rightarrow> QPRegistry \<Rightarrow> bool" where
  "registry_wf env r \<longleftrightarrow> maps_wf r \<and> ids_wf env r"

lemma registry_wf_put_staker [wf_intros]:
  assumes "registry_wf env r" and "map_of (mapStakers r) i = Some s0" and "staker_wf s0 \<Longrightarrow> staker_wf s"
  shows "registry_wf env (put_staker i s r)"
  using assms maps_wf_staker [of r i s0]
  by (auto simp: registry_wf_def om_count_def intro!: maps_wf_put_staker ids_wf_put_staker)

lemma registry_wf_ApplySetKey:
  assumes "registry_wf env r" and "ApplySetKey env r deet p = (True, r')"
  shows "registry_wf env r'"
proof -
  obtain s s' where *: "map_of (mapStakers r) (deet_id deet) = Some s"
      "mapStakers r' \<in> {mapStakers r, om_put (deet_id deet) s' (mapStakers r)}"
      "nIDCounter r' = nIDCounter r" "mapNftOwners r' = mapNftOwners r"
      "mapNftOwnerLookup r' = mapNftOwnerLookup r"
    using ApplySetKey_frame(1) [OF assms(2)] by blast
  have "om_count (deet_id deet) (mapStakers r)" using *(1) by (simp add: om_count_def)
  then have "ids_wf env r'"
    using assms(1) ids_wf_put_staker [of env r "deet_id deet" s'] *
    by (auto simp: registry_wf_def ids_wf_def registry_defs)
  then show ?thesis
    using ApplySetKey_frame(2) [OF assms(2)] assms(1) by (simp add: registry_wf_def)
qed

lemma registry_wf_ApplyOp:
  assumes "registry_wf env r" and "nfts_fit env" and "ApplyOp env p deet r = (0, r')"
  shows "registry_wf env r'"
  using assms(3)
proof (cases rule: ApplyOp_cases)
  case purchase
  with assms show ?thesis
    unfolding registry_wf_def using ids_wf_ApplyPurchase maps_wf_ApplyPurchase by blast
next
  case setkey
  with assms(1) show ?thesis by (auto intro: registry_wf_ApplySetKey)
next
  case setstate
  from ApplySetState_True [OF setstate(2)] assms(1) show ?thesis
    by (auto intro!: registry_wf_put_staker simp: staker_wf_def)
next
  case claim
  with assms(1) show ?thesis
    by (auto simp: ApplyClaim_True registry_wf_def maps_wf_def ids_wf_def)
next
  case setmeta
  with assms(1) show ?thesis
    by (auto simp: ApplySetMeta_True intro!: registry_wf_put_staker staker_wf_updates)
qed

interpretation wf_ops: block_ops "ApplyOp env p" "registry_wf env" "\<lambda>_. nfts_fit env" for env p
  by unfold_locales (rule registry_wf_ApplyOp)

lemma ApplyOps_loop_run: "ApplyOps_loop env p ds r = wf_ops.run env p ds r"
  by (induction ds arbitrary: r) (auto split: prod.splits)

lemma registry_wf_ApplyOps:
  assumes "registry_wf env r" and "nfts_fit env" and "ApplyOps env r p = (0, r')"
  shows "registry_wf env r'"
  using assms wf_ops.run_inv [of env r "bi_vDeets p" p r']
  by (simp add: ApplyOps_def ApplyOps_loop_run list_all_iff)

section \<open>Key reference counts\<close>

text \<open>
  On the main network \<open>mapActive\<close> counts, for every key, how many stakers have it as their
  manager key plus how many have it as their delegate key, and every key in use has a balance.
\<close>

definition key_uses :: "CPubKey \<Rightarrow> QPStaker \<Rightarrow> int" where
  "key_uses k s = of_bool (pubkeyManager s = k) + of_bool (pubkeyDelegate s = k)"

definition key_refs :: "QPRegistry \<Rightarrow> CPubKey \<Rightarrow> int" where
  "key_refs r k = (\<Sum>(i, s)\<leftarrow>mapStakers r. key_uses k s)"

definition active_wf :: "QPRegistry \<Rightarrow> bool" where
  "active_wf r \<longleftrightarrow> (\<forall>k. om_at 0 (mapActive r) k = key_refs r k) \<and>
     (\<forall>k. 0 < key_refs r k \<longrightarrow> om_count k (mapBalances r))"

lemma key_uses_nonneg: "0 \<le> key_uses k s"
  by (simp add: key_uses_def)

lemma key_refs_ge:
  assumes "map_of (mapStakers r) i = Some s"
  shows "key_uses k s \<le> key_refs r k"
proof -
  have nn: "0 \<le> (\<Sum>(i, s)\<leftarrow>m. key_uses k s)" for m :: "(u32, QPStaker) omap"
    by (rule sum_list_nonneg) (auto simp: key_uses_nonneg)
  have "(i, s) \<in> set m \<Longrightarrow> key_uses k s \<le> (\<Sum>(i, s)\<leftarrow>m. key_uses k s)" for m
  proof (induction m)
    case (Cons q m)
    then show ?case using nn [of m] key_uses_nonneg [of k "snd q"] by (cases q) auto
  qed simp
  then show ?thesis using map_of_SomeD [OF assms] by (simp add: key_refs_def)
qed

lemma key_refs_put:
  assumes "om_wf (mapStakers r)" and "map_of (mapStakers r) i = Some s"
    and "mapStakers r' = om_put i s' (mapStakers r)"
  shows "key_refs r' k = key_refs r k - key_uses k s + key_uses k s'"
  using om_put_sum [OF assms(1,2), of "\<lambda>_. key_uses k" s'] assms(3) by (simp add: key_refs_def)

lemma key_refs_new:
  assumes "map_of (mapStakers r) i = None" and "mapStakers r' = om_put i s' (mapStakers r)"
  shows "key_refs r' k = key_uses k s' + key_refs r k"
  using om_put_fresh_sum [OF assms(1), of "\<lambda>_. key_uses k" s'] assms(2) by (simp add: key_refs_def)

lemma key_refs_cong: "mapStakers r' = mapStakers r \<Longrightarrow> key_refs r' k = key_refs r k"
  by (simp add: key_refs_def)

lemma key_uses_simps [simp]:
  "key_uses k (s\<lparr>sAlias := a\<rparr>) = key_uses k s"
  "key_uses k (s\<lparr>nHeightDisabled := h\<rparr>) = key_uses k s"
  "key_uses k (s\<lparr>pubkeyOwner := q\<rparr>) = key_uses k s"
  "key_uses k (s\<lparr>pubkeyController := q\<rparr>) = key_uses k s"
  "key_uses k (SetMeta s mk mv) = key_uses k s"
  "key_uses k (snd (SetDelegatePayout s pcm)) = key_uses k s"
  by (simp_all add: key_uses_def SetMeta_def SetDelegatePayout_def)

text \<open>A key in use can be deactivated: the "should never happen" failures cannot happen.\<close>

lemma Deactivate_used:
  assumes "active_wf r" and "1 \<le> key_refs r k"
  shows "\<exists>n \<ge> 1. map_of (mapActive r) k = Some n \<and> n = key_refs r k"
proof -
  have "om_at 0 (mapActive r) k = key_refs r k" using assms(1) by (simp add: active_wf_def)
  then show ?thesis using assms(2) by (auto simp: om_at_def split: option.splits)
qed

text \<open>Moving a reference from one key to another.\<close>

lemma active_wf_move:
  assumes wf: "active_wf r" and old: "1 \<le> key_refs r old" and ne: "new \<noteq> old"
    and d: "DeactivatePubKey r old = (True, r1)"
    and st: "mapStakers r2 = mapStakers q"
    and refs: "\<And>k. key_refs q k = key_refs r k - of_bool (old = k) + of_bool (new = k)"
    and r2: "mapActive r2 = mapActive (ActivatePubKey r1 new p)"
      "mapBalances r2 = mapBalances (ActivatePubKey r1 new p)"
  shows "active_wf r2"
proof -
  have r1: "r1 = r\<lparr>mapActive := om_put old (key_refs r old - 1) (mapActive r)\<rparr>"
    using Deactivate_used [OF wf old] d by (auto simp: Deactivate_True)
  have act: "om_at 0 (mapActive r) k = key_refs r k" for k using wf by (simp add: active_wf_def)
  have "om_at 0 (mapActive r2) k = key_refs r2 k" for k
    using refs [of k] ne by (simp add: r2 r1 act registry_defs key_refs_cong [OF st])
  moreover have "0 < key_refs r2 k \<Longrightarrow> om_count k (mapBalances r2)" for k
  proof -
    assume pos: "0 < key_refs r2 k"
    show "om_count k (mapBalances r2)"
    proof (cases "k = new \<and> key_refs r new = 0")
      case True
      then show ?thesis using ne by (simp add: r2 r1 registry_defs act)
    next
      case False
      have nn: "0 \<le> key_refs r k"
        unfolding key_refs_def by (rule sum_list_nonneg) (auto simp: key_uses_nonneg)
      have "0 < key_refs r k"
        using pos refs [of k] False nn
        by (cases "new = k"; cases "old = k") (auto simp: key_refs_cong [OF st])
      then have "om_count k (mapBalances r)" using wf by (simp add: active_wf_def)
      then show ?thesis by (simp add: r2 r1 registry_defs)
    qed
  qed
  ultimately show ?thesis by (simp add: active_wf_def)
qed

lemma active_wf_same_refs:
  assumes "active_wf r" and "\<And>k. key_refs r' k = key_refs r k" and "mapActive r' = mapActive r"
    and "\<And>k. om_count k (mapBalances r) \<Longrightarrow> om_count k (mapBalances r')"
  shows "active_wf r'"
  using assms by (auto simp: active_wf_def)

lemma active_wf_ApplySetKey:
  assumes wf: "registry_wf env r" "active_wf r" and main: "\<not> env_fTestNet env"
    and ok: "ApplySetKey env r deet p = (True, r')"
  shows "active_wf r'"
proof -
  obtain s keyNew where s: "map_of (mapStakers r) (deet_id deet) = Some s" "\<not> IsDisqualified s"
    and k: "deet_keys deet = [keyNew]"
    using ok by (auto simp: ApplySetKey_def split: option.splits if_splits list.splits)
  have om: "om_wf (mapStakers r)" using wf(1) by (simp add: registry_wf_def maps_wf_def)
  note put = key_refs_put [OF om s(1)]
  let ?i = "deet_id deet" and ?pay = "snd (SetDelegatePayout s (word_of_int (deet_pcm deet)))"
  have same: "active_wf (put_staker ?i s' r)" if "\<And>k. key_uses k s' = key_uses k s" for s'
    using that by (intro active_wf_same_refs [OF wf(2)]) (simp_all add: put registry_defs)
  have refs: "1 \<le> key_refs r (pubkeyManager s)" "1 \<le> key_refs r (pubkeyDelegate s)"
    using key_refs_ge [OF s(1), of "pubkeyManager s"] key_refs_ge [OF s(1), of "pubkeyDelegate s"]
    by (auto simp: key_uses_def of_bool_def split: if_splits)
  show ?thesis
  proof (cases "deet_t deet")
    case TX_SETOWNER
    then show ?thesis using ok s k main same [of "s\<lparr>pubkeyOwner := keyNew\<rparr>"] wf(2)
      by (auto simp: ApplySetKey_def Let_def split: if_splits)
  next
    case TX_SETMANAGER
    show ?thesis
    proof (cases "keyNew = pubkeyManager s")
      case True
      then show ?thesis using ok s k TX_SETMANAGER same [of "s\<lparr>pubkeyManager := keyNew\<rparr>"]
        by (auto simp: ApplySetKey_def Let_def key_uses_def)
    next
      case False
      then obtain r1 where d: "DeactivatePubKey r (pubkeyManager s) = (True, r1)"
        and r': "r' = put_staker ?i (s\<lparr>pubkeyManager := keyNew\<rparr>) (ActivatePubKey r1 keyNew p)"
        using ok s k TX_SETMANAGER
        by (auto simp: ApplySetKey_def Let_def split: prod.splits bool.splits)
      show ?thesis
        by (rule active_wf_move [OF wf(2) refs(1) False d, of r' "put_staker ?i (s\<lparr>pubkeyManager := keyNew\<rparr>) r"])
          (use d in \<open>auto simp: r' registry_defs Deactivate_frame put key_uses_def\<close>)
    qed
  next
    case TX_SETDELEGATE
    have del: "pubkeyDelegate ?pay = pubkeyDelegate s" by (simp add: SetDelegatePayout_def)
    have wfp: "active_wf (put_staker ?i ?pay r)" by (rule same) simp
    show ?thesis
    proof (cases "keyNew = pubkeyDelegate s")
      case True
      then show ?thesis using ok s k TX_SETDELEGATE wfp
        by (auto simp: ApplySetKey_def Let_def split: prod.splits if_splits)
    next
      case False
      let ?r0 = "put_staker ?i ?pay r"
      from False obtain r1 where d: "DeactivatePubKey ?r0 (pubkeyDelegate s) = (True, r1)"
        and r': "r' = put_staker ?i (?pay\<lparr>pubkeyDelegate := keyNew\<rparr>) (ActivatePubKey r1 keyNew p)"
        using ok s k TX_SETDELEGATE
        by (auto simp: ApplySetKey_def Let_def split: prod.splits bool.splits if_splits)
      have r0: "key_refs ?r0 k = key_refs r k" for k by (simp add: put registry_defs)
      show ?thesis
        by (rule active_wf_move [OF wfp _ False d, of r' "put_staker ?i (?pay\<lparr>pubkeyDelegate := keyNew\<rparr>) r"])
          (use d refs in \<open>auto simp: r' r0 registry_defs Deactivate_frame put key_uses_def SetDelegatePayout_def\<close>)
    qed
  next
    case TX_SETCONTROLLER
    then show ?thesis using ok s k same [of "s\<lparr>pubkeyController := keyNew\<rparr>"]
      by (auto simp: ApplySetKey_def)
  qed (use ok s k in \<open>auto simp: ApplySetKey_def\<close>)
qed

lemma fresh_id:
  assumes "registry_wf env r" and "nfts_fit env"
  shows "map_of (mapStakers r) (nIDCounter r + 1) = None"
proof -
  have "ids_wf env r" using assms(1) by (simp add: registry_wf_def)
  moreover have "\<not> nIDCounter r + 1 \<le> nIDCounter r"
    using id_counter_no_wrap [OF calculation assms(2)] by (simp add: word_le_nat_alt)
  ultimately have "\<not> om_count (nIDCounter r + 1) (mapStakers r)" by (simp add: ids_wf_def)
  then show ?thesis by (simp add: lookup_none)
qed

lemma active_wf_activate_new:
  assumes wf: "active_wf r" and main: "\<not> env_fTestNet env"
    and q: "mapActive q = mapActive r" "mapBalances q = mapBalances r"
    and r': "mapActive r' = mapActive (PurchaseActivate env p s q)"
      "mapBalances r' = mapBalances (PurchaseActivate env p s q)"
    and refs: "\<And>k. key_refs r' k = key_uses k s + key_refs r k"
  shows "active_wf r'"
proof -
  have act: "om_at 0 (mapActive r) k = key_refs r k" for k using wf by (simp add: active_wf_def)
  have "om_at 0 (mapActive r') k = key_refs r' k" for k
    using main by (simp add: r' q refs act PurchaseActivate_simps key_uses_def)
  moreover have "om_count k (mapBalances r')" if "0 < key_refs r' k" for k
  proof (cases "0 < key_refs r k")
    case True
    then have "om_count k (mapBalances r)" using wf by (simp add: active_wf_def)
    then show ?thesis using main by (simp add: r' q PurchaseActivate_simps)
  next
    case False
    have "0 \<le> key_refs r k"
      unfolding key_refs_def by (rule sum_list_nonneg) (auto simp: key_uses_nonneg)
    with False have z: "key_refs r k = 0" by simp
    then have "k = pubkeyManager s \<or> k = pubkeyDelegate s"
      using that refs [of k] by (auto simp: key_uses_def)
    then show ?thesis using main z by (auto simp: r' q PurchaseActivate_simps act)
  qed
  ultimately show ?thesis by (simp add: active_wf_def)
qed

lemma active_wf_ApplyPurchase:
  assumes wf: "registry_wf env r" "active_wf r" and env: "\<not> env_fTestNet env" "nfts_fit env"
    and ok: "ApplyPurchase env r deet p = (True, r')"
  shows "active_wf r'"
  using ok
proof (rule ApplyPurchase_True)
  fix s0 s sKey n a
  let ?q = "r\<lparr>nIDCounter := nIDCounter r + 1,
              mapStakers := om_put (nIDCounter r + 1) (s\<lparr>sAlias := a\<rparr>) (mapStakers r),
              mapNftOwners := om_put (nIDCounter r + 1) n (mapNftOwners r),
              mapNftOwnerLookup := om_put n (nIDCounter r + 1) (mapNftOwnerLookup r)\<rparr>"
  assume r': "r' = (PurchaseActivate env p s ?q)
         \<lparr>mapAliases := om_put sKey (nIDCounter r + 1, deet_alias deet) (mapAliases r)\<rparr>"
  have "mapStakers r' = om_put (nIDCounter r + 1) (s\<lparr>sAlias := a\<rparr>) (mapStakers r)"
    unfolding r' by (simp add: PurchaseActivate_simps)
  from key_refs_new [OF fresh_id [OF wf(1) env(2)] this]
  have "\<And>k. key_refs r' k = key_uses k s + key_refs r k" by simp
  then show ?thesis
    by (intro active_wf_activate_new [OF wf(2) env(1), of ?q r' p s]) (simp_all add: r')
qed

definition counted_wf :: "qp_env \<Rightarrow> QPRegistry \<Rightarrow> bool" where
  "counted_wf env r \<longleftrightarrow> registry_wf env r \<and> active_wf r"

lemma counted_wf_ApplyOp:
  assumes wf: "counted_wf env r" and env: "\<not> env_fTestNet env \<and> nfts_fit env"
    and ok: "ApplyOp env p deet r = (0, r')"
  shows "counted_wf env r'"
proof -
  have r: "registry_wf env r" "active_wf r" using wf by (simp_all add: counted_wf_def)
  have om: "om_wf (mapStakers r)" using r by (simp add: registry_wf_def maps_wf_def)
  have same: "active_wf (put_staker i s' r)"
    if "map_of (mapStakers r) i = Some s" "\<And>k. key_uses k s' = key_uses k s" for i s s'
    using that by (intro active_wf_same_refs [OF r(2)]) (simp_all add: key_refs_put [OF om that(1)] registry_defs)
  from ok have "active_wf r'"
  proof (cases rule: ApplyOp_cases)
    case purchase
    with r env show ?thesis by (auto intro: active_wf_ApplyPurchase)
  next
    case setkey
    with r env show ?thesis by (auto intro: active_wf_ApplySetKey)
  next
    case setstate
    from ApplySetState_True [OF setstate(2)] r(2) show ?thesis by (auto intro!: same)
  next
    case claim
    with r(2) show ?thesis
      by (auto simp: ApplyClaim_True active_wf_def key_refs_def)
  next
    case setmeta
    then show ?thesis by (auto simp: ApplySetMeta_True intro!: same)
  qed
  moreover have "registry_wf env r'" using registry_wf_ApplyOp [OF r(1) _ ok] env by simp
  ultimately show ?thesis by (simp add: counted_wf_def)
qed

interpretation counted_ops: block_ops "ApplyOp env p" "counted_wf env"
  "\<lambda>_. \<not> env_fTestNet env \<and> nfts_fit env" for env p
  by unfold_locales (rule counted_wf_ApplyOp)

end
