(* ===== verification/QPRegistryTime.thy ===== *)
theory QPRegistryTime
  imports QPRegistryUpdate QPRegistryInv
begin

text \<open>
  Correctness of the registry's clock: the shuffled queue is a permutation of the enabled
  stakers, the catch-up loop ends with the queue's current window around the requested time, and
  a registry with an enabled staker never gets stuck in it.
\<close>

section \<open>Shuffling\<close>

text \<open>What the code relies on of the random generator: a draw is below its bound.\<close>

definition draws_below :: "qp_env \<Rightarrow> bool" where
  "draws_below env \<longleftrightarrow> (\<forall>seed k n. 0 < n \<longrightarrow> env_shuffler env seed k n < n)"

lemma shuffle_loop_mset:
  assumes "\<And>k n. 0 < n \<Longrightarrow> draw k n < n" and "\<forall>i \<in> set is. i < length ids"
  shows "mset (shuffle_loop draw k ids is) = mset ids"
  using assms(2)
proof (induction "is" arbitrary: k ids)
  case (Cons i "is")
  have "draw k (i + 1) < length ids" using assms(1) [of "i + 1" k] Cons.prems by auto
  with Cons.prems Cons.IH show ?case
    by (simp add: Let_def mset_swap_nth)
qed simp

lemma length_shuffle_loop [simp]: "length (shuffle_loop draw k ids is) = length ids"
  by (induction "is" arbitrary: k ids) (auto simp: Let_def)

section \<open>The number of enabled stakers\<close>

definition n_enabled :: "QPRegistry \<Rightarrow> nat" where
  "n_enabled r = length (EnabledIDs r)"

lemma n_enabled_sum: "int (n_enabled r) = (\<Sum>(i, s)\<leftarrow>mapStakers r. of_bool (IsEnabled s))"
proof -
  have "int (length (filter (\<lambda>(k, s). IsEnabled s) m)) = (\<Sum>(i, s)\<leftarrow>m. of_bool (IsEnabled s))"
    for m :: "(u32, QPStaker) omap"
    by (induction m) auto
  then show ?thesis by (simp add: n_enabled_def EnabledIDs_def)
qed

lemma n_enabled_le: "n_enabled r \<le> length (mapStakers r)"
  by (simp add: n_enabled_def EnabledIDs_def)

lemma GetNumberOf_eq: "GetNumberOf f r = of_nat (length (filter (\<lambda>(k, s). f s) (mapStakers r)))"
proof -
  have "fold (\<lambda>(k, s) count. if f s then count + 1 else count) m a =
      a + (of_nat (length (filter (\<lambda>(k, s). f s) m)) :: u32)" for m :: "(u32, QPStaker) omap" and a
    by (induction m arbitrary: a) auto
  then show ?thesis by (simp add: GetNumberOf_def)
qed

lemma unat_GetNumberEnabled:
  "length (mapStakers r) < 2 ^ 32 \<Longrightarrow> unat (GetNumberEnabledInternal r) = n_enabled r"
  unfolding GetNumberEnabledInternal_def GetNumberOf_eq n_enabled_def EnabledIDs_def length_map
  by (rule unat_of_nat_small) (simp add: length_filter_le [THEN le_less_trans])

lemma map_fst_om_put:
  "om_wf m \<Longrightarrow> om_count k m \<Longrightarrow> map fst (om_put k v m) = map fst m"
  by (induction k v m rule: om_put.induct) (auto simp: om_wf_Cons om_count_iff)

lemma put_staker_existing:
  assumes "om_wf (mapStakers r)" and "map_of (mapStakers r) i = Some s0"
  shows "map fst (mapStakers (put_staker i s r)) = map fst (mapStakers r)"
    and "int (n_enabled (put_staker i s r)) =
      int (n_enabled r) - of_bool (IsEnabled s0) + of_bool (IsEnabled s)"
  using assms om_put_sum [OF assms, of "\<lambda>_ s. of_bool (IsEnabled s)" s] map_fst_om_put [of "mapStakers r" i s]
  by (auto simp: registry_defs n_enabled_sum om_count_def)

lemma staker_lookup: "GetStakerInternal r i = Some s \<Longrightarrow> map_of (mapStakers r) i = Some s"
  by (auto simp: GetStakerInternal_def split: if_splits)

section \<open>A missed block\<close>

lemma IsEnabled_MissedBlock [simp]: "IsEnabled (MissedBlock s p f) = IsEnabled s"
  by (simp add: IsEnabled_def MissedBlock_def UpdatePrevRecentBlocks_def Let_def)

text \<open>
  What a step of the clock keeps: the set of stakers, and at least three enabled stakers (or as
  many as there were).
\<close>

definition keeps_stakers :: "QPRegistry \<Rightarrow> QPRegistry \<Rightarrow> bool" where
  "keeps_stakers r r' \<longleftrightarrow> map fst (mapStakers r') = map fst (mapStakers r) \<and>
     om_wf (mapStakers r') \<and> min (n_enabled r) 3 \<le> n_enabled r'"

lemma keeps_stakers_refl: "om_wf (mapStakers r) \<Longrightarrow> keeps_stakers r r"
  by (simp add: keeps_stakers_def)

lemma keeps_stakers_trans: "keeps_stakers r r1 \<Longrightarrow> keeps_stakers r1 r2 \<Longrightarrow> keeps_stakers r r2"
  by (auto simp: keeps_stakers_def)

lemma keeps_stakers_cong:
  "mapStakers r1 = mapStakers r2 \<Longrightarrow> keeps_stakers r r1 \<longleftrightarrow> keeps_stakers r r2"
  by (simp add: keeps_stakers_def n_enabled_def EnabledIDs_def)

lemma keeps_stakers_length: "keeps_stakers r r' \<Longrightarrow> length (mapStakers r') = length (mapStakers r)"
  by (metis keeps_stakers_def length_map)

lemma DisableStakerIfNecessary_frame:
  assumes "om_wf (mapStakers r)" and "length (mapStakers r) < 2 ^ 32"
    and r': "r' = snd (DisableStakerIfNecessary env r i s h)"
  shows "queue r' = queue r \<and> keeps_stakers r r'"
proof -
  have "r' = r \<or> (\<exists>s0. map_of (mapStakers r) i = Some s0 \<and> n_enabled r > 3 \<and>
      r' = put_staker i (Disable s0 h) r)"
    unfolding r' DisableStakerIfNecessary_def DisableStaker_def
    using unat_GetNumberEnabled [OF assms(2)]
    by (auto split: option.splits dest: staker_lookup simp: word_less_nat_alt)
  then consider "r' = r" | s0 where "map_of (mapStakers r) i = Some s0" "n_enabled r > 3"
      "r' = put_staker i (Disable s0 h) r" by blast
  then show ?thesis
  proof cases
    case 1
    then show ?thesis using keeps_stakers_refl [OF assms(1)] by simp
  next
    case 2
    have "int (n_enabled r) - 1 \<le> int (n_enabled r')"
      using put_staker_existing(2) [OF assms(1) 2(1), of "Disable s0 h"] 2(3) by simp
    then have "min (n_enabled r) 3 \<le> n_enabled r'" using 2(2) by simp
    moreover have "queue r' = queue r" by (simp add: 2(3) put_staker_def)
    moreover have "om_wf (mapStakers r')" using assms(1) by (simp add: 2(3) registry_defs)
    ultimately show ?thesis
      using put_staker_existing(1) [OF assms(1) 2(1)] 2(3) by (simp add: keeps_stakers_def)
  qed
qed

lemma keeps_stakers_cong_left:
  "mapStakers r1 = mapStakers r2 \<Longrightarrow> keeps_stakers r1 r \<longleftrightarrow> keeps_stakers r2 r"
  by (simp add: keeps_stakers_def n_enabled_def EnabledIDs_def)

lemma keeps_stakers_put:
  assumes "om_wf (mapStakers r)" and "map_of (mapStakers r) i = Some s0" and "IsEnabled s = IsEnabled s0"
  shows "keeps_stakers r (put_staker i s r)"
proof -
  have "n_enabled (put_staker i s r) = n_enabled r"
    using put_staker_existing(2) [OF assms(1,2), of s] assms(3) by simp
  then show ?thesis
    using put_staker_existing(1) [OF assms(1,2)] assms(1) by (simp add: keeps_stakers_def registry_defs)
qed

lemma StakerMissedBlock_frame:
  assumes wf: "om_wf (mapStakers r)" "length (mapStakers r) < 2 ^ 32"
    and r': "r' = snd (StakerMissedBlock env r i h)"
  shows "queue r' = queue r \<and> keeps_stakers r r'"
proof (cases "\<exists>s. GetStakerInternal r i = Some s \<and> \<not> IsDisqualified s")
  case False
  then have "r' = r" by (auto simp: r' StakerMissedBlock_def Let_def split: option.splits)
  then show ?thesis using keeps_stakers_refl wf by simp
next
  case True
  then obtain s where s: "GetStakerInternal r i = Some s" "\<not> IsDisqualified s" by blast
  define r0 where "r0 = r\<lparr>powerRoundCurrent := PowerRound_PushBack (powerRoundCurrent r) i
      (GetWeight s ((nIDCounter r + 1) - i)) False\<rparr>"
  define s' where "s' = MissedBlock s (fPrevBlockWasProduced r0) (fork_at env h)"
  define r1 where "r1 = put_staker i s' r0"
  define r2 where "r2 = (if fork_at env h \<ge> XST_FORKMISSFIX
      then snd (DisableStakerIfNecessary env r1 i s' h) else r1)"
  have r0: "mapStakers r0 = mapStakers r" "queue r0 = queue r" by (simp_all add: r0_def)
  have "keeps_stakers r0 r1"
    unfolding r1_def using wf(1) staker_lookup [OF s(1)]
    by (intro keeps_stakers_put) (auto simp: r0 s'_def)
  then have k1: "keeps_stakers r r1" using keeps_stakers_cong_left [OF r0(1)] by simp
  have q1: "queue r1 = queue r" by (simp add: r1_def put_staker_def r0)
  have w1: "om_wf (mapStakers r1)" "length (mapStakers r1) < 2 ^ 32"
    using k1 keeps_stakers_length [OF k1] wf(2) by (simp_all add: keeps_stakers_def)
  have "queue r2 = queue r1 \<and> keeps_stakers r1 r2"
    unfolding r2_def using DisableStakerIfNecessary_frame [OF w1 refl] keeps_stakers_refl [OF w1(1)]
    by simp
  moreover have "r' = r2\<lparr>rg_bRecentBlocks := shl1 (rg_bRecentBlocks r2), fPrevBlockWasProduced := False\<rparr>"
    unfolding r' StakerMissedBlock_def r2_def r1_def s'_def r0_def
    by (simp only: Let_def s option.case if_False snd_conv)
  moreover from this have "mapStakers r' = mapStakers r2" "queue r' = queue r2" by simp_all
  ultimately show ?thesis
    using keeps_stakers_trans [OF k1] q1 keeps_stakers_cong by metis
qed

section \<open>A new queue\<close>

lemma new_queue_stats: "b \<in> set (vchBlockStats (QPQueue_new t ids)) \<Longrightarrow> b = 0"
  by (simp add: QPQueue_new_def Let_def split: if_splits)

lemma NewQueue_cases:
  assumes "draws_below env" and "NewQueue env r t h = (ok, r')"
  shows "ok \<longleftrightarrow> 0 < n_enabled r" and "mapStakers r' = mapStakers r"
    and "ok \<Longrightarrow> queue r' = QPQueue_new t (vStakerIDs (queue r')) \<and>
           mset (vStakerIDs (queue r')) = mset (EnabledIDs r)"
    and "\<not> ok \<Longrightarrow> r' = r"
proof -
  let ?ids = "sort (EnabledIDs r)" and ?seed = "QueueSeed env h"
  have "mset (shuffle_loop (env_shuffler env ?seed) 0 ?ids [1..<length ?ids]) = mset ?ids"
    using assms(1) by (intro shuffle_loop_mset) (auto simp: draws_below_def)
  then show "ok \<longleftrightarrow> 0 < n_enabled r" "mapStakers r' = mapStakers r"
    "ok \<Longrightarrow> queue r' = QPQueue_new t (vStakerIDs (queue r')) \<and>
       mset (vStakerIDs (queue r')) = mset (EnabledIDs r)" "\<not> ok \<Longrightarrow> r' = r"
    using assms(2) by (auto simp: NewQueue_def Let_def n_enabled_def split: if_splits)
qed

section \<open>The catch-up loop\<close>

text \<open>The second at which the current slot ends, without wrap-around.\<close>

definition slot_end :: "QPQueue \<Rightarrow> nat" where
  "slot_end q = unat (nSlotTime0 q) + 5 * unat (nCurrentSlot q) + 4"

text \<open>
  The state the loop keeps: a non-empty queue whose times fit, and enough room above the
  requested time for one more round of all stakers.
\<close>

definition clock_inv :: "u32 \<Rightarrow> QPRegistry \<Rightarrow> bool" where
  "clock_inv nTime r \<longleftrightarrow> om_wf (mapStakers r) \<and> queue_wf (queue r) \<and> queue_fits (queue r) \<and>
     length (mapStakers r) < 2 ^ 29 \<and> unat nTime + 5 * length (mapStakers r) + 5 < 2 ^ 32"

lemma GetCurrentSlotEnd_eq:
  assumes "queue_wf q" and "queue_fits q"
  shows "unat (GetCurrentSlotEnd q) = slot_end q" "slot_end q < unat (nSlotTime0 q) + 5 * queue_len q"
proof -
  have c: "unat (nCurrentSlot q) < queue_len q" using assms by (auto simp: queue_wf_def queue_fits_def)
  then show "slot_end q < unat (nSlotTime0 q) + 5 * queue_len q" by (simp add: slot_end_def)
  have "unat (nSlotTime0 q) + 5 * unat (nCurrentSlot q) + 5 < 2 ^ 32"
    using c assms(2) by (simp add: queue_fits_def)
  from unat_slot_end [OF this] show "unat (GetCurrentSlotEnd q) = slot_end q"
    by (simp add: GetCurrentSlotEnd_def slot_end_def Let_def)
qed

lemma clock_frames [registry_defs]:
  "mapStakers (ExitReplayModeInternal r) = mapStakers r" "queue (ExitReplayModeInternal r) = queue r"
  "mapStakers (snd (DockInactiveKeys r m)) = mapStakers r" "queue (snd (DockInactiveKeys r m)) = queue r"
  "mapStakers (PurgeLowBalances r m) = mapStakers r" "queue (PurgeLowBalances r m) = queue r"
  by (simp_all add: ExitReplayModeInternal_def DockInactiveKeys_def PurgeLowBalances_def Let_def
      split: prod.splits)

lemma clock_inv_cong:
  "clock_inv t r \<Longrightarrow> keeps_stakers r r' \<Longrightarrow> queue_wf (queue r') \<Longrightarrow> queue_fits (queue r') \<Longrightarrow> clock_inv t r'"
  using keeps_stakers_length [of r r'] by (simp add: clock_inv_def keeps_stakers_def)

text \<open>Advancing by one slot, or into a new round, moves the end of the current slot by five seconds.\<close>

lemma IncrementSlot_advance:
  assumes "queue_wf q" and "queue_fits q" and "IncrementSlot q = (True, q')"
  shows "queue_wf q'" "queue_fits q'" "slot_end q' = slot_end q + 5"
proof -
  have ne: "vStakerIDs q \<noteq> []" using assms(2) by (simp add: queue_fits_def)
  have q': "q' = q\<lparr>nCurrentSlot := nCurrentSlot q + 1\<rparr>" "unat (nCurrentSlot q) + 1 < queue_len q"
    using assms(3) IncrementSlot_cases [OF assms(1) ne] by (auto split: if_splits)
  have "unat (nCurrentSlot q) + 1 < 2 ^ 32" using q'(2) assms(1) by (simp add: queue_wf_def)
  then have "unat (nCurrentSlot q + 1) = unat (nCurrentSlot q) + 1" by (intro unat_Suc_small) simp
  then show "slot_end q' = slot_end q + 5" by (simp add: q' slot_end_def)
  show "queue_wf q'" "queue_fits q'"
    using queue_wf_IncrementSlot [OF assms(1)] assms by (simp_all add: queue_fits_def q')
qed

lemma IncrementSlot_last:
  assumes "queue_wf q" and "queue_fits q" and "IncrementSlot q = (False, q')"
  shows "slot_end q + 1 = unat (nSlotTime0 q) + 5 * queue_len q" "unat (GetMaxTime q + 1) = slot_end q + 1"
proof -
  have ne: "vStakerIDs q \<noteq> []" using assms(2) by (simp add: queue_fits_def)
  have c: "unat (nCurrentSlot q) < queue_len q" using assms by (auto simp: queue_wf_def queue_fits_def)
  then have "unat (nCurrentSlot q) + 1 = queue_len q"
    using assms(3) IncrementSlot_cases [OF assms(1) ne] by (auto split: if_splits)
  then show e: "slot_end q + 1 = unat (nSlotTime0 q) + 5 * queue_len q" by (simp add: slot_end_def)
  have "unat (GetMaxTime q) = slot_end q" using unat_GetMaxTime [OF assms(2)] e by simp
  moreover have "slot_end q + 1 < 2 ^ 32" using e assms(2) by (simp add: queue_fits_def)
  ultimately show "unat (GetMaxTime q + 1) = slot_end q + 1"
    using unat_Suc_small [of "GetMaxTime q"] by simp
qed

lemma new_round_fits:
  assumes "unat t = slot_end q + 1" and "slot_end q < unat nTime"
    and "mset ids = mset (EnabledIDs r)" and "clock_inv nTime r" and "0 < n_enabled r"
  shows "queue_wf (QPQueue_new t ids)" "queue_fits (QPQueue_new t ids)"
    "slot_end (QPQueue_new t ids) = slot_end q + 5"
proof -
  have len: "length ids = n_enabled r" using assms(3) by (metis n_enabled_def size_mset)
  then have le: "length ids \<le> length (mapStakers r)" using n_enabled_le by simp
  show "queue_wf (QPQueue_new t ids)" using le assms(4) by (intro queue_wf_new) (simp add: clock_inv_def)
  show "queue_fits (QPQueue_new t ids)"
    using le len assms by (auto simp: queue_fits_def clock_inv_def)
  show "slot_end (QPQueue_new t ids) = slot_end q + 5" using assms(1) by (simp add: slot_end_def)
qed

lemma power_step_simps [registry_defs]:
  "mapStakers (power_step env r) = mapStakers r" "queue (power_step env r) = queue r"
  by (simp_all add: power_step_def Let_def clock_frames)

lemma miss_step_frame:
  assumes "clock_inv t r"
  shows "\<exists>r1. miss_step env pindex r n = Some r1 \<and> queue r1 = queue r \<and> keeps_stakers r r1"
proof -
  have wf: "om_wf (mapStakers r)" "length (mapStakers r) < 2 ^ 32"
    using assms by (auto simp: clock_inv_def)
  have "GetCurrentID (queue r) \<noteq> None"
    using assms by (auto simp: clock_inv_def queue_wf_def queue_fits_def GetCurrentID_def)
  then obtain i where "GetCurrentID (queue r) = Some i" by blast
  then show ?thesis
    using StakerMissedBlock_frame [OF wf refl, of env i "bi_nHeight pindex"] keeps_stakers_refl [OF wf(1)]
      keeps_stakers_cong [of "ExitReplayModeInternal r" r]
    by (simp add: miss_step_def Let_def clock_frames)
qed

lemma UpdateOnNewTime_body_step:
  assumes inv: "clock_inv nTime r" and en: "0 < n_enabled r" and draws: "draws_below env"
    and lt: "slot_end (queue r) < unat nTime"
  shows "\<exists>r' n'. UpdateOnNewTime_body env pindex (r, n) = Some (True, r', n') \<and> clock_inv nTime r' \<and>
    slot_end (queue r') = slot_end (queue r) + 5 \<and> keeps_stakers r r'"
proof -
  obtain r1 where r1: "miss_step env pindex r n = Some r1" "queue r1 = queue r" "keeps_stakers r r1"
    using miss_step_frame [OF inv] by blast
  have q: "queue_wf (queue r)" "queue_fits (queue r)" using inv by (simp_all add: clock_inv_def)
  obtain b q' where inc: "IncrementSlot (queue r) = (b, q')" by force
  show ?thesis
  proof (cases b)
    case True
    with inc have inc: "IncrementSlot (queue r) = (True, q')" by simp
    note adv = IncrementSlot_advance [OF q inc]
    let ?r' = "power_step env (r1\<lparr>queue := q'\<rparr>)"
    have k: "keeps_stakers r ?r'"
      using r1(3) keeps_stakers_cong [of ?r' r1] by (simp add: registry_defs)
    then have "clock_inv nTime ?r'" using inv adv by (intro clock_inv_cong [OF inv]) (simp_all add: registry_defs)
    then show ?thesis
      using k adv r1 inc by (simp add: UpdateOnNewTime_body_def registry_defs)
  next
    case False
    let ?p = "PurgeLowBalances (snd (DockInactiveKeys r1 (bi_nMoneySupply pindex))) (bi_nMoneySupply pindex)"
    from False inc have inc: "IncrementSlot (queue r) = (False, q')" by simp
    note lst = IncrementSlot_last [OF q inc]
    obtain ok r2 where nq: "NewQueue env ?p (GetMaxTime (queue r) + 1) (hashBlock ?p) = (ok, r2)" by force
    note c = NewQueue_cases [OF draws nq]
    have kp: "keeps_stakers r ?p" using r1(3) keeps_stakers_cong [of ?p r1] by (simp add: registry_defs)
    have inv_p: "clock_inv nTime ?p" using clock_inv_cong [OF inv kp] q r1(2) by (simp add: registry_defs)
    have en_p: "0 < n_enabled ?p" using kp en by (auto simp: keeps_stakers_def)
    with c(1) have ok: ok by simp
    note fit = new_round_fits [OF lst(2) lt conjunct2 [OF c(3) [OF ok]] inv_p en_p]
    let ?r' = "power_step env r2"
    have q2: "queue r2 = QPQueue_new (GetMaxTime (queue r) + 1) (vStakerIDs (queue r2))"
      using c(3) [OF ok] by simp
    have k: "keeps_stakers r ?r'"
      using kp keeps_stakers_cong [of ?r' ?p] c(2) by (simp add: registry_defs)
    have "clock_inv nTime ?r'"
      using clock_inv_cong [OF inv k] fit(1,2) q2 by (simp add: registry_defs)
    moreover have "slot_end (queue ?r') = slot_end (queue r) + 5"
      using fit(3) q2 by (simp add: registry_defs)
    ultimately show ?thesis
      using k r1(1,2) inc nq ok by (simp add: UpdateOnNewTime_body_def Let_def clock_frames)
  qed
qed

lemma UpdateOnNewTime_loop_returns:
  assumes "clock_inv nTime r" and "0 < n_enabled r" and "draws_below env"
  shows "\<exists>r'. UpdateOnNewTime_loop env pindex nTime (r, n) = Some (True, r') \<and> clock_inv nTime r' \<and>
    keeps_stakers r r' \<and> unat nTime \<le> slot_end (queue r') \<and>
    slot_end (queue r') < max (unat nTime + 5) (slot_end (queue r) + 1)"
  using assms
proof (induction "unat nTime - slot_end (queue r)" arbitrary: r n rule: less_induct)
  case less
  have q: "queue_wf (queue r)" "queue_fits (queue r)" using less.prems(1) by (simp_all add: clock_inv_def)
  have cond: "GetCurrentSlotEnd (queue r) < nTime \<longleftrightarrow> slot_end (queue r) < unat nTime"
    using GetCurrentSlotEnd_eq(1) [OF q] by (simp add: word_less_nat_alt)
  show ?case
  proof (cases "slot_end (queue r) < unat nTime")
    case False
    then show ?thesis
      using cond less.prems(1) keeps_stakers_refl [of r]
      by (subst UpdateOnNewTime_loop.simps) (auto simp: clock_inv_def)
  next
    case True
    obtain r1 n1 where r1: "UpdateOnNewTime_body env pindex (r, n) = Some (True, r1, n1)"
        "clock_inv nTime r1" "slot_end (queue r1) = slot_end (queue r) + 5" "keeps_stakers r r1"
      using UpdateOnNewTime_body_step [OF less.prems True] by blast
    have "0 < n_enabled r1" using r1(4) less.prems(2) by (auto simp: keeps_stakers_def)
    moreover have "unat nTime - slot_end (queue r1) < unat nTime - slot_end (queue r)"
      using r1(3) True by arith
    ultimately obtain r2 where r2: "UpdateOnNewTime_loop env pindex nTime (r1, n1) = Some (True, r2)"
        "clock_inv nTime r2" "keeps_stakers r1 r2" "unat nTime \<le> slot_end (queue r2)"
        "slot_end (queue r2) < max (unat nTime + 5) (slot_end (queue r1) + 1)"
      using less.hyps [OF _ r1(2) _ less.prems(3), of n1] by blast
    have "UpdateOnNewTime_loop env pindex nTime (r, n) = Some (True, r2)"
      using cond True r1(1) r2(1) by (subst UpdateOnNewTime_loop.simps) simp
    then show ?thesis using r2 r1(3) True keeps_stakers_trans [OF r1(4) r2(3)] by auto
  qed
qed

text \<open>The window of the current slot, read off \<open>slot_end\<close>.\<close>

lemma in_current_window_iff:
  assumes "queue_wf q" and "queue_fits q"
  shows "TimeIsInCurrentSlotWindow q t \<longleftrightarrow> unat t \<le> slot_end q \<and> slot_end q < unat t + 5"
proof -
  have c: "unat (nCurrentSlot q) < queue_len q" using assms by (auto simp: queue_wf_def queue_fits_def)
  have "GetCurrentSlotWindow q = window_at q (nCurrentSlot q)"
    by (simp add: GetCurrentSlotWindow_def window_at_def)
  then show ?thesis
    using unat_window_at [OF assms(2) c]
    by (auto simp: TimeIsInCurrentSlotWindow_def Let_def word_le_nat_alt slot_end_def)
qed

text \<open>
  C21. The registry always catches up: from a well-formed queue that is not ahead of the requested
  time, as long as one staker is enabled and one more round of all stakers fits below \<open>2\<^sup>3\<^sup>2\<close>, the
  catch-up loop returns success with the requested time inside the window of the current slot; it
  neither adds nor removes stakers, and it never disables a staker when that would leave fewer
  than three enabled.
\<close>

theorem UpdateOnNewTime_catches_up:
  assumes "clock_inv nTime r" and "0 < n_enabled r" and "draws_below env"
    and "slot_end (queue r) < unat nTime + 5"
  shows "\<exists>r'. UpdateOnNewTime_loop env pindex nTime (r, n) = Some (True, r') \<and>
    TimeIsInCurrentSlotWindow (queue r') nTime \<and>
    map fst (mapStakers r') = map fst (mapStakers r) \<and> min (n_enabled r) 3 \<le> n_enabled r'"
proof -
  obtain r' where r': "UpdateOnNewTime_loop env pindex nTime (r, n) = Some (True, r')"
      "clock_inv nTime r'" "keeps_stakers r r'" "unat nTime \<le> slot_end (queue r')"
      "slot_end (queue r') < max (unat nTime + 5) (slot_end (queue r) + 1)"
    using UpdateOnNewTime_loop_returns [OF assms(1-3)] by blast
  then have "TimeIsInCurrentSlotWindow (queue r') nTime"
    using assms(4) by (subst in_current_window_iff) (auto simp: clock_inv_def)
  with r' show ?thesis by (auto simp: keeps_stakers_def)
qed

text \<open>
  C22. A new round is fair: a queue can be built exactly when some staker is enabled, it then
  holds every enabled staker exactly once and nobody else, starts at slot 0 at the given time,
  and has no produced slot.
\<close>

theorem NewQueue_permutation:
  assumes "draws_below env" and "om_wf (mapStakers r)" and "NewQueue env r t h = (ok, r')"
  shows "(ok \<longleftrightarrow> EnabledIDs r \<noteq> []) \<and>
    (ok \<longrightarrow> mset (vStakerIDs (queue r')) = mset (EnabledIDs r) \<and> distinct (vStakerIDs (queue r')) \<and>
      nCurrentSlot (queue r') = 0 \<and> nSlotTime0 (queue r') = t \<and>
      (\<forall>b \<in> set (vchBlockStats (queue r')). b = 0) \<and> queuePrev r' = queue r)"
proof -
  note c = NewQueue_cases [OF assms(1,3)]
  have d: "distinct (EnabledIDs r)"
    using om_wf_distinct [OF assms(2)] by (simp add: EnabledIDs_def distinct_map_filter)
  have "queuePrev r' = queue r" if ok
    using assms(3) that by (auto simp: NewQueue_def Let_def split: if_splits)
  moreover have "distinct (vStakerIDs (queue r'))" if ok
    using c(3) [OF that] d by (metis mset_eq_imp_distinct_iff)
  moreover have "\<forall>b \<in> set (vchBlockStats (queue r')). b = 0" "nSlotTime0 (queue r') = t"
      "nCurrentSlot (queue r') = 0" if ok
    using conjunct1 [OF c(3) [OF that]] new_queue_simps [of t "vStakerIDs (queue r')"]
      new_queue_stats [of _ t "vStakerIDs (queue r')"] by simp_all
  ultimately show ?thesis using c by (auto simp: n_enabled_def)
qed

end
