(* ===== verification/QPRegistryBlock.thy ===== *)
theory QPRegistryBlock
  imports QPRegistryTime
begin

text \<open>
  The registry across whole blocks: conservation of the block reward, the rules for claims, the
  acceptance of blocks, and the invariant that every accepted block keeps, from the empty
  registry on.
\<close>

section \<open>Rewards and claims in the ledger\<close>

lemma credit_balance_ledger:
  "mapBalances (credit_balance k n r) = ledger.credit k n (mapBalances r)"
  by (simp add: credit_balance_def ledger.credit_def om_at_def)

lemma credit_balance_simps [registry_defs]:
  "mapStakers (credit_balance k n r) = mapStakers r" "mapActive (credit_balance k n r) = mapActive r"
  "nIDCounter (credit_balance k n r) = nIDCounter r" "mapAliases (credit_balance k n r) = mapAliases r"
  "mapLastClaim (credit_balance k n r) = mapLastClaim r" "queue (credit_balance k n r) = queue r"
  "mapNftOwners (credit_balance k n r) = mapNftOwners r"
  "mapNftOwnerLookup (credit_balance k n r) = mapNftOwnerLookup r"
  "nBlockHeight (credit_balance k n r) = nBlockHeight r"
  "nHeightExitedReplay (credit_balance k n r) = nHeightExitedReplay r"
  by (simp_all add: credit_balance_def)

text \<open>What a produced block does, in the order of the source.\<close>

definition pay_rewards :: "qp_env \<Rightarrow> QPStaker \<Rightarrow> int \<Rightarrow> int \<Rightarrow> QPRegistry \<Rightarrow> QPRegistry" where
  "pay_rewards env s ow de r =
     (let r = (if env_fTestNet env \<and> fork_at env (nBlockHeight r) < XST_FORKMISSFIX
               then credit_balance (pubkeyOwner s) ow r else credit_balance (pubkeyManager s) ow r)
      in if de > 0 then credit_balance (pubkeyDelegate s) de r else r)"

lemma StakerProducedBlock_True:
  assumes "StakerProducedBlock env r p reward = (True, r')"
  obtains s s1 ow de r1 r2 where
    "GetStakerInternal r (bi_nStakerID p) = Some s" and "\<not> IsDisqualified s"
    and "ProducedBlock s (bi_hashBlock p) reward (fPrevBlockWasProduced r) = (s1, ow, de)"
    and "r1 = pay_rewards env s1 ow de (put_staker (bi_nStakerID p) s1
           (r\<lparr>powerRoundCurrent := PowerRound_PushBack (powerRoundCurrent r) (bi_nStakerID p)
               (GetWeight s ((nIDCounter r + 1) - bi_nStakerID p)) True\<rparr>))"
    and "r2 \<in> {r1, snd (DisqualifyStakerIfNecessary env r1 (bi_nStakerID p) s1)}"
    and "r' = r2\<lparr>rg_bRecentBlocks := bset0 (shl1 (rg_bRecentBlocks r2)),
                 fCurrentBlockWasProduced := True, fPrevBlockWasProduced := True\<rparr>"
proof -
  obtain s where s: "GetStakerInternal r (bi_nStakerID p) = Some s" "\<not> IsDisqualified s"
    using assms by (auto simp: StakerProducedBlock_def Let_def split: option.splits if_splits)
  obtain s1 ow de where pb: "ProducedBlock s (bi_hashBlock p) reward (fPrevBlockWasProduced r) = (s1, ow, de)"
    by (metis prod.exhaust)
  let ?r0 = "r\<lparr>powerRoundCurrent := PowerRound_PushBack (powerRoundCurrent r) (bi_nStakerID p)
               (GetWeight s ((nIDCounter r + 1) - bi_nStakerID p)) True\<rparr>"
  have pb': "ProducedBlock s (bi_hashBlock p) reward (fPrevBlockWasProduced ?r0) = (s1, ow, de)"
    using pb by simp
  define r1 where "r1 = pay_rewards env s1 ow de (put_staker (bi_nStakerID p) s1 ?r0)"
  define r2 where "r2 = (if fork_at env (nBlockHeight r1) < XST_FORKREINSTATE
     then snd (DisqualifyStakerIfNecessary env r1 (bi_nStakerID p) s1) else r1)"
  have "StakerProducedBlock env r p reward = (True, r2\<lparr>rg_bRecentBlocks := bset0 (shl1 (rg_bRecentBlocks r2)),
                 fCurrentBlockWasProduced := True, fPrevBlockWasProduced := True\<rparr>)"
    unfolding StakerProducedBlock_def r2_def r1_def pay_rewards_def
    by (simp only: Let_def s option.case if_False pb' prod.case)
  then have r': "r' = r2\<lparr>rg_bRecentBlocks := bset0 (shl1 (rg_bRecentBlocks r2)),
                 fCurrentBlockWasProduced := True, fPrevBlockWasProduced := True\<rparr>"
    using assms by simp
  have "r2 \<in> {r1, snd (DisqualifyStakerIfNecessary env r1 (bi_nStakerID p) s1)}" by (simp add: r2_def)
  from that [OF s pb r1_def this r'] show ?thesis .
qed

lemma pay_rewards_simps [registry_defs]:
  "mapStakers (pay_rewards env s ow de r) = mapStakers r"
  "mapActive (pay_rewards env s ow de r) = mapActive r"
  "nIDCounter (pay_rewards env s ow de r) = nIDCounter r"
  "mapAliases (pay_rewards env s ow de r) = mapAliases r"
  "mapLastClaim (pay_rewards env s ow de r) = mapLastClaim r"
  "queue (pay_rewards env s ow de r) = queue r"
  "mapNftOwners (pay_rewards env s ow de r) = mapNftOwners r"
  "mapNftOwnerLookup (pay_rewards env s ow de r) = mapNftOwnerLookup r"
  by (simp_all add: pay_rewards_def Let_def registry_defs)

lemma pay_rewards_total:
  assumes "om_wf (mapBalances r)" and "0 \<le> de"
  shows "om_total (mapBalances (pay_rewards env s ow de r)) = om_total (mapBalances r) + (ow + de)"
    and "om_wf (mapBalances (pay_rewards env s ow de r))"
  using assms
  by (auto simp: pay_rewards_def Let_def credit_balance_ledger ledger.total_credit ledger.wf_credit
      ledger.total_credit_two)

lemma Disqualify_frame [registry_defs]:
  "mapBalances (snd (DisqualifyStakerIfNecessary env r i s)) = mapBalances r"
  "mapActive (snd (DisqualifyStakerIfNecessary env r i s)) = mapActive r"
  "mapLastClaim (snd (DisqualifyStakerIfNecessary env r i s)) = mapLastClaim r"
  "mapAliases (snd (DisqualifyStakerIfNecessary env r i s)) = mapAliases r"
  "nIDCounter (snd (DisqualifyStakerIfNecessary env r i s)) = nIDCounter r"
  "queue (snd (DisqualifyStakerIfNecessary env r i s)) = queue r"
  "mapNftOwners (snd (DisqualifyStakerIfNecessary env r i s)) = mapNftOwners r"
  "mapNftOwnerLookup (snd (DisqualifyStakerIfNecessary env r i s)) = mapNftOwnerLookup r"
  by (auto simp: DisqualifyStakerIfNecessary_def DisqualifyStaker_def put_staker_def Let_def
      split: option.splits)

lemma StakerProducedBlock_total:
  assumes "om_wf (mapBalances r)" and "0 \<le> reward" and "StakerProducedBlock env r p reward = (True, r')"
  shows "om_total (mapBalances r') = om_total (mapBalances r) + reward"
  using assms(3)
proof (rule StakerProducedBlock_True)
  fix s s1 ow de r1 r2
  let ?r0 = "put_staker (bi_nStakerID p) s1
     (r\<lparr>powerRoundCurrent := PowerRound_PushBack (powerRoundCurrent r) (bi_nStakerID p)
         (GetWeight s ((nIDCounter r + 1) - bi_nStakerID p)) True\<rparr>)"
  assume pb: "ProducedBlock s (bi_hashBlock p) reward (fPrevBlockWasProduced r) = (s1, ow, de)"
    and r1: "r1 = pay_rewards env s1 ow de ?r0"
    and r2: "r2 \<in> {r1, snd (DisqualifyStakerIfNecessary env r1 (bi_nStakerID p) s1)}"
    and r': "r' = r2\<lparr>rg_bRecentBlocks := bset0 (shl1 (rg_bRecentBlocks r2)),
                 fCurrentBlockWasProduced := True, fPrevBlockWasProduced := True\<rparr>"
  note rew = ProducedBlock_rewards [OF pb]
  have "mapBalances ?r0 = mapBalances r" by (simp add: registry_defs)
  then have "om_total (mapBalances r1) = om_total (mapBalances r) + (ow + de)"
    using pay_rewards_total(1) [of ?r0 de env s1 ow] assms(1) rew(3) [OF assms(2)] by (simp add: r1)
  moreover have "mapBalances r' = mapBalances r1" using r2 by (auto simp: r' registry_defs)
  ultimately show ?thesis using rew(1) by simp
qed

text \<open>A claim takes exactly its value out of one balance.\<close>

lemma ApplyClaim_effect:
  assumes "om_wf (mapBalances r)" and "ApplyClaim env r deet t = (True, r')"
  shows "\<exists>key bal. deet_keys deet = [key] \<and> map_of (mapBalances r) key = Some bal \<and>
    deet_value deet \<le> bal \<and>
    map_of (mapBalances r') = (map_of (mapBalances r))(key \<mapsto> bal - deet_value deet) \<and>
    om_total (mapBalances r') = om_total (mapBalances r) - deet_value deet \<and>
    mapStakers r' = mapStakers r \<and> map_of (mapLastClaim r') key = Some t"
proof -
  obtain key where k: "deet_keys deet = [key]" "CanClaimInternal env r key (deet_value deet) t"
    and r': "r' = r\<lparr>mapLastClaim := om_put key t (mapLastClaim r),
       mapBalances := om_put key (om_at 0 (mapBalances r) key - deet_value deet) (mapBalances r)\<rparr>"
    using assms(2) by (auto simp: ApplyClaim_True)
  obtain bal where b: "map_of (mapBalances r) key = Some bal" "deet_value deet \<le> bal"
    using k(2) by (cases "map_of (mapBalances r) key")
      (auto simp: CanClaimInternal_def Let_def split: if_splits)
  show ?thesis
    using k(1) b ledger.total_put [OF assms(1), of key "bal - deet_value deet"]
    by (intro exI [of _ key] exI [of _ bal]) (simp add: r' om_at_def)
qed

lemma CanClaim_spacing:
  assumes "\<not> env_fTestNet env" and "map_of (mapLastClaim r) key = Some t"
    and "CanClaimInternal env r key v t'" and "0 < t'"
  shows "t + 86400 \<le> t'"
  using assms by (auto simp: CanClaimInternal_def Let_def QP_MIN_SECS_PER_CLAIM_def split: option.splits if_splits)

text \<open>
  C23. Block rewards are conserved: when a block is credited, the sum of all balances grows by
  exactly the reward, whatever the delegate's share and whatever happens to the staker's status.
\<close>

theorem StakerProducedBlock_conserves:
  assumes "om_wf (mapBalances r)" and "0 \<le> reward" and "StakerProducedBlock env r p reward = (True, r')"
  shows "om_total (mapBalances r') = om_total (mapBalances r) + reward"
  by (rule StakerProducedBlock_total [OF assms])

text \<open>
  C24. Claims cannot overdraw and cannot be repeated at once: a successful claim finds a balance of
  at least its value and lowers that balance and the total by exactly the value, touching no other
  balance; on the main network the next successful claim of the same key comes at least a day
  (86400 seconds) later, whatever happened to the ledger in between, as long as the time of the
  first claim is still recorded.
\<close>

theorem ApplyClaim_no_overdraw:
  assumes "om_wf (mapBalances r)" and "ApplyClaim env r deet t = (True, r')"
  shows "\<exists>key bal. deet_keys deet = [key] \<and> map_of (mapBalances r) key = Some bal \<and>
    deet_value deet \<le> bal \<and>
    map_of (mapBalances r') = (map_of (mapBalances r))(key \<mapsto> bal - deet_value deet) \<and>
    om_total (mapBalances r') = om_total (mapBalances r) - deet_value deet \<and>
    (\<forall>env2 r2 deet2 t2 r3. \<not> env_fTestNet env2 \<and> 0 < t2 \<and> deet_keys deet2 = [key] \<and>
       map_of (mapLastClaim r2) key = map_of (mapLastClaim r') key \<and>
       ApplyClaim env2 r2 deet2 t2 = (True, r3) \<longrightarrow> t + 86400 \<le> t2)"
proof -
  obtain key bal where k: "deet_keys deet = [key]" "map_of (mapBalances r) key = Some bal"
      "deet_value deet \<le> bal" "map_of (mapBalances r') = (map_of (mapBalances r))(key \<mapsto> bal - deet_value deet)"
      "om_total (mapBalances r') = om_total (mapBalances r) - deet_value deet"
      "map_of (mapLastClaim r') key = Some t"
    using ApplyClaim_effect [OF assms] by blast
  have "t + 86400 \<le> t2"
    if "\<not> env_fTestNet env2" "0 < t2" "deet_keys deet2 = [key]"
      "map_of (mapLastClaim r2) key = map_of (mapLastClaim r') key"
      "ApplyClaim env2 r2 deet2 t2 = (True, r3)" for env2 r2 deet2 t2 r3
    using that CanClaim_spacing [of env2 r2 key t "deet_value deet2" t2] k(6)
    by (auto simp: ApplyClaim_True)
  with k show ?thesis by blast
qed

section \<open>The invariant of the chain\<close>

text \<open>
  Everything together, for the main network: identifiers, NFTs, ordered maps, reference counts,
  and no negative balance.
\<close>

definition chain_inv :: "qp_env \<Rightarrow> QPRegistry \<Rightarrow> bool" where
  "chain_inv env r \<longleftrightarrow> counted_wf env r \<and> list_all (\<lambda>(k, b). 0 \<le> b) (mapBalances r)"

lemma chain_inv_cong:
  assumes "chain_inv env r" and "mapStakers r' = mapStakers r" "mapBalances r' = mapBalances r"
    "mapLastClaim r' = mapLastClaim r" "mapActive r' = mapActive r" "mapAliases r' = mapAliases r"
    "nIDCounter r' = nIDCounter r" "mapNftOwners r' = mapNftOwners r"
    "mapNftOwnerLookup r' = mapNftOwnerLookup r"
  shows "chain_inv env r'"
  using assms
  by (simp add: chain_inv_def counted_wf_def registry_wf_def maps_wf_def ids_wf_def active_wf_def key_refs_def)

lemma chain_inv_new: "chain_inv env (QPRegistry_new env)"
  by (auto simp: chain_inv_def counted_wf_def registry_wf_def maps_wf_def ids_wf_def active_wf_def
      key_refs_def QPRegistry_new_def om_at_def)

lemma chain_inv_put_staker:
  assumes "chain_inv env r" and "map_of (mapStakers r) i = Some s0"
    and "staker_wf s0 \<Longrightarrow> staker_wf s" and "\<And>k. key_uses k s = key_uses k s0"
  shows "chain_inv env (put_staker i s r)"
proof -
  have wf: "registry_wf env r" "active_wf r" using assms(1) by (simp_all add: chain_inv_def counted_wf_def)
  have om: "om_wf (mapStakers r)" using wf by (simp add: registry_wf_def maps_wf_def)
  have "active_wf (put_staker i s r)"
    using assms(4) by (intro active_wf_same_refs [OF wf(2)])
      (simp_all add: key_refs_put [OF om assms(2)] registry_defs)
  moreover have "registry_wf env (put_staker i s r)"
    using registry_wf_put_staker [OF wf(1) assms(2,3)] by blast
  ultimately show ?thesis
    using assms(1) by (simp add: chain_inv_def counted_wf_def registry_defs)
qed

lemma key_uses_status [simp]:
  "key_uses k (Disable s h) = key_uses k s" "key_uses k (Disqualify s) = key_uses k s"
  "key_uses k (Requalify s e) = key_uses k s" "key_uses k (SawBlock s) = key_uses k s"
  "key_uses k (ResetDocked s) = key_uses k s" "key_uses k (MissedBlock s p f) = key_uses k s"
  "key_uses k (fst (ProducedBlock s h' rw p)) = key_uses k s"
  by (simp_all add: key_uses_def staker_update_defs Let_def)

lemma chain_inv_Disable:
  "chain_inv env r \<Longrightarrow> chain_inv env (snd (DisableStakerIfNecessary env r i s h))"
  by (auto simp: DisableStakerIfNecessary_def DisableStaker_def split: option.splits
      dest!: staker_lookup intro!: chain_inv_put_staker staker_wf_updates)

lemma chain_inv_Disqualify:
  "chain_inv env r \<Longrightarrow> chain_inv env (snd (DisqualifyStakerIfNecessary env r i s))"
  by (auto simp: DisqualifyStakerIfNecessary_def DisqualifyStaker_def Let_def split: option.splits
      dest!: staker_lookup intro!: chain_inv_put_staker staker_wf_updates)

lemma chain_inv_map_stakers:
  assumes "chain_inv env r" and "\<And>s. staker_wf s \<Longrightarrow> staker_wf (f s)"
    and "\<And>k s. key_uses k (f s) = key_uses k s"
  shows "chain_inv env (r\<lparr>mapStakers := om_map_vals f (mapStakers r)\<rparr>)"
proof -
  have "key_refs (r\<lparr>mapStakers := om_map_vals f (mapStakers r)\<rparr>) k = key_refs r k" for k
    by (simp add: key_refs_def om_map_vals_def assms(3) split_def comp_def)
  moreover have "list_all (\<lambda>(i, s). staker_wf s) (om_map_vals f (mapStakers r))"
    if "list_all (\<lambda>(i, s). staker_wf s) (mapStakers r)"
    using that assms(2) by (auto simp: om_map_vals_def list_all_iff)
  ultimately show ?thesis
    using assms(1)
    by (simp add: chain_inv_def counted_wf_def registry_wf_def maps_wf_def ids_wf_def active_wf_def)
qed

lemma chain_inv_credit:
  assumes "chain_inv env r" and "0 \<le> n"
  shows "chain_inv env (credit_balance k n r)"
proof -
  have "0 \<le> om_at 0 (mapBalances r) k"
    using assms(1) map_of_SomeD [of "mapBalances r" k]
    by (auto simp: chain_inv_def om_at_def list_all_iff split: option.splits)
  then show ?thesis
    using assms by (auto simp: chain_inv_def counted_wf_def registry_wf_def maps_wf_def ids_wf_def
        active_wf_def key_refs_def credit_balance_def)
qed

text \<open>Docking an inactive key and purging what is left below the dock value.\<close>

lemma Dock_loop_frame:
  assumes "DockInactiveKeys_loop d act (f, bal) = (g, bal')"
  shows "om_wf bal \<Longrightarrow> om_wf bal'" "om_count k bal' = om_count k bal"
    "(\<And>n. (k, n) \<in> set act \<Longrightarrow> 1 \<le> n) \<Longrightarrow> map_of bal' k = map_of bal k"
proof -
  have "(om_wf bal \<longrightarrow> om_wf bal') \<and> om_count k bal' = om_count k bal \<and>
      ((\<forall>n. (k, n) \<in> set act \<longrightarrow> 1 \<le> n) \<longrightarrow> map_of bal' k = map_of bal k)"
    using assms
  proof (induction act arbitrary: f bal)
    case (Cons p act)
    obtain key n where p: "p = (key, n)" by force
    obtain f1 bal1 where st: "(if n < 1 then (case map_of bal key of None \<Rightarrow> (False, bal)
        | Some b \<Rightarrow> (f, om_put key (b - d) bal)) else (f, bal)) = (f1, bal1)" by force
    then have "DockInactiveKeys_loop d act (f1, bal1) = (g, bal')" using Cons.prems p by simp
    note IH = Cons.IH [OF this]
    have "(om_wf bal \<longrightarrow> om_wf bal1) \<and> om_count k bal1 = om_count k bal \<and>
        (k = key \<and> n < 1 \<or> map_of bal1 k = map_of bal k)"
      using st by (auto simp: om_count_def split: if_splits option.splits)
    with IH p show ?case by force
  qed simp
  then show "om_wf bal \<Longrightarrow> om_wf bal'" "om_count k bal' = om_count k bal"
    "(\<And>n. (k, n) \<in> set act \<Longrightarrow> 1 \<le> n) \<Longrightarrow> map_of bal' k = map_of bal k"
    by simp_all
qed

lemma fold_om_erase:
  "map_of (fold om_erase ks m) k = (if k \<in> set ks then None else map_of m k)"
  "om_wf m \<Longrightarrow> om_wf (fold om_erase ks m)"
  by (induction ks arbitrary: m) auto

lemma dock_value_nonneg: "0 \<le> m \<Longrightarrow> 0 \<le> m sdiv DOCK_INACTIVE_FRACTION"
  by (simp add: signed_divide_int_def DOCK_INACTIVE_FRACTION_def sgn_if)

lemma active_wf_purge:
  assumes wf: "active_wf r" and keys: "\<And>k. k \<in> set ks \<Longrightarrow> om_at 0 (mapActive r) k \<le> 0"
    and r': "mapStakers r' = mapStakers r" "mapActive r' = fold om_erase ks (mapActive r)"
      "\<And>k. om_count k (mapBalances r') \<longleftrightarrow> k \<notin> set ks \<and> om_count k (mapBalances r)"
  shows "active_wf r'"
proof -
  have act: "om_at 0 (mapActive r) k = key_refs r k" for k using wf by (simp add: active_wf_def)
  have nn: "0 \<le> key_refs r k" for k
    unfolding key_refs_def by (rule sum_list_nonneg) (auto simp: key_uses_nonneg)
  have z: "key_refs r k = 0" if "k \<in> set ks" for k using keys [OF that] act nn [of k] by simp
  have "om_at 0 (mapActive r') k = key_refs r' k" for k
    using act [of k] z [of k] by (auto simp: om_at_def r' fold_om_erase key_refs_cong [OF r'(1)])
  moreover have "0 < key_refs r' k \<Longrightarrow> om_count k (mapBalances r')" for k
    using wf z [of k] by (auto simp: active_wf_def r'(3) key_refs_cong [OF r'(1)])
  ultimately show ?thesis by (simp add: active_wf_def)
qed

lemma chain_inv_dock_purge:
  assumes inv: "chain_inv env r" and m: "0 \<le> m"
  shows "chain_inv env (PurgeLowBalances (snd (DockInactiveKeys r m)) m)"
proof -
  let ?d = "m sdiv DOCK_INACTIVE_FRACTION"
  obtain g bal where dk: "DockInactiveKeys_loop ?d (mapActive r) (True, mapBalances r) = (g, bal)"
    by force
  note fr = Dock_loop_frame [OF dk]
  let ?r1 = "r\<lparr>mapBalances := bal\<rparr>"
  define ks where "ks = map fst (filter (\<lambda>(key, b). b < ?d \<and> om_at 0 (mapActive r) key \<le> 0) bal)"
  let ?r2 = "PurgeLowBalances (snd (DockInactiveKeys r m)) m"
  have r2: "?r2 = ?r1\<lparr>mapBalances := fold om_erase ks bal, mapActive := fold om_erase ks (mapActive r)\<rparr>"
    unfolding ks_def using dk by (simp add: PurgeLowBalances_def DockInactiveKeys_def Let_def)
  have wf: "registry_wf env r" "active_wf r" and maps: "maps_wf r"
    using inv by (simp_all add: chain_inv_def counted_wf_def registry_wf_def)
  have "om_wf bal" "om_wf (mapActive r)" using fr(1) maps by (simp_all add: maps_wf_def)
  then have reg: "registry_wf env ?r2"
    using wf(1) by (simp add: r2 registry_wf_def maps_wf_def ids_wf_def fold_om_erase(2))
  have "active_wf ?r1" using wf(2) fr(2) by (simp add: active_wf_def key_refs_def)
  then have act: "active_wf ?r2"
    by (rule active_wf_purge [where ks = ks]) (auto simp: r2 om_count_def fold_om_erase ks_def)
  have "0 \<le> b" if b: "map_of (mapBalances ?r2) k = Some b" for k b
  proof -
    have kb: "k \<notin> set ks" "map_of bal k = Some b"
      using b by (auto simp: r2 fold_om_erase split: if_splits)
    show ?thesis
    proof (cases "om_at 0 (mapActive r) k \<le> 0")
      case True
      then have "\<not> b < ?d" using kb map_of_SomeD [OF kb(2)] by (force simp: ks_def)
      then show ?thesis using dock_value_nonneg [OF m] by simp
    next
      case False
      then have "1 \<le> n" if "(k, n) \<in> set (mapActive r)" for n
        using that om_in_set_iff [OF \<open>om_wf (mapActive r)\<close>] by (auto simp: om_at_def)
      then have "map_of (mapBalances r) k = Some b" using fr(3) kb(2) by simp
      then show ?thesis using inv by (auto simp: chain_inv_def list_all_iff dest!: map_of_SomeD)
    qed
  qed
  moreover have "om_wf (mapBalances ?r2)" using reg by (simp add: registry_wf_def maps_wf_def)
  ultimately have "list_all (\<lambda>(k, b). 0 \<le> b) (mapBalances ?r2)"
    by (auto simp: list_all_iff om_in_set_iff)
  then show ?thesis using reg act by (simp add: chain_inv_def counted_wf_def)
qed

text \<open>The remaining steps of the clock and of a block.\<close>

lemma chain_inv_Missed:
  assumes "chain_inv env r"
  shows "chain_inv env (snd (StakerMissedBlock env r i h))"
proof (cases "\<exists>s. GetStakerInternal r i = Some s \<and> \<not> IsDisqualified s")
  case False
  then show ?thesis using assms by (auto simp: StakerMissedBlock_def Let_def split: option.splits)
next
  case True
  then obtain s where s: "GetStakerInternal r i = Some s" "\<not> IsDisqualified s" by blast
  define r0 where "r0 = r\<lparr>powerRoundCurrent := PowerRound_PushBack (powerRoundCurrent r) i
      (GetWeight s ((nIDCounter r + 1) - i)) False\<rparr>"
  define s' where "s' = MissedBlock s (fPrevBlockWasProduced r0) (fork_at env h)"
  define r1 where "r1 = put_staker i s' r0"
  define r2 where "r2 = (if fork_at env h \<ge> XST_FORKMISSFIX
      then snd (DisableStakerIfNecessary env r1 i s' h) else r1)"
  have "chain_inv env r0" unfolding r0_def by (rule chain_inv_cong [OF assms]) simp_all
  moreover have "map_of (mapStakers r0) i = Some s" using staker_lookup [OF s(1)] by (simp add: r0_def)
  ultimately have "chain_inv env r1"
    unfolding r1_def s'_def by (rule chain_inv_put_staker) (auto intro: staker_wf_MissedBlock)
  then have "chain_inv env r2" unfolding r2_def by (auto intro: chain_inv_Disable)
  moreover have "snd (StakerMissedBlock env r i h) =
      r2\<lparr>rg_bRecentBlocks := shl1 (rg_bRecentBlocks r2), fPrevBlockWasProduced := False\<rparr>"
    unfolding StakerMissedBlock_def r2_def r1_def s'_def r0_def
    by (simp only: Let_def s option.case if_False snd_conv)
  ultimately show ?thesis by (auto intro: chain_inv_cong [of env r2])
qed

lemma chain_inv_Produced:
  assumes "chain_inv env r" and "0 \<le> reward" and "StakerProducedBlock env r p reward = (True, r')"
  shows "chain_inv env r'"
  using assms(3)
proof (rule StakerProducedBlock_True)
  fix s s1 ow de r1 r2
  let ?q = "r\<lparr>powerRoundCurrent := PowerRound_PushBack (powerRoundCurrent r) (bi_nStakerID p)
         (GetWeight s ((nIDCounter r + 1) - bi_nStakerID p)) True\<rparr>"
  assume s: "GetStakerInternal r (bi_nStakerID p) = Some s"
    and pb: "ProducedBlock s (bi_hashBlock p) reward (fPrevBlockWasProduced r) = (s1, ow, de)"
    and r1: "r1 = pay_rewards env s1 ow de (put_staker (bi_nStakerID p) s1 ?q)"
    and r2: "r2 \<in> {r1, snd (DisqualifyStakerIfNecessary env r1 (bi_nStakerID p) s1)}"
    and r': "r' = r2\<lparr>rg_bRecentBlocks := bset0 (shl1 (rg_bRecentBlocks r2)),
                 fCurrentBlockWasProduced := True, fPrevBlockWasProduced := True\<rparr>"
  note rew = ProducedBlock_rewards(2,3) [OF pb assms(2)]
  have s1: "s1 = fst (ProducedBlock s (bi_hashBlock p) reward (fPrevBlockWasProduced r))" by (simp add: pb)
  have "chain_inv env ?q" by (rule chain_inv_cong [OF assms(1)]) simp_all
  moreover have "map_of (mapStakers ?q) (bi_nStakerID p) = Some s" using staker_lookup [OF s] by simp
  ultimately have "chain_inv env (put_staker (bi_nStakerID p) s1 ?q)"
    unfolding s1 by (rule chain_inv_put_staker) (auto intro: staker_wf_ProducedBlock)
  then have "chain_inv env r1"
    unfolding r1 pay_rewards_def using rew by (auto simp: Let_def intro!: chain_inv_credit)
  then have "chain_inv env r2" using r2 by (auto intro: chain_inv_Disqualify)
  then show ?thesis unfolding r' by (rule chain_inv_cong) simp_all
qed

lemma chain_inv_NewQueue:
  assumes "chain_inv env r" and "NewQueue env r t h = (ok, r')"
  shows "chain_inv env r'"
  using assms(2) by (auto simp: NewQueue_def Let_def split: if_splits intro!: chain_inv_cong [OF assms(1)])

lemma chain_inv_power_step: "chain_inv env r \<Longrightarrow> chain_inv env (power_step env r)"
  by (erule chain_inv_cong) (simp_all add: power_step_def ExitReplayModeInternal_def Let_def)

lemma chain_inv_miss_step:
  "chain_inv env r \<Longrightarrow> miss_step env p r n = Some r' \<Longrightarrow> chain_inv env r'"
  by (auto simp: miss_step_def Let_def ExitReplayModeInternal_def split: if_splits
      intro: chain_inv_Missed chain_inv_cong [of env r])

lemma chain_inv_body:
  assumes "chain_inv env r" and "0 \<le> bi_nMoneySupply p"
    and "UpdateOnNewTime_body env p (r, n) = Some (ok, r', n')"
  shows "chain_inv env r'"
proof -
  obtain r1 where r1: "miss_step env p r n = Some r1"
    using assms(3) by (auto simp: UpdateOnNewTime_body_def split: bind_splits)
  have i1: "chain_inv env r1" by (rule chain_inv_miss_step [OF assms(1) r1])
  obtain b q where inc: "IncrementSlot (queue r1) = (b, q)" by force
  show ?thesis
  proof (cases b)
    case True
    then have "r' = power_step env (r1\<lparr>queue := q\<rparr>)"
      using assms(3) r1 inc by (simp add: UpdateOnNewTime_body_def)
    moreover have "chain_inv env (r1\<lparr>queue := q\<rparr>)" by (rule chain_inv_cong [OF i1]) simp_all
    ultimately show ?thesis using chain_inv_power_step by simp
  next
    case False
    let ?p = "PurgeLowBalances (snd (DockInactiveKeys r1 (bi_nMoneySupply p))) (bi_nMoneySupply p)"
    obtain o2 r2 where nq: "NewQueue env ?p (GetMaxTime (queue ?p) + 1) (hashBlock ?p) = (o2, r2)" by force
    have "chain_inv env r2" using chain_inv_NewQueue [OF chain_inv_dock_purge [OF i1 assms(2)] nq] .
    moreover have "r' \<in> {r2, power_step env r2}"
      using assms(3) r1 inc False nq by (cases o2) (auto simp: UpdateOnNewTime_body_def Let_def)
    ultimately show ?thesis using chain_inv_power_step by auto
  qed
qed

lemma chain_inv_loop:
  assumes "UpdateOnNewTime_loop env p t st = Some (ok, r')"
    and "chain_inv env (fst st)" and "0 \<le> bi_nMoneySupply p"
  shows "chain_inv env r'"
proof -
  let ?P = "\<lambda>env p (t::u32) (st :: QPRegistry \<times> u32) (res :: bool \<times> QPRegistry).
     0 \<le> bi_nMoneySupply p \<longrightarrow> chain_inv env (fst st) \<longrightarrow> chain_inv env (snd res)"
  have "?P env p t st (ok, r')"
  proof (rule UpdateOnNewTime_loop.raw_induct [OF _ assms(1), of ?P])
    fix loop :: "qp_env \<Rightarrow> CBlockIndex \<Rightarrow> u32 \<Rightarrow> QPRegistry \<times> u32 \<Rightarrow> (bool \<times> QPRegistry) option"
      and env p t st res
    assume IH: "\<And>env p t st res. loop env p t st = Some res \<Longrightarrow> ?P env p t st res"
      and step: "(if GetCurrentSlotEnd (queue (fst st)) < t
        then UpdateOnNewTime_body env p st \<bind>
          (\<lambda>res. if fst res then loop env p t (snd res) else Some (False, fst (snd res)))
        else Some (True, fst st)) = Some res"
    show "?P env p t st res"
    proof (cases "GetCurrentSlotEnd (queue (fst st)) < t")
      case False
      then show ?thesis using step by auto
    next
      case True
      then obtain b where b: "UpdateOnNewTime_body env p st = Some b"
        and res: "(if fst b then loop env p t (snd b) else Some (False, fst (snd b))) = Some res"
        using step by (auto split: bind_splits)
      have "0 \<le> bi_nMoneySupply p \<Longrightarrow> chain_inv env (fst st) \<Longrightarrow> chain_inv env (fst (snd b))"
        using chain_inv_body [of env "fst st" p "snd st" "fst b" "fst (snd b)" "snd (snd b)"] b by simp
      then show ?thesis using res IH [of env p t "snd b" res] by (auto split: if_splits)
    qed
  qed
  with assms(2,3) show ?thesis by simp
qed

lemma chain_inv_NewTime:
  assumes "chain_inv env r" and "0 \<le> bi_nMoneySupply p"
    and "UpdateOnNewTimeInternal env r t p snap = Some (acts, ok, r')"
  shows "chain_inv env r'"
proof -
  obtain acts1 r1 where st: "SnapshotStep env p snap r = (acts1, r1)" by force
  have "r1 \<in> {r, r\<lparr>hashBlockLastSnapshot := bi_hashBlock p\<rparr>}"
    using st unfolding SnapshotStep_def by (auto simp: Let_def split: prod.splits if_splits)
  then have i1: "chain_inv env r1" using assms(1) by (auto intro!: chain_inv_cong [OF assms(1)])
  obtain b r2 where nq: "NewQueue env r1 (bi_nTime p + 1) (bi_hashBlock p) = (b, r2)" by force
  have i2: "chain_inv env r2" by (rule chain_inv_NewQueue [OF i1 nq])
  consider "r' = r1" | "r' = r2" | n where "UpdateOnNewTime_loop env p t (r1, n) = Some (ok, r')"
    | n where "UpdateOnNewTime_loop env p t (r2, n) = Some (ok, r')"
    using assms(3) unfolding UpdateOnNewTimeInternal_def st Let_def prod.case nq
    by (cases b) (auto split: if_splits)
  then show ?thesis
    using i1 i2 assms(2) by cases (auto dest: chain_inv_loop)
qed

lemma chain_inv_ForkResets: "chain_inv env r \<Longrightarrow> chain_inv env (ForkResets env r f)"
  by (auto simp: ForkResets_def Let_def intro!: chain_inv_map_stakers staker_wf_updates)

lemma balances_Activate:
  "list_all (\<lambda>(k, b). 0 \<le> b) (mapBalances r) \<Longrightarrow>
   list_all (\<lambda>(k, b). 0 \<le> b) (mapBalances (ActivatePubKey r k p))"
  by (simp add: registry_defs)

lemma balances_ApplyOp:
  assumes nn: "list_all (\<lambda>(k, b). 0 \<le> b) (mapBalances r)" and om: "om_wf (mapBalances r)"
    and ok: "ApplyOp env p deet r = (0, r')"
  shows "list_all (\<lambda>(k, b). 0 \<le> b) (mapBalances r')"
  using ok
proof (cases rule: ApplyOp_cases)
  case purchase
  from purchase(2) show ?thesis
    by (rule ApplyPurchase_True) (simp add: PurchaseActivate_simps nn)
next
  case setkey
  then show ?thesis
    using nn by (auto simp: ApplySetKey_def Let_def registry_defs Deactivate_frame
        split: option.splits if_splits list.splits prod.splits bool.splits txnouttype.splits)
next
  case setstate
  from ApplySetState_True [OF setstate(2)] nn show ?thesis by (auto simp: registry_defs)
next
  case claim
  obtain key bal where "map_of (mapBalances r') = (map_of (mapBalances r))(key \<mapsto> bal - deet_value deet)"
      "deet_value deet \<le> bal"
    using ApplyClaim_effect [OF om claim(2)] by blast
  moreover have "om_wf (mapBalances r')" using claim(2) om by (auto simp: ApplyClaim_True)
  ultimately show ?thesis
    using nn om by (auto simp: list_all_iff om_in_set_iff split: if_splits)
next
  case setmeta
  with nn show ?thesis by (auto simp: ApplySetMeta_True registry_defs)
qed

lemma chain_inv_ApplyOp:
  assumes "chain_inv env r" and "\<not> env_fTestNet env \<and> nfts_fit env" and "ApplyOp env p deet r = (0, r')"
  shows "chain_inv env r'"
  using assms counted_wf_ApplyOp [of env r p deet r'] balances_ApplyOp [of r env p deet r']
  by (simp add: chain_inv_def counted_wf_def registry_wf_def maps_wf_def)

interpretation chain_ops: block_ops "ApplyOp env p" "chain_inv env"
  "\<lambda>_. \<not> env_fTestNet env \<and> nfts_fit env" for env p
  by unfold_locales (rule chain_inv_ApplyOp)

lemma chain_inv_ApplyOps:
  assumes "chain_inv env r" and "\<not> env_fTestNet env" "nfts_fit env" and "ApplyOps env r p = (0, r')"
  shows "chain_inv env r'"
  using assms chain_ops.run_inv [of env r "bi_vDeets p" p r']
  by (simp add: ApplyOps_def ApplyOps_loop_run list_all_iff)

lemma GetQPoSReward_nonneg: "0 \<le> m \<Longrightarrow> 0 \<le> GetQPoSReward (Some m)"
  by (simp add: GetQPoSReward_def signed_divide_int_def sgn_if)

lemma chain_inv_ProduceStep:
  assumes "chain_inv env r" and "0 \<le> bi_nMoneySupply prev" and "ProduceStep env r p prev = (True, r')"
  shows "chain_inv env r'"
proof -
  let ?rw = "GetQPoSReward (Some (bi_nMoneySupply prev))"
  obtain r1 where r1: "StakerProducedBlock env r p ?rw = (True, r1)"
    and r': "\<exists>q. r' = UpdateCertifiedNodesList (r1\<lparr>queue := q, mapStakers :=
        om_map_vals (\<lambda>s. if IsQualified s then SawBlock s else s) (mapStakers r1)\<rparr>)"
    using assms(3)
    by (auto simp: ProduceStep_def Let_def split: option.splits if_splits prod.splits bool.splits)
  have i1: "chain_inv env r1" by (rule chain_inv_Produced [OF assms(1) GetQPoSReward_nonneg [OF assms(2)] r1])
  have "chain_inv env (r1\<lparr>mapStakers := om_map_vals (\<lambda>s. if IsQualified s then SawBlock s else s) (mapStakers r1)\<rparr>)"
    by (rule chain_inv_map_stakers [OF i1]) (auto intro: staker_wf_updates)
  with r' show ?thesis
    by (auto simp: UpdateCertifiedNodesList_def intro: chain_inv_cong)
qed

lemma UpdateOnNewBlock_Returned:
  assumes "UpdateOnNewBlock env r p prev snap check = Some (acts, Returned True r')"
  obtains r1 r2 r3 where
    "UpdateOnNewTimeInternal env (ForkResets env r (fork_at env (bi_nHeight p))) (bi_nTime p) prev snap =
      Some (acts, True, r1)"
    and "r2 = r1 \<or> ApplyOps env r1 p = (0, r2)"
    and "if fork_at env (bi_nHeight p) \<ge> XST_FORKQPOS then ProduceStep env r2 p prev = (True, r3) else r3 = r2"
    and "r' = r3\<lparr>nBlockHeight := bi_nHeight p, hashBlock := bi_hashBlock p\<rparr>"
proof -
  obtain acts1 ok r1 where t: "UpdateOnNewTimeInternal env (ForkResets env r (fork_at env (bi_nHeight p)))
      (bi_nTime p) prev snap = Some (acts1, ok, r1)"
    using assms by (auto simp: UpdateOnNewBlock_def Let_def split: bind_splits)
  obtain code r2 where a: "(if fork_at env (bi_nHeight p) \<ge> XST_FORKPURCHASE \<and> bi_vDeets p \<noteq> []
      then ApplyOps env r1 p else (0, r1)) = (code, r2)" by force
  obtain ok3 r3 where b: "(if fork_at env (bi_nHeight p) \<ge> XST_FORKQPOS then ProduceStep env r2 p prev
      else (True, r2)) = (ok3, r3)" by force
  have "acts1 = acts \<and> ok \<and> code = 0 \<and> ok3 \<and> r' = r3\<lparr>nBlockHeight := bi_nHeight p, hashBlock := bi_hashBlock p\<rparr>"
    using assms unfolding UpdateOnNewBlock_def Let_def t bind.simps prod.case a b
    by (auto split: if_splits)
  with t a b show ?thesis by (intro that [of r1 r2 r3]) (auto split: if_splits)
qed

lemma chain_inv_Block:
  assumes "chain_inv env r" and "\<not> env_fTestNet env" "nfts_fit env" and "0 \<le> bi_nMoneySupply prev"
    and "UpdateOnNewBlock env r p prev snap check = Some (acts, Returned True r')"
  shows "chain_inv env r'"
  using assms(5)
proof (rule UpdateOnNewBlock_Returned)
  fix r1 r2 r3
  assume t: "UpdateOnNewTimeInternal env (ForkResets env r (fork_at env (bi_nHeight p))) (bi_nTime p) prev snap =
      Some (acts, True, r1)"
    and a: "r2 = r1 \<or> ApplyOps env r1 p = (0, r2)"
    and b: "if fork_at env (bi_nHeight p) \<ge> XST_FORKQPOS then ProduceStep env r2 p prev = (True, r3) else r3 = r2"
    and r': "r' = r3\<lparr>nBlockHeight := bi_nHeight p, hashBlock := bi_hashBlock p\<rparr>"
  have "chain_inv env r1" using chain_inv_NewTime [OF chain_inv_ForkResets [OF assms(1)] assms(4) t] .
  then have "chain_inv env r2" using a chain_inv_ApplyOps [OF _ assms(2,3)] by auto
  then have "chain_inv env r3" using b chain_inv_ProduceStep [OF _ assms(4)] by (auto split: if_splits)
  then show ?thesis unfolding r' by (rule chain_inv_cong) simp_all
qed

end
