(* ===== verification/QPRegistryProps.thy ===== *)
theory QPRegistryProps
  imports QPRegistryBlock
begin

text \<open>
  Properties of the registry as a whole: its reachable states on the main network, key changes
  that cannot fail, the uniqueness of aliases, and the acceptance of blocks. The \<open>demo\<close>
  definitions are a small concrete network used to show that the hypotheses can be met.
\<close>

section \<open>Reachable states\<close>

text \<open>
  A registry of the main network is reached from the empty one by accepted blocks and by the
  methods that only concern the clock and replay mode. The environment may differ from step to
  step (the clock, the hash functions, the shuffler), but not the network or its NFT table.
\<close>

definition same_network :: "qp_env \<Rightarrow> qp_env \<Rightarrow> bool" where
  "same_network env env' \<longleftrightarrow>
     env_fTestNet env' = env_fTestNet env \<and> env_mapNfts env' = env_mapNfts env"

inductive reached :: "qp_env \<Rightarrow> QPRegistry \<Rightarrow> bool" for env where
  start: "reached env (QPRegistry_new env)"
| block: "reached env r \<Longrightarrow> same_network env env' \<Longrightarrow> 0 \<le> bi_nMoneySupply prev \<Longrightarrow>
    UpdateOnNewBlock env' r p prev snap check = Some (acts, Returned True r') \<Longrightarrow> reached env r'"
| time: "reached env r \<Longrightarrow> same_network env env' \<Longrightarrow> 0 \<le> bi_nMoneySupply p \<Longrightarrow>
    UpdateOnNewTimeInternal env' r t p snap = Some (acts, ok, r') \<Longrightarrow> reached env r'"
| enter_replay: "reached env r \<Longrightarrow> reached env (EnterReplayMode r)"
| exit_replay: "reached env r \<Longrightarrow> reached env (ExitReplayModeInternal r)"
| synced: "reached env r \<Longrightarrow> reached env (CheckSynced env' r)"

inductive_cases reached_cases: "reached env r"

lemma chain_inv_network: "same_network env env' \<Longrightarrow> chain_inv env' r = chain_inv env r"
  by (simp add: same_network_def chain_inv_def counted_wf_def registry_wf_def ids_wf_def)

lemma reached_inv:
  assumes "reached env r" and "\<not> env_fTestNet env" and "nfts_fit env"
  shows "chain_inv env r"
  using assms(1)
proof induction
  case start
  show ?case by (rule chain_inv_new)
next
  case (block r env' prev p snap check acts r')
  have "\<not> env_fTestNet env'" "nfts_fit env'"
    using block.hyps(2) assms(2,3) by (simp_all add: same_network_def nfts_fit_def)
  with block chain_inv_Block [of env' r prev p snap check acts r'] show ?case
    by (simp add: chain_inv_network [OF block.hyps(2)])
next
  case (time r env' p t snap acts ok r')
  with chain_inv_NewTime [of env' r p t snap acts ok r'] show ?case
    by (simp add: chain_inv_network [OF time.hyps(2)])
next
  case (enter_replay r)
  from enter_replay.IH show ?case by (rule chain_inv_cong) (simp_all add: EnterReplayMode_def)
next
  case (exit_replay r)
  from exit_replay.IH show ?case by (rule chain_inv_cong) (simp_all add: ExitReplayModeInternal_def)
next
  case (synced r env')
  from synced.IH show ?case
    by (rule chain_inv_cong) (simp_all add: CheckSynced_def ExitReplayModeInternal_def)
qed

section \<open>A small network\<close>

definition demo_nft :: "string \<Rightarrow> string \<Rightarrow> QPNft" where
  "demo_nft key nick = QPNft_null\<lparr>strCharKey := key, strNickname := nick\<rparr>"

definition demo_env :: qp_env where
  "demo_env = \<lparr>env_fTestNet = False,
     env_mapNfts = [(1, demo_nft ''ann'' ''Ann''), (2, demo_nft ''bob'' ''Bob'')],
     env_mapNftLookup = [(''ann'', 1), (''bob'', 2)], env_AdjustedTime = 2000000000,
     env_MinPicoPower = QP_MIN_PICO_POWER, env_Hash9 = (\<lambda>h. h), env_SerializeHash = (\<lambda>h. h),
     env_shuffler = (\<lambda>seed k n. 0), env_SnapshotIsViable = (\<lambda>h. False),
     env_hashGenesis = 0, env_uninit = 0\<rparr>"

definition demo_block :: "int \<Rightarrow> u32 \<Rightarrow> u32 \<Rightarrow> QPTxDetails list \<Rightarrow> CBlockIndex" where
  "demo_block h t i deets = \<lparr>bi_nHeight = h, bi_nTime = t, bi_nStakerID = i, bi_hashBlock = 77,
     bi_nMoneySupply = 40000000000000, bi_vDeets = deets\<rparr>"

definition demo_deet :: "txnouttype \<Rightarrow> u32 \<Rightarrow> CPubKey list \<Rightarrow> string \<Rightarrow> int \<Rightarrow> QPTxDetails" where
  "demo_deet t i keys a v = QPTxDetails_SetNull
     \<lparr>deet_t := t, deet_id := i, deet_keys := keys, deet_alias := a, deet_value := v\<rparr>"

text \<open>One staker is bought in a block before qPoS starts.\<close>

definition demo_key :: CPubKey where
  "demo_key = 2 # replicate 32 7"

definition demo_ops :: "QPTxDetails list" where
  "demo_ops = [demo_deet TX_PURCHASE1 0 [demo_key] ''Carol'' 0]"

definition demo_registry :: QPRegistry where
  "demo_registry =
     (snd (ApplyOps demo_env (QPRegistry_new demo_env) (demo_block 3690001 1000 0 demo_ops)))
       \<lparr>nBlockHeight := 3690001, hashBlock := 77\<rparr>"

lemma demo_apply_code:
  "fst (ApplyOps demo_env (QPRegistry_new demo_env) (demo_block 3690001 1000 0 demo_ops)) = 0"
  by code_simp

lemma demo_fork: "GetFork False 3690001 = 7" "GetFork False 3690000 = 7" "GetFork False 0 = 0"
  by (simp_all add: GetFork_def mapForksMainNet_def map_list_of_def om_insert_def om_count_def)

lemma demo_reached: "reached demo_env demo_registry"
proof -
  let ?p = "demo_block 3690001 1000 0 demo_ops" and ?prev = "demo_block 3690000 995 0 []"
  let ?r = "QPRegistry_new demo_env"
  have f: "fork_at demo_env 3690001 = 7" "fork_at demo_env 3690000 = 7"
    by (simp_all add: demo_env_def demo_fork)
  have h: "bi_nHeight ?p = 3690001" "bi_nHeight ?prev = 3690000" "bi_vDeets ?p = demo_ops"
    "bi_hashBlock ?p = 77" "demo_ops \<noteq> []"
    by (simp_all add: demo_block_def demo_ops_def)
  have "ForkResets demo_env ?r 7 = ?r" by (simp add: ForkResets_def Let_def)
  moreover have "UpdateOnNewTimeInternal demo_env ?r (bi_nTime ?p) ?prev NO_SNAPS = Some ([], True, ?r)"
    using f h by (simp add: UpdateOnNewTimeInternal_def SnapshotStep_def SnapshotDecision_def Let_def)
  moreover have "ApplyOps demo_env ?r ?p = (0, snd (ApplyOps demo_env ?r ?p))"
    using demo_apply_code by (metis prod.collapse)
  ultimately have "UpdateOnNewBlock demo_env ?r ?p ?prev NO_SNAPS False =
      Some ([], Returned True demo_registry)"
    using f h by (auto simp: UpdateOnNewBlock_def demo_registry_def split: prod.splits)
  then show ?thesis
    by (rule reached.block [OF reached.start, rotated 2]) (simp_all add: same_network_def demo_block_def)
qed

lemma demo_env_ok: "\<not> env_fTestNet demo_env" "nfts_fit demo_env" "draws_below demo_env"
  by (simp_all add: demo_env_def nfts_fit_def draws_below_def)

section \<open>Properties\<close>

text \<open>
  C1. In every reachable state of the main network the registry is consistent: the stakers are
  numbered \<open>1\<close> to \<open>nIDCounter\<close> without gaps; every staker owns exactly one NFT of the table and no
  NFT has two owners, the two ownership maps being inverse; the activity count of a key is the
  number of its uses as manager or delegate; every used key has a balance; and no balance is
  negative.
\<close>

theorem reached_consistent:
  assumes "reached env r" and "\<not> env_fTestNet env" and "nfts_fit env"
  shows "(\<forall>i. om_count i (mapStakers r) \<longleftrightarrow> 0 < i \<and> i \<le> nIDCounter r) \<and>
    (\<forall>i. om_count i (mapStakers r) \<longrightarrow> (\<exists>n. map_of (mapNftOwners r) i = Some n \<and> om_count n (env_mapNfts env))) \<and>
    (\<forall>i n. map_of (mapNftOwners r) i = Some n \<longleftrightarrow> map_of (mapNftOwnerLookup r) n = Some i) \<and>
    (\<forall>k. om_at 0 (mapActive r) k = (\<Sum>(i, s)\<leftarrow>mapStakers r.
        of_bool (pubkeyManager s = k) + of_bool (pubkeyDelegate s = k))) \<and>
    (\<forall>i s. map_of (mapStakers r) i = Some s \<longrightarrow>
        om_count (pubkeyManager s) (mapBalances r) \<and> om_count (pubkeyDelegate s) (mapBalances r)) \<and>
    (\<forall>k b. map_of (mapBalances r) k = Some b \<longrightarrow> 0 \<le> b)"
proof (intro conjI)
  have inv: "ids_wf env r" "active_wf r" "list_all (\<lambda>(k, b). 0 \<le> b) (mapBalances r)"
    using reached_inv [OF assms] by (auto simp: chain_inv_def counted_wf_def registry_wf_def)
  show "\<forall>i. om_count i (mapStakers r) \<longleftrightarrow> 0 < i \<and> i \<le> nIDCounter r"
    "\<forall>i n. map_of (mapNftOwners r) i = Some n \<longleftrightarrow> map_of (mapNftOwnerLookup r) n = Some i"
    using inv(1) by (simp_all add: ids_wf_def)
  show "\<forall>i. om_count i (mapStakers r) \<longrightarrow> (\<exists>n. map_of (mapNftOwners r) i = Some n \<and> om_count n (env_mapNfts env))"
  proof (intro allI impI)
    fix i assume "om_count i (mapStakers r)"
    then have "om_count i (mapNftOwners r)" using inv(1) by (simp add: ids_wf_def)
    then obtain n where n: "map_of (mapNftOwners r) i = Some n" by (auto simp: om_count_def)
    then have "map_of (mapNftOwnerLookup r) n = Some i" using inv(1) by (simp add: ids_wf_def)
    then have "om_count n (env_mapNfts env)" using inv(1) by (auto simp: ids_wf_def om_count_def)
    with n show "\<exists>n. map_of (mapNftOwners r) i = Some n \<and> om_count n (env_mapNfts env)" by blast
  qed
  show "\<forall>k. om_at 0 (mapActive r) k = (\<Sum>(i, s)\<leftarrow>mapStakers r.
        of_bool (pubkeyManager s = k) + of_bool (pubkeyDelegate s = k))"
    using inv(2) by (simp add: active_wf_def key_refs_def key_uses_def)
  show "\<forall>i s. map_of (mapStakers r) i = Some s \<longrightarrow>
        om_count (pubkeyManager s) (mapBalances r) \<and> om_count (pubkeyDelegate s) (mapBalances r)"
  proof (intro allI impI)
    fix i s assume "map_of (mapStakers r) i = Some s"
    note ge = key_refs_ge [OF this]
    have "0 < key_refs r (pubkeyManager s)" "0 < key_refs r (pubkeyDelegate s)"
      using ge [of "pubkeyManager s"] ge [of "pubkeyDelegate s"]
      by (auto simp: key_uses_def of_bool_def split: if_splits)
    then show "om_count (pubkeyManager s) (mapBalances r) \<and> om_count (pubkeyDelegate s) (mapBalances r)"
      using inv(2) by (simp add: active_wf_def)
  qed
  show "\<forall>k b. map_of (mapBalances r) k = Some b \<longrightarrow> 0 \<le> b"
    using inv(3) by (auto simp: list_all_iff dest!: map_of_SomeD)
qed

theorem reached_consistent_witness:
  "map_of (mapNftOwners demo_registry) 1 = Some 1 \<longleftrightarrow> map_of (mapNftOwnerLookup demo_registry) 1 = Some 1"
  using reached_consistent [OF demo_reached demo_env_ok(1,2)] by blast

text \<open>
  Key changes never get stuck on bookkeeping: in a reachable state of the main network, setting
  the manager of a staker that is not disqualified always succeeds, and so does setting its
  delegate with a payout of at most 100000 millipercent; the failure branches for keys that are
  not active cannot be taken.
\<close>

theorem set_manager_delegate_succeeds:
  assumes "reached env r" and "\<not> env_fTestNet env" and "nfts_fit env"
    and "map_of (mapStakers r) (deet_id deet) = Some s" and "\<not> IsDisqualified s"
    and "deet_keys deet = [key]"
    and "deet_t deet = TX_SETMANAGER \<or> deet_t deet = TX_SETDELEGATE \<and> deet_pcm deet \<in> {0..100000}"
  shows "fst (ApplySetKey env r deet p)"
proof -
  have inv: "active_wf r" using reached_inv [OF assms(1-3)] by (simp add: chain_inv_def counted_wf_def)
  have refs: "1 \<le> key_refs r (pubkeyManager s)" "1 \<le> key_refs r (pubkeyDelegate s)"
    using key_refs_ge [OF assms(4), of "pubkeyManager s"] key_refs_ge [OF assms(4), of "pubkeyDelegate s"]
    by (auto simp: key_uses_def of_bool_def split: if_splits)
  have act: "\<exists>n \<ge> 1. map_of (mapActive r) (pubkeyManager s) = Some n"
    "\<exists>n \<ge> 1. map_of (mapActive r) (pubkeyDelegate s) = Some n"
    using Deactivate_used [OF inv refs(1)] Deactivate_used [OF inv refs(2)] by blast+
  from assms(7) show ?thesis
  proof
    assume "deet_t deet = TX_SETMANAGER"
    then show ?thesis
      using assms(4,5,6) act(1) by (auto simp: ApplySetKey_def Let_def DeactivatePubKey_def)
  next
    assume d: "deet_t deet = TX_SETDELEGATE \<and> deet_pcm deet \<in> {0..100000}"
    have "\<not> word_of_int (deet_pcm deet) > (100000 :: u32)"
      using d by (simp add: word_less_def uint_word_of_int take_bit_int_eq_self_iff not_less)
    then show ?thesis
      using d assms(4,5,6) act(2)
      by (auto simp: ApplySetKey_def Let_def DeactivatePubKey_def SetDelegatePayout_def put_staker_def)
  qed
qed

theorem set_manager_delegate_succeeds_witness:
  "fst (ApplySetKey demo_env demo_registry (demo_deet TX_SETMANAGER 1 [[9]] [] 0) (demo_block 3690002 1005 0 []))"
proof -
  have "map_option IsDisqualified (map_of (mapStakers demo_registry) 1) = Some False" by code_simp
  then obtain s where s: "map_of (mapStakers demo_registry) 1 = Some s" "\<not> IsDisqualified s" by auto
  have d: "deet_id (demo_deet TX_SETMANAGER 1 [[9]] [] 0) = 1"
    "deet_keys (demo_deet TX_SETMANAGER 1 [[9]] [] 0) = [[9]]"
    "deet_t (demo_deet TX_SETMANAGER 1 [[9]] [] 0) = TX_SETMANAGER"
    by (simp_all add: demo_deet_def)
  show ?thesis
    using set_manager_delegate_succeeds [OF demo_reached demo_env_ok(1,2) _ s(2) d(2)] s(1) d by simp
qed

section \<open>Accepting a block\<close>

lemma clock_fields_Activate [registry_defs]:
  "fCurrentBlockWasProduced (ActivatePubKey r k p) = fCurrentBlockWasProduced r"
  "nHeightExitedReplay (ActivatePubKey r k p) = nHeightExitedReplay r"
  by (simp_all add: ActivatePubKey_def Let_def)

lemma clock_fields_put [registry_defs]:
  "fCurrentBlockWasProduced (put_staker i s r) = fCurrentBlockWasProduced r"
  "nHeightExitedReplay (put_staker i s r) = nHeightExitedReplay r" "queue (put_staker i s r) = queue r"
  by (simp_all add: put_staker_def)

text \<open>The operations of a block touch neither the queue nor the flags that block production reads.\<close>

definition same_clock :: "QPRegistry \<Rightarrow> QPRegistry \<Rightarrow> bool" where
  "same_clock r r' \<longleftrightarrow> queue r' = queue r \<and> fCurrentBlockWasProduced r' = fCurrentBlockWasProduced r \<and>
     nHeightExitedReplay r' = nHeightExitedReplay r"

lemma same_clock_Deactivate: "DeactivatePubKey r k = (b, r1) \<Longrightarrow> same_clock r r1"
  by (auto simp: DeactivatePubKey_def same_clock_def split: option.splits if_splits)

lemma same_clock_steps:
  "same_clock r (ActivatePubKey q k p) = same_clock r q" "same_clock r (put_staker i s q) = same_clock r q"
  by (simp_all add: same_clock_def registry_defs)

lemma same_clock_refl: "same_clock r r"
  by (simp add: same_clock_def)

lemma same_clock_snd_Deactivate: "same_clock r q \<Longrightarrow> same_clock r (snd (DeactivatePubKey q k))"
  using same_clock_Deactivate [of q k "fst (DeactivatePubKey q k)"] by (simp add: same_clock_def)

lemma same_clock_Deactivate_trans: "DeactivatePubKey q k = (b, r1) \<Longrightarrow> same_clock r q \<Longrightarrow> same_clock r r1"
  using same_clock_Deactivate [of q k b r1] by (simp add: same_clock_def)

lemma same_clock_ApplySetKey:
  assumes "ApplySetKey env r deet p = (True, r')"
  shows "same_clock r r'"
proof -
  obtain s keyNew where s: "map_of (mapStakers r) (deet_id deet) = Some s" "\<not> IsDisqualified s"
    and k: "deet_keys deet = [keyNew]"
    using assms by (auto simp: ApplySetKey_def split: option.splits if_splits list.splits)
  show ?thesis
    using assms s k same_clock_refl
    by (cases "deet_t deet")
      (auto simp: ApplySetKey_def Let_def same_clock_steps same_clock_snd_Deactivate
        elim!: same_clock_Deactivate_trans split: if_splits prod.splits bool.splits)
qed

lemma same_clock_ApplyOp:
  assumes "ApplyOp env p deet r = (0, r')"
  shows "same_clock r r'"
  using assms
proof (cases rule: ApplyOp_cases)
  case purchase
  from purchase(2) show ?thesis
    by (rule ApplyPurchase_True) (simp add: same_clock_def PurchaseActivate_def registry_defs)
next
  case setkey
  then show ?thesis by (auto intro: same_clock_ApplySetKey)
next
  case setstate
  from ApplySetState_True [OF setstate(2)] show ?thesis by (auto simp: same_clock_steps same_clock_refl)
next
  case claim
  then show ?thesis by (auto simp: ApplyClaim_True same_clock_def)
next
  case setmeta
  then show ?thesis by (auto simp: ApplySetMeta_True same_clock_steps same_clock_refl)
qed

interpretation clock_ops: block_ops "ApplyOp env p" "same_clock r0" "\<lambda>_. True" for env p r0
proof
  fix s op s' assume "same_clock r0 s" "ApplyOp env p op s = (0, s')"
  with same_clock_ApplyOp [of env p op s s'] show "same_clock r0 s'" by (simp add: same_clock_def)
qed

lemma same_clock_ApplyOps: "ApplyOps env r p = (0, r') \<Longrightarrow> same_clock r r'"
  using clock_ops.run_inv [of r r "bi_vDeets p" env p r'] same_clock_refl
  by (simp add: ApplyOps_def ApplyOps_loop_run list_all_iff)

lemma same_clock_ForkResets: "same_clock r (ForkResets env r f)"
  by (simp add: ForkResets_def Let_def same_clock_def)

lemma same_clock_Snapshot: "SnapshotStep env p snap r = (acts, r') \<Longrightarrow> same_clock r r' \<and> mapStakers r' = mapStakers r"
  unfolding SnapshotStep_def by (auto simp: Let_def same_clock_def split: prod.splits if_splits)

lemma queue_StakerProducedBlock:
  "StakerProducedBlock env r p reward = (True, r') \<Longrightarrow> queue r' = queue r \<and> fCurrentBlockWasProduced r'"
  by (erule StakerProducedBlock_True) (auto simp: registry_defs)

lemma ProduceStep_True:
  assumes "ProduceStep env r p prev = (True, r')"
  shows "GetSlotForID (queue r) (bi_nStakerID p) = Some (nCurrentSlot (queue r))"
    "queue r' = snd (SlotProduced (queue r) (nCurrentSlot (queue r)))" "fCurrentBlockWasProduced r'"
    "\<not> (fCurrentBlockWasProduced r \<and> OutOfReplayMode r)"
proof -
  obtain slot where slot: "GetSlotForID (queue r) (bi_nStakerID p) = Some slot" "slot = nCurrentSlot (queue r)"
    and np: "\<not> (fCurrentBlockWasProduced r \<and> OutOfReplayMode r)"
    using assms by (auto simp: ProduceStep_def split: option.splits if_splits)
  obtain r1 where r1: "StakerProducedBlock env r p (GetQPoSReward (Some (bi_nMoneySupply prev))) = (True, r1)"
    using assms slot np by (auto simp: ProduceStep_def split: prod.splits bool.splits)
  obtain bits q where sp: "SlotProduced (queue r1) slot = (bits, q)" by force
  note pr = queue_StakerProducedBlock [OF r1]
  have "r' = UpdateCertifiedNodesList (r1\<lparr>queue := q, mapStakers :=
      om_map_vals (\<lambda>s. if IsQualified s then SawBlock s else s) (mapStakers r1)\<rparr>)"
    using assms slot np r1 sp by (auto simp: ProduceStep_def Let_def split: if_splits)
  then have "queue r' = q" "fCurrentBlockWasProduced r'" using pr by (simp_all add: UpdateCertifiedNodesList_def)
  then show "queue r' = snd (SlotProduced (queue r) (nCurrentSlot (queue r)))" "fCurrentBlockWasProduced r'"
    using sp pr slot by simp_all
  show "GetSlotForID (queue r) (bi_nStakerID p) = Some (nCurrentSlot (queue r))"
    "\<not> (fCurrentBlockWasProduced r \<and> OutOfReplayMode r)"
    using slot np by simp_all
qed

text \<open>The slot found for a staker is one at which the queue lists it.\<close>

lemma GetSlotForID_loop_sound:
  "GetSlotForID_loop xs i n = Some s \<Longrightarrow> unat n + length xs < 2 ^ 32 \<Longrightarrow>
   unat n \<le> unat s \<and> unat s < unat n + length xs \<and> xs ! (unat s - unat n) = i"
proof (induction xs i n rule: GetSlotForID_loop.induct)
  case (2 x xs nID slot)
  have u: "unat (slot + 1) = unat slot + 1" using 2(3) by (intro unat_Suc_small) simp
  show ?case
  proof (cases "x = nID")
    case False
    then have "unat (slot + 1) \<le> unat s \<and> unat s < unat (slot + 1) + length xs \<and>
        xs ! (unat s - unat (slot + 1)) = nID" using 2 u by simp
    moreover have "unat s - unat slot = Suc (unat s - unat (slot + 1))" using calculation u by linarith
    ultimately show ?thesis using u by simp
  qed (use 2 in auto)
qed simp

lemma GetSlotForID_current:
  assumes "queue_wf q" and "GetSlotForID q i = Some (nCurrentSlot q)"
  shows "GetCurrentID q = Some i" "unat (nCurrentSlot q) < queue_len q"
  using GetSlotForID_loop_sound [of "vStakerIDs q" i 0 "nCurrentSlot q"] assms
  by (simp_all add: GetSlotForID_def GetCurrentID_def queue_wf_def)

lemma n_enabled_map_vals:
  assumes "\<And>s. IsEnabled s \<Longrightarrow> IsEnabled (f s)"
  shows "n_enabled r \<le> n_enabled (r\<lparr>mapStakers := om_map_vals f (mapStakers r)\<rparr>)"
proof -
  have "of_bool (IsEnabled s) \<le> (of_bool (IsEnabled (f s)) :: int)" for s using assms by simp
  then have "int (n_enabled r) \<le> int (n_enabled (r\<lparr>mapStakers := om_map_vals f (mapStakers r)\<rparr>))"
    by (auto simp: n_enabled_sum om_map_vals_def split_def comp_def intro!: sum_list_mono)
  then show ?thesis by simp
qed

lemma ForkResets_enabled: "n_enabled r \<le> n_enabled (ForkResets env r f)"
  unfolding ForkResets_def Let_def
  by (auto intro!: n_enabled_map_vals simp: IsEnabled_def IsDisqualified_def Requalify_def ResetDocked_def
      split: if_splits)

lemma length_om_map_vals: "length (om_map_vals f m) = length m"
  by (simp add: om_map_vals_def)

lemma ForkResets_clock: "clock_inv t r \<Longrightarrow> clock_inv t (ForkResets env r f)"
  unfolding ForkResets_def Let_def by (simp add: clock_inv_def length_om_map_vals)

text \<open>The catch-up inside \<open>UpdateOnNewBlock\<close> ends in the slot of the block.\<close>

lemma NewTime_in_window:
  assumes "clock_inv t r" and "0 < n_enabled r" and "draws_below env"
    and "slot_end (queue r) < unat t + 5" and "XST_FORKQPOS \<le> fork_at env (bi_nHeight prev + 1)"
    and "UpdateOnNewTimeInternal env r t prev snap = Some (acts, True, r1)"
  shows "TimeIsInCurrentSlotWindow (queue r1) t \<and> queue_wf (queue r1) \<and> queue_fits (queue r1)"
proof -
  obtain r0 where r0: "SnapshotStep env prev snap r = (acts, r0)" "queue r0 = queue r" "mapStakers r0 = mapStakers r"
    using same_clock_Snapshot [of env prev snap r] assms(6)
    by (cases "SnapshotStep env prev snap r")
      (auto simp: UpdateOnNewTimeInternal_def Let_def same_clock_def split: if_splits prod.splits bool.splits)
  have inv: "clock_inv t r0" "0 < n_enabled r0"
    using assms(1,2) r0 by (simp_all add: clock_inv_def n_enabled_def EnabledIDs_def)
  have "\<not> QPQueue_IsEmpty (queue r0)" using inv(1) by (auto simp: clock_inv_def queue_fits_def QPQueue_IsEmpty_def)
  then have loop: "UpdateOnNewTime_loop env prev t (r0, 0) = Some (True, r1)"
    using assms(5,6) r0(1) by (auto simp: UpdateOnNewTimeInternal_def)
  obtain r' where r': "UpdateOnNewTime_loop env prev t (r0, 0) = Some (True, r')" "clock_inv t r'"
      "unat t \<le> slot_end (queue r')" "slot_end (queue r') < max (unat t + 5) (slot_end (queue r0) + 1)"
    using UpdateOnNewTime_loop_returns [OF inv assms(3)] by blast
  then have "r' = r1" using loop by simp
  with r' show ?thesis
    using assms(4) r0(2) by (auto simp: clock_inv_def in_current_window_iff)
qed

text \<open>
  C2. A block is accepted only from its slot's owner: when qPoS is active, the queue is not ahead
  of the block and a staker is enabled, an accepted block leaves a queue whose current slot window
  contains the time of the block, whose current slot belongs to the staker that signed the block,
  and whose current slot is marked as produced; the registry then stands at the height and the
  hash of the block.
\<close>

theorem accepted_block_signed_by_slot_owner:
  assumes "clock_inv (bi_nTime p) r" and "0 < n_enabled r" and "draws_below env"
    and "slot_end (queue r) < unat (bi_nTime p) + 5"
    and "bi_nHeight p = bi_nHeight prev + 1" and "XST_FORKQPOS \<le> fork_at env (bi_nHeight p)"
    and "UpdateOnNewBlock env r p prev snap check = Some (acts, Returned True r')"
  shows "TimeIsInCurrentSlotWindow (queue r') (bi_nTime p) \<and>
    GetCurrentID (queue r') = Some (bi_nStakerID p) \<and>
    GetStatusForSlot (queue r') (nCurrentSlot (queue r')) = (True, QPSLOT_HIT) \<and>
    fCurrentBlockWasProduced r' \<and> nBlockHeight r' = bi_nHeight p \<and> hashBlock r' = bi_hashBlock p"
  using assms(7)
proof (rule UpdateOnNewBlock_Returned)
  let ?r = "ForkResets env r (fork_at env (bi_nHeight p))"
  fix r1 r2 r3
  assume t: "UpdateOnNewTimeInternal env ?r (bi_nTime p) prev snap = Some (acts, True, r1)"
    and a: "r2 = r1 \<or> ApplyOps env r1 p = (0, r2)"
    and b: "if fork_at env (bi_nHeight p) \<ge> XST_FORKQPOS then ProduceStep env r2 p prev = (True, r3) else r3 = r2"
    and r': "r' = r3\<lparr>nBlockHeight := bi_nHeight p, hashBlock := bi_hashBlock p\<rparr>"
  have w: "TimeIsInCurrentSlotWindow (queue r1) (bi_nTime p)" "queue_wf (queue r1)"
    using NewTime_in_window [OF ForkResets_clock [OF assms(1)] _ assms(3) _ _ t] assms(2,4,5,6)
      ForkResets_enabled [of r env "fork_at env (bi_nHeight p)"]
      same_clock_ForkResets [of r env "fork_at env (bi_nHeight p)"] by (simp_all add: same_clock_def)
  have q: "queue r2 = queue r1" using a same_clock_ApplyOps by (auto simp: same_clock_def)
  have "ProduceStep env r2 p prev = (True, r3)" using b assms(6) by simp
  note pr = ProduceStep_True [OF this]
  have "queue_wf (queue r2)" using w(2) q by simp
  note cur = GetSlotForID_current [OF this pr(1)]
  have "GetStatusForSlot (queue r3) (nCurrentSlot (queue r3)) = (True, QPSLOT_HIT)"
    unfolding pr(2) using status_after_SlotProduced [OF \<open>queue_wf (queue r2)\<close> cur(2) cur(2)] by simp
  moreover have "TimeIsInCurrentSlotWindow (queue r3) (bi_nTime p)"
    using w(1) unfolding pr(2) q
    by (simp add: TimeIsInCurrentSlotWindow_def GetCurrentSlotWindow_def Let_def)
  moreover have "GetCurrentID (queue r3) = Some (bi_nStakerID p)"
    using cur unfolding pr(2) by (simp add: GetCurrentID_def)
  ultimately show ?thesis using pr(3) by (simp add: r')
qed

section \<open>Blocks inside the current slot\<close>

text \<open>While the time stays inside the window of the current slot, the clock has nothing to do.\<close>

lemma NewTime_same_slot:
  assumes "queue_wf (queue r)" and "queue_fits (queue r)" and "TimeIsInCurrentSlotWindow (queue r) t"
  shows "UpdateOnNewTimeInternal env r t prev snap =
    (case SnapshotStep env prev snap r of (acts, r1) \<Rightarrow> Some (acts, True, r1))"
proof -
  obtain acts r1 where s: "SnapshotStep env prev snap r = (acts, r1)" by force
  then have q: "queue r1 = queue r" using same_clock_Snapshot by (auto simp: same_clock_def)
  have "\<not> GetCurrentSlotEnd (queue r1) < t"
    using GetCurrentSlotEnd_eq(1) [OF assms(1,2)] in_current_window_iff [OF assms(1,2)] assms(3) q
    by (simp add: word_less_nat_alt)
  then have "UpdateOnNewTime_loop env prev t (r1, n) = Some (True, r1)" for n
    by (subst UpdateOnNewTime_loop.simps) simp
  moreover have "\<not> QPQueue_IsEmpty (queue r1)" using assms(2) q by (auto simp: queue_fits_def QPQueue_IsEmpty_def)
  ultimately show ?thesis using s by (simp add: UpdateOnNewTimeInternal_def)
qed

lemma GetSlotForID_loop_complete:
  "distinct xs \<Longrightarrow> j < length xs \<Longrightarrow> GetSlotForID_loop xs (xs ! j) n = Some (n + of_nat j)"
proof (induction xs arbitrary: j n)
  case (Cons x xs)
  then show ?case by (cases j) (auto simp: add.assoc)
qed simp

lemma StakerProducedBlock_ok:
  "GetStakerInternal r (bi_nStakerID p) = Some s \<Longrightarrow> IsQualified s \<Longrightarrow> fst (StakerProducedBlock env r p reward)"
  by (simp add: StakerProducedBlock_def IsQualified_def IsDisqualified_def Let_def
      split: prod.splits)

lemma ProduceStep_ok:
  assumes "queue_wf (queue r)" and "distinct (vStakerIDs (queue r))"
    and "GetCurrentID (queue r) = Some (bi_nStakerID p)"
    and "GetStakerInternal r (bi_nStakerID p) = Some s" and "IsQualified s"
    and "\<not> fCurrentBlockWasProduced r"
  shows "fst (ProduceStep env r p prev)"
proof -
  let ?c = "nCurrentSlot (queue r)"
  have c: "unat ?c < queue_len (queue r)" "vStakerIDs (queue r) ! unat ?c = bi_nStakerID p"
    using assms(3) by (auto simp: GetCurrentID_def split: if_splits)
  have slot: "GetSlotForID (queue r) (bi_nStakerID p) = Some ?c"
    using GetSlotForID_loop_complete [OF assms(2) c(1), of 0] c(2) by (simp add: GetSlotForID_def)
  obtain r1 where r1: "StakerProducedBlock env r p (GetQPoSReward (Some (bi_nMoneySupply prev))) = (True, r1)"
    using StakerProducedBlock_ok [OF assms(4,5)] by (metis prod.collapse)
  have "fst (SlotProduced (queue r1) ?c) \<noteq> 0"
    using SlotProduced_nonzero [OF assms(1) c(1)] queue_StakerProducedBlock [OF r1] by simp
  then show ?thesis using slot r1 assms(6) by (auto simp: ProduceStep_def Let_def split: prod.splits)
qed

lemma GetStaker_map_vals:
  "GetStakerInternal (r\<lparr>mapStakers := om_map_vals f (mapStakers r)\<rparr>) i = map_option f (GetStakerInternal r i)"
  by (simp add: GetStakerInternal_def)

lemma ForkResets_qualified:
  assumes "GetStakerInternal r i = Some s" and "IsQualified s"
  shows "\<exists>s'. GetStakerInternal (ForkResets env r f) i = Some s' \<and> IsQualified s'"
  using assms unfolding ForkResets_def Let_def
  by (simp add: GetStaker_map_vals IsQualified_def ResetDocked_def Requalify_def)

lemma Snapshot_staker: "SnapshotStep env p snap r = (acts, r') \<Longrightarrow> GetStakerInternal r' i = GetStakerInternal r i"
  unfolding SnapshotStep_def by (auto simp: Let_def GetStakerInternal_def split: prod.splits if_splits)

lemma UpdateOnNewBlock_in_slot:
  assumes "queue_wf (queue r)" and "queue_fits (queue r)" and "distinct (vStakerIDs (queue r))"
    and "TimeIsInCurrentSlotWindow (queue r) (bi_nTime p)"
    and "GetCurrentID (queue r) = Some (bi_nStakerID p)"
    and "GetStakerInternal r (bi_nStakerID p) = Some s" and "IsQualified s"
    and "\<not> fCurrentBlockWasProduced r" and "bi_vDeets p = []"
  shows "\<exists>acts r'. UpdateOnNewBlock env r p prev snap check = Some (acts, Returned True r')"
proof -
  let ?f = "fork_at env (bi_nHeight p)"
  let ?r = "ForkResets env r ?f"
  obtain s' where s': "GetStakerInternal ?r (bi_nStakerID p) = Some s'" "IsQualified s'"
    using ForkResets_qualified [OF assms(6,7)] by blast
  have q: "queue ?r = queue r" "\<not> fCurrentBlockWasProduced ?r"
    using same_clock_ForkResets [of r env ?f] assms(8) by (simp_all add: same_clock_def)
  obtain acts r1 where s: "SnapshotStep env prev snap ?r = (acts, r1)" by force
  note sc = same_clock_Snapshot [OF s]
  have t: "UpdateOnNewTimeInternal env ?r (bi_nTime p) prev snap = Some (acts, True, r1)"
    using NewTime_same_slot [of ?r "bi_nTime p" env prev snap] assms(1,2,4) q(1) s by simp
  have "fst (ProduceStep env r1 p prev)"
    by (rule ProduceStep_ok [where s = s']) (use assms sc q s' Snapshot_staker [OF s] in \<open>simp_all add: same_clock_def\<close>)
  then obtain r3 where "ProduceStep env r1 p prev = (True, r3)" by (metis prod.collapse)
  then show ?thesis using t assms(9) by (simp add: UpdateOnNewBlock_def Let_def)
qed

text \<open>
  C3. The owner of the current slot gets its block in: while the time of the block is inside the
  window of the current slot and no block was produced in that slot, a block without registry
  operations that is signed by the qualified staker of the slot is accepted.
\<close>

theorem slot_owner_block_accepted:
  assumes "queue_wf (queue r)" and "queue_fits (queue r)" and "distinct (vStakerIDs (queue r))"
    and "TimeIsInCurrentSlotWindow (queue r) (bi_nTime p)"
    and "GetCurrentID (queue r) = Some (bi_nStakerID p)"
    and "GetStakerInternal r (bi_nStakerID p) = Some s" and "IsQualified s"
    and "\<not> fCurrentBlockWasProduced r" and "bi_vDeets p = []"
  shows "\<exists>acts r'. UpdateOnNewBlock env r p prev snap check = Some (acts, Returned True r')"
  by (rule UpdateOnNewBlock_in_slot [OF assms])

text \<open>
  C4. One block per slot: once the block of the current slot has been produced and the registry is
  out of replay mode, no other block whose time is in that slot is accepted, whoever signs it.
\<close>

theorem no_second_block_in_slot:
  assumes "queue_wf (queue r)" and "queue_fits (queue r)"
    and "TimeIsInCurrentSlotWindow (queue r) (bi_nTime p)"
    and "fCurrentBlockWasProduced r" and "OutOfReplayMode r"
    and "XST_FORKQPOS \<le> fork_at env (bi_nHeight p)"
  shows "UpdateOnNewBlock env r p prev snap check \<noteq> Some (acts, Returned True r')"
proof
  let ?r = "ForkResets env r (fork_at env (bi_nHeight p))"
  note fr = same_clock_ForkResets [of r env "fork_at env (bi_nHeight p)"]
  assume "UpdateOnNewBlock env r p prev snap check = Some (acts, Returned True r')"
  then show False
  proof (rule UpdateOnNewBlock_Returned)
    fix r1 r2 r3
    assume t: "UpdateOnNewTimeInternal env ?r (bi_nTime p) prev snap = Some (acts, True, r1)"
      and a: "r2 = r1 \<or> ApplyOps env r1 p = (0, r2)"
      and b: "if fork_at env (bi_nHeight p) \<ge> XST_FORKQPOS then ProduceStep env r2 p prev = (True, r3) else r3 = r2"
    have "SnapshotStep env prev snap ?r = (acts, r1)"
      using t NewTime_same_slot [of ?r "bi_nTime p" env prev snap] assms(1-3) fr
      by (simp add: same_clock_def split: prod.splits)
    then have "same_clock r r1" using same_clock_Snapshot fr by (fastforce simp: same_clock_def)
    then have "same_clock r r2" using a same_clock_ApplyOps by (auto simp: same_clock_def)
    moreover have "\<not> (fCurrentBlockWasProduced r2 \<and> OutOfReplayMode r2)"
      using b assms(6) ProduceStep_True(4) [of env r2 p prev r3] by simp
    ultimately show False using assms(4,5) by (simp add: same_clock_def OutOfReplayMode_def)
  qed
qed

text \<open>A round of the small network, built after its first block.\<close>

definition demo_queued :: QPRegistry where
  "demo_queued =
     (let r = snd (ApplyOps demo_env demo_registry (demo_block 3690002 1000 0 [demo_deet TX_ENABLE 1 [] [] 0]))
      in snd (NewQueue demo_env r 1001 77))"

definition demo_next :: CBlockIndex where
  "demo_next = demo_block 3700001 1003 1 []"

definition demo_prev :: CBlockIndex where
  "demo_prev = demo_block 3700000 1000 0 []"

lemma demo_queue: "queue demo_queued = QPQueue_new 1001 [1]" "map fst (mapStakers demo_queued) = [1]"
    "EnabledIDs demo_queued = [1]"
  by code_simp+

lemma demo_queue_ok:
  "clock_inv 1003 demo_queued" "0 < n_enabled demo_queued" "slot_end (queue demo_queued) = 1005"
proof -
  have "length (mapStakers demo_queued) = 1" "om_wf (mapStakers demo_queued)"
    using arg_cong [OF demo_queue(2), of length] demo_queue(2) by (simp_all add: om_wf_def del: length_map flip: length_map [of fst])
  then show "clock_inv 1003 demo_queued"
    using queue_wf_new [of "[1]" 1001] by (simp add: clock_inv_def demo_queue(1) queue_fits_def)
qed (simp_all add: n_enabled_def slot_end_def demo_queue)


lemma demo_next_simps:
  "bi_nTime demo_next = 1003" "bi_nStakerID demo_next = 1" "bi_vDeets demo_next = []"
  "bi_nHeight demo_next = 3700001" "bi_nHeight demo_prev = 3700000" "bi_nMoneySupply demo_prev = 40000000000000"
  by (simp_all add: demo_next_def demo_prev_def demo_block_def)

lemma demo_qpos: "XST_FORKQPOS \<le> fork_at demo_env 3700001"
  by (simp add: demo_next_def demo_block_def demo_env_def GetFork_def mapForksMainNet_def map_list_of_def
      om_insert_def om_count_def)

lemma demo_staker:
  obtains s where "GetStakerInternal demo_queued 1 = Some s" "IsQualified s" "\<not> fCurrentBlockWasProduced demo_queued"
proof -
  have "map_option IsQualified (GetStakerInternal demo_queued 1) = Some True" "\<not> fCurrentBlockWasProduced demo_queued"
    by code_simp+
  then show ?thesis using that by auto
qed

lemma demo_window: "queue_wf (queue demo_queued)" "queue_fits (queue demo_queued)"
    "TimeIsInCurrentSlotWindow (queue demo_queued) 1003" "GetCurrentID (queue demo_queued) = Some 1"
    "distinct (vStakerIDs (queue demo_queued))"
proof -
  show wf: "queue_wf (queue demo_queued)" "queue_fits (queue demo_queued)"
    using demo_queue_ok(1) by (simp_all add: clock_inv_def)
  show "TimeIsInCurrentSlotWindow (queue demo_queued) 1003"
    using demo_queue_ok(3) by (simp add: in_current_window_iff [OF wf])
qed (simp_all add: demo_queue GetCurrentID_def)

theorem slot_owner_block_accepted_witness:
  "\<exists>acts r'. UpdateOnNewBlock demo_env demo_queued demo_next demo_prev ALL_SNAPS False =
     Some (acts, Returned True r')"
proof -
  obtain s where "GetStakerInternal demo_queued 1 = Some s" "IsQualified s" "\<not> fCurrentBlockWasProduced demo_queued"
    by (rule demo_staker)
  with slot_owner_block_accepted [of demo_queued demo_next s demo_env demo_prev] show ?thesis
    by (simp add: demo_window demo_next_simps)
qed

theorem no_second_block_in_slot_witness:
  "\<forall>acts r'. UpdateOnNewBlock demo_env (demo_queued\<lparr>fCurrentBlockWasProduced := True, nHeightExitedReplay := 5\<rparr>)
     demo_next demo_prev ALL_SNAPS True \<noteq> Some (acts, Returned True r')"
  by (intro allI no_second_block_in_slot)
    (simp_all add: demo_window demo_next_simps demo_qpos OutOfReplayMode_def)

theorem accepted_block_signed_by_slot_owner_witness:
  "\<exists>acts r'. UpdateOnNewBlock demo_env demo_queued demo_next demo_prev ALL_SNAPS False =
     Some (acts, Returned True r') \<and> GetCurrentID (queue r') = Some 1 \<and> nBlockHeight r' = 3700001"
proof -
  obtain s where "GetStakerInternal demo_queued 1 = Some s" "IsQualified s" "\<not> fCurrentBlockWasProduced demo_queued"
    by (rule demo_staker)
  with UpdateOnNewBlock_in_slot [of demo_queued demo_next s demo_env demo_prev ALL_SNAPS False]
  obtain acts r' where u: "UpdateOnNewBlock demo_env demo_queued demo_next demo_prev ALL_SNAPS False =
      Some (acts, Returned True r')" by (auto simp: demo_window demo_next_simps)
  from accepted_block_signed_by_slot_owner [OF _ _ _ _ _ _ u] show ?thesis
    using u demo_queue_ok demo_env_ok(3) demo_qpos by (simp add: demo_next_simps)
qed

section \<open>The small network at work\<close>

text \<open>Witnesses for the properties of the clock, the rewards and the claims.\<close>

theorem UpdateOnNewTime_catches_up_witness:
  "\<exists>r'. UpdateOnNewTime_loop demo_env demo_prev 1018 (demo_queued, 0) = Some (True, r') \<and>
     TimeIsInCurrentSlotWindow (queue r') 1018"
proof -
  have "clock_inv 1018 demo_queued" using demo_queue_ok(1) by (simp add: clock_inv_def)
  from UpdateOnNewTime_catches_up [OF this demo_queue_ok(2) demo_env_ok(3)] show ?thesis
    using demo_queue_ok(3) by fastforce
qed

lemma demo_wf: "om_wf (mapStakers demo_registry)" "om_wf (mapBalances demo_registry)"
  using reached_inv [OF demo_reached demo_env_ok(1,2)]
  by (simp_all add: chain_inv_def counted_wf_def registry_wf_def maps_wf_def)

theorem NewQueue_permutation_witness:
  "\<not> fst (NewQueue demo_env demo_registry 1001 77) \<and> EnabledIDs demo_registry = []"
proof -
  have "EnabledIDs demo_registry = []" by code_simp
  with NewQueue_permutation [OF demo_env_ok(3) demo_wf(1), of 1001 77 "fst (NewQueue demo_env demo_registry 1001 77)"
      "snd (NewQueue demo_env demo_registry 1001 77)"] show ?thesis by simp
qed

theorem StakerProducedBlock_conserves_witness:
  "om_total (mapBalances (snd (StakerProducedBlock demo_env demo_registry demo_next 1000))) =
   om_total (mapBalances demo_registry) + 1000"
proof -
  have "map_option IsQualified (GetStakerInternal demo_registry 1) = Some True" by code_simp
  then have "fst (StakerProducedBlock demo_env demo_registry demo_next 1000)"
    by (auto simp: demo_next_simps intro: StakerProducedBlock_ok)
  then have "StakerProducedBlock demo_env demo_registry demo_next 1000 =
      (True, snd (StakerProducedBlock demo_env demo_registry demo_next 1000))" by (metis prod.collapse)
  from StakerProducedBlock_conserves [OF demo_wf(2) _ this] show ?thesis by simp
qed

definition demo_rich :: QPRegistry where
  "demo_rich = demo_registry\<lparr>mapBalances := [([2], 5000)]\<rparr>"

theorem ApplyClaim_no_overdraw_witness:
  "let deet = demo_deet TX_CLAIM 0 [[2]] [] 3000; r' = snd (ApplyClaim demo_env demo_rich deet 200000)
   in fst (ApplyClaim demo_env demo_rich deet 200000) \<and>
      om_total (mapBalances r') = om_total (mapBalances demo_rich) - 3000"
proof -
  let ?deet = "demo_deet TX_CLAIM 0 [[2]] [] 3000"
  have "fst (ApplyClaim demo_env demo_rich ?deet 200000)" by code_simp
  then have c: "ApplyClaim demo_env demo_rich ?deet 200000 = (True, snd (ApplyClaim demo_env demo_rich ?deet 200000))"
    by (metis prod.collapse)
  have wf: "om_wf (mapBalances demo_rich)" by (simp add: demo_rich_def om_wf_def)
  have "om_total (mapBalances (snd (ApplyClaim demo_env demo_rich ?deet 200000))) =
      om_total (mapBalances demo_rich) - deet_value ?deet"
    using ApplyClaim_no_overdraw [OF wf c] by blast
  moreover have "deet_value ?deet = 3000" by (simp add: demo_deet_def)
  ultimately show ?thesis using \<open>fst _\<close> by simp
qed

section \<open>Aliases\<close>

text \<open>
  C30. Aliases are unique without regard to case: a successful purchase had a valid alias that no
  staker had in any spelling; afterwards every spelling of it leads to the new staker, whose
  identifier is the next one, and every other alias leads where it led before.
\<close>

theorem purchase_registers_alias:
  assumes "ApplyPurchase env r deet p = (True, r')"
  shows "AliasIsValid (deet_alias deet) \<and> nIDCounter r' = nIDCounter r + 1 \<and>
    (\<forall>a. ToLowercaseSafe a = ToLowercaseSafe (deet_alias deet) \<longrightarrow>
       GetIDForAliasInternal r a = None \<and> GetIDForAliasInternal r' a = Some (nIDCounter r')) \<and>
    (\<forall>a. ToLowercaseSafe a \<noteq> ToLowercaseSafe (deet_alias deet) \<longrightarrow>
       GetIDForAliasInternal r' a = GetIDForAliasInternal r a)"
  using assms
proof (rule ApplyPurchase_True)
  fix s0 s sKey n a
  let ?q = "r\<lparr>nIDCounter := nIDCounter r + 1,
              mapStakers := om_put (nIDCounter r + 1) (s\<lparr>sAlias := a\<rparr>) (mapStakers r),
              mapNftOwners := om_put (nIDCounter r + 1) n (mapNftOwners r),
              mapNftOwnerLookup := om_put n (nIDCounter r + 1) (mapNftOwnerLookup r)\<rparr>"
  assume k: "AliasIsAvailableInternal r (deet_alias deet) = Some sKey"
    and r': "r' = (PurchaseActivate env p s ?q)
         \<lparr>mapAliases := om_put sKey (nIDCounter r + 1, deet_alias deet) (mapAliases r)\<rparr>"
  have "AliasIsValid (deet_alias deet)" "sKey = ToLowercaseSafe (deet_alias deet)" "map_of (mapAliases r) sKey = None"
    using k
    by (simp_all add: AliasIsAvailableInternal_def Let_def om_count_def split: if_splits del: not_None_eq)
  moreover have "nIDCounter (PurchaseActivate env p s ?q) = nIDCounter r + 1"
    by (simp add: PurchaseActivate_simps)
  ultimately show ?thesis unfolding r' by (simp add: GetIDForAliasInternal_def)
qed

theorem purchase_registers_alias_witness:
  "let deet = demo_deet TX_PURCHASE1 0 [[2]] ''Carol'' 0; p = demo_block 3690001 1000 0 [];
       r' = snd (ApplyPurchase demo_env (QPRegistry_new demo_env) deet p)
   in fst (ApplyPurchase demo_env (QPRegistry_new demo_env) deet p) \<and> GetIDForAliasInternal r' ''CAROL'' = Some 1"
proof -
  let ?deet = "demo_deet TX_PURCHASE1 0 [[2]] ''Carol'' 0" and ?p = "demo_block 3690001 1000 0 []"
  let ?r = "QPRegistry_new demo_env"
  have "fst (ApplyPurchase demo_env ?r ?deet ?p)" by code_simp
  then have "ApplyPurchase demo_env ?r ?deet ?p = (True, snd (ApplyPurchase demo_env ?r ?deet ?p))"
    by (metis prod.collapse)
  note a = purchase_registers_alias [OF this]
  have "ToLowercaseSafe ''CAROL'' = ToLowercaseSafe (deet_alias ?deet)" "nIDCounter ?r + 1 = 1" by code_simp+
  with a \<open>fst _\<close> show ?thesis by (simp add: Let_def)
qed

end
