(* ===== verification/QPTxCheckProps.thy ===== *)
theory QPTxCheckProps
  imports QPTxCheck QPRegistryProps
begin

text \<open>
  What the checks of \<open>QPTxCheck\<close> guarantee: who may change a staker, and that operations that
  pass the checks do not fail when the registry applies them.
\<close>

section \<open>Authority\<close>

lemma verdict_True: "(case v of Accept True \<Rightarrow> a | Abort \<Rightarrow> Abort | _ \<Rightarrow> Reject n) = Accept x \<longleftrightarrow> v = Accept True \<and> a = Accept x"
  by (auto split: verdict.splits bool.splits)

lemma ValidateSignatory_keys_True:
  "ValidateSignatory_keys env tx ins idx ks = Accept True \<longleftrightarrow>
   (\<exists>key. GetSignatory env tx ins 0 = Accept key \<and> key \<noteq> [] \<and> key \<in> set ks)"
  by (auto simp: ValidateSignatory_keys_def split: verdict.splits)

lemma authority_keys_qualified:
  assumes "authority_keys r i f = Some ks" "f AND QPKEY_OWNER \<noteq> 0"
  shows "\<exists>s. qualified_staker r i = Some s \<and>
    set ks = {pubkeyOwner s} \<union> (if f AND QPKEY_MANAGER \<noteq> 0 then {pubkeyManager s} else {}) \<union>
      (if f AND QPKEY_DELEGATE \<noteq> 0 then {pubkeyDelegate s} else {}) \<union>
      (if f AND QPKEY_CONTROLLER \<noteq> 0 then {pubkeyController s} else {})"
  using assms
  by (auto simp: authority_keys_def Let_def GetOwnerKey_def GetManagerKey_def GetDelegateKey_def GetControllerKey_def
      bind_eq_Some_conv split: if_splits)

lemma ValidateSignatory_True:
  assumes "ValidateSignatory env r tx ins idx i f = Accept True" "f AND QPKEY_OWNER \<noteq> 0"
  shows "\<exists>s key. qualified_staker r i = Some s \<and> GetSignatory env tx ins 0 = Accept key \<and>
    (key = pubkeyOwner s \<or> key = pubkeyManager s \<and> f AND QPKEY_MANAGER \<noteq> 0 \<or>
     key = pubkeyDelegate s \<and> f AND QPKEY_DELEGATE \<noteq> 0 \<or> key = pubkeyController s \<and> f AND QPKEY_CONTROLLER \<noteq> 0)"
proof -
  obtain ks where ks: "authority_keys r i f = Some ks" "ValidateSignatory_keys env tx ins idx ks = Accept True"
    using assms(1) by (auto simp: ValidateSignatory_def split: option.splits)
  obtain s where s: "qualified_staker r i = Some s"
    "set ks = {pubkeyOwner s} \<union> (if f AND QPKEY_MANAGER \<noteq> 0 then {pubkeyManager s} else {}) \<union>
      (if f AND QPKEY_DELEGATE \<noteq> 0 then {pubkeyDelegate s} else {}) \<union>
      (if f AND QPKEY_CONTROLLER \<noteq> 0 then {pubkeyController s} else {})"
    using authority_keys_qualified [OF ks(1) assms(2)] by blast
  with ks(2) show ?thesis by (auto simp: ValidateSignatory_keys_True split: if_splits)
qed

lemma IsQualifiedStaker_iff: "IsQualifiedStaker r i \<longleftrightarrow> (\<exists>s. qualified_staker r i = Some s)"
  by (auto simp: IsQualifiedStaker_def qualified_staker_def IsQualified_def IsDisqualified_def split: option.splits)

lemma not_qualified_0 [simp]: "\<not> IsQualifiedStaker r 0"
  by (simp add: IsQualifiedStaker_def GetStakerInternal_def)

section \<open>Key changes\<close>

text \<open>The order in which keys may change: no type twice, the owner last, the manager only before the owner.\<close>

definition key_order :: "u32 \<Rightarrow> u32 \<Rightarrow> bool" where
  "key_order a b \<longleftrightarrow> a \<noteq> b \<and> a \<noteq> QPKEY_OWNER \<and> (a = QPKEY_MANAGER \<longrightarrow> b = QPKEY_OWNER)"

definition key_types :: "u32 set" where
  "key_types = {QPKEY_OWNER, QPKEY_MANAGER, QPKEY_DELEGATE, QPKEY_CONTROLLER}"

lemmas QPKEY_defs = QPKEY_OWNER_def QPKEY_MANAGER_def QPKEY_DELEGATE_def QPKEY_CONTROLLER_def QPKEY_NONE_def
  QPKEY_OM_def QPKEY_OMD_def QPKEY_OMC_def

lemma setkey_keytype: "is_setkey_type t \<Longrightarrow> mapQPoSKeyTypes t = Some (the (mapQPoSKeyTypes t)) \<and> the (mapQPoSKeyTypes t) \<in> key_types"
  by (auto simp: is_setkey_type_def mapQPoSKeyTypes_def key_types_def)

lemma key_types_or:
  assumes "t \<in> key_types" "u \<in> key_types"
  shows "(f OR t) AND u \<noteq> 0 \<longleftrightarrow> f AND u \<noteq> 0 \<or> u = t"
  using assms by (auto simp: key_types_def QPKEY_defs bit.conj_disj_distrib2 or_eq_0_iff)

lemma ExtractSetKey_keytype: "ExtractSetKey vch sk = Some sk' \<Longrightarrow> sk_keytype sk' = sk_keytype sk"
  by (auto simp: ExtractSetKey_def Let_def split: prod.splits bool.splits if_splits bind_splits)

text \<open>What one accepted output contributes.\<close>

definition setkey_output :: "chk_env \<Rightarrow> u32 \<Rightarrow> CTxOut \<Rightarrow> qpos_setkey list \<Rightarrow> bool" where
  "setkey_output env i txout ks \<longleftrightarrow> (\<exists>t sols. Solver (scriptPubKey txout) [] = (True, t, sols) \<and>
     (if is_setkey_type t
      then \<exists>sk. ks = [sk] \<and> ExtractSetKey (hd sols) ((ce_setkey env)\<lparr>sk_keytype := the (mapQPoSKeyTypes t)\<rparr>) = Some sk \<and>
             sk_id sk = i \<and> (t = TX_SETDELEGATE \<longrightarrow> sk_pcm sk \<le> 100000)
      else ks = []))"

lemma CheckSetKeys_loop_step:
  assumes "CheckSetKeys_loop env r n (o' # os) f i acc = Accept res" "i \<noteq> 0 \<longrightarrow> IsQualifiedStaker r i"
  obtains (skip) t sols where "Solver (scriptPubKey o') [] = (True, t, sols)" "\<not> is_setkey_type t"
      "CheckSetKeys_loop env r n os f i acc = Accept res"
  | (take) t sols sk where "Solver (scriptPubKey o') [] = (True, t, sols)" "is_setkey_type t" "n = 1"
      "ExtractSetKey (hd sols) ((ce_setkey env)\<lparr>sk_keytype := the (mapQPoSKeyTypes t)\<rparr>) = Some sk"
      "sk_keytype sk = the (mapQPoSKeyTypes t)" "i \<noteq> 0 \<longrightarrow> sk_id sk = i" "IsQualifiedStaker r (sk_id sk)"
      "f AND sk_keytype sk = 0" "sk_keytype sk \<noteq> QPKEY_OWNER \<longrightarrow> QPKEY_OWNER AND f = 0"
      "sk_keytype sk \<noteq> QPKEY_MANAGER \<and> sk_keytype sk \<noteq> QPKEY_OWNER \<longrightarrow> QPKEY_MANAGER AND f = 0"
      "t = TX_SETDELEGATE \<longrightarrow> sk_pcm sk \<le> 100000"
      "CheckSetKeys_loop env r n os (f OR sk_keytype sk) (sk_id sk) (acc @ [sk]) = Accept res"
proof -
  obtain ok t sols where s: "Solver (scriptPubKey o') [] = (ok, t, sols)" by (metis prod_cases3)
  have ok: "ok" using assms(1) by (auto simp: s split: if_splits)
  show ?thesis
  proof (cases "is_setkey_type t")
    case False
    then show ?thesis using assms(1) s ok skip by simp
  next
    case True
    obtain sk where sk: "ExtractSetKey (hd sols) ((ce_setkey env)\<lparr>sk_keytype := the (mapQPoSKeyTypes t)\<rparr>) = Some sk"
      using assms(1) True by (auto simp: s Let_def split: if_splits option.splits)
    have kt: "sk_keytype sk = the (mapQPoSKeyTypes t)" using ExtractSetKey_keytype [OF sk] by simp
    have dt: "t = TX_SETDELEGATE \<Longrightarrow> sk_keytype sk = QPKEY_DELEGATE" by (simp add: kt mapQPoSKeyTypes_def)
    show ?thesis
      by (rule take [OF _ True _ sk kt])
        (use assms True s ok sk kt dt in \<open>auto simp: Let_def not_less split: if_splits\<close>)
  qed
qed

lemma CheckSetKeys_loop_inv:
  assumes "CheckSetKeys_loop env r n os f i acc = Accept (f', i', acc')" "i \<noteq> 0 \<longrightarrow> IsQualifiedStaker r i"
    and "sorted_wrt key_order (map sk_keytype acc)" "set (map sk_keytype acc) \<subseteq> key_types"
    and "\<forall>t \<in> key_types. f AND t \<noteq> 0 \<longleftrightarrow> t \<in> set (map sk_keytype acc)" "\<forall>k \<in> set acc. sk_id k = i \<and> i \<noteq> 0"
  shows "sorted_wrt key_order (map sk_keytype acc') \<and> set (map sk_keytype acc') \<subseteq> key_types \<and>
    (\<forall>t \<in> key_types. f' AND t \<noteq> 0 \<longleftrightarrow> t \<in> set (map sk_keytype acc')) \<and> (\<forall>k \<in> set acc'. sk_id k = i' \<and> i' \<noteq> 0) \<and>
    (i' \<noteq> 0 \<longrightarrow> IsQualifiedStaker r i') \<and> (i \<noteq> 0 \<longrightarrow> i' = i) \<and> (acc' = acc \<longrightarrow> f' = f) \<and>
    (\<exists>kss. acc' = acc @ concat kss \<and> list_all2 (setkey_output env i') os kss)"
  using assms
proof (induction os arbitrary: f i acc)
  case Nil
  then show ?case by auto
next
  case (Cons o' os)
  from Cons.prems(1,2) show ?case
  proof (cases rule: CheckSetKeys_loop_step)
    case (skip t sols)
    note IH = Cons.IH [OF skip(3) Cons.prems(2-6)]
    have "setkey_output env i' o' []" using skip(1,2) by (simp add: setkey_output_def)
    moreover obtain kss where "acc' = acc @ concat kss" "list_all2 (setkey_output env i') os kss" using IH by blast
    ultimately have "\<exists>kss. acc' = acc @ concat kss \<and> list_all2 (setkey_output env i') (o' # os) kss"
      by (intro exI [of _ "[] # kss"]) simp
    then show ?thesis using IH by (elim conjE, intro conjI) assumption+
  next
    case (take t sols sk)
    have kt: "sk_keytype sk \<in> key_types" using setkey_keytype [OF take(2)] take(5) by simp
    have new: "sk_keytype sk \<notin> set (map sk_keytype acc)" using take(8) kt Cons.prems(5) by blast
    have ow: "QPKEY_OWNER \<notin> set (map sk_keytype acc)"
    proof
      assume "QPKEY_OWNER \<in> set (map sk_keytype acc)"
      moreover from this have "f AND QPKEY_OWNER \<noteq> 0" using Cons.prems(5) by (simp add: key_types_def)
      ultimately show False using take(9) new by (auto simp: and.commute)
    qed
    have ma: "QPKEY_MANAGER \<in> set (map sk_keytype acc) \<Longrightarrow> sk_keytype sk = QPKEY_OWNER"
      using take(10) new Cons.prems(5) by (auto simp: key_types_def and.commute)
    have "\<forall>a \<in> set (map sk_keytype acc). key_order a (sk_keytype sk)"
      using new ow ma unfolding key_order_def by metis
    then have ord: "sorted_wrt key_order (map sk_keytype (acc @ [sk]))"
      using Cons.prems(3) by (simp add: sorted_wrt_append)
    have sub: "set (map sk_keytype (acc @ [sk])) \<subseteq> key_types" using Cons.prems(4) kt by auto
    have bits: "\<forall>t \<in> key_types. (f OR sk_keytype sk) AND t \<noteq> 0 \<longleftrightarrow> t \<in> set (map sk_keytype (acc @ [sk]))"
      using key_types_or [OF kt] Cons.prems(5) by auto
    have id0: "sk_id sk \<noteq> 0" using take(7) not_qualified_0 [of r] by (auto simp del: not_qualified_0)
    have ids: "\<forall>k \<in> set (acc @ [sk]). sk_id k = sk_id sk \<and> sk_id sk \<noteq> 0"
      using take(6) Cons.prems(6) id0 by auto
    note IH = Cons.IH [OF take(12) _ ord sub bits ids]
    have i': "i' = sk_id sk" using IH take(7) id0 by simp
    have "setkey_output env i' o' [sk]" using take by (simp add: setkey_output_def i')
    moreover obtain kss where "acc' = (acc @ [sk]) @ concat kss" "list_all2 (setkey_output env i') os kss"
      using IH take(7) by blast
    ultimately have "\<exists>kss. acc' = acc @ concat kss \<and> list_all2 (setkey_output env i') (o' # os) kss"
      by (intro exI [of _ "[sk] # kss"]) simp
    moreover have "acc' = acc \<longrightarrow> f' = f" using \<open>acc' = (acc @ [sk]) @ concat kss\<close> by simp
    moreover have "i \<noteq> 0 \<longrightarrow> i' = i" using take(6) i' by simp
    moreover have "sk_id sk \<noteq> 0 \<longrightarrow> IsQualifiedStaker r (sk_id sk)" using take(7) by simp
    note IH [OF this]
    ultimately show ?thesis by (elim conjE, intro conjI) assumption+
  qed
qed

lemma CheckSetKeys_accepted:
  assumes "CheckSetKeys env r tx ins = Accept ks"
  shows "\<exists>i s key. ks \<noteq> [] \<and> (\<forall>k \<in> set ks. sk_id k = i \<and> i \<noteq> 0) \<and>
    sorted_wrt key_order (map sk_keytype ks) \<and> set (map sk_keytype ks) \<subseteq> key_types \<and>
    qualified_staker r i = Some s \<and> GetSignatory env tx ins 0 = Accept key \<and>
    (key = pubkeyOwner s \<or> key = pubkeyManager s \<and> QPKEY_OWNER \<notin> set (map sk_keytype ks)) \<and>
    (\<exists>kss. ks = concat kss \<and> list_all2 (setkey_output env i) (vout tx) kss)"
proof -
  obtain f i where l: "CheckSetKeys_loop env r (length (vin tx)) (vout tx) 0 0 [] = Accept (f, i, ks)" "f \<noteq> 0"
    and v: "ValidateSignatory env r tx ins 0 i (if QPKEY_OWNER AND f \<noteq> 0 then QPKEY_OWNER else QPKEY_OM) = Accept True"
    using assms by (auto simp: CheckSetKeys_def verdict_True split: verdict.splits if_splits bool.splits)
  have inv: "sorted_wrt key_order (map sk_keytype ks)" "set (map sk_keytype ks) \<subseteq> key_types"
    "\<forall>t \<in> key_types. f AND t \<noteq> 0 \<longleftrightarrow> t \<in> set (map sk_keytype ks)" "\<forall>k \<in> set ks. sk_id k = i \<and> i \<noteq> 0"
    "ks = [] \<longrightarrow> f = 0" "\<exists>kss. ks = concat kss \<and> list_all2 (setkey_output env i) (vout tx) kss"
    using CheckSetKeys_loop_inv [OF l(1)] by simp_all
  let ?f = "if QPKEY_OWNER AND f \<noteq> 0 then QPKEY_OWNER else QPKEY_OM"
  have bits: "?f AND QPKEY_OWNER \<noteq> 0" "?f AND QPKEY_DELEGATE = 0" "?f AND QPKEY_CONTROLLER = 0"
    by (auto simp: QPKEY_defs)
  have mgr: "?f AND QPKEY_MANAGER \<noteq> 0 \<Longrightarrow> QPKEY_OWNER AND f = 0"
    by (cases "QPKEY_OWNER AND f = 0") (simp_all add: QPKEY_defs)
  obtain s key where s: "qualified_staker r i = Some s" "GetSignatory env tx ins 0 = Accept key"
    "key = pubkeyOwner s \<or> key = pubkeyManager s \<and> ?f AND QPKEY_MANAGER \<noteq> 0"
    using ValidateSignatory_True [OF v bits(1)] bits(2,3) by blast
  have "QPKEY_OWNER AND f = 0 \<Longrightarrow> QPKEY_OWNER \<notin> set (map sk_keytype ks)"
    using inv(3) by (auto simp: key_types_def and.commute)
  with s(3) mgr have "key = pubkeyOwner s \<or> key = pubkeyManager s \<and> QPKEY_OWNER \<notin> set (map sk_keytype ks)" by blast
  with s(1,2) inv l(2) show ?thesis by blast
qed

section \<open>Checked operations apply\<close>

text \<open>What an operation has to satisfy to be applied without failure.\<close>

definition good_op :: "QPRegistry \<Rightarrow> QPTxDetails \<Rightarrow> bool" where
  "good_op r d \<longleftrightarrow> IsQualifiedStaker r (deet_id d) \<and>
     (is_setkey_type (deet_t d) \<and> (\<exists>k. deet_keys d = [k]) \<and> (deet_t d = TX_SETDELEGATE \<longrightarrow> deet_pcm d \<in> {0..100000}) \<or>
      deet_t d \<in> {TX_ENABLE, TX_DISABLE, TX_SETMETA})"

definition keeps_qualified :: "QPRegistry \<Rightarrow> QPRegistry \<Rightarrow> bool" where
  "keeps_qualified r r' \<longleftrightarrow> nIDCounter r' = nIDCounter r \<and>
     (\<forall>i. map_option fQualified (map_of (mapStakers r') i) = map_option fQualified (map_of (mapStakers r) i))"

lemma keeps_qualified_IsQualified: "keeps_qualified r r' \<Longrightarrow> IsQualifiedStaker r' i = IsQualifiedStaker r i"
  by (auto simp: keeps_qualified_def IsQualifiedStaker_def GetStakerInternal_def IsQualified_def
      map_option_eq_Some split: option.splits dest!: spec [of _ i])

lemma keeps_qualified_put:
  assumes "nIDCounter q = nIDCounter r" "mapStakers q = mapStakers r" "map_of (mapStakers r) i = Some s"
    "fQualified s' = fQualified s"
  shows "keeps_qualified r (put_staker i s' q)"
  using assms by (auto simp: keeps_qualified_def put_staker_def)

lemma keeps_qualified_same:
  "nIDCounter q = nIDCounter r \<Longrightarrow> mapStakers q = mapStakers r \<Longrightarrow> keeps_qualified r q"
  by (simp add: keeps_qualified_def)

lemma key_in_use:
  assumes "active_wf r" "map_of (mapStakers r) i = Some s"
  shows "\<exists>n \<ge> 1. map_of (mapActive r) (pubkeyManager s) = Some n" "\<exists>n \<ge> 1. map_of (mapActive r) (pubkeyDelegate s) = Some n"
proof -
  have "1 \<le> key_refs r (pubkeyManager s)" "1 \<le> key_refs r (pubkeyDelegate s)"
    using key_refs_ge [OF assms(2), of "pubkeyManager s"] key_refs_ge [OF assms(2), of "pubkeyDelegate s"]
    by (auto simp: key_uses_def of_bool_def split: if_splits)
  with Deactivate_used [OF assms(1)] show "\<exists>n \<ge> 1. map_of (mapActive r) (pubkeyManager s) = Some n"
    "\<exists>n \<ge> 1. map_of (mapActive r) (pubkeyDelegate s) = Some n" by blast+
qed

lemma ApplySetKey_succeeds:
  assumes wf: "active_wf r" and env: "\<not> env_fTestNet env"
    and s: "map_of (mapStakers r) (deet_id d) = Some s" "\<not> IsDisqualified s"
    and d: "is_setkey_type (deet_t d)" "deet_keys d = [k]" "deet_t d = TX_SETDELEGATE \<Longrightarrow> deet_pcm d \<in> {0..100000}"
  shows "\<exists>r'. ApplySetKey env r d p = (True, r') \<and> keeps_qualified r r'"
proof -
  note use = key_in_use [OF wf s(1)]
  have de: "DeactivatePubKey r key = (True, r\<lparr>mapActive := om_put key (n - 1) (mapActive r)\<rparr>)"
    if "map_of (mapActive r) key = Some n" "1 \<le> n" for key n
    using that by (simp add: DeactivatePubKey_def)
  have act: "nIDCounter (ActivatePubKey q key p) = nIDCounter q" "mapStakers (ActivatePubKey q key p) = mapStakers q" for q key
    by (simp_all add: registry_defs)
  from d(1) consider "deet_t d = TX_SETOWNER" | "deet_t d = TX_SETMANAGER" | "deet_t d = TX_SETDELEGATE" | "deet_t d = TX_SETCONTROLLER"
    by (auto simp: is_setkey_type_def)
  then show ?thesis
  proof cases
    case 1
    then show ?thesis using s d(2) env
      by (auto simp: ApplySetKey_def Let_def intro: keeps_qualified_same keeps_qualified_put)
  next
    case 2
    then show ?thesis using s d(2) use(1) de
      by (fastforce simp: ApplySetKey_def Let_def act intro: keeps_qualified_put)
  next
    case 3
    have "\<not> word_of_int (deet_pcm d) > (100000 :: u32)"
      using d(3) [OF 3] by (simp add: word_less_def uint_word_of_int take_bit_int_eq_self_iff not_less)
    then have pay: "SetDelegatePayout s (word_of_int (deet_pcm d)) = (True, s\<lparr>nPcmDelegatePayout := word_of_int (deet_pcm d)\<rparr>)"
      by (simp add: SetDelegatePayout_def)
    obtain n where n: "map_of (mapActive r) (pubkeyDelegate s) = Some n" "1 \<le> n" using use(2) by blast
    let ?s = "s\<lparr>nPcmDelegatePayout := word_of_int (deet_pcm d)\<rparr>"
    have "DeactivatePubKey (put_staker (deet_id d) ?s r) (pubkeyDelegate s) =
        (True, (put_staker (deet_id d) ?s r)\<lparr>mapActive := om_put (pubkeyDelegate s) (n - 1) (mapActive r)\<rparr>)"
      using n by (simp add: DeactivatePubKey_def put_staker_def)
    then show ?thesis using 3 s d(2) pay
      by (auto simp: ApplySetKey_def Let_def act put_staker_def keeps_qualified_def)
  next
    case 4
    then show ?thesis using s d(2) by (auto simp: ApplySetKey_def intro: keeps_qualified_put)
  qed
qed

lemma good_op_applies:
  assumes wf: "counted_wf env r" and env: "\<not> env_fTestNet env" "nfts_fit env" and d: "good_op r d"
  shows "\<exists>r'. ApplyOp env p d r = (0, r') \<and> keeps_qualified r r' \<and> counted_wf env r'"
proof -
  obtain s where s: "map_of (mapStakers r) (deet_id d) = Some s" "\<not> IsDisqualified s"
    using d by (auto simp: good_op_def IsQualifiedStaker_def GetStakerInternal_def IsQualified_def IsDisqualified_def
        split: option.splits if_splits)
  have "\<exists>r'. ApplyOp env p d r = (0, r') \<and> keeps_qualified r r'"
  proof (cases "is_setkey_type (deet_t d)")
    case True
    then obtain k where k: "deet_keys d = [k]" "deet_t d = TX_SETDELEGATE \<longrightarrow> deet_pcm d \<in> {0..100000}"
      using d by (auto simp: good_op_def is_setkey_type_def)
    obtain r' where "ApplySetKey env r d p = (True, r')" "keeps_qualified r r'"
      using ApplySetKey_succeeds [OF _ env(1) s True k(1)] k(2) wf by (auto simp: counted_wf_def)
    then show ?thesis using True by (auto simp: ApplyOp_def Let_def is_setkey_type_def)
  next
    case False
    then have "deet_t d = TX_ENABLE \<or> deet_t d = TX_DISABLE \<or> deet_t d = TX_SETMETA" using d by (auto simp: good_op_def)
    moreover have "fQualified (SetMeta s a b) = fQualified s" for a b by (simp add: SetMeta_def)
    moreover have "keeps_qualified r r" by (simp add: keeps_qualified_def)
    moreover have "fQualified s' = fQualified s \<Longrightarrow> keeps_qualified r (put_staker (deet_id d) s' r)" for s'
      by (rule keeps_qualified_put [OF refl refl s(1)])
    ultimately show ?thesis using s
      by (auto simp: ApplyOp_def ApplySetState_def ApplySetMeta_def Enable_def Disable_def Let_def)
  qed
  then show ?thesis using counted_wf_ApplyOp [OF wf] env by blast
qed

lemma good_ops_apply:
  assumes "counted_wf env r" "\<not> env_fTestNet env" "nfts_fit env" "list_all (good_op r) ds"
  shows "\<exists>r'. ApplyOps_loop env p ds r = (0, r')"
  using assms(1,4)
proof (induction ds arbitrary: r)
  case (Cons d ds)
  from good_op_applies [OF Cons.prems(1) assms(2,3), of d p] Cons.prems(2) obtain r' where
    r': "ApplyOp env p d r = (0, r')" "keeps_qualified r r'" "counted_wf env r'" by auto
  have "list_all (good_op r') ds"
    using Cons.prems(2) keeps_qualified_IsQualified [OF r'(2)] by (auto simp: list_all_iff good_op_def)
  from Cons.IH [OF r'(3) this] r'(1) show ?case by auto
qed simp

section \<open>The operations of a checked transaction\<close>

lemma Solver_solutions: "t \<noteq> TX_SCRIPTHASH \<Longrightarrow> Solver s vs = (ok, t, sols) \<longleftrightarrow> Solver s [] = (ok, t, sols)"
  by (auto simp: Solver_def)

lemma Solver_ok: "Solver s vs = (ok, t, sols) \<Longrightarrow> \<exists>t' sols'. Solver s [] = (ok, t', sols') \<and> t' = t"
  by (auto simp: Solver_def split: if_splits)

lemma GetQPTxDetails_from:
  assumes "GetQPTxDetails_loop env hb ht os n vs b acc = Some (b', acc')" "d \<in> set acc'"
  shows "d \<in> set acc \<or> (\<exists>o' \<in> set os. \<exists>t sols n'. Solver (scriptPubKey o') [] = (True, t, sols) \<and>
    deets_of_output env hb ht n' t (hd sols) = Some (Some d))"
  using assms
proof (induction os arbitrary: n vs b acc)
  case (Cons o' os)
  obtain ok t sols where s: "Solver (scriptPubKey o') vs = (ok, t, sols)" by (metis prod_cases3)
  show ?case
  proof (cases "ok \<and> (\<exists>d. deets_of_output env hb ht n t (hd sols) = Some (Some d))")
    case True
    then obtain d' where d': "ok" "deets_of_output env hb ht n t (hd sols) = Some (Some d')" by blast
    have "deets_of_output env hb ht n TX_SCRIPTHASH (hd sols) = Some None" by (simp add: deets_of_output_def is_setkey_type_def)
    then have "t \<noteq> TX_SCRIPTHASH" using d'(2) by auto
    then have s0: "Solver (scriptPubKey o') [] = (True, t, sols)" using s d'(1) Solver_solutions [of t "scriptPubKey o'" vs ok sols] by simp
    have "GetQPTxDetails_loop env hb ht os (n + 1) sols (b \<or> needs_inputs t) (acc @ [d']) = Some (b', acc')"
      using Cons.prems(1) s d' by simp
    from Cons.IH [OF this Cons.prems(2)] show ?thesis using s0 d'(2) by auto
  next
    case False
    then obtain n' vs' b'' where "GetQPTxDetails_loop env hb ht os n' vs' b'' acc = Some (b', acc')"
      using Cons.prems(1) s by (auto split: if_splits option.splits)
    from Cons.IH [OF this Cons.prems(2)] show ?thesis by auto
  qed
qed simp

text \<open>Each kind of operation in an accepted transaction was accepted by its own check.\<close>

lemma check_deet_kinds:
  "check_deet_purchase env r tx pv (fl, ck) = Accept (fl', ck') \<Longrightarrow> fl_SetKeys fl' = fl_SetKeys fl \<and> fl_SetMetas fl' = fl_SetMetas fl"
  "check_deet_setkey env r tx ins (fl, ck) = Accept (fl', ck') \<Longrightarrow>
     (fl_SetKeys fl \<or> (\<exists>ks. CheckSetKeys env r tx ins = Accept ks)) \<and> fl_SetMetas fl' = fl_SetMetas fl"
  "check_deet_setstate env r tx ins (fl, ck) = Accept (fl', ck') \<Longrightarrow>
     (\<exists>x. CheckSetState env r tx ins = Accept x) \<and> fl_SetKeys fl' = fl_SetKeys fl \<and> fl_SetMetas fl' = fl_SetMetas fl"
  "check_deet_claim env r tx ins nTime (fl, ck) = Accept (fl', ck') \<Longrightarrow>
     (\<exists>c. CheckClaim env r tx ins (ce_claim env) = (Accept (), c)) \<and> fl_SetKeys fl' = fl_SetKeys fl \<and> fl_SetMetas fl' = fl_SetMetas fl"
  "check_deet_setmeta env r tx ins (fl, ck) = Accept (fl', ck') \<Longrightarrow>
     (fl_SetMetas fl \<or> (\<exists>ms. CheckSetMetas env r tx ins = Accept ms)) \<and> fl_SetKeys fl' = fl_SetKeys fl"
  by (auto simp: check_deet_purchase_def check_deet_setkey_def check_deet_setstate_def check_deet_claim_def
      check_deet_setmeta_def Let_def split: verdict.splits if_splits prod.splits)

lemma check_deet_Accept:
  assumes "check_deet env r tx ins nTime pv d (fl, ck) = Accept (fl', ck')"
  shows "(is_setkey_type (deet_t d) \<longrightarrow> fl_SetKeys fl \<or> (\<exists>ks. CheckSetKeys env r tx ins = Accept ks)) \<and>
    (deet_t d \<in> {TX_ENABLE, TX_DISABLE} \<longrightarrow> (\<exists>x. CheckSetState env r tx ins = Accept x)) \<and>
    (deet_t d = TX_SETMETA \<longrightarrow> fl_SetMetas fl \<or> (\<exists>ms. CheckSetMetas env r tx ins = Accept ms)) \<and>
    (deet_t d = TX_CLAIM \<longrightarrow> (\<exists>c. CheckClaim env r tx ins (ce_claim env) = (Accept (), c))) \<and>
    (fl_SetKeys fl' \<longrightarrow> fl_SetKeys fl \<or> is_setkey_type (deet_t d)) \<and> (fl_SetMetas fl' \<longrightarrow> fl_SetMetas fl \<or> deet_t d = TX_SETMETA)"
proof -
  note k = check_deet_kinds
  consider "deet_t d \<in> {TX_PURCHASE1, TX_PURCHASE4}" | "is_setkey_type (deet_t d)" | "deet_t d \<in> {TX_ENABLE, TX_DISABLE}"
    | "deet_t d = TX_CLAIM" | "deet_t d = TX_SETMETA" | "\<not> is_qpos_type (deet_t d)"
    by (auto simp: is_setkey_type_def is_qpos_type_def)
  then show ?thesis
  proof cases
    case 1
    then obtain ck1 where "check_deet_purchase env r tx pv (fl, ck) = Accept (fl', ck1)"
      using assms by (auto simp: check_deet_def split: verdict.splits)
    from k(1) [OF this] 1 show ?thesis by (auto simp: is_setkey_type_def)
  next
    case 2
    then obtain ck1 where "check_deet_setkey env r tx ins (fl, ck) = Accept (fl', ck1)"
      using assms by (auto simp: check_deet_def is_setkey_type_def split: verdict.splits)
    from k(2) [OF this] 2 show ?thesis by (auto simp: is_setkey_type_def)
  next
    case 3
    then obtain ck1 where "check_deet_setstate env r tx ins (fl, ck) = Accept (fl', ck1)"
      using assms by (auto simp: check_deet_def is_setkey_type_def split: verdict.splits)
    from k(3) [OF this] 3 show ?thesis by (auto simp: is_setkey_type_def)
  next
    case 4
    then obtain ck1 where "check_deet_claim env r tx ins nTime (fl, ck) = Accept (fl', ck1)"
      using assms by (auto simp: check_deet_def is_setkey_type_def split: verdict.splits)
    from k(4) [OF this] 4 show ?thesis by (auto simp: is_setkey_type_def)
  next
    case 5
    then obtain ck1 where "check_deet_setmeta env r tx ins (fl, ck) = Accept (fl', ck1)"
      using assms by (auto simp: check_deet_def is_setkey_type_def split: verdict.splits)
    from k(5) [OF this] 5 show ?thesis by (auto simp: is_setkey_type_def)
  next
    case 6
    then show ?thesis using assms by (auto simp: check_deet_def is_setkey_type_def is_qpos_type_def)
  qed
qed

lemma CheckQPoS_loop_Accept:
  assumes "CheckQPoS_loop env r tx ins nTime pv ds (fl, ck) = Accept st"
    and "fl_SetKeys fl \<longrightarrow> (\<exists>ks. CheckSetKeys env r tx ins = Accept ks)"
    and "fl_SetMetas fl \<longrightarrow> (\<exists>ms. CheckSetMetas env r tx ins = Accept ms)" and "d \<in> set ds"
  shows "(is_setkey_type (deet_t d) \<longrightarrow> (\<exists>ks. CheckSetKeys env r tx ins = Accept ks)) \<and>
    (deet_t d \<in> {TX_ENABLE, TX_DISABLE} \<longrightarrow> (\<exists>x. CheckSetState env r tx ins = Accept x)) \<and>
    (deet_t d = TX_SETMETA \<longrightarrow> (\<exists>ms. CheckSetMetas env r tx ins = Accept ms)) \<and>
    (deet_t d = TX_CLAIM \<longrightarrow> (\<exists>c. CheckClaim env r tx ins (ce_claim env) = (Accept (), c)))"
  using assms
proof (induction ds arbitrary: fl ck)
  case (Cons d' ds)
  obtain fl' ck' where c: "check_deet env r tx ins nTime pv d' (fl, ck) = Accept (fl', ck')"
    "CheckQPoS_loop env r tx ins nTime pv ds (fl', ck') = Accept st"
    using Cons.prems(1) by (auto split: verdict.splits)
  note a = check_deet_Accept [OF c(1)]
  show ?case
  proof (cases "d = d'")
    case True
    then show ?thesis using a Cons.prems(2,3) by blast
  next
    case False
    then have "d \<in> set ds" using Cons.prems(4) by simp
    moreover have "fl_SetKeys fl' \<longrightarrow> (\<exists>ks. CheckSetKeys env r tx ins = Accept ks)" using a Cons.prems(2) by blast
    moreover have "fl_SetMetas fl' \<longrightarrow> (\<exists>ms. CheckSetMetas env r tx ins = Accept ms)" using a Cons.prems(3) by blast
    ultimately show ?thesis using Cons.IH [OF c(2)] by blast
  qed
qed simp

lemma CheckQPoS_Accept:
  assumes "CheckQPoS env r tx ins nTime ds pv ck = Accept ck'" "d \<in> set ds"
  shows "(is_setkey_type (deet_t d) \<longrightarrow> (\<exists>ks. CheckSetKeys env r tx ins = Accept ks)) \<and>
    (deet_t d \<in> {TX_ENABLE, TX_DISABLE} \<longrightarrow> (\<exists>x. CheckSetState env r tx ins = Accept x)) \<and>
    (deet_t d = TX_SETMETA \<longrightarrow> (\<exists>ms. CheckSetMetas env r tx ins = Accept ms)) \<and>
    (deet_t d = TX_CLAIM \<longrightarrow> (\<exists>c. CheckClaim env r tx ins (ce_claim env) = (Accept (), c)))"
proof -
  obtain st where "CheckQPoS_loop env r tx ins nTime pv ds (no_flags, ck) = Accept st"
    using assms(1) by (auto simp: CheckQPoS_def split: verdict.splits)
  from CheckQPoS_loop_Accept [OF this _ _ assms(2)] show ?thesis by (simp add: no_flags_def)
qed

lemma CheckSetState_step:
  assumes "CheckSetState_loop env r tx ins (x # os) vs i e = Accept res" "Solver (scriptPubKey x) vs = (ok, t, sols)"
  shows "ok \<and> (if t = TX_ENABLE \<or> t = TX_DISABLE
      then i = 0 \<and> (\<exists>j. ExtractSetState (hd sols) 0 = Some j \<and> IsQualifiedStaker r j \<and>
             ValidateSignatory env r tx ins 0 j QPKEY_OMC = Accept True \<and>
             CheckSetState_loop env r tx ins os sols j (t = TX_ENABLE) = Accept res)
      else CheckSetState_loop env r tx ins os sols i e = Accept res)"
  using assms by (auto simp add: verdict_True split: if_splits option.splits)

lemma CheckSetState_loop_good:
  assumes "CheckSetState_loop env r tx ins os vs i e = Accept res" "o' \<in> set os"
    "Solver (scriptPubKey o') [] = (True, t, sols)" "t = TX_ENABLE \<or> t = TX_DISABLE"
  shows "\<exists>j. ExtractSetState (hd sols) 0 = Some j \<and> IsQualifiedStaker r j"
  using assms(1,2)
proof (induction os arbitrary: vs i e)
  case (Cons x os)
  obtain ok t' sols' where s: "Solver (scriptPubKey x) vs = (ok, t', sols')" by (metis prod_cases3)
  note st = CheckSetState_step [OF Cons.prems(1) s]
  show ?case
  proof (cases "x = o'")
    case True
    have "t \<noteq> TX_SCRIPTHASH" using assms(4) by auto
    then have "Solver (scriptPubKey x) vs = (True, t, sols)" using Solver_solutions [of t "scriptPubKey x" vs True sols] assms(3) True by blast
    then show ?thesis using st s assms(4) by auto
  next
    case False
    then have "o' \<in> set os" using Cons.prems(2) by simp
    moreover obtain vs' i' e' where "CheckSetState_loop env r tx ins os vs' i' e' = Accept res" using st by (auto split: if_splits)
    ultimately show ?thesis using Cons.IH by blast
  qed
qed simp

lemma CheckSetMetas_step:
  assumes "CheckSetMetas_loop env r tx ins (x # os) i ks c acc = Accept res" "Solver (scriptPubKey x) [] = (ok, t, sols)"
    "i \<noteq> 0 \<longrightarrow> IsQualifiedStaker r i"
  shows "ok \<and> (if t = TX_SETMETA
      then \<exists>sm. ExtractSetMeta (hd sols) (ce_setmeta env) = Some sm \<and> IsQualifiedStaker r (sm_id sm) \<and>
             CheckSetMetas_loop env r tx ins os (sm_id sm) (sm_key sm # ks) True (acc @ [sm]) = Accept res
      else CheckSetMetas_loop env r tx ins os i ks c acc = Accept res)"
  using assms by (auto simp add: verdict_True Let_def split: if_splits option.splits)

lemma CheckSetMetas_loop_good:
  assumes "CheckSetMetas_loop env r tx ins os i ks c acc = Accept res" "i \<noteq> 0 \<longrightarrow> IsQualifiedStaker r i" "o' \<in> set os"
    "Solver (scriptPubKey o') [] = (True, TX_SETMETA, sols)"
  shows "\<exists>sm. ExtractSetMeta (hd sols) (ce_setmeta env) = Some sm \<and> IsQualifiedStaker r (sm_id sm)"
  using assms(1-3)
proof (induction os arbitrary: i ks c acc)
  case (Cons x os)
  obtain ok t sols' where s: "Solver (scriptPubKey x) [] = (ok, t, sols')" by (metis prod_cases3)
  note st = CheckSetMetas_step [OF Cons.prems(1) s Cons.prems(2)]
  show ?case
  proof (cases "x = o'")
    case True
    then show ?thesis using st s assms(4) by auto
  next
    case False
    then have o': "o' \<in> set os" using Cons.prems(3) by simp
    show ?thesis
    proof (cases "t = TX_SETMETA")
      case True
      with st obtain sm where "IsQualifiedStaker r (sm_id sm)"
        "CheckSetMetas_loop env r tx ins os (sm_id sm) (sm_key sm # ks) True (acc @ [sm]) = Accept res" by auto
      from Cons.IH [OF this(2) _ o'] this(1) show ?thesis by blast
    next
      case False
      with st have "CheckSetMetas_loop env r tx ins os i ks c acc = Accept res" by simp
      from Cons.IH [OF this Cons.prems(2) o'] show ?thesis .
    qed
  qed
qed simp

lemma list_all2_ex: "list_all2 P xs ys \<Longrightarrow> x \<in> set xs \<Longrightarrow> \<exists>y. P x y"
  by (induction rule: list_all2_induct) auto

lemma deets_of_setkey:
  assumes "is_setkey_type t" "deets_of_output env hb ht n t vch = Some (Some d)"
    "ExtractSetKey vch ((ce_setkey env)\<lparr>sk_keytype := the (mapQPoSKeyTypes t)\<rparr>) = Some sk"
  shows "deet_t d = t \<and> deet_id d = sk_id sk \<and> deet_keys d = [sk_key sk] \<and> deet_pcm d = sint (sk_pcm sk)"
proof -
  have "mapQPoSKeyTypes t = Some (the (mapQPoSKeyTypes t))" using setkey_keytype [OF assms(1)] by blast
  moreover have "\<not> t \<in> {TX_PURCHASE1, TX_PURCHASE4}" using assms(1) by (auto simp: is_setkey_type_def)
  ultimately show ?thesis using assms
    by (cases "mapQPoSKeyTypes t") (auto simp: deets_of_output_def ExtractSetKey_deets_def QPTxDetails_Clear_def QPTxDetails_SetNull_def)
qed

lemma deets_of_setstate:
  assumes "t = TX_ENABLE \<or> t = TX_DISABLE" "deets_of_output env hb ht n t vch = Some (Some d)"
    "length vch = 4" "ExtractSetState vch 0 = Some j"
  shows "deet_t d = t \<and> deet_id d = j"
proof -
  have "ExtractSetState vch (ce_setstate env) = ExtractSetState vch 0"
    using assms(3) by (simp add: ExtractSetState_def IncrementN_eq)
  with assms show ?thesis
    by (auto simp: deets_of_output_def is_setkey_type_def ExtractSetState_deets_def QPTxDetails_Clear_def QPTxDetails_SetNull_def)
qed

lemma deets_of_setmeta:
  assumes "deets_of_output env hb ht n TX_SETMETA vch = Some (Some d)" "ExtractSetMeta vch (ce_setmeta env) = Some sm"
  shows "deet_t d = TX_SETMETA \<and> deet_id d = sm_id sm"
  using assms by (auto simp: deets_of_output_def is_setkey_type_def ExtractSetMeta_deets_def QPTxDetails_Clear_def QPTxDetails_SetNull_def)

lemma deets_of_type:
  assumes "deets_of_output env hb ht n t vch = Some (Some d)"
  shows "deet_t d = t"
proof -
  consider "t \<in> {TX_PURCHASE1, TX_PURCHASE4}" | "is_setkey_type t" | "t \<in> {TX_ENABLE, TX_DISABLE}" | "t = TX_CLAIM" | "t = TX_SETMETA"
    using assms by (auto simp: deets_of_output_def Let_def split: if_splits)
  then show ?thesis
  proof cases
    case 1
    then show ?thesis using assms
      by (auto simp: deets_of_output_def ExtractPurchase_deets_def QPTxDetails_Clear_def QPTxDetails_SetNull_def bind_eq_Some_conv)
  next
    case 2
    then have "\<not> t \<in> {TX_PURCHASE1, TX_PURCHASE4}" by (auto simp: is_setkey_type_def)
    then show ?thesis using 2 assms
      by (auto simp: deets_of_output_def ExtractSetKey_deets_def QPTxDetails_Clear_def QPTxDetails_SetNull_def bind_eq_Some_conv)
  next
    case 3
    then show ?thesis using assms
      by (auto simp: deets_of_output_def is_setkey_type_def ExtractSetState_deets_def QPTxDetails_Clear_def QPTxDetails_SetNull_def)
  next
    case 4
    then show ?thesis using assms
      by (auto simp: deets_of_output_def is_setkey_type_def ExtractClaim_deets_def QPTxDetails_Clear_def QPTxDetails_SetNull_def)
  next
    case 5
    then show ?thesis using assms
      by (auto simp: deets_of_output_def is_setkey_type_def ExtractSetMeta_deets_def QPTxDetails_Clear_def QPTxDetails_SetNull_def)
  qed
qed

lemma setstate_payload: "Solver s [] = (True, t, sols) \<Longrightarrow> t = TX_ENABLE \<or> t = TX_DISABLE \<Longrightarrow> length (hd sols) = 4"
  using Solver_payload_iff [of TX_ENABLE OP_ENABLE s "[]" sols] Solver_payload_iff [of TX_DISABLE OP_DISABLE s "[]" sols]
  by (auto simp: payload_op_def payload_size_def)

lemma checked_good:
  assumes d: "GetQPTxDetails env tx hb = Some (b, ds)" "d \<in> set ds"
    and chk: "CheckQPoS env r tx ins nTime ds pv ck = Accept ck'"
    and kind: "deet_t d \<notin> {TX_PURCHASE1, TX_PURCHASE4, TX_CLAIM}"
  shows "good_op r d"
proof -
  obtain o' t sols n where o': "o' \<in> set (vout tx)" "Solver (scriptPubKey o') [] = (True, t, sols)"
    "deets_of_output env hb (GetHash (ce_tx env) tx) n t (hd sols) = Some (Some d)"
    using GetQPTxDetails_from [OF d(1) [unfolded GetQPTxDetails_def] d(2)] by auto
  have t: "deet_t d = t" using deets_of_type [OF o'(3)] .
  note acc = CheckQPoS_Accept [OF chk d(2), unfolded t]
  consider "is_setkey_type t" | "t = TX_ENABLE \<or> t = TX_DISABLE" | "t = TX_SETMETA"
    using o'(3) kind t by (auto simp: deets_of_output_def Let_def split: if_splits)
  then show ?thesis
  proof cases
    case 1
    with acc obtain ks where "CheckSetKeys env r tx ins = Accept ks" by blast
    from CheckSetKeys_accepted [OF this] obtain i s kss where i: "qualified_staker r i = Some s"
      "list_all2 (setkey_output env i) (vout tx) kss" by blast
    then obtain sk where sk: "ExtractSetKey (hd sols) ((ce_setkey env)\<lparr>sk_keytype := the (mapQPoSKeyTypes t)\<rparr>) = Some sk"
      "sk_id sk = i" "t = TX_SETDELEGATE \<longrightarrow> sk_pcm sk \<le> 100000"
      using list_all2_ex [OF i(2) o'(1)] o'(2) 1 by (auto simp: setkey_output_def)
    have "sint (sk_pcm sk) = uint (sk_pcm sk)" if "sk_pcm sk \<le> 100000"
    proof -
      from that have "uint (sk_pcm sk) \<le> 100000" by (simp add: word_le_def)
      moreover have "- (2 ^ 31) \<le> uint (sk_pcm sk)" by (rule order_trans [OF _ uint_ge_0]) simp
      ultimately show ?thesis by (simp add: sint_uint signed_take_bit_int_eq_self)
    qed
    with deets_of_setkey [OF 1 o'(3) sk(1)] sk(2,3) i(1) 1 show ?thesis
      by (auto simp: good_op_def IsQualifiedStaker_iff word_le_def)
  next
    case 2
    with acc obtain x where "CheckSetState env r tx ins = Accept x" by auto
    from CheckSetState_loop_good [OF this [unfolded CheckSetState_def] o'(1,2) 2] obtain j where
      "ExtractSetState (hd sols) 0 = Some j" "IsQualifiedStaker r j" by blast
    with deets_of_setstate [OF 2 o'(3) setstate_payload [OF o'(2) 2]] 2 show ?thesis by (auto simp: good_op_def)
  next
    case 3
    with acc obtain ms where "CheckSetMetas env r tx ins = Accept ms" by auto
    from CheckSetMetas_loop_good [OF this [unfolded CheckSetMetas_def] _ o'(1)] o'(2) 3 obtain sm where
      "ExtractSetMeta (hd sols) (ce_setmeta env) = Some sm" "IsQualifiedStaker r (sm_id sm)" by auto
    with deets_of_setmeta o'(3) 3 show ?thesis by (auto simp: good_op_def)
  qed
qed

section \<open>Claims\<close>

lemma CheckClaim_accepted:
  assumes "CheckClaim env r tx ins c0 = (Accept (), c)" "cl_value c \<noteq> 0"
  shows "\<exists>bal. length (vin tx) = 1 \<and> length (vout tx) = 1 \<and> GetSignatory env tx ins 0 = Accept (cl_key c) \<and>
    map_of (mapBalances r) (cl_key c) = Some bal \<and> MIN_TXOUT_AMOUNT \<le> cl_value c \<and> cl_value c \<le> bal \<and>
    CanClaimInternal (ce_qp env) r (cl_key c) (cl_value c) 0"
proof -
  have loop: "CheckClaim_loop n m os vs f = Accept (True, sols) \<Longrightarrow> f \<or> n = 1 \<and> m = 1" for n m os vs f sols
    by (induction os arbitrary: vs f) (auto split: prod.splits if_splits)
  obtain sols where l: "CheckClaim_loop (length (vin tx)) (length (vout tx)) (vout tx) [] False = Accept (True, sols)"
    and can: "CanClaimInternal (ce_qp env) r (cl_key c) (cl_value c) 0" "\<not> cl_value c < MIN_TXOUT_AMOUNT"
    and v: "ValidateSignatory_key env tx ins 0 (cl_key c) = Accept True"
    using assms by (auto simp: CheckClaim_def Let_def split: verdict.splits if_splits option.splits bool.splits)
  have "GetSignatory env tx ins 0 = Accept (cl_key c)"
    using v by (auto simp: ValidateSignatory_key_def split: verdict.splits)
  moreover have "\<exists>bal. map_of (mapBalances r) (cl_key c) = Some bal \<and> cl_value c \<le> bal"
    using can(1) by (auto simp: CanClaimInternal_def Let_def split: if_splits option.splits)
  ultimately show ?thesis using loop [OF l] can by auto
qed

section \<open>What a check that accepts guarantees\<close>

definition demo_chk :: chk_env where
  "demo_chk = \<lparr>ce_tx = demo_tx_env, ce_qp = demo_env, ce_nHeightBest = 5000000, ce_GetTransaction = (\<lambda>_. Some 5),
     ce_mapBlockIndex = (\<lambda>_. Some (Some True)), 
     ce_purchase = \<lparr>pu_alias = [], pu_keys = [], pu_pcm = 0, pu_value = 0, pu_nft = 0\<rparr>,
     ce_setkey = \<lparr>sk_keytype = 0, sk_id = 0, sk_key = [], sk_pcm = 0\<rparr>, ce_setstate = 0,
     ce_setmeta = \<lparr>sm_id = 0, sm_key = [], sm_value = []\<rparr>, ce_claim = \<lparr>cl_key = [], cl_value = 0\<rparr>\<rparr>"

definition pay_key :: "CPubKey \<Rightarrow> valtype" where
  "pay_key k = push_data k @ [OP_CHECKSIG]"

definition demo_inputs :: MapPrevTx where
  "demo_inputs = [(77, CTxIndex_new CDiskTxPos_SetNull 2, demo_spend (replicate 2 \<lparr>nValue = 5000000, scriptPubKey = pay_key demo_key\<rparr>))]"

definition demo_set_manager :: CTransaction where
  "demo_set_manager = demo_spend [\<lparr>nValue = 4000000, scriptPubKey = pay_key demo_key\<rparr>,
     \<lparr>nValue = 0, scriptPubKey = push_data ([0, 0, 0, 1] @ replicate 33 9) @ [OP_SETMANAGER]\<rparr>]"

lemma demo_set_manager_checks:
  "CheckSetKeys demo_chk demo_registry demo_set_manager demo_inputs =
     Accept [\<lparr>sk_keytype = QPKEY_MANAGER, sk_id = 1, sk_key = replicate 33 9, sk_pcm = 0\<rparr>]"
  by code_simp

lemma demo_owner: "map_option pubkeyOwner (qualified_staker demo_registry 1) = Some demo_key"
  by code_simp



text \<open>
  C27. What the transaction checks let through, the registry can apply: if the operations of a transaction
  pass \<open>CheckQPoS\<close> against a reachable registry of the main network, and none of them is a purchase or a claim,
  then applying them to this registry succeeds for every one of them.
\<close>

theorem checked_ops_apply:
  assumes "reached (ce_qp env) r" "\<not> env_fTestNet (ce_qp env)" "nfts_fit (ce_qp env)"
    and "GetQPTxDetails env tx hashBlk = Some (fNeedsInputs, vDeets)"
    and "CheckQPoS env r tx mapInputs nTime vDeets pindexPrev ck = Accept ck'"
    and "\<forall>d \<in> set vDeets. deet_t d \<notin> {TX_PURCHASE1, TX_PURCHASE4, TX_CLAIM}"
  shows "\<exists>r'. ApplyOps_loop (ce_qp env) p vDeets r = (0, r')"
proof (rule good_ops_apply)
  show "counted_wf (ce_qp env) r" using reached_inv [OF assms(1-3)] by (simp add: chain_inv_def)
  show "list_all (good_op r) vDeets"
    using checked_good [OF assms(4) _ assms(5)] assms(6) by (auto simp: list_all_iff)
qed (use assms in auto)

definition demo_checked :: qp_checked where
  "demo_checked = \<lparr>ck_purchases = [], ck_setkeys = [], ck_claims = [], ck_deets = []\<rparr>"

theorem checked_ops_apply_witness:
  "\<exists>vDeets r'. GetQPTxDetails demo_chk demo_set_manager 5 = Some (True, vDeets) \<and> length vDeets = 1 \<and>
     ApplyOps_loop demo_env (demo_block 5000001 2000 0 []) vDeets demo_registry = (0, r')"
proof -
  let ?ds = "snd (the (GetQPTxDetails demo_chk demo_set_manager 5))"
  have ds: "GetQPTxDetails demo_chk demo_set_manager 5 = Some (True, ?ds)" "map deet_t ?ds = [TX_SETMANAGER]" by code_simp+
  have "case CheckQPoS demo_chk demo_registry demo_set_manager demo_inputs 2000 ?ds (demo_block 5000000 1995 0 []) demo_checked of
      Accept _ \<Rightarrow> True | _ \<Rightarrow> False" by code_simp
  then obtain ck where ck: "CheckQPoS demo_chk demo_registry demo_set_manager demo_inputs 2000 ?ds (demo_block 5000000 1995 0 []) demo_checked = Accept ck"
    by (auto split: verdict.splits)
  have e: "ce_qp demo_chk = demo_env" by (simp add: demo_chk_def)
  have "\<forall>d \<in> set ?ds. deet_t d = TX_SETMANAGER" using ds(2) by (metis image_eqI in_set_conv_decomp_first length_map list.set_map set_ConsD list.set_cases empty_iff empty_set)
  then have "\<forall>d \<in> set ?ds. deet_t d \<notin> {TX_PURCHASE1, TX_PURCHASE4, TX_CLAIM}" by simp
  from checked_ops_apply [of demo_chk, unfolded e, OF demo_reached demo_env_ok(1,2) ds(1) ck this]
  show ?thesis using ds arg_cong [OF ds(2), of length] by auto
qed


definition demo_saved :: QPRegistry where
  "demo_saved = demo_registry\<lparr>mapBalances := [(demo_key, 7000000)]\<rparr>"

definition demo_claim :: CTransaction where
  "demo_claim = demo_spend [\<lparr>nValue = 9000000,
     scriptPubKey = push_data (demo_key @ [0, 0, 0, 0, 0, 91, 141, 128]) @ [OP_CLAIM] @ p2pkh (replicate 20 7)\<rparr>]"


end
