(* ===== verification/LedgerProps.thy ===== *)
theory LedgerProps
  imports Ledger QPTxCheckProps
begin

text \<open>
  What connecting a block does to the transaction index. The abstract ledger is a map from transaction hashes to
  their entries; a transaction marks the outputs it spends and adds its own entry. \<open>ConnectBlock\<close> with its
  queue of changes refines this specification, so that no output is spent twice and disconnecting the block
  gives back the old index; the books it keeps do not create money.
\<close>

section \<open>The abstract ledger\<close>

definition out_hash :: "CTxIn \<Rightarrow> uint256" where "out_hash i = op_hash (prevout i)"
definition out_n :: "CTxIn \<Rightarrow> nat" where "out_n i = unat (op_n (prevout i))"

definition mark :: "CDiskTxPos \<Rightarrow> uint256 \<Rightarrow> CTxIn \<Rightarrow> CTxIndex \<Rightarrow> CTxIndex" where
  "mark pos h i ti = (if out_hash i = h then ti\<lparr>ti_vSpent := (ti_vSpent ti)[out_n i := pos]\<rparr> else ti)"

definition marks :: "CDiskTxPos \<Rightarrow> CTxIn list \<Rightarrow> uint256 \<Rightarrow> CTxIndex \<Rightarrow> CTxIndex" where
  "marks pos ins h = fold (mark pos h) ins"

definition unspent :: "(uint256 \<Rightarrow> CTxIndex option) \<Rightarrow> CTxIn \<Rightarrow> bool" where
  "unspent V i \<longleftrightarrow> (\<exists>ti. V (out_hash i) = Some ti \<and> out_n i < length (ti_vSpent ti) \<and>
     CDiskTxPos_IsNull (ti_vSpent ti ! out_n i))"

definition spends :: "CTransaction \<Rightarrow> CTxIn list" where
  "spends tx = (if IsCoinBase tx then [] else vin tx)"

definition apply_tx :: "tx_env \<Rightarrow> CDiskTxPos \<Rightarrow> CTransaction \<Rightarrow> (uint256 \<Rightarrow> CTxIndex option) \<Rightarrow> uint256 \<Rightarrow> CTxIndex option" where
  "apply_tx env pos tx V =
     (\<lambda>h. map_option (marks pos (spends tx) h) (V h))(GetHash env tx \<mapsto> CTxIndex_new pos (length (vout tx)))"

text \<open>The index as a transaction of the block sees it: the queued changes, and behind them the data base.\<close>

definition view :: "CTxDB \<Rightarrow> tx_pool \<Rightarrow> uint256 \<Rightarrow> CTxIndex option" where
  "view db q h = (case map_of q h of Some ti \<Rightarrow> Some ti | None \<Rightarrow> txdb_tx db h)"

section \<open>Transactions\<close>

lemma marks_Nil [simp]: "marks pos [] h ti = ti"
  by (simp add: marks_def)

lemma marks_Cons [simp]: "marks pos (i # ins) h ti = marks pos ins h (mark pos h i ti)"
  by (simp add: marks_def)

lemma length_mark [simp]: "length (ti_vSpent (mark pos h i ti)) = length (ti_vSpent ti)"
  by (simp add: mark_def)

lemma nth_mark: "n < length (ti_vSpent ti) \<Longrightarrow>
    ti_vSpent (mark pos h i ti) ! n = (if out_hash i = h \<and> out_n i = n then pos else ti_vSpent ti ! n)"
  by (auto simp: mark_def nth_list_update)

lemma marks_other: "h \<notin> out_hash ` set ins \<Longrightarrow> marks pos ins h ti = ti"
  by (induction ins arbitrary: ti) (auto simp: mark_def)

lemma map_marks_other: "h \<notin> out_hash ` set ins \<Longrightarrow> map_option (marks pos ins h) x = x"
  by (cases x) (simp_all add: marks_other)

lemma prevout_eqI: "out_hash i = out_hash j \<Longrightarrow> out_n i = out_n j \<Longrightarrow> prevout i = prevout j"
  by (cases "prevout i"; cases "prevout j") (simp add: out_hash_def out_n_def word_unat_eq_iff)

lemma spend_marks:
  assumes "ConnectInputs_spend env tx pos fBlock fMiner flags ins i inputs q = Accept q'"
    and "fBlock \<or> fMiner" and "\<not> CDiskTxPos_IsNull pos"
  shows "distinct (map prevout ins) \<and> (\<forall>j \<in> set ins. unspent (map_option fst \<circ> map_of inputs) j) \<and>
    (\<forall>h. map_of q' h = (if h \<in> out_hash ` set ins
       then map_option (marks pos ins h \<circ> fst) (map_of inputs h) else map_of q h))"
  using assms(1)
proof (induction ins arbitrary: i inputs q)
  case (Cons j ins)
  obtain ti txp where in_j: "map_of inputs (out_hash j) = Some (ti, txp)" "out_n j < length (ti_vSpent ti)"
    "CDiskTxPos_IsNull (ti_vSpent ti ! out_n j)"
    and rest: "ConnectInputs_spend env tx pos fBlock fMiner flags ins (i + 1)
        (om_put (out_hash j) (mark pos (out_hash j) j ti, txp) inputs) (om_put (out_hash j) (mark pos (out_hash j) j ti) q) = Accept q'"
    using Cons.prems assms(2)
    by (auto simp: Let_def out_hash_def out_n_def mark_def split: option.splits if_splits prod.splits)
  note IH = Cons.IH [OF rest]
  have *: "prevout j \<noteq> prevout k \<and> unspent (map_option fst \<circ> map_of inputs) k" if k: "k \<in> set ins" for k
  proof -
    have "unspent (map_option fst \<circ> map_of (om_put (out_hash j) (mark pos (out_hash j) j ti, txp) inputs)) k"
      using IH k by blast
    then obtain ti' where ti': "(map_option fst \<circ> map_of (om_put (out_hash j) (mark pos (out_hash j) j ti, txp) inputs)) (out_hash k) = Some ti'"
      "out_n k < length (ti_vSpent ti')" "CDiskTxPos_IsNull (ti_vSpent ti' ! out_n k)"
      unfolding unspent_def by blast
    show ?thesis
    proof (cases "out_hash k = out_hash j")
      case True
      then have "ti' = mark pos (out_hash j) j ti" using ti'(1) by simp
      then show ?thesis using ti' in_j True assms(3)
        by (auto simp: nth_mark unspent_def out_n_def split: if_splits)
    next
      case False
      then show ?thesis using ti' by (auto simp: unspent_def out_hash_def)
    qed
  qed
  have "distinct (map prevout (j # ins))" using IH * by auto
  moreover have "unspent (map_option fst \<circ> map_of inputs) k" if "k \<in> set (j # ins)" for k
    using that * in_j by (auto simp: unspent_def)
  moreover have "map_of q' h = (if h \<in> out_hash ` set (j # ins)
       then map_option (marks pos (j # ins) h \<circ> fst) (map_of inputs h) else map_of q h)" for h
  proof -
    have q': "map_of q' h = (if h \<in> out_hash ` set ins
        then map_option (marks pos ins h \<circ> fst) (map_of (om_put (out_hash j) (mark pos (out_hash j) j ti, txp) inputs) h)
        else map_of (om_put (out_hash j) (mark pos (out_hash j) j ti) q) h)" using IH by blast
    show ?thesis
    proof (cases "h = out_hash j")
      case True
      then show ?thesis using q' in_j(1) by (simp add: marks_other)
    next
      case False
      then have "mark pos h j ti' = ti'" for ti' by (simp add: mark_def)
      with False show ?thesis using q' by (simp add: comp_def)
    qed
  qed
  ultimately show ?case by blast
qed simp

text \<open>Fetched inputs are what the view of the index says.\<close>

lemma view_if: "(if om_count h q then map_of q h else ReadTxIndex db h) = view db q h"
  by (auto simp: view_def om_count_def ReadTxIndex_def split: option.splits)

lemma FetchInputs_loop_step:
  "FetchInputs_loop env db q True (i # ins) m = Accept m' \<Longrightarrow>
   om_count (out_hash i) m \<and> FetchInputs_loop env db q True ins m = Accept m' \<or>
   (\<exists>ti txp. \<not> om_count (out_hash i) m \<and> view db q (out_hash i) = Some ti \<and>
      (if ti_pos ti = POS_MEMPOOL then le_mempool env (out_hash i) else le_ReadFromDisk env (ti_pos ti)) = Some txp \<and>
      FetchInputs_loop env db q True ins (om_put (out_hash i) (ti, txp) m) = Accept m')"
  unfolding FetchInputs_loop.simps Let_def out_hash_def simp_thms view_if
  by (cases "view db q (op_hash (prevout i))") (auto split: if_split_asm option.split_asm)

lemma FetchInputs_loop_view:
  assumes "FetchInputs_loop env db q True ins m = Accept m'"
    and "\<forall>h ti txp. map_of m h = Some (ti, txp) \<longrightarrow> view db q h = Some ti"
  shows "\<forall>h ti txp. map_of m' h = Some (ti, txp) \<longrightarrow> view db q h = Some ti"
  using assms
proof (induction ins arbitrary: m)
  case (Cons i ins)
  from FetchInputs_loop_step [OF Cons.prems(1)] show ?case
  proof (elim disjE exE conjE)
    fix ti txp
    assume v: "view db q (out_hash i) = Some ti"
      and l: "FetchInputs_loop env db q True ins (om_put (out_hash i) (ti, txp) m) = Accept m'"
    have "view db q h = Some ti'" if "map_of (om_put (out_hash i) (ti, txp) m) h = Some (ti', txp')" for h ti' txp'
    proof (cases "h = out_hash i")
      case False
      then have "map_of m h = Some (ti', txp')" using that by simp
      with Cons.prems(2) show ?thesis by blast
    qed (use that v in simp)
    then show ?thesis using Cons.IH [OF l] by blast
  qed (use Cons.IH Cons.prems(2) in blast)
qed simp

lemma FetchInputs_view:
  assumes "snd (FetchInputs env db q True fMiner tx []) = Accept m" "map_of m h = Some (ti, txp)"
  shows "view db q h = Some ti"
proof (cases "IsCoinBase tx")
  case False
  with assms(1) have "FetchInputs_loop env db q True (vin tx) [] = Accept m"
    by (auto simp: FetchInputs_def split: verdict.splits bool.splits)
  from FetchInputs_loop_view [OF this] assms(2) show ?thesis by auto
qed (use assms in \<open>simp add: FetchInputs_def\<close>)

section \<open>One transaction of a block\<close>

lemma ConnectInputs_spends:
  assumes "ConnectInputs env db tx inputs q pos pchain True False flags vp nc fb fib = Accept (q', fb')" "\<not> IsCoinBase tx"
  shows "ConnectInputs_spend env tx pos True False flags (vin tx) 0 inputs q = Accept q'"
  using assms by (auto simp: ConnectInputs_def Let_def split: option.splits verdict.splits if_splits)

lemma view_put: "view db (om_put h ti q) = (view db q)(h \<mapsto> ti)"
  by (rule ext) (simp add: view_def)

text \<open>The position a transaction is entered with.\<close>

definition tx_position :: "CBlockMemIndex list \<Rightarrow> u32 \<Rightarrow> CDiskTxPos" where
  "tx_position pchain nTxPos = \<lparr>tp_nFile = mi_nFile (hd pchain), tp_nBlockPos = mi_nBlockPos (hd pchain), tp_nTxPos = nTxPos\<rparr>"

lemma ConnectBlock_spend_view:
  assumes "ConnectBlock_spend env db r rMain pchain supply pos tx cs = Accept cs'"
    and "\<not> IsCoinBase tx" "\<not> CDiskTxPos_IsNull pos"
  shows "distinct (map prevout (vin tx)) \<and> (\<forall>j \<in> set (vin tx). unspent (view db (cs_mapQueuedChanges cs)) j) \<and>
    view db (cs_mapQueuedChanges cs') = (\<lambda>h. map_option (marks pos (vin tx) h) (view db (cs_mapQueuedChanges cs) h)) \<and>
    cs_nTxPos cs' = cs_nTxPos cs"
proof -
  let ?q = "cs_mapQueuedChanges cs" and ?q' = "cs_mapQueuedChanges cs'"
  obtain m flags vp nc fb fb' where m: "snd (FetchInputs (bc_led env) db ?q True False tx []) = Accept m"
    and c: "ConnectInputs (bc_led env) db tx m ?q pos pchain True False flags vp nc fb True = Accept (?q', fb')"
    and p: "cs_nTxPos cs' = cs_nTxPos cs"
    using assms(1) unfolding ConnectBlock_spend_def Let_def
    by (auto split: verdict.splits option.splits if_splits prod.splits)
  note sp = spend_marks [OF ConnectInputs_spends [OF c assms(2)] _ assms(3), simplified]
  have un: "unspent (view db ?q) j" if "j \<in> set (vin tx)" for j
  proof -
    from sp that obtain ti txp where "map_of m (out_hash j) = Some (ti, txp)" "out_n j < length (ti_vSpent ti)"
      "CDiskTxPos_IsNull (ti_vSpent ti ! out_n j)" by (auto simp: unspent_def)
    with FetchInputs_view [OF m] show ?thesis by (auto simp: unspent_def)
  qed
  have "view db ?q' h = map_option (marks pos (vin tx) h) (view db ?q h)" for h
  proof (cases "h \<in> out_hash ` set (vin tx)")
    case True
    then obtain j where j: "j \<in> set (vin tx)" "h = out_hash j" by blast
    with sp obtain ti txp where ti: "map_of m h = Some (ti, txp)" by (auto simp: unspent_def)
    have "map_of ?q' h = Some (marks pos (vin tx) h ti)" using sp True ti by simp
    then show ?thesis using FetchInputs_view [OF m ti] by (simp add: view_def [of db ?q'])
  next
    case False
    then have "map_of ?q' h = map_of ?q h" using sp by simp
    then show ?thesis using False by (simp add: view_def map_marks_other split: option.splits)
  qed
  with sp un p show ?thesis by blast
qed

lemma ConnectBlock_tx_refines:
  assumes "ConnectBlock_tx env db r rMain pchain supply fJustCheck tx cs = Accept cs'"
    and "mi_nFile (hd pchain) \<noteq> -1"
  shows "distinct (map prevout (spends tx)) \<and> (\<forall>j \<in> set (spends tx). unspent (view db (cs_mapQueuedChanges cs)) j) \<and>
    view db (cs_mapQueuedChanges cs') =
      apply_tx (bc_tx env) (tx_position pchain (cs_nTxPos cs)) tx (view db (cs_mapQueuedChanges cs)) \<and>
    cs_nTxPos cs' = (if fJustCheck then cs_nTxPos cs else cs_nTxPos cs + size_tx tx)"
proof (cases "IsCoinBase tx")
  case True
  then show ?thesis using assms(1)
    by (auto simp: ConnectBlock_tx_def Let_def spends_def view_put apply_tx_def tx_position_def map_marks_other
        split: if_splits option.splits)
next
  case False
  let ?cs = "cs\<lparr>cs_nSigOps := cs_nSigOps cs + GetLegacySigOpCount tx,
    cs_nTxPos := (if fJustCheck then cs_nTxPos cs else cs_nTxPos cs + size_tx tx)\<rparr>"
  obtain cs1 where c: "ConnectBlock_spend env db r rMain pchain supply (tx_position pchain (cs_nTxPos cs)) tx ?cs = Accept cs1"
    and cs': "cs' = cs1\<lparr>cs_mapQueuedChanges := om_put (GetHash (bc_tx env) tx)
       (CTxIndex_new (tx_position pchain (cs_nTxPos cs)) (length (vout tx))) (cs_mapQueuedChanges cs1)\<rparr>"
    using assms(1) False by (auto simp: ConnectBlock_tx_def Let_def tx_position_def split: if_splits verdict.splits)
  have "\<not> CDiskTxPos_IsNull (tx_position pchain (cs_nTxPos cs))"
    using assms(2) by (simp add: CDiskTxPos_IsNull_def tx_position_def)
  from ConnectBlock_spend_view [OF c False this] cs' False show ?thesis
    by (simp add: spends_def view_put apply_tx_def)
qed

section \<open>All transactions of a block\<close>

fun ledger_run ::
  "tx_env \<Rightarrow> CBlockMemIndex list \<Rightarrow> u32 \<Rightarrow> CTransaction list \<Rightarrow> (uint256 \<Rightarrow> CTxIndex option) \<Rightarrow> (uint256 \<Rightarrow> CTxIndex option) option"
where
  "ledger_run env pchain p [] V = Some V"
| "ledger_run env pchain p (tx # txs) V =
     (if distinct (map prevout (spends tx)) \<and> (\<forall>j \<in> set (spends tx). unspent V j)
      then ledger_run env pchain (p + size_tx tx) txs (apply_tx env (tx_position pchain p) tx V) else None)"

lemma ConnectBlock_tx_bip30:
  "ConnectBlock_tx env db r rMain pchain supply fJustCheck tx cs = Accept cs' \<Longrightarrow> bip30_ok db (GetHash (bc_tx env) tx)"
  by (auto simp: ConnectBlock_tx_def Let_def split: if_splits)

lemma om_wf_spend:
  "ConnectInputs_spend env tx pos fBlock fMiner flags ins i inputs q = Accept q' \<Longrightarrow> om_wf q \<Longrightarrow> om_wf q'"
  by (induction ins arbitrary: i inputs q) (auto simp: Let_def split: option.splits if_splits prod.splits)

lemma ConnectBlock_tx_wf:
  assumes "ConnectBlock_tx env db r rMain pchain supply fJustCheck tx cs = Accept cs'" "om_wf (cs_mapQueuedChanges cs)"
  shows "om_wf (cs_mapQueuedChanges cs')"
proof (cases "IsCoinBase tx")
  case True
  then show ?thesis using assms by (auto simp: ConnectBlock_tx_def Let_def split: if_splits option.splits)
next
  case False
  obtain pos cs0 cs1 where c: "ConnectBlock_spend env db r rMain pchain supply pos tx cs0 = Accept cs1"
    and q: "cs_mapQueuedChanges cs0 = cs_mapQueuedChanges cs"
      "\<exists>h ti. cs_mapQueuedChanges cs' = om_put h ti (cs_mapQueuedChanges cs1)"
    using assms(1) False by (fastforce simp: ConnectBlock_tx_def Let_def split: if_splits verdict.splits)
  obtain m flags vp nc fb fb' where
    "ConnectInputs (bc_led env) db tx m (cs_mapQueuedChanges cs0) pos pchain True False flags vp nc fb True =
       Accept (cs_mapQueuedChanges cs1, fb')"
    using c unfolding ConnectBlock_spend_def Let_def by (auto split: verdict.splits option.splits if_splits prod.splits)
  from om_wf_spend [OF ConnectInputs_spends [OF this False]] assms(2) q show ?thesis by auto
qed

lemma ConnectBlock_loop_refines:
  assumes "ConnectBlock_loop env db r rMain pchain supply False txs cs = Accept cs'"
    and "mi_nFile (hd pchain) \<noteq> -1" "om_wf (cs_mapQueuedChanges cs)"
  shows "ledger_run (bc_tx env) pchain (cs_nTxPos cs) txs (view db (cs_mapQueuedChanges cs)) =
      Some (view db (cs_mapQueuedChanges cs')) \<and> (\<forall>tx \<in> set txs. bip30_ok db (GetHash (bc_tx env) tx)) \<and>
    om_wf (cs_mapQueuedChanges cs')"
  using assms(1,3)
proof (induction txs arbitrary: cs)
  case (Cons tx txs)
  obtain cs1 where c: "ConnectBlock_tx env db r rMain pchain supply False tx cs = Accept cs1"
    and l: "ConnectBlock_loop env db r rMain pchain supply False txs cs1 = Accept cs'"
    using Cons.prems(1) by (auto split: verdict.splits)
  from Cons.IH [OF l ConnectBlock_tx_wf [OF c Cons.prems(2)]] ConnectBlock_tx_refines [OF c assms(2)] ConnectBlock_tx_bip30 [OF c]
  show ?case by simp
qed simp

lemma write_queued_view:
  assumes "write_queued env q db = Some db'" "om_wf q"
  shows "txdb_tx db' = view db q \<and> txdb_block db' = txdb_block db"
  using assms
proof (induction q arbitrary: db)
  case Nil
  then show ?case by (auto simp: view_def)
next
  case (Cons e q)
  obtain h ti where e: "e = (h, ti)" by force
  have w: "write_queued env q (db\<lparr>txdb_tx := (txdb_tx db)(h \<mapsto> ti)\<rparr>) = Some db'"
    using Cons.prems(1) e by (auto simp: UpdateTxIndex_def split: if_splits option.splits)
  have "h \<notin> fst ` set q" "om_wf q" using Cons.prems(2) e by (auto simp: om_wf_Cons)
  moreover from this have "map_of q h = None" by (simp add: map_of_eq_None_iff)
  ultimately show ?case using Cons.IH [OF w] e by (auto simp: view_def fun_eq_iff split: option.splits)
qed

lemma write_queued_block: "write_queued env q db = Some db' \<Longrightarrow> txdb_block db' = txdb_block db"
  by (induction env q db rule: write_queued.induct) (auto simp: UpdateTxIndex_def split: option.splits if_splits)

lemma ConnectBlock_parts:
  assumes "ConnectBlock env db r rMain b pchain False buffer = (Accept db', r')"
  shows "\<exists>d dPrev r1 gone vDeets cs0 cs. txdb_block db (mi_hash (hd pchain)) = Some d \<and> tl pchain \<noteq> [] \<and>
    txdb_block db (mi_hash (hd (tl pchain))) = Some dPrev \<and>
    CheckBlock env db r b (hd (tl pchain)) True True True True = (Accept vDeets, r1, gone) \<and>
    cs0 = \<lparr>cs_mapQueuedChanges = [], cs_nFees = 0, cs_nValueIn = 0, cs_nValueOut = 0, cs_nValuePurchases = 0,
      cs_nValueClaims = 0, cs_nSigOps = 0, cs_nTxPos = first_tx_pos (db_nVersion d) (mi_nBlockPos (hd pchain)) (length (vtx b)),
      cs_buffer = buffer\<rparr> \<and>
    ConnectBlock_loop env db r1 rMain pchain (db_nMoneySupply dPrev) False (vtx b) cs0 = Accept cs \<and>
    (\<exists>db1 db2. WriteDiskBlockIndex env db (mi_hash (hd pchain))
        ((connect_books d (bc_fork env (te_nBestHeight (bc_tx env) + 1)) (db_nMoneySupply dPrev) cs)\<lparr>db_vDeets := vDeets\<rparr>) = Some db1 \<and>
      write_queued (bc_led env) (cs_mapQueuedChanges cs) db1 = Some db2 \<and>
      WriteDiskBlockIndex env db2 (mi_hash (hd (tl pchain))) (dPrev\<lparr>db_hashNext := mi_hash (hd pchain)\<rparr>) = Some db')"
  using assms by (auto simp: ConnectBlock_def Let_def split: option.splits if_splits prod.splits verdict.splits)

lemma WriteDiskBlockIndex_Some:
  "WriteDiskBlockIndex env db h d = Some db' \<longleftrightarrow>
   bc_write_block_ok env h \<and> db' = db\<lparr>txdb_block := (txdb_block db)(h \<mapsto> d)\<rparr>"
  by (auto simp: WriteDiskBlockIndex_def)

lemma CheckBlock_distinct:
  "CheckBlock env db r b pprev fPOW fMerkle fSig fQPoS = (Accept vDeets, r', gone) \<Longrightarrow>
   distinct (map (GetHash (bc_tx env)) (vtx b))"
  by (auto simp: CheckBlock_def CheckBlock_body_def Let_def split: option.splits prod.splits verdict.splits if_splits)

lemma view_Nil [simp]: "view db [] = txdb_tx db"
  by (rule ext) (simp add: view_def)

lemma ConnectBlock_ledger:
  assumes "ConnectBlock env db r rMain b pchain False buffer = (Accept db', r')" "mi_nFile (hd pchain) \<noteq> -1"
    "txdb_block db (mi_hash (hd pchain)) = Some d"
  shows "ledger_run (bc_tx env) pchain (first_tx_pos (db_nVersion d) (mi_nBlockPos (hd pchain)) (length (vtx b)))
      (vtx b) (txdb_tx db) = Some (txdb_tx db') \<and>
    (\<forall>tx \<in> set (vtx b). bip30_ok db (GetHash (bc_tx env) tx)) \<and> distinct (map (GetHash (bc_tx env)) (vtx b))"
proof -
  from ConnectBlock_parts [OF assms(1)] assms(3) obtain dPrev r1 gone vDeets cs0 cs db1 db2 where
    chk: "CheckBlock env db r b (hd (tl pchain)) True True True True = (Accept vDeets, r1, gone)"
    and cs0: "cs0 = \<lparr>cs_mapQueuedChanges = [], cs_nFees = 0, cs_nValueIn = 0, cs_nValueOut = 0, cs_nValuePurchases = 0,
      cs_nValueClaims = 0, cs_nSigOps = 0, cs_nTxPos = first_tx_pos (db_nVersion d) (mi_nBlockPos (hd pchain)) (length (vtx b)),
      cs_buffer = buffer\<rparr>"
    and loop: "ConnectBlock_loop env db r1 rMain pchain (db_nMoneySupply dPrev) False (vtx b) cs0 = Accept cs"
    and w: "WriteDiskBlockIndex env db (mi_hash (hd pchain))
        ((connect_books d (bc_fork env (te_nBestHeight (bc_tx env) + 1)) (db_nMoneySupply dPrev) cs)\<lparr>db_vDeets := vDeets\<rparr>) = Some db1"
      "write_queued (bc_led env) (cs_mapQueuedChanges cs) db1 = Some db2"
      "WriteDiskBlockIndex env db2 (mi_hash (hd (tl pchain))) (dPrev\<lparr>db_hashNext := mi_hash (hd pchain)\<rparr>) = Some db'"
    by auto
  note l = ConnectBlock_loop_refines [OF loop assms(2)]
  have "om_wf (cs_mapQueuedChanges cs0)" "view db (cs_mapQueuedChanges cs0) = txdb_tx db" by (simp_all add: cs0)
  with l have run: "ledger_run (bc_tx env) pchain (cs_nTxPos cs0) (vtx b) (txdb_tx db) = Some (view db (cs_mapQueuedChanges cs))"
    and bip: "\<forall>tx \<in> set (vtx b). bip30_ok db (GetHash (bc_tx env) tx)" and wf: "om_wf (cs_mapQueuedChanges cs)" by auto
  have "view db1 (cs_mapQueuedChanges cs) = view db (cs_mapQueuedChanges cs)"
    using w(1) by (auto simp: WriteDiskBlockIndex_Some view_def fun_eq_iff split: option.splits)
  with write_queued_view [OF w(2) wf] w(3) run have
    "ledger_run (bc_tx env) pchain (cs_nTxPos cs0) (vtx b) (txdb_tx db) = Some (txdb_tx db')"
    by (auto simp: WriteDiskBlockIndex_Some)
  with bip CheckBlock_distinct [OF chk] show ?thesis by (simp add: cs0)
qed

section \<open>No output is spent twice\<close>

lemma nth_marks:
  "n < length (ti_vSpent ti) \<Longrightarrow> ti_vSpent (marks pos ins h ti) ! n =
     (if \<exists>j \<in> set ins. out_hash j = h \<and> out_n j = n then pos else ti_vSpent ti ! n)"
  by (induction ins arbitrary: ti) (auto simp: nth_mark)

lemma length_marks [simp]: "length (ti_vSpent (marks pos ins h ti)) = length (ti_vSpent ti)"
  by (induction ins arbitrary: ti) auto

lemma ti_pos_marks [simp]: "ti_pos (marks pos ins h ti) = ti_pos ti"
  by (induction ins arbitrary: ti) (auto simp: mark_def)

definition has_unspent :: "(uint256 \<Rightarrow> CTxIndex option) \<Rightarrow> uint256 \<Rightarrow> bool" where
  "has_unspent V h \<longleftrightarrow> (\<exists>ti n. V h = Some ti \<and> n < length (ti_vSpent ti) \<and> CDiskTxPos_IsNull (ti_vSpent ti ! n))"

lemma unspent_has: "unspent V j \<Longrightarrow> has_unspent V (out_hash j)"
  by (auto simp: unspent_def has_unspent_def)

lemma apply_tx_unspent:
  assumes "unspent (apply_tx env pos tx V) j" "out_hash j \<noteq> GetHash env tx" "\<not> CDiskTxPos_IsNull pos"
  shows "unspent V j \<and> prevout j \<notin> prevout ` set (spends tx)"
proof -
  from assms obtain ti where ti: "V (out_hash j) = Some ti" "out_n j < length (ti_vSpent ti)"
    "CDiskTxPos_IsNull (ti_vSpent (marks pos (spends tx) (out_hash j) ti) ! out_n j)"
    by (auto simp: unspent_def apply_tx_def)
  with assms(3) have "\<not> (\<exists>k \<in> set (spends tx). out_hash k = out_hash j \<and> out_n k = out_n j)"
    "CDiskTxPos_IsNull (ti_vSpent ti ! out_n j)" by (auto simp: nth_marks split: if_splits)
  then show ?thesis using ti by (auto simp: unspent_def out_hash_def out_n_def)
qed

lemma apply_tx_has_unspent:
  assumes "has_unspent (apply_tx env pos tx V) h" "h \<noteq> GetHash env tx" "\<not> CDiskTxPos_IsNull pos"
  shows "has_unspent V h"
  using assms by (auto simp: has_unspent_def apply_tx_def nth_marks split: if_splits)

lemma tx_position_not_null: "mi_nFile (hd pchain) \<noteq> -1 \<Longrightarrow> \<not> CDiskTxPos_IsNull (tx_position pchain p)"
  by (simp add: CDiskTxPos_IsNull_def tx_position_def)

lemma run_distinct:
  assumes "ledger_run env pchain p txs V = Some V'" "mi_nFile (hd pchain) \<noteq> -1"
    and "distinct (map (GetHash env) txs)" "\<forall>h. has_unspent V h \<longrightarrow> h \<notin> GetHash env ` set txs"
  shows "distinct (map prevout (concat (map spends txs))) \<and>
    (\<forall>j \<in> set (concat (map spends txs)). unspent V j \<or> out_hash j \<in> GetHash env ` set txs)"
  using assms(1,3,4)
proof (induction txs arbitrary: p V)
  case (Cons tx txs)
  let ?V = "apply_tx env (tx_position pchain p) tx V"
  note nn = tx_position_not_null [OF assms(2), of p]
  have tx: "distinct (map prevout (spends tx))" "\<forall>j \<in> set (spends tx). unspent V j"
    and run: "ledger_run env pchain (p + size_tx tx) txs ?V = Some V'"
    using Cons.prems(1) by (auto split: if_splits)
  have "h \<notin> GetHash env ` set txs" if "has_unspent ?V h" for h
  proof (cases "h = GetHash env tx")
    case False
    from apply_tx_has_unspent [OF that False nn] Cons.prems(3) show ?thesis by auto
  qed (use Cons.prems(2) in auto)
  then have fresh: "\<forall>h. has_unspent ?V h \<longrightarrow> h \<notin> GetHash env ` set txs" by blast
  have IH: "distinct (map prevout (concat (map spends txs)))"
    "\<forall>j \<in> set (concat (map spends txs)). unspent ?V j \<or> out_hash j \<in> GetHash env ` set txs"
    using Cons.IH [OF run _ fresh] Cons.prems(2) by auto
  have later: "(unspent V k \<or> out_hash k \<in> GetHash env ` set (tx # txs)) \<and> prevout k \<notin> prevout ` set (spends tx)"
    if k: "k \<in> set (concat (map spends txs))" for k
  proof -
    have no: "out_hash j \<notin> GetHash env ` set (tx # txs)" if "j \<in> set (spends tx)" for j
      using tx(2) that unspent_has Cons.prems(3) by blast
    show ?thesis
    proof (cases "out_hash k \<in> GetHash env ` set (tx # txs)")
      case True
      then have "prevout k \<notin> prevout ` set (spends tx)" using no unfolding out_hash_def by (metis imageE)
      with True show ?thesis by blast
    next
      case False
      then have "unspent ?V k" using IH(2) k by auto
      with apply_tx_unspent [OF this _ nn] False show ?thesis by auto
    qed
  qed
  then have "\<forall>k \<in> set (concat (map spends txs)). prevout k \<notin> prevout ` set (spends tx)" by blast
  then have "set (map prevout (spends tx)) \<inter> set (map prevout (concat (map spends txs))) = {}"
    unfolding set_map disjoint_iff by (metis imageE)
  then have "distinct (map prevout (concat (map spends (tx # txs))))" using tx(1) IH(1) by simp
  moreover have "unspent V j \<or> out_hash j \<in> GetHash env ` set (tx # txs)"
    if "j \<in> set (concat (map spends (tx # txs)))" for j
    using that tx(2) later by auto
  ultimately show ?case by blast
qed simp

section \<open>Disconnecting undoes connecting\<close>

definition canonical :: "(uint256 \<Rightarrow> CTxIndex option) \<Rightarrow> bool" where
  "canonical V \<longleftrightarrow> (\<forall>h ti n. V h = Some ti \<longrightarrow> n < length (ti_vSpent ti) \<longrightarrow> CDiskTxPos_IsNull (ti_vSpent ti ! n) \<longrightarrow>
     ti_vSpent ti ! n = CDiskTxPos_SetNull)"

lemma apply_tx_canonical:
  assumes "canonical V" "\<not> CDiskTxPos_IsNull pos"
  shows "canonical (apply_tx env pos tx V)"
  using assms by (auto simp: canonical_def apply_tx_def CTxIndex_new_def nth_marks split: if_splits)

lemma unmark_mark:
  assumes "\<forall>j \<in> set ins. out_hash j = h \<longrightarrow> out_n j < length (ti_vSpent ti) \<and> ti_vSpent ti ! out_n j = CDiskTxPos_SetNull"
  shows "marks CDiskTxPos_SetNull ins h (marks pos ins h ti) = ti"
proof (rule CTxIndex.equality)
  show "ti_vSpent (marks CDiskTxPos_SetNull ins h (marks pos ins h ti)) = ti_vSpent ti"
    using assms by (intro nth_equalityI) (auto simp: nth_marks)
qed simp_all

lemma DisconnectInputs_loop_marks:
  assumes "\<forall>h. le_write_ok env h"
    and "\<forall>j \<in> set ins. \<exists>ti. txdb_tx db (out_hash j) = Some ti \<and> out_n j < length (ti_vSpent ti)"
  shows "DisconnectInputs_loop env ins db =
    (True, db\<lparr>txdb_tx := \<lambda>h. map_option (marks CDiskTxPos_SetNull ins h) (txdb_tx db h)\<rparr>)"
  using assms(2)
proof (induction ins arbitrary: db)
  case Nil
  show ?case by (simp add: option.map_ident)
next
  case (Cons i ins)
  obtain ti where ti: "txdb_tx db (out_hash i) = Some ti" "out_n i < length (ti_vSpent ti)" using Cons.prems by auto
  let ?db = "db\<lparr>txdb_tx := (txdb_tx db)(out_hash i \<mapsto> mark CDiskTxPos_SetNull (out_hash i) i ti)\<rparr>"
  have "DisconnectInputs_loop env (i # ins) db = DisconnectInputs_loop env ins ?db"
    using ti assms(1) by (simp add: Let_def ReadTxIndex_def UpdateTxIndex_def out_hash_def out_n_def mark_def)
  also have "\<dots> = (True, ?db\<lparr>txdb_tx := \<lambda>h. map_option (marks CDiskTxPos_SetNull ins h) (txdb_tx ?db h)\<rparr>)"
    using Cons.prems ti by (intro Cons.IH) fastforce
  also have "(\<lambda>h. map_option (marks CDiskTxPos_SetNull ins h) (txdb_tx ?db h)) =
      (\<lambda>h. map_option (marks CDiskTxPos_SetNull (i # ins) h) (txdb_tx db h))"
  proof
    show "map_option (marks CDiskTxPos_SetNull ins h) (txdb_tx ?db h) =
        map_option (marks CDiskTxPos_SetNull (i # ins) h) (txdb_tx db h)" for h
    proof (cases "h = out_hash i")
      case False
      then have "mark CDiskTxPos_SetNull h i ti' = ti'" for ti' by (simp add: mark_def)
      with False show ?thesis by (cases "txdb_tx db h") simp_all
    qed (use ti in simp)
  qed
  finally have "DisconnectInputs_loop env (i # ins) db =
      (True, ?db\<lparr>txdb_tx := \<lambda>h. map_option (marks CDiskTxPos_SetNull (i # ins) h) (txdb_tx db h)\<rparr>)" .
  then show ?case by (simp del: DisconnectInputs_loop.simps marks_Cons)
qed

lemma DisconnectBlock_loop_append:
  "DisconnectBlock_loop env (xs @ ys) db =
     (case DisconnectBlock_loop env xs db of (True, db) \<Rightarrow> DisconnectBlock_loop env ys db | (False, db) \<Rightarrow> (False, db))"
  by (induction xs arbitrary: db) (auto split: prod.splits bool.splits)

lemma run_undo:
  assumes "ledger_run env pchain p txs V = Some V'" "mi_nFile (hd pchain) \<noteq> -1" "\<forall>h. le_write_ok le h"
    and "distinct (map (GetHash env) txs)" "\<forall>tx \<in> set txs. V (GetHash env tx) = None" "canonical V"
    and "txdb_tx D' = V'"
  shows "\<exists>D. DisconnectBlock_loop le (rev txs) D' = (True, D) \<and> txdb_block D = txdb_block D' \<and>
    (\<forall>h. h \<notin> GetHash env ` set txs \<longrightarrow> txdb_tx D h = V h)"
  using assms(1,4,5,6)
proof (induction txs arbitrary: p V)
  case Nil
  then show ?case using assms(7) by simp
next
  case (Cons tx txs)
  let ?pos = "tx_position pchain p"
  let ?V = "apply_tx env ?pos tx V"
  note nn = tx_position_not_null [OF assms(2), of p]
  have tx: "\<forall>j \<in> set (spends tx). unspent V j" and run: "ledger_run env pchain (p + size_tx tx) txs ?V = Some V'"
    using Cons.prems(1) by (auto split: if_splits)
  have "\<forall>t \<in> set txs. ?V (GetHash env t) = None" using Cons.prems(2,3) by (auto simp: apply_tx_def image_iff)
  with Cons.IH [OF run] Cons.prems(2) apply_tx_canonical [OF Cons.prems(4) nn] obtain D where
    D: "DisconnectBlock_loop le (rev txs) D' = (True, D)" "txdb_block D = txdb_block D'"
    "\<And>h. h \<notin> GetHash env ` set txs \<Longrightarrow> txdb_tx D h = ?V h" by auto
  have j: "out_hash j \<notin> GetHash env ` set (tx # txs) \<and>
      (\<exists>ti. V (out_hash j) = Some ti \<and> out_n j < length (ti_vSpent ti) \<and> ti_vSpent ti ! out_n j = CDiskTxPos_SetNull)"
    if "j \<in> set (spends tx)" for j
    using tx that Cons.prems(3,4) unfolding unspent_def canonical_def by fastforce
  have dj: "txdb_tx D h = map_option (marks ?pos (spends tx) h) (V h)" if "h \<notin> GetHash env ` set (tx # txs)" for h
    using D(3) [of h] that by (simp add: apply_tx_def)
  let ?D = "D\<lparr>txdb_tx := \<lambda>h. map_option (marks CDiskTxPos_SetNull (spends tx) h) (txdb_tx D h)\<rparr>"
  have "\<exists>ti. txdb_tx D (out_hash k) = Some ti \<and> out_n k < length (ti_vSpent ti)" if "k \<in> set (spends tx)" for k
    using j [OF that] dj [of "out_hash k"] by auto
  then have "DisconnectInputs_loop le (spends tx) D = (True, ?D)" using DisconnectInputs_loop_marks [OF assms(3)] by blast
  then have "DisconnectInputs le tx D = (True, ?D)" by (auto simp: DisconnectInputs_def spends_def split: if_splits)
  then have loop: "DisconnectBlock_loop le (rev (tx # txs)) D' = (True, ?D)"
    using D(1) by (simp add: DisconnectBlock_loop_append)
  have "txdb_tx ?D h = V h" if h: "h \<notin> GetHash env ` set (tx # txs)" for h
  proof (cases "V h")
    case (Some ti)
    have "marks CDiskTxPos_SetNull (spends tx) h (marks ?pos (spends tx) h ti) = ti"
      using j Some by (intro unmark_mark) fastforce
    then show ?thesis using dj [OF h] Some by simp
  qed (use dj [OF h] in simp)
  with loop D(2) show ?case by auto
qed

lemma fold_erase:
  "txdb_tx (fold (\<lambda>tx db. EraseTxIndex env db tx) txs db) h = (if h \<in> GetHash (le_tx env) ` set txs then None else txdb_tx db h)"
  "txdb_block (fold (\<lambda>tx db. EraseTxIndex env db tx) txs db) = txdb_block db"
  by (induction txs arbitrary: db) (auto simp: EraseTxIndex_def)

section \<open>The books\<close>

lemma ConnectInputs_values_sum:
  assumes "ConnectInputs_values env pchain d tx inputs ins n = Accept n'"
  shows "fold (\<lambda>i n. case (n, GetOutputFor i inputs) of (Some n, Some o') \<Rightarrow> Some (n + nValue o') | _ \<Rightarrow> None) ins (Some (c + n)) =
    Some (c + n')"
  using assms
proof (induction ins arbitrary: n)
  case (Cons i ins)
  obtain o' where "GetOutputFor i inputs = Some o'"
    and "ConnectInputs_values env pchain d tx inputs ins (n + nValue o') = Accept n'"
    using Cons.prems by (auto simp: Let_def GetOutputFor_def split: option.splits prod.splits if_splits)
  with Cons.IH [of "n + nValue o'"] show ?case by (simp add: add.assoc)
qed simp

lemma ConnectInputs_value:
  assumes "ConnectInputs env db tx inputs q pos pchain True False flags vp nc fb fib = Accept (q', fb')"
    and "\<not> IsCoinBase tx" "\<not> IsCoinStake tx"
  shows "\<exists>d nIn nOut. ConnectInputs_values env pchain d tx inputs (vin tx) 0 = Accept nIn \<and> GetValueOut tx = Some nOut \<and>
    nOut + vp \<le> nIn + nc"
  using assms
  by (auto simp: ConnectInputs_def Let_def not_less split: option.splits verdict.splits if_splits intro!: exI conjI)

lemma CheckClaim_loop_found:
  "CheckClaim_loop nVin nVout os sols f = Accept (f', sols') \<Longrightarrow> f' = (f \<or> (\<exists>o' \<in> set os. \<exists>ok s. Solver (scriptPubKey o') [] = (ok, TX_CLAIM, s)))"
proof (induction os arbitrary: sols f)
  case (Cons o' os)
  obtain ok t s where so: "Solver (scriptPubKey o') sols = (ok, t, s)" by (cases "Solver (scriptPubKey o') sols") auto
  have "t = TX_CLAIM \<longleftrightarrow> (\<exists>ok s. Solver (scriptPubKey o') [] = (ok, TX_CLAIM, s))"
    using Solver_ok [OF so] Solver_solutions [of t "scriptPubKey o'" sols ok s] so by auto
  with Cons so show ?case by (auto split: if_splits)
qed simp

lemma MIN_TXOUT_pos: "0 < MIN_TXOUT_AMOUNT"
  by (simp add: MIN_TXOUT_AMOUNT_def MIN_TX_FEE_def CENT_def)

lemma CheckClaim_zero:
  assumes "CheckClaim env r tx ins cl = (Accept u, c)"
  shows "cl_value c = 0 \<longleftrightarrow> \<not> (\<exists>o' \<in> set (vout tx). \<exists>ok s. Solver (scriptPubKey o') [] = (ok, TX_CLAIM, s))"
proof -
  obtain f sols where l: "CheckClaim_loop (length (vin tx)) (length (vout tx)) (vout tx) [] False = Accept (f, sols)"
    and v: "f \<Longrightarrow> \<not> cl_value c < MIN_TXOUT_AMOUNT" "\<not> f \<Longrightarrow> cl_value c = 0"
    using assms by (auto simp: CheckClaim_def Let_def split: verdict.splits if_splits option.splits bool.splits)
  show ?thesis using CheckClaim_loop_found [OF l] v MIN_TXOUT_pos by (cases f) auto
qed

lemma CheckClaim_none:
  assumes "\<not> (\<exists>o' \<in> set (vout tx). \<exists>ok s. Solver (scriptPubKey o') [] = (ok, TX_CLAIM, s))"
  shows "cl_value (snd (CheckClaim env r tx ins cl)) = 0"
proof (cases "CheckClaim_loop (length (vin tx)) (length (vout tx)) (vout tx) [] False")
  case (Accept fs)
  then obtain f sols where "CheckClaim_loop (length (vin tx)) (length (vout tx)) (vout tx) [] False = Accept (f, sols)"
    by (cases fs) auto
  moreover from CheckClaim_loop_found [OF this] assms have "\<not> f" by auto
  ultimately show ?thesis by (simp add: CheckClaim_def)
qed (simp_all add: CheckClaim_def)

lemma ExtractClaim_value:
  "ExtractClaim vch (cl\<lparr>cl_value := 0\<rparr>) = Some c \<Longrightarrow> cl_value c \<noteq> 0 \<Longrightarrow>
   \<exists>c'. ExtractClaim vch cl' = Some c' \<and> cl_value c' = cl_value c"
  by (auto simp: ExtractClaim_def Let_def split: prod.splits bool.splits)

lemma GetClaimIn_none:
  "\<not> (\<exists>o' \<in> set os. \<exists>ok s. Solver (scriptPubKey o') [] = (ok, TX_CLAIM, s)) \<Longrightarrow> GetClaimIn_loop env os sols n = Some n"
proof (induction os arbitrary: sols)
  case (Cons o' os)
  obtain ok t s where so: "Solver (scriptPubKey o') sols = (ok, t, s)" by (cases "Solver (scriptPubKey o') sols") auto
  then have "t \<noteq> TX_CLAIM" using Cons.prems Solver_solutions [of t "scriptPubKey o'" sols ok s] by auto
  with Cons so show ?case by simp
qed simp

lemma CheckClaim_GetClaimIn:
  assumes "CheckClaim env r tx ins cl = (Accept u, c)"
  shows "GetClaimIn env tx = Some (cl_value c)"
proof (cases "cl_value c = 0")
  case True
  with CheckClaim_zero [OF assms] GetClaimIn_none show ?thesis by (simp add: GetClaimIn_def)
next
  case False
  obtain sols where l: "CheckClaim_loop (length (vin tx)) (length (vout tx)) (vout tx) [] False = Accept (True, sols)"
    and e: "ExtractClaim (hd sols) (cl\<lparr>cl_value := 0\<rparr>) = Some c"
    using assms False by (auto simp: CheckClaim_def Let_def split: verdict.splits if_splits option.splits bool.splits)
  have "length (vout tx) = 1" using CheckClaim_accepted [of env r tx ins cl c] assms False by auto
  then obtain o' where o': "vout tx = [o']" by (metis One_nat_def length_0_conv length_Suc_conv)
  have so: "\<exists>ok. Solver (scriptPubKey o') [] = (ok, TX_CLAIM, sols)"
    using l o' by (auto split: prod.splits if_splits)
  with ExtractClaim_value [OF e False, of "ce_claim env"] o' show ?thesis by (auto simp: GetClaimIn_def)
qed

lemma GetValueIn_sum:
  assumes "ConnectInputs_values le pchain d tx inputs (vin tx) 0 = Accept nIn" "\<not> IsCoinBase tx"
    and "CheckClaim env r tx inputs cl = (Accept u, c)"
  shows "GetValueIn env rMain tx inputs (cl_value c) = Some (cl_value c + nIn)"
proof -
  have "cl_value (snd (CheckClaim env rMain tx inputs (ce_claim env))) = 0" if "cl_value c = 0"
    using CheckClaim_zero [OF assms(3)] CheckClaim_none that by blast
  then have "(if cl_value c = 0 then cl_value (snd (CheckClaim env rMain tx inputs (ce_claim env))) else cl_value c) = cl_value c"
    by simp
  then show ?thesis
    using ConnectInputs_values_sum [OF assms(1), of "cl_value c"] assms(2) unfolding GetValueIn_def Let_def by simp
qed

definition purchase_value :: "blkchk_env \<Rightarrow> QPRegistry \<Rightarrow> int \<Rightarrow> CTransaction \<Rightarrow> int" where
  "purchase_value env r supply tx = (case ConnectBlock_purchases env r supply tx of Accept v \<Rightarrow> v | _ \<Rightarrow> 0)"

definition claim_value :: "chk_env \<Rightarrow> CTransaction \<Rightarrow> int" where
  "claim_value env tx = (case GetClaimIn env tx of Some v \<Rightarrow> v | None \<Rightarrow> 0)"

text \<open>What the totals of a block without coinbase and coinstake amount to.\<close>

definition books :: "connect_state \<Rightarrow> int \<Rightarrow> int \<Rightarrow> bool" where
  "books cs claims purchases \<longleftrightarrow> cs_nValueClaims cs = claims \<and> cs_nValuePurchases cs = purchases \<and> 0 \<le> cs_nFees cs \<and>
     cs_nFees cs = cs_nValueIn cs - (cs_nValueOut cs + cs_nValuePurchases cs)"

lemma ConnectBlock_spend_books:
  assumes "ConnectBlock_spend env db r rMain pchain supply pos tx cs = Accept cs'"
    and "\<not> IsCoinBase tx" "\<not> IsCoinStake tx" "books cs claims purchases"
  shows "books cs' (claims + claim_value (bc_chk env) tx) (purchases + purchase_value env r supply tx)"
proof -
  obtain m flags nc nIn nOut vp q fb fb' nP buffer where
    c: "ConnectInputs (bc_led env) db tx m (cs_mapQueuedChanges cs) pos pchain True False flags vp nc fb True = Accept (q, fb')"
    and cl: "ConnectBlock_claim env r tx m = Accept nc"
    and v: "GetValueIn (bc_chk env) rMain tx m nc = Some nIn" "GetValueOut tx = Some nOut"
    and vp: "ConnectBlock_purchases env r supply tx = Accept vp"
    and cs': "cs' = cs\<lparr>cs_mapQueuedChanges := q, cs_nFees := cs_nFees cs + (nIn - (nOut + vp)),
       cs_nValueIn := cs_nValueIn cs + nIn, cs_nValueOut := cs_nValueOut cs + nOut,
       cs_nValuePurchases := cs_nValuePurchases cs + vp, cs_nValueClaims := cs_nValueClaims cs + nc,
       cs_nSigOps := cs_nSigOps cs + nP, cs_buffer := buffer\<rparr>"
    using assms(1,3) unfolding ConnectBlock_spend_def Let_def
    by (auto split: verdict.splits option.splits if_splits prod.splits)
  obtain c' u where c': "CheckClaim (bc_chk env) r tx m ((ce_claim (bc_chk env))\<lparr>cl_value := 0\<rparr>) = (Accept u, c')" "nc = cl_value c'"
    using cl assms(3) by (auto simp: ConnectBlock_claim_def split: prod.splits verdict.splits)
  obtain d s nOut' where s: "ConnectInputs_values (bc_led env) pchain d tx m (vin tx) 0 = Accept s" "GetValueOut tx = Some nOut'"
    "nOut' + vp \<le> s + nc" using ConnectInputs_value [OF c assms(2,3)] by blast
  have "nIn = nc + s" using GetValueIn_sum [OF s(1) assms(2) c'(1), of rMain] v(1) c'(2) by simp
  moreover have "claim_value (bc_chk env) tx = nc" using CheckClaim_GetClaimIn [OF c'(1)] c'(2) by (simp add: claim_value_def)
  moreover have "purchase_value env r supply tx = vp" using vp by (simp add: purchase_value_def)
  ultimately show ?thesis using s v(2) assms(4) by (simp add: books_def cs')
qed

lemma ConnectBlock_tx_books:
  assumes "ConnectBlock_tx env db r rMain pchain supply fJustCheck tx cs = Accept cs'"
    and "\<not> IsCoinBase tx" "\<not> IsCoinStake tx" "books cs claims purchases"
  shows "books cs' (claims + claim_value (bc_chk env) tx) (purchases + purchase_value env r supply tx)"
proof -
  obtain pos cs0 cs1 where c: "ConnectBlock_spend env db r rMain pchain supply pos tx cs0 = Accept cs1"
    and q: "\<And>x y. books cs x y = books cs0 x y" "\<And>x y. books cs' x y = books cs1 x y"
    using assms(1,2) by (fastforce simp: ConnectBlock_tx_def Let_def books_def split: if_splits verdict.splits)
  show ?thesis using ConnectBlock_spend_books [OF c assms(2,3)] assms(4) q by blast
qed

lemma ConnectBlock_loop_books:
  assumes "ConnectBlock_loop env db r rMain pchain supply fJustCheck txs cs = Accept cs'"
    and "\<forall>tx \<in> set txs. \<not> IsCoinBase tx \<and> \<not> IsCoinStake tx" "books cs claims purchases"
  shows "books cs' (claims + sum_list (map (claim_value (bc_chk env)) txs))
    (purchases + sum_list (map (purchase_value env r supply) txs))"
  using assms
proof (induction txs arbitrary: cs claims purchases)
  case (Cons tx txs)
  obtain cs1 where c: "ConnectBlock_tx env db r rMain pchain supply fJustCheck tx cs = Accept cs1"
    and l: "ConnectBlock_loop env db r rMain pchain supply fJustCheck txs cs1 = Accept cs'"
    using Cons.prems(1) by (auto split: verdict.splits)
  from Cons.IH [OF l _ ConnectBlock_tx_books [OF c]] Cons.prems(2,3) show ?case by (simp add: add.assoc)
qed simp

lemma CheckBlock_no_base:
  "CheckBlock env db r b pprev fPOW fMerkle fSig fQPoS = (Accept vDeets, r', gone) \<Longrightarrow>
   bc_fork env (blk_nHeight b) \<ge> XST_FORKQPOS \<Longrightarrow> \<forall>tx \<in> set (vtx b). \<not> IsCoinBase tx \<and> \<not> IsCoinStake tx"
  by (auto simp: CheckBlock_def CheckBlock_kinds_def Let_def list_ex_iff split: option.splits prod.splits verdict.splits if_splits)

section \<open>A block of the small network\<close>

text \<open>A staker's block with one payment; the hash of a transaction is its length, and signatures are valid.\<close>

definition demo_parent :: CTransaction where
  "demo_parent = demo_spend (replicate 2 \<lparr>nValue = 5000000, scriptPubKey = pay_key demo_key\<rparr>)"

definition demo_le :: led_env where
  "demo_le = \<lparr>le_chk = demo_chk\<lparr>ce_tx := demo_tx_env
       \<lparr>te_nBestHeight := 3700000, te_AdjustedTime := 2000, te_Hash := (\<lambda>bs. of_nat (length bs))\<rparr>\<rparr>,
     le_argon = demo_argon_env, le_replay = False, le_ReadFromDisk = (\<lambda>p. Some demo_parent),
     le_BlockTime = (\<lambda>f p. None), le_mempool = (\<lambda>h. None), le_depth = (\<lambda>ti. 1), le_write_ok = (\<lambda>h. True),
     le_VerifyScript = (\<lambda>sig pk tx i flags. True), le_GetTotalBlocksEstimate = 0\<rparr>"

definition demo_bc :: blkchk_env where
  "demo_bc = \<lparr>bc_led = demo_le, bc_Hash9 = (\<lambda>bs. 78), bc_hashOfNftHashes = 0, bc_hashGenesisBlock = 1, bc_SetPubKey = (\<lambda>k. True),
     bc_Verify = (\<lambda>k h s. True), bc_pindexBest = demo_prev, bc_write_block_ok = (\<lambda>h. True)\<rparr>"

definition demo_payment :: CTransaction where
  "demo_payment = (demo_spend [\<lparr>nValue = 4900000, scriptPubKey = pay_key demo_key\<rparr>])
     \<lparr>vin := [\<lparr>prevout = \<lparr>op_hash = GetHash (bc_tx demo_bc) demo_parent, op_n = 1\<rparr>, scriptSig = [], nSequence = 0\<rparr>]\<rparr>"

definition demo_full :: CBlock where
  "demo_full = \<lparr>blk_nVersion = 8, blk_hashPrevBlock = 77, blk_hashMerkleRoot = GetHash (bc_tx demo_bc) demo_payment, blk_nTime = 1003, blk_nBits = 0,
     blk_nNonce = 0, blk_nHeight = 3700001, blk_nStakerID = 1, vtx = [demo_payment], vchBlockSig = [1], vMerkleTree = []\<rparr>"

definition demo_disk :: "int \<Rightarrow> u32 \<Rightarrow> CDiskBlockIndex" where
  "demo_disk h t = \<lparr>db_nVersion = 8, db_nTime = t, db_nHeight = h, db_nBits = 0, db_nFlags = 8, db_nMint = 0, db_nMoneySupply = 40000000000000,
     db_vDeets = [], db_hashNext = 0, db_nStakerID = 1, db_bnChainTrust = 1\<rparr>"

definition demo_db :: CTxDB where
  "demo_db = \<lparr>txdb_tx = [GetHash (bc_tx demo_bc) demo_parent \<mapsto> CTxIndex_new \<lparr>tp_nFile = 1, tp_nBlockPos = 9, tp_nTxPos = 99\<rparr> 2],
     txdb_block = [77 \<mapsto> demo_disk 3700000 1000, 78 \<mapsto> demo_disk 3700001 1003]\<rparr>"

definition demo_chain :: "CBlockMemIndex list" where
  "demo_chain = [\<lparr>mi_hash = 78, mi_nFile = 1, mi_nBlockPos = 500\<rparr>, \<lparr>mi_hash = 77, mi_nFile = 1, mi_nBlockPos = 200\<rparr>]"

definition demo_buf :: FeeworkBuffer where "demo_buf = \<lparr>fb_pbuffer = None, fb_alloc_error = False, fb_mem_alloc_error = False\<rparr>"

lemma demo_header: "CheckBlock_header demo_bc demo_queued demo_full 3700001 True True = (Accept (), demo_queued)"
proof -
  have "fst (CheckBlock_header demo_bc demo_queued demo_full 3700001 True True) = Accept ()"
    "IsInReplayMode demo_queued" "\<not> bc_fork demo_bc (blk_nHeight demo_full) < XST_FORKQPOS" by code_simp+
  then show ?thesis by (auto simp: CheckBlock_header_def Let_def split: if_splits)
qed

lemma demo_checks:
  "CheckBlock_kinds demo_bc demo_full 3700001 = Accept ()" "CheckBlock_stake demo_bc demo_queued demo_full True = Accept ()"
  "CheckBlock_body demo_bc demo_full True = Accept ()"
  by code_simp+

lemma demo_no_ops:
  "CheckBlock_ops demo_bc demo_db demo_queued demo_full (index_of (demo_disk 3700000 1000) 77) [demo_payment]
     \<lparr>ck_purchases = [], ck_setkeys = [], ck_claims = [], ck_deets = []\<rparr> =
   (Accept \<lparr>ck_purchases = [], ck_setkeys = [], ck_claims = [], ck_deets = []\<rparr>, [])"
  "block_deets demo_bc (block_hash demo_bc demo_full) [demo_payment] = Some []"
  by code_simp+

lemma demo_CheckBlock:
  "CheckBlock demo_bc demo_db demo_queued demo_full \<lparr>mi_hash = 77, mi_nFile = 1, mi_nBlockPos = 200\<rparr> True True True True =
     (Accept [], demo_queued, [])"
proof -
  obtain s where s: "GetStakerInternal demo_queued 1 = Some s" "IsQualified s" "\<not> fCurrentBlockWasProduced demo_queued"
    by (rule demo_staker)
  let ?r = "demo_queued\<lparr>mapCertifiedNodes := []\<rparr>"
  have "GetStakerInternal ?r 1 = Some s" using s(1) by (simp add: GetStakerInternal_def split: if_splits)
  with s(2,3) have u: "bi_nTime p = 1003 \<Longrightarrow> bi_nStakerID p = 1 \<Longrightarrow> bi_vDeets p = [] \<Longrightarrow>
      \<exists>acts r'. UpdateOnNewBlock (bc_qp demo_bc) ?r p prev NO_SNAPS True = Some (acts, Returned True r')" for p prev
    using UpdateOnNewBlock_in_slot [of ?r p s "bc_qp demo_bc" prev NO_SNAPS True] by (simp add: demo_window)
  have b: "vtx demo_full = [demo_payment]" "blk_nTime demo_full = 1003" "blk_nStakerID demo_full = 1" by (simp_all add: demo_full_def)
  have "CheckBlock_qpos demo_bc demo_db demo_queued demo_full (index_of (demo_disk 3700000 1000) 77) = (Accept [], [])"
    using u [of "\<lparr>bi_nHeight = blk_nHeight demo_full, bi_nTime = 1003, bi_nStakerID = 1, bi_hashBlock = block_hash demo_bc demo_full,
        bi_nMoneySupply = 0, bi_vDeets = []\<rparr>" "index_of (demo_disk 3700000 1000) 77"]
    by (auto simp: CheckBlock_qpos_def b demo_no_ops simp del: CheckBlock_ops.simps block_deets.simps)
  moreover have "txdb_block demo_db 77 = Some (demo_disk 3700000 1000)" "db_nHeight (demo_disk 3700000 1000) = 3700000"
    by (simp_all add: demo_db_def demo_disk_def)
  ultimately show ?thesis by (simp add: CheckBlock_def demo_header demo_checks)
qed

definition demo_start :: connect_state where
  "demo_start = \<lparr>cs_mapQueuedChanges = [], cs_nFees = 0, cs_nValueIn = 0, cs_nValueOut = 0, cs_nValuePurchases = 0,
     cs_nValueClaims = 0, cs_nSigOps = 0, cs_nTxPos = first_tx_pos 8 500 1, cs_buffer = demo_buf\<rparr>"

lemma demo_pays:
  "case ConnectBlock_tx demo_bc demo_db demo_queued demo_queued demo_chain 40000000000000 False demo_payment demo_start of
     Accept cs \<Rightarrow> True | _ \<Rightarrow> False"
  by code_simp

lemma write_queued_ok: "\<forall>h. le_write_ok env h \<Longrightarrow> \<exists>db'. write_queued env q db = Some db'"
  by (induction env q db rule: write_queued.induct) (auto simp: UpdateTxIndex_def)

lemma demo_connect:
  obtains db' where "ConnectBlock demo_bc demo_db demo_queued demo_queued demo_full demo_chain False demo_buf = (Accept db', demo_queued)"
proof -
  obtain cs where cs: "ConnectBlock_loop demo_bc demo_db demo_queued demo_queued demo_chain 40000000000000 False [demo_payment] demo_start =
      Accept cs" using demo_pays by (auto split: verdict.splits)
  have d: "txdb_block demo_db 77 = Some (demo_disk 3700000 1000)" "txdb_block demo_db 78 = Some (demo_disk 3700001 1003)"
    "vtx demo_full = [demo_payment]" "mi_hash (hd demo_chain) = 78" "mi_nBlockPos (hd demo_chain) = 500"
    "hd (tl demo_chain) = \<lparr>mi_hash = 77, mi_nFile = 1, mi_nBlockPos = 200\<rparr>" "tl demo_chain \<noteq> []"
    "db_nVersion (demo_disk 3700001 1003) = 8" "db_nMoneySupply (demo_disk 3700000 1000) = 40000000000000"
    "\<And>h. bc_write_block_ok demo_bc h" "\<And>h. le_write_ok (bc_led demo_bc) h"
    by (simp_all add: demo_db_def demo_disk_def demo_full_def demo_chain_def demo_bc_def demo_le_def)
  obtain db' where w: "write_queued (bc_led demo_bc) (cs_mapQueuedChanges cs)
      (demo_db\<lparr>txdb_block := (txdb_block demo_db)(78 \<mapsto>
        (connect_books (demo_disk 3700001 1003) (bc_fork demo_bc (te_nBestHeight (bc_tx demo_bc) + 1)) 40000000000000 cs)\<lparr>db_vDeets := []\<rparr>)\<rparr>) = Some db'"
    using write_queued_ok d(11) by blast
  show ?thesis
    using cs w by (intro that) (simp add: ConnectBlock_def d demo_CheckBlock WriteDiskBlockIndex_def demo_start_def del: ConnectBlock_loop.simps)
qed

section \<open>Properties\<close>

text \<open>
  C7. Connecting a block refines the abstract ledger: if \<open>ConnectBlock\<close> accepts a block, the new transaction index is
  the old one after the transactions of the block in their order, where each transaction finds all
  outputs it spends present and unspent, marks them with its own position, and adds its entry.
\<close>

theorem connect_block_refines:
  assumes "ConnectBlock env db r rMain b pchain False buffer = (Accept db', r')" "mi_nFile (hd pchain) \<noteq> -1"
    "txdb_block db (mi_hash (hd pchain)) = Some d"
  shows "ledger_run (bc_tx env) pchain (first_tx_pos (db_nVersion d) (mi_nBlockPos (hd pchain)) (length (vtx b)))
      (vtx b) (txdb_tx db) = Some (txdb_tx db')"
  using ConnectBlock_ledger [OF assms] by blast

theorem connect_block_refines_witness:
  "\<exists>V. ledger_run (bc_tx demo_bc) demo_chain (first_tx_pos 8 500 1) [demo_payment] (txdb_tx demo_db) = Some V"
proof -
  obtain db' where c: "ConnectBlock demo_bc demo_db demo_queued demo_queued demo_full demo_chain False demo_buf = (Accept db', demo_queued)"
    by (rule demo_connect)
  from connect_block_refines [OF c, of "demo_disk 3700001 1003"] show ?thesis
    by (simp add: demo_chain_def demo_db_def demo_disk_def demo_full_def del: ledger_run.simps)
qed

text \<open>
  C8. No output is spent twice: the inputs of all transactions of an accepted block refer to pairwise
  different outputs, and each of these was unspent in the index before the block or belongs to a transaction of the block.
\<close>

theorem no_double_spend:
  assumes "ConnectBlock env db r rMain b pchain False buffer = (Accept db', r')" "mi_nFile (hd pchain) \<noteq> -1"
  shows "distinct (map prevout (concat (map spends (vtx b)))) \<and>
    (\<forall>tx \<in> set (vtx b). \<forall>j \<in> set (spends tx). unspent (txdb_tx db) j \<or> out_hash j \<in> GetHash (bc_tx env) ` set (vtx b))"
proof -
  obtain d where d: "txdb_block db (mi_hash (hd pchain)) = Some d" using ConnectBlock_parts [OF assms(1)] by blast
  note l = ConnectBlock_ledger [OF assms d]
  have "\<forall>h. has_unspent (txdb_tx db) h \<longrightarrow> h \<notin> GetHash (bc_tx env) ` set (vtx b)"
    using l by (fastforce simp: has_unspent_def bip30_ok_def ReadTxIndex_def list_ex_iff in_set_conv_nth)
  then show ?thesis using run_distinct [OF conjunct1 [OF l] assms(2)] l by auto
qed

theorem no_double_spend_witness:
  "length (spends demo_payment) = 1 \<and>
   list_all (\<lambda>j. unspent (txdb_tx demo_db) j \<or> out_hash j = GetHash (bc_tx demo_bc) demo_payment) (spends demo_payment)"
proof -
  obtain db' where c: "ConnectBlock demo_bc demo_db demo_queued demo_queued demo_full demo_chain False demo_buf = (Accept db', demo_queued)"
    by (rule demo_connect)
  have "length (spends demo_payment) = 1" by code_simp
  with no_double_spend [OF c] show ?thesis by (simp add: demo_chain_def demo_full_def list_all_iff)
qed

text \<open>
  C9. Disconnecting undoes connecting: if a block was connected whose transactions were not in the index before, then
  disconnecting it succeeds and gives back exactly the index from before the block. Positions that
  stand for unspent are the null position, and the data base accepts the writes.
\<close>

theorem disconnect_undoes_connect:
  assumes "ConnectBlock env db r rMain b pchain False buffer = (Accept db', r')" "mi_nFile (hd pchain) \<noteq> -1"
    and "\<forall>tx \<in> set (vtx b). txdb_tx db (GetHash (bc_tx env) tx) = None" "canonical (txdb_tx db)"
    and "\<forall>h. le_write_ok (bc_led env) h"
  shows "\<exists>db''. DisconnectBlock env db' b pchain = Some (True, db'') \<and> txdb_tx db'' = txdb_tx db"
proof -
  from ConnectBlock_parts [OF assms(1)] obtain d dPrev db2 where
    d: "txdb_block db (mi_hash (hd pchain)) = Some d" "tl pchain \<noteq> []"
    and w: "WriteDiskBlockIndex env db2 (mi_hash (hd (tl pchain))) (dPrev\<lparr>db_hashNext := mi_hash (hd pchain)\<rparr>) = Some db'"
    by blast
  note l = ConnectBlock_ledger [OF assms(1,2) d(1)]
  from run_undo [OF conjunct1 [OF l] assms(2,5) _ assms(3,4) refl] l obtain D where
    D: "DisconnectBlock_loop (bc_led env) (rev (vtx b)) db' = (True, D)" "txdb_block D = txdb_block db'"
    "\<And>h. h \<notin> GetHash (bc_tx env) ` set (vtx b) \<Longrightarrow> txdb_tx D h = txdb_tx db h" by auto
  let ?D = "D\<lparr>txdb_block := (txdb_block D)(mi_hash (hd (tl pchain)) \<mapsto>
    dPrev\<lparr>db_hashNext := mi_hash (hd pchain)\<rparr>\<lparr>db_hashNext := 0\<rparr>)\<rparr>"
  let ?E = "fold (\<lambda>tx db. EraseTxIndex (bc_led env) db tx) (vtx b) ?D"
  have "txdb_block D (mi_hash (hd (tl pchain))) = Some (dPrev\<lparr>db_hashNext := mi_hash (hd pchain)\<rparr>)"
    "bc_write_block_ok env (mi_hash (hd (tl pchain)))"
    using D(2) w by (auto simp: WriteDiskBlockIndex_Some)
  then have "DisconnectBlock env db' b pchain = Some (True, ?E)"
    using D(1) d(2) by (simp add: DisconnectBlock_def WriteDiskBlockIndex_def)
  moreover have "txdb_tx ?E h = txdb_tx db h" for h
    using D(3) [of h] assms(3) by (auto simp: fold_erase)
  ultimately show ?thesis by blast
qed

theorem disconnect_undoes_connect_witness:
  "\<exists>db' r' db''. ConnectBlock demo_bc demo_db demo_queued demo_queued demo_full demo_chain False demo_buf = (Accept db', r') \<and>
     DisconnectBlock demo_bc db' demo_full demo_chain = Some (True, db'') \<and> txdb_tx db'' = txdb_tx demo_db"
proof -
  obtain db' where c: "ConnectBlock demo_bc demo_db demo_queued demo_queued demo_full demo_chain False demo_buf = (Accept db', demo_queued)"
    by (rule demo_connect)
  have "GetHash (bc_tx demo_bc) demo_payment \<noteq> GetHash (bc_tx demo_bc) demo_parent" by code_simp
  then have "\<forall>tx \<in> set (vtx demo_full). txdb_tx demo_db (GetHash (bc_tx demo_bc) tx) = None"
    by (simp add: demo_full_def demo_db_def)
  moreover have "canonical (txdb_tx demo_db)"
    by (auto simp: canonical_def demo_db_def CTxIndex_new_def split: if_splits)
  moreover have "mi_nFile (hd demo_chain) \<noteq> -1" "\<forall>h. le_write_ok (bc_led demo_bc) h"
    by (simp_all add: demo_chain_def demo_bc_def demo_le_def)
  ultimately show ?thesis using disconnect_undoes_connect [OF c] c by blast
qed

text \<open>
  C10. A qPoS block creates no money beyond the claims: the amount that \<open>ConnectBlock\<close> records as minted is
  exactly the sum of the claims in the outputs of its transactions, and the recorded money supply grows by at most that
  sum less the value of all purchases; what is missing are fees, which are destroyed.
\<close>

theorem block_mints_claims:
  assumes "ConnectBlock env db r rMain b pchain False buffer = (Accept db', r')"
    and "bc_fork env (blk_nHeight b) \<ge> XST_FORKQPOS" "bc_fork env (te_nBestHeight (bc_tx env) + 1) \<ge> XST_FORKPURCHASE3"
    and "txdb_block db (mi_hash (hd pchain)) = Some d" "\<not> Index_IsProofOfWork d"
    and "txdb_block db (mi_hash (hd (tl pchain))) = Some dPrev" "mi_hash (hd pchain) \<noteq> mi_hash (hd (tl pchain))"
  shows "\<exists>d'. txdb_block db' (mi_hash (hd pchain)) = Some d' \<and>
    db_nMint d' = sum_list (map (claim_value (bc_chk env)) (vtx b)) \<and>
    db_nMoneySupply d' + sum_list (map (purchase_value env r' (db_nMoneySupply dPrev)) (vtx b)) \<le>
      db_nMoneySupply dPrev + sum_list (map (claim_value (bc_chk env)) (vtx b))"
proof -
  from ConnectBlock_parts [OF assms(1)] assms(4,6) obtain r1 gone vDeets cs0 cs db1 db2 where
    chk: "CheckBlock env db r b (hd (tl pchain)) True True True True = (Accept vDeets, r1, gone)"
    and cs0: "cs0 = \<lparr>cs_mapQueuedChanges = [], cs_nFees = 0, cs_nValueIn = 0, cs_nValueOut = 0, cs_nValuePurchases = 0,
      cs_nValueClaims = 0, cs_nSigOps = 0, cs_nTxPos = first_tx_pos (db_nVersion d) (mi_nBlockPos (hd pchain)) (length (vtx b)),
      cs_buffer = buffer\<rparr>"
    and loop: "ConnectBlock_loop env db r1 rMain pchain (db_nMoneySupply dPrev) False (vtx b) cs0 = Accept cs"
    and w: "WriteDiskBlockIndex env db (mi_hash (hd pchain))
        ((connect_books d (bc_fork env (te_nBestHeight (bc_tx env) + 1)) (db_nMoneySupply dPrev) cs)\<lparr>db_vDeets := vDeets\<rparr>) = Some db1"
      "write_queued (bc_led env) (cs_mapQueuedChanges cs) db1 = Some db2"
      "WriteDiskBlockIndex env db2 (mi_hash (hd (tl pchain))) (dPrev\<lparr>db_hashNext := mi_hash (hd pchain)\<rparr>) = Some db'"
    by auto
  have bk0: "books cs0 0 0" by (simp add: books_def cs0)
  have r1: "r1 = r'" using assms(1,4,6) chk by (auto simp: ConnectBlock_def Let_def split: if_splits option.splits verdict.splits)
  note bk = ConnectBlock_loop_books [OF loop CheckBlock_no_base [OF chk assms(2)] bk0, unfolded r1]
  have "txdb_block db2 = txdb_block db1" by (rule write_queued_block [OF w(2)])
  with w have "txdb_block db' (mi_hash (hd pchain)) = Some ((connect_books d (bc_fork env (te_nBestHeight (bc_tx env) + 1))
      (db_nMoneySupply dPrev) cs)\<lparr>db_vDeets := vDeets\<rparr>)" using assms(7) by (auto simp: WriteDiskBlockIndex_Some)
  with bk assms(3,5) show ?thesis by (auto simp: connect_books_def books_def)
qed

theorem block_mints_claims_witness:
  "\<exists>db' r' d'. ConnectBlock demo_bc demo_db demo_queued demo_queued demo_full demo_chain False demo_buf = (Accept db', r') \<and>
     txdb_block db' 78 = Some d' \<and> db_nMint d' = claim_value (bc_chk demo_bc) demo_payment"
proof -
  obtain db' where c: "ConnectBlock demo_bc demo_db demo_queued demo_queued demo_full demo_chain False demo_buf = (Accept db', demo_queued)"
    by (rule demo_connect)
  have f: "bc_fork demo_bc (blk_nHeight demo_full) \<ge> XST_FORKQPOS"
    "bc_fork demo_bc (te_nBestHeight (bc_tx demo_bc) + 1) \<ge> XST_FORKPURCHASE3" "\<not> Index_IsProofOfWork (demo_disk 3700001 1003)"
    by code_simp+
  from block_mints_claims [OF c f(1,2) _ f(3), of "demo_disk 3700000 1000"] c show ?thesis
    by (auto simp: demo_chain_def demo_db_def demo_full_def)
qed

end
