(* ===== verification/MemPoolProps.thy ===== *)
theory MemPoolProps
  imports MemPool LedgerProps
begin

text \<open>
  The memory pool is consistent: its index of spent outputs lists exactly the inputs of the pooled transactions, so no
  two of them spend the same output. This holds in every state that the operations of the pool
  reach. Recursive removal takes away a transaction with all pooled transactions that depend on it, and nothing else.

  The pool identifies transactions by hash. A set \<open>T\<close> holds the transactions that occur; in it equal hashes mean
  equal inputs and equally many outputs, and no transaction depends on itself: \<open>rk\<close> ranks hashes such that a transaction
  comes after those it spends.
\<close>

section \<open>Consistency\<close>

definition input_keys :: "CTransaction \<Rightarrow> outpoint list" where
  "input_keys t = map (\<lambda>i. out_key (prevout i)) (vin t)"

definition good_txs :: "(CTransaction \<Rightarrow> uint256) \<Rightarrow> (uint256 \<Rightarrow> nat) \<Rightarrow> CTransaction set \<Rightarrow> bool" where
  "good_txs H rk T \<longleftrightarrow>
     (\<forall>t \<in> T. length (vin t) < 2 ^ 32 \<and> length (vout t) < 2 ^ 32 \<and> (\<forall>k \<in> set (input_keys t). rk (fst k) < rk (H t)) \<and>
        (\<forall>t' \<in> T. H t = H t' \<longrightarrow> input_keys t = input_keys t' \<and> length (vout t) = length (vout t')))"

definition pool_wf :: "(CTransaction \<Rightarrow> uint256) \<Rightarrow> CTransaction set \<Rightarrow> CTxMemPool \<Rightarrow> bool" where
  "pool_wf H T p \<longleftrightarrow>
     (\<forall>h t. map_of (mapTx p) h = Some t \<longrightarrow> t \<in> T \<and> H t = h) \<and>
     (\<forall>k ip. map_of (mapNextTx p) k = Some ip \<longleftrightarrow>
        (\<exists>t. map_of (mapTx p) (ip_ptx ip) = Some t \<and> unat (ip_n ip) < length (vin t) \<and> input_keys t ! unat (ip_n ip) = k))"

lemma length_input_keys [simp]: "length (input_keys t) = length (vin t)"
  by (simp add: input_keys_def)

lemma good_txs_keys:
  "good_txs H rk T \<Longrightarrow> t \<in> T \<Longrightarrow> t' \<in> T \<Longrightarrow> H t = H t' \<Longrightarrow> input_keys t = input_keys t' \<and> length (vout t) = length (vout t')"
  unfolding good_txs_def by blast

lemma good_txs_small: "good_txs H rk T \<Longrightarrow> t \<in> T \<Longrightarrow> length (vin t) < 2 ^ 32 \<and> length (vout t) < 2 ^ 32"
  unfolding good_txs_def by blast

lemma good_txs_rank: "good_txs H rk T \<Longrightarrow> t \<in> T \<Longrightarrow> k \<in> set (input_keys t) \<Longrightarrow> rk (fst k) < rk (H t)"
  unfolding good_txs_def by blast

lemma pool_wf_tx: "pool_wf H T p \<Longrightarrow> map_of (mapTx p) h = Some t \<Longrightarrow> t \<in> T \<and> H t = h"
  unfolding pool_wf_def by blast

lemma pool_wf_next:
  "pool_wf H T p \<Longrightarrow> map_of (mapNextTx p) k = Some ip \<longleftrightarrow>
    (\<exists>t. map_of (mapTx p) (ip_ptx ip) = Some t \<and> unat (ip_n ip) < length (vin t) \<and> input_keys t ! unat (ip_n ip) = k)"
  unfolding pool_wf_def by blast

lemma pool_wf_cong:
  "pool_wf H T p \<Longrightarrow> mapTx q = mapTx p \<Longrightarrow> mapNextTx q = mapNextTx p \<Longrightarrow> pool_wf H T q"
  by (simp add: pool_wf_def)

lemma pool_wf_input:
  assumes "pool_wf H T p" "good_txs H rk T" "map_of (mapTx p) h = Some t" "i < length (vin t)"
  shows "map_of (mapNextTx p) (input_keys t ! i) = Some \<lparr>ip_ptx = h, ip_n = of_nat i\<rparr>"
proof -
  have "i < 2 ^ 32"
    using good_txs_small [OF assms(2)] pool_wf_tx [OF assms(1,3)] assms(4) by (meson less_trans)
  then show ?thesis
    using assms(3,4) by (subst pool_wf_next [OF assms(1)]) (simp add: unat_of_nat_small)
qed

text \<open>Every output is spent by at most one input of the pool.\<close>

lemma pool_wf_spent_once:
  assumes wf: "pool_wf H T p" and T: "good_txs H rk T"
    and t: "map_of (mapTx p) h = Some t" "i < length (vin t)" and t': "map_of (mapTx p) h' = Some t'" "j < length (vin t')"
    and eq: "input_keys t ! i = input_keys t' ! j"
  shows "h = h' \<and> i = j"
proof -
  have small: "i < 2 ^ 32" "j < 2 ^ 32"
    using good_txs_small [OF T] pool_wf_tx [OF wf t(1)] pool_wf_tx [OF wf t'(1)] t(2) t'(2) by (meson less_trans)+
  have "h = h'" "(of_nat i :: u32) = of_nat j"
    using pool_wf_input [OF wf T t] pool_wf_input [OF wf T t'] eq by auto
  then have "unat (of_nat i :: u32) = unat (of_nat j :: u32)" by simp
  with \<open>h = h'\<close> small show ?thesis by (simp add: unat_of_nat_small)
qed

lemma pool_wf_distinct:
  assumes "pool_wf H T p" "good_txs H rk T" "map_of (mapTx p) h = Some t"
  shows "distinct (input_keys t)"
  using pool_wf_spent_once [OF assms(1,2,3) _ assms(3)] by (simp add: distinct_conv_nth) blast

section \<open>Adding and erasing one transaction\<close>

lemma map_of_add_inputs:
  "distinct (map (\<lambda>i. out_key (prevout i)) is) \<Longrightarrow>
   map_of (add_inputs h is n m) k = Some ip \<longleftrightarrow>
     (\<exists>j < length is. k = out_key (prevout (is ! j)) \<and> ip = \<lparr>ip_ptx = h, ip_n = of_nat (n + j)\<rparr>) \<or>
     k \<notin> (\<lambda>i. out_key (prevout i)) ` set is \<and> map_of m k = Some ip"
proof (induction "is" arbitrary: n m)
  case (Cons a r)
  have "(\<exists>j < length (a # r). k = out_key (prevout ((a # r) ! j)) \<and> ip = \<lparr>ip_ptx = h, ip_n = of_nat (n + j)\<rparr>) \<longleftrightarrow>
      k = out_key (prevout a) \<and> ip = \<lparr>ip_ptx = h, ip_n = of_nat n\<rparr> \<or>
      (\<exists>j < length r. k = out_key (prevout (r ! j)) \<and> ip = \<lparr>ip_ptx = h, ip_n = of_nat (n + 1 + j)\<rparr>)"
    by (auto simp: less_Suc_eq_0_disj)
  with Cons show ?case
    by (cases "k = out_key (prevout a)") (auto simp: image_iff)
qed auto

lemma pool_wf_add:
  assumes wf: "pool_wf H T p" and T: "good_txs H rk T" "tx \<in> T" and new: "map_of (mapTx p) (H tx) = None"
    and free: "\<forall>k \<in> set (input_keys tx). map_of (mapNextTx p) k = None" "distinct (input_keys tx)"
  shows "pool_wf H T (addUnchecked (H tx) tx p)"
proof -
  have next_iff: "map_of (add_inputs (H tx) (vin tx) 0 (mapNextTx p)) k = Some ip \<longleftrightarrow>
      (\<exists>j < length (vin tx). k = input_keys tx ! j \<and> ip = \<lparr>ip_ptx = H tx, ip_n = of_nat j\<rparr>) \<or> map_of (mapNextTx p) k = Some ip"
    for k ip
    using free map_of_add_inputs [of "vin tx" "H tx" 0 "mapNextTx p" k ip] by (auto simp: input_keys_def)
  have own: "(\<exists>j < length (vin tx). k = input_keys tx ! j \<and> ip = \<lparr>ip_ptx = H tx, ip_n = of_nat j\<rparr>) \<longleftrightarrow>
      ip_ptx ip = H tx \<and> unat (ip_n ip) < length (vin tx) \<and> input_keys tx ! unat (ip_n ip) = k" for k and ip :: CInPoint
    using good_txs_small [OF T] by (cases ip) (auto simp: unat_of_nat_small intro: exI [of _ "unat (ip_n ip)"])
  have other: "map_of (mapNextTx p) k = Some ip \<Longrightarrow> ip_ptx ip \<noteq> H tx" for k ip
    using new by (auto simp: pool_wf_next [OF wf])
  show ?thesis
    unfolding pool_wf_def
  proof (intro conjI allI)
    fix h t show "map_of (mapTx (addUnchecked (H tx) tx p)) h = Some t \<longrightarrow> t \<in> T \<and> H t = h"
      using T(2) pool_wf_tx [OF wf] by (auto simp: addUnchecked_def)
  next
    fix k ip
    show "map_of (mapNextTx (addUnchecked (H tx) tx p)) k = Some ip \<longleftrightarrow>
       (\<exists>t. map_of (mapTx (addUnchecked (H tx) tx p)) (ip_ptx ip) = Some t \<and> unat (ip_n ip) < length (vin t) \<and>
          input_keys t ! unat (ip_n ip) = k)"
      using other [of k ip] by (auto simp: addUnchecked_def next_iff own pool_wf_next [OF wf])
  qed
qed

lemma map_of_fold_erase: "map_of (fold om_erase ks m) k = (if k \<in> set ks then None else map_of m k)"
  by (induction ks arbitrary: m) auto

lemma erase_tx_next:
  "map_of (mapNextTx (erase_tx h tx p)) k = (if k \<in> set (input_keys tx) then None else map_of (mapNextTx p) k)"
proof -
  have "fold (\<lambda>txin. om_erase (out_key (prevout txin))) (vin tx) m = fold om_erase (input_keys tx) m" for m :: "(outpoint, CInPoint) omap"
    by (simp add: input_keys_def fold_map comp_def)
  then show ?thesis
    by (simp add: erase_tx_def map_of_fold_erase)
qed

lemma erase_tx_txs [simp]: "map_of (mapTx (erase_tx h tx p)) = (map_of (mapTx p))(h := None)"
  by (simp add: erase_tx_def)

lemma pool_wf_erase:
  assumes wf: "pool_wf H T p" and T: "good_txs H rk T" "tx \<in> T" and h: "map_of (mapTx p) (H tx) = Some t"
  shows "pool_wf H T (erase_tx (H tx) tx p)"
proof -
  have t: "t \<in> T" "H t = H tx" using pool_wf_tx [OF wf h] by auto
  have keys: "input_keys tx = input_keys t" using good_txs_keys [OF T(1) t(1) T(2) t(2)] by simp
  have own: "k \<in> set (input_keys t) \<longleftrightarrow> ip_ptx ip = H tx" if "map_of (mapNextTx p) k = Some ip" for k ip
  proof
    assume "k \<in> set (input_keys t)"
    then obtain i where "i < length (vin t)" "k = input_keys t ! i" by (auto simp: in_set_conv_nth)
    with pool_wf_input [OF wf T(1) h] that show "ip_ptx ip = H tx" by auto
  next
    assume "ip_ptx ip = H tx"
    with that h show "k \<in> set (input_keys t)"
      by (auto simp: pool_wf_next [OF wf] in_set_conv_nth)
  qed
  show ?thesis
    unfolding pool_wf_def
  proof (intro conjI allI)
    fix h t show "map_of (mapTx (erase_tx (H tx) tx p)) h = Some t \<longrightarrow> t \<in> T \<and> H t = h"
      using pool_wf_tx [OF wf] by (auto simp: erase_tx_def)
  next
    fix k ip
    show "map_of (mapNextTx (erase_tx (H tx) tx p)) k = Some ip \<longleftrightarrow>
       (\<exists>t. map_of (mapTx (erase_tx (H tx) tx p)) (ip_ptx ip) = Some t \<and> unat (ip_n ip) < length (vin t) \<and>
          input_keys t ! unat (ip_n ip) = k)"
      using own [of k ip] pool_wf_next [OF wf, of k ip] by (cases "ip_ptx ip = H tx") (auto simp: erase_tx_next keys)
  qed
qed

section \<open>Dependent transactions\<close>

text \<open>
  The pooled transactions that spend an output of \<open>h\<close> with an index in \<open>I\<close>, the relation from a pooled transaction to
  those that spend its outputs, and all that depend on a set of transactions.
\<close>

definition spenders :: "(uint256 \<Rightarrow> CTransaction option) \<Rightarrow> uint256 \<Rightarrow> nat set \<Rightarrow> uint256 set" where
  "spenders M h I = {b. \<exists>t. M b = Some t \<and> (\<exists>n. (h, n) \<in> set (input_keys t) \<and> unat n \<in> I)}"

definition depends :: "(uint256 \<Rightarrow> CTransaction option) \<Rightarrow> (uint256 \<times> uint256) set" where
  "depends M = {(a, b). \<exists>t. M a = Some t \<and> b \<in> spenders M a {..<length (vout t)}}"

definition dependents :: "(uint256 \<Rightarrow> CTransaction option) \<Rightarrow> uint256 set \<Rightarrow> uint256 set" where
  "dependents M A = (depends M)\<^sup>* `` A"

lemma spenders_restrict: "spenders (M |` (- A)) h I = spenders M h I - A"
  by (auto simp: spenders_def restrict_map_def split: if_splits)

lemma depends_restrict: "depends (M |` (- A)) = {(a, b) \<in> depends M. a \<notin> A \<and> b \<notin> A}"
  unfolding depends_def spenders_restrict by (auto simp: restrict_map_def split: if_splits)

lemma dependents_closed: "(a, b) \<in> depends M \<Longrightarrow> a \<in> dependents M A \<Longrightarrow> b \<in> dependents M A"
  by (auto simp: dependents_def intro: rtrancl_into_rtrancl)

lemma dependents_restrict:
  assumes "\<And>a b. (a, b) \<in> depends M \<Longrightarrow> a \<in> A \<Longrightarrow> b \<in> A"
  shows "A \<union> dependents (M |` (- A)) X = A \<union> dependents M X"
proof -
  have "(x, y) \<in> (depends (M |` (- A)))\<^sup>* \<Longrightarrow> (x, y) \<in> (depends M)\<^sup>*" for x y
    by (rule rtrancl_mono [THEN subsetD]) (auto simp: depends_restrict)
  moreover have "(x, y) \<in> (depends M)\<^sup>* \<Longrightarrow> y \<notin> A \<Longrightarrow> (x, y) \<in> (depends (M |` (- A)))\<^sup>*" for x y
  proof (induction rule: rtrancl_induct)
    case (step y z)
    then have "y \<notin> A" "(y, z) \<in> depends (M |` (- A))"
      using assms by (auto simp: depends_restrict)
    with step show ?case by (auto intro: rtrancl_into_rtrancl)
  qed simp
  ultimately show ?thesis
    unfolding dependents_def by blast
qed

lemma dependents_union: "dependents M (A \<union> B) = dependents M A \<union> dependents M B"
  by (auto simp: dependents_def)

lemma dependents_self: "A \<subseteq> dependents M A"
  by (auto simp: dependents_def)

lemma dependents_sub: "B \<subseteq> dependents M A \<Longrightarrow> dependents M B \<subseteq> dependents M A"
  by (auto simp: dependents_def intro: rtrancl_trans)

lemma dependents_step: "dependents M {h} = insert h (dependents M (depends M `` {h}))"
  by (auto simp: dependents_def elim: converse_rtranclE intro: converse_rtrancl_into_rtrancl)

text \<open>Removing the dependents of \<open>A\<close> and then those that are left of the dependents of \<open>K\<close>.\<close>

lemma restrict_dependents:
  fixes M A K
  defines "M1 \<equiv> M |` (- dependents M A)"
  shows "M1 |` (- dependents M1 (K - dependents M A)) = M |` (- dependents M (A \<union> K))"
proof -
  let ?D = "dependents M A"
  have "?D \<union> dependents M1 (K - ?D) = ?D \<union> dependents M (K - ?D)"
    unfolding M1_def by (rule dependents_restrict) (auto intro: dependents_closed)
  also have "\<dots> = dependents M (A \<union> K)"
  proof -
    have "dependents M (A \<union> K) = ?D \<union> dependents M (K - ?D) \<union> dependents M (K \<inter> ?D)"
      using dependents_union [of M A K] dependents_union [of M "K - ?D" "K \<inter> ?D"] by (simp add: Un_Diff_Int Un_assoc)
    with dependents_sub [of "K \<inter> ?D" M A] show ?thesis by auto
  qed
  finally show ?thesis
    by (auto simp: M1_def restrict_map_def fun_eq_iff)
qed

section \<open>Removing with all dependents\<close>

lemma depends_rank:
  assumes "pool_wf H T p" "good_txs H rk T" "(a, b) \<in> depends (map_of (mapTx p))"
  shows "rk a < rk b \<and> b \<in> dom (map_of (mapTx p))"
proof -
  obtain t n where "map_of (mapTx p) b = Some t" "(a, n) \<in> set (input_keys t)"
    using assms(3) by (auto simp: depends_def spenders_def)
  with good_txs_rank [OF assms(2)] pool_wf_tx [OF assms(1)] show ?thesis by force
qed

lemma dependents_rank:
  assumes "pool_wf H T p" "good_txs H rk T" "b \<in> dependents (map_of (mapTx p)) A"
  shows "\<exists>a \<in> A. rk a \<le> rk b"
proof -
  obtain a where "a \<in> A" "(a, b) \<in> (depends (map_of (mapTx p)))\<^sup>*" using assms(3) by (auto simp: dependents_def)
  from this(2) have "rk a \<le> rk b"
    by (induction rule: rtrancl_induct) (auto dest: depends_rank [OF assms(1,2)])
  with \<open>a \<in> A\<close> show ?thesis by blast
qed

text \<open>The index finds exactly the spenders.\<close>

lemma next_spenders:
  assumes wf: "pool_wf H T p" and T: "good_txs H rk T" and i: "i < 2 ^ 32"
  shows "spenders (map_of (mapTx p)) h {i} =
    (case map_of (mapNextTx p) (h, of_nat i) of None \<Rightarrow> {} | Some ip \<Rightarrow> {ip_ptx ip})"
proof -
  have eq: "unat n = i \<longleftrightarrow> n = of_nat i" for n :: u32
    using i by (simp add: word_unat_eq_iff unat_of_nat_small)
  have "b \<in> spenders (map_of (mapTx p)) h {i} \<longleftrightarrow> (\<exists>ip. map_of (mapNextTx p) (h, of_nat i) = Some ip \<and> ip_ptx ip = b)" for b
  proof
    assume "b \<in> spenders (map_of (mapTx p)) h {i}"
    then obtain t j where "map_of (mapTx p) b = Some t" "j < length (vin t)" "input_keys t ! j = (h, of_nat i)"
      by (auto simp: spenders_def in_set_conv_nth eq)
    with pool_wf_input [OF wf T] show "\<exists>ip. map_of (mapNextTx p) (h, of_nat i) = Some ip \<and> ip_ptx ip = b" by force
  next
    assume "\<exists>ip. map_of (mapNextTx p) (h, of_nat i) = Some ip \<and> ip_ptx ip = b"
    then obtain ip where "map_of (mapNextTx p) (h, of_nat i) = Some ip" "ip_ptx ip = b" by blast
    with pool_wf_next [OF wf, of "(h, of_nat i)" ip] obtain t where "map_of (mapTx p) b = Some t"
      "unat (ip_n ip) < length (input_keys t)" "input_keys t ! unat (ip_n ip) = (h, of_nat i)" by auto
    moreover from this(2,3) have "(h, of_nat i) \<in> set (input_keys t)" by (metis nth_mem)
    ultimately show "b \<in> spenders (map_of (mapTx p)) h {i}"
      by (auto simp: spenders_def eq)
  qed
  then show ?thesis by (auto split: option.splits)
qed

text \<open>How many pooled transactions rank behind \<open>h\<close>: enough recursion depth.\<close>

definition behind :: "(uint256 \<Rightarrow> nat) \<Rightarrow> (uint256 \<Rightarrow> CTransaction option) \<Rightarrow> uint256 \<Rightarrow> nat" where
  "behind rk M h = card {x \<in> dom M. rk h < rk x}"

lemma behind_less:
  assumes "finite (dom M)" "b \<in> dom M" "rk h < rk b" "dom M1 \<subseteq> dom M"
  shows "behind rk M1 b < behind rk M h"
proof -
  have "{x \<in> dom M1. rk b < rk x} \<subset> {x \<in> dom M. rk h < rk x}" using assms by force
  then show ?thesis unfolding behind_def using assms(1) by (intro psubset_card_mono) auto
qed

definition removes ::
  "(CTransaction \<Rightarrow> uint256) \<Rightarrow> CTransaction set \<Rightarrow> CTxMemPool \<Rightarrow> uint256 set \<Rightarrow> CTxMemPool option \<Rightarrow> bool" where
  "removes H T p A res \<longleftrightarrow> (\<exists>p'. res = Some p' \<and> pool_wf H T p' \<and>
     map_of (mapTx p') = map_of (mapTx p) |` (- dependents (map_of (mapTx p)) A))"

lemma remove_spenders_removes:
  assumes T: "good_txs H rk T"
    and remv: "\<And>t q. pool_wf H T q \<Longrightarrow> t \<in> T \<Longrightarrow> H t \<in> dom (map_of (mapTx q)) \<Longrightarrow> dom (map_of (mapTx q)) \<subseteq> D \<Longrightarrow>
        rk h < rk (H t) \<Longrightarrow> removes H T q {H t} (remv t q)"
  shows "pool_wf H T p \<Longrightarrow> dom (map_of (mapTx p)) \<subseteq> D \<Longrightarrow> \<forall>i \<in> set is. i < 2 ^ 32 \<Longrightarrow>
    removes H T p (spenders (map_of (mapTx p)) h (set is)) (remove_spenders remv h is p)"
proof (induction "is" arbitrary: p)
  case Nil
  then show ?case by (simp add: removes_def spenders_def dependents_def restrict_map_def)
next
  case (Cons i "is")
  let ?M = "map_of (mapTx p)"
  have split: "spenders ?M h (set (i # is)) = spenders ?M h {i} \<union> spenders ?M h (set is)"
    by (auto simp: spenders_def)
  have i: "i < 2 ^ 32" using Cons.prems by simp
  show ?case
  proof (cases "map_of (mapNextTx p) (h, of_nat i)")
    case None
    then have "spenders ?M h {i} = {}" using next_spenders [OF Cons.prems(1) T i, of h] by simp
    with None Cons split show ?thesis by simp
  next
    case (Some ip)
    then obtain t where t': "?M (ip_ptx ip) = Some t" "unat (ip_n ip) < length (vin t)" "input_keys t ! unat (ip_n ip) = (h, of_nat i)"
      using pool_wf_next [OF Cons.prems(1), of "(h, of_nat i)" ip] by blast
    then have t: "?M (ip_ptx ip) = Some t" "(h, of_nat i) \<in> set (input_keys t)"
      using nth_mem [of "unat (ip_n ip)" "input_keys t"] by simp_all
    have H: "t \<in> T" "H t = ip_ptx ip" using pool_wf_tx [OF Cons.prems(1) t(1)] by auto
    have "rk h < rk (H t)" using good_txs_rank [OF T H(1) t(2)] by simp
    from remv [OF Cons.prems(1) H(1) _ Cons.prems(2) this] t(1) H obtain p1 where
      p1: "remv t p = Some p1" "pool_wf H T p1" "map_of (mapTx p1) = ?M |` (- dependents ?M {ip_ptx ip})"
      by (auto simp: removes_def)
    then have "dom (map_of (mapTx p1)) \<subseteq> D" using Cons.prems(2) by (auto simp: restrict_map_def split: if_splits)
    from Cons.IH [OF p1(2) this] Cons.prems(3) obtain p2 where
      p2: "remove_spenders remv h is p1 = Some p2" "pool_wf H T p2"
        "map_of (mapTx p2) = map_of (mapTx p1) |` (- dependents (map_of (mapTx p1)) (spenders (map_of (mapTx p1)) h (set is)))"
      by (auto simp: removes_def)
    have "map_of (mapTx p2) = ?M |` (- dependents ?M ({ip_ptx ip} \<union> spenders ?M h (set is)))"
      unfolding p2(3) p1(3) spenders_restrict by (rule restrict_dependents)
    moreover have "spenders ?M h {i} = {ip_ptx ip}" using next_spenders [OF Cons.prems(1) T i, of h] Some by simp
    ultimately show ?thesis using Some t(1) p1(1) p2(1,2) split by (simp add: removes_def)
  qed
qed

lemma forget_tx_simps [simp]: "mapTx (forget_tx h p) = mapTx p" "mapNextTx (forget_tx h p) = mapNextTx p"
  by (simp_all add: forget_tx_def)

lemma dependents_absent: "M h = None \<Longrightarrow> dependents M {h} = {h}"
  by (subst dependents_step) (auto simp: depends_def dependents_def)

lemma restrict_absent: "M h = None \<Longrightarrow> M |` (- {h}) = M"
  by (auto simp: restrict_map_def fun_eq_iff)

lemma remove_rec_removes:
  assumes T: "good_txs (GetHash env) rk T"
  shows "pool_wf (GetHash env) T p \<Longrightarrow> tx \<in> T \<Longrightarrow> behind rk (map_of (mapTx p)) (GetHash env tx) < n \<Longrightarrow>
    removes (GetHash env) T p {GetHash env tx} (remove_rec n env True tx p)"
proof (induction n arbitrary: p tx)
  case (Suc n)
  let ?H = "GetHash env" and ?M = "map_of (mapTx p)"
  let ?h = "?H tx" and ?I = "{..<length (vout tx)}"
  show ?case
  proof (cases "?M ?h")
    case None
    with Suc.prems show ?thesis
      by (auto simp: removes_def om_count_def dependents_absent restrict_absent intro: pool_wf_cong)
  next
    case (Some t)
    have t: "t \<in> T" "?H t = ?h" using pool_wf_tx [OF Suc.prems(1) Some] by auto
    have dep: "depends ?M `` {?h} = spenders ?M ?h ?I"
      using good_txs_keys [OF T t(1) Suc.prems(2) t(2)] Some by (auto simp: depends_def)
    have "removes ?H T p (spenders ?M ?h (set [0..<length (vout tx)])) (remove_spenders (remove_rec n env True) ?h [0..<length (vout tx)] p)"
    proof (rule remove_spenders_removes [OF T, where D = "dom ?M"])
      fix u q assume q: "pool_wf ?H T q" "u \<in> T" "?H u \<in> dom (map_of (mapTx q))" "dom (map_of (mapTx q)) \<subseteq> dom ?M" "rk ?h < rk (?H u)"
      then have "behind rk (map_of (mapTx q)) (?H u) < behind rk ?M ?h"
        by (intro behind_less) (auto simp: finite_dom_map_of)
      with Suc.prems(3) show "removes ?H T q {?H u} (remove_rec n env True u q)"
        by (intro Suc.IH q) simp
    qed (use Suc.prems good_txs_small [OF T Suc.prems(2)] in auto)
    then obtain p1 where p1: "remove_spenders (remove_rec n env True) ?h [0..<length (vout tx)] p = Some p1" "pool_wf ?H T p1"
      "map_of (mapTx p1) = ?M |` (- dependents ?M (spenders ?M ?h ?I))"
      by (auto simp: removes_def lessThan_atLeast0)
    have "?h \<notin> dependents ?M (spenders ?M ?h ?I)"
    proof
      assume "?h \<in> dependents ?M (spenders ?M ?h ?I)"
      from dependents_rank [OF Suc.prems(1) T this] obtain a where "a \<in> spenders ?M ?h ?I" "rk a \<le> rk ?h" by blast
      moreover from this(1) dep have "(?h, a) \<in> depends ?M" by blast
      ultimately show False using depends_rank [OF Suc.prems(1) T] by fastforce
    qed
    then have "map_of (mapTx p1) ?h = Some t" using Some p1(3) by simp
    from pool_wf_erase [OF p1(2) T Suc.prems(2) this] have "pool_wf ?H T (forget_tx ?h (erase_tx ?h tx p1))"
      by (rule pool_wf_cong) simp_all
    moreover have "(map_of (mapTx p1))(?h := None) = ?M |` (- dependents ?M {?h})"
      unfolding dependents_step [of ?M ?h] dep p1(3) by (auto simp: restrict_map_def fun_eq_iff)
    ultimately show ?thesis using Some p1(1) by (simp add: removes_def om_count_def Let_def)
  qed
qed simp

lemma pool_remove_removes:
  assumes "good_txs (GetHash env) rk T" "pool_wf (GetHash env) T p" "tx \<in> T"
  shows "removes (GetHash env) T p {GetHash env tx} (pool_remove env tx True p)"
proof -
  have "behind rk (map_of (mapTx p)) (GetHash env tx) \<le> card (dom (map_of (mapTx p)))"
    unfolding behind_def by (intro card_mono) (auto simp: finite_dom_map_of)
  also have "\<dots> \<le> length (mapTx p)"
    by (simp add: dom_map_of_conv_image_fst) (metis card_length length_map set_map)
  finally show ?thesis
    unfolding pool_remove_def by (intro remove_rec_removes [OF assms]) simp
qed

section \<open>All operations keep the pool consistent\<close>

text \<open>An operation that returns, with a consistent pool.\<close>

definition returns_wf :: "(CTransaction \<Rightarrow> uint256) \<Rightarrow> CTransaction set \<Rightarrow> CTxMemPool option \<Rightarrow> bool" where
  "returns_wf H T res \<longleftrightarrow> (\<exists>p'. res = Some p' \<and> pool_wf H T p')"

lemma removes_returns: "removes H T p A res \<Longrightarrow> returns_wf H T res"
  by (auto simp: removes_def returns_wf_def)

lemma pool_remove_returns:
  assumes T: "good_txs (GetHash env) rk T" and wf: "pool_wf (GetHash env) T p" "tx \<in> T"
  shows "returns_wf (GetHash env) T (pool_remove env tx fRecursive p)"
proof (cases fRecursive)
  case True
  with pool_remove_removes [OF assms] show ?thesis by (auto intro: removes_returns)
next
  case False
  show ?thesis
  proof (cases "map_of (mapTx p) (GetHash env tx)")
    case None
    with False wf(1) show ?thesis
      by (auto simp: pool_remove_def om_count_def returns_wf_def intro: pool_wf_cong)
  next
    case (Some t)
    from pool_wf_cong [OF pool_wf_erase [OF wf(1) T wf(2) Some] forget_tx_simps] False Some show ?thesis
      by (simp add: pool_remove_def om_count_def returns_wf_def Let_def)
  qed
qed

lemma removeConflicts_loop_returns:
  assumes "good_txs (GetHash env) rk T"
  shows "pool_wf (GetHash env) T p \<Longrightarrow> returns_wf (GetHash env) T (removeConflicts_loop env tx is p)"
proof (induction "is" arbitrary: p)
  case (Cons i r)
  show ?case
  proof (cases "map_of (mapNextTx p) (out_key (prevout i))")
    case (Some ip)
    then obtain t where t: "map_of (mapTx p) (ip_ptx ip) = Some t"
      using pool_wf_next [OF Cons.prems, of _ ip] by blast
    from pool_remove_returns [OF assms Cons.prems conjunct1 [OF pool_wf_tx [OF Cons.prems t]], of True] obtain q where
      "pool_remove env t True p = Some q" "pool_wf (GetHash env) T q" by (auto simp: returns_wf_def)
    with Some t Cons show ?thesis by simp
  qed (use Cons in simp)
qed (simp add: returns_wf_def)

lemma remove_all_returns:
  assumes "good_txs (GetHash env) rk T"
  shows "pool_wf (GetHash env) T p \<Longrightarrow> returns_wf (GetHash env) T (remove_all env hs p)"
proof (induction hs arbitrary: p)
  case (Cons h r)
  show ?case
  proof (cases "map_of (mapTx p) h")
    case (Some t)
    from pool_remove_returns [OF assms Cons.prems conjunct1 [OF pool_wf_tx [OF Cons.prems Some]], of False] obtain q where
      "pool_remove env t False p = Some q" "pool_wf (GetHash env) T q" by (auto simp: returns_wf_def)
    with Some Cons show ?thesis by simp
  qed (use Cons in simp)
qed (simp add: returns_wf_def)

lemma removeOldFeeless_returns:
  assumes "good_txs (GetHash env) rk T" "pool_wf (GetHash env) T p"
  shows "returns_wf (GetHash env) T (map_option snd (removeOldFeeless env p))"
proof -
  from remove_all_returns [OF assms] obtain q where
    "remove_all env (fold insort_insert (concat (map snd (takeWhile (\<lambda>(h, _). \<not> te_nBestHeight env - h \<le> FEELESS_MAX_DEPTH) (mapFeeless p)))) []) p
       = Some q" "pool_wf (GetHash env) T q"
    by (auto simp: returns_wf_def)
  then show ?thesis
    by (auto simp: removeOldFeeless_def returns_wf_def Let_def intro: pool_wf_cong)
qed

lemma removeInvalidPurchases_wf:
  assumes "good_txs (GetHash (ce_tx env)) rk T" "pool_wf (GetHash (ce_tx env)) T p"
    and "removeInvalidPurchases env r pindexBest p = Some (n, p')"
  shows "pool_wf (GetHash (ce_tx env)) T p'"
proof -
  obtain hs where "remove_all (ce_tx env) hs p = Some p'"
    using assms(3) by (auto simp: removeInvalidPurchases_def Let_def split: option.splits)
  with remove_all_returns [OF assms(1,2), of hs] show ?thesis by (simp add: returns_wf_def)
qed

lemma CheckTransaction_distinct:
  assumes "CheckTransaction env tx h = Inr u"
  shows "distinct (input_keys tx)"
proof -
  have "distinct (map prevout (vin tx))"
    using assms by (auto simp: CheckTransaction_def split: if_splits sum.splits)
  moreover have "inj out_key" by (auto simp: inj_def)
  ultimately have "distinct (map out_key (map prevout (vin tx)))"
    by (subst distinct_map) (auto intro: inj_on_subset)
  then show ?thesis by (simp add: input_keys_def comp_def)
qed

lemma accept_new_Accept:
  assumes "accept_new env db tx f p = Accept u"
  shows "map_of (mapTx p) (GetHash (mp_tx env) tx) = None" "distinct (input_keys tx)"
    "\<forall>k \<in> set (input_keys tx). map_of (mapNextTx p) k = None"
  using assms
  by (auto simp: accept_new_def Let_def om_count_def list_ex_iff input_keys_def split: sum.splits if_splits
      dest: CheckTransaction_distinct [unfolded input_keys_def])

text \<open>What becomes of the pool when a transaction is offered to it.\<close>

lemma pool_accept_cases:
  assumes "pool_accept env db r pi pc buf tx f p = (v, mi, p')"
  shows "\<exists>q. mapTx q = mapTx p \<and> mapNextTx q = mapNextTx p \<and>
     (p' = q \<and> v \<noteq> Accept () \<or>
      v = Accept () \<and> (\<exists>fw u. p' = accept_store (GetHash (mp_tx env) tx) tx fw q \<and> accept_new env db tx f p = Accept u))"
proof -
  have "mapTx q = mapTx p \<and> mapNextTx q = mapNextTx p" if "accept_purchases env r pi tx p = Accept (n, q)" for n q
    using that by (auto simp: accept_purchases_def Let_def split: verdict.splits if_splits)
  then show ?thesis
    using assms
    by (auto simp: pool_accept_def Let_def split: verdict.splits prod.splits if_splits)
qed

lemma pool_wf_store:
  "pool_wf H T (addUnchecked h tx q) \<Longrightarrow> pool_wf H T (accept_store h tx fw q)"
  by (auto simp: accept_store_def addFeeless_def Let_def intro: pool_wf_cong)

lemma pool_wf_accept:
  assumes "good_txs (GetHash (mp_tx env)) rk T" "pool_wf (GetHash (mp_tx env)) T p" "tx \<in> T"
    and "pool_accept env db r pi pc buf tx f p = (v, mi, p')"
  shows "pool_wf (GetHash (mp_tx env)) T p'"
proof -
  from pool_accept_cases [OF assms(4)] obtain q where q: "mapTx q = mapTx p" "mapNextTx q = mapNextTx p"
    and c: "p' = q \<and> v \<noteq> Accept () \<or>
      v = Accept () \<and> (\<exists>fw u. p' = accept_store (GetHash (mp_tx env) tx) tx fw q \<and> accept_new env db tx f p = Accept u)"
    by blast
  have wf: "pool_wf (GetHash (mp_tx env)) T q" using pool_wf_cong [OF assms(2) q] .
  from c show ?thesis
  proof (elim disjE conjE exE)
    fix fw u assume p': "p' = accept_store (GetHash (mp_tx env) tx) tx fw q" and n: "accept_new env db tx f p = Accept u"
    show ?thesis unfolding p'
      by (intro pool_wf_store pool_wf_add [OF wf assms(1,3)]) (use accept_new_Accept [OF n] q in simp_all)
  qed (use wf in simp)
qed

section \<open>What an accepted transaction spends\<close>

text \<open>The transaction that an input refers to, in the data base or else in the pool.\<close>

definition found_tx :: "mp_env \<Rightarrow> CTxDB \<Rightarrow> CTxMemPool \<Rightarrow> uint256 \<Rightarrow> CTransaction option" where
  "found_tx env db p h =
     (case txdb_tx db h of
        None \<Rightarrow> map_of (mapTx p) h
      | Some ti \<Rightarrow> if ti_pos ti = POS_MEMPOOL then map_of (mapTx p) h else le_ReadFromDisk (mp_led env) (ti_pos ti))"

lemma VerifySignature_pool [simp]: "VerifySignature (pool_env env p) = VerifySignature (mp_led env)"
  by (intro ext) (simp add: VerifySignature_def pool_env_def)

lemma FetchInputs_loop_found:
  assumes "FetchInputs_loop (pool_env env p) db [] False ins m = Accept m'"
    and "\<And>h ti t. map_of m h = Some (ti, t) \<Longrightarrow> found_tx env db p h = Some t \<and> (txdb_tx db h = Some ti \<or> txdb_tx db h = None)"
  shows "map_of m' h = Some (ti, t) \<Longrightarrow> found_tx env db p h = Some t \<and> (txdb_tx db h = Some ti \<or> txdb_tx db h = None)"
  using assms
proof (induction ins arbitrary: m)
  case (Cons i ins)
  let ?h = "op_hash (prevout i)"
  consider (old) "om_count ?h m" "FetchInputs_loop (pool_env env p) db [] False ins m = Accept m'"
    | (new) ti' t' where "found_tx env db p ?h = Some t'" "txdb_tx db ?h = Some ti' \<or> txdb_tx db ?h = None"
        "FetchInputs_loop (pool_env env p) db [] False ins (om_put ?h (ti', t') m) = Accept m'"
  proof (cases "txdb_tx db ?h")
    case None
    with Cons.prems(2) that show thesis
      by (auto simp: Let_def ReadTxIndex_def found_tx_def pool_env_def split: if_split_asm option.split_asm)
  next
    case (Some ti')
    with Cons.prems(2) that(1) that(2) [of _ ti'] show thesis
      by (auto simp: Let_def ReadTxIndex_def found_tx_def pool_env_def split: if_split_asm option.split_asm)
  qed
  then show ?case
  proof cases
    case old
    show ?thesis by (rule Cons.IH [OF Cons.prems(1) old(2) Cons.prems(3)])
  next
    case new
    show ?thesis
      by (rule Cons.IH [OF Cons.prems(1) new(3)]) (use new(1,2) Cons.prems(3) in \<open>auto split: if_splits\<close>)
  qed
qed simp

lemma ConnectInputs_spend_verified:
  assumes "ConnectInputs_spend env tx pos False False flags ins i inputs q = Accept q'" "\<not> CDiskTxPos_IsNull pos"
  shows "k < length ins \<Longrightarrow> \<exists>ti t. map_of inputs (out_hash (ins ! k)) = Some (ti, t) \<and> out_n (ins ! k) < length (ti_vSpent ti) \<and>
    CDiskTxPos_IsNull (ti_vSpent ti ! out_n (ins ! k)) \<and> VerifySignature env t tx (i + k) flags"
  using assms(1)
proof (induction ins arbitrary: i inputs k)
  case (Cons j ins)
  obtain ti t where j: "map_of inputs (out_hash j) = Some (ti, t)" "out_n j < length (ti_vSpent ti)"
      "CDiskTxPos_IsNull (ti_vSpent ti ! out_n j)" "VerifySignature env t tx i flags"
    and rest: "ConnectInputs_spend env tx pos False False flags ins (i + 1)
        (om_put (out_hash j) (ti\<lparr>ti_vSpent := (ti_vSpent ti)[out_n j := pos]\<rparr>, t) inputs) q = Accept q'"
    using Cons.prems(2) by (auto simp: Let_def out_hash_def out_n_def split: option.splits if_splits prod.splits)
  show ?case
  proof (cases k)
    case (Suc k')
    with Cons.prems(1) have "k' < length ins" by simp
    from Cons.IH [OF this rest] show ?thesis
      using Suc j assms(2) by (auto simp: nth_list_update split: if_splits)
  qed (use j in auto)
qed simp

lemma VerifySignature_in_range: "VerifySignature env t tx i flags \<Longrightarrow> out_n (vin tx ! i) < length (vout t)"
  by (auto simp: VerifySignature_def Let_def out_n_def not_le split: if_splits)

lemma pool_accept_parts:
  assumes "pool_accept env db r pi pc buf tx True p = (Accept (), mi, p')"
  obtains q n u inputs nClaim fb fb' q' fw where "accept_new env db tx True p = Accept u" "mapTx q = mapTx p" "mapNextTx q = mapNextTx p"
    "snd (FetchInputs (pool_env env q) db [] False False tx []) = Accept inputs"
    "ConnectInputs (pool_env env q) db tx inputs [] POS_MEMPOOL pc False False (verify_flags (mp_led env) STANDARD_SCRIPT_VERIFY_FLAGS)
       n nClaim fb False = Accept (q', fb')"
    "p' = accept_store (GetHash (mp_tx env) tx) tx fw q"
proof -
  obtain q n u inputs nClaim fb fb' fw where new: "accept_new env db tx True p = Accept u"
    and q: "accept_purchases env r pi tx p = Accept (n, q)"
    and f: "snd (FetchInputs (pool_env env q) db [] False False tx []) = Accept inputs"
    and c: "accept_inputs env db r tx inputs pc q n nClaim fb = Accept fb'"
    and p': "p' = accept_store (GetHash (mp_tx env) tx) tx fw q"
    using assms by (auto simp: pool_accept_def Let_def split: verdict.splits prod.splits if_splits)
  have q': "mapTx q = mapTx p" "mapNextTx q = mapNextTx p"
    using q by (auto simp: accept_purchases_def Let_def split: verdict.splits if_splits)
  obtain fb1 m where ci: "ConnectInputs (pool_env env q) db tx inputs [] POS_MEMPOOL pc False False
      (verify_flags (mp_led env) STANDARD_SCRIPT_VERIFY_FLAGS) n nClaim fb1 False = Accept (m, fb')"
    using c by (auto simp: accept_inputs_def split: verdict.splits prod.splits option.splits if_splits)
  show thesis by (rule that [OF new q' f ci p'])
qed

section \<open>Reachable pools\<close>

text \<open>
  The pools that the operations of the class lead to from the empty one, for transactions of \<open>T\<close>. The environment may
  differ from step to step; only the hash function \<open>H\<close> is fixed.
\<close>

inductive pool_reach :: "(CTransaction \<Rightarrow> uint256) \<Rightarrow> CTransaction set \<Rightarrow> CTxMemPool \<Rightarrow> bool"
  for H :: "CTransaction \<Rightarrow> uint256" and T :: "CTransaction set" where
  start: "pool_reach H T CTxMemPool_new"
| accept: "pool_reach H T p \<Longrightarrow> GetHash (mp_tx env) = H \<Longrightarrow> tx \<in> T \<Longrightarrow>
    pool_accept env db r pindexBest pchain buffer tx fCheckInputs p = (v, fMissing, p') \<Longrightarrow> pool_reach H T p'"
| remove: "pool_reach H T p \<Longrightarrow> GetHash txe = H \<Longrightarrow> tx \<in> T \<Longrightarrow> pool_remove txe tx fRecursive p = Some p' \<Longrightarrow> pool_reach H T p'"
| conflicts: "pool_reach H T p \<Longrightarrow> GetHash txe = H \<Longrightarrow> removeConflicts txe tx p = Some p' \<Longrightarrow> pool_reach H T p'"
| clear: "pool_reach H T p \<Longrightarrow> pool_reach H T (pool_clear p)"
| purchases: "pool_reach H T p \<Longrightarrow> GetHash (ce_tx ce) = H \<Longrightarrow> removeInvalidPurchases ce r pindexBest p = Some (n, p') \<Longrightarrow>
    pool_reach H T p'"
| feeless: "pool_reach H T p \<Longrightarrow> GetHash txe = H \<Longrightarrow> removeOldFeeless txe p = Some (n, p') \<Longrightarrow> pool_reach H T p'"

lemma pool_reach_wf:
  assumes "good_txs H rk T"
  shows "pool_reach H T p \<Longrightarrow> pool_wf H T p"
proof (induction rule: pool_reach.induct)
  case start
  then show ?case by (simp add: pool_wf_def CTxMemPool_new_def)
next
  case (accept p env tx db r pindexBest pchain buffer fCheckInputs v fMissing p')
  with pool_wf_accept [of env rk T p tx] assms show ?case by blast
next
  case (remove p txe tx fRecursive p')
  with pool_remove_returns [of txe rk T p tx fRecursive] assms show ?case by (auto simp: returns_wf_def)
next
  case (conflicts p txe tx p')
  with removeConflicts_loop_returns [of txe rk T p tx "vin tx"] assms show ?case
    by (auto simp: returns_wf_def removeConflicts_def)
next
  case (clear p)
  then show ?case by (simp add: pool_wf_def pool_clear_def)
next
  case (purchases p ce r pindexBest n p')
  with removeInvalidPurchases_wf [of ce rk T p r pindexBest n p'] assms show ?case by simp
next
  case (feeless p txe n p')
  with removeOldFeeless_returns [of txe rk T p] assms show ?case by (auto simp: returns_wf_def)
qed

section \<open>Accepted inputs\<close>

lemma accepted_input:
  assumes "pool_accept env db r pindexBest pchain buffer tx True p = (Accept (), fMissing, p')" "i < length (vin tx)"
  shows "\<exists>t. found_tx env db p (out_hash (vin tx ! i)) = Some t \<and> out_n (vin tx ! i) < length (vout t) \<and>
    (unspent (txdb_tx db) (vin tx ! i) \<or> txdb_tx db (out_hash (vin tx ! i)) = None) \<and>
    map_of (mapNextTx p) (out_key (prevout (vin tx ! i))) = None \<and>
    VerifySignature (mp_led env) t tx i (verify_flags (mp_led env) STANDARD_SCRIPT_VERIFY_FLAGS) \<and>
    map_of (mapTx p') = (map_of (mapTx p))(GetHash (mp_tx env) tx \<mapsto> tx)"
proof -
  from pool_accept_parts [OF assms(1)] obtain q n u inputs nClaim fb fb' q' fw where
    new: "accept_new env db tx True p = Accept u" and q: "mapTx q = mapTx p" "mapNextTx q = mapNextTx p"
    and f: "snd (FetchInputs (pool_env env q) db [] False False tx []) = Accept inputs"
    and c: "ConnectInputs (pool_env env q) db tx inputs [] POS_MEMPOOL pchain False False
        (verify_flags (mp_led env) STANDARD_SCRIPT_VERIFY_FLAGS) n nClaim fb False = Accept (q', fb')"
    and p': "p' = accept_store (GetHash (mp_tx env) tx) tx fw q" by metis
  have nb: "\<not> IsCoinBase tx" using new by (auto simp: accept_new_def Let_def split: sum.splits if_splits)
  have "\<exists>m. ConnectInputs_spend (pool_env env q) tx POS_MEMPOOL False False
      (verify_flags (mp_led env) STANDARD_SCRIPT_VERIFY_FLAGS) (vin tx) 0 inputs [] = Accept m"
    using c nb by (auto simp: ConnectInputs_def Let_def split: option.splits verdict.splits if_splits)
  then obtain m where m: "ConnectInputs_spend (pool_env env q) tx POS_MEMPOOL False False
      (verify_flags (mp_led env) STANDARD_SCRIPT_VERIFY_FLAGS) (vin tx) 0 inputs [] = Accept m" ..
  have "\<not> CDiskTxPos_IsNull POS_MEMPOOL" by (simp add: CDiskTxPos_IsNull_def POS_MEMPOOL_def)
  from ConnectInputs_spend_verified [OF m this assms(2)] obtain ti t where
    t: "map_of inputs (out_hash (vin tx ! i)) = Some (ti, t)" "out_n (vin tx ! i) < length (ti_vSpent ti)"
      "CDiskTxPos_IsNull (ti_vSpent ti ! out_n (vin tx ! i))"
      "VerifySignature (mp_led env) t tx i (verify_flags (mp_led env) STANDARD_SCRIPT_VERIFY_FLAGS)" by auto
  have l: "FetchInputs_loop (pool_env env q) db [] False (vin tx) [] = Accept inputs"
    using f nb by (auto simp: FetchInputs_def split: verdict.splits bool.splits)
  have "found_tx env db q (out_hash (vin tx ! i)) = Some t \<and>
      (txdb_tx db (out_hash (vin tx ! i)) = Some ti \<or> txdb_tx db (out_hash (vin tx ! i)) = None)"
    by (rule FetchInputs_loop_found [OF l _ t(1)]) simp
  moreover have "out_key (prevout (vin tx ! i)) \<in> set (input_keys tx)" using assms(2) by (simp add: input_keys_def)
  moreover have "map_of (mapTx p') = (map_of (mapTx p))(GetHash (mp_tx env) tx \<mapsto> tx)"
    by (simp add: p' accept_store_def addFeeless_def addUnchecked_def Let_def q)
  ultimately show ?thesis
    using t VerifySignature_in_range [OF t(4)] accept_new_Accept(3) [OF new] q
    by (auto simp: found_tx_def unspent_def)
qed

section \<open>A small pool\<close>

text \<open>A payment and a transaction that spends its output; the interpreter leaves one item on the stack.\<close>

definition demo_mp :: mp_env where
  "demo_mp = \<lparr>mp_led = demo_le, mp_EvalScript = (\<lambda>s tx i. Some [[]])\<rparr>"

definition demo_child :: CTransaction where
  "demo_child = (demo_spend (replicate 3 \<lparr>nValue = 1000000, scriptPubKey = pay_key demo_key\<rparr>))
     \<lparr>vin := [\<lparr>prevout = \<lparr>op_hash = 95, op_n = 0\<rparr>, scriptSig = [], nSequence = 0\<rparr>]\<rparr>"

definition demo_pool1 :: CTxMemPool where "demo_pool1 = addUnchecked 95 demo_payment CTxMemPool_new"
definition demo_pool2 :: CTxMemPool where "demo_pool2 = addUnchecked 183 demo_child demo_pool1"

definition demo_rank :: "uint256 \<Rightarrow> nat" where "demo_rank h = (if h = 183 then 2 else if h = 95 then 1 else 0)"

abbreviation (input) demo_txs :: "CTransaction set" where "demo_txs \<equiv> {demo_payment, demo_child}"

lemma demo_tx_facts:
  "GetHash (mp_tx demo_mp) demo_payment = 95" "GetHash (mp_tx demo_mp) demo_child = 183"
  "input_keys demo_payment = [(139, 1)]" "input_keys demo_child = [(95, 0)]"
  "length (vin demo_payment) = 1" "length (vin demo_child) = 1" "length (vout demo_payment) = 1" "length (vout demo_child) = 3"
  by code_simp+

lemma demo_good: "good_txs (GetHash (mp_tx demo_mp)) demo_rank demo_txs"
  by (simp add: good_txs_def demo_tx_facts demo_rank_def)

lemma demo_accepts:
  "pool_accept demo_mp demo_db demo_queued demo_prev demo_chain demo_buf demo_payment True CTxMemPool_new = (Accept (), False, demo_pool1)"
  "pool_accept demo_mp demo_db demo_queued demo_prev demo_chain demo_buf demo_child True demo_pool1 = (Accept (), False, demo_pool2)"
  by code_simp+

lemma demo_pool_reach: "pool_reach (GetHash (mp_tx demo_mp)) demo_txs demo_pool2"
  by (rule pool_reach.accept [OF pool_reach.accept [OF pool_reach.start refl _ demo_accepts(1)] refl _ demo_accepts(2)]) simp_all

lemma demo_pool_txs: "map_of (mapTx demo_pool2) = [183 \<mapsto> demo_child, 95 \<mapsto> demo_payment]"
  by (simp add: demo_pool2_def demo_pool1_def addUnchecked_def CTxMemPool_new_def)

section \<open>Properties\<close>

text \<open>
  C11. In every reachable state of the memory pool each transaction is stored under its hash, the index of spent
  outputs holds exactly the outputs that the inputs of pooled transactions refer to, each entry pointing to that input,
  and no output is spent by two inputs.
\<close>

theorem pool_consistent:
  assumes "good_txs H rk T" "pool_reach H T p"
  shows "(\<forall>h t. map_of (mapTx p) h = Some t \<longrightarrow> H t = h) \<and>
    (\<forall>k ip. map_of (mapNextTx p) k = Some ip \<longleftrightarrow>
       (\<exists>t. map_of (mapTx p) (ip_ptx ip) = Some t \<and> unat (ip_n ip) < length (vin t) \<and>
            out_key (prevout (vin t ! unat (ip_n ip))) = k)) \<and>
    (\<forall>h t i h' t' j. map_of (mapTx p) h = Some t \<and> i < length (vin t) \<and> map_of (mapTx p) h' = Some t' \<and> j < length (vin t') \<and>
       prevout (vin t ! i) = prevout (vin t' ! j) \<longrightarrow> h = h' \<and> i = j)"
proof -
  have wf: "pool_wf H T p" by (rule pool_reach_wf [OF assms])
  have nth: "input_keys t ! n = out_key (prevout (vin t ! n))" if "n < length (vin t)" for t n
    using that by (simp add: input_keys_def)
  have "map_of (mapNextTx p) k = Some ip \<longleftrightarrow> (\<exists>t. map_of (mapTx p) (ip_ptx ip) = Some t \<and> unat (ip_n ip) < length (vin t) \<and>
            out_key (prevout (vin t ! unat (ip_n ip))) = k)" for k ip
    using nth by (subst pool_wf_next [OF wf]) (metis (lifting))
  moreover have "h = h' \<and> i = j" if "map_of (mapTx p) h = Some t" "i < length (vin t)" "map_of (mapTx p) h' = Some t'"
    "j < length (vin t')" "prevout (vin t ! i) = prevout (vin t' ! j)" for h t i h' t' j
    using pool_wf_spent_once [OF wf assms(1) that(1-4)] that nth by metis
  ultimately show ?thesis using pool_wf_tx [OF wf] by blast
qed

theorem pool_consistent_witness:
  "map_of (mapNextTx demo_pool2) (95, 0) = Some \<lparr>ip_ptx = 183, ip_n = 0\<rparr> \<and>
   (\<exists>t. map_of (mapTx demo_pool2) 183 = Some t \<and> GetHash (mp_tx demo_mp) t = 183)"
proof -
  let ?ip = "\<lparr>ip_ptx = 183, ip_n = 0\<rparr>"
  have "\<exists>t. map_of (mapTx demo_pool2) (ip_ptx ?ip) = Some t \<and> unat (ip_n ?ip) < length (vin t) \<and>
      out_key (prevout (vin t ! unat (ip_n ?ip))) = (95, 0)"
    by (simp add: demo_pool_txs demo_child_def)
  moreover have "map_of (mapTx demo_pool2) 183 = Some demo_child" by (simp add: demo_pool_txs)
  ultimately show ?thesis using pool_consistent [OF demo_good demo_pool_reach] by blast
qed

text \<open>
  C12. Recursive removal returns for every transaction and every reachable pool, and takes away exactly the transaction
  and the pooled transactions that depend on it through any chain of spent outputs. The recursion is
  never deeper than the number of pooled transactions, and it follows no dangling pointer.
\<close>

theorem remove_takes_dependents:
  assumes "good_txs (GetHash env) rk T" "pool_reach (GetHash env) T p" "tx \<in> T"
  shows "\<exists>p'. pool_remove env tx True p = Some p' \<and>
    map_of (mapTx p') = map_of (mapTx p) |` (- dependents (map_of (mapTx p)) {GetHash env tx})"
  using pool_remove_removes [OF assms(1) pool_reach_wf [OF assms(1,2)] assms(3)] by (auto simp: removes_def)

theorem remove_takes_dependents_witness:
  "\<exists>p'. pool_remove (mp_tx demo_mp) demo_payment True demo_pool2 = Some p' \<and> map_of (mapTx p') 183 = None"
proof -
  have "(0::u32) \<in> {n. unat n < length (vout demo_payment)}" by (simp add: demo_tx_facts)
  then have "(95, 183) \<in> depends (map_of (mapTx demo_pool2))"
    by (auto simp: depends_def spenders_def demo_pool_txs demo_tx_facts)
  then have "183 \<in> dependents (map_of (mapTx demo_pool2)) {95}" by (auto simp: dependents_def)
  with remove_takes_dependents [OF demo_good demo_pool_reach, of demo_payment] show ?thesis
    by (auto simp: demo_tx_facts)
qed

text \<open>
  C13. If the pool accepts a transaction with checked inputs, then every input refers to an output of a transaction
  that is in the data base or in the pool; the output is not marked as spent in the data base, no pooled transaction
  spends it, and the script interpreter has accepted the input for it; the pool then holds the transaction.
\<close>

theorem accepted_inputs_authorised:
  assumes "pool_accept env db r pindexBest pchain buffer tx True p = (Accept (), fMissing, p')" "i < length (vin tx)"
  shows "\<exists>t. found_tx env db p (out_hash (vin tx ! i)) = Some t \<and> out_n (vin tx ! i) < length (vout t) \<and>
    (unspent (txdb_tx db) (vin tx ! i) \<or> txdb_tx db (out_hash (vin tx ! i)) = None) \<and>
    map_of (mapNextTx p) (out_key (prevout (vin tx ! i))) = None \<and>
    VerifySignature (mp_led env) t tx i (verify_flags (mp_led env) STANDARD_SCRIPT_VERIFY_FLAGS) \<and>
    map_of (mapTx p') = (map_of (mapTx p))(GetHash (mp_tx env) tx \<mapsto> tx)"
  by (rule accepted_input [OF assms])

theorem accepted_inputs_authorised_witness:
  "\<exists>t. found_tx demo_mp demo_db demo_pool1 (out_hash (vin demo_child ! 0)) = Some t \<and>
     VerifySignature (mp_led demo_mp) t demo_child 0 (verify_flags (mp_led demo_mp) STANDARD_SCRIPT_VERIFY_FLAGS)"
  using accepted_inputs_authorised [OF demo_accepts(2), of 0] by (auto simp: demo_tx_facts)

end
