(* ===== verification/InterpProps.thy ===== *)
theory InterpProps
  imports Interp "HOL-Library.Sublist"
begin

text \<open>
  What the script interpreter guarantees: its numbers are read back as they were written, its stacks stay within the limits,
  a payment to the hash of a key is spent with a signature of that key only, the outputs that carry registry
  operations are never spent, a signature from the cache is a valid one, and a multi-signature output asks for
  signatures of different keys.
\<close>

section \<open>Numbers\<close>

lemma vch_magnitude_append: "vch_magnitude (xs @ ys) = vch_magnitude xs + 256 ^ length xs * vch_magnitude ys"
  by (induction xs) (simp_all add: algebra_simps)

lemma vch_magnitude_inverse: "vch_magnitude (magnitude_vch n) = int n"
proof (induction n rule: magnitude_vch.induct)
  case (1 n)
  show ?case
  proof (cases "n = 0")
    case False
    have "uint (of_nat (n mod 256) :: u8) = int (n mod 256)" by (simp add: unsigned_of_nat take_bit_nat_eq_self flip: of_nat_mod)
    with 1 False show ?thesis by (subst magnitude_vch.simps) (simp add: zmod_int zdiv_int)
  qed (simp add: magnitude_vch.simps)
qed

lemma magnitude_vch_Nil: "magnitude_vch n = [] \<longleftrightarrow> n = 0"
  by (subst magnitude_vch.simps) simp

lemma byte_split: "b AND 0x80 = 0 \<Longrightarrow> b AND 0x7f = b" "(b OR 0x80) AND 0x80 \<noteq> 0"
  "b AND 0x80 = 0 \<Longrightarrow> (b OR 0x80) AND 0x7f = b" for b :: u8
proof -
  have "(0x7f OR 0x80 :: u8) = - 1" by code_simp
  then have all: "b AND 0x7f OR b AND 0x80 = b" for b :: u8
    by (metis and.right_neutral bit.conj_disj_distrib)
  then show "b AND 0x80 = 0 \<Longrightarrow> b AND 0x7f = b" by (metis or.right_neutral)
  then show "b AND 0x80 = 0 \<Longrightarrow> (b OR 0x80) AND 0x7f = b" by (simp add: bit.conj_disj_distrib2)
  show "(b OR 0x80) AND 0x80 \<noteq> 0" by (simp add: bit.conj_disj_distrib2)
qed

lemma setvch_getvch: "setvch (getvch n) = n"
proof -
  let ?m = "magnitude_vch (nat \<bar>n\<bar>)"
  have m: "vch_magnitude ?m = \<bar>n\<bar>" by (simp add: vch_magnitude_inverse)
  show ?thesis
  proof (cases "?m = []")
    case True
    then show ?thesis by (simp add: getvch_def setvch_def magnitude_vch_Nil)
  next
    case False
    then have "vch_magnitude (butlast ?m) + 256 ^ (length ?m - 1) * uint (last ?m) = \<bar>n\<bar>"
      using m vch_magnitude_append [of "butlast ?m" "[last ?m]"] by simp
    with False m show ?thesis
      by (auto simp: getvch_def setvch_def Let_def vch_magnitude_append byte_split)
  qed
qed

lemma CastToBigNum_iff: "CastToBigNum v k = Some n \<longleftrightarrow> length v \<le> k \<and> setvch v = n"
  by (auto simp: CastToBigNum_def setvch_getvch)

lemma vch_magnitude_nonneg: "0 \<le> vch_magnitude v"
  by (induction v) simp_all

lemma magnitude_and: "vch_magnitude (v @ [b AND 0x7f]) = 0 \<longleftrightarrow> list_all (\<lambda>c. c = 0) v \<and> b AND 0x7f = 0"
proof (induction v)
  case Nil
  have "uint (b AND 0x7f) = 0 \<longleftrightarrow> b AND 0x7f = 0" by (rule unsigned_eq_0_iff)
  then show ?case by simp
next
  case (Cons c v)
  have "uint c = 0 \<longleftrightarrow> c = 0" by (rule unsigned_eq_0_iff)
  with Cons vch_magnitude_nonneg [of "v @ [b AND 0x7f]"] show ?case by (auto simp: add_nonneg_eq_0_iff)
qed

lemma byte_zero: "b AND 0x7f = 0 \<longleftrightarrow> b = 0 \<or> b = 0x80" for b :: u8
proof -
  have "b AND 0x7f = take_bit 7 b" by (simp add: take_bit_eq_mask mask_eq_exp_minus_1)
  then have "b AND 0x7f = 0 \<longleftrightarrow> unat b mod 128 = 0" by (simp add: word_unat_eq_iff unsigned_take_bit_eq take_bit_eq_mod unat_mod_distrib)
  moreover have "unat b < 256" using unat_bound_word [of b] by simp
  ultimately have "b AND 0x7f = 0 \<longleftrightarrow> unat b = 0 \<or> unat b = 128" by auto
  then show ?thesis by (simp add: word_unat_eq_iff)
qed

lemma CastToBool_iff: "CastToBool v \<longleftrightarrow> setvch v \<noteq> 0"
proof -
  have "CastToBool (v @ [b]) \<longleftrightarrow> \<not> (list_all (\<lambda>c. c = 0) v \<and> (b = 0 \<or> b = 0x80))" for v b
    by (induction v) auto
  then show ?thesis
    by (cases v rule: rev_cases) (auto simp: setvch_def Let_def magnitude_and byte_zero)
qed

section \<open>Running scripts\<close>

lemma eval_loop_Nil [simp]: "eval_loop env x [] s = Some s"
  by (simp add: eval_loop.simps)

lemma eval_loop_op:
  assumes "OP_PUSHDATA4 < opc"
  shows "eval_loop env x (opc # pc) s = (case eval_step env x opc [] pc s of None \<Rightarrow> None | Some s \<Rightarrow> eval_loop env x pc s)"
proof -
  have "GetOp2 (opc # pc) False = (True, opc, [], pc)" using assms by (simp add: GetOp2_plain)
  then show ?thesis by (subst eval_loop.simps) simp
qed

lemma hd_push_le: "hd (push_data b) \<le> OP_PUSHDATA4"
proof -
  have "(of_nat (length b) :: u8) \<le> 0x4e" if "length b < 76"
    using that by (simp add: word_le_nat_alt unat_of_nat_small)
  then show ?thesis by (simp add: push_data_def)
qed

lemma push_data_not_Nil [simp]: "push_data b \<noteq> []"
  by (auto simp: push_data_def)

lemma not_disabled_push: "opc \<le> OP_PUSHDATA4 \<Longrightarrow> \<not> disabled_op opc"
  by (auto simp: disabled_op_def)

lemma eval_loop_push:
  assumes "length b + length r < 2 ^ 32"
  shows "eval_loop env x (push_data b @ r) s =
    (if length b > MAX_SCRIPT_ELEMENT_SIZE then None
     else if \<not> list_all id (ss_vfExec s) then if length (ss_stack s) + length (ss_alt s) > 1000 then None else eval_loop env x r s
     else if length (ss_stack s) + length (ss_alt s) \<ge> 1000 then None
     else eval_loop env x r (s\<lparr>ss_stack := b # ss_stack s\<rparr>))"
proof -
  let ?o = "hd (push_data b)"
  have o: "?o \<le> 0x4e" by (rule hd_push_le)
  then have "\<not> 0x60 < ?o" "\<not> 0x63 \<le> ?o" by (auto simp: word_le_nat_alt word_less_nat_alt)
  with o not_disabled_push [OF o] show ?thesis
    by (subst eval_loop.simps) (simp add: GetOp2_push_data [OF assms] eval_step_def Let_def)
qed

section \<open>Payments to the hash of a key\<close>

text \<open>When a signature counts for a key.\<close>

definition sig_counts :: "scr_env \<Rightarrow> scr_ctx \<Rightarrow> valtype \<Rightarrow> valtype \<Rightarrow> valtype \<Rightarrow> bool" where
  "sig_counts env x scriptCode vchSig vchPubKey \<longleftrightarrow>
     CheckSignatureEncoding (se_tx env) vchSig (sx_flags x) \<and> CheckPubKeyEncoding vchPubKey \<and>
     CheckSig env vchSig vchPubKey scriptCode (sx_txTo x) (sx_nIn x) (sx_nHashType x)"

lemma op_checksig_true:
  "op_checksig env x code OP_CHECKSIG stack = Some (v # r) \<and> CastToBool v \<longleftrightarrow>
   (\<exists>key sig. stack = key # sig # r \<and> v = vchTrue \<and> sig_counts env x (FindAndDelete code (push_data sig)) sig key)"
  by (auto simp: op_checksig_def sig_counts_def Let_def vchTrue_def vchFalse_def split: list.splits if_splits)

lemma op_checksig_Cons: "op_checksig env x code OP_CHECKSIG stack = Some st \<Longrightarrow> \<exists>v a b r. stack = a # b # r \<and> st = v # r"
  by (auto simp: op_checksig_def Let_def split: list.splits if_splits)

lemma eval_p2pkh:
  assumes "length h = 20"
  shows "eval_loop env x (p2pkh h) \<lparr>ss_stack = st, ss_alt = [], ss_vfExec = [], ss_nOpCount = 0, ss_code = c\<rparr> =
    (case st of
       key # r \<Rightarrow>
         if length st \<le> 998 \<and> se_Hash160 env key = h
         then map_option (\<lambda>st'. \<lparr>ss_stack = st', ss_alt = [], ss_vfExec = [], ss_nOpCount = 4, ss_code = c\<rparr>)
                (op_checksig env x c OP_CHECKSIG st)
         else None
     | [] \<Rightarrow> None)"
proof -
  have ops: "(0x4e::u8) < 0x76" "(0x4e::u8) < 0xa9" "(0x4e::u8) < 0x88" "(0x4e::u8) < 0xac" by simp_all
  have len: "length h + length [0x88, 0xac::u8] < 2 ^ 32" using assms by simp
  have d: "disabled_op 0x76 = False" "disabled_op 0xa9 = False" "disabled_op 0x88 = False" "disabled_op 0xac = False"
    by (simp_all add: disabled_op_def)
  show ?thesis
  proof (cases st)
    case Nil
    then show ?thesis
      by (simp add: p2pkh_def eval_loop_op ops eval_step_def eval_op_def d)
  next
    case (Cons key r)
    have "op_checksig env x c OP_CHECKSIG st = Some st' \<Longrightarrow> length st' \<le> length st" for st'
      by (auto dest: op_checksig_Cons)
    then show ?thesis
      using eval_loop_push [OF len, of env x] assms
      by (auto simp: p2pkh_def eval_loop_op ops eval_step_def eval_op_def d Cons op_crypto_hash_def op_hash_of_def op_equal_def
          split: option.splits)
  qed
qed

abbreviation (input) ctx_of :: "CTransaction \<Rightarrow> nat \<Rightarrow> u32 \<Rightarrow> int \<Rightarrow> scr_ctx" where
  "ctx_of tx nIn flags nHashType \<equiv> \<lparr>sx_txTo = tx, sx_nIn = nIn, sx_flags = flags, sx_nHashType = nHashType\<rparr>"

lemma EvalScript_p2pkh:
  assumes "length h = 20"
  shows "EvalScript env st (p2pkh h) tx nIn flags nHashType =
    (case st of
       key # r \<Rightarrow> if length st \<le> 998 \<and> se_Hash160 env key = h
                 then op_checksig env (ctx_of tx nIn flags nHashType) (p2pkh h) OP_CHECKSIG st else None
     | [] \<Rightarrow> None)"
proof -
  have "length (p2pkh h) \<le> 10000" using assms by (simp add: p2pkh_def push_data_def)
  then show ?thesis
    by (auto simp: EvalScript_def eval_p2pkh [OF assms] split: list.splits option.splits)
qed

lemma EvalScript_p2pkh_Some:
  assumes "length h = 20"
  shows "EvalScript env st (p2pkh h) tx nIn flags nHashType = Some st' \<longleftrightarrow>
    st \<noteq> [] \<and> length st \<le> 998 \<and> se_Hash160 env (hd st) = h \<and>
    op_checksig env (ctx_of tx nIn flags nHashType) (p2pkh h) OP_CHECKSIG st = Some st'"
  by (cases st) (auto simp: EvalScript_p2pkh [OF assms])

lemma VerifyScript_p2pkh:
  assumes "length h = 20"
  shows "VerifyScript env sigScript (p2pkh h) tx nIn flags nHashType \<longleftrightarrow>
    (\<exists>key sig r. EvalScript env [] sigScript tx nIn flags nHashType = Some (key # sig # r) \<and> length r \<le> 996 \<and>
       se_Hash160 env key = h \<and> sig_counts env (ctx_of tx nIn flags nHashType) (FindAndDelete (p2pkh h) (push_data sig)) sig key)"
    (is "_ \<longleftrightarrow> ?R")
proof -
  let ?x = "ctx_of tx nIn flags nHashType"
  have "\<not> IsPayToScriptHash (p2pkh h)" by (simp add: IsPayToScriptHash_def p2pkh_def)
  then have "VerifyScript env sigScript (p2pkh h) tx nIn flags nHashType \<longleftrightarrow>
    (\<exists>st v r. EvalScript env [] sigScript tx nIn flags nHashType = Some st \<and>
       EvalScript env st (p2pkh h) tx nIn flags nHashType = Some (v # r) \<and> CastToBool v)"
    by (auto simp: VerifyScript_def neq_Nil_conv split: option.splits)
  also have "\<dots> \<longleftrightarrow> (\<exists>st v r. EvalScript env [] sigScript tx nIn flags nHashType = Some st \<and> st \<noteq> [] \<and> length st \<le> 998 \<and>
       se_Hash160 env (hd st) = h \<and> (\<exists>key sig. st = key # sig # r \<and> v = vchTrue \<and>
         sig_counts env ?x (FindAndDelete (p2pkh h) (push_data sig)) sig key))"
    by (simp only: EvalScript_p2pkh_Some [OF assms] conj_assoc op_checksig_true)
  also have "\<dots> \<longleftrightarrow> ?R" by fastforce
  finally show ?thesis .
qed

text \<open>The input script that a wallet writes leaves the key above the signature.\<close>

lemma EvalScript_sig_key:
  assumes "length sig \<le> 520" "length key \<le> 520"
  shows "EvalScript env [] (push_data sig @ push_data key) tx nIn flags nHashType = Some [key, sig]"
proof -
  have len: "length (push_data b) \<le> length b + 5" for b by (simp add: push_data_def)
  have "length (push_data sig @ push_data key) \<le> 10000" using assms len [of sig] len [of key] by simp
  moreover have "length sig + length (push_data key) < 2 ^ 32" "length key + length ([]::valtype) < 2 ^ 32"
    using assms len [of key] by auto
  ultimately show ?thesis
    using assms eval_loop_push [of sig "push_data key"] eval_loop_push [of key "[]"] by (simp add: EvalScript_def)
qed

section \<open>Outputs that cannot be spent\<close>

lemma eval_op_None:
  assumes "payload_op t = Some opc"
  shows "OP_PUSHDATA4 < opc" "eval_step env x opc [] [] \<lparr>ss_stack = st, ss_alt = [], ss_vfExec = [], ss_nOpCount = 0, ss_code = c\<rparr> = None"
  using assms by (cases t; simp add: payload_op_def eval_step_def eval_op_def disabled_op_def)+

lemma EvalScript_payload:
  assumes "payload_op t = Some opc"
  shows "EvalScript env st (push_data d @ [opc]) tx nIn flags nHashType = None"
proof (cases "length (push_data d @ [opc]) > 10000")
  case False
  then have "length d + length [opc] < 2 ^ 32" by (auto simp: push_data_def split: if_splits)
  with False show ?thesis
    using eval_loop_push [of d "[opc]"] by (simp add: EvalScript_def eval_loop_op eval_op_None [OF assms])
qed (simp add: EvalScript_def)

section \<open>Several signatures\<close>

text \<open>
  A check of several signatures succeeds exactly if the signatures count for different keys, in the same
  order; it may fail outright when an encoding is bad.
\<close>

lemma multisig_subseq:
  "length sigs \<le> length keys \<Longrightarrow> multisig_loop env x c sigs keys = Some f \<Longrightarrow>
   f \<longleftrightarrow> (\<exists>ks. subseq ks keys \<and> list_all2 (sig_counts env x c) sigs ks)"
proof (induction env x c sigs keys arbitrary: f rule: multisig_loop.induct)
  case (1 env x c keys)
  then show ?case by auto
next
  case (3 env x c s sigs k keys)
  let ?P = "sig_counts env x c"
  have first: "(\<exists>ks. subseq ks (k # keys) \<and> list_all2 ?P (s # sigs) ks) \<longleftrightarrow>
      (if ?P s k then \<exists>ks. subseq ks keys \<and> list_all2 ?P sigs ks else \<exists>ks. subseq ks keys \<and> list_all2 ?P (s # sigs) ks)"
    (is "?L \<longleftrightarrow> ?R")
  proof
    assume ?L
    then obtain a ks where a: "subseq (a # ks) (k # keys)" "?P s a" "list_all2 ?P sigs ks" by (auto simp: list_all2_Cons1)
    show ?R
    proof (cases "a = k")
      case True
      with a show ?thesis by (auto dest: subseq_Cons')
    next
      case False
      with a(1) have "subseq (a # ks) keys" by simp
      with a(2,3) show ?thesis by (auto simp: list_all2_Cons1 dest: subseq_Cons')
    qed
  next
    assume ?R
    then show ?L by (auto simp: list_all2_Cons1 split: if_splits intro: exI [of _ "k # _"])
  qed
  have long: "\<not> (\<exists>ks. subseq ks keys \<and> list_all2 ?P ss ks)" if "length ss > length keys" for ss
    using that by (auto dest!: list_all2_lengthD list_emb_length)
  have P: "?P s k \<longleftrightarrow> CheckSignatureEncoding (se_tx env) s (sx_flags x) \<and> CheckPubKeyEncoding k \<and>
      CheckSig env s k c (sx_txTo x) (sx_nIn x) (sx_nHashType x)" by (simp add: sig_counts_def)
  from 3 long [of sigs] long [of "s # sigs"] show ?case
    unfolding first by (auto simp: P Let_def split: if_split_asm)
qed simp

section \<open>The cache of valid signatures\<close>

definition cache_valid :: "scr_env \<Rightarrow> sigdata_type list \<Rightarrow> bool" where
  "cache_valid env setValid \<longleftrightarrow> (\<forall>(h, sig, key) \<in> set setValid. se_SetPubKey env key \<and> se_Verify env key h sig)"

lemma set_evict: "set (evict n rnd k c) \<subseteq> set c"
  by (induction n rnd k c rule: evict.induct) (auto simp: evict_one_def Let_def)

lemma length_evict_one: "c \<noteq> [] \<Longrightarrow> length (evict_one h c) < length c"
proof -
  assume c: "c \<noteq> []"
  let ?k = "case filter (\<lambda>k. (h, [], []) \<le> k) c of [] \<Rightarrow> hd c | it # _ \<Rightarrow> it"
  have "it \<in> set c" if "filter (\<lambda>k. (h, [], []) \<le> k) c = it # r" for it r
  proof -
    have "it \<in> set (filter (\<lambda>k. (h, [], []) \<le> k) c)" unfolding that by simp
    then show ?thesis by simp
  qed
  then have "?k \<in> set c" using c by (auto split: list.splits)
  then show ?thesis by (simp add: evict_one_def Let_def length_removeAll_less)
qed

lemma length_evict: "0 \<le> n \<Longrightarrow> int (length c) \<le> int k + n \<Longrightarrow> int (length (evict n rnd k c)) \<le> n"
proof (induction k arbitrary: c)
  case (Suc k)
  show ?case
  proof (cases "int (length c) > n")
    case True
    then have "length (evict_one (rnd k) c) < length c" using Suc.prems(1) by (intro length_evict_one) auto
    with True Suc show ?thesis by simp
  qed simp
qed simp

lemma CheckSig_cached_spec:
  assumes "cache_valid env c" "CheckSig_cached env n rnd c vchSig vchPubKey scriptCode txTo nIn nHashType = (f, c')"
  shows "f = CheckSig env vchSig vchPubKey scriptCode txTo nIn nHashType" "cache_valid env c'"
    "int (length c) \<le> n + 1 \<Longrightarrow> int (length c') \<le> max 1 (n + 1)"
proof -
  have set: "set (SignatureCache_Set n rnd k c) \<subseteq> insert k (set c)" for k
    using set_evict [of n rnd "length c" c] by (auto simp: SignatureCache_Set_def set_insort_insert)
  have len: "int (length (SignatureCache_Set n rnd k c)) \<le> max 1 (n + 1)" if "int (length c) \<le> n + 1" for k
    using that length_evict [of n c "length c" rnd] by (auto simp: SignatureCache_Set_def insort_insert_key_def)
  show "f = CheckSig env vchSig vchPubKey scriptCode txTo nIn nHashType"
    using assms by (auto simp: CheckSig_cached_def CheckSig_def cache_valid_def Let_def split: option.splits if_splits)
  show "cache_valid env c'"
    using assms set by (fastforce simp: CheckSig_cached_def cache_valid_def Let_def split: option.splits if_splits)
  show "int (length c') \<le> max 1 (n + 1)" if "int (length c) \<le> n + 1"
    using assms(2) that len [OF that] by (auto simp: CheckSig_cached_def Let_def split: option.splits if_splits)
qed

section \<open>Limits\<close>

abbreviation (input) fits :: "valtype list \<Rightarrow> bool" where
  "fits st \<equiv> list_all (\<lambda>v. length v \<le> MAX_SCRIPT_ELEMENT_SIZE) st"

definition hash_sizes :: "scr_env \<Rightarrow> bool" where
  "hash_sizes env \<longleftrightarrow> (\<forall>v. length (se_RIPEMD160 env v) = 20 \<and> length (se_SHA1 env v) = 20 \<and> length (se_SHA256 env v) = 32 \<and>
     length (se_Hash160 env v) = 20)"

lemma length_magnitude: "n < 256 ^ k \<Longrightarrow> length (magnitude_vch n) \<le> k"
proof (induction k arbitrary: n)
  case (Suc k)
  then have "n div 256 < 256 ^ k" by (simp add: div_less_iff_less_mult mult.commute)
  with Suc.IH show ?case by (subst magnitude_vch.simps) simp
qed (simp add: magnitude_vch.simps)

lemma length_getvch: "\<bar>n\<bar> < 256 ^ k \<Longrightarrow> length (getvch n) \<le> k + 1"
proof -
  assume "\<bar>n\<bar> < 256 ^ k"
  then have "int (nat \<bar>n\<bar>) < int (256 ^ k)" by simp
  then have "nat \<bar>n\<bar> < 256 ^ k" by (simp only: of_nat_less_iff)
  from length_magnitude [OF this] show ?thesis by (auto simp: getvch_def Let_def)
qed

lemma vch_magnitude_less: "vch_magnitude v < 256 ^ length v"
proof (induction v)
  case (Cons b v)
  have "uint b < 256" using uint_bounded [of b] by simp
  with Cons show ?case by simp
qed simp

lemma setvch_bound: "length v \<le> 4 \<Longrightarrow> \<bar>setvch v\<bar> < 256 ^ 4"
proof -
  assume v: "length v \<le> 4"
  have "vch_magnitude (butlast v @ [last v AND 0x7f]) < 256 ^ length (butlast v @ [last v AND 0x7f])"
    by (rule vch_magnitude_less)
  also have "v \<noteq> [] \<Longrightarrow> \<dots> \<le> 256 ^ 4" using v by (intro power_increasing) auto
  finally show ?thesis
    using vch_magnitude_nonneg [of "butlast v @ [last v AND 0x7f]"] by (auto simp: setvch_def Let_def)
qed

lemma length_getvch_num: "\<bar>n\<bar> < 256 ^ 5 \<Longrightarrow> length (getvch n) \<le> MAX_SCRIPT_ELEMENT_SIZE"
  using length_getvch [of n 5] by simp

lemma getint_bound: "length v \<le> 4 \<Longrightarrow> \<bar>getint (setvch v)\<bar> < 256 ^ 4"
  using setvch_bound [of v] by (auto simp: getint_def)

lemma fits_pick:
  assumes "op_pick opc st = Some st'" "fits st"
  shows "fits st'"
proof -
  let ?r = "tl st"
  obtain bn where b: "0 \<le> getint bn" "getint bn < int (length ?r)"
    "st' = ?r ! nat (getint bn) # (if opc = OP_ROLL then take (nat (getint bn)) ?r @ drop (nat (getint bn) + 1) ?r else ?r)"
    using assms(1) by (fastforce simp: op_pick_def Let_def not_le not_less split: if_split_asm option.splits)
  define n where "n = nat (getint bn)"
  have n: "n < length ?r" "st' = ?r ! n # (if opc = OP_ROLL then take n ?r @ drop (n + 1) ?r else ?r)"
    using b by (auto simp: n_def nat_less_iff)
  have r: "fits ?r" using assms(2) by (cases st) simp_all
  then have "length (?r ! n) \<le> 520" using nth_mem [OF n(1)] by (simp add: list_all_iff)
  with n(2) r show ?thesis by (auto simp: list_all_iff dest: in_set_takeD in_set_dropD)
qed

lemma fits_stack: "op_stack opc st = Some st' \<Longrightarrow> fits st \<Longrightarrow> length st \<le> 1000 \<Longrightarrow> fits st'"
proof -
  assume a: "op_stack opc st = Some st'" and f: "fits st" "length st \<le> 1000"
  have n: "length (getvch (int k)) \<le> 520" if "k \<le> 1000" for k using that by (intro length_getvch_num) simp
  show "fits st'"
    using a f n fits_pick [of opc st st']
    by (auto split: if_split_asm list.split_asm)
qed

lemma num2_bound: "\<bar>a\<bar> < 256 ^ 4 \<Longrightarrow> \<bar>b\<bar> < 256 ^ 4 \<Longrightarrow> \<bar>num2 opc a b\<bar> < 256 ^ 5"
  by (auto simp: num2_def)

lemma fits_num:
  "op_num1 opc st = Some st' \<Longrightarrow> fits st \<Longrightarrow> fits st'" "op_num2 opc st = Some st' \<Longrightarrow> fits st \<Longrightarrow> fits st'"
  "op_within st = Some st' \<Longrightarrow> fits st \<Longrightarrow> fits st'"
proof -
  show "fits st'" if "op_num1 opc st = Some st'" "fits st"
    using that setvch_bound
    by (auto simp: op_num1_def CastToBigNum_iff split: list.splits option.splits intro!: length_getvch_num) (smt (verit))+
  show "fits st'" if "op_num2 opc st = Some st'" "fits st"
    using that setvch_bound
    by (auto simp: op_num2_def CastToBigNum_iff Let_def split: list.splits option.splits if_splits
        intro!: length_getvch_num num2_bound)
  show "fits st'" if "op_within st = Some st'" "fits st"
    using that by (auto simp: op_within_def vchTrue_def vchFalse_def split: list.splits option.splits)
qed

lemma fits_hash: "op_crypto_hash env opc st = Some st' \<Longrightarrow> hash_sizes env \<Longrightarrow> fits st \<Longrightarrow> fits st'"
  by (auto simp: op_crypto_hash_def op_hash_of_def hash_sizes_def split: list.splits)

lemma fits_checks:
  "op_checksig env x c opc st = Some st' \<Longrightarrow> fits st \<Longrightarrow> fits st'"
  "op_checkmultisig env x c n opc st = Some (st', n') \<Longrightarrow> fits st \<Longrightarrow> fits st' \<and> n' \<le> 201"
  "op_equal opc st = Some st' \<Longrightarrow> fits st \<Longrightarrow> fits st'"
proof -
  show "fits st'" if "op_checksig env x c opc st = Some st'" "fits st"
    using that by (auto simp: op_checksig_def Let_def vchTrue_def vchFalse_def split: list.splits if_splits)
  show "fits st'" if "op_equal opc st = Some st'" "fits st"
    using that by (auto simp: op_equal_def Let_def vchTrue_def vchFalse_def split: list.splits if_splits)
  show "fits st' \<and> n' \<le> 201" if "op_checkmultisig env x c n opc st = Some (st', n')" "fits st"
  proof -
    have "fits (tl (drop k st))" for k
      using that(2) in_set_dropD [of _ "Suc k" st] by (auto simp: list_all_iff drop_Suc tl_drop)
    then show ?thesis
      using that(1)
      by (auto simp: op_checkmultisig_def Let_def vchTrue_def vchFalse_def split: option.splits if_split_asm)
  qed
qed

lemma if_cases: "(if b then x else y) = z \<Longrightarrow> (x = z \<Longrightarrow> P) \<Longrightarrow> (y = z \<Longrightarrow> P) \<Longrightarrow> P"
  by (simp split: if_splits)

lemma eval_op_fits:
  assumes "eval_op env x opc fExec pc s = Some s'" "hash_sizes env" "fits (ss_stack s @ ss_alt s)"
    "length (ss_stack s) \<le> 1000" "ss_nOpCount s \<le> 201"
  shows "fits (ss_stack s' @ ss_alt s') \<and> ss_nOpCount s' \<le> 201"
proof -
  have "0 \<le> uint opc" "uint opc < 256" using uint_bounded [of opc] by simp_all
  then have "\<bar>uint opc - 0x50\<bar> < 1099511627776" by linarith
  then have n: "length (getvch (uint opc - 0x50)) \<le> 520" by (intro length_getvch_num) simp
  have lock: "op_locktime x st = Some st' \<Longrightarrow> st' = st" for st st'
    by (auto simp: op_locktime_def split: if_splits list.splits option.splits)
  have claim: "op_claim st = Some st' \<Longrightarrow> st' = tl st" for st st' by (auto simp: op_claim_def split: if_splits)
  have tl: "fits st \<Longrightarrow> fits (tl st)" for st by (cases st) simp_all
  show ?thesis
    using assms(1) unfolding eval_op_def Let_def op_if_def
    by (elim if_cases)
      (use assms(2-5) n in \<open>auto split: list.split_asm if_split_asm simp del: op_stack.simps dest!: lock claim intro: tl
        dest: fits_stack fits_num fits_hash fits_checks\<close>)
qed

text \<open>The state of a running script within the limits.\<close>

definition within_limits :: "scr_state \<Rightarrow> bool" where
  "within_limits s \<longleftrightarrow> length (ss_stack s) + length (ss_alt s) \<le> 1000 \<and> fits (ss_stack s @ ss_alt s) \<and> ss_nOpCount s \<le> 201"

lemma eval_step_limits:
  assumes "eval_step env x opc v pc s = Some s'" "hash_sizes env" "within_limits s"
  shows "within_limits s'"
proof -
  define t where "t = (if opc > OP_16 then s\<lparr>ss_nOpCount := ss_nOpCount s + 1\<rparr> else s)"
  have t: "fits (ss_stack t @ ss_alt t)" "length (ss_stack t) \<le> 1000" "ss_nOpCount t \<le> 201" "length v \<le> 520"
    using assms by (auto simp: eval_step_def Let_def within_limits_def t_def split: if_split_asm)
  have c: "(if list_all id (ss_vfExec s) \<and> opc \<le> OP_PUSHDATA4 then Some (t\<lparr>ss_stack := v # ss_stack t\<rparr>)
      else if list_all id (ss_vfExec s) \<or> OP_IF \<le> opc \<and> opc \<le> OP_ENDIF then eval_op env x opc (list_all id (ss_vfExec s)) pc t
      else Some t) = Some s'" and n: "length (ss_stack s') + length (ss_alt s') \<le> 1000"
    using assms(1) unfolding eval_step_def Let_def t_def [symmetric] by (auto split: if_split_asm option.splits)
  have "fits (ss_stack s' @ ss_alt s') \<and> ss_nOpCount s' \<le> 201"
    using c t eval_op_fits [OF _ assms(2) t(1-3)] by (auto split: if_split_asm)
  with n show ?thesis by (simp add: within_limits_def)
qed

lemma eval_loop_limits:
  "eval_loop env x pc s = Some s' \<Longrightarrow> hash_sizes env \<Longrightarrow> within_limits s \<Longrightarrow> within_limits s'"
proof (induction env x pc s rule: eval_loop.induct)
  case (1 env x pc s)
  show ?case
  proof (cases "pc = []")
    case False
    with 1(2) obtain opc v pc' s1 where g: "GetOp2 pc False = (True, opc, v, pc')" and s1: "eval_step env x opc v pc' s = Some s1"
      and l: "eval_loop env x pc' s1 = Some s'"
      by (auto simp: eval_loop.simps [of env x pc] split: if_split_asm option.split_asm prod.splits)
    show ?thesis
      by (rule "1.IH" [OF False g [symmetric] refl refl _ s1 l 1(3) eval_step_limits [OF s1 1(3,4)]]) simp_all
  qed (use 1 in simp)
qed

section \<open>A small interpreter\<close>

text \<open>All hashes of one kind are equal, and keys accept every signature.\<close>

definition demo_scr :: scr_env where
  "demo_scr = \<lparr>se_tx = demo_tx_env, se_RIPEMD160 = (\<lambda>_. replicate 20 5), se_SHA1 = (\<lambda>_. replicate 20 6),
     se_SHA256 = (\<lambda>_. replicate 32 7), se_Hash160 = (\<lambda>_. replicate 20 8), se_SetPubKey = (\<lambda>_. True), se_Verify = (\<lambda>_ _ _. True)\<rparr>"

definition demo_sig :: valtype where "demo_sig = [0x30, 6, 2, 1, 1, 2, 1, 1, 1]"
definition demo_pub :: valtype where "demo_pub = 2 # replicate 32 9"

abbreviation (input) demo_flags :: u32 where "demo_flags \<equiv> STANDARD_SCRIPT_VERIFY_FLAGS"
abbreviation (input) demo_ctx :: scr_ctx where "demo_ctx \<equiv> ctx_of (demo_spend []) 0 demo_flags 0"

lemma demo_encodings:
  "CheckSignatureEncoding (se_tx demo_scr) demo_sig demo_flags" "CheckPubKeyEncoding demo_pub"
  by code_simp+

lemma demo_CheckSig: "CheckSig demo_scr demo_sig key c tx nIn 0"
  by (simp add: CheckSig_def split_sig_def demo_sig_def demo_scr_def)

section \<open>Properties\<close>

text \<open>
  C15. A payment to the hash of a public key is spent exactly by input scripts that leave a key with that hash on top of
  the stack and below it a signature that the key accepts for this transaction, both well encoded.
\<close>

theorem p2pkh_needs_signature:
  assumes "length h = 20"
  shows "VerifyScript env sigScript (p2pkh h) tx nIn flags nHashType \<longleftrightarrow>
    (\<exists>key sig r. EvalScript env [] sigScript tx nIn flags nHashType = Some (key # sig # r) \<and> length r \<le> 996 \<and>
       se_Hash160 env key = h \<and> CheckSignatureEncoding (se_tx env) sig flags \<and> CheckPubKeyEncoding key \<and>
       CheckSig env sig key (FindAndDelete (p2pkh h) (push_data sig)) tx nIn nHashType)"
  unfolding VerifyScript_p2pkh [OF assms] sig_counts_def by simp

theorem p2pkh_needs_signature_witness:
  "VerifyScript demo_scr (push_data demo_sig @ push_data demo_pub) (p2pkh (replicate 20 8)) (demo_spend []) 0 demo_flags 0"
proof -
  have "EvalScript demo_scr [] (push_data demo_sig @ push_data demo_pub) (demo_spend []) 0 demo_flags 0 = Some [demo_pub, demo_sig]"
    by (rule EvalScript_sig_key) (simp_all add: demo_sig_def demo_pub_def)
  moreover have "se_Hash160 demo_scr demo_pub = replicate 20 8" by (simp add: demo_scr_def)
  ultimately show ?thesis
    using demo_encodings demo_CheckSig p2pkh_needs_signature [of "replicate 20 8" demo_scr] by simp
qed



text \<open>
  C19. The interpreter stays within its limits: from a stack that keeps them it leaves at most 1000 elements of
  at most 520 bytes each.
\<close>

theorem script_limits:
  assumes "EvalScript env stack script tx nIn flags nHashType = Some stack'" "hash_sizes env"
    and "length stack \<le> 1000" "list_all (\<lambda>v. length v \<le> 520) stack"
  shows "length stack' \<le> 1000 \<and> list_all (\<lambda>v. length v \<le> 520) stack'"
proof -
  obtain s where s: "eval_loop env (ctx_of tx nIn flags nHashType) script
      \<lparr>ss_stack = stack, ss_alt = [], ss_vfExec = [], ss_nOpCount = 0, ss_code = script\<rparr> = Some s" "stack' = ss_stack s"
    using assms(1) by (auto simp: EvalScript_def split: if_split_asm option.split_asm)
  from eval_loop_limits [OF s(1) assms(2)] assms(3,4) s(2) show ?thesis by (auto simp: within_limits_def)
qed

theorem script_limits_witness:
  "\<exists>st. EvalScript demo_scr [] [OP_1, OP_DUP, OP_ADD] (demo_spend []) 0 demo_flags 0 = Some st \<and> length st \<le> 1000"
proof -
  have e: "EvalScript demo_scr [] [OP_1, OP_DUP, OP_ADD] (demo_spend []) 0 demo_flags 0 = Some [[2]]" by code_simp
  have "hash_sizes demo_scr" by (simp add: hash_sizes_def demo_scr_def)
  from script_limits [OF e this] e show ?thesis by simp
qed

text \<open>
  C17. A check of several signatures accepts exactly if every signature counts for a key of its own, with the keys in the
  order of the script, so that no key is used twice.
\<close>

theorem multisig_distinct_keys:
  assumes "multisig_loop env x scriptCode sigs keys = Some fSuccess" "length sigs \<le> length keys"
  shows "fSuccess \<longleftrightarrow> (\<exists>ks. subseq ks keys \<and> list_all2 (\<lambda>sig key. CheckSignatureEncoding (se_tx env) sig (sx_flags x) \<and>
    CheckPubKeyEncoding key \<and> CheckSig env sig key scriptCode (sx_txTo x) (sx_nIn x) (sx_nHashType x)) sigs ks)"
  using multisig_subseq [OF assms(2,1)] by (simp add: sig_counts_def [abs_def])

theorem multisig_distinct_keys_witness:
  "\<exists>ks. subseq ks [demo_pub, demo_pub] \<and> list_all2 (\<lambda>sig key. CheckSignatureEncoding (se_tx demo_scr) sig demo_flags \<and>
    CheckPubKeyEncoding key \<and> CheckSig demo_scr sig key [] (demo_spend []) 0 0) [demo_sig] ks"
proof -
  have "multisig_loop demo_scr demo_ctx [] [demo_sig] [demo_pub, demo_pub] = Some True"
    using demo_encodings demo_CheckSig by simp
  from multisig_distinct_keys [OF this] show ?thesis by simp
qed

text \<open>
  C18. The cache of valid signatures has no influence on the result: with a cache that holds valid signatures only, the check
  answers as without it, and the cache afterwards holds valid signatures only and does not outgrow its limit by more
  than one entry.
\<close>

theorem signature_cache_transparent:
  assumes "\<forall>(h, sig, key) \<in> set setValid. se_SetPubKey env key \<and> se_Verify env key h sig" "int (length setValid) \<le> n + 1" "0 \<le> n"
    and "CheckSig_cached env n rnd setValid vchSig vchPubKey scriptCode txTo nIn nHashType = (f, setValid')"
  shows "f = CheckSig env vchSig vchPubKey scriptCode txTo nIn nHashType \<and>
    (\<forall>(h, sig, key) \<in> set setValid'. se_SetPubKey env key \<and> se_Verify env key h sig) \<and> int (length setValid') \<le> n + 1"
  using CheckSig_cached_spec [OF _ assms(4)] assms(1-3) by (simp add: cache_valid_def max_def)

theorem signature_cache_transparent_witness:
  "fst (CheckSig_cached demo_scr 1 (\<lambda>_. 0) [] demo_sig demo_pub [] (demo_spend []) 0 0) =
     CheckSig demo_scr demo_sig demo_pub [] (demo_spend []) 0 0"
  using signature_cache_transparent [of "[]" demo_scr 1 "\<lambda>_. 0" demo_sig demo_pub "[]" "demo_spend []" 0 0]
  by (cases "CheckSig_cached demo_scr 1 (\<lambda>_. 0) [] demo_sig demo_pub [] (demo_spend []) 0 0") simp

end
