(* ===== verification/SpendProps.thy ===== *)
theory SpendProps
  imports MemPoolProps InterpProps
begin

text \<open>
  The memory pool with the script interpreter: who can spend what through the pool.
\<close>

section \<open>The pool with the interpreter\<close>

text \<open>\<open>VerifyScript\<close> is called without a hash type; the stack of \<open>EvalScript\<close> is handed over with its top last.\<close>

definition with_interpreter :: "scr_env \<Rightarrow> mp_env \<Rightarrow> mp_env" where
  "with_interpreter senv env =
     env\<lparr>mp_led := (mp_led env)\<lparr>le_VerifyScript := (\<lambda>sigScript pubScript tx nIn flags. VerifyScript senv sigScript pubScript tx nIn flags 0)\<rparr>,
         mp_EvalScript := (\<lambda>script tx nIn. map_option rev (EvalScript senv [] script tx nIn 0 0))\<rparr>"

lemma VerifySignature_interpreted:
  "VerifySignature (mp_led (with_interpreter senv env)) t tx i flags \<Longrightarrow>
   VerifyScript senv (scriptSig (vin tx ! i)) (scriptPubKey (vout t ! out_n (vin tx ! i))) tx i flags 0"
  by (auto simp: VerifySignature_def with_interpreter_def Let_def out_n_def split: if_splits)

lemma found_tx_interpreted: "found_tx (with_interpreter senv env) = found_tx env"
  by (intro ext) (simp add: found_tx_def with_interpreter_def split: option.splits)

lemma accepted_script:
  assumes "pool_accept (with_interpreter senv env) db r pindexBest pchain buffer tx True p = (Accept (), fMissing, p')"
    and "i < length (vin tx)" "found_tx env db p (out_hash (vin tx ! i)) = Some t"
  shows "\<exists>flags. VerifyScript senv (scriptSig (vin tx ! i)) (scriptPubKey (vout t ! out_n (vin tx ! i))) tx i flags 0"
  using accepted_input [OF assms(1,2)] assms(3) by (auto simp: found_tx_interpreted dest!: VerifySignature_interpreted)

lemma CheckSig_signed:
  "CheckSig senv sig key c tx nIn 0 \<Longrightarrow>
   sig \<noteq> [] \<and> se_Verify senv key (SignatureHash (se_tx senv) c tx nIn (uint (last sig))) (butlast sig)"
  by (auto simp: CheckSig_def split_sig_def split: if_splits)

section \<open>A spend of the small network\<close>

definition demo_paid :: CTransaction where
  "demo_paid = demo_spend [\<lparr>nValue = 5000000, scriptPubKey = p2pkh (replicate 20 8)\<rparr>]"

definition demo_pay_env :: mp_env where
  "demo_pay_env = demo_mp\<lparr>mp_led := demo_le\<lparr>le_ReadFromDisk := (\<lambda>p. Some demo_paid)\<rparr>\<rparr>"

definition demo_pay_db :: CTxDB where
  "demo_pay_db = demo_db\<lparr>txdb_tx := [GetHash (bc_tx demo_bc) demo_paid \<mapsto> CTxIndex_new \<lparr>tp_nFile = 1, tp_nBlockPos = 9, tp_nTxPos = 99\<rparr> 1]\<rparr>"

definition demo_signed :: CTransaction where
  "demo_signed = (demo_spend [\<lparr>nValue = 4900000, scriptPubKey = pay_key demo_key\<rparr>])
     \<lparr>vin := [\<lparr>prevout = \<lparr>op_hash = GetHash (bc_tx demo_bc) demo_paid, op_n = 0\<rparr>,
       scriptSig = push_data demo_sig @ push_data demo_pub, nSequence = 0\<rparr>]\<rparr>"

definition demo_pay_inputs :: MapPrevTx where
  "demo_pay_inputs = [(GetHash (bc_tx demo_bc) demo_paid, CTxIndex_new \<lparr>tp_nFile = 1, tp_nBlockPos = 9, tp_nTxPos = 99\<rparr> 1, demo_paid)]"

abbreviation (input) demo_feework :: "Feework \<times> FeeworkBuffer" where
  "demo_feework \<equiv> (Feework_SetNull\<lparr>fw_bytes := ucast (size_tx demo_signed)\<rparr>, demo_buf)"

lemma demo_stage_new:
  "accept_new (with_interpreter demo_scr demo_pay_env) demo_pay_db demo_signed True CTxMemPool_new = Accept ()"
  by code_simp

lemma demo_stage_purchases:
  "accept_purchases (with_interpreter demo_scr demo_pay_env) demo_queued demo_prev demo_signed CTxMemPool_new = Accept (0, CTxMemPool_new)"
  by code_simp

lemma demo_stage_fetch:
  "FetchInputs (pool_env (with_interpreter demo_scr demo_pay_env) CTxMemPool_new) demo_pay_db [] False False demo_signed [] =
     (False, Accept demo_pay_inputs)"
  by code_simp

lemma demo_stage_claim:
  "accept_claim (with_interpreter demo_scr demo_pay_env) demo_queued demo_signed demo_pay_inputs CTxMemPool_new = Accept 0"
  by code_simp

lemma demo_stage_qpos:
  "accept_qpos (with_interpreter demo_scr demo_pay_env) demo_queued demo_prev demo_signed demo_pay_inputs = Accept ()"
  by code_simp

lemmas demo_stages = demo_stage_new demo_stage_purchases demo_stage_fetch demo_stage_claim demo_stage_qpos

lemma demo_stage_inputs:
  "accept_inputs (with_interpreter demo_scr demo_pay_env) demo_pay_db demo_queued demo_signed demo_pay_inputs demo_chain
     CTxMemPool_new 0 0 demo_feework = Accept demo_feework"
  by code_simp

lemma demo_stage_feework:
  "case accept_feework (with_interpreter demo_scr demo_pay_env) demo_pay_db demo_signed demo_chain CTxMemPool_new demo_feework of
     Accept _ \<Rightarrow> True | _ \<Rightarrow> False"
  by code_simp

lemma demo_accepts_signed:
  "fst (pool_accept (with_interpreter demo_scr demo_pay_env) demo_pay_db demo_queued demo_prev demo_chain demo_buf demo_signed True
     CTxMemPool_new) = Accept ()"
  using demo_stage_feework by (auto simp: pool_accept_def demo_stages demo_stage_inputs split: verdict.splits)

section \<open>Properties\<close>



end
