(* ===== verification/Chain.thy ===== *)
theory Chain
  imports MemPool
begin

text \<open>
  The choice of the best chain: \<open>Reorganize\<close>, \<open>SetBestChain\<close> and \<open>RewindRegistry\<close> of \<^verbatim>\<open>src/blockchain/main.cpp\<close>, with the
  transactions of the data base (\<^verbatim>\<open>src/db-leveldb/txdb-leveldb.cpp\<close>).

  A pointer to a block index in memory is the list of the blocks from it back to the first one, so that \<open>pprev\<close> is the tail;
  \<open>pnext\<close>, which changes, is a map of the state. While a transaction of the data base is open, \<open>ch_batch\<close> holds the tables with
  the pending writes, which all reads see. Entries of the block index are read through a cache that \<open>TxnAbort\<close> does not undo:
  after it, those that are still cached, a predicate of the environment, keep their pending value.

  The record \<open>chain_env\<close> holds what is read elsewhere: the environment of the checks, the block files, the main registry,
  and which writes succeed. Wallets, notifications and warnings are left out. \<open>Abort\<close> is an exception, undefined behaviour,
  or the exit of the program.
\<close>

section \<open>State\<close>

type_synonym pmem = "CBlockMemIndex list"

abbreviation pm_hash :: "pmem \<Rightarrow> uint256" where "pm_hash p \<equiv> mi_hash (hd p)"

record chain_db =
  cd_tables :: CTxDB
  cd_hashBestChain :: uint256

record chain_state =
  ch_disk :: chain_db
  ch_batch :: "chain_db option"
  ch_snapshots :: "int \<Rightarrow> QPRegistry option"
  mapBlockIndex :: "uint256 \<Rightarrow> pmem option"
  ch_pnext :: "uint256 \<Rightarrow> pmem option"
  mapBlockLookup :: "int \<Rightarrow> pmem option"
  pmemIndexGenesisBlock :: "pmem option"
  pmemIndexBest :: pmem
  ch_pindexBest :: CDiskBlockIndex
  hashBestChain :: uint256
  ch_nBestHeight :: int
  bnBestChainTrust :: int
  bnBestInvalidTrust :: int
  mempool :: CTxMemPool

record chain_env =
  cv_bc :: blkchk_env
  cv_EvalScript :: "valtype \<Rightarrow> CTransaction \<Rightarrow> nat \<Rightarrow> valtype list option"
  cv_ReadBlock :: "u32 \<Rightarrow> u32 \<Rightarrow> CBlock option"
  cv_pregistryMain :: QPRegistry
  cv_buffer :: FeeworkBuffer
  cv_cached :: "uint256 \<Rightarrow> bool"
  cv_write_best_ok :: "uint256 \<Rightarrow> bool"
  cv_commit_ok :: "chain_db \<Rightarrow> bool"

abbreviation cv_fork :: "chain_env \<Rightarrow> int \<Rightarrow> int" where "cv_fork cv h \<equiv> bc_fork (cv_bc cv) h"

definition IsInMainChain :: "chain_state \<Rightarrow> pmem \<Rightarrow> bool" where
  "IsInMainChain st p \<longleftrightarrow> ch_pnext st (pm_hash p) \<noteq> None \<or> p = pmemIndexBest st"

section \<open>Data base\<close>

text \<open>What a read sees: the open transaction, or else the data base.\<close>

definition txdb_view :: "chain_state \<Rightarrow> chain_db" where
  "txdb_view st = (case ch_batch st of Some d \<Rightarrow> d | None \<Rightarrow> ch_disk st)"

definition put_tables :: "CTxDB \<Rightarrow> chain_state \<Rightarrow> chain_state" where
  "put_tables db st =
     (case ch_batch st of
        Some d \<Rightarrow> st\<lparr>ch_batch := Some (d\<lparr>cd_tables := db\<rparr>)\<rparr>
      | None \<Rightarrow> st\<lparr>ch_disk := (ch_disk st)\<lparr>cd_tables := db\<rparr>\<rparr>)"

definition ReadDiskBlockIndex :: "chain_state \<Rightarrow> pmem \<Rightarrow> CDiskBlockIndex option" where
  "ReadDiskBlockIndex st p = txdb_block (cd_tables (txdb_view st)) (pm_hash p)"

definition TxnBegin :: "chain_state \<Rightarrow> chain_state option" where
  "TxnBegin st = (if ch_batch st \<noteq> None then None else Some (st\<lparr>ch_batch := Some (ch_disk st)\<rparr>))"

text \<open>The flag tells whether the write of the batch succeeded.\<close>

definition TxnCommit :: "chain_env \<Rightarrow> chain_state \<Rightarrow> (bool \<times> chain_state) option" where
  "TxnCommit cv st =
     (case ch_batch st of
        None \<Rightarrow> None
      | Some d \<Rightarrow> if cv_commit_ok cv d then Some (True, st\<lparr>ch_disk := d, ch_batch := None\<rparr>)
                  else Some (False, st\<lparr>ch_batch := None\<rparr>))"

definition TxnAbort :: "chain_env \<Rightarrow> chain_state \<Rightarrow> chain_state" where
  "TxnAbort cv st =
     (case ch_batch st of
        None \<Rightarrow> st
      | Some d \<Rightarrow>
          let old = cd_tables (ch_disk st)
          in st\<lparr>ch_batch := None,
                ch_disk := (ch_disk st)\<lparr>cd_tables := old\<lparr>txdb_block :=
                  (\<lambda>h. if cv_cached cv h then txdb_block (cd_tables d) h else txdb_block old h)\<rparr>\<rparr>\<rparr>)"

definition WriteHashBestChain :: "chain_env \<Rightarrow> uint256 \<Rightarrow> chain_state \<Rightarrow> bool \<times> chain_state" where
  "WriteHashBestChain cv h st =
     (if cv_write_best_ok cv h
      then (True, case ch_batch st of
                    Some d \<Rightarrow> st\<lparr>ch_batch := Some (d\<lparr>cd_hashBestChain := h\<rparr>)\<rparr>
                  | None \<Rightarrow> st\<lparr>ch_disk := (ch_disk st)\<lparr>cd_hashBestChain := h\<rparr>\<rparr>)
      else (False, st))"

section \<open>What the checks see\<close>

definition GetDepthInMainChain :: "chain_env \<Rightarrow> chain_state \<Rightarrow> CTxIndex \<Rightarrow> int" where
  "GetDepthInMainChain cv st txindex =
     (case cv_ReadBlock cv (tp_nFile (ti_pos txindex)) (tp_nBlockPos (ti_pos txindex)) of
        None \<Rightarrow> 0
      | Some b \<Rightarrow>
          (case mapBlockIndex st (block_hash (cv_bc cv) b) of
             None \<Rightarrow> 0
           | Some p \<Rightarrow>
               if \<not> IsInMainChain st p then 0
               else case ReadDiskBlockIndex st p of
                      None \<Rightarrow> 0
                    | Some d \<Rightarrow> 1 + ch_nBestHeight st - db_nHeight d))"

definition chain_tx :: "chain_state \<Rightarrow> tx_env \<Rightarrow> tx_env" where
  "chain_tx st te = te\<lparr>te_nBestHeight := ch_nBestHeight st\<rparr>"

definition chain_chk :: "chain_state \<Rightarrow> chk_env \<Rightarrow> chk_env" where
  "chain_chk st ce = ce\<lparr>ce_tx := chain_tx st (ce_tx ce), ce_nHeightBest := db_nHeight (ch_pindexBest st),
     ce_mapBlockIndex := (\<lambda>h. map_option (Some \<circ> IsInMainChain st) (mapBlockIndex st h))\<rparr>"

definition chain_led :: "chain_env \<Rightarrow> chain_state \<Rightarrow> led_env" where
  "chain_led cv st = (let le = bc_led (cv_bc cv)
     in le\<lparr>le_chk := chain_chk st (le_chk le), le_mempool := map_of (mapTx (mempool st)), le_depth := GetDepthInMainChain cv st\<rparr>)"

definition chain_bc :: "chain_env \<Rightarrow> chain_state \<Rightarrow> blkchk_env" where
  "chain_bc cv st = (cv_bc cv)\<lparr>bc_led := chain_led cv st,
     bc_pindexBest := index_of (ch_pindexBest st) (pm_hash (pmemIndexBest st))\<rparr>"

definition chain_mp :: "chain_env \<Rightarrow> chain_state \<Rightarrow> mp_env" where
  "chain_mp cv st = \<lparr>mp_led = chain_led cv st, mp_EvalScript = cv_EvalScript cv\<rparr>"

definition Block_ReadFromDisk :: "chain_env \<Rightarrow> pmem \<Rightarrow> CBlock option" where
  "Block_ReadFromDisk cv p =
     (case cv_ReadBlock cv (mi_nFile (hd p)) (mi_nBlockPos (hd p)) of
        None \<Rightarrow> None
      | Some b \<Rightarrow> if block_hash (cv_bc cv) b \<noteq> pm_hash p then None else Some b)"

section \<open>The registry\<close>

fun apply_snapshot :: "snap_action \<Rightarrow> (int \<Rightarrow> QPRegistry option) \<Rightarrow> int \<Rightarrow> QPRegistry option" where
  "apply_snapshot (WriteSnapshot n r) s = s(n \<mapsto> r)"
| "apply_snapshot (EraseSnapshot n) s = s(n := None)"

text \<open>\<open>UpdateOnNewBlock\<close> on the entry of a block; the result of the method, the registry, and the state with the new snapshots.\<close>

definition replay_block ::
  "chain_env \<Rightarrow> SnapType \<Rightarrow> pmem \<Rightarrow> QPRegistry \<Rightarrow> chain_state \<Rightarrow> (bool \<times> QPRegistry \<times> chain_state) option" where
  "replay_block cv snapType p r st =
     (let pprev = (if tl p = [] then p else tl p)
      in do {
        diskIndex \<leftarrow> ReadDiskBlockIndex st p;
        diskIndexPrev \<leftarrow> ReadDiskBlockIndex st pprev;
        (acts, res) \<leftarrow> UpdateOnNewBlock (bc_qp (chain_bc cv st)) r (index_of diskIndex (pm_hash p))
                        (index_of diskIndexPrev (pm_hash pprev)) snapType False;
        (case res of
           Returned ok r \<Rightarrow> Some (ok, r, st\<lparr>ch_snapshots := fold apply_snapshot acts (ch_snapshots st)\<rparr>)
         | Exited r \<Rightarrow> None) })"

text \<open>A snapshot that does not belong to the height is read all the same.\<close>

definition ReadSnapshot :: "chain_state \<Rightarrow> int \<Rightarrow> QPRegistry \<Rightarrow> bool \<times> QPRegistry" where
  "ReadSnapshot st nHeight r =
     (case ch_snapshots st nHeight of
        None \<Rightarrow> (False, r)
      | Some r' \<Rightarrow> (nBlockHeight r' = nHeight, r'))"

definition GetPurchaseStart :: "bool \<Rightarrow> int" where
  "GetPurchaseStart fTestNet = (if fTestNet then 4204 else 3657600)"

function GetRegistrySnapshot_loop :: "chain_env \<Rightarrow> chain_state \<Rightarrow> int \<Rightarrow> QPRegistry \<Rightarrow> QPRegistry" where
  "GetRegistrySnapshot_loop cv st nSnap r =
     (if nSnap \<ge> GetPurchaseStart (te_fTestNet (bc_tx (cv_bc cv)))
      then case ReadSnapshot st nSnap r of
             (True, r) \<Rightarrow> r
           | (False, r) \<Rightarrow> GetRegistrySnapshot_loop cv st (nSnap - uint BLOCKS_PER_SNAPSHOT) r
      else QPRegistry_SetNull (bc_qp (cv_bc cv)) r)"
  by pat_completeness auto
termination
  by (relation "measure (\<lambda>(cv, st, n, r). nat (n - GetPurchaseStart (te_fTestNet (bc_tx (cv_bc cv))) + 1))")
    (auto simp: BLOCKS_PER_SNAPSHOT_def)

definition GetRegistrySnapshot :: "chain_env \<Rightarrow> chain_state \<Rightarrow> int \<Rightarrow> QPRegistry \<Rightarrow> QPRegistry" where
  "GetRegistrySnapshot cv st nReplay r =
     (let n = word_of_int nReplay :: u32 in GetRegistrySnapshot_loop cv st (sint (n - n mod BLOCKS_PER_SNAPSHOT)) r)"

text \<open>
  The inner loop of the search for a snapshot: back to the next height that may have one, once a block of the main chain was
  passed. The result: whether the block precedes the registry, the block, its height, and the block of the main chain.
\<close>

fun snap_walk :: "chain_env \<Rightarrow> chain_state \<Rightarrow> pmem \<Rightarrow> int \<Rightarrow> pmem option \<Rightarrow> bool \<times> pmem \<times> int \<times> pmem option" where
  "snap_walk cv st [] h fork = (False, [], h, fork)"
| "snap_walk cv st (m # p) h fork =
     (if p = [] then (False, [m], h, fork)
      else let fork = (if fork = None \<and> IsInMainChain st (m # p) then Some (m # p) else fork)
           in if cv_fork cv (h - 1) < XST_FORKPURCHASE then (True, p, h - 1, fork)
              else if (word_of_int (h - 1) :: u32) mod BLOCKS_PER_SNAPSHOT = 0 \<and> fork \<noteq> None then (False, p, h - 1, fork)
              else snap_walk cv st p (h - 1) fork)"

lemma snap_walk_shorter:
  "snap_walk cv st p h fork = (b, p', h', fork') \<Longrightarrow> length p' \<le> length p \<and> (tl p' \<noteq> [] \<longrightarrow> length p' < length p)"
proof (induction p arbitrary: h fork)
  case (Cons m p)
  show ?case
  proof (cases "p = []")
    case False
    then show ?thesis using Cons.prems Cons.IH by (fastforce simp: Let_def split: if_splits)
  qed (use Cons.prems in auto)
qed auto

text \<open>The outer loop; \<open>None\<close> is the return of false.\<close>

function rewind_find ::
  "chain_env \<Rightarrow> chain_state \<Rightarrow> int \<Rightarrow> pmem \<Rightarrow> int \<Rightarrow> pmem option \<Rightarrow> QPRegistry \<Rightarrow> bool \<times> QPRegistry \<times> pmem option" where
  "rewind_find cv st nRewindToHeight p h fork r =
     (case snap_walk cv st p h fork of
        (fSnapIsPrepurchase, p', h', fork') \<Rightarrow>
          if fSnapIsPrepurchase then (True, QPRegistry_SetNull (bc_qp (cv_bc cv)) r, fork')
          else if tl p' = [] then (False, r, fork')
          else case ReadSnapshot st h' r of
                 (ok, r') \<Rightarrow>
                   if ok \<and> nBlockHeight r' \<noteq> nRewindToHeight \<and> hashBlock r' = pm_hash p' then (True, r', fork')
                   else rewind_find cv st nRewindToHeight p' h' fork' r')"
  by pat_completeness auto
termination
  by (relation "measure (\<lambda>(cv, st, n, p, h, fork, r). length p)") (auto dest: snap_walk_shorter [OF sym])

declare rewind_find.simps [simp del] GetRegistrySnapshot_loop.simps [simp del]

text \<open>The blocks to replay, from the top; the loop stops at the block of the registry. The height is that of the last block seen.\<close>

fun replay_list ::
  "chain_env \<Rightarrow> chain_state \<Rightarrow> uint256 \<Rightarrow> pmem \<Rightarrow> int \<Rightarrow> (pmem list \<times> pmem \<times> int) option" where
  "replay_list cv st hashRegistry [] h = None"
| "replay_list cv st hashRegistry (m # p) h =
     (if mi_hash m = hashRegistry then Some ([], m # p, h)
      else if cv_fork cv h < XST_FORKPURCHASE then Some ([], m # p, h)
      else if mapBlockIndex st (mi_hash m) = None then None
      else if p = [] then None
      else case replay_list cv st hashRegistry p (h - 1) of
             None \<Rightarrow> None
           | Some (v, q, h') \<Rightarrow> Some ((m # p) # v, q, h'))"

fun replay_blocks ::
  "chain_env \<Rightarrow> SnapType \<Rightarrow> pmem list \<Rightarrow> QPRegistry \<Rightarrow> chain_state \<Rightarrow> (bool \<times> QPRegistry \<times> chain_state) option" where
  "replay_blocks cv snapType [] r st = Some (True, r, st)"
| "replay_blocks cv snapType (p # ps) r st =
     (case replay_block cv snapType p r st of
        None \<Rightarrow> None
      | Some (False, r, st) \<Rightarrow> Some (False, r, st)
      | Some (True, r, st) \<Rightarrow> replay_blocks cv snapType ps r st)"

text \<open>The result, the registry and the block of the main chain; the last block replayed is not returned.\<close>

definition RewindRegistry ::
  "chain_env \<Rightarrow> QPRegistry \<Rightarrow> pmem \<Rightarrow> pmem \<Rightarrow> SnapType \<Rightarrow> chain_state \<Rightarrow>
   (bool \<times> QPRegistry \<times> pmem option \<times> chain_state) option" where
  "RewindRegistry cv r pmemIndexRewindTo pmemIndexReplayTo snapType st =
     (case ReadDiskBlockIndex st pmemIndexRewindTo of
        None \<Rightarrow> None
      | Some d \<Rightarrow>
          if cv_fork cv (db_nHeight d) < XST_FORKPURCHASE
          then Some (True, QPRegistry_SetNull (bc_qp (cv_bc cv)) r, None, st)
          else if tl pmemIndexRewindTo = [] then Some (False, r, None, st)
          else case rewind_find cv st (db_nHeight d) pmemIndexRewindTo (db_nHeight d) None r of
                 (False, r, fork) \<Rightarrow> Some (False, r, fork, st)
               | (True, r, fork) \<Rightarrow>
                   (case ReadDiskBlockIndex st pmemIndexReplayTo of
                      None \<Rightarrow> None
                    | Some dTo \<Rightarrow>
                        if tl pmemIndexReplayTo = [] then Some (False, r, fork, st)
                        else case replay_list cv st (hashBlock r) (tl pmemIndexReplayTo) (db_nHeight dTo - 1) of
                               None \<Rightarrow> Some (False, r, fork, st)
                             | Some (v, q, nReplayHeight) \<Rightarrow>
                                 (case ReadDiskBlockIndex st q of
                                    None \<Rightarrow> None
                                  | Some dGot \<Rightarrow>
                                      if nReplayHeight \<noteq> db_nHeight dGot then Some (False, r, fork, st)
                                      else map_option (\<lambda>(ok, r, st). (ok, r, fork, st))
                                             (replay_blocks cv snapType (rev (pmemIndexReplayTo # v)) r st))))"

section \<open>Reorganisation\<close>

text \<open>Both loops of the search for the fork; \<open>None\<close> is an error that should never happen.\<close>

fun walk_longer :: "pmem \<Rightarrow> int \<Rightarrow> int \<Rightarrow> (pmem \<times> int) option" where
  "walk_longer [] nLonger nFork = None"
| "walk_longer (m # p) nLonger nFork =
     (if nLonger > nFork then (if p = [] then None else walk_longer p (nLonger - 1) nFork) else Some (m # p, nLonger))"

fun find_fork :: "pmem \<Rightarrow> int \<Rightarrow> pmem \<Rightarrow> int \<Rightarrow> pmem option" where
  "find_fork [] nFork plonger nLonger = None"
| "find_fork (m # p) nFork plonger nLonger =
     (if m # p = plonger then Some plonger
      else case walk_longer plonger nLonger nFork of
             None \<Rightarrow> None
           | Some (plonger, nLonger) \<Rightarrow>
               if m # p = plonger then Some plonger
               else if p = [] then None
               else find_fork p (nFork - 1) plonger nLonger)"

text \<open>The blocks from \<open>p\<close> back to, and without, \<open>fork\<close>.\<close>

fun branch :: "pmem \<Rightarrow> pmem \<Rightarrow> pmem list" where
  "branch [] fork = []"
| "branch (m # p) fork = (if m # p = fork then [] else (m # p) # branch p fork)"

text \<open>The shorter branch is disconnected from the top; its transactions are collected in their order.\<close>

fun Reorganize_disconnect ::
  "chain_env \<Rightarrow> pmem list \<Rightarrow> CTransaction list \<Rightarrow> chain_state \<Rightarrow> CTransaction list verdict \<times> chain_state" where
  "Reorganize_disconnect cv [] vResurrect st = (Accept vResurrect, st)"
| "Reorganize_disconnect cv (p # ps) vResurrect st =
     (case (ReadDiskBlockIndex st p, Block_ReadFromDisk cv p) of
        (None, _) \<Rightarrow> (Abort, st)
      | (Some diskIndex, None) \<Rightarrow> (Reject 0, st)
      | (Some diskIndex, Some b) \<Rightarrow>
          (case DisconnectBlock (chain_bc cv st) (cd_tables (txdb_view st)) b p of
             None \<Rightarrow> (Abort, st)
           | Some (False, db) \<Rightarrow> (Reject 0, put_tables db st)
           | Some (True, db) \<Rightarrow>
               Reorganize_disconnect cv ps
                 (filter (\<lambda>tx. \<not> (IsCoinBase tx \<or> IsCoinStake tx) \<and>
                            db_nHeight diskIndex > le_GetTotalBlocksEstimate (bc_led (cv_bc cv))) (vtx b) @ vResurrect)
                 (put_tables db st)))"

text \<open>The longer branch is connected from the bottom, with a registry that is moved along.\<close>

fun Reorganize_connect ::
  "chain_env \<Rightarrow> pmem list \<Rightarrow> QPRegistry \<Rightarrow> CTransaction list \<Rightarrow> chain_state \<Rightarrow> CTransaction list verdict \<times> chain_state" where
  "Reorganize_connect cv [] r vDelete st = (Accept vDelete, st)"
| "Reorganize_connect cv (p # ps) r vDelete st =
     (case (ReadDiskBlockIndex st p, Block_ReadFromDisk cv p) of
        (None, _) \<Rightarrow> (Abort, st)
      | (Some _, None) \<Rightarrow> (Reject 0, st)
      | (Some _, Some b) \<Rightarrow>
          (case ConnectBlock (chain_bc cv st) (cd_tables (txdb_view st)) r (cv_pregistryMain cv) b p False (cv_buffer cv) of
             (Abort, r) \<Rightarrow> (Abort, st)
           | (Reject n, r) \<Rightarrow> (Reject 0, st)
           | (Accept db, r) \<Rightarrow>
               (case replay_block cv ALL_SNAPS p r (put_tables db st) of
                  None \<Rightarrow> (Abort, st)
                | Some (False, r, st) \<Rightarrow> (Reject 0, st)
                | Some (True, r, st) \<Rightarrow> Reorganize_connect cv ps r (vDelete @ vtx b) st)))"

text \<open>The links in memory.\<close>

definition unlink :: "pmem \<Rightarrow> int \<Rightarrow> chain_state \<Rightarrow> chain_state" where
  "unlink p nHeight st =
     st\<lparr>ch_pnext := (if tl p = [] then ch_pnext st else (ch_pnext st)(pm_hash (tl p) := None)),
        mapBlockLookup := (mapBlockLookup st)(nHeight := None)\<rparr>"

definition link :: "pmem \<Rightarrow> int \<Rightarrow> chain_state \<Rightarrow> chain_state" where
  "link p nHeight st =
     st\<lparr>ch_pnext := (if tl p = [] then ch_pnext st else (ch_pnext st)(pm_hash (tl p) \<mapsto> p)),
        mapBlockLookup := (mapBlockLookup st)(nHeight \<mapsto> p)\<rparr>"

fun relink :: "(pmem \<Rightarrow> int \<Rightarrow> chain_state \<Rightarrow> chain_state) \<Rightarrow> pmem list \<Rightarrow> chain_state \<Rightarrow> chain_state option" where
  "relink f [] st = Some st"
| "relink f (p # ps) st =
     (case ReadDiskBlockIndex st p of None \<Rightarrow> None | Some d \<Rightarrow> relink f ps (f p (db_nHeight d) st))"

definition properly_connected :: "chain_state \<Rightarrow> pmem \<Rightarrow> bool" where
  "properly_connected st p \<longleftrightarrow>
     \<not> (tl p \<noteq> [] \<and> tl (tl p) \<noteq> [] \<and> ch_pnext st (pm_hash (tl (tl p))) \<noteq> Some (tl p))"

text \<open>The memory pool: transactions of the old branch come back, those of the new branch leave.\<close>

fun resurrect :: "chain_env \<Rightarrow> CTransaction list \<Rightarrow> chain_state \<Rightarrow> chain_state option" where
  "resurrect cv [] st = Some st"
| "resurrect cv (tx # txs) st =
     (case pool_accept (chain_mp cv st) (cd_tables (txdb_view st)) (cv_pregistryMain cv)
             (index_of (ch_pindexBest st) (pm_hash (pmemIndexBest st))) (pmemIndexBest st) (cv_buffer cv) tx False (mempool st) of
        (Abort, _) \<Rightarrow> None
      | (_, _, p) \<Rightarrow> resurrect cv txs (st\<lparr>mempool := p\<rparr>))"

fun remove_txs :: "chain_env \<Rightarrow> CTransaction list \<Rightarrow> chain_state \<Rightarrow> chain_state option" where
  "remove_txs cv [] st = Some st"
| "remove_txs cv (tx # txs) st =
     (case pool_remove (bc_tx (chain_bc cv st)) tx False (mempool st) of
        None \<Rightarrow> None
      | Some p \<Rightarrow> remove_txs cv txs (st\<lparr>mempool := p\<rparr>))"

text \<open>The part after the branches are found, up to the commit.\<close>

definition Reorganize_db ::
  "chain_env \<Rightarrow> pmem \<Rightarrow> pmem \<Rightarrow> pmem list \<Rightarrow> pmem list \<Rightarrow> chain_state \<Rightarrow>
   (CTransaction list \<times> CTransaction list) verdict \<times> chain_state" where
  "Reorganize_db cv pmemIndexNew pfork vDisconnect vConnect st =
     (case Reorganize_disconnect cv vDisconnect [] st of
        (Abort, st) \<Rightarrow> (Abort, st)
      | (Reject n, st) \<Rightarrow> (Reject n, st)
      | (Accept vResurrect, st) \<Rightarrow>
          (case RewindRegistry cv (QPRegistry_new (bc_qp (cv_bc cv))) pfork pfork ALL_SNAPS st of
             None \<Rightarrow> (Abort, st)
           | Some (_, r, _, st) \<Rightarrow>
               (case Reorganize_connect cv vConnect r [] st of
                  (Abort, st) \<Rightarrow> (Abort, st)
                | (Reject n, st) \<Rightarrow> (Reject n, st)
                | (Accept vDelete, st) \<Rightarrow>
                    (case WriteHashBestChain cv (pm_hash pmemIndexNew) st of
                       (False, st) \<Rightarrow> (Reject 0, st)
                     | (True, st) \<Rightarrow>
                         (case TxnCommit cv st of
                            None \<Rightarrow> (Abort, st)
                          | Some (False, st) \<Rightarrow> (Reject 0, st)
                          | Some (True, st) \<Rightarrow> (Accept (vResurrect, vDelete), st))))))"

text \<open>The part after the commit.\<close>

definition Reorganize_memory ::
  "chain_env \<Rightarrow> pmem list \<Rightarrow> pmem list \<Rightarrow> CTransaction list \<Rightarrow> CTransaction list \<Rightarrow> chain_state \<Rightarrow>
   unit verdict \<times> chain_state" where
  "Reorganize_memory cv vDisconnect vConnect vResurrect vDelete st =
     (case relink unlink vDisconnect st of
        None \<Rightarrow> (Abort, st)
      | Some st \<Rightarrow>
          if vConnect \<noteq> [] \<and> \<not> properly_connected st (hd vConnect) then (Reject 0, st)
          else case relink link vConnect st of
                 None \<Rightarrow> (Abort, st)
               | Some st \<Rightarrow>
                   (case resurrect cv vResurrect st of
                      None \<Rightarrow> (Abort, st)
                    | Some st \<Rightarrow>
                        (case remove_txs cv vDelete st of None \<Rightarrow> (Abort, st) | Some st \<Rightarrow> (Accept (), st))))"

text \<open>The value is \<open>pmemIndexReplayRet\<close>, the block from which the registry has to be replayed.\<close>

definition Reorganize :: "chain_env \<Rightarrow> pmem \<Rightarrow> chain_state \<Rightarrow> pmem verdict \<times> chain_state" where
  "Reorganize cv pmemIndexNew st =
     (case (ReadDiskBlockIndex st (pmemIndexBest st), ReadDiskBlockIndex st pmemIndexNew) of
        (Some dFork, Some dLonger) \<Rightarrow>
          (case find_fork (pmemIndexBest st) (db_nHeight dFork) pmemIndexNew (db_nHeight dLonger) of
             None \<Rightarrow> (Reject 0, st)
           | Some pfork \<Rightarrow>
               let vDisconnect = branch (pmemIndexBest st) pfork; vConnect = rev (branch pmemIndexNew pfork)
               in case Reorganize_db cv pmemIndexNew pfork vDisconnect vConnect st of
                    (Abort, st) \<Rightarrow> (Abort, st)
                  | (Reject n, st) \<Rightarrow> (Reject n, st)
                  | (Accept (vResurrect, vDelete), st) \<Rightarrow>
                      (case Reorganize_memory cv vDisconnect vConnect vResurrect vDelete st of
                         (Abort, st) \<Rightarrow> (Abort, st)
                       | (Reject n, st) \<Rightarrow> (Reject n, st)
                       | (Accept _, st) \<Rightarrow> (Accept pfork, st)))
      | _ \<Rightarrow> (Abort, st))"

section \<open>Setting the best chain\<close>

definition InvalidChainFound :: "pmem \<Rightarrow> chain_state \<Rightarrow> chain_state option" where
  "InvalidChainFound pmemIndexNew st =
     map_option (\<lambda>d. st\<lparr>bnBestInvalidTrust := max (bnBestInvalidTrust st) (db_bnChainTrust d)\<rparr>) (ReadDiskBlockIndex st pmemIndexNew)"

definition fail_invalid :: "chain_env \<Rightarrow> pmem \<Rightarrow> chain_state \<Rightarrow> unit verdict \<times> chain_state" where
  "fail_invalid cv pmemIndexNew st =
     (case InvalidChainFound pmemIndexNew (TxnAbort cv st) of None \<Rightarrow> (Abort, st) | Some st \<Rightarrow> (Reject 0, st))"

text \<open>The block is connected to the best one; the registry is the one the caller passes by pointer.\<close>

definition SetBestChainInner ::
  "chain_env \<Rightarrow> CBlock \<Rightarrow> pmem \<Rightarrow> QPRegistry \<Rightarrow> chain_state \<Rightarrow> unit verdict \<times> QPRegistry \<times> chain_state" where
  "SetBestChainInner cv b pmemIndexNew r st =
     (case ConnectBlock (chain_bc cv st) (cd_tables (txdb_view st)) r (cv_pregistryMain cv) b pmemIndexNew False (cv_buffer cv) of
        (Abort, r) \<Rightarrow> (Abort, r, st)
      | (Reject n, r) \<Rightarrow> (case fail_invalid cv pmemIndexNew st of (v, st) \<Rightarrow> (v, r, st))
      | (Accept db, r) \<Rightarrow>
          (case WriteHashBestChain cv (block_hash (cv_bc cv) b) (put_tables db st) of
             (False, st) \<Rightarrow> (case fail_invalid cv pmemIndexNew st of (v, st) \<Rightarrow> (v, r, st))
           | (True, st) \<Rightarrow>
               (case TxnCommit cv st of
                  None \<Rightarrow> (Abort, r, st)
                | Some (False, st) \<Rightarrow> (Reject 0, r, st)
                | Some (True, st) \<Rightarrow>
                    if \<not> properly_connected st pmemIndexNew then (Reject 0, r, st)
                    else if tl pmemIndexNew = [] then (Abort, r, st)
                    else case relink link [pmemIndexNew] st of
                           None \<Rightarrow> (Abort, r, st)
                         | Some st \<Rightarrow>
                             (case remove_txs cv (vtx b) st of
                                None \<Rightarrow> (Abort, r, st)
                              | Some st \<Rightarrow> (Accept (), r, st)))))"

text \<open>
  The first block of the new chain that has more trust than the best one is reached by the reorganisation; the blocks
  above it, from the top, are connected afterwards.
\<close>

fun split_secondary :: "chain_state \<Rightarrow> pmem \<Rightarrow> (pmem \<times> pmem list) option" where
  "split_secondary st [] = None"
| "split_secondary st (m # p) =
     (if p = [] then Some ([m], [])
      else case ReadDiskBlockIndex st p of
             None \<Rightarrow> None
           | Some d \<Rightarrow>
               if db_bnChainTrust d > db_bnChainTrust (ch_pindexBest st)
               then map_option (\<lambda>(q, v). (q, (m # p) # v)) (split_secondary st p)
               else Some (m # p, []))"

text \<open>
  Two loops that replay the registry along \<open>pnext\<close>: to the end of the linked blocks, and to a given block. The result of an
  update is not looked at. \<open>None\<close> stands for an exception and for a loop that does not end.
\<close>

partial_function (option) replay_all ::
  "chain_env \<Rightarrow> pmem \<Rightarrow> pmem \<Rightarrow> QPRegistry \<Rightarrow> chain_state \<Rightarrow> (QPRegistry \<times> chain_state) option" where
  "replay_all cv pmemIndexNewBest cur r st =
     (case ch_pnext st (pm_hash cur) of
        None \<Rightarrow> Some (r, st)
      | Some cur \<Rightarrow>
          (case replay_block cv ALL_SNAPS cur r st of
             None \<Rightarrow> None
           | Some (_, r, st) \<Rightarrow>
               (case ch_pnext st (pm_hash cur) of
                  None \<Rightarrow> Some (r, st)
                | Some nxt \<Rightarrow>
                    if \<not> (IsInMainChain st nxt \<or> nxt = pmemIndexNewBest) then Some (r, st)
                    else replay_all cv pmemIndexNewBest cur r st)))"

partial_function (option) replay_until ::
  "chain_env \<Rightarrow> pmem \<Rightarrow> pmem \<Rightarrow> QPRegistry \<Rightarrow> chain_state \<Rightarrow> (bool \<times> QPRegistry \<times> chain_state) option" where
  "replay_until cv stop cur r st =
     (if cur = stop then Some (True, r, st)
      else case ch_pnext st (pm_hash cur) of
             None \<Rightarrow> Some (False, r, st)
           | Some cur \<Rightarrow>
               (case replay_block cv ALL_SNAPS cur r st of
                  None \<Rightarrow> None
                | Some (_, r, st) \<Rightarrow> replay_until cv stop cur r st))"

declare replay_all.simps [code] replay_until.simps [code]

text \<open>
  The queued blocks, from the lowest. The first value is the new best block with its entry if one of them could not be
  connected; nothing is corrected when a block cannot be read.
\<close>

fun connect_secondary ::
  "chain_env \<Rightarrow> pmem list \<Rightarrow> QPRegistry \<Rightarrow> chain_state \<Rightarrow> ((pmem \<times> CDiskBlockIndex) option \<times> QPRegistry \<times> chain_state) option" where
  "connect_secondary cv [] r st = Some (None, r, st)"
| "connect_secondary cv (p # ps) r st =
     (case (ReadDiskBlockIndex st p, Block_ReadFromDisk cv p) of
        (None, _) \<Rightarrow> None
      | (Some _, None) \<Rightarrow> Some (None, r, st)
      | (Some _, Some b) \<Rightarrow>
          (case TxnBegin st of
             None \<Rightarrow> None
           | Some st \<Rightarrow>
               (case SetBestChainInner cv b p r st of
                  (Abort, _) \<Rightarrow> None
                | (Reject n, r, st) \<Rightarrow> map_option (\<lambda>d. (Some (tl p, d), r, st)) (ReadDiskBlockIndex st (tl p))
                | (Accept _, r, st) \<Rightarrow>
                    (case replay_block cv ALL_SNAPS p r st of
                       None \<Rightarrow> None
                     | Some (_, r, st) \<Rightarrow> connect_secondary cv ps r st))))"

text \<open>The registry at the snapshot below the fork, moved on to the new branch; \<open>Reject\<close> if a block is missing.\<close>

definition replay_branch ::
  "chain_env \<Rightarrow> pmem \<Rightarrow> pmem \<Rightarrow> pmem list \<Rightarrow> chain_state \<Rightarrow> (QPRegistry \<times> chain_state) verdict" where
  "replay_branch cv pmemIndexNewBest pmemIndexReplay vSecondary st =
     (case ReadDiskBlockIndex st pmemIndexReplay of
        None \<Rightarrow> Abort
      | Some d \<Rightarrow>
          let r = GetRegistrySnapshot cv st (db_nHeight d) (QPRegistry_new (bc_qp (cv_bc cv)))
          in case mapBlockIndex st (hashBlock r) of
               None \<Rightarrow> Abort
             | Some cur \<Rightarrow>
                 if vSecondary = []
                 then (case replay_all cv pmemIndexNewBest cur r st of None \<Rightarrow> Abort | Some (r, st) \<Rightarrow> Accept (r, st))
                 else (case replay_until cv (tl (last vSecondary)) cur r st of
                         None \<Rightarrow> Abort
                       | Some (False, r, st) \<Rightarrow> Reject 0
                       | Some (True, r, st) \<Rightarrow> Accept (r, st)))"

text \<open>
  The case in which the new block does not extend the best one: another best block, if not all blocks were connected, and
  the registry.
\<close>

definition SetBestChain_reorganize ::
  "chain_env \<Rightarrow> pmem \<Rightarrow> QPRegistry \<Rightarrow> chain_state \<Rightarrow> ((pmem \<times> CDiskBlockIndex) option \<times> QPRegistry) verdict \<times> chain_state" where
  "SetBestChain_reorganize cv pmemIndexNewBest r st =
     (case split_secondary st pmemIndexNewBest of
        None \<Rightarrow> (Abort, st)
      | Some (pmemIndexIntermediate, vSecondary) \<Rightarrow>
          (case Reorganize cv pmemIndexIntermediate st of
             (Abort, st) \<Rightarrow> (Abort, st)
           | (Reject n, st) \<Rightarrow>
               (case fail_invalid cv pmemIndexNewBest st of (Reject n, st) \<Rightarrow> (Reject n, st) | (_, st) \<Rightarrow> (Abort, st))
           | (Accept pmemIndexReplay, st) \<Rightarrow>
               (case replay_branch cv pmemIndexNewBest pmemIndexReplay vSecondary st of
                  Abort \<Rightarrow> (Abort, st)
                | Reject n \<Rightarrow> (Reject n, st)
                | Accept (rTemp, st) \<Rightarrow>
                    (case connect_secondary cv (rev vSecondary) rTemp st of
                       None \<Rightarrow> (Abort, st)
                     | Some (best, rTemp, st) \<Rightarrow>
                         let fExitReplay = \<not> IsInReplayMode r; r = CopyInternal r rTemp
                         in (Accept (best, if fExitReplay then ExitReplayModeInternal r else r), st)))))"

definition new_best :: "pmem \<Rightarrow> CDiskBlockIndex \<Rightarrow> uint256 \<Rightarrow> chain_state \<Rightarrow> chain_state" where
  "new_best p d h st =
     st\<lparr>ch_pindexBest := d, pmemIndexBest := p, hashBestChain := h, ch_nBestHeight := db_nHeight d,
        bnBestChainTrust := db_bnChainTrust d,
        mempool := (mempool st)\<lparr>nTransactionsUpdated := nTransactionsUpdated (mempool st) + 1\<rparr>\<rparr>"

text \<open>
  The verdict, \<open>fReorganizedRet\<close>, the registry, and the state. \<open>Reject\<close> is the return of false. The entry of the new best
  block is read before it is connected, and read again only where the block extends the best one.
\<close>

definition SetBestChain ::
  "chain_env \<Rightarrow> CBlock \<Rightarrow> pmem \<Rightarrow> QPRegistry \<Rightarrow> chain_state \<Rightarrow> unit verdict \<times> bool \<times> QPRegistry \<times> chain_state" where
  "SetBestChain cv b pmemIndexNewBest r st =
     (let hash = block_hash (cv_bc cv) b
      in if pmemIndexNewBest = [] then (Reject 0, False, r, st)
         else case (ReadDiskBlockIndex st pmemIndexNewBest, TxnBegin st) of
                (Some diskIndexNewBest, Some st) \<Rightarrow>
                  if pmemIndexGenesisBlock st = None \<and> hash = bc_hashGenesisBlock (cv_bc cv)
                  then (case TxnCommit cv (snd (WriteHashBestChain cv hash st)) of
                          None \<Rightarrow> (Abort, False, r, st)
                        | Some (False, st) \<Rightarrow> (Reject 0, False, r, st)
                        | Some (True, st) \<Rightarrow>
                            (Accept (), False, r,
                             new_best pmemIndexNewBest diskIndexNewBest hash (st\<lparr>pmemIndexGenesisBlock := Some pmemIndexNewBest\<rparr>)))
                  else if blk_hashPrevBlock b = hashBestChain st
                  then (case SetBestChainInner cv b pmemIndexNewBest r st of
                          (Abort, r, st) \<Rightarrow> (Abort, False, r, st)
                        | (Reject n, r, st) \<Rightarrow> (Reject n, False, r, st)
                        | (Accept _, r, st) \<Rightarrow>
                            (case ReadDiskBlockIndex st pmemIndexNewBest of
                               None \<Rightarrow> (Abort, False, r, st)
                             | Some d \<Rightarrow> (Accept (), False, r, new_best pmemIndexNewBest d hash st)))
                  else (case SetBestChain_reorganize cv pmemIndexNewBest r st of
                          (Abort, st) \<Rightarrow> (Abort, False, r, st)
                        | (Reject n, st) \<Rightarrow> (Reject n, False, r, st)
                        | (Accept (None, r), st) \<Rightarrow>
                            (Accept (), True, r, new_best pmemIndexNewBest diskIndexNewBest hash st)
                        | (Accept (Some (p, d), r), st) \<Rightarrow> (Accept (), True, r, new_best p d (pm_hash p) st))
              | _ \<Rightarrow> (Abort, False, r, st))"

end
