(* ===== verification/ChainProps.thy ===== *)
theory ChainProps
  imports Chain MemPoolProps "HOL-Library.Sublist"
begin

text \<open>
  What \<open>SetBestChain\<close> guarantees. The specification replays a whole chain of blocks on the abstract ledger. However the best
  chain changes, by one more block or by a reorganisation, the transaction index is that of the
  chain it ends with, the links and heights in memory describe exactly this chain, and its trust has grown.
\<close>

section \<open>The ledger of a chain\<close>

text \<open>What connecting and disconnecting blocks never changes of the block index: version, height and trust.\<close>

definition fixed :: "CTxDB \<Rightarrow> uint256 \<Rightarrow> (int \<times> int \<times> int) option" where
  "fixed db h = map_option (\<lambda>d. (db_nVersion d, db_nHeight d, db_bnChainTrust d)) (txdb_block db h)"

fun chain_ledger :: "chain_env \<Rightarrow> (uint256 \<Rightarrow> (int \<times> int \<times> int) option) \<Rightarrow> pmem \<Rightarrow> (uint256 \<Rightarrow> CTxIndex option) option" where
  "chain_ledger cv fx [] = None"
| "chain_ledger cv fx (m # p) =
     (if p = [] then Some Map.empty
      else case (chain_ledger cv fx p, Block_ReadFromDisk cv (m # p), fx (mi_hash m)) of
             (Some V, Some b, Some (ver, _)) \<Rightarrow>
               ledger_run (bc_tx (cv_bc cv)) (m # p) (first_tx_pos ver (mi_nBlockPos m) (length (vtx b))) (vtx b) V
           | _ \<Rightarrow> None)"

fun chain_txs :: "chain_env \<Rightarrow> pmem \<Rightarrow> CTransaction list" where
  "chain_txs cv [] = []"
| "chain_txs cv (m # p) =
     (if p = [] then [] else chain_txs cv p @ (case Block_ReadFromDisk cv (m # p) of None \<Rightarrow> [] | Some b \<Rightarrow> vtx b))"

definition unique_txs :: "chain_env \<Rightarrow> pmem \<Rightarrow> bool" where
  "unique_txs cv p \<longleftrightarrow> distinct (map (GetHash (bc_tx (cv_bc cv))) (chain_txs cv p))"

lemma ledger_run_dom:
  "ledger_run env pchain n txs V = Some V' \<Longrightarrow> dom V' = dom V \<union> GetHash env ` set txs"
proof (induction txs arbitrary: n V)
  case (Cons tx txs)
  then have "dom V' = dom (apply_tx env (tx_position pchain n) tx V) \<union> GetHash env ` set txs"
    by (auto split: if_splits)
  then show ?case by (auto simp: apply_tx_def split: if_splits)
qed simp

lemma ledger_run_canonical:
  "ledger_run env pchain n txs V = Some V' \<Longrightarrow> mi_nFile (hd pchain) \<noteq> -1 \<Longrightarrow> canonical V \<Longrightarrow> canonical V'"
  by (induction txs arbitrary: n V) (auto split: if_splits dest: tx_position_not_null intro: apply_tx_canonical)

lemma chain_ledger_step:
  assumes "chain_ledger cv fx (m # p) = Some V'" "p \<noteq> []"
  obtains V b ver ht where "chain_ledger cv fx p = Some V" "Block_ReadFromDisk cv (m # p) = Some b" "fx (mi_hash m) = Some (ver, ht)"
    "ledger_run (bc_tx (cv_bc cv)) (m # p) (first_tx_pos ver (mi_nBlockPos m) (length (vtx b))) (vtx b) V = Some V'"
  using assms by (auto split: option.splits)

lemma chain_ledger_dom:
  "chain_ledger cv fx p = Some V \<Longrightarrow> dom V = GetHash (bc_tx (cv_bc cv)) ` set (chain_txs cv p)"
proof (induction p arbitrary: V)
  case (Cons m p)
  show ?case
  proof (cases "p = []")
    case False
    from Cons.prems False obtain W b ver ht where W: "chain_ledger cv fx p = Some W" "Block_ReadFromDisk cv (m # p) = Some b"
      "fx (mi_hash m) = Some (ver, ht)"
      "ledger_run (bc_tx (cv_bc cv)) (m # p) (first_tx_pos ver (mi_nBlockPos m) (length (vtx b))) (vtx b) W = Some V"
      by (rule chain_ledger_step)
    show ?thesis using ledger_run_dom [OF W(4)] Cons.IH [OF W(1)] W(2) False by (simp add: image_Un)
  qed (use Cons.prems in auto)
qed simp

lemma chain_ledger_canonical:
  "chain_ledger cv fx p = Some V \<Longrightarrow> list_all (\<lambda>m. mi_nFile m \<noteq> -1) p \<Longrightarrow> canonical V"
proof (induction p arbitrary: V)
  case (Cons m p)
  show ?case
  proof (cases "p = []")
    case False
    from Cons.prems(1) False obtain W b ver ht where W: "chain_ledger cv fx p = Some W" "Block_ReadFromDisk cv (m # p) = Some b"
      "fx (mi_hash m) = Some (ver, ht)"
      "ledger_run (bc_tx (cv_bc cv)) (m # p) (first_tx_pos ver (mi_nBlockPos m) (length (vtx b))) (vtx b) W = Some V"
      by (rule chain_ledger_step)
    show ?thesis using ledger_run_canonical [OF W(4)] Cons.IH [OF W(1)] Cons.prems(2) by simp
  qed (use Cons.prems in \<open>auto simp: canonical_def\<close>)
qed simp

text \<open>The environment of a state hashes transactions as the given one does.\<close>

lemma chain_bc_tx: "bc_tx (chain_bc cv st) = (bc_tx (cv_bc cv))\<lparr>te_nBestHeight := ch_nBestHeight st\<rparr>"
  by (simp add: chain_bc_def chain_led_def chain_chk_def chain_tx_def Let_def)

lemma GetHash_best [simp]: "GetHash (te\<lparr>te_nBestHeight := h\<rparr>) = GetHash te"
  by (rule ext) (simp add: GetHash_def)

lemma ledger_run_best [simp]: "ledger_run (te\<lparr>te_nBestHeight := h\<rparr>) = ledger_run te"
proof (intro ext)
  show "ledger_run (te\<lparr>te_nBestHeight := h\<rparr>) pchain n txs V = ledger_run te pchain n txs V" for pchain n txs V
    by (induction txs arbitrary: n V) (simp_all add: apply_tx_def)
qed

lemma chain_led_write [simp]: "le_write_ok (bc_led (chain_bc cv st)) = le_write_ok (bc_led (cv_bc cv))"
  by (simp add: chain_bc_def chain_led_def Let_def)

section \<open>One block\<close>

lemma fixed_write: "txdb_block db h = Some d \<Longrightarrow> db_nVersion d' = db_nVersion d \<Longrightarrow> db_nHeight d' = db_nHeight d \<Longrightarrow>
    db_bnChainTrust d' = db_bnChainTrust d \<Longrightarrow> fixed (db\<lparr>txdb_block := (txdb_block db)(h \<mapsto> d')\<rparr>) = fixed db"
  by (rule ext) (simp add: fixed_def)

lemma fixed_cong: "txdb_block db' = txdb_block db \<Longrightarrow> fixed db' = fixed db"
  by (rule ext) (simp add: fixed_def)

lemma ConnectBlock_fixed:
  assumes "ConnectBlock env db r rMain b pchain False buffer = (Accept db', r')" "mi_hash (hd pchain) \<noteq> mi_hash (hd (tl pchain))"
  shows "fixed db' = fixed db"
proof -
  from ConnectBlock_parts [OF assms(1)] obtain d dPrev vDeets cs db1 db2 where
    d: "txdb_block db (mi_hash (hd pchain)) = Some d" "txdb_block db (mi_hash (hd (tl pchain))) = Some dPrev"
    and w: "WriteDiskBlockIndex env db (mi_hash (hd pchain))
        ((connect_books d (bc_fork env (te_nBestHeight (bc_tx env) + 1)) (db_nMoneySupply dPrev) cs)\<lparr>db_vDeets := vDeets\<rparr>) = Some db1"
      "write_queued (bc_led env) (cs_mapQueuedChanges cs) db1 = Some db2"
      "WriteDiskBlockIndex env db2 (mi_hash (hd (tl pchain))) (dPrev\<lparr>db_hashNext := mi_hash (hd pchain)\<rparr>) = Some db'"
    by blast
  have 1: "fixed db1 = fixed db"
    using w(1) by (auto simp: WriteDiskBlockIndex_Some connect_books_def intro: fixed_write [OF d(1)])
  have b1: "txdb_block db1 (mi_hash (hd (tl pchain))) = Some dPrev"
    using w(1) d(2) assms(2) by (auto simp: WriteDiskBlockIndex_Some)
  have b2: "txdb_block db2 = txdb_block db1" by (rule write_queued_block [OF w(2)])
  have "txdb_block db2 (mi_hash (hd (tl pchain))) = Some dPrev" using b1 b2 by simp
  then have "fixed db' = fixed db2" using w(3) by (auto simp: WriteDiskBlockIndex_Some simp del: fun_upd_apply intro: fixed_write)
  with 1 fixed_cong [OF b2] show ?thesis by simp
qed

lemma DisconnectInputs_loop_block: "DisconnectInputs_loop env ins db = (ok, db') \<Longrightarrow> txdb_block db' = txdb_block db"
  by (induction ins arbitrary: db) (auto simp: Let_def UpdateTxIndex_def split: option.splits if_splits)

lemma DisconnectBlock_loop_block: "DisconnectBlock_loop env txs db = (ok, db') \<Longrightarrow> txdb_block db' = txdb_block db"
proof (induction txs arbitrary: db)
  case (Cons tx txs)
  obtain ok1 db1 where "DisconnectInputs env tx db = (ok1, db1)" by fastforce
  moreover from this have "txdb_block db1 = txdb_block db"
    by (auto simp: DisconnectInputs_def split: if_splits dest: DisconnectInputs_loop_block)
  ultimately show ?case using Cons by (auto split: bool.splits)
qed simp

text \<open>The parts of a successful disconnection.\<close>

lemma DisconnectBlock_parts:
  assumes "DisconnectBlock env db b pchain = Some (True, db')" "tl pchain \<noteq> []"
  obtains D dPrev where "DisconnectBlock_loop (bc_led env) (rev (vtx b)) db = (True, D)"
    "txdb_block D (mi_hash (hd (tl pchain))) = Some dPrev"
    "db' = fold (\<lambda>tx db. EraseTxIndex (bc_led env) db tx) (vtx b)
       (D\<lparr>txdb_block := (txdb_block D)(mi_hash (hd (tl pchain)) \<mapsto> dPrev\<lparr>db_hashNext := 0\<rparr>)\<rparr>)"
  using assms by (auto simp: DisconnectBlock_def WriteDiskBlockIndex_def split: option.splits prod.splits bool.splits if_splits)

lemma DisconnectBlock_fixed:
  assumes "DisconnectBlock env db b pchain = Some (True, db')" "tl pchain \<noteq> []"
  shows "fixed db' = fixed db"
proof -
  obtain D dPrev where D: "DisconnectBlock_loop (bc_led env) (rev (vtx b)) db = (True, D)"
    "txdb_block D (mi_hash (hd (tl pchain))) = Some dPrev"
    "db' = fold (\<lambda>tx db. EraseTxIndex (bc_led env) db tx) (vtx b)
       (D\<lparr>txdb_block := (txdb_block D)(mi_hash (hd (tl pchain)) \<mapsto> dPrev\<lparr>db_hashNext := 0\<rparr>)\<rparr>)"
    using assms by (rule DisconnectBlock_parts)
  have "fixed db' = fixed (D\<lparr>txdb_block := (txdb_block D)(mi_hash (hd (tl pchain)) \<mapsto> dPrev\<lparr>db_hashNext := 0\<rparr>)\<rparr>)"
    unfolding D(3) by (rule fixed_cong) (simp add: fold_erase)
  also have "\<dots> = fixed D" by (rule fixed_write [OF D(2)]) simp_all
  also have "\<dots> = fixed db" by (rule fixed_cong [OF DisconnectBlock_loop_block [OF D(1)]])
  finally show ?thesis .
qed

lemma connect_step:
  assumes "ConnectBlock (chain_bc cv st) db r rMain b (m # p) False buffer = (Accept db', r')" "p \<noteq> []"
    and "chain_ledger cv (fixed db) p = Some (txdb_tx db)" "Block_ReadFromDisk cv (m # p) = Some b"
    and "mi_nFile m \<noteq> -1" "mi_hash m \<noteq> pm_hash p"
  shows "chain_ledger cv (fixed db) (m # p) = Some (txdb_tx db') \<and> fixed db' = fixed db"
proof -
  obtain d where d: "txdb_block db (mi_hash m) = Some d" using ConnectBlock_parts [OF assms(1)] by auto
  with ConnectBlock_ledger [OF assms(1)] assms(5)
  have "ledger_run (bc_tx (cv_bc cv)) (m # p) (first_tx_pos (db_nVersion d) (mi_nBlockPos m) (length (vtx b))) (vtx b)
      (txdb_tx db) = Some (txdb_tx db')" by (simp add: chain_bc_tx)
  moreover have "fixed db (mi_hash m) = Some (db_nVersion d, db_nHeight d, db_bnChainTrust d)" using d by (simp add: fixed_def)
  ultimately show ?thesis using assms ConnectBlock_fixed [OF assms(1)] by simp
qed

lemma disconnect_step:
  assumes "DisconnectBlock (chain_bc cv st) db b (m # p) = Some (True, db')" "p \<noteq> []"
    and "chain_ledger cv (fixed db) (m # p) = Some (txdb_tx db)" "Block_ReadFromDisk cv (m # p) = Some b"
    and "list_all (\<lambda>m. mi_nFile m \<noteq> -1) (m # p)" "unique_txs cv (m # p)" "\<forall>h. le_write_ok (bc_led (cv_bc cv)) h"
  shows "chain_ledger cv (fixed db) p = Some (txdb_tx db') \<and> fixed db' = fixed db"
proof -
  let ?te = "bc_tx (cv_bc cv)"
  from assms(3,2) obtain V b' ver ht where V: "chain_ledger cv (fixed db) p = Some V" "Block_ReadFromDisk cv (m # p) = Some b'"
    "fixed db (mi_hash m) = Some (ver, ht)" and run: "ledger_run ?te (m # p) (first_tx_pos ver (mi_nBlockPos m) (length (vtx b'))) (vtx b') V = Some (txdb_tx db)"
    by (rule chain_ledger_step)
  have b: "b' = b" using V(2) assms(4) by simp
  have u: "distinct (map (GetHash ?te) (vtx b))" "GetHash ?te ` set (vtx b) \<inter> GetHash ?te ` set (chain_txs cv p) = {}"
    using assms(2,4,6) by (auto simp: unique_txs_def)
  then have "GetHash ?te ` set (vtx b) \<inter> dom V = {}" using chain_ledger_dom [OF V(1)] by simp
  then have fresh: "\<forall>tx \<in> set (vtx b). V (GetHash ?te tx) = None" by (auto simp: dom_def disjoint_iff)
  have can: "canonical V" using chain_ledger_canonical [OF V(1)] assms(5) by simp
  obtain D dPrev where D: "DisconnectBlock_loop (bc_led (chain_bc cv st)) (rev (vtx b)) db = (True, D)"
    "db' = fold (\<lambda>tx db. EraseTxIndex (bc_led (chain_bc cv st)) db tx) (vtx b)
       (D\<lparr>txdb_block := (txdb_block D)(pm_hash p \<mapsto> dPrev\<lparr>db_hashNext := 0\<rparr>)\<rparr>)"
    using DisconnectBlock_parts [OF assms(1)] assms(2) by (metis list.sel(3))
  from run_undo [OF run [unfolded b] _ _ u(1) fresh can refl, of "bc_led (chain_bc cv st)"] assms(5,7) D(1)
  have undo: "txdb_tx D h = V h" if "h \<notin> GetHash ?te ` set (vtx b)" for h using that by auto
  have "txdb_tx db' h = V h" for h
    unfolding D(2) fold_erase using undo [of h] fresh by (auto simp: chain_bc_tx)
  then show ?thesis using V(1) DisconnectBlock_fixed [OF assms(1)] assms(2) by (simp add: fun_eq_iff)
qed

section \<open>Links in memory\<close>

text \<open>\<open>pnext\<close> and the table of heights describe exactly the blocks of a chain.\<close>

definition links :: "(uint256 \<Rightarrow> pmem option) \<Rightarrow> (int \<Rightarrow> pmem option) \<Rightarrow> pmem \<Rightarrow> bool" where
  "links pn lk p \<longleftrightarrow>
     (\<forall>h q. pn h = Some q \<longleftrightarrow> suffix q p \<and> tl q \<noteq> [] \<and> pm_hash (tl q) = h) \<and>
     (\<forall>n q. n \<ge> 1 \<longrightarrow> (lk n = Some q \<longleftrightarrow> suffix q p \<and> int (length q) = n + 1))"

lemma suffix_pm_hash:
  assumes "suffix q (m # p)" "q \<noteq> []" "distinct (map mi_hash (m # p))" "pm_hash q = mi_hash m"
  shows "q = m # p"
proof (rule ccontr)
  assume "q \<noteq> m # p"
  then have "suffix q p" using assms(1) by (simp add: suffix_Cons)
  then have "hd q \<in> set p" using assms(2) by (auto simp: suffix_def)
  then show False using assms(3,4) by (simp add: image_iff) metis
qed

lemma suffix_length_eq: "suffix q p \<Longrightarrow> length q = length p \<Longrightarrow> q = p"
  by (auto simp: suffix_def)

lemma suffix_tl_Cons: "suffix q (m # p) \<Longrightarrow> q \<noteq> [] \<Longrightarrow> suffix (tl q) p"
  by (cases q) (auto simp: suffix_Cons dest: suffix_ConsD)

lemma links_unlink:
  assumes "links pn lk (m # p)" "p \<noteq> []" "distinct (map mi_hash (m # p))"
  shows "links (pn(pm_hash p := None)) (lk(int (length p) := None)) p"
proof -
  have p: "p = hd p # tl p" using assms(2) by simp
  have 1: "suffix q p \<and> tl q \<noteq> [] \<longleftrightarrow> suffix q (m # p) \<and> tl q \<noteq> [] \<and> pm_hash (tl q) \<noteq> pm_hash p" for q
  proof
    assume q: "suffix q p \<and> tl q \<noteq> []"
    then have "suffix (tl q) (tl p)" using p suffix_tl_Cons [of q "hd p" "tl p"] by (metis list.sel(2))
    then have "hd (tl q) \<in> set (tl p)" using q by (auto simp: suffix_def)
    moreover have "pm_hash p \<notin> mi_hash ` set (tl p)" using assms(3) p by (metis distinct.simps(2) list.set_map list.simps(9))
    ultimately show "suffix q (m # p) \<and> tl q \<noteq> [] \<and> pm_hash (tl q) \<noteq> pm_hash p" using q by (auto simp: suffix_Cons image_iff)
  qed (auto simp: suffix_Cons)
  have 2: "suffix q p \<and> int (length q) = n + 1 \<longleftrightarrow> suffix q (m # p) \<and> int (length q) = n + 1" if "n \<noteq> int (length p)" for q n
    using that by (auto simp: suffix_Cons)
  have 3: "\<not> (suffix q p \<and> int (length q) = int (length p) + 1)" for q by (auto dest: suffix_length_le)
  show ?thesis unfolding links_def
  proof (intro conjI allI impI)
    show "(pn(pm_hash p := None)) h = Some q \<longleftrightarrow> suffix q p \<and> tl q \<noteq> [] \<and> pm_hash (tl q) = h" for h q
      using assms(1) 1 [of q] by (auto simp: links_def)
    show "(lk(int (length p) := None)) n = Some q \<longleftrightarrow> suffix q p \<and> int (length q) = n + 1" if "1 \<le> n" for n q
      using assms(1) 2 [of n q] 3 [of q] that by (cases "n = int (length p)") (simp_all add: links_def)
  qed
qed

lemma links_link:
  assumes "links pn lk p" "p \<noteq> []" "distinct (map mi_hash (m # p))"
  shows "links (pn(pm_hash p \<mapsto> m # p)) (lk(int (length p) \<mapsto> m # p)) (m # p)"
proof -
  have p: "p = hd p # tl p" using assms(2) by simp
  have d: "distinct (map mi_hash p)" using assms(3) by simp
  have 1: "pm_hash (tl q) \<noteq> pm_hash p" if q: "suffix q p" "tl q \<noteq> []" for q
  proof
    assume "pm_hash (tl q) = pm_hash p"
    moreover have "suffix (tl q) p" using q(1) by (meson suffix_order.order_trans suffix_tl)
    ultimately have "tl q = p" using suffix_pm_hash [of "tl q" "hd p" "tl p"] p d q(2) by simp
    then show False using suffix_length_le [OF q(1)] q(2) by (metis length_tl diff_less length_greater_0_conv less_le_not_le list.sel(2) zero_less_one le_less_trans)
  qed
  show ?thesis unfolding links_def
  proof (intro conjI allI impI)
    show "(pn(pm_hash p \<mapsto> m # p)) h = Some q \<longleftrightarrow> suffix q (m # p) \<and> tl q \<noteq> [] \<and> pm_hash (tl q) = h" for h q
      using assms(1,2) 1 [of q] by (auto simp: links_def suffix_Cons)
    show "(lk(int (length p) \<mapsto> m # p)) n = Some q \<longleftrightarrow> suffix q (m # p) \<and> int (length q) = n + 1" if "1 \<le> n" for n q
      using assms(1) that suffix_length_le [of q p] by (auto simp: links_def suffix_Cons)
  qed
qed

text \<open>Branches of a chain.\<close>

fun ascends :: "pmem \<Rightarrow> pmem list \<Rightarrow> pmem \<Rightarrow> bool" where
  "ascends q [] p \<longleftrightarrow> p = q"
| "ascends q (x # xs) p \<longleftrightarrow> x \<noteq> [] \<and> tl x = q \<and> ascends x xs p"

lemma ascends_snoc: "ascends q (xs @ [x]) p \<longleftrightarrow> x \<noteq> [] \<and> ascends q xs (tl x) \<and> p = x"
  by (induction xs arbitrary: q) auto

lemma ascends_branch: "suffix fork p \<Longrightarrow> ascends fork (rev (branch p fork)) p"
  by (induction p) (auto simp: ascends_snoc suffix_Cons)

lemma ascends_suffix: "ascends q xs p \<Longrightarrow> suffix q p"
proof (induction xs arbitrary: q)
  case (Cons x xs)
  then have "suffix x p" "tl x = q" by auto
  then show ?case by (meson suffix_order.order_trans suffix_tl)
qed simp

lemma walk_longer_suffix: "walk_longer p nL nF = Some (q, n) \<Longrightarrow> suffix q p \<and> q \<noteq> []"
  by (induction p arbitrary: nL) (auto simp: suffix_Cons split: if_splits)

lemma find_fork_suffix:
  "find_fork p nF q nL = Some f \<Longrightarrow> suffix f p \<and> suffix f q \<and> f \<noteq> []"
proof (induction p arbitrary: nF q nL)
  case (Cons m p)
  show ?case
  proof (cases "m # p = q")
    case False
    then obtain q' n where w: "walk_longer q nL nF = Some (q', n)" using Cons.prems by (auto split: option.splits)
    note sw = walk_longer_suffix [OF w]
    show ?thesis
    proof (cases "m # p = q'")
      case True
      then show ?thesis using Cons.prems False w sw by auto
    next
      case neq: False
      then have "find_fork p (nF - 1) q' n = Some f" using Cons.prems False w by (auto split: if_splits)
      from Cons.IH [OF this] sw show ?thesis by (auto simp: suffix_Cons intro: suffix_order.trans)
    qed
  qed (use Cons.prems in auto)
qed simp

section \<open>States\<close>

abbreviation ch_fixed :: "chain_state \<Rightarrow> uint256 \<Rightarrow> (int \<times> int \<times> int) option" where
  "ch_fixed st \<equiv> fixed (cd_tables (ch_disk st))"

text \<open>Every block of the chain is in the index in memory and, with its height, in the one on disk.\<close>

definition known :: "(uint256 \<Rightarrow> pmem option) \<Rightarrow> (uint256 \<Rightarrow> (int \<times> int \<times> int) option) \<Rightarrow> pmem \<Rightarrow> bool" where
  "known ix fx p \<longleftrightarrow> p \<noteq> [] \<and> (\<forall>q. suffix q p \<longrightarrow> q \<noteq> [] \<longrightarrow> ix (pm_hash q) = Some q \<and> mi_nFile (hd q) \<noteq> -1 \<and>
     (\<exists>ver trust. fx (pm_hash q) = Some (ver, int (length q) - 1, trust)))"

text \<open>The index of transactions and the links belong to the chain \<open>p\<close>.\<close>

definition on_chain :: "chain_env \<Rightarrow> chain_state \<Rightarrow> pmem \<Rightarrow> bool" where
  "on_chain cv st p \<longleftrightarrow> ch_batch st = None \<and> chain_ledger cv (ch_fixed st) p = Some (txdb_tx (cd_tables (ch_disk st))) \<and>
     links (ch_pnext st) (mapBlockLookup st) p \<and> cd_hashBestChain (ch_disk st) = pm_hash p"

definition keeps :: "chain_state \<Rightarrow> chain_state \<Rightarrow> bool" where
  "keeps st st' \<longleftrightarrow> mapBlockIndex st' = mapBlockIndex st \<and> pmemIndexGenesisBlock st' = pmemIndexGenesisBlock st \<and>
     pmemIndexBest st' = pmemIndexBest st \<and> ch_pindexBest st' = ch_pindexBest st \<and> hashBestChain st' = hashBestChain st \<and>
     ch_nBestHeight st' = ch_nBestHeight st \<and> bnBestChainTrust st' = bnBestChainTrust st \<and> ch_fixed st' = ch_fixed st"

lemma keeps_refl [simp]: "keeps st st" and keeps_trans: "keeps st st' \<Longrightarrow> keeps st' st'' \<Longrightarrow> keeps st st''"
  by (simp_all add: keeps_def)

lemma known_suffix: "known ix fx p \<Longrightarrow> suffix q p \<Longrightarrow> q \<noteq> [] \<Longrightarrow> known ix fx q"
  unfolding known_def by (meson suffix_order.order_trans)

lemma known_Cons: "known ix fx (m # p) \<Longrightarrow> p \<noteq> [] \<Longrightarrow> known ix fx p"
  by (erule known_suffix) (auto simp: suffix_Cons)

lemma known_nFile: "known ix fx p \<Longrightarrow> list_all (\<lambda>m. mi_nFile m \<noteq> -1) p"
proof (induction p)
  case (Cons m p)
  have "mi_nFile m \<noteq> -1" using Cons.prems unfolding known_def by (metis list.sel(1) suffix_order.refl)
  then show ?case using Cons known_Cons by (cases "p = []") auto
qed simp

lemma known_distinct: "known ix fx p \<Longrightarrow> distinct (map mi_hash p)"
proof (induction p)
  case (Cons m p)
  have "mi_hash m \<notin> mi_hash ` set p"
  proof
    assume "mi_hash m \<in> mi_hash ` set p"
    then obtain xs x ys where x: "p = xs @ x # ys" "mi_hash x = mi_hash m" by (metis image_iff split_list)
    then have "suffix (x # ys) (m # p)" by (simp add: suffix_def)
    then have "ix (mi_hash x) = Some (x # ys)" "ix (mi_hash m) = Some (m # p)"
      using Cons.prems unfolding known_def by (metis list.distinct(1) list.sel(1) suffix_order.refl)+
    then show False using x by (metis append_eq_append_conv2 length_Cons length_append less_not_refl3 not_add_less2 option.inject lessI list.inject)
  qed
  then show ?case using Cons known_Cons by (cases "p = []") auto
qed simp

lemma known_height:
  "known ix fx p \<Longrightarrow> fixed db = fx \<Longrightarrow> \<exists>d. txdb_block db (pm_hash p) = Some d \<and> db_nHeight d = int (length p) - 1"
proof -
  assume a: "known ix fx p" "fixed db = fx"
  then obtain ver trust where "fixed db (pm_hash p) = Some (ver, int (length p) - 1, trust)"
    unfolding known_def by (metis suffix_order.refl)
  then show ?thesis by (auto simp: fixed_def)
qed

lemma known_prev:
  assumes "known ix fx p" "tl p \<noteq> []" "known ix fx q" "pm_hash (tl p) = pm_hash q"
  shows "p = hd p # q"
proof -
  have "ix (pm_hash (tl p)) = Some (tl p)" using assms(1,2) suffix_tl [of p] by (auto simp: known_def)
  moreover have "ix (pm_hash q) = Some q" using assms(3) by (auto simp: known_def)
  ultimately have "tl p = q" using assms(4) by (metis option.inject)
  then show ?thesis using assms(2) by (cases p) auto
qed

lemma unique_txs_suffix: "unique_txs cv p \<Longrightarrow> suffix q p \<Longrightarrow> unique_txs cv q"
proof (induction p)
  case (Cons m p)
  show ?case
  proof (cases "q = m # p \<or> p = []")
    case True
    then show ?thesis using Cons.prems by (auto simp: suffix_Cons unique_txs_def)
  next
    case False
    then have "suffix q p" using Cons.prems(2) by (simp add: suffix_Cons)
    moreover have "unique_txs cv p" using Cons.prems(1) False by (simp add: unique_txs_def)
    ultimately show ?thesis using Cons.IH by blast
  qed
qed simp

section \<open>What the steps leave alone\<close>

definition snap_only :: "chain_state \<Rightarrow> chain_state \<Rightarrow> bool" where
  "snap_only st st' \<longleftrightarrow> (\<exists>s. st' = st\<lparr>ch_snapshots := s\<rparr>)"

lemma snap_only_refl [simp, intro]: "snap_only st st"
  by (auto simp: snap_only_def intro: exI [of _ "ch_snapshots st"])

lemma snap_only_upd [intro]: "snap_only st (st\<lparr>ch_snapshots := s\<rparr>)"
  by (auto simp: snap_only_def)

lemma snap_only_trans: "snap_only st st' \<Longrightarrow> snap_only st' st'' \<Longrightarrow> snap_only st st''"
  by (auto simp: snap_only_def)

lemma Returned_Some: "(case res of Returned ok r \<Rightarrow> Some (f ok r) | Exited r \<Rightarrow> None) = Some y \<longleftrightarrow> (\<exists>ok r. res = Returned ok r \<and> f ok r = y)"
  by (cases res) auto

lemma replay_block_state: "replay_block cv t p r st = Some (ok, r', st') \<Longrightarrow> snap_only st st'"
  by (auto simp: replay_block_def Let_def bind_eq_Some_conv Returned_Some)

lemma replay_blocks_state: "replay_blocks cv t ps r st = Some (ok, r', st') \<Longrightarrow> snap_only st st'"
proof (induction ps arbitrary: r st)
  case (Cons p ps)
  then obtain ok1 r1 st1 where 1: "replay_block cv t p r st = Some (ok1, r1, st1)" by (auto split: option.splits)
  note s = replay_block_state [OF 1]
  show ?case
  proof (cases ok1)
    case True
    then show ?thesis using Cons.IH [of r1 st1] Cons.prems 1 s by (auto intro: snap_only_trans)
  qed (use Cons.prems 1 s in auto)
qed auto

lemma RewindRegistry_state:
  assumes "RewindRegistry cv r p q t st = Some (ok, r', f, st')"
  shows "snap_only st st'"
proof (rule ccontr)
  assume no: "\<not> snap_only st st'"
  then have ne: "st' \<noteq> st" by auto
  obtain d where d: "ReadDiskBlockIndex st p = Some d" "\<not> cv_fork cv (db_nHeight d) < XST_FORKPURCHASE" "tl p \<noteq> []"
    using assms ne by (cases "ReadDiskBlockIndex st p") (auto simp: RewindRegistry_def split: if_splits)
  obtain ok1 r1 f1 where 1: "rewind_find cv st (db_nHeight d) p (db_nHeight d) None r = (ok1, r1, f1)" by (metis prod_cases3)
  have ok1: "ok1" using assms ne d 1 by (cases ok1) (auto simp: RewindRegistry_def)
  obtain dTo where dTo: "ReadDiskBlockIndex st q = Some dTo" "tl q \<noteq> []"
    using assms ne d 1 ok1 by (cases "ReadDiskBlockIndex st q") (auto simp: RewindRegistry_def split: if_splits)
  obtain v g n where v: "replay_list cv st (hashBlock r1) (tl q) (db_nHeight dTo - 1) = Some (v, g, n)"
    using assms ne d 1 ok1 dTo by (cases "replay_list cv st (hashBlock r1) (tl q) (db_nHeight dTo - 1)") (auto simp: RewindRegistry_def)
  obtain r2 where "replay_blocks cv t (rev (q # v)) r1 st = Some (ok, r2, st')"
    using assms ne d 1 ok1 dTo v
    by (auto simp del: rev.simps replay_blocks.simps simp: RewindRegistry_def split: option.split_asm if_split_asm)
  from replay_blocks_state [OF this] no show False by blast
qed

lemma replay_all_state:
  assumes "replay_all cv n cur r st = Some y"
  shows "snap_only st (snd y)"
  using assms
proof (induction cv n cur r st y rule: replay_all.raw_induct [rotated, consumes 1, case_names 1])
  case (1 f cv n cur r st y)
  note IH = 1(1)
  show ?case
  proof (cases "ch_pnext st (pm_hash cur)")
    case None
    then show ?thesis using 1(2) by auto
  next
    case (Some c)
    then obtain ok r1 st1 where b: "replay_block cv ALL_SNAPS c r st = Some (ok, r1, st1)" using 1(2) by (auto split: option.splits)
    have "y = (r1, st1) \<or> f cv n c r1 st1 = Some y"
      using 1(2) Some b by (auto split: option.splits if_splits)
    then show ?thesis using IH [of cv n c r1 st1 y] replay_block_state [OF b] snap_only_trans by auto
  qed
qed

lemma replay_until_state:
  assumes "replay_until cv n cur r st = Some y"
  shows "snap_only st (snd (snd y))"
  using assms
proof (induction cv n cur r st y rule: replay_until.raw_induct [rotated, consumes 1, case_names 1])
  case (1 f cv n cur r st y)
  note IH = 1(1)
  show ?case
  proof (cases "cur = n \<or> ch_pnext st (pm_hash cur) = None")
    case True
    then show ?thesis using 1(2) by (auto split: if_splits)
  next
    case False
    then obtain c ok1 r1 st1 where b: "ch_pnext st (pm_hash cur) = Some c" "replay_block cv ALL_SNAPS c r st = Some (ok1, r1, st1)"
      "f cv n c r1 st1 = Some y" using 1(2) by (auto split: option.splits if_splits)
    from replay_block_state [OF b(2)] IH [OF b(3)] show ?thesis by (auto intro: snap_only_trans)
  qed
qed

lemma resurrect_state: "resurrect cv txs st = Some st' \<Longrightarrow> \<exists>mp. st' = st\<lparr>mempool := mp\<rparr>"
proof (induction txs arbitrary: st)
  case Nil
  then show ?case by (auto intro: exI [of _ "mempool st"])
next
  case (Cons tx txs)
  then obtain mp where "resurrect cv txs (st\<lparr>mempool := mp\<rparr>) = Some st'"
    by (auto split: prod.splits verdict.splits)
  from Cons.IH [OF this] show ?case by auto
qed

lemma remove_txs_state: "remove_txs cv txs st = Some st' \<Longrightarrow> \<exists>mp. st' = st\<lparr>mempool := mp\<rparr>"
proof (induction txs arbitrary: st)
  case Nil
  then show ?case by (auto intro: exI [of _ "mempool st"])
next
  case (Cons tx txs)
  then obtain mp where "remove_txs cv txs (st\<lparr>mempool := mp\<rparr>) = Some st'" by (auto split: option.splits)
  from Cons.IH [OF this] show ?case by auto
qed

section \<open>The links of a reorganisation\<close>

lemma ReadDiskBlockIndex_height:
  assumes "known ix (fixed (cd_tables (txdb_view st))) p"
  shows "\<exists>d. ReadDiskBlockIndex st p = Some d \<and> db_nHeight d = int (length p) - 1"
  using known_height [OF assms refl] by (simp add: ReadDiskBlockIndex_def)

lemma relink_unlink:
  assumes "known ix (fixed (cd_tables (txdb_view st))) p" "suffix fork p" "fork \<noteq> []" "links (ch_pnext st) (mapBlockLookup st) p"
  shows "\<exists>pn lk. relink unlink (branch p fork) st = Some (st\<lparr>ch_pnext := pn, mapBlockLookup := lk\<rparr>) \<and> links pn lk fork"
  using assms
proof (induction p arbitrary: st)
  case (Cons m p)
  show ?case
  proof (cases "m # p = fork")
    case True
    with Cons.prems(4) show ?thesis by (auto intro!: exI [of _ "ch_pnext st"] exI [of _ "mapBlockLookup st"])
  next
    case False
    then have p: "suffix fork p" "p \<noteq> []" using Cons.prems(2,3) by (auto simp: suffix_Cons)
    obtain d where d: "ReadDiskBlockIndex st (m # p) = Some d" "db_nHeight d = int (length p)"
      using ReadDiskBlockIndex_height [OF Cons.prems(1)] by auto
    let ?st = "unlink (m # p) (db_nHeight d) st"
    have v: "txdb_view ?st = txdb_view st" by (cases "ch_batch st") (simp_all add: txdb_view_def unlink_def)
    have "links (ch_pnext ?st) (mapBlockLookup ?st) p"
      using links_unlink [OF Cons.prems(4) p(2) known_distinct [OF Cons.prems(1)]] p(2) d(2) by (simp add: unlink_def)
    from Cons.IH [OF _ p(1) Cons.prems(3) this] known_Cons [OF Cons.prems(1) p(2)] v obtain pn lk where
      "relink unlink (branch p fork) ?st = Some (?st\<lparr>ch_pnext := pn, mapBlockLookup := lk\<rparr>)" "links pn lk fork" by auto
    moreover have "?st\<lparr>ch_pnext := pn, mapBlockLookup := lk\<rparr> = st\<lparr>ch_pnext := pn, mapBlockLookup := lk\<rparr>" by (simp add: unlink_def)
    ultimately show ?thesis using False d(1) by (intro exI [of _ pn] exI [of _ lk]) simp
  qed
qed simp

lemma relink_link:
  assumes "known ix (fixed (cd_tables (txdb_view st))) p" "ascends q xs p" "q \<noteq> []" "links (ch_pnext st) (mapBlockLookup st) q"
  shows "\<exists>pn lk. relink link xs st = Some (st\<lparr>ch_pnext := pn, mapBlockLookup := lk\<rparr>) \<and> links pn lk p"
  using assms
proof (induction xs arbitrary: q st)
  case Nil
  then show ?case by (auto intro!: exI [of _ "ch_pnext st"] exI [of _ "mapBlockLookup st"])
next
  case (Cons x xs)
  then obtain m where x: "x = m # q" by (cases x) auto
  have asc: "ascends x xs p" using Cons.prems(2) by simp
  have kx: "known ix (fixed (cd_tables (txdb_view st))) x"
    by (rule known_suffix [OF Cons.prems(1) ascends_suffix [OF asc]]) (simp add: x)
  obtain d where d: "ReadDiskBlockIndex st x = Some d" "db_nHeight d = int (length q)"
    using ReadDiskBlockIndex_height [OF kx] x by auto
  let ?st = "link x (db_nHeight d) st"
  have v: "txdb_view ?st = txdb_view st" by (cases "ch_batch st") (simp_all add: txdb_view_def link_def)
  have "links (ch_pnext ?st) (mapBlockLookup ?st) x"
    using links_link [OF Cons.prems(4,3), of m] known_distinct [OF kx] Cons.prems(3) d(2) x by (simp add: link_def)
  from Cons.IH [OF _ asc _ this] Cons.prems(1) v x obtain pn lk where
    "relink link xs ?st = Some (?st\<lparr>ch_pnext := pn, mapBlockLookup := lk\<rparr>)" "links pn lk p" by auto
  moreover have "?st\<lparr>ch_pnext := pn, mapBlockLookup := lk\<rparr> = st\<lparr>ch_pnext := pn, mapBlockLookup := lk\<rparr>" by (simp add: link_def)
  ultimately show ?case using d(1) by (intro exI [of _ pn] exI [of _ lk]) simp
qed

lemma links_connected: "links pn lk (tl p) \<Longrightarrow> ch_pnext st = pn \<Longrightarrow> properly_connected st p"
  by (auto simp: properly_connected_def links_def)

section \<open>The tables of a reorganisation\<close>

lemma put_tables_batch: "ch_batch st = Some d \<Longrightarrow> put_tables db st = st\<lparr>ch_batch := Some (d\<lparr>cd_tables := db\<rparr>)\<rparr>"
  by (simp add: put_tables_def)

lemma view_batch [simp]: "ch_batch st = Some d \<Longrightarrow> txdb_view st = d"
  by (simp add: txdb_view_def)

lemma Reorganize_disconnect_chain:
  assumes "Reorganize_disconnect cv (branch p fork) res st = (Accept res', st')"
    and "ch_batch st = Some d" "chain_ledger cv (fixed (cd_tables d)) p = Some (txdb_tx (cd_tables d))"
    and "known ix (fixed (cd_tables d)) p" "suffix fork p" "fork \<noteq> []" "unique_txs cv p"
    and ok: "\<forall>h. le_write_ok (bc_led (cv_bc cv)) h"
  shows "\<exists>d'. st' = st\<lparr>ch_batch := Some d'\<rparr> \<and> chain_ledger cv (fixed (cd_tables d)) fork = Some (txdb_tx (cd_tables d')) \<and>
    fixed (cd_tables d') = fixed (cd_tables d)"
  using assms(1-7)
proof (induction p arbitrary: res st d)
  case (Cons m p)
  show ?case
  proof (cases "m # p = fork")
    case True
    then show ?thesis using Cons.prems by (auto intro!: exI [of _ d])
  next
    case False
    then have p: "suffix fork p" "p \<noteq> []" using Cons.prems(5,6) by (auto simp: suffix_Cons)
    obtain b db res1 where b: "Block_ReadFromDisk cv (m # p) = Some b"
      and dc: "DisconnectBlock (chain_bc cv st) (cd_tables d) b (m # p) = Some (True, db)"
      and rest: "Reorganize_disconnect cv (branch p fork) res1 (put_tables db st) = (Accept res', st')"
      using Cons.prems(1,2) False by (auto split: option.splits prod.splits bool.splits)
    from disconnect_step [OF dc p(2) Cons.prems(3) b known_nFile [OF Cons.prems(4)] Cons.prems(7) ok]
    have st: "chain_ledger cv (fixed db) p = Some (txdb_tx db)" "fixed db = fixed (cd_tables d)" by simp_all
    have "unique_txs cv p" using unique_txs_suffix [OF Cons.prems(7)] by (simp add: suffix_Cons)
    from Cons.IH [OF rest _ _ _ p(1) Cons.prems(6) this, of "d\<lparr>cd_tables := db\<rparr>"] st Cons.prems(2) known_Cons [OF Cons.prems(4) p(2)]
    show ?thesis by (auto simp: put_tables_batch)
  qed
qed simp

lemma Reorganize_connect_chain:
  assumes "Reorganize_connect cv xs r del st = (Accept del', st')"
    and "ch_batch st = Some d" "chain_ledger cv (fixed (cd_tables d)) q = Some (txdb_tx (cd_tables d))" "q \<noteq> []"
    and "ascends q xs p" "known ix (fixed (cd_tables d)) p"
  shows "\<exists>d' s. st' = st\<lparr>ch_batch := Some d', ch_snapshots := s\<rparr> \<and>
    chain_ledger cv (fixed (cd_tables d)) p = Some (txdb_tx (cd_tables d')) \<and> fixed (cd_tables d') = fixed (cd_tables d)"
  using assms
proof (induction xs arbitrary: r del st d q)
  case Nil
  then show ?case by (auto intro!: exI [of _ d] exI [of _ "ch_snapshots st"])
next
  case (Cons x xs)
  then obtain m where x: "x = m # q" by (cases x) auto
  have asc: "ascends x xs p" using Cons.prems(5) by simp
  have kx: "known ix (fixed (cd_tables d)) x"
    by (rule known_suffix [OF Cons.prems(6) ascends_suffix [OF asc]]) (simp add: x)
  obtain b db r1 r2 st1 where b: "Block_ReadFromDisk cv x = Some b"
    and c: "ConnectBlock (chain_bc cv st) (cd_tables d) r (cv_pregistryMain cv) b x False (cv_buffer cv) = (Accept db, r1)"
    and rb: "replay_block cv ALL_SNAPS x r1 (put_tables db st) = Some (True, r2, st1)"
    and rest: "Reorganize_connect cv xs r2 (del @ vtx b) st1 = (Accept del', st')"
    using Cons.prems(1,2) by (auto split: option.splits prod.splits bool.splits verdict.splits)
  obtain s where s: "st1 = st\<lparr>ch_batch := Some (d\<lparr>cd_tables := db\<rparr>), ch_snapshots := s\<rparr>"
    using replay_block_state [OF rb] Cons.prems(2) by (auto simp: snap_only_def put_tables_batch)
  have "mi_nFile m \<noteq> -1" "mi_hash m \<noteq> pm_hash q"
    using known_nFile [OF kx] known_distinct [OF kx] Cons.prems(4) x by (cases q; auto)+
  from connect_step [OF c [unfolded x] Cons.prems(4,3) b [unfolded x] this]
  have st: "chain_ledger cv (fixed db) x = Some (txdb_tx db)" "fixed db = fixed (cd_tables d)" by (simp_all add: x)
  from Cons.IH [OF rest _ _ _ asc, of "d\<lparr>cd_tables := db\<rparr>"] st Cons.prems(6) s x show ?case by auto
qed

lemma WriteHashBestChain_batch:
  "WriteHashBestChain cv h st = (True, st') \<Longrightarrow> ch_batch st = Some d \<Longrightarrow> st' = st\<lparr>ch_batch := Some (d\<lparr>cd_hashBestChain := h\<rparr>)\<rparr>"
  by (auto simp: WriteHashBestChain_def split: if_splits)

lemma TxnCommit_True: "TxnCommit cv st = Some (True, st') \<Longrightarrow> \<exists>d. ch_batch st = Some d \<and> st' = st\<lparr>ch_disk := d, ch_batch := None\<rparr>"
  by (auto simp: TxnCommit_def split: option.splits if_splits)

lemma Reorganize_db_chain:
  assumes "Reorganize_db cv p fork (branch best fork) (rev (branch p fork)) st = (Accept (res, del), st')"
    and "ch_batch st = Some d" "chain_ledger cv (fixed (cd_tables d)) best = Some (txdb_tx (cd_tables d))"
    and "known ix (fixed (cd_tables d)) best" "known ix (fixed (cd_tables d)) p" "suffix fork best" "suffix fork p" "fork \<noteq> []"
    and "unique_txs cv best" "\<forall>h. le_write_ok (bc_led (cv_bc cv)) h"
  shows "\<exists>d' s. st' = st\<lparr>ch_disk := d', ch_batch := None, ch_snapshots := s\<rparr> \<and> cd_hashBestChain d' = pm_hash p \<and>
    chain_ledger cv (fixed (cd_tables d)) p = Some (txdb_tx (cd_tables d')) \<and> fixed (cd_tables d') = fixed (cd_tables d)"
proof -
  obtain st1 ok r f st2 st3 st4 where 1: "Reorganize_disconnect cv (branch best fork) [] st = (Accept res, st1)"
    and 2: "RewindRegistry cv (QPRegistry_new (bc_qp (cv_bc cv))) fork fork ALL_SNAPS st1 = Some (ok, r, f, st2)"
    and 3: "Reorganize_connect cv (rev (branch p fork)) r [] st2 = (Accept del, st3)"
    and 4: "WriteHashBestChain cv (pm_hash p) st3 = (True, st4)" and 5: "TxnCommit cv st4 = Some (True, st')"
    using assms(1) by (auto simp: Reorganize_db_def split: option.splits prod.splits bool.splits verdict.splits)
  from Reorganize_disconnect_chain [OF 1 assms(2-4,6,8-10)] obtain d1 where
    d1: "st1 = st\<lparr>ch_batch := Some d1\<rparr>" "chain_ledger cv (fixed (cd_tables d)) fork = Some (txdb_tx (cd_tables d1))"
    "fixed (cd_tables d1) = fixed (cd_tables d)" by blast
  from RewindRegistry_state [OF 2] obtain s1 where s1: "st2 = st1\<lparr>ch_snapshots := s1\<rparr>" by (auto simp: snap_only_def)
  from Reorganize_connect_chain [OF 3 _ _ assms(8) ascends_branch [OF assms(7)], of d1 ix] d1 s1 assms(5) obtain d2 s2 where
    d2: "st3 = st\<lparr>ch_batch := Some d2, ch_snapshots := s2\<rparr>" "chain_ledger cv (fixed (cd_tables d)) p = Some (txdb_tx (cd_tables d2))"
    "fixed (cd_tables d2) = fixed (cd_tables d)" by auto
  from WriteHashBestChain_batch [OF 4] TxnCommit_True [OF 5] d2
  show ?thesis by (auto intro!: exI [of _ "d2\<lparr>cd_hashBestChain := pm_hash p\<rparr>"] exI [of _ s2])
qed

text \<open>After the commit nothing is rejected any more, since the links were those of the old chain.\<close>

lemma Reorganize_memory_chain:
  assumes "Reorganize_db cv p fork (branch (pmemIndexBest st) fork) (rev (branch p fork)) st = (Accept (res, del), st1)"
    "Reorganize_memory cv (branch (pmemIndexBest st) fork) (rev (branch p fork)) res del st1 = (v, st')"
    and "ch_batch st = Some (ch_disk st)" "on_chain cv (st\<lparr>ch_batch := None\<rparr>) (pmemIndexBest st)"
    and "known (mapBlockIndex st) (ch_fixed st) (pmemIndexBest st)" "known (mapBlockIndex st) (ch_fixed st) p"
    and f: "suffix fork (pmemIndexBest st)" "suffix fork p" "fork \<noteq> []"
    and "unique_txs cv (pmemIndexBest st)" "\<forall>h. le_write_ok (bc_led (cv_bc cv)) h"
  shows "v = Abort \<or> v = Accept () \<and> on_chain cv st' p \<and> keeps st st'"
proof -
  let ?best = "pmemIndexBest st"
  have l: "chain_ledger cv (ch_fixed st) ?best = Some (txdb_tx (cd_tables (ch_disk st)))" "links (ch_pnext st) (mapBlockLookup st) ?best"
    using assms(4) by (simp_all add: on_chain_def)
  from Reorganize_db_chain [OF assms(1,3) l(1) assms(5,6) f assms(10,11)] obtain d' s where
    d': "st1 = st\<lparr>ch_disk := d', ch_batch := None, ch_snapshots := s\<rparr>" "cd_hashBestChain d' = pm_hash p"
    "chain_ledger cv (ch_fixed st) p = Some (txdb_tx (cd_tables d'))" "fixed (cd_tables d') = ch_fixed st" by blast
  have v: "fixed (cd_tables (txdb_view (st1\<lparr>ch_pnext := pn, mapBlockLookup := lk\<rparr>))) = ch_fixed st"
    "fixed (cd_tables (txdb_view st1)) = ch_fixed st" for pn lk
    using d' by (simp_all add: txdb_view_def)
  from relink_unlink [of "mapBlockIndex st" st1 ?best fork] assms(5) f l(2) v d'(1) obtain pn1 lk1 where
    u: "relink unlink (branch ?best fork) st1 = Some (st1\<lparr>ch_pnext := pn1, mapBlockLookup := lk1\<rparr>)" "links pn1 lk1 fork" by auto
  from relink_link [of "mapBlockIndex st" "st1\<lparr>ch_pnext := pn1, mapBlockLookup := lk1\<rparr>" p fork "rev (branch p fork)"]
    assms(6) ascends_branch [OF f(2)] f(3) v u(2) obtain pn2 lk2 where
    k: "relink link (rev (branch p fork)) (st1\<lparr>ch_pnext := pn1, mapBlockLookup := lk1\<rparr>) =
        Some (st1\<lparr>ch_pnext := pn2, mapBlockLookup := lk2\<rparr>)" "links pn2 lk2 p" by auto
  have pc: "properly_connected (st1\<lparr>ch_pnext := pn1, mapBlockLookup := lk1\<rparr>) (hd (rev (branch p fork)))" if "rev (branch p fork) \<noteq> []"
    using that ascends_branch [OF f(2)] links_connected [of pn1 lk1 "hd (rev (branch p fork))"] u(2)
    by (cases "rev (branch p fork)") auto
  show ?thesis
  proof (cases "v = Abort")
    case False
    then obtain st2 where r: "resurrect cv res (st1\<lparr>ch_pnext := pn2, mapBlockLookup := lk2\<rparr>) = Some st2" "remove_txs cv del st2 = Some st'"
      and v: "v = Accept ()"
      using assms(2) u(1) k(1) pc by (auto simp: Reorganize_memory_def split: option.splits if_splits)
    from resurrect_state [OF r(1)] remove_txs_state [OF r(2)] obtain mp where
      "st' = st1\<lparr>ch_pnext := pn2, mapBlockLookup := lk2, mempool := mp\<rparr>" by auto
    then show ?thesis using d' k(2) v by (simp add: on_chain_def keeps_def)
  qed simp
qed

lemma Reorganize_chain:
  assumes "Reorganize cv p st = (Accept fork, st')" "ch_batch st = Some (ch_disk st)"
    and "on_chain cv (st\<lparr>ch_batch := None\<rparr>) (pmemIndexBest st)"
    and "known (mapBlockIndex st) (ch_fixed st) (pmemIndexBest st)" "known (mapBlockIndex st) (ch_fixed st) p"
    and "unique_txs cv (pmemIndexBest st)" "\<forall>h. le_write_ok (bc_led (cv_bc cv)) h"
  shows "on_chain cv st' p \<and> keeps st st'"
proof -
  obtain res del st1 where
    f: "suffix fork (pmemIndexBest st)" "suffix fork p" "fork \<noteq> []"
    and 1: "Reorganize_db cv p fork (branch (pmemIndexBest st) fork) (rev (branch p fork)) st = (Accept (res, del), st1)"
    and 2: "Reorganize_memory cv (branch (pmemIndexBest st) fork) (rev (branch p fork)) res del st1 = (Accept (), st')"
    using assms(1) find_fork_suffix
    by (auto simp: Reorganize_def Let_def split: option.splits prod.splits verdict.splits)
  from Reorganize_memory_chain [OF 1 2 assms(2-5) f assms(6,7)] show ?thesis by simp
qed

section \<open>Extending the chain\<close>

lemma fail_invalid_chain:
  assumes "fail_invalid cv p st = (v, st')" "v \<noteq> Abort" "ch_batch st = Some d" "fixed (cd_tables d) = ch_fixed st"
    and "on_chain cv (st\<lparr>ch_batch := None\<rparr>) q"
  shows "v = Reject 0 \<and> on_chain cv st' q \<and> keeps st st'"
proof -
  let ?st = "TxnAbort cv st"
  have "fixed ((cd_tables (ch_disk st))\<lparr>txdb_block :=
      (\<lambda>h. if cv_cached cv h then txdb_block (cd_tables d) h else txdb_block (cd_tables (ch_disk st)) h)\<rparr>) = ch_fixed st"
    using assms(4) by (auto simp: fixed_def fun_eq_iff)
  then have "on_chain cv ?st q \<and> keeps st ?st"
    using assms(3,5) by (simp add: TxnAbort_def on_chain_def keeps_def Let_def)
  moreover have "v = Reject 0 \<and> (\<exists>n. st' = ?st\<lparr>bnBestInvalidTrust := n\<rparr>)"
    using assms(1,2) by (auto simp: fail_invalid_def InvalidChainFound_def split: option.splits)
  ultimately show ?thesis by (auto simp: on_chain_def keeps_def)
qed

lemma SetBestChainInner_chain:
  assumes "SetBestChainInner cv b (m # q) r st = (v, r', st')" "v \<noteq> Abort"
    and "ch_batch st = Some (ch_disk st)" "on_chain cv (st\<lparr>ch_batch := None\<rparr>) q" "q \<noteq> []"
    and "known (mapBlockIndex st) (ch_fixed st) (m # q)" "Block_ReadFromDisk cv (m # q) = Some b"
  shows "on_chain cv st' (if v = Accept () then m # q else q) \<and> keeps st st'"
proof -
  let ?p = "m # q"
  have l: "chain_ledger cv (ch_fixed st) q = Some (txdb_tx (cd_tables (ch_disk st)))" "links (ch_pnext st) (mapBlockLookup st) q"
    using assms(4) by (simp_all add: on_chain_def)
  have h: "block_hash (cv_bc cv) b = mi_hash m"
    using assms(7) by (auto simp: Block_ReadFromDisk_def split: option.splits if_splits)
  obtain w r1 where c: "ConnectBlock (chain_bc cv st) (cd_tables (ch_disk st)) r (cv_pregistryMain cv) b ?p False (cv_buffer cv) = (w, r1)"
    by fastforce
  show ?thesis
  proof (cases w)
    case Abort
    then show ?thesis using assms(1-3) c by (simp add: SetBestChainInner_def)
  next
    case (Reject n)
    then have "fail_invalid cv ?p st = (v, st')"
      using assms(1,3) c by (auto simp: SetBestChainInner_def split: prod.splits)
    from fail_invalid_chain [OF this assms(2,3) refl assms(4)] show ?thesis by simp
  next
    case (Accept db)
    have "mi_nFile m \<noteq> -1" "mi_hash m \<noteq> pm_hash q"
      using known_nFile [OF assms(6)] known_distinct [OF assms(6)] assms(5) by (cases q; auto)+
    from connect_step [OF c [unfolded Accept] assms(5) l(1) assms(7) this]
    have db: "chain_ledger cv (ch_fixed st) ?p = Some (txdb_tx db)" "fixed db = ch_fixed st" by auto
    let ?st = "put_tables db st"
    have st: "?st = st\<lparr>ch_batch := Some ((ch_disk st)\<lparr>cd_tables := db\<rparr>)\<rparr>" by (rule put_tables_batch [OF assms(3)])
    obtain ok st1 where w: "WriteHashBestChain cv (mi_hash m) ?st = (ok, st1)" by fastforce
    show ?thesis
    proof (cases ok)
      case False
      then have "st1 = ?st" using w by (auto simp: WriteHashBestChain_def split: if_splits)
      then have "fail_invalid cv ?p ?st = (v, st')"
        using assms(1,3) c Accept w False h by (auto simp: SetBestChainInner_def split: prod.splits)
      from fail_invalid_chain [OF this assms(2), of "(ch_disk st)\<lparr>cd_tables := db\<rparr>" q] assms(4) st db(2)
      show ?thesis by (auto simp: keeps_def)
    next
      case True
      then have st1: "st1 = st\<lparr>ch_batch := Some ((ch_disk st)\<lparr>cd_tables := db, cd_hashBestChain := mi_hash m\<rparr>)\<rparr>"
        using WriteHashBestChain_batch [of cv "mi_hash m" ?st st1 "(ch_disk st)\<lparr>cd_tables := db\<rparr>"] w st by simp
      show ?thesis
      proof (cases "cv_commit_ok cv ((ch_disk st)\<lparr>cd_tables := db, cd_hashBestChain := mi_hash m\<rparr>)")
        case False
        then have "v = Reject 0 \<and> st' = st\<lparr>ch_batch := None\<rparr>"
          using assms(1,3) c Accept w True h st1 by (auto simp: SetBestChainInner_def TxnCommit_def)
        then show ?thesis using assms(4) by (simp add: keeps_def)
      next
        case com: True
        let ?st2 = "st\<lparr>ch_disk := (ch_disk st)\<lparr>cd_tables := db, cd_hashBestChain := mi_hash m\<rparr>, ch_batch := None\<rparr>"
        have pc: "properly_connected ?st2 ?p" using links_connected [of "ch_pnext st" "mapBlockLookup st" ?p ?st2] l(2) by simp
        have fx: "fixed (cd_tables (txdb_view ?st2)) = ch_fixed st" using db(2) by (simp add: txdb_view_def)
        from relink_link [of "mapBlockIndex st" ?st2 ?p q "[?p]"] assms(5,6) fx l(2) obtain pn lk where
          k: "relink link [?p] ?st2 = Some (?st2\<lparr>ch_pnext := pn, mapBlockLookup := lk\<rparr>)" "links pn lk ?p" by auto
        have v: "v = Accept () \<and> remove_txs cv (vtx b) (?st2\<lparr>ch_pnext := pn, mapBlockLookup := lk\<rparr>) = Some st'"
          using assms(1,2,3,5) c Accept w True h st1 com pc k(1)
          by (auto simp: SetBestChainInner_def TxnCommit_def simp del: relink.simps split: option.splits)
        then obtain mp where "st' = ?st2\<lparr>ch_pnext := pn, mapBlockLookup := lk, mempool := mp\<rparr>" using remove_txs_state by blast
        then show ?thesis using v db k(2) by (simp add: on_chain_def keeps_def)
      qed
    qed
  qed
qed

section \<open>The best chain\<close>

definition trust_of :: "(uint256 \<Rightarrow> (int \<times> int \<times> int) option) \<Rightarrow> pmem \<Rightarrow> int" where
  "trust_of fx p = (case fx (pm_hash p) of Some (_, _, t) \<Rightarrow> t | None \<Rightarrow> 0)"

definition chain_ok :: "chain_env \<Rightarrow> chain_state \<Rightarrow> bool" where
  "chain_ok cv st \<longleftrightarrow>
     (let p = pmemIndexBest st
      in on_chain cv st p \<and> known (mapBlockIndex st) (ch_fixed st) p \<and> unique_txs cv p \<and> pmemIndexGenesisBlock st \<noteq> None \<and>
         hashBestChain st = pm_hash p \<and> ch_nBestHeight st = int (length p) - 1 \<and>
         bnBestChainTrust st = trust_of (ch_fixed st) p \<and> db_bnChainTrust (ch_pindexBest st) = trust_of (ch_fixed st) p)"

lemma new_best_ok:
  assumes "on_chain cv st p" "known (mapBlockIndex st) (ch_fixed st) p" "unique_txs cv p" "pmemIndexGenesisBlock st \<noteq> None"
    and "h = pm_hash p" "ch_fixed st (pm_hash p) = Some (db_nVersion d, db_nHeight d, db_bnChainTrust d)"
  shows "chain_ok cv (new_best p d h st) \<and> pmemIndexBest (new_best p d h st) = p \<and>
    bnBestChainTrust (new_best p d h st) = trust_of (ch_fixed st) p"
proof -
  have "db_nHeight d = int (length p) - 1" using assms(2,6) unfolding known_def by (metis Pair_inject option.inject suffix_order.refl)
  then show ?thesis using assms by (simp add: chain_ok_def new_best_def on_chain_def trust_of_def Let_def)
qed

lemma split_secondary_ascends:
  assumes "split_secondary st p = Some (q, v)"
  shows "q \<noteq> [] \<and> ascends q (rev v) p \<and>
    (q = p \<or> trust_of (fixed (cd_tables (txdb_view st))) q > db_bnChainTrust (ch_pindexBest st)) \<and>
    (\<forall>x \<in> set v. trust_of (fixed (cd_tables (txdb_view st))) (tl x) > db_bnChainTrust (ch_pindexBest st))"
  using assms
proof (induction p arbitrary: v)
  case (Cons m p)
  show ?case
  proof (cases "p = [] \<or> v = []")
    case True
    then show ?thesis using Cons.prems by (auto split: if_splits option.splits)
  next
    case False
    then obtain d v' where d: "ReadDiskBlockIndex st p = Some d" "db_bnChainTrust d > db_bnChainTrust (ch_pindexBest st)"
      "split_secondary st p = Some (q, v')" "v = (m # p) # v'"
      using Cons.prems by (auto split: if_splits option.splits)
    have "trust_of (fixed (cd_tables (txdb_view st))) p = db_bnChainTrust d"
      using d(1) by (simp add: trust_of_def fixed_def ReadDiskBlockIndex_def)
    then show ?thesis using Cons.IH [OF d(3)] d(2,4) by (auto simp: ascends_snoc)
  qed
qed simp

lemma ReadDiskBlockIndex_fixed:
  "ReadDiskBlockIndex st p = Some d \<Longrightarrow> ch_batch st = None \<Longrightarrow>
   ch_fixed st (pm_hash p) = Some (db_nVersion d, db_nHeight d, db_bnChainTrust d)"
  by (simp add: ReadDiskBlockIndex_def txdb_view_def fixed_def)

lemma connect_secondary_chain:
  assumes "connect_secondary cv xs r st = Some (res, r', st')" "on_chain cv st q" "q \<noteq> []" "ascends q xs p"
    and "known (mapBlockIndex st) (ch_fixed st) p" "\<forall>x \<in> set xs. Block_ReadFromDisk cv x \<noteq> None"
  shows "keeps st st' \<and> (case res of
       None \<Rightarrow> on_chain cv st' p
     | Some (best, d) \<Rightarrow> on_chain cv st' best \<and> best \<noteq> [] \<and> suffix best p \<and> best \<in> tl ` set xs \<and>
         ch_fixed st' (pm_hash best) = Some (db_nVersion d, db_nHeight d, db_bnChainTrust d))"
  using assms
proof (induction xs arbitrary: r st q)
  case (Cons x xs)
  then obtain m where x: "x = m # q" by (cases x) auto
  have asc: "ascends x xs p" using Cons.prems(4) by simp
  have kx: "known (mapBlockIndex st) (ch_fixed st) x"
    by (rule known_suffix [OF Cons.prems(5) ascends_suffix [OF asc]]) (simp add: x)
  have nb: "ch_batch st = None" using Cons.prems(2) by (simp add: on_chain_def)
  obtain b where b: "Block_ReadFromDisk cv x = Some b" using Cons.prems(6) by auto
  let ?st = "st\<lparr>ch_batch := Some (ch_disk st)\<rparr>"
  have tb: "TxnBegin st = Some ?st" using nb by (simp add: TxnBegin_def)
  obtain v r1 st1 where i: "SetBestChainInner cv b x r ?st = (v, r1, st1)" by (metis prod_cases3)
  have v: "v \<noteq> Abort" using Cons.prems(1) b tb i by (auto split: option.splits)
  have "?st\<lparr>ch_batch := None\<rparr> = st" using nb by simp
  with SetBestChainInner_chain [OF i [unfolded x] v] Cons.prems(2,3) kx b x
  have st1: "on_chain cv st1 (if v = Accept () then x else q)" "keeps st st1" by (auto simp: keeps_def)
  have nb1: "ch_batch st1 = None" using st1(1) by (simp add: on_chain_def)
  show ?case
  proof (cases v)
    case (Reject n)
    then obtain d where d: "ReadDiskBlockIndex st1 q = Some d" "res = Some (q, d)" "st' = st1"
      using Cons.prems(1) b tb i x by (auto split: option.splits)
    have "suffix q p" using ascends_suffix [OF Cons.prems(4)] .
    then show ?thesis using d st1 Reject Cons.prems(3) ReadDiskBlockIndex_fixed [OF d(1) nb1] by (auto simp: x)
  next
    case (Accept u)
    then obtain ok r2 st2 where rb: "replay_block cv ALL_SNAPS x r1 st1 = Some (ok, r2, st2)"
      and rest: "connect_secondary cv xs r2 st2 = Some (res, r', st')"
      using Cons.prems(1) b tb i by (auto split: option.splits)
    obtain s where "st2 = st1\<lparr>ch_snapshots := s\<rparr>" using replay_block_state [OF rb] by (auto simp: snap_only_def)
    then have st2: "on_chain cv st2 x" "keeps st st2" using st1 Accept by (auto simp: on_chain_def keeps_def)
    have "known (mapBlockIndex st2) (ch_fixed st2) p" using st2(2) Cons.prems(5) by (simp add: keeps_def)
    from Cons.IH [OF rest st2(1) _ asc this] Cons.prems(6) st2(2) show ?thesis
      by (auto simp: x intro: keeps_trans split: option.splits)
  qed (use v in simp)
qed (auto simp: on_chain_def)

lemma SetBestChain_reorganize_chain:
  assumes "SetBestChain_reorganize cv p r st = (Accept (res, r'), st')" "ch_batch st = Some (ch_disk st)"
    and "chain_ok cv (st\<lparr>ch_batch := None\<rparr>)" "known (mapBlockIndex st) (ch_fixed st) p"
    and "\<forall>q. suffix q p \<longrightarrow> tl q \<noteq> [] \<longrightarrow> Block_ReadFromDisk cv q \<noteq> None" "\<forall>h. le_write_ok (bc_led (cv_bc cv)) h"
  shows "keeps st st' \<and> (case res of
       None \<Rightarrow> on_chain cv st' p
     | Some (best, d) \<Rightarrow> on_chain cv st' best \<and> best \<noteq> [] \<and> suffix best p \<and>
         trust_of (ch_fixed st) best > db_bnChainTrust (ch_pindexBest st) \<and>
         ch_fixed st' (pm_hash best) = Some (db_nVersion d, db_nHeight d, db_bnChainTrust d))"
proof -
  obtain q v fork st1 r1 st2 r2 where sp: "split_secondary st p = Some (q, v)"
    and ro: "Reorganize cv q st = (Accept fork, st1)"
    and rb: "replay_branch cv p fork v st1 = Accept (r1, st2)"
    and cs: "connect_secondary cv (rev v) r1 st2 = Some (res, r2, st')"
    using assms(1) by (auto simp: SetBestChain_reorganize_def Let_def split: option.splits prod.splits verdict.splits)
  note a = split_secondary_ascends [OF sp, unfolded view_batch [OF assms(2)]]
  have sq: "suffix q p" using a ascends_suffix by blast
  have ok: "on_chain cv (st\<lparr>ch_batch := None\<rparr>) (pmemIndexBest st)" "known (mapBlockIndex st) (ch_fixed st) (pmemIndexBest st)"
    "unique_txs cv (pmemIndexBest st)" using assms(3) by (simp_all add: chain_ok_def Let_def)
  have kq: "known (mapBlockIndex st) (ch_fixed st) q" using known_suffix [OF assms(4) sq] a by blast
  from Reorganize_chain [OF ro assms(2) ok(1,2) kq ok(3) assms(6)]
  have st1: "on_chain cv st1 q" "keeps st st1" by blast+
  have "snap_only st1 st2"
    using rb replay_all_state replay_until_state
    by (fastforce simp: replay_branch_def Let_def split: option.splits if_splits bool.splits prod.splits)
  then obtain s where "st2 = st1\<lparr>ch_snapshots := s\<rparr>" by (auto simp: snap_only_def)
  then have st2: "on_chain cv st2 q" "keeps st st2" using st1 by (auto simp: on_chain_def keeps_def)
  have k2: "known (mapBlockIndex st2) (ch_fixed st2) p" using st2(2) assms(4) by (simp add: keeps_def)
  have read: "Block_ReadFromDisk cv x \<noteq> None" if x: "x \<in> set (rev v)" for x
  proof -
    obtain xs ys where "rev v = xs @ x # ys" using split_list [OF x] by blast
    with a have "ascends q (xs @ x # ys) p" by simp
    then have "suffix x p \<and> suffix q (tl x)"
    proof (induction xs arbitrary: q)
      case Nil
      then show ?case using ascends_suffix by auto
    next
      case (Cons y xs)
      then show ?case by (metis append_Cons ascends.simps(2) suffix_order.order_trans suffix_tl)
    qed
    moreover from this a have "tl x \<noteq> []" by (auto simp: suffix_def)
    ultimately show ?thesis using assms(5) by blast
  qed
  from connect_secondary_chain [OF cs st2(1) _ _ k2] a read st2(2) show ?thesis
    by (auto simp: keeps_def split: option.splits)
qed

section \<open>Failures\<close>

text \<open>A state in which a transaction of the data base is open or was given up: nothing else has changed but the snapshots.\<close>

definition pending :: "chain_state \<Rightarrow> chain_state \<Rightarrow> bool" where
  "pending st st' \<longleftrightarrow> (\<exists>b s. st' = st\<lparr>ch_batch := b, ch_snapshots := s\<rparr> \<and> (\<forall>d. b = Some d \<longrightarrow> fixed (cd_tables d) = ch_fixed st))"

lemma pendingI: "st' = st\<lparr>ch_batch := b, ch_snapshots := s\<rparr> \<Longrightarrow> (\<And>d. b = Some d \<Longrightarrow> fixed (cd_tables d) = ch_fixed st) \<Longrightarrow> pending st st'"
  by (auto simp: pending_def)

lemma pendingE:
  assumes "pending st st'"
  obtains b s where "st' = st\<lparr>ch_batch := b, ch_snapshots := s\<rparr>" "\<And>d. b = Some d \<Longrightarrow> fixed (cd_tables d) = ch_fixed st"
  using assms by (auto simp: pending_def)

lemma pending_refl: "ch_batch st = Some (ch_disk st) \<Longrightarrow> pending st st"
  by (auto simp: pending_def intro!: exI [of _ "ch_batch st"] exI [of _ "ch_snapshots st"])

lemma pending_put:
  assumes "pending st st'" "ch_batch st' = Some d" "fixed db = ch_fixed st"
  shows "pending st (put_tables db st')"
proof -
  obtain b s where "st' = st\<lparr>ch_batch := b, ch_snapshots := s\<rparr>" using assms(1) by (rule pendingE)
  then have "put_tables db st' = st\<lparr>ch_batch := Some (d\<lparr>cd_tables := db\<rparr>), ch_snapshots := s\<rparr>" 
    unfolding put_tables_batch [OF assms(2)] by simp
  then show ?thesis by (rule pendingI) (use assms(3) in auto)
qed

lemma pending_snap: "pending st st' \<Longrightarrow> snap_only st' st'' \<Longrightarrow> pending st st''"
  unfolding snap_only_def by (erule pendingE, erule exE, rule pendingI) auto

lemma pending_fixed: "pending st st' \<Longrightarrow> ch_batch st' = Some d \<Longrightarrow> fixed (cd_tables d) = ch_fixed st"
  by (auto simp: pending_def)

lemma pending_fail:
  assumes "pending st st'" "fail_invalid cv p st' = (v, st'')" "v \<noteq> Abort" "chain_ok cv (st\<lparr>ch_batch := None\<rparr>)"
  shows "chain_ok cv st'' \<and> pmemIndexBest st'' = pmemIndexBest st"
proof -
  obtain b s where st': "st' = st\<lparr>ch_batch := b, ch_snapshots := s\<rparr>" "\<forall>d. b = Some d \<longrightarrow> fixed (cd_tables d) = ch_fixed st"
    using assms(1) by (auto simp: pending_def)
  have o: "on_chain cv (st'\<lparr>ch_batch := None\<rparr>) (pmemIndexBest st)"
    using assms(4) st' by (simp add: chain_ok_def on_chain_def Let_def)
  have "on_chain cv st'' (pmemIndexBest st) \<and> keeps st' st''"
  proof (cases b)
    case (Some d)
    then show ?thesis using fail_invalid_chain [OF assms(2,3) _ _ o, of d] st' by auto
  next
    case None
    then show ?thesis using assms(2,3) o st'
      by (auto simp: fail_invalid_def TxnAbort_def InvalidChainFound_def on_chain_def keeps_def split: option.splits)
  qed
  then show ?thesis using assms(4) st' by (auto simp: chain_ok_def keeps_def Let_def)
qed

lemma DisconnectBlock_fixed_any: "DisconnectBlock env db b pchain = Some (ok, db') \<Longrightarrow> tl pchain \<noteq> [] \<Longrightarrow> fixed db' = fixed db"
proof (cases ok)
  case False
  assume "DisconnectBlock env db b pchain = Some (ok, db')"
  then obtain ok' where "DisconnectBlock_loop (bc_led env) (rev (vtx b)) db = (ok', db')"
    using False by (auto simp: DisconnectBlock_def split: option.splits prod.splits bool.splits if_splits)
  then show ?thesis by (intro fixed_cong DisconnectBlock_loop_block)
qed (auto intro: DisconnectBlock_fixed)

lemma branch_tl: "x \<in> set (branch p fork) \<Longrightarrow> suffix fork p \<Longrightarrow> fork \<noteq> [] \<Longrightarrow> tl x \<noteq> [] \<and> suffix x p"
proof (induction p)
  case (Cons m p)
  then show ?case by (auto simp: suffix_Cons split: if_splits)
qed simp

lemma Reorganize_disconnect_pending:
  assumes "Reorganize_disconnect cv ps res st1 = (v, st')" "pending st st1" "ch_batch st1 \<noteq> None"
    and "\<forall>x \<in> set ps. tl x \<noteq> []"
  shows "pending st st' \<and> ch_batch st' \<noteq> None"
  using assms
proof (induction ps arbitrary: res st1)
  case (Cons p ps)
  then obtain d where d: "ch_batch st1 = Some d" by auto
  show ?case
  proof (cases "\<exists>ok db b. DisconnectBlock (chain_bc cv st1) (cd_tables d) b p = Some (ok, db) \<and> Block_ReadFromDisk cv p = Some b")
    case True
    then obtain ok db b where dc: "DisconnectBlock (chain_bc cv st1) (cd_tables d) b p = Some (ok, db)" "Block_ReadFromDisk cv p = Some b"
      by blast
    have "fixed db = ch_fixed st"
      using DisconnectBlock_fixed_any [OF dc(1)] pending_fixed [OF Cons.prems(2) d] Cons.prems(4) by simp
    then have q: "pending st (put_tables db st1)" "ch_batch (put_tables db st1) \<noteq> None"
      using pending_put [OF Cons.prems(2) d] d by (auto simp: put_tables_batch)
    have "(v, st') = (Abort, st1) \<or> st' = put_tables db st1 \<or>
        (\<exists>res1. Reorganize_disconnect cv ps res1 (put_tables db st1) = (v, st'))"
      using Cons.prems(1) dc d by (auto split: option.splits bool.splits)
    then show ?thesis using Cons.IH [OF _ q] q Cons.prems(2,3,4) by auto
  next
    case False
    then have "st' = st1" using Cons.prems(1) d by (auto split: option.splits)
    then show ?thesis using Cons.prems(2,3) by simp
  qed
qed simp

lemma Reorganize_connect_pending:
  assumes "Reorganize_connect cv ps r del st1 = (v, st')" "pending st st1" "ch_batch st1 \<noteq> None"
    and "\<forall>x \<in> set ps. pm_hash x \<noteq> pm_hash (tl x)"
  shows "pending st st' \<and> ch_batch st' \<noteq> None"
  using assms
proof (induction ps arbitrary: r del st1)
  case (Cons p ps)
  then obtain d where d: "ch_batch st1 = Some d" by auto
  show ?case
  proof (cases "\<exists>db r1 b. ConnectBlock (chain_bc cv st1) (cd_tables d) r (cv_pregistryMain cv) b p False (cv_buffer cv) = (Accept db, r1) \<and>
      Block_ReadFromDisk cv p = Some b")
    case True
    then obtain db r1 b where c: "ConnectBlock (chain_bc cv st1) (cd_tables d) r (cv_pregistryMain cv) b p False (cv_buffer cv) = (Accept db, r1)"
      "Block_ReadFromDisk cv p = Some b" by blast
    have "fixed db = ch_fixed st"
      using ConnectBlock_fixed [OF c(1)] pending_fixed [OF Cons.prems(2) d] Cons.prems(4) by simp
    then have q: "pending st (put_tables db st1)" "ch_batch (put_tables db st1) \<noteq> None"
      using pending_put [OF Cons.prems(2) d] d by (auto simp: put_tables_batch)
    have "st' = st1 \<or> (\<exists>ok r2 st2. replay_block cv ALL_SNAPS p r1 (put_tables db st1) = Some (ok, r2, st2) \<and>
        (st' = st2 \<or> Reorganize_connect cv ps r2 (del @ vtx b) st2 = (v, st')))"
      using Cons.prems(1) c d by (auto split: option.splits bool.splits)
    then show ?thesis
    proof (elim disjE exE conjE)
      fix ok r2 st2
      assume "replay_block cv ALL_SNAPS p r1 (put_tables db st1) = Some (ok, r2, st2)"
      from replay_block_state [OF this] have s: "snap_only (put_tables db st1) st2" .
      have q2: "pending st st2" "ch_batch st2 \<noteq> None" using pending_snap [OF q(1) s] s q(2) by (auto simp: snap_only_def)
      { assume "st' = st2" then show ?thesis using q2 by simp }
      { assume "Reorganize_connect cv ps r2 (del @ vtx b) st2 = (v, st')"
        then show ?thesis using Cons.IH [OF _ q2] Cons.prems(4) by auto }
    qed (use Cons.prems(2,3) in simp)
  next
    case False
    then have "st' = st1" using Cons.prems(1) d by (auto split: option.splits prod.splits verdict.splits)
    then show ?thesis using Cons.prems(2,3) by simp
  qed
qed simp

lemma Reorganize_db_reject:
  assumes "Reorganize_db cv p fork vd vc st = (Reject n, st')" "ch_batch st = Some (ch_disk st)"
    and "\<forall>x \<in> set vd. tl x \<noteq> []" "\<forall>x \<in> set vc. pm_hash x \<noteq> pm_hash (tl x)"
  shows "pending st st'"
proof -
  obtain w1 st1 where 1: "Reorganize_disconnect cv vd [] st = (w1, st1)" by fastforce
  from Reorganize_disconnect_pending [OF this pending_refl [OF assms(2)] _ assms(3)] assms(2)
  have p1: "pending st st1" "ch_batch st1 \<noteq> None" by auto
  show ?thesis
  proof (cases w1)
    case (Accept res)
    then obtain ok r f st2 where 2: "RewindRegistry cv (QPRegistry_new (bc_qp (cv_bc cv))) fork fork ALL_SNAPS st1 = Some (ok, r, f, st2)"
      using assms(1) 1 by (auto simp: Reorganize_db_def split: option.splits)
    note s = RewindRegistry_state [OF 2]
    have p2: "pending st st2" "ch_batch st2 \<noteq> None" using pending_snap [OF p1(1) s] s p1(2) by (auto simp: snap_only_def)
    obtain w3 st3 where 3: "Reorganize_connect cv vc r [] st2 = (w3, st3)" by fastforce
    from Reorganize_connect_pending [OF 3 p2 assms(4)] have p3: "pending st st3" "ch_batch st3 \<noteq> None" by auto
    then obtain d where d: "ch_batch st3 = Some d" by auto
    have "st' = st3 \<or> (\<exists>st4. WriteHashBestChain cv (pm_hash p) st3 = (True, st4) \<and> st' = st4\<lparr>ch_batch := None\<rparr>)"
      using assms(1) 1 2 3 Accept
      by (auto simp: Reorganize_db_def TxnCommit_def WriteHashBestChain_def split: option.splits verdict.splits prod.splits bool.splits if_splits)
    then show ?thesis
    proof (elim disjE exE conjE)
      fix st4 assume "WriteHashBestChain cv (pm_hash p) st3 = (True, st4)" "st' = st4\<lparr>ch_batch := None\<rparr>"
      then have "st' = st3\<lparr>ch_batch := None\<rparr>" using WriteHashBestChain_batch d by fastforce
      moreover obtain b s where "st3 = st\<lparr>ch_batch := b, ch_snapshots := s\<rparr>" using p3(1) by (rule pendingE)
      ultimately have "st' = st\<lparr>ch_batch := None, ch_snapshots := s\<rparr>" by simp
      then show ?thesis by (rule pendingI) simp
    qed (use p3 in simp)
  next
    case (Reject k)
    then show ?thesis using assms(1) 1 p1 by (auto simp: Reorganize_db_def)
  qed (use assms(1) 1 in \<open>simp add: Reorganize_db_def\<close>)
qed

lemma Reorganize_reject:
  assumes "Reorganize cv p st = (Reject n, st')" "ch_batch st = Some (ch_disk st)"
    and "on_chain cv (st\<lparr>ch_batch := None\<rparr>) (pmemIndexBest st)"
    and "known (mapBlockIndex st) (ch_fixed st) (pmemIndexBest st)" "known (mapBlockIndex st) (ch_fixed st) p"
    and "unique_txs cv (pmemIndexBest st)" "\<forall>h. le_write_ok (bc_led (cv_bc cv)) h"
  shows "pending st st'"
proof -
  let ?best = "pmemIndexBest st"
  note p0 = pending_refl [OF assms(2)]
  obtain d1 d2 where dd: "ReadDiskBlockIndex st ?best = Some d1" "ReadDiskBlockIndex st p = Some d2"
    using assms(1) by (auto simp: Reorganize_def split: option.splits)
  show ?thesis
  proof (cases "find_fork ?best (db_nHeight d1) p (db_nHeight d2)")
    case None
    then show ?thesis using assms(1) dd p0 by (simp add: Reorganize_def)
  next
    case (Some fork)
    note f = find_fork_suffix [OF Some]
    let ?dc = "branch ?best fork" and ?co = "rev (branch p fork)"
    obtain w st1 where db: "Reorganize_db cv p fork ?dc ?co st = (w, st1)" by fastforce
    have dcs: "\<forall>x \<in> set ?dc. tl x \<noteq> []" using branch_tl f by blast
    have cos: "\<forall>x \<in> set ?co. pm_hash x \<noteq> pm_hash (tl x)"
    proof
      fix x assume "x \<in> set ?co"
      then have x: "tl x \<noteq> []" "suffix x p" using branch_tl [of x p fork] f by auto
      then have "x \<noteq> []" by auto
      from known_distinct [OF known_suffix [OF assms(5) x(2) this]]
      show "pm_hash x \<noteq> pm_hash (tl x)" using x(1) by (cases x rule: list.exhaust; cases "tl x") auto
    qed
    show ?thesis
    proof (cases w)
      case Abort
      then show ?thesis using assms(1) dd Some db by (simp add: Reorganize_def Let_def)
    next
      case (Reject k)
      then have "st' = st1" using assms(1) dd Some db by (simp add: Reorganize_def Let_def)
      then show ?thesis using Reorganize_db_reject [OF db [unfolded Reject] assms(2) dcs cos] by simp
    next
      case (Accept rd)
      obtain res del where rd: "rd = (res, del)" by force
      obtain u st2 where m: "Reorganize_memory cv ?dc ?co res del st1 = (u, st2)" by fastforce
      have "u = Abort \<or> u = Accept ()"
        using Reorganize_memory_chain [OF db [unfolded Accept rd] m assms(2-5) _ _ _ assms(6,7)] f by blast
      then show ?thesis using assms(1) dd Some db Accept rd m by (auto simp: Reorganize_def Let_def)
    qed
  qed
qed

section \<open>Replaying the registry ends\<close>

text \<open>Along the links of a chain the loops over \<open>pnext\<close> end, unless an update throws an exception.\<close>

lemma links_next: "links pn lk p \<Longrightarrow> pn (pm_hash q) = Some c \<Longrightarrow> pm_hash (tl c) = pm_hash q \<and> suffix c p \<and> tl c \<noteq> []"
  by (auto simp: links_def)

lemma links_next_length:
  assumes "links pn lk p" "distinct (map mi_hash p)" "suffix q p" "q \<noteq> []" "pn (pm_hash q) = Some c"
  shows "tl c = q \<and> suffix c p"
proof -
  note c = links_next [OF assms(1,5)]
  then have t: "suffix (tl c) p" by (meson suffix_order.order_trans suffix_tl)
  have "tl c = q"
  proof (rule ccontr)
    assume "tl c \<noteq> q"
    then consider "suffix (tl c) (tl q)" | "suffix q (tl (tl c))"
      using t assms(3,4) c by (metis suffix_same_cases suffix_order.antisym_conv2 list.exhaust_sel suffix_Cons)
    then show False
    proof cases
      case 1
      then have "hd (tl c) \<in> set (tl q)" using c by (auto simp: suffix_def)
      moreover have "distinct (map mi_hash q)" using assms(2,3) by (auto simp: suffix_def)
      ultimately show False using c assms(4) by (cases q) (auto simp: image_iff)
    next
      case 2
      then have "hd q \<in> set (tl (tl c))" using assms(4) by (auto simp: suffix_def)
      moreover have "distinct (map mi_hash (tl c))" using assms(2) t by (auto simp: suffix_def)
      ultimately show False using c by (cases "tl c") (auto simp: image_iff)
    qed
  qed
  with c show ?thesis by blast
qed

lemma replay_until_returns:
  assumes "links (ch_pnext st) lk p" "distinct (map mi_hash p)" "suffix cur p" "cur \<noteq> []"
    and "\<And>q r st'. snap_only st st' \<Longrightarrow> suffix q p \<Longrightarrow> replay_block cv ALL_SNAPS q r st' \<noteq> None"
  shows "\<exists>y. replay_until cv stop cur r st = Some y"
  using assms
proof (induction "length p - length cur" arbitrary: cur r st rule: less_induct)
  case less
  show ?case
  proof (cases "cur = stop \<or> ch_pnext st (pm_hash cur) = None")
    case True
    then show ?thesis by (subst replay_until.simps) auto
  next
    case False
    then obtain c where c: "ch_pnext st (pm_hash cur) = Some c" by auto
    have t: "tl c = cur" "suffix c p" using links_next_length [OF less.prems(1-4) c] by auto
    obtain ok r1 st1 where b: "replay_block cv ALL_SNAPS c r st = Some (ok, r1, st1)" using less.prems(5) [OF _ t(2)] by fastforce
    note so = replay_block_state [OF b]
    have c0: "c \<noteq> []" using t(1) less.prems(4) by auto
    have "length c = Suc (length cur)" using t(1) c0 by (cases c) auto
    then have lt: "length p - length c < length p - length cur" using suffix_length_le [OF t(2)] by simp
    have "links (ch_pnext st1) lk p" using so less.prems(1) by (auto simp: snap_only_def)
    from less.hyps [OF lt this less.prems(2) t(2) c0] less.prems(5) so obtain y where
      "replay_until cv stop c r1 st1 = Some y" by (metis snap_only_trans)
    then have "replay_until cv stop cur r st = Some y" using False c b by (subst replay_until.simps) simp
    then show ?thesis by blast
  qed
qed

section \<open>A reorganisation\<close>

text \<open>
  Branches of proof-of-work blocks above the first block: the best block 11 against the blocks 12, 13 and 14, and against
  the block 15, which has no transactions and is invalid.
\<close>

definition demo_coinbase :: "nat \<Rightarrow> CTransaction" where
  "demo_coinbase n = \<lparr>nVersion = 1, tx_nTime = 1000, vin = [\<lparr>prevout = \<lparr>op_hash = 0, op_n = -1\<rparr>, scriptSig = replicate n 1, nSequence = 0\<rparr>],
     vout = [\<lparr>nValue = 5000000, scriptPubKey = pay_key demo_key\<rparr>], nLockTime = 0\<rparr>"

definition demo_work :: "u8 \<Rightarrow> uint256 \<Rightarrow> nat \<Rightarrow> CBlock" where
  "demo_work n prev h = \<lparr>blk_nVersion = 6, blk_hashPrevBlock = prev,
     blk_hashMerkleRoot = GetHash (bc_tx demo_bc) (demo_coinbase (unat n)), blk_nTime = 1000 + of_nat h, blk_nBits = 0x030000ff,
     blk_nNonce = ucast n, blk_nHeight = int h, blk_nStakerID = 0, vtx = [demo_coinbase (unat n)], vchBlockSig = [], vMerkleTree = []\<rparr>"

definition demo_node :: "u8 \<Rightarrow> CBlockMemIndex" where
  "demo_node n = \<lparr>mi_hash = ucast n, mi_nFile = 1, mi_nBlockPos = 100 * ucast n\<rparr>"

definition demo_entry :: "int \<Rightarrow> int \<Rightarrow> CDiskBlockIndex" where
  "demo_entry h trust = \<lparr>db_nVersion = 6, db_nTime = 1000 + of_int h, db_nHeight = h, db_nBits = 0x030000ff, db_nFlags = 0, db_nMint = 0,
     db_nMoneySupply = 0, db_vDeets = [], db_hashNext = 0, db_nStakerID = 0, db_bnChainTrust = trust\<rparr>"

definition demo_cv :: chain_env where
  "demo_cv = \<lparr>cv_bc = demo_bc\<lparr>bc_led := demo_le\<lparr>le_chk := (le_chk demo_le)\<lparr>ce_qp := demo_env\<lparr>env_hashGenesis := 10\<rparr>\<rparr>\<rparr>,
       bc_hashGenesisBlock := 10, bc_Hash9 := (\<lambda>bs. ucast (bs ! 76))\<rparr>,
     cv_EvalScript = (\<lambda>s tx i. None),
     cv_ReadBlock = (\<lambda>f n. if n = 1100 then Some (demo_work 11 10 1) else if n = 1200 then Some (demo_work 12 10 1)
       else if n = 1300 then Some (demo_work 13 12 2) else if n = 1400 then Some (demo_work 14 13 3)
       else if n = 1500 then Some ((demo_work 15 10 1)\<lparr>vtx := []\<rparr>) else None),
     cv_pregistryMain = demo_queued, cv_buffer = demo_buf, cv_cached = (\<lambda>h. True), cv_write_best_ok = (\<lambda>h. True),
     cv_commit_ok = (\<lambda>d. True)\<rparr>"

definition demo_old :: pmem where "demo_old = map demo_node [11, 10]"
definition demo_new :: pmem where "demo_new = map demo_node [14, 13, 12, 10]"
definition demo_bad :: pmem where "demo_bad = map demo_node [15, 10]"

definition demo_tables :: CTxDB where
  "demo_tables = \<lparr>txdb_tx = [GetHash (bc_tx demo_bc) (demo_coinbase 11) \<mapsto> CTxIndex_new (tx_position demo_old (first_tx_pos 6 1100 1)) 1],
     txdb_block = [10 \<mapsto> demo_entry 0 1, 11 \<mapsto> demo_entry 1 10, 12 \<mapsto> demo_entry 1 5, 13 \<mapsto> demo_entry 2 15, 14 \<mapsto> demo_entry 3 25, 15 \<mapsto> demo_entry 1 20]\<rparr>"

definition demo_st :: chain_state where
  "demo_st = \<lparr>ch_disk = \<lparr>cd_tables = demo_tables, cd_hashBestChain = 11\<rparr>, ch_batch = None, ch_snapshots = Map.empty,
     mapBlockIndex = [10 \<mapsto> drop 1 demo_old, 11 \<mapsto> demo_old, 12 \<mapsto> drop 2 demo_new, 13 \<mapsto> drop 1 demo_new, 14 \<mapsto> demo_new, 15 \<mapsto> demo_bad],
     ch_pnext = [10 \<mapsto> demo_old], mapBlockLookup = [1 \<mapsto> demo_old], pmemIndexGenesisBlock = Some (drop 1 demo_old),
     pmemIndexBest = demo_old, ch_pindexBest = demo_entry 1 10, hashBestChain = 11, ch_nBestHeight = 1, bnBestChainTrust = 10,
     bnBestInvalidTrust = 0, mempool = CTxMemPool_new\<rparr>"


lemma demo_runs:
  "(case SetBestChain demo_cv (demo_work 14 13 3) demo_new demo_queued demo_st of (Accept _, f, _) \<Rightarrow> f | _ \<Rightarrow> False) \<and>
   (case SetBestChain demo_cv ((demo_work 15 10 1)\<lparr>vtx := []\<rparr>) demo_bad demo_queued demo_st of (Reject _, _) \<Rightarrow> True | _ \<Rightarrow> False)"
  by code_simp

lemma demo_reads: "Block_ReadFromDisk demo_cv (map demo_node [14, 13, 12, 10]) = Some (demo_work 14 13 3)"
  "Block_ReadFromDisk demo_cv (map demo_node [13, 12, 10]) = Some (demo_work 13 12 2)"
  "Block_ReadFromDisk demo_cv (map demo_node [12, 10]) = Some (demo_work 12 10 1)"
  "Block_ReadFromDisk demo_cv (map demo_node [11, 10]) = Some (demo_work 11 10 1)"
  "Block_ReadFromDisk demo_cv demo_bad = Some ((demo_work 15 10 1)\<lparr>vtx := []\<rparr>)"
  by code_simp+

lemma demo_unique: "unique_txs demo_cv demo_old" "unique_txs demo_cv demo_new"
  by code_simp+

lemma links_single: "links Map.empty (\<lambda>_. None) [m]"
  by (auto simp: links_def suffix_Cons)

lemma known_Cons_iff:
  "known ix fx (m # p) \<longleftrightarrow> ix (mi_hash m) = Some (m # p) \<and> mi_nFile m \<noteq> -1 \<and>
     (\<exists>ver trust. fx (mi_hash m) = Some (ver, int (length p), trust)) \<and> (p = [] \<or> known ix fx p)"
  by (auto simp: known_def suffix_Cons)

lemmas demo_defs = demo_old_def demo_new_def demo_bad_def demo_node_def demo_st_def demo_tables_def demo_entry_def

lemma demo_known: "known (mapBlockIndex demo_st) (ch_fixed demo_st) demo_old" "known (mapBlockIndex demo_st) (ch_fixed demo_st) demo_new"
  "known (mapBlockIndex demo_st) (ch_fixed demo_st) demo_bad"
  by (simp_all add: demo_defs known_Cons_iff fixed_def)

lemma demo_ledger: "chain_ledger demo_cv (ch_fixed demo_st) demo_old = Some (txdb_tx demo_tables)"
proof -
  have tx: "IsCoinBase (demo_coinbase 11)" "length (vout (demo_coinbase 11)) = 1" by code_simp+
  have h: "GetHash (bc_tx (cv_bc demo_cv)) = GetHash (bc_tx demo_bc)" by (simp add: demo_cv_def demo_bc_def)
  have b: "vtx (demo_work 11 10 1) = [demo_coinbase 11]" by (simp add: demo_work_def)
  have "ledger_run (bc_tx (cv_bc demo_cv)) demo_old n [demo_coinbase 11] Map.empty =
      Some [GetHash (bc_tx demo_bc) (demo_coinbase 11) \<mapsto> CTxIndex_new (tx_position demo_old n) 1]" for n
    using tx by (simp add: spends_def apply_tx_def h)
  moreover have "ch_fixed demo_st 11 = Some (6, 1, 10)" by (simp add: demo_defs fixed_def)
  ultimately show ?thesis using demo_reads(4) b by (simp add: demo_old_def demo_node_def demo_tables_def)
qed

lemma demo_ok: "chain_ok demo_cv demo_st"
proof -
  have "links [10 \<mapsto> demo_old] [1 \<mapsto> demo_old] demo_old"
    using links_link [OF links_single, of "demo_node 10" "demo_node 11"] by (simp add: demo_old_def demo_node_def)
  then have "on_chain demo_cv demo_st demo_old"
    using demo_ledger by (simp add: on_chain_def demo_st_def) (simp add: demo_old_def demo_node_def)
  moreover have "trust_of (ch_fixed demo_st) demo_old = 10" by (simp add: demo_defs trust_of_def fixed_def)
  moreover have "pmemIndexBest demo_st = demo_old" "hashBestChain demo_st = pm_hash demo_old" "ch_nBestHeight demo_st = int (length demo_old) - 1"
    "bnBestChainTrust demo_st = 10" "db_bnChainTrust (ch_pindexBest demo_st) = 10" "pmemIndexGenesisBlock demo_st \<noteq> None"
    by (simp_all add: demo_defs)
  ultimately show ?thesis using demo_known(1) demo_unique(1) by (simp add: chain_ok_def)
qed

section \<open>Properties\<close>

text \<open>
  C5. The index of transactions always belongs to the best chain: whenever \<open>SetBestChain\<close> succeeds with a stored block that has
  more trust than the best chain, whether it extends that chain or leads to a reorganisation, then afterwards the
  index of transactions is the abstract ledger of all blocks of the new best chain from the first one on, the
  links and the table of heights in memory describe exactly this chain, it is an initial part of the chain of the given block, and
  its trust is higher than before. No two transactions of a chain have the same hash, and the writes to the data base
  and reads of block files succeed.
\<close>

theorem best_chain_ledger:
  assumes ok: "chain_ok cv st" and run: "SetBestChain cv b p r st = (Accept (), fReorganized, r', st')"
    and p: "known (mapBlockIndex st) (ch_fixed st) p" "unique_txs cv p" "tl p \<noteq> []"
    and b: "Block_ReadFromDisk cv p = Some b" "blk_hashPrevBlock b = pm_hash (tl p)"
    and trust: "bnBestChainTrust st < trust_of (ch_fixed st) p"
    and read: "\<forall>q. suffix q p \<longrightarrow> tl q \<noteq> [] \<longrightarrow> Block_ReadFromDisk cv q \<noteq> None" and writes: "\<forall>h. le_write_ok (bc_led (cv_bc cv)) h"
  shows "chain_ok cv st' \<and> suffix (pmemIndexBest st') p \<and> (\<not> fReorganized \<longrightarrow> pmemIndexBest st' = p) \<and>
    bnBestChainTrust st < bnBestChainTrust st'"
proof -
  let ?best = "pmemIndexBest st" and ?st = "st\<lparr>ch_batch := Some (ch_disk st)\<rparr>"
  have ok': "on_chain cv st ?best" "known (mapBlockIndex st) (ch_fixed st) ?best" "pmemIndexGenesisBlock st \<noteq> None"
    "hashBestChain st = pm_hash ?best" "bnBestChainTrust st = db_bnChainTrust (ch_pindexBest st)"
    using ok by (simp_all add: chain_ok_def Let_def)
  have nb: "ch_batch st = None" using ok'(1) by (simp add: on_chain_def)
  have tb: "TxnBegin st = Some ?st" "?st\<lparr>ch_batch := None\<rparr> = st" using nb by (simp_all add: TxnBegin_def)
  have h: "block_hash (cv_bc cv) b = pm_hash p" using b(1) by (auto simp: Block_ReadFromDisk_def split: option.splits if_splits)
  have p0: "p \<noteq> []" using p(3) by auto
  obtain g where g: "pmemIndexGenesisBlock st = Some g" using ok'(3) by auto
  obtain d0 where d0: "ReadDiskBlockIndex st p = Some d0" using run p0 tb(1) by (auto simp: SetBestChain_def Let_def split: option.splits)
  note fx0 = ReadDiskBlockIndex_fixed [OF d0 nb]
  show ?thesis
  proof (cases "pm_hash (tl p) = hashBestChain st")
    case True
    obtain m where m: "p = m # ?best" using known_prev [OF p(1,3) ok'(2)] True ok'(4) by auto
    obtain r1 st1 d where i: "SetBestChainInner cv b p r ?st = (Accept (), r1, st1)" "ReadDiskBlockIndex st1 p = Some d"
      and f: "fReorganized = False" "st' = new_best p d (pm_hash p) st1"
    proof -
      obtain v r1 st1 where i: "SetBestChainInner cv b p r ?st = (v, r1, st1)" by (metis prod_cases3)
      have "SetBestChain cv b p r st = (case v of Abort \<Rightarrow> (Abort, False, r1, st1) | Reject n \<Rightarrow> (Reject n, False, r1, st1)
          | Accept _ \<Rightarrow> (case ReadDiskBlockIndex st1 p of None \<Rightarrow> (Abort, False, r1, st1)
              | Some d \<Rightarrow> (Accept (), False, r1, new_best p d (pm_hash p) st1)))"
        using p0 d0 tb(1) True g b(2) h i by (simp add: SetBestChain_def Let_def split: verdict.split)
      with run i that show ?thesis by (auto split: verdict.split_asm option.split_asm)
    qed
    from SetBestChainInner_chain [OF i(1) [unfolded m]] ok'(1,2) tb(2) b(1) p(1) m
    have st1: "on_chain cv st1 p" "keeps st st1" by (auto simp: keeps_def known_def)
    have "ch_batch st1 = None" using st1(1) by (simp add: on_chain_def)
    from new_best_ok [OF st1(1) _ p(2) _ refl ReadDiskBlockIndex_fixed [OF i(2) this]] st1(2) p(1) ok'(3) trust f
    show ?thesis by (simp add: keeps_def)
  next
    case False
    obtain res r1 st1 where ro: "SetBestChain_reorganize cv p r ?st = (Accept (res, r1), st1)"
      and st': "st' = (case res of None \<Rightarrow> new_best p d0 (pm_hash p) st1 | Some (q, d) \<Rightarrow> new_best q d (pm_hash q) st1)"
      and fr: "fReorganized"
    proof -
      obtain v st1 where i: "SetBestChain_reorganize cv p r ?st = (v, st1)" by fastforce
      have "SetBestChain cv b p r st = (case v of Abort \<Rightarrow> (Abort, False, r, st1) | Reject n \<Rightarrow> (Reject n, False, r, st1)
          | Accept (res, r) \<Rightarrow> (Accept (), True, r,
              case res of None \<Rightarrow> new_best p d0 (pm_hash p) st1 | Some (q, d) \<Rightarrow> new_best q d (pm_hash q) st1))"
        using p0 d0 tb(1) False g b(2) h i by (simp add: SetBestChain_def Let_def split: verdict.split option.split prod.split)
      with run i that show ?thesis by (cases v) auto
    qed
    have "ch_batch ?st = Some (ch_disk ?st)" "chain_ok cv (?st\<lparr>ch_batch := None\<rparr>)" "known (mapBlockIndex ?st) (ch_fixed ?st) p"
      using ok p(1) tb(2) by simp_all
    note c = SetBestChain_reorganize_chain [OF ro this read writes]
    have k: "keeps st st1" using c by (auto simp: keeps_def)
    show ?thesis
    proof (cases res)
      case None
      then show ?thesis using c new_best_ok [of cv st1 p "pm_hash p" d0] k p ok'(3) trust st' fx0 fr by (simp add: keeps_def)
    next
      case (Some qd)
      obtain q d where qd: "qd = (q, d)" by force
      have q: "on_chain cv st1 q" "q \<noteq> []" "suffix q p" "trust_of (ch_fixed st) q > db_bnChainTrust (ch_pindexBest st)"
        "ch_fixed st1 (pm_hash q) = Some (db_nVersion d, db_nHeight d, db_bnChainTrust d)" using c Some qd by auto
      from new_best_ok [OF q(1) _ unique_txs_suffix [OF p(2) q(3)] _ refl q(5)] known_suffix [OF p(1) q(3,2)] k ok'(3,5) q(3,4) st' Some qd fr
      show ?thesis by (simp add: keeps_def)
    qed
  qed
qed

theorem best_chain_ledger_witness:
  "\<exists>r' st'. SetBestChain demo_cv (demo_work 14 13 3) demo_new demo_queued demo_st = (Accept (), True, r', st') \<and>
     chain_ok demo_cv st' \<and> suffix (pmemIndexBest st') demo_new \<and> bnBestChainTrust demo_st < bnBestChainTrust st'"
proof -
  obtain r' st' where run: "SetBestChain demo_cv (demo_work 14 13 3) demo_new demo_queued demo_st = (Accept (), True, r', st')"
    using demo_runs by (auto split: prod.splits verdict.splits)
  have "tl demo_new \<noteq> []" "blk_hashPrevBlock (demo_work 14 13 3) = pm_hash (tl demo_new)"
    "bnBestChainTrust demo_st < trust_of (ch_fixed demo_st) demo_new"
    by (simp_all add: demo_defs demo_work_def trust_of_def fixed_def)
  moreover have "\<forall>q. suffix q demo_new \<longrightarrow> tl q \<noteq> [] \<longrightarrow> Block_ReadFromDisk demo_cv q \<noteq> None"
    using demo_reads by (auto simp: demo_new_def suffix_Cons)
  moreover have "\<forall>h. le_write_ok (bc_led (cv_bc demo_cv)) h" by (simp add: demo_cv_def demo_bc_def demo_le_def)
  ultimately show ?thesis
    using best_chain_ledger [OF demo_ok run demo_known(2) demo_unique(2)] demo_reads(1) run by (auto simp: demo_new_def)
qed

text \<open>
  C6. A refused block leaves the ledger alone: if \<open>SetBestChain\<close> returns false, then the index of transactions, the links, the
  heights and the best block are still those of the old best chain, whatever part of a branch was already
  disconnected or connected. The one exception is a registry that cannot be replayed to the queued blocks after the
  reorganisation was committed: then the index and the links belong to the new branch while the old block stays the best one.
\<close>

theorem refused_block_keeps_ledger:
  assumes ok: "chain_ok cv st" and run: "SetBestChain cv b p r st = (Reject n, fReorganized, r', st')"
    and p: "known (mapBlockIndex st) (ch_fixed st) p" "tl p \<noteq> []"
    and b: "Block_ReadFromDisk cv p = Some b" "blk_hashPrevBlock b = pm_hash (tl p)"
    and writes: "\<forall>h. le_write_ok (bc_led (cv_bc cv)) h"
  shows "pmemIndexBest st' = pmemIndexBest st \<and>
    (chain_ok cv st' \<or> (\<exists>fork q vSecondary. suffix q p \<and> on_chain cv st' q \<and> vSecondary \<noteq> [] \<and>
       replay_branch cv p fork vSecondary st' = Reject n))"
proof -
  let ?best = "pmemIndexBest st" and ?st = "st\<lparr>ch_batch := Some (ch_disk st)\<rparr>"
  have ok': "on_chain cv st ?best" "known (mapBlockIndex st) (ch_fixed st) ?best" "unique_txs cv ?best" "hashBestChain st = pm_hash ?best"
    using ok by (simp_all add: chain_ok_def Let_def)
  obtain g where g: "pmemIndexGenesisBlock st = Some g" using ok by (auto simp: chain_ok_def Let_def)
  have nb: "ch_batch st = None" using ok'(1) by (simp add: on_chain_def)
  have tb: "TxnBegin st = Some ?st" "?st\<lparr>ch_batch := None\<rparr> = st" using nb by (simp_all add: TxnBegin_def)
  have p0: "p \<noteq> []" using p(2) by auto
  obtain d0 where d0: "ReadDiskBlockIndex st p = Some d0" using run p0 tb(1) by (auto simp: SetBestChain_def Let_def split: option.splits)
  show ?thesis
  proof (cases "pm_hash (tl p) = hashBestChain st")
    case True
    obtain m where m: "p = m # ?best" using known_prev [OF p(1,2) ok'(2)] True ok'(4) by auto
    obtain v r1 st1 where i: "SetBestChainInner cv b p r ?st = (v, r1, st1)" by (metis prod_cases3)
    have "v = Reject n \<and> st' = st1"
      using run p0 d0 tb(1) True g b(2) i by (simp add: SetBestChain_def Let_def split: verdict.splits option.splits)
    with SetBestChainInner_chain [OF i [unfolded m]] ok'(1,2) tb(2) b(1) p(1) m
    have "on_chain cv st' ?best" "keeps st st'" by (auto simp: keeps_def known_def)
    then have "chain_ok cv st' \<and> pmemIndexBest st' = ?best" using ok by (auto simp: chain_ok_def keeps_def Let_def)
    then show ?thesis by simp
  next
    case False
    have ro: "SetBestChain_reorganize cv p r ?st = (Reject n, st')"
      using run p0 d0 tb(1) False g b(2)
      by (auto simp: SetBestChain_def Let_def split: verdict.split_asm option.split_asm prod.split_asm)
    then obtain q v where sp: "split_secondary ?st p = Some (q, v)"
      by (auto simp: SetBestChain_reorganize_def split: option.splits)
    note a = split_secondary_ascends [OF sp]
    have sq: "suffix q p" using a ascends_suffix by blast
    have kq: "known (mapBlockIndex st) (ch_fixed st) q" using known_suffix [OF p(1) sq] a by blast
    obtain w st1 where re: "Reorganize cv q ?st = (w, st1)" by fastforce
    show ?thesis
    proof (cases w)
      case Abort
      then show ?thesis using ro sp re by (simp add: SetBestChain_reorganize_def)
    next
      case (Reject k)
      have "pending ?st st1"
        using Reorganize_reject [OF re [unfolded Reject]] ok'(1-3) kq writes tb(2) by simp
      moreover have "fail_invalid cv p st1 = (Reject n, st')"
        using ro sp re Reject by (auto simp: SetBestChain_reorganize_def split: prod.splits verdict.splits)
      ultimately have "chain_ok cv st' \<and> pmemIndexBest st' = ?best" using pending_fail [of ?st st1 cv p "Reject n" st'] ok tb(2) by simp
      then show ?thesis by simp
    next
      case (Accept fork)
      have c: "on_chain cv st1 q \<and> keeps ?st st1"
        using Reorganize_chain [OF re [unfolded Accept]] ok'(1-3) kq writes tb(2) by simp
      have rb: "replay_branch cv p fork v st1 = Reject n \<and> st' = st1"
        using ro sp re Accept by (auto simp: SetBestChain_reorganize_def Let_def split: option.splits verdict.splits prod.splits)
      then have "v \<noteq> []" by (auto simp: replay_branch_def Let_def split: option.splits prod.splits)
      then show ?thesis using c rb sq by (auto simp: keeps_def)
    qed
  qed
qed

theorem refused_block_keeps_ledger_witness:
  "\<exists>n f r' st'. SetBestChain demo_cv ((demo_work 15 10 1)\<lparr>vtx := []\<rparr>) demo_bad demo_queued demo_st = (Reject n, f, r', st') \<and>
     pmemIndexBest st' = demo_old"
proof -
  obtain n f r' st' where run: "SetBestChain demo_cv ((demo_work 15 10 1)\<lparr>vtx := []\<rparr>) demo_bad demo_queued demo_st = (Reject n, f, r', st')"
    using demo_runs by (auto split: prod.splits verdict.splits)
  have "tl demo_bad \<noteq> []" "blk_hashPrevBlock ((demo_work 15 10 1)\<lparr>vtx := []\<rparr>) = pm_hash (tl demo_bad)"
    by (simp_all add: demo_defs demo_work_def)
  moreover have "\<forall>h. le_write_ok (bc_led (cv_bc demo_cv)) h" by (simp add: demo_cv_def demo_bc_def demo_le_def)
  ultimately have "pmemIndexBest st' = pmemIndexBest demo_st"
    using refused_block_keeps_ledger [OF demo_ok run demo_known(3)] demo_reads(5) by blast
  then show ?thesis using run by (auto simp: demo_st_def)
qed

end
