(* ===== verification/BlockIndexCache.thy ===== *)
theory BlockIndexCache
  imports Ledger "HOL-Library.Product_Lexorder"
begin

text \<open>
  The cache in front of the table of block index entries (\<^verbatim>\<open>src/db-leveldb/txdb-leveldb.cpp\<close>): \<open>mapCache\<close> with the time of the last
  use, and \<open>setLookup\<close>, the same entries in the order of these times. Other theories read and write the
  table directly; here it is shown that the cache makes no difference, that its two parts stay
  consistent, so that none of its exceptions and assertions can occur, and that it is bounded.

  Each section under the lock is one function; \<open>None\<close> is an exception or a failed assertion. The times of the
  clock are arguments. The pointers that are copied into an entry are not part of it.
\<close>

section \<open>The cache\<close>

record index_cache =
  mapCache :: "(uint256, int \<times> CDiskBlockIndex) omap"
  setLookup :: "(int \<times> uint256) list"

definition index_cache_new :: index_cache where
  "index_cache_new = \<lparr>mapCache = [], setLookup = []\<rparr>"

definition MAX_CACHE_SIZE :: nat where "MAX_CACHE_SIZE = 30000"

definition RemoveFromCacheLocked :: "uint256 \<Rightarrow> index_cache \<Rightarrow> (bool \<times> index_cache) option" where
  "RemoveFromCacheLocked h c =
     (case map_of (mapCache c) h of
        None \<Rightarrow> Some (False, c)
      | Some (t, _) \<Rightarrow>
          if (t, h) \<notin> set (setLookup c) then None
          else Some (True, c\<lparr>setLookup := removeAll (t, h) (setLookup c), mapCache := om_erase h (mapCache c)\<rparr>))"

definition EvictOldestIfFullLocked :: "index_cache \<Rightarrow> index_cache option" where
  "EvictOldestIfFullLocked c =
     (if length (mapCache c) < MAX_CACHE_SIZE then Some c
      else case setLookup c of
             [] \<Rightarrow> None
           | (t, h) # r \<Rightarrow>
               if \<not> om_count h (mapCache c) then None
               else Some (c\<lparr>mapCache := om_erase h (mapCache c), setLookup := r\<rparr>))"

definition InsertIntoCacheLocked :: "int \<Rightarrow> uint256 \<Rightarrow> CDiskBlockIndex \<Rightarrow> index_cache \<Rightarrow> index_cache option" where
  "InsertIntoCacheLocked nMicroTime h d c =
     (let c = c\<lparr>mapCache := om_put h (nMicroTime, d) (mapCache c), setLookup := insort_insert (nMicroTime, h) (setLookup c)\<rparr>
      in if length (setLookup c) = length (mapCache c) then Some c else None)"

section \<open>Reading and writing\<close>

definition BLOCK_EXTENDED_SER :: u32 where "BLOCK_EXTENDED_SER = push_bit 31 1"

definition SetExtendedSerialization :: "CDiskBlockIndex \<Rightarrow> CDiskBlockIndex" where
  "SetExtendedSerialization d = d\<lparr>db_nFlags := or (db_nFlags d) BLOCK_EXTENDED_SER\<rparr>"

text \<open>The first section of a read: the entry, if it is cached.\<close>

definition cache_lookup :: "int \<Rightarrow> uint256 \<Rightarrow> index_cache \<Rightarrow> (CDiskBlockIndex option \<times> index_cache) option" where
  "cache_lookup nMicroTime h c =
     (case map_of (mapCache c) h of
        None \<Rightarrow> Some (None, c)
      | Some (_, d) \<Rightarrow> do {
          (_, c) \<leftarrow> RemoveFromCacheLocked h c;
          c \<leftarrow> InsertIntoCacheLocked nMicroTime h d c;
          Some (Some d, c) })"

text \<open>The second section of a read, and the section of a write.\<close>

definition cache_store :: "int \<Rightarrow> uint256 \<Rightarrow> CDiskBlockIndex \<Rightarrow> index_cache \<Rightarrow> index_cache option" where
  "cache_store nMicroTime h d c = do {
     (fRemoved, c) \<leftarrow> RemoveFromCacheLocked h c;
     c \<leftarrow> (if fRemoved then Some c else EvictOldestIfFullLocked c);
     InsertIntoCacheLocked nMicroTime h d c }"

text \<open>\<open>fLock\<close> tells whether the lock was free. The entry is \<open>None\<close> if the table does not have it, which is an error of the caller.\<close>

definition ReadDiskBlockIndex_cached ::
  "CTxDB \<Rightarrow> bool \<Rightarrow> int \<Rightarrow> int \<Rightarrow> uint256 \<Rightarrow> index_cache \<Rightarrow> (CDiskBlockIndex option \<times> index_cache) option" where
  "ReadDiskBlockIndex_cached db fLock nTime1 nTime2 h c = do {
     (found, c) \<leftarrow> (if fLock then cache_lookup nTime1 h c else Some (None, c));
     (case found of
        Some d \<Rightarrow> Some (Some d, c)
      | None \<Rightarrow>
          (case txdb_block db h of
             None \<Rightarrow> Some (None, c)
           | Some d \<Rightarrow> map_option (Pair (Some (SetExtendedSerialization d))) (cache_store nTime2 h (SetExtendedSerialization d) c))) }"

definition WriteDiskBlockIndex_cached ::
  "blkchk_env \<Rightarrow> CTxDB \<Rightarrow> int \<Rightarrow> uint256 \<Rightarrow> CDiskBlockIndex \<Rightarrow> index_cache \<Rightarrow> (CTxDB option \<times> index_cache) option" where
  "WriteDiskBlockIndex_cached env db nTime h d c =
     (case WriteDiskBlockIndex env db h d of
        None \<Rightarrow> Some (None, c)
      | Some db \<Rightarrow> map_option (Pair (Some db)) (cache_store nTime h d c))"

section \<open>The two parts agree\<close>

definition same_entries :: "index_cache \<Rightarrow> bool" where
  "same_entries c \<longleftrightarrow> om_wf (mapCache c) \<and> sorted (setLookup c) \<and> distinct (setLookup c) \<and>
     (\<forall>t h. (t, h) \<in> set (setLookup c) \<longleftrightarrow> (\<exists>d. map_of (mapCache c) h = Some (t, d)))"

definition cache_ok :: "index_cache \<Rightarrow> bool" where
  "cache_ok c \<longleftrightarrow> same_entries c \<and> length (mapCache c) \<le> MAX_CACHE_SIZE"

lemma same_entries_length:
  assumes "same_entries c"
  shows "length (setLookup c) = length (mapCache c)"
proof -
  have wf: "om_wf (mapCache c)" using assms by (simp add: same_entries_def)
  have "set (setLookup c) = (\<lambda>(h, v). (fst v, h)) ` set (mapCache c)" (is "?l = ?r")
  proof (rule set_eqI)
    fix x :: "int \<times> uint256"
    obtain t h where x: "x = (t, h)" by force
    have "x \<in> ?l \<longleftrightarrow> (\<exists>d. (h, t, d) \<in> set (mapCache c))"
      using assms om_in_set_iff [OF wf] by (simp add: same_entries_def x)
    also have "\<dots> \<longleftrightarrow> x \<in> ?r" by (force simp: x)
    finally show "x \<in> ?l \<longleftrightarrow> x \<in> ?r" .
  qed
  moreover have "inj_on (\<lambda>(h, v). (fst v, h)) (set (mapCache c))"
    using om_in_set_iff [OF wf] by (auto simp: inj_on_def)
  ultimately have "card (set (setLookup c)) = card (set (mapCache c))" by (simp add: card_image)
  then show ?thesis using assms om_wf_distinct [OF wf]
    by (simp add: same_entries_def distinct_card distinct_map)
qed

lemma om_erase_absent: "map_of m k = None \<Longrightarrow> om_erase k m = m"
  by (auto simp: om_erase_def map_of_eq_None_iff intro!: filter_True)

lemma length_om_erase: "om_wf m \<Longrightarrow> map_of m k = Some v \<Longrightarrow> Suc (length (om_erase k m)) = length m"
proof (induction m)
  case (Cons e m)
  obtain k' v' where e: "e = (k', v')" by force
  show ?case
  proof (cases "k' = k")
    case True
    then have "map_of m k = None" using Cons.prems(1) e by (auto simp: om_wf_Cons map_of_eq_None_iff)
    then show ?thesis using True e om_erase_absent [of m k] by (simp add: om_erase_def)
  next
    case False
    then show ?thesis using Cons e by (simp add: om_erase_def om_wf_Cons)
  qed
qed simp

lemma length_om_put: "map_of m k = None \<Longrightarrow> length (om_put k v m) = Suc (length m)"
  by (induction m) (auto split: if_splits)

text \<open>The three helpers.\<close>

lemma Remove_ok:
  assumes "same_entries c"
  shows "\<exists>c'. RemoveFromCacheLocked h c = Some (map_of (mapCache c) h \<noteq> None, c') \<and> same_entries c' \<and>
    mapCache c' = om_erase h (mapCache c)"
proof (cases "map_of (mapCache c) h")
  case None
  then show ?thesis using assms by (simp add: RemoveFromCacheLocked_def om_erase_absent)
next
  case (Some v)
  obtain t d where v: "v = (t, d)" by force
  have "(t, h) \<in> set (setLookup c)" using assms Some v by (simp add: same_entries_def)
  moreover have "same_entries (c\<lparr>setLookup := removeAll (t, h) (setLookup c), mapCache := om_erase h (mapCache c)\<rparr>)"
    using assms Some v by (auto simp: same_entries_def removeAll_filter_not_eq sorted_wrt_filter)
  ultimately show ?thesis using Some v by (simp add: RemoveFromCacheLocked_def)
qed

lemma Evict_ok:
  assumes "cache_ok c"
  shows "\<exists>c'. EvictOldestIfFullLocked c = Some c' \<and> same_entries c' \<and> length (mapCache c') < MAX_CACHE_SIZE \<and>
    (\<forall>h v. map_of (mapCache c') h = Some v \<longrightarrow> map_of (mapCache c) h = Some v)"
proof (cases "length (mapCache c) < MAX_CACHE_SIZE")
  case True
  then show ?thesis using assms by (simp add: EvictOldestIfFullLocked_def cache_ok_def)
next
  case False
  have se: "same_entries c" and full: "length (mapCache c) = MAX_CACHE_SIZE" using assms False by (simp_all add: cache_ok_def)
  then have "setLookup c \<noteq> []" using same_entries_length [OF se] by (auto simp: MAX_CACHE_SIZE_def)
  then obtain t h r where l: "setLookup c = (t, h) # r" by (cases "setLookup c") auto
  then obtain d where d: "map_of (mapCache c) h = Some (t, d)" using se unfolding same_entries_def by (metis list.set_intros(1))
  let ?c = "c\<lparr>mapCache := om_erase h (mapCache c), setLookup := r\<rparr>"
  have ex: "(u, k) \<in> set (setLookup c) \<longleftrightarrow> (\<exists>d. map_of (mapCache c) k = Some (u, d))" for u k
    using se by (simp add: same_entries_def)
  have di: "distinct (setLookup c)" using se by (simp add: same_entries_def)
  have r1: "(u, h) \<notin> set r" for u using ex [of u h] l d di by auto
  have r2: "(u, k) \<in> set r \<longleftrightarrow> (\<exists>d. map_of (mapCache c) k = Some (u, d))" if "k \<noteq> h" for u k using ex [of u k] l that by simp
  have "((u, k) \<in> set r) = (\<exists>d. map_of (om_erase h (mapCache c)) k = Some (u, d))" for u k
    using r1 [of u] r2 [of k u] by (cases "k = h") simp_all
  then have "same_entries ?c" using se l by (simp add: same_entries_def)
  moreover have "Suc (length (om_erase h (mapCache c))) = MAX_CACHE_SIZE"
    using length_om_erase [of "mapCache c" h] se d full by (simp add: same_entries_def)
  ultimately show ?thesis using False l d by (simp add: EvictOldestIfFullLocked_def om_count_def)
qed

lemma Insert_ok:
  assumes "same_entries c" "map_of (mapCache c) h = None" "length (mapCache c) < MAX_CACHE_SIZE"
  shows "\<exists>c'. InsertIntoCacheLocked t h d c = Some c' \<and> cache_ok c' \<and> mapCache c' = om_put h (t, d) (mapCache c)"
proof -
  let ?c = "c\<lparr>mapCache := om_put h (t, d) (mapCache c), setLookup := insort_insert (t, h) (setLookup c)\<rparr>"
  have "same_entries ?c" using assms(1,2) by (auto simp: same_entries_def set_insort_insert sorted_insort_insert distinct_insort_insert)
  moreover have "length (mapCache ?c) = Suc (length (mapCache c))"
    using assms(1,2) by (simp add: length_om_put same_entries_def)
  ultimately show ?thesis using assms(3) same_entries_length [of ?c] by (simp add: InsertIntoCacheLocked_def cache_ok_def Let_def)
qed

section \<open>Reading and writing\<close>

lemma cache_store_ok:
  assumes "cache_ok c"
  shows "\<exists>c'. cache_store t h d c = Some c' \<and> cache_ok c' \<and> map_of (mapCache c') h = Some (t, d) \<and>
    (\<forall>k v. k \<noteq> h \<longrightarrow> map_of (mapCache c') k = Some v \<longrightarrow> map_of (mapCache c) k = Some v)"
proof -
  have se: "same_entries c" "length (mapCache c) \<le> MAX_CACHE_SIZE" using assms by (simp_all add: cache_ok_def)
  from Remove_ok [OF se(1)] obtain c1 where c1: "RemoveFromCacheLocked h c = Some (map_of (mapCache c) h \<noteq> None, c1)"
    "same_entries c1" "mapCache c1 = om_erase h (mapCache c)" by blast
  obtain c2 where c2: "(if map_of (mapCache c) h \<noteq> None then Some c1 else EvictOldestIfFullLocked c1) = Some c2" "same_entries c2"
    "length (mapCache c2) < MAX_CACHE_SIZE" "\<And>k v. map_of (mapCache c2) k = Some v \<Longrightarrow> map_of (mapCache c1) k = Some v"
  proof (cases "map_of (mapCache c) h")
    case None
    then have "cache_ok c1" using c1 se by (simp add: cache_ok_def om_erase_absent)
    from Evict_ok [OF this] None that show ?thesis by auto
  next
    case (Some v)
    then have "length (mapCache c1) < MAX_CACHE_SIZE"
      using length_om_erase [of "mapCache c" h v] se c1(3) by (simp add: same_entries_def)
    then show ?thesis using Some that [of c1] c1(2) by simp
  qed
  have "map_of (mapCache c1) h = None" using c1(3) by simp
  then have "map_of (mapCache c2) h = None" using c2(4) by (metis not_None_eq)
  from Insert_ok [OF c2(2) this c2(3), of t d] obtain c3 where
    c3: "InsertIntoCacheLocked t h d c2 = Some c3" "cache_ok c3" "mapCache c3 = om_put h (t, d) (mapCache c2)" by blast
  moreover have "cache_store t h d c = Some c3" using c1(1) c2(1) c3(1) by (simp add: cache_store_def)
  moreover have "map_of (mapCache c) k = Some v" if "k \<noteq> h" "map_of (mapCache c3) k = Some v" for k v
    using that c3(3) c2(4) [of k v] c1(3) by simp
  ultimately show ?thesis by auto
qed

lemma cache_lookup_ok:
  assumes "cache_ok c"
  shows "\<exists>c'. cache_lookup t h c = Some (map_option snd (map_of (mapCache c) h), c') \<and> cache_ok c' \<and>
    (\<forall>k. map_option snd (map_of (mapCache c') k) = map_option snd (map_of (mapCache c) k))"
proof (cases "map_of (mapCache c) h")
  case None
  then show ?thesis using assms by (simp add: cache_lookup_def)
next
  case (Some v)
  obtain u d where v: "v = (u, d)" by force
  have se: "same_entries c" "length (mapCache c) \<le> MAX_CACHE_SIZE" using assms by (simp_all add: cache_ok_def)
  from Remove_ok [OF se(1), of h] Some obtain c1 where c1: "RemoveFromCacheLocked h c = Some (True, c1)" "same_entries c1"
    "mapCache c1 = om_erase h (mapCache c)" by auto
  have l: "length (mapCache c1) < MAX_CACHE_SIZE"
    using length_om_erase [of "mapCache c" h v] Some se c1(3) by (simp add: same_entries_def)
  have "map_of (mapCache c1) h = None" using c1(3) by simp
  from Insert_ok [OF c1(2) this l, of t d] obtain c2 where c2: "InsertIntoCacheLocked t h d c1 = Some c2" "cache_ok c2"
    "mapCache c2 = om_put h (t, d) (mapCache c1)" by blast
  have "map_option snd (map_of (mapCache c2) k) = map_option snd (map_of (mapCache c) k)" for k
    using c2(3) c1(3) Some v by simp
  then show ?thesis using Some v c1(1) c2 by (simp add: cache_lookup_def)
qed

text \<open>What is cached is in the table, up to the flag that a read sets.\<close>

definition coherent :: "CTxDB \<Rightarrow> index_cache \<Rightarrow> bool" where
  "coherent db c \<longleftrightarrow> (\<forall>h t d. map_of (mapCache c) h = Some (t, d) \<longrightarrow>
     map_option SetExtendedSerialization (txdb_block db h) = Some (SetExtendedSerialization d))"

lemma SetExtendedSerialization_idem [simp]:
  "SetExtendedSerialization (SetExtendedSerialization d) = SetExtendedSerialization d"
  by (simp add: SetExtendedSerialization_def or.assoc)

lemma read_ok:
  assumes "cache_ok c" "coherent db c"
  shows "\<exists>v c'. ReadDiskBlockIndex_cached db fLock t1 t2 h c = Some (v, c') \<and> cache_ok c' \<and> coherent db c' \<and>
    map_option SetExtendedSerialization v = map_option SetExtendedSerialization (txdb_block db h)"
proof -
  obtain v c1 where c1: "(if fLock then cache_lookup t1 h c else Some (None, c)) = Some (v, c1)" "cache_ok c1" "coherent db c1"
    "v \<noteq> None \<Longrightarrow> map_option SetExtendedSerialization v = map_option SetExtendedSerialization (txdb_block db h)"
  proof (cases fLock)
    case True
    from cache_lookup_ok [OF assms(1), of t1 h] obtain c' where c': "cache_lookup t1 h c = Some (map_option snd (map_of (mapCache c) h), c')"
      "cache_ok c'" "\<And>k. map_option snd (map_of (mapCache c') k) = map_option snd (map_of (mapCache c) k)" by blast
    have "coherent db c'" unfolding coherent_def
    proof (intro allI impI)
      fix k t d assume "map_of (mapCache c') k = Some (t, d)"
      then obtain u where "map_of (mapCache c) k = Some (u, d)" using c'(3) [of k] by (cases "map_of (mapCache c) k") auto
      then show "map_option SetExtendedSerialization (txdb_block db k) = Some (SetExtendedSerialization d)"
        using assms(2) by (auto simp: coherent_def)
    qed
    moreover have "map_option SetExtendedSerialization w = map_option SetExtendedSerialization (txdb_block db h)"
      if "w = map_option snd (map_of (mapCache c) h)" "w \<noteq> None" for w
      using that assms(2) by (force simp: coherent_def)
    ultimately show ?thesis using that c' True by auto
  qed (use that assms in auto)
  show ?thesis
  proof (cases v)
    case (Some d)
    then show ?thesis using c1 by (simp add: ReadDiskBlockIndex_cached_def)
  next
    case None
    show ?thesis
    proof (cases "txdb_block db h")
      case (Some d)
      from cache_store_ok [OF c1(2), of t2 h "SetExtendedSerialization d"] obtain c2 where
        c2: "cache_store t2 h (SetExtendedSerialization d) c1 = Some c2" "cache_ok c2"
        "map_of (mapCache c2) h = Some (t2, SetExtendedSerialization d)"
        "\<And>k v. k \<noteq> h \<Longrightarrow> map_of (mapCache c2) k = Some v \<Longrightarrow> map_of (mapCache c1) k = Some v" by blast
      have "coherent db c2" unfolding coherent_def
      proof (intro allI impI)
        fix k t e assume "map_of (mapCache c2) k = Some (t, e)"
        then show "map_option SetExtendedSerialization (txdb_block db k) = Some (SetExtendedSerialization e)"
          using c2(3,4) c1(3) Some by (cases "k = h") (auto simp: coherent_def)
      qed
      then show ?thesis using c1(1) None Some c2 by (simp add: ReadDiskBlockIndex_cached_def)
    qed (use c1 None in \<open>simp add: ReadDiskBlockIndex_cached_def\<close>)
  qed
qed

lemma write_ok:
  assumes "cache_ok c" "coherent db c"
  shows "\<exists>c'. WriteDiskBlockIndex_cached env db t h d c = Some (WriteDiskBlockIndex env db h d, c') \<and> cache_ok c' \<and>
    coherent (case WriteDiskBlockIndex env db h d of None \<Rightarrow> db | Some db' \<Rightarrow> db') c'"
proof (cases "bc_write_block_ok env h")
  case True
  from cache_store_ok [OF assms(1), of t h d] obtain c2 where c2: "cache_store t h d c = Some c2" "cache_ok c2"
    "map_of (mapCache c2) h = Some (t, d)"
    "\<And>k v. k \<noteq> h \<Longrightarrow> map_of (mapCache c2) k = Some v \<Longrightarrow> map_of (mapCache c) k = Some v" by blast
  have "coherent (db\<lparr>txdb_block := (txdb_block db)(h \<mapsto> d)\<rparr>) c2" unfolding coherent_def
  proof (intro allI impI)
    fix k u e assume "map_of (mapCache c2) k = Some (u, e)"
    then show "map_option SetExtendedSerialization (txdb_block (db\<lparr>txdb_block := (txdb_block db)(h \<mapsto> d)\<rparr>) k) =
        Some (SetExtendedSerialization e)"
      using c2(3,4) assms(2) by (cases "k = h") (auto simp: coherent_def)
  qed
  then show ?thesis using True c2 by (simp add: WriteDiskBlockIndex_cached_def WriteDiskBlockIndex_def)
qed (use assms in \<open>simp add: WriteDiskBlockIndex_cached_def WriteDiskBlockIndex_def\<close>)

section \<open>Sequences of operations\<close>

datatype index_op = ReadIndex bool int int uint256 | WriteIndex int uint256 CDiskBlockIndex

text \<open>The entries that the reads return, and the table at the end, with the cache and without.\<close>

fun run_cached ::
  "blkchk_env \<Rightarrow> index_op list \<Rightarrow> CTxDB \<Rightarrow> index_cache \<Rightarrow> (CDiskBlockIndex option list \<times> CTxDB \<times> index_cache) option" where
  "run_cached env [] db c = Some ([], db, c)"
| "run_cached env (ReadIndex fLock t1 t2 h # ops) db c = do {
     (v, c) \<leftarrow> ReadDiskBlockIndex_cached db fLock t1 t2 h c;
     (vs, db, c) \<leftarrow> run_cached env ops db c;
     Some (v # vs, db, c) }"
| "run_cached env (WriteIndex t h d # ops) db c = do {
     (w, c) \<leftarrow> WriteDiskBlockIndex_cached env db t h d c;
     run_cached env ops (case w of None \<Rightarrow> db | Some db' \<Rightarrow> db') c }"

fun run_plain :: "blkchk_env \<Rightarrow> index_op list \<Rightarrow> CTxDB \<Rightarrow> CDiskBlockIndex option list \<times> CTxDB" where
  "run_plain env [] db = ([], db)"
| "run_plain env (ReadIndex fLock t1 t2 h # ops) db = (case run_plain env ops db of (vs, db') \<Rightarrow> (txdb_block db h # vs, db'))"
| "run_plain env (WriteIndex t h d # ops) db =
     run_plain env ops (case WriteDiskBlockIndex env db h d of None \<Rightarrow> db | Some db' \<Rightarrow> db')"

lemma run_cached_plain:
  assumes "cache_ok c" "coherent db c"
  shows "\<exists>vs c'. run_cached env ops db c = Some (vs, snd (run_plain env ops db), c') \<and> cache_ok c' \<and>
    map (map_option SetExtendedSerialization) vs = map (map_option SetExtendedSerialization) (fst (run_plain env ops db))"
  using assms
proof (induction ops arbitrary: db c)
  case (Cons op ops)
  show ?case
  proof (cases op)
    case (ReadIndex fLock t1 t2 h)
    from read_ok [OF Cons.prems, of fLock t1 t2 h] obtain v c1 where
      c1: "ReadDiskBlockIndex_cached db fLock t1 t2 h c = Some (v, c1)" "cache_ok c1" "coherent db c1"
      "map_option SetExtendedSerialization v = map_option SetExtendedSerialization (txdb_block db h)" by blast
    from Cons.IH [OF c1(2,3)] c1(1,4) ReadIndex show ?thesis by (auto split: prod.splits)
  next
    case (WriteIndex t h d)
    from write_ok [OF Cons.prems, of env t h d] obtain c1 where
      c1: "WriteDiskBlockIndex_cached env db t h d c = Some (WriteDiskBlockIndex env db h d, c1)" "cache_ok c1"
      "coherent (case WriteDiskBlockIndex env db h d of None \<Rightarrow> db | Some db' \<Rightarrow> db') c1" by blast
    from Cons.IH [OF c1(2,3)] c1(1) WriteIndex show ?thesis by auto
  qed
qed simp

section \<open>Properties\<close>

text \<open>
  C20. The cache of block index entries is transparent: from the empty cache, every sequence of reads and writes runs without
  an exception or a failed assertion, leaves the same table as without the cache and
  reads the same entries up to the serialization flag that a read sets, whatever the clock shows and
  whenever the lock is taken. The cache never holds more than 30000 entries, in both its parts.
\<close>

theorem index_cache_transparent:
  "\<exists>vs c. run_cached env ops db index_cache_new = Some (vs, snd (run_plain env ops db), c) \<and>
     map (map_option SetExtendedSerialization) vs = map (map_option SetExtendedSerialization) (fst (run_plain env ops db)) \<and>
     length (mapCache c) \<le> 30000 \<and> length (setLookup c) = length (mapCache c)"
proof -
  have "cache_ok index_cache_new" "coherent db index_cache_new"
    by (simp_all add: cache_ok_def same_entries_def index_cache_new_def coherent_def)
  from run_cached_plain [OF this, of env ops] same_entries_length show ?thesis
    by (auto simp: cache_ok_def MAX_CACHE_SIZE_def)
qed

end
