(* ===== verification/Spec2Isabelle.thy ===== *)
theory Spec2Isabelle
  imports SpendProps ChainProps BlockIndexCache QPPower Vchnum
begin

text \<open>
  A verification library for the core of Stealth (XST): the qPoS (quantum proof of stake) registry, the
  transactions that carry its operations, the script interpreter, the ledger of unspent outputs with the memory pool, and
  feeless transactions with their Argon2 work proofs. All paths are relative to \<^verbatim>\<open>src/src/\<close>.

  \<^bold>\<open>The program.\<close> Blocks are produced by registered stakers, one every five seconds. The staker
  registry (\<^verbatim>\<open>qpos/QPRegistry.cpp\<close>) holds the stakers, the balances of the keys that earn rewards,
  the aliases and the NFTs; it owns the queue (\<^verbatim>\<open>qpos/QPQueue.cpp\<close>) of the current round, that
  assigns one slot to every enabled staker, and two power rounds (\<^verbatim>\<open>qpos/QPPowerRound.cpp\<close>) that
  measure which share of the staked weight is producing. \<open>UpdateOnNewTime\<close> moves the clock,
  \<open>UpdateOnNewBlock\<close> applies a block: it moves the clock to the time of the block, applies the
  registry operations found in its transactions, checks the slot, pays the reward and records the
  produced slot. Operations reach the registry as byte vectors in transaction scripts, which
  \<open>Solver\<close> (\<^verbatim>\<open>blockchain/script.cpp\<close>) recognises and \<^verbatim>\<open>qpos/qPoS.cpp\<close> decodes into \<open>QPTxDetails\<close>.
  A transaction pays a fee or, as its last output, gives a work proof (\<^verbatim>\<open>feeless/Feework.cpp\<close>): a
  number under which the Argon2d hash (\<^verbatim>\<open>crypto/argon2\<close>) of a recent block and the transaction is
  small. Hashes of one node share a buffer. A block is checked on its own (\<open>CheckBlock\<close>) and then connected
  (\<open>ConnectBlock\<close>): every input must refer to an output that is in the index of transactions (\<^verbatim>\<open>db-leveldb\<close>) or in the
  block and is not spent; the output is marked with the position of its spender, the registry checks the
  operations, and the block index records what was minted. Of several branches the one with most trust is the best chain
  (\<open>SetBestChain\<close>); when another branch takes over, blocks are disconnected and connected in one transaction of the data base
  (\<open>Reorganize\<close>) and the registry is replayed from a snapshot. Whether an input may spend an output is decided by running two
  scripts (\<open>EvalScript\<close>, \<^verbatim>\<open>blockchain/script.cpp\<close>). Transactions wait for a block in the memory pool, which accepts them under
  the same rules.

  \<^bold>\<open>The theories.\<close>
  \<^item> \<open>Prelude\<close>, \<open>OrdMap\<close>: collections, facts on words, and \<open>std::map\<close> as an ordered association
    list with the locale \<open>ordered_map\<close> of its laws.
  \<^item> \<open>Uisqrt\<close> (\<^verbatim>\<open>util/uisqrt.cpp\<close>): the integer square root returns the floor of the root.
  \<^item> \<open>ChainParams\<close> (\<^verbatim>\<open>blockchain/chainparams.cpp\<close>, \<^verbatim>\<open>qpos/QPConstants.hpp\<close>, the price and reward rules
    of \<^verbatim>\<open>blockchain/main.cpp\<close>): the fork schedule is monotone, prices follow tiers.
  \<^item> \<open>QPQueue\<close> (\<^verbatim>\<open>qpos/QPQueue.cpp\<close>, \<^verbatim>\<open>QPSlotInfo.cpp\<close>, \<^verbatim>\<open>QPWindow.hpp\<close>): slots, windows and the bit vector
    of produced blocks; the locale \<open>slot_schedule\<close> states what its clients rely on.
  \<^item> \<open>Vchnum\<close> (\<^verbatim>\<open>primitives/vchnum.cpp\<close>): byte vectors as integers.
  \<^item> \<open>QPTx\<close> (\<^verbatim>\<open>qpos/qPoS.cpp\<close>, \<^verbatim>\<open>QPTxDetails.cpp\<close>, \<^verbatim>\<open>aliases.cpp\<close>, \<^verbatim>\<open>meta.cpp\<close>): decoded operations.
  \<^item> \<open>QPStaker\<close>, \<open>QPPower\<close>: one staker with its block histories, and the power rounds.
  \<^item> \<open>QPRegistry\<close>, \<open>QPRegistryOps\<close>, \<open>QPRegistryUpdate\<close> (\<^verbatim>\<open>qpos/QPRegistry.cpp\<close>): state and queries, the
    operations of a block, and the clock.
  \<^item> \<open>QPRegistryInv\<close>, \<open>QPRegistryTime\<close>, \<open>QPRegistryBlock\<close>, \<open>QPRegistryProps\<close>: its invariants. The
    locale \<open>block_ops\<close> lifts what one operation keeps to the operations of a block and is
    interpreted once per invariant.
  \<^item> \<open>CBytes\<close>, \<open>Blake2b\<close> (\<^verbatim>\<open>crypto/argon2/src/blake2\<close>): bytes and words in C memory, and the hash
    BLAKE2b, equal to the function of RFC 7693 for every way to cut up the message.
  \<^item> \<open>Argon2Core\<close>, \<open>Argon2\<close> (\<^verbatim>\<open>crypto/argon2/src/ref.c\<close>, \<^verbatim>\<open>core.c\<close>, \<^verbatim>\<open>argon2.c\<close>): the memory-hard function with
    persistent buffers and threads. \<open>Argon2Fill\<close> shows that the threads of a slice commute, through the
    locale \<open>lane_system\<close>; \<open>Argon2Ctx\<close> that the digest is the tag of RFC 9106 whatever the buffer held and however the
    threads interleaved. \<open>Argon2Hash\<close> adds the encoder and the one-call interface.
  \<^item> \<open>Script\<close> (\<^verbatim>\<open>blockchain/script.h\<close>, \<^verbatim>\<open>script.cpp\<close>): building, parsing and recognising scripts.
  \<^item> \<open>Interp\<close>, \<open>InterpProps\<close> (\<^verbatim>\<open>blockchain/script.cpp\<close>, numbers of \<^verbatim>\<open>primitives/bignum.h\<close>, signature elements of \<^verbatim>\<open>wallet/key.cpp\<close>): the
    script interpreter with all its opcodes, the digest that is signed and the signature cache. Limits on scripts, which
    outputs can be spent and by whom, distinct keys of a multi-signature, and that the cache changes no result.
  \<^item> \<open>Serialize\<close> (\<^verbatim>\<open>util/serialize.h\<close>, the data of \<^verbatim>\<open>blockchain/main.h\<close>): the wire format; the locale \<open>codec\<close> lifts
    round trips from items to vectors.
  \<^item> \<open>Tx\<close> (\<^verbatim>\<open>blockchain/main.h\<close>, \<^verbatim>\<open>main.cpp\<close>): identity, context-free checks, fees and hardness of transactions.
  \<^item> \<open>Feework\<close> (\<^verbatim>\<open>feeless/Feework.cpp\<close>, \<^verbatim>\<open>FeeworkBuffer.cpp\<close>, \<open>CheckFeework\<close> of \<^verbatim>\<open>main.cpp\<close>): exactly which
    work proofs are accepted.
  \<^item> \<open>QPTxCheck\<close>, \<open>QPTxCheckProps\<close> (\<open>CheckQPoS\<close>, \<open>CheckClaim\<close>, \<open>CheckPurchases\<close> and their helpers in \<^verbatim>\<open>main.cpp\<close>): who may
    change keys, states and meta-data and claim rewards, and that checked operations are applied by the registry.
  \<^item> \<open>Block\<close> (class \<open>CBlock\<close> of \<^verbatim>\<open>main.h\<close>): hashes, Merkle tree, serialization; branches lead to the root.
  \<^item> \<open>Difficulty\<close> (\<^verbatim>\<open>primitives/bignum.h\<close>, \<^verbatim>\<open>main.cpp\<close>): compact targets and retargeting.
  \<^item> \<open>Inputs\<close>, \<open>Ledger\<close> (\<^verbatim>\<open>main.cpp\<close>, \<^verbatim>\<open>db-leveldb/txdb-leveldb.cpp\<close>): fetching, connecting and disconnecting
    inputs; checking, connecting and disconnecting blocks.
  \<^item> \<open>LedgerProps\<close>: the abstract ledger, a map from transactions to the marks of their outputs, which \<open>ConnectBlock\<close>
    refines; no double spend; \<open>DisconnectBlock\<close> is the inverse; what a block mints.
  \<^item> \<open>MemPool\<close>, \<open>MemPoolProps\<close> (class \<open>CTxMemPool\<close>): transactions that wait for a block. Every reachable pool is consistent,
    recursive removal takes away exactly the dependent transactions, and accepted inputs are unspent and authorised.
    The bound on the recursion is the number of pooled transactions, which is shown to be enough.
  \<^item> \<open>Chain\<close>, \<open>ChainProps\<close> (\<open>SetBestChain\<close>, \<open>Reorganize\<close> and \<open>RewindRegistry\<close> of \<^verbatim>\<open>main.cpp\<close>, transactions of \<^verbatim>\<open>db-leveldb/txdb-leveldb.cpp\<close>):
    the index of transactions is always that of the best chain, also after a reorganisation and after a refused block. The loops along
    \<open>pnext\<close> are partial functions; they end when the links are those of a chain.
  \<^item> \<open>BlockIndexCache\<close> (\<^verbatim>\<open>db-leveldb/txdb-leveldb.cpp\<close>): the cache in front of the block index is transparent and bounded.
  \<^item> \<open>SpendProps\<close>: the memory pool run with the modelled interpreter; an accepted spend of an output paid to a key carries
    a signature of that key over the spending transaction.

  \<^bold>\<open>Conventions.\<close> Unsigned integers are words of their width; signed integers, which must not
  overflow in C++, are \<open>int\<close>, with the conversions to and from unsigned written out. Bit sets are
  words. A method that returns a flag and fills references returns an option or a pair; a method
  that fails after it has changed the object returns the changed object. Log output is left out.
  What a method takes from outside its class (clock, hash functions, Boost's shuffler, data base,
  allocator and thread scheduler) is a field of a record: \<open>qp_env\<close>, \<open>argon2_env\<close>, \<open>tx_env\<close>, \<open>fw_env\<close>,
  \<open>chk_env\<close>, \<open>led_env\<close>, \<open>blk_env\<close>, \<open>blkchk_env\<close>, \<open>scr_env\<close>, \<open>mp_env\<close>, \<open>chain_env\<close>; among them the verification of signatures, the X13 hash and the
  block files. The ledger takes the script interpreter as a field too, which \<open>SpendProps\<close> fills with the model of \<open>Interp\<close>. A check that may also run into undefined behaviour or an uncaught exception returns a \<open>verdict\<close>.

  \<^bold>\<open>Loops.\<close> All loops are structural or have a termination proof, but the catch-up loop of the
  registry and the two replays along \<open>pnext\<close>, which are partial functions with proofs that they return.

  \<^bold>\<open>Not modelled.\<close> The network, the storage engines, the wallet's key store and coin selection, the user interfaces, RPC
  and JSON, the historical proof-of-stake kernel, the entry of a block into the index, and the vendored code (Tor, LevelDB, the X13 hash
  functions): they are I/O, presentation, or code the modelled parts only call.
\<close>

end
